(* ===== verification/Prelude.thy ===== *)
theory Prelude
  imports Main "HOL-Library.Word" "HOL-Library.Multiset"
begin

text \<open>
  What the components share: the outcome of a C call (a value, or the fault that ends
  the run), the answers of the allocator, C strings and their library functions, decimal
  printing and reading, the array-shift loop, and the search loops.
\<close>

named_theorems c_simps \<open>unfolding rules of the C library functions\<close>

section \<open>Outcomes\<close>

text \<open>
  A C call either returns a value or does something after which the run has no defined
  continuation: it dereferences NULL, frees what is not the start of a live block, reads a
  variable that was never written, writes outside a buffer or into a constant object,
  unlocks a mutex it does not hold, uses a mutex that is not initialised, fails an assertion
  of a library, writes to a connection nobody reads from (the signal ends the process), or locks a mutex
  its own thread already holds (a self-deadlock of a non-recursive mutex: the call never
  returns).
\<close>

datatype fault =
    Null_deref | Invalid_free | Double_free | Use_after_free | Uninit_read
  | Out_of_bounds | Const_write | Unlock_unheld | Self_deadlock | Int_overflow
  | Va_list_reuse | Bad_mutex | Assert_failed | Broken_pipe

datatype 'a outcome = Ret 'a | Fault fault

primrec obind :: "'a outcome \<Rightarrow> ('a \<Rightarrow> 'b outcome) \<Rightarrow> 'b outcome" where
  "obind (Ret x) f = f x"
| "obind (Fault e) f = Fault e"

lemma obind_eq_Ret [simp]: "obind m f = Ret y \<longleftrightarrow> (\<exists>x. m = Ret x \<and> f x = Ret y)"
  by (cases m) auto

lemma obind_eq_Fault: "obind m f = Fault e \<longleftrightarrow> m = Fault e \<or> (\<exists>x. m = Ret x \<and> f x = Fault e)"
  by (cases m) auto

text \<open>Evaluating a sequence of calls from the front.\<close>

lemma obind_front: "m = m' \<Longrightarrow> obind m f = obind m' f"
  by simp

lemma obind_assoc: "obind (obind m f) g = obind m (\<lambda>x. obind (f x) g)"
  by (cases m) auto

text \<open>A recursion with fuel gives None when the fuel is used up.\<close>

definition rbind :: "'a outcome option \<Rightarrow> ('a \<Rightarrow> 'b outcome option) \<Rightarrow> 'b outcome option" where
  "rbind m f = (case m of None \<Rightarrow> None | Some (Fault e) \<Rightarrow> Some (Fault e) | Some (Ret x) \<Rightarrow> f x)"

section \<open>Allocation answers\<close>

text \<open>
  Whether a call of the allocator succeeds is decided outside the program. A call that
  allocates takes the answers of its next allocations as a list; a list that is used up
  answers success, so \<^term>\<open>[]\<close> is the run in which every allocation succeeds.
\<close>

type_synonym answers = "bool list"

primrec next_answer :: "answers \<Rightarrow> bool \<times> answers" where
  "next_answer [] = (True, [])"
| "next_answer (b # bs) = (b, bs)"

text \<open>\<open>strdup\<close> of a string.\<close>

definition strdup :: "string \<Rightarrow> answers \<Rightarrow> string option \<times> answers" where
  "strdup s as = (case next_answer as of (ok, as1) \<Rightarrow> (if ok then Some s else None, as1))"

section \<open>Mutexes\<close>

text \<open>
  A libuv mutex as the calling thread sees it. It is not recursive.
\<close>

datatype uv_mutex = Mutex_raw | Mutex_free | Mutex_held | Mutex_dead

fun uv_mutex_lock :: "uv_mutex \<Rightarrow> uv_mutex outcome" where
  "uv_mutex_lock Mutex_free = Ret Mutex_held"
| "uv_mutex_lock Mutex_held = Fault Self_deadlock"
| "uv_mutex_lock Mutex_raw = Fault Bad_mutex"
| "uv_mutex_lock Mutex_dead = Fault Bad_mutex"

fun uv_mutex_unlock :: "uv_mutex \<Rightarrow> uv_mutex outcome" where
  "uv_mutex_unlock Mutex_held = Ret Mutex_free"
| "uv_mutex_unlock Mutex_free = Fault Unlock_unheld"
| "uv_mutex_unlock Mutex_raw = Fault Bad_mutex"
| "uv_mutex_unlock Mutex_dead = Fault Bad_mutex"

section \<open>Search and shift loops over arrays\<close>

text \<open>The loop \<^verbatim>\<open>for (i = 0; i < n; i++) if (p(a[i])) return i;\<close>.\<close>

fun find_idx :: "('a \<Rightarrow> bool) \<Rightarrow> 'a list \<Rightarrow> nat option" where
  "find_idx p [] = None"
| "find_idx p (x # xs) = (if p x then Some 0 else map_option Suc (find_idx p xs))"

lemma find_snoc: "find P xs = None \<Longrightarrow> P x \<Longrightarrow> find P (xs @ [x]) = Some x"
  by (induction xs) (auto split: if_splits)

lemma find_idx_None: "find_idx p xs = None \<longleftrightarrow> (\<forall>x \<in> set xs. \<not> p x)"
  by (induction xs) auto

lemma find_idx_SomeD:
  "find_idx p xs = Some i \<Longrightarrow> i < length xs \<and> p (xs ! i) \<and> (\<forall>j < i. \<not> p (xs ! j))"
proof (induction xs arbitrary: i)
  case Nil
  then show ?case by simp
next
  case (Cons x xs)
  show ?case
  proof (cases "p x")
    case True
    with Cons.prems show ?thesis by simp
  next
    case False
    with Cons.prems obtain k where k: "find_idx p xs = Some k" "i = Suc k" by auto
    with Cons.IH [OF k(1)] False show ?thesis by (auto simp: less_Suc_eq_0_disj)
  qed
qed

lemma find_idx_SomeI:
  "i < length xs \<Longrightarrow> p (xs ! i) \<Longrightarrow> \<forall>j < i. \<not> p (xs ! j) \<Longrightarrow> find_idx p xs = Some i"
proof (induction xs arbitrary: i)
  case (Cons x xs)
  show ?case
  proof (cases i)
    case 0
    with Cons.prems show ?thesis by simp
  next
    case (Suc k)
    with Cons.prems have "\<not> p x" "k < length xs" "p (xs ! k)" "\<forall>j < k. \<not> p (xs ! j)" by auto
    with Cons.IH [of k] Suc show ?thesis by simp
  qed
qed simp

lemma find_idx_keys:
  "length ys = length xs \<Longrightarrow> (\<And>n. n < length xs \<Longrightarrow> p (ys ! n) = p (xs ! n)) \<Longrightarrow> find_idx p ys = find_idx p xs"
proof (induction xs arbitrary: ys)
  case (Cons x xs)
  then obtain y zs where ys: "ys = y # zs" by (cases ys) auto
  have "p y = p x" using Cons.prems(2) [of 0] ys by simp
  moreover have "find_idx p zs = find_idx p xs"
  proof (rule Cons.IH)
    show "length zs = length xs" using Cons.prems(1) ys by simp
    show "p (zs ! n) = p (xs ! n)" if "n < length xs" for n
      using Cons.prems(2) [of "Suc n"] that ys by simp
  qed
  ultimately show ?case using ys by simp
qed simp

lemma find_idx_find: "List.find p xs = map_option (\<lambda>i. xs ! i) (find_idx p xs)"
  by (induction xs) (auto simp: option.map_comp comp_def)

lemma find_idx_append:
  "find_idx p (xs @ ys) = (case find_idx p xs of Some i \<Rightarrow> Some i
     | None \<Rightarrow> map_option (\<lambda>i. length xs + i) (find_idx p ys))"
proof (induction xs)
  case Nil
  then show ?case by (cases "find_idx p ys") auto
next
  case (Cons x xs)
  then show ?case by (cases "find_idx p ys") (auto split: option.splits)
qed

lemma find_find_append:
  "List.find p (xs @ ys) = (case List.find p xs of Some x \<Rightarrow> Some x | None \<Rightarrow> List.find p ys)"
  by (induction xs) auto

text \<open>
  The loop that closes the gap at index \<open>j\<close> of an array with \<open>n\<close> used slots:
  \<^verbatim>\<open>for (; j < n - 1; j++) a[j] = a[j + 1];\<close>. The caller then decrements the count, so
  what remains of the array is its first \<open>n - 1\<close> slots.
\<close>

function shift_loop :: "nat \<Rightarrow> nat \<Rightarrow> 'a list \<Rightarrow> 'a list" where
  "shift_loop j n xs = (if j < n - 1 then shift_loop (Suc j) n (xs[j := xs ! Suc j]) else xs)"
  by pat_completeness auto
termination
  by (relation "measure (\<lambda>(j, n, xs). n - j)") auto

declare shift_loop.simps [simp del]

definition remove_slot :: "nat \<Rightarrow> 'a list \<Rightarrow> 'a list" where
  "remove_slot i xs = take (length xs - 1) (shift_loop i (length xs) xs)"

lemma length_shift_loop [simp]: "length (shift_loop j n xs) = length xs"
proof (induction j n xs rule: shift_loop.induct)
  case (1 j n xs)
  then show ?case by (cases "j < n - 1") (simp_all add: shift_loop.simps [of j n xs])
qed

lemma shift_loop_nth:
  "n \<le> length xs \<Longrightarrow> k < n - 1 \<Longrightarrow>
   shift_loop j n xs ! k = (if k < j then xs ! k else xs ! Suc k)"
proof (induction j n xs rule: shift_loop.induct)
  case (1 j n xs)
  show ?case
  proof (cases "j < n - 1")
    case True
    with "1.IH" "1.prems"
    have "shift_loop (Suc j) n (xs[j := xs ! Suc j]) ! k
      = (if k < Suc j then xs[j := xs ! Suc j] ! k else xs[j := xs ! Suc j] ! Suc k)"
      by simp
    with True "1.prems" show ?thesis
      by (auto simp: shift_loop.simps [of j n xs] nth_list_update less_Suc_eq)
  next
    case False
    with "1.prems" show ?thesis by (simp add: shift_loop.simps [of j n xs])
  qed
qed

text \<open>The shift loop deletes exactly the slot it starts at and keeps the order of the rest.\<close>

lemma remove_slot_eq: "i < length xs \<Longrightarrow> remove_slot i xs = take i xs @ drop (Suc i) xs"
  unfolding remove_slot_def
  by (rule nth_equalityI) (auto simp: shift_loop_nth nth_append)

lemma mset_remove_slot:
  "i < length xs \<Longrightarrow> mset xs = add_mset (xs ! i) (mset (remove_slot i xs))"
  by (subst id_take_nth_drop [of i xs]) (auto simp: remove_slot_eq)

lemma set_remove_slot: "i < length xs \<Longrightarrow> set (remove_slot i xs) \<subseteq> set xs"
  by (auto simp: remove_slot_eq dest: in_set_takeD in_set_dropD)

lemma length_remove_slot: "i < length xs \<Longrightarrow> length (remove_slot i xs) = length xs - 1"
  by (simp add: remove_slot_eq)

lemma distinct_map_remove_slot:
  "i < length xs \<Longrightarrow> distinct (map f xs) \<Longrightarrow> distinct (map f (remove_slot i xs))"
  by (simp add: remove_slot_eq take_map [symmetric] drop_map [symmetric] set_take_disj_set_drop_if_distinct)

lemma find_remove_slot_other:
  assumes "i < length xs" and "f (xs ! i) \<noteq> k"
  shows "List.find (\<lambda>x. f x = k) (remove_slot i xs) = List.find (\<lambda>x. f x = k) xs"
proof -
  have "xs = take i xs @ xs ! i # drop (Suc i) xs"
    using assms(1) by (rule id_take_nth_drop)
  then have "List.find (\<lambda>x. f x = k) xs
    = List.find (\<lambda>x. f x = k) (take i xs @ xs ! i # drop (Suc i) xs)" by simp
  with assms show ?thesis by (simp add: remove_slot_eq find_find_append split: option.splits)
qed

lemma find_remove_slot_same:
  assumes "i < length xs" and "distinct (map f xs)" and "f (xs ! i) = k"
  shows "List.find (\<lambda>x. f x = k) (remove_slot i xs) = None"
proof -
  have "\<forall>y \<in> set (remove_slot i xs). f y \<noteq> k"
  proof
    fix y assume "y \<in> set (remove_slot i xs)"
    then obtain m where m: "m < length xs - 1" "y = remove_slot i xs ! m"
      using assms(1) by (auto simp: in_set_conv_nth length_remove_slot)
    define j where "j = (if m < i then m else Suc m)"
    have j: "j < length xs" "j \<noteq> i" "y = xs ! j"
      using m assms(1) by (auto simp: j_def remove_slot_def shift_loop_nth)
    with assms have "map f xs ! j \<noteq> map f xs ! i"
      using nth_eq_iff_index_eq [OF assms(2), of j i] by simp
    with j assms show "f y \<noteq> k" by simp
  qed
  then show ?thesis by (simp add: find_None_iff)
qed

end
