(* ===== verification/Interfaces.thy ===== *)
theory Interfaces
  imports Prelude
begin

text \<open>
  The contracts that several components share, as locales, with what a client may conclude
  from them: bounded queues (the logger's message queue, the thread pool's work queue, the
  per-thread priority queue of the communication module) and keyed tables (the module
  manager's registry, the configuration store, JSON objects, the route table). Each
  component's theory discharges the laws for its own operations by an interpretation.
\<close>

section \<open>Bounded queues\<close>

text \<open>A client's calls on a queue, and what a sequence of calls does: the elements that were
  accepted, the elements that were handed out, and the queue at the end.\<close>

datatype 'a queue_op = Put 'a | Get

fun run_queue ::
  "('q \<Rightarrow> 'a \<Rightarrow> 'q option) \<Rightarrow> ('q \<Rightarrow> ('a \<times> 'q) option) \<Rightarrow> 'a queue_op list \<Rightarrow> 'q
   \<Rightarrow> 'a list \<times> 'a list \<times> 'q" where
  "run_queue enq deq [] q = ([], [], q)"
| "run_queue enq deq (Put x # ops) q =
     (case enq q x of
        None \<Rightarrow> run_queue enq deq ops q
      | Some q' \<Rightarrow> (case run_queue enq deq ops q' of (acc, out, r) \<Rightarrow> (x # acc, out, r)))"
| "run_queue enq deq (Get # ops) q =
     (case deq q of
        None \<Rightarrow> run_queue enq deq ops q
      | Some (x, q') \<Rightarrow> (case run_queue enq deq ops q' of (acc, out, r) \<Rightarrow> (acc, x # out, r)))"

lemma run_queue_Put_cases:
  assumes "run_queue enq deq (Put x # ops) q = (acc, out, r)"
  obtains (full) "enq q x = None" and "run_queue enq deq ops q = (acc, out, r)"
    | (taken) q' acc' where "enq q x = Some q'" and "run_queue enq deq ops q' = (acc', out, r)"
        and "acc = x # acc'"
  using assms by (auto split: option.splits prod.splits)

lemma run_queue_Get_cases:
  assumes "run_queue enq deq (Get # ops) q = (acc, out, r)"
  obtains (empty) "deq q = None" and "run_queue enq deq ops q = (acc, out, r)"
    | (given) x q' out' where "deq q = Some (x, q')" and "run_queue enq deq ops q' = (acc, out', r)"
        and "out = x # out'"
  using assms by (auto split: option.splits prod.splits)

text \<open>
  Induction over a run: a property of a queue and its run holds when it holds for the empty
  run and every call keeps it.
\<close>

lemma run_queue_induct [consumes 1, case_names over taken given]:
  assumes "run_queue enq deq ops q = (acc, out, r)"
    and "\<And>q. P q [] [] q"
    and "\<And>q x q' acc out r. enq q x = Some q' \<Longrightarrow> P q' acc out r \<Longrightarrow> P q (x # acc) out r"
    and "\<And>q x q' acc out r. deq q = Some (x, q') \<Longrightarrow> P q' acc out r \<Longrightarrow> P q acc (x # out) r"
  shows "P q acc out r"
  using assms(1)
proof (induction ops arbitrary: q acc out)
  case Nil
  then show ?case using assms(2) by simp
next
  case (Cons op ops)
  show ?case
  proof (cases op)
    case (Put x)
    with Cons.prems have "run_queue enq deq (Put x # ops) q = (acc, out, r)" by simp
    then show ?thesis by (rule run_queue_Put_cases) (auto intro: Cons.IH assms(3))
  next
    case Get
    with Cons.prems have "run_queue enq deq (Get # ops) q = (acc, out, r)" by simp
    then show ?thesis by (rule run_queue_Get_cases) (auto intro: Cons.IH assms(4))
  qed
qed

locale bounded_bag =
  fixes enq :: "'q \<Rightarrow> 'a \<Rightarrow> 'q option"
    and deq :: "'q \<Rightarrow> ('a \<times> 'q) option"
    and contents :: "'q \<Rightarrow> 'a list"
    and cap :: "'q \<Rightarrow> nat"
    and invar :: "'q \<Rightarrow> bool"
  assumes enq_None_iff: "invar q \<Longrightarrow> enq q x = None \<longleftrightarrow> cap q \<le> length (contents q)"
    and enq_mset: "invar q \<Longrightarrow> enq q x = Some q' \<Longrightarrow>
      mset (contents q') = add_mset x (mset (contents q))"
    and enq_cap: "invar q \<Longrightarrow> enq q x = Some q' \<Longrightarrow> cap q' = cap q"
    and enq_invar: "invar q \<Longrightarrow> enq q x = Some q' \<Longrightarrow> invar q'"
    and deq_None_iff: "invar q \<Longrightarrow> deq q = None \<longleftrightarrow> contents q = []"
    and deq_contents: "invar q \<Longrightarrow> deq q = Some (x, q') \<Longrightarrow> contents q = x # contents q'"
    and deq_cap: "invar q \<Longrightarrow> deq q = Some (x, q') \<Longrightarrow> cap q' = cap q"
    and deq_invar: "invar q \<Longrightarrow> deq q = Some (x, q') \<Longrightarrow> invar q'"
begin

lemma enq_length: "invar q \<Longrightarrow> enq q x = Some q' \<Longrightarrow> length (contents q') = Suc (length (contents q))"
  using enq_mset [of q x q'] by (metis size_mset size_add_mset)

lemma enq_room: "invar q \<Longrightarrow> enq q x = Some q' \<Longrightarrow> length (contents q') \<le> cap q'"
  using enq_None_iff [of q x] by (simp add: enq_length enq_cap)

text \<open>No call loses or duplicates an element, and a queue within its bound stays within it.\<close>

lemma run_conserves:
  assumes "run_queue enq deq ops q = (acc, out, q')" and "invar q"
  shows "invar q' \<and> cap q' = cap q \<and> mset (contents q) + mset acc = mset out + mset (contents q')"
  using assms
proof (induction rule: run_queue_induct)
  case (taken q x q' acc out r)
  then show ?case by (auto simp: enq_invar enq_cap enq_mset)
next
  case (given q x q' acc out r)
  then show ?case by (auto simp: deq_invar deq_cap deq_contents)
qed simp_all

lemma run_bounded:
  assumes "run_queue enq deq ops q = (acc, out, q')" and "invar q"
    and "length (contents q) \<le> cap q"
  shows "length (contents q') \<le> cap q'"
  using assms
proof (induction rule: run_queue_induct)
  case (taken q x q' acc out r)
  then show ?case by (auto simp: enq_invar enq_room)
next
  case (given q x q' acc out r)
  then have "length (contents q') \<le> cap q'" using deq_contents deq_cap by fastforce
  with given show ?case by (auto simp: deq_invar)
qed simp_all

end

text \<open>A queue whose new elements go to the end hands elements out in the order of arrival.\<close>

locale fifo_queue = bounded_bag enq deq contents cap invar
  for enq :: "'q \<Rightarrow> 'a \<Rightarrow> 'q option"
    and deq :: "'q \<Rightarrow> ('a \<times> 'q) option"
    and contents :: "'q \<Rightarrow> 'a list"
    and cap :: "'q \<Rightarrow> nat"
    and invar :: "'q \<Rightarrow> bool" +
  assumes enq_at_end: "invar q \<Longrightarrow> enq q x = Some q' \<Longrightarrow> contents q' = contents q @ [x]"
begin

lemma run_fifo:
  assumes "run_queue enq deq ops q = (acc, out, q')" and "invar q"
  shows "contents q @ acc = out @ contents q'"
  using assms
proof (induction rule: run_queue_induct)
  case (taken q x q' acc out r)
  then show ?case using enq_at_end enq_invar by fastforce
next
  case (given q x q' acc out r)
  then show ?case by (auto simp: deq_invar deq_contents)
qed simp_all

end

text \<open>
  A queue ordered by a priority: the queue stays sorted by descending priority, so every
  element handed out has the greatest priority of those present, and within one priority
  the order is the order of arrival.
\<close>

locale priority_queue = bounded_bag enq deq contents cap invar
  for enq :: "'q \<Rightarrow> 'a \<Rightarrow> 'q option"
    and deq :: "'q \<Rightarrow> ('a \<times> 'q) option"
    and contents :: "'q \<Rightarrow> 'a list"
    and cap :: "'q \<Rightarrow> nat"
    and invar :: "'q \<Rightarrow> bool" +
  fixes prio :: "'a \<Rightarrow> 'p::linorder"
  assumes enq_stable: "invar q \<Longrightarrow> enq q x = Some q' \<Longrightarrow>
      filter (\<lambda>y. prio y = p) (contents q')
        = filter (\<lambda>y. prio y = p) (contents q) @ (if prio x = p then [x] else [])"
    and contents_sorted: "invar q \<Longrightarrow> sorted_wrt (\<lambda>x y. prio y \<le> prio x) (contents q)"
begin

lemma deq_maximal:
  "invar q \<Longrightarrow> deq q = Some (x, q') \<Longrightarrow> y \<in> set (contents q) \<Longrightarrow> prio y \<le> prio x"
  using contents_sorted [of q] deq_contents [of q x q'] by auto

lemma run_stable:
  assumes "run_queue enq deq ops q = (acc, out, q')" and "invar q"
  shows "filter (\<lambda>y. prio y = p) (contents q) @ filter (\<lambda>y. prio y = p) acc
     = filter (\<lambda>y. prio y = p) out @ filter (\<lambda>y. prio y = p) (contents q')"
  using assms
proof (induction rule: run_queue_induct)
  case (taken q x q' acc out r)
  from enq_stable [OF taken.prems taken.hyps] taken.IH [OF enq_invar [OF taken.prems taken.hyps]]
  show ?case by (auto split: if_splits)
next
  case (given q x q' acc out r)
  then show ?case by (auto simp: deq_invar deq_contents)
qed simp_all

end

section \<open>Keyed tables\<close>

text \<open>
  A table keyed by names. What a \<open>put\<close> does to a key that is already bound differs from
  table to table (a route table shadows, the module registry refuses, the configuration
  store overwrites only a value of the same type), so it is a parameter \<open>merge\<close> that maps
  the new value and the old binding to the new binding.
\<close>

datatype ('k, 'v) table_op = Set 'k 'v | Del 'k

text \<open>The abstract table: a map, and what the operations do to it.\<close>

definition map_put :: "('v \<Rightarrow> 'v option \<Rightarrow> 'v option) \<Rightarrow> 'k \<Rightarrow> 'v \<Rightarrow> ('k \<rightharpoonup> 'v) \<Rightarrow> ('k \<rightharpoonup> 'v)" where
  "map_put merge k v m = m(k := merge v (m k))"

definition map_del :: "'k \<Rightarrow> ('k \<rightharpoonup> 'v) \<Rightarrow> ('k \<rightharpoonup> 'v)" where
  "map_del k m = m(k := None)"

locale keyed_store =
  fixes lookup :: "'t \<Rightarrow> 'k \<Rightarrow> 'v option"
    and put :: "'k \<Rightarrow> 'v \<Rightarrow> 't \<Rightarrow> 't"
    and merge :: "'v \<Rightarrow> 'v option \<Rightarrow> 'v option"
    and invar :: "'t \<Rightarrow> bool"
  assumes lookup_put: "invar t \<Longrightarrow> lookup (put k v t) = (lookup t)(k := merge v (lookup t k))"
    and invar_put: "invar t \<Longrightarrow> invar (put k v t)"
begin

lemma lookup_put_other: "invar t \<Longrightarrow> j \<noteq> k \<Longrightarrow> lookup (put k v t) j = lookup t j"
  by (simp add: lookup_put)

lemma put_commute:
  "invar t \<Longrightarrow> j \<noteq> k \<Longrightarrow> lookup (put j w (put k v t)) = lookup (put k v (put j w t))"
  by (auto simp: lookup_put invar_put fun_upd_twist)

text \<open>Any sequence of puts refines the same sequence on the abstract map.\<close>

lemma fold_put_refines:
  "invar t \<Longrightarrow>
   lookup (fold (\<lambda>(k, v). put k v) kvs t) = fold (\<lambda>(k, v). map_put merge k v) kvs (lookup t)
   \<and> invar (fold (\<lambda>(k, v). put k v) kvs t)"
  by (induction kvs arbitrary: t) (auto simp: lookup_put invar_put map_put_def)

lemma lookup_fold_put:
  "invar t \<Longrightarrow> k \<notin> fst ` set kvs \<Longrightarrow> lookup (fold (\<lambda>(k, v). put k v) kvs t) k = lookup t k
    \<and> invar (fold (\<lambda>(k, v). put k v) kvs t)"
  by (induction kvs arbitrary: t) (auto simp: lookup_put_other invar_put)

end

fun run_table :: "('k \<Rightarrow> 'v \<Rightarrow> 't \<Rightarrow> 't) \<Rightarrow> ('k \<Rightarrow> 't \<Rightarrow> 't) \<Rightarrow> ('k, 'v) table_op list \<Rightarrow> 't \<Rightarrow> 't" where
  "run_table put del [] t = t"
| "run_table put del (Set k v # ops) t = run_table put del ops (put k v t)"
| "run_table put del (Del k # ops) t = run_table put del ops (del k t)"

locale keyed_table = keyed_store lookup put merge invar
  for lookup :: "'t \<Rightarrow> 'k \<Rightarrow> 'v option"
    and put :: "'k \<Rightarrow> 'v \<Rightarrow> 't \<Rightarrow> 't"
    and merge :: "'v \<Rightarrow> 'v option \<Rightarrow> 'v option"
    and invar :: "'t \<Rightarrow> bool" +
  fixes del :: "'k \<Rightarrow> 't \<Rightarrow> 't"
  assumes lookup_del: "invar t \<Longrightarrow> lookup (del k t) = (lookup t)(k := None)"
    and invar_del: "invar t \<Longrightarrow> invar (del k t)"
begin

text \<open>Any sequence of calls on the table refines the same sequence on the abstract map.\<close>

lemma run_refines:
  "invar t \<Longrightarrow>
   lookup (run_table put del ops t) = run_table (map_put merge) map_del ops (lookup t)
   \<and> invar (run_table put del ops t)"
proof (induction ops arbitrary: t)
  case Nil
  then show ?case by simp
next
  case (Cons op ops)
  then show ?case
    by (cases op) (simp_all add: invar_put lookup_put map_put_def invar_del lookup_del map_del_def)
qed

end

section \<open>Tables in which a new binding shadows the old ones\<close>

text \<open>
  A key has a stack of bindings: \<open>put\<close> pushes one, \<open>pop\<close> removes the newest, and a lookup sees the
  newest only.
\<close>

definition stack_put :: "'k \<Rightarrow> 'v \<Rightarrow> ('k \<Rightarrow> 'v list) \<Rightarrow> 'k \<Rightarrow> 'v list" where
  "stack_put k v m = m(k := v # m k)"

definition stack_pop :: "'k \<Rightarrow> ('k \<Rightarrow> 'v list) \<Rightarrow> 'k \<Rightarrow> 'v list" where
  "stack_pop k m = m(k := tl (m k))"

definition newest :: "'v list \<Rightarrow> 'v option" where
  "newest vs = (case vs of [] \<Rightarrow> None | v # us \<Rightarrow> Some v)"

locale shadowing_table =
  fixes bindings :: "'t \<Rightarrow> 'k \<Rightarrow> 'v list"
    and put :: "'k \<Rightarrow> 'v \<Rightarrow> 't \<Rightarrow> 't"
    and pop :: "'k \<Rightarrow> 't \<Rightarrow> 't"
    and invar :: "'t \<Rightarrow> bool"
  assumes bindings_put: "invar t \<Longrightarrow> bindings (put k v t) = stack_put k v (bindings t)"
    and bindings_pop: "invar t \<Longrightarrow> bindings (pop k t) = stack_pop k (bindings t)"
    and invar_put: "invar t \<Longrightarrow> invar (put k v t)"
    and invar_pop: "invar t \<Longrightarrow> invar (pop k t)"
begin

lemma bindings_run:
  "invar t \<Longrightarrow>
   bindings (run_table put pop ops t) = run_table stack_put stack_pop ops (bindings t)
   \<and> invar (run_table put pop ops t)"
proof (induction ops arbitrary: t)
  case Nil
  then show ?case by simp
next
  case (Cons op ops)
  then show ?case by (cases op) (simp_all add: bindings_put bindings_pop invar_put invar_pop)
qed

text \<open>Taking away what was just put uncovers every earlier binding.\<close>

lemma pop_put: "invar t \<Longrightarrow> bindings (pop k (put k v t)) = bindings t"
  by (simp add: bindings_put bindings_pop invar_put stack_put_def stack_pop_def)

end

text \<open>Seen through lookups alone such a table is a store in which the last value wins.\<close>

sublocale shadowing_table \<subseteq> store: keyed_store "\<lambda>t k. newest (bindings t k)" put "\<lambda>v old. Some v" invar
  by unfold_locales (auto simp: bindings_put stack_put_def newest_def invar_put fun_eq_iff)

end
