(* ===== verification/Module_Manager.thy ===== *)
theory Module_Manager
  imports Interfaces
begin

text \<open>
  The module manager (\<^verbatim>\<open>src/src/modules/module_manager.c\<close>): the registry of modules and the
  passes that initialise, start, stop and clean them up. A module's life-cycle functions are
  C function pointers, so here they are functions on an abstract world \<open>'w\<close> (the modules'
  private data and everything outside the manager), \<^term>\<open>None\<close> for a NULL pointer, with
  the C return code as result. Log output is not modelled. The array of module pointers is
  the list of its first \<^verbatim>\<open>module_count\<close> entries, next to its capacity.
\<close>

section \<open>Module states\<close>

datatype module_state =
    MODULE_STATE_UNINITIALIZED | MODULE_STATE_INITIALIZED | MODULE_STATE_STARTED
  | MODULE_STATE_STOPPED | MODULE_STATE_ERROR

primrec state_code :: "module_state \<Rightarrow> nat" where
  "state_code MODULE_STATE_UNINITIALIZED = 0"
| "state_code MODULE_STATE_INITIALIZED = 1"
| "state_code MODULE_STATE_STARTED = 2"
| "state_code MODULE_STATE_STOPPED = 3"
| "state_code MODULE_STATE_ERROR = 4"

lemma state_code_inject [simp]: "state_code s = state_code t \<longleftrightarrow> s = t"
  by (cases s; cases t) auto

text \<open>The code compares states with \<^verbatim>\<open><\<close> and \<^verbatim>\<open>>\<close>, that is, by their enumeration codes.\<close>

instantiation module_state :: linorder
begin

definition less_eq_module_state :: "module_state \<Rightarrow> module_state \<Rightarrow> bool" where
  "s \<le> t \<longleftrightarrow> state_code s \<le> state_code t"

definition less_module_state :: "module_state \<Rightarrow> module_state \<Rightarrow> bool" where
  "s < t \<longleftrightarrow> state_code s < state_code t"

instance
  by standard (auto simp: less_eq_module_state_def less_module_state_def dest: antisym)

end

lemma below_initialized [simp]:
  "s < MODULE_STATE_INITIALIZED \<longleftrightarrow> s = MODULE_STATE_UNINITIALIZED"
  by (cases s) (auto simp: less_module_state_def)

lemma above_uninitialized [simp]:
  "MODULE_STATE_UNINITIALIZED < s \<longleftrightarrow> s \<noteq> MODULE_STATE_UNINITIALIZED"
  by (cases s) (auto simp: less_module_state_def)

section \<open>Modules and the manager\<close>

type_synonym 'w callback = "('w \<Rightarrow> int \<times> 'w) option"

record 'w module_interface =
  mod_name :: "string option"
  mod_version :: string
  init_fn :: "'w callback"
  start_fn :: "'w callback"
  stop_fn :: "'w callback"
  cleanup_fn :: "'w callback"
  mod_state :: module_state
  mod_deps :: "string list option"

record 'w module_manager =
  modules :: "'w module_interface list"
  module_capacity :: nat

definition INITIAL_MODULE_CAPACITY :: nat where
  "INITIAL_MODULE_CAPACITY = 16"

definition module_manager_create :: "answers \<Rightarrow> 'w module_manager option" where
  "module_manager_create as =
     (case next_answer as of (ok1, as') \<Rightarrow>
        if \<not> ok1 then None
        else (case next_answer as' of (ok2, _) \<Rightarrow>
                if \<not> ok2 then None
                else Some \<lparr>modules = [], module_capacity = INITIAL_MODULE_CAPACITY\<rparr>))"

definition expand_module_capacity :: "bool \<Rightarrow> 'w module_manager \<Rightarrow> int \<times> 'w module_manager" where
  "expand_module_capacity ok mgr =
     (if \<not> ok then (-1, mgr) else (0, mgr\<lparr>module_capacity := module_capacity mgr * 2\<rparr>))"

definition named :: "string \<Rightarrow> 'w module_interface \<Rightarrow> bool" where
  "named n m \<longleftrightarrow> mod_name m = Some n"

definition module_manager_register_module ::
  "bool \<Rightarrow> 'w module_manager option \<Rightarrow> 'w module_interface option \<Rightarrow> int \<times> 'w module_manager option" where
  "module_manager_register_module ok mgr module =
     (case (mgr, module) of
        (Some g, Some m) \<Rightarrow>
          (case mod_name m of
             None \<Rightarrow> (-1, mgr)
           | Some n \<Rightarrow>
               if find_idx (named n) (modules g) \<noteq> None then (-1, mgr)
               else (case (if module_capacity g \<le> length (modules g)
                           then expand_module_capacity ok g else (0, g)) of
                       (r, g') \<Rightarrow> if r \<noteq> 0 then (-1, Some g')
                                  else (0, Some (g'\<lparr>modules := modules g' @ [m]\<rparr>))))
      | _ \<Rightarrow> (-1, mgr))"

definition module_manager_unregister_module ::
  "'w module_manager option \<Rightarrow> string option \<Rightarrow> int \<times> 'w module_manager option" where
  "module_manager_unregister_module mgr module_name =
     (case (mgr, module_name) of
        (Some g, Some n) \<Rightarrow>
          (case find_idx (named n) (modules g) of
             None \<Rightarrow> (-1, mgr)
           | Some i \<Rightarrow> (0, Some (g\<lparr>modules := remove_slot i (modules g)\<rparr>)))
      | _ \<Rightarrow> (-1, mgr))"

definition find_module :: "'w module_interface list \<Rightarrow> string \<Rightarrow> 'w module_interface option" where
  "find_module ms n = List.find (named n) ms"

definition module_manager_get_module ::
  "'w module_manager option \<Rightarrow> string option \<Rightarrow> 'w module_interface option" where
  "module_manager_get_module mgr module_name =
     (case (mgr, module_name) of (Some g, Some n) \<Rightarrow> find_module (modules g) n | _ \<Rightarrow> None)"

definition module_manager_get_module_state ::
  "'w module_manager option \<Rightarrow> string option \<Rightarrow> module_state" where
  "module_manager_get_module_state mgr module_name =
     (case module_manager_get_module mgr module_name of
        Some m \<Rightarrow> mod_state m | None \<Rightarrow> MODULE_STATE_UNINITIALIZED)"

section \<open>The life-cycle passes\<close>

definition dep_ready :: "'w module_interface list \<Rightarrow> string \<Rightarrow> bool" where
  "dep_ready ms d = (case find_module ms d of
     None \<Rightarrow> False | Some dep \<Rightarrow> \<not> mod_state dep < MODULE_STATE_INITIALIZED)"

definition check_module_dependencies :: "'w module_interface list \<Rightarrow> 'w module_interface \<Rightarrow> int" where
  "check_module_dependencies ms m =
     (case mod_deps m of None \<Rightarrow> 0
      | Some ds \<Rightarrow> if list_all (dep_ready ms) ds then 0 else -1)"

text \<open>\<^verbatim>\<open>module->f && module->f(module) == 0\<close>: whether the call was made and returned 0.\<close>

definition run_callback :: "'w callback \<Rightarrow> 'w \<Rightarrow> bool \<times> 'w" where
  "run_callback f w = (case f of None \<Rightarrow> (False, w) | Some g \<Rightarrow> (case g w of (r, w') \<Rightarrow> (r = 0, w')))"

text \<open>The bodies of the four loops: the state the visited module gets.\<close>

type_synonym 'w visit = "'w module_interface list \<Rightarrow> 'w module_interface \<Rightarrow> 'w \<Rightarrow> module_state \<times> 'w"

definition init_module :: "'w visit" where
  "init_module ms m w =
     (if mod_state m = MODULE_STATE_UNINITIALIZED then
        if check_module_dependencies ms m \<noteq> 0 then (mod_state m, w)
        else (case run_callback (init_fn m) w of (ok, w') \<Rightarrow>
                (if ok then MODULE_STATE_INITIALIZED else MODULE_STATE_ERROR, w'))
      else (mod_state m, w))"

definition start_module :: "'w visit" where
  "start_module ms m w =
     (if mod_state m = MODULE_STATE_INITIALIZED then
        (case run_callback (start_fn m) w of (ok, w') \<Rightarrow>
           (if ok then MODULE_STATE_STARTED else MODULE_STATE_ERROR, w'))
      else (mod_state m, w))"

definition stop_module :: "'w visit" where
  "stop_module ms m w =
     (if mod_state m = MODULE_STATE_STARTED then
        (case run_callback (stop_fn m) w of (ok, w') \<Rightarrow>
           (if ok then MODULE_STATE_STOPPED else mod_state m, w'))
      else (mod_state m, w))"

definition cleanup_module :: "'w visit" where
  "cleanup_module ms m w =
     (if MODULE_STATE_UNINITIALIZED < mod_state m then
        (case run_callback (cleanup_fn m) w of (ok, w') \<Rightarrow>
           (if ok then MODULE_STATE_UNINITIALIZED else mod_state m, w'))
      else (mod_state m, w))"

definition visit_slot :: "'w visit \<Rightarrow> nat \<Rightarrow> 'w module_interface list \<times> 'w \<Rightarrow> 'w module_interface list \<times> 'w" where
  "visit_slot f i s =
     (case s of (ms, w) \<Rightarrow> case f ms (ms ! i) w of
        (st, w') \<Rightarrow> (ms[i := (ms ! i)\<lparr>mod_state := st\<rparr>], w'))"

definition pass_upto :: "'w visit \<Rightarrow> nat \<Rightarrow> 'w module_interface list \<times> 'w \<Rightarrow> 'w module_interface list \<times> 'w" where
  "pass_upto f n s = fold (visit_slot f) [0..<n] s"

definition pass :: "'w visit \<Rightarrow> 'w module_interface list \<times> 'w \<Rightarrow> 'w module_interface list \<times> 'w" where
  "pass f s = pass_upto f (length (fst s)) s"

definition module_manager_start ::
  "'w module_manager option \<Rightarrow> 'w \<Rightarrow> int \<times> 'w module_manager option \<times> 'w" where
  "module_manager_start mgr w =
     (case mgr of None \<Rightarrow> (-1, mgr, w)
      | Some g \<Rightarrow> (case pass start_module (pass init_module (modules g, w)) of
                    (ms, w') \<Rightarrow> (0, Some (g\<lparr>modules := ms\<rparr>), w')))"

definition module_manager_stop ::
  "'w module_manager option \<Rightarrow> 'w \<Rightarrow> int \<times> 'w module_manager option \<times> 'w" where
  "module_manager_stop mgr w =
     (case mgr of None \<Rightarrow> (-1, mgr, w)
      | Some g \<Rightarrow> (case pass stop_module (modules g, w) of
                    (ms, w') \<Rightarrow> (0, Some (g\<lparr>modules := ms\<rparr>), w')))"

definition module_manager_shutdown ::
  "'w module_manager option \<Rightarrow> 'w \<Rightarrow> int \<times> 'w module_manager option \<times> 'w" where
  "module_manager_shutdown mgr w =
     (case mgr of None \<Rightarrow> (-1, mgr, w)
      | Some g \<Rightarrow>
          (case module_manager_stop mgr w of (_, g1, w1) \<Rightarrow>
             (case pass cleanup_module (modules (the g1), w1) of
                (ms, w') \<Rightarrow> (0, Some (g\<lparr>modules := ms\<rparr>), w'))))"

definition module_manager_destroy ::
  "'w module_manager option \<Rightarrow> 'w \<Rightarrow> 'w module_manager option \<times> 'w" where
  "module_manager_destroy mgr w =
     (case mgr of None \<Rightarrow> (None, w) | Some _ \<Rightarrow> (None, snd (snd (module_manager_shutdown mgr w))))"

section \<open>What a pass does\<close>

text \<open>A module without its state: what no pass changes.\<close>

definition static :: "'w module_interface \<Rightarrow> 'w module_interface" where
  "static m = m\<lparr>mod_state := MODULE_STATE_UNINITIALIZED\<rparr>"

lemma static_update [simp]: "static (m\<lparr>mod_state := s\<rparr>) = static m"
  by (simp add: static_def)

lemma static_fields:
  "mod_name (static m) = mod_name m" "mod_deps (static m) = mod_deps m"
  "init_fn (static m) = init_fn m" "start_fn (static m) = start_fn m"
  "stop_fn (static m) = stop_fn m" "cleanup_fn (static m) = cleanup_fn m"
  by (simp_all add: static_def)

lemma static_eqD:
  assumes "static m = static m'"
  shows "mod_name m = mod_name m'" "mod_deps m = mod_deps m'" "init_fn m = init_fn m'"
    "start_fn m = start_fn m'" "stop_fn m = stop_fn m'" "cleanup_fn m = cleanup_fn m'"
  using static_fields [of m] static_fields [of m'] assms by simp_all

lemma visit_slot_length [simp]: "length (fst (visit_slot f i s)) = length (fst s)"
  by (simp add: visit_slot_def split: prod.splits)

lemma visit_slot_other [simp]: "k \<noteq> i \<Longrightarrow> fst (visit_slot f i s) ! k = fst s ! k"
  by (simp add: visit_slot_def split: prod.splits)

lemma visit_slot_here:
  "i < length (fst s) \<Longrightarrow> fst (visit_slot f i s) ! i
     = (fst s ! i)\<lparr>mod_state := fst (f (fst s) (fst s ! i) (snd s))\<rparr>"
  by (cases s) (simp add: visit_slot_def split: prod.splits)

lemma visit_slot_static [simp]: "map static (fst (visit_slot f i s)) = map static (fst s)"
  by (cases "i < length (fst s)")
    (auto simp: visit_slot_def map_update list_update_same_conv list_update_beyond split: prod.splits)

lemma pass_upto_0 [simp]: "pass_upto f 0 s = s"
  by (simp add: pass_upto_def)

lemma pass_upto_Suc: "pass_upto f (Suc n) s = visit_slot f n (pass_upto f n s)"
  by (simp add: pass_upto_def)

lemma pass_upto_length [simp]: "length (fst (pass_upto f n s)) = length (fst s)"
  by (induction n) (simp_all add: pass_upto_Suc)

lemma pass_upto_static [simp]: "map static (fst (pass_upto f n s)) = map static (fst s)"
  by (induction n) (simp_all add: pass_upto_Suc)

lemma pass_upto_untouched [simp]: "n \<le> k \<Longrightarrow> fst (pass_upto f n s) ! k = fst s ! k"
  by (induction n) (simp_all add: pass_upto_Suc)

lemma pass_upto_visited:
  "k < n \<Longrightarrow> k < length (fst s) \<Longrightarrow> fst (pass_upto f n s) ! k
     = (fst s ! k)\<lparr>mod_state := fst (f (fst (pass_upto f k s)) (fst s ! k) (snd (pass_upto f k s)))\<rparr>"
proof (induction n)
  case 0
  then show ?case by simp
next
  case (Suc n)
  show ?case
  proof (cases "k = n")
    case True
    with Suc.prems show ?thesis by (simp add: pass_upto_Suc visit_slot_here)
  next
    case False
    with Suc show ?thesis by (simp add: pass_upto_Suc)
  qed
qed

lemma pass_length [simp]: "length (fst (pass f s)) = length (fst s)"
  by (simp add: pass_def)

lemma pass_static [simp]: "map static (fst (pass f s)) = map static (fst s)"
  by (simp add: pass_def)

lemma pass_nth:
  "k < length (fst s) \<Longrightarrow> fst (pass f s) ! k
     = (fst s ! k)\<lparr>mod_state := fst (f (fst (pass_upto f k s)) (fst s ! k) (snd (pass_upto f k s)))\<rparr>"
  by (simp add: pass_def pass_upto_visited)

text \<open>While a pass is at slot \<open>k\<close>, the slots before \<open>k\<close> already have their final value.\<close>

lemma pass_upto_prefix:
  "j < k \<Longrightarrow> k \<le> length (fst s) \<Longrightarrow> fst (pass_upto f k s) ! j = fst (pass f s) ! j"
  by (simp add: pass_nth pass_upto_visited)

lemma static_nth_eq: "map static xs = map static ys \<Longrightarrow> i < length xs \<Longrightarrow> static (xs ! i) = static (ys ! i)"
  by (metis length_map nth_map)

lemma find_idx_named_static:
  "map static xs = map static ys \<Longrightarrow> find_idx (named n) xs = find_idx (named n) ys"
proof (induction xs arbitrary: ys)
  case Nil
  then show ?case by simp
next
  case (Cons x xs)
  then obtain y ys' where "ys = y # ys'" "static x = static y" "map static xs = map static ys'"
    by auto
  with Cons.IH show ?case by (auto simp: named_def dest: static_eqD(1))
qed

lemma find_idx_named_pass [simp]: "find_idx (named n) (fst (pass f s)) = find_idx (named n) (fst s)"
  by (rule find_idx_named_static) simp

lemma find_idx_named_upto [simp]:
  "find_idx (named n) (fst (pass_upto f k s)) = find_idx (named n) (fst s)"
  by (rule find_idx_named_static) simp

lemma dep_ready_iff:
  "dep_ready ms d \<longleftrightarrow>
   (\<exists>j. find_idx (named d) ms = Some j \<and> mod_state (ms ! j) \<noteq> MODULE_STATE_UNINITIALIZED)"
  by (auto simp: dep_ready_def find_module_def find_idx_find split: option.splits)

lemma check_deps_iff:
  "check_module_dependencies ms m = 0 \<longleftrightarrow>
   (\<forall>ds. mod_deps m = Some ds \<longrightarrow> (\<forall>d \<in> set ds. dep_ready ms d))"
  by (auto simp: check_module_dependencies_def list_all_iff split: option.splits)

section \<open>Registered modules\<close>

definition registry_inv :: "'w module_manager \<Rightarrow> bool" where
  "registry_inv g \<longleftrightarrow> (\<forall>m \<in> set (modules g). mod_name m \<noteq> None)
     \<and> distinct (map mod_name (modules g))
     \<and> length (modules g) \<le> module_capacity g \<and> 0 < module_capacity g"

lemma registry_inv_create: "module_manager_create as = Some g \<Longrightarrow> registry_inv g"
  by (auto simp: module_manager_create_def registry_inv_def INITIAL_MODULE_CAPACITY_def
      split: prod.splits if_splits)

lemma find_idx_named_None:
  "find_idx (named n) ms = None \<longleftrightarrow> Some n \<notin> mod_name ` set ms"
  by (auto simp: find_idx_None named_def image_iff)

lemma registry_inv_register:
  assumes "registry_inv g" and "module_manager_register_module ok (Some g) m = (r, Some g')"
  shows "registry_inv g'"
  using assms
  by (auto simp: module_manager_register_module_def registry_inv_def expand_module_capacity_def
      find_idx_named_None Suc_le_eq split: option.splits if_splits prod.splits)

lemma registry_inv_unregister:
  assumes "registry_inv g" and "module_manager_unregister_module (Some g) n = (r, Some g')"
  shows "registry_inv g'"
proof (cases "\<exists>nm i. n = Some nm \<and> find_idx (named nm) (modules g) = Some i")
  case True
  then obtain nm i where "n = Some nm" and i: "find_idx (named nm) (modules g) = Some i" by blast
  with assms(2) have g': "g' = g\<lparr>modules := remove_slot i (modules g)\<rparr>"
    by (auto simp: module_manager_unregister_module_def)
  from find_idx_SomeD [OF i] have "i < length (modules g)" by simp
  with assms(1) set_remove_slot [OF this] show ?thesis
    by (auto simp: g' registry_inv_def distinct_map_remove_slot length_remove_slot)
next
  case False
  with assms show ?thesis
    by (auto simp: module_manager_unregister_module_def split: option.splits)
qed

lemma registry_inv_pass:
  assumes "registry_inv g"
  shows "registry_inv (g\<lparr>modules := fst (pass f (modules g, w))\<rparr>)"
proof -
  let ?ms = "fst (pass f (modules g, w))"
  have st: "map static ?ms = map static (modules g)" by simp
  have nm: "map mod_name ?ms = map mod_name (modules g)"
  proof (rule nth_equalityI)
    fix i assume "i < length (map mod_name ?ms)"
    then show "map mod_name ?ms ! i = map mod_name (modules g) ! i"
      using static_nth_eq [OF st, of i] by (auto dest: static_eqD(1))
  qed simp
  then have "mod_name ` set ?ms = mod_name ` set (modules g)"
    by (metis list.set_map)
  then have "\<forall>m \<in> set ?ms. mod_name m \<noteq> None"
    using assms unfolding registry_inv_def by (metis (no_types, lifting) image_iff)
  then show ?thesis using assms nm by (simp add: registry_inv_def)
qed

section \<open>The registry as a keyed table\<close>

text \<open>
  Registration under a name that is already taken is refused, so the first module of a name
  stays. The operations below are the calls of the manager, seen as functions on a manager.
\<close>

definition keep_first :: "'v \<Rightarrow> 'v option \<Rightarrow> 'v option" where
  "keep_first v old = (case old of None \<Rightarrow> Some v | Some v' \<Rightarrow> Some v')"

definition reg_put :: "string \<Rightarrow> 'w module_interface \<Rightarrow> 'w module_manager \<Rightarrow> 'w module_manager" where
  "reg_put n m g = the (snd (module_manager_register_module True (Some g) (Some (m\<lparr>mod_name := Some n\<rparr>))))"

definition reg_del :: "string \<Rightarrow> 'w module_manager \<Rightarrow> 'w module_manager" where
  "reg_del n g = the (snd (module_manager_unregister_module (Some g) (Some n)))"

definition reg_lookup :: "'w module_manager \<Rightarrow> string \<Rightarrow> 'w module_interface option" where
  "reg_lookup g n = map_option (\<lambda>m. m\<lparr>mod_name := None\<rparr>) (module_manager_get_module (Some g) (Some n))"

definition reg_merge :: "'w module_interface \<Rightarrow> 'w module_interface option \<Rightarrow> 'w module_interface option" where
  "reg_merge m old = keep_first (m\<lparr>mod_name := None\<rparr>) old"

lemma reg_put_eq:
  "reg_put n m g =
     (if Some n \<in> mod_name ` set (modules g) then g
      else g\<lparr>modules := modules g @ [m\<lparr>mod_name := Some n\<rparr>],
             module_capacity := (if module_capacity g \<le> length (modules g)
                                 then module_capacity g * 2 else module_capacity g)\<rparr>)"
  by (auto simp: reg_put_def module_manager_register_module_def expand_module_capacity_def
      find_idx_named_None split: if_splits option.splits prod.splits)

lemma find_module_None: "find_module ms n = None \<longleftrightarrow> Some n \<notin> mod_name ` set ms"
  by (auto simp: find_module_def find_idx_find find_idx_named_None)

lemma find_module_append:
  "find_module (ms @ [m]) n = (case find_module ms n of Some x \<Rightarrow> Some x
     | None \<Rightarrow> if mod_name m = Some n then Some m else None)"
  by (auto simp: find_module_def find_find_append named_def split: option.splits)

lemma reg_lookup_put:
  "reg_lookup (reg_put k v g) = (reg_lookup g)(k := reg_merge v (reg_lookup g k))"
proof
  fix n
  show "reg_lookup (reg_put k v g) n = ((reg_lookup g)(k := reg_merge v (reg_lookup g k))) n"
  proof (cases "find_module (modules g) k")
    case None
    then have "Some k \<notin> mod_name ` set (modules g)" by (simp add: find_module_None)
    with None show ?thesis
      by (auto simp: reg_lookup_def module_manager_get_module_def reg_put_eq find_module_append
          reg_merge_def keep_first_def split: option.splits)
  next
    case (Some m)
    then have "Some k \<in> mod_name ` set (modules g)"
      by (metis find_module_None option.distinct(1))
    then show ?thesis using Some
      by (auto simp: reg_lookup_def module_manager_get_module_def reg_put_eq reg_merge_def keep_first_def)
  qed
qed

lemma named_eq: "named n = (\<lambda>m. mod_name m = Some n)"
  by (simp add: named_def fun_eq_iff)

lemma reg_lookup_del:
  assumes "registry_inv g"
  shows "reg_lookup (reg_del k g) = (reg_lookup g)(k := None)"
proof (cases "find_idx (named k) (modules g)")
  case None
  then have "find_module (modules g) k = None" by (simp add: find_module_def find_idx_find)
  with None show ?thesis
    by (auto simp: reg_del_def module_manager_unregister_module_def reg_lookup_def
        module_manager_get_module_def fun_eq_iff)
next
  case (Some i)
  from find_idx_SomeD [OF Some] have i: "i < length (modules g)" "mod_name (modules g ! i) = Some k"
    by (auto simp: named_def)
  have "reg_del k g = g\<lparr>modules := remove_slot i (modules g)\<rparr>"
    using Some by (simp add: reg_del_def module_manager_unregister_module_def)
  moreover have "find_module (remove_slot i (modules g)) n
      = (if n = k then None else find_module (modules g) n)" for n
    using assms i
    by (auto simp: find_module_def named_eq registry_inv_def
        intro: find_remove_slot_same find_remove_slot_other)
  ultimately show ?thesis
    by (auto simp: reg_lookup_def module_manager_get_module_def fun_eq_iff)
qed

lemma reg_put_call:
  "\<exists>r. module_manager_register_module True (Some g) (Some (m\<lparr>mod_name := Some n\<rparr>))
    = (r, Some (reg_put n m g))"
  by (auto simp: reg_put_def module_manager_register_module_def expand_module_capacity_def
      split: if_splits option.splits prod.splits)

lemma registry_inv_reg_put: "registry_inv g \<Longrightarrow> registry_inv (reg_put n m g)"
  using reg_put_call registry_inv_register by blast

lemma registry_inv_reg_del: "registry_inv g \<Longrightarrow> registry_inv (reg_del n g)"
proof -
  assume inv: "registry_inv g"
  obtain r g' where c: "module_manager_unregister_module (Some g) (Some n) = (r, Some g')"
    by (cases "find_idx (named n) (modules g)") (auto simp: module_manager_unregister_module_def)
  then have "reg_del n g = g'" by (simp add: reg_del_def)
  with registry_inv_unregister [OF inv c] show ?thesis by simp
qed

interpretation registry: keyed_table reg_lookup reg_put reg_merge registry_inv reg_del
  by unfold_locales
    (simp_all add: reg_lookup_put reg_lookup_del registry_inv_reg_put registry_inv_reg_del)

section \<open>Legal state changes\<close>

inductive legal_step :: "module_state \<Rightarrow> module_state \<Rightarrow> bool" where
  init_ok: "legal_step MODULE_STATE_UNINITIALIZED MODULE_STATE_INITIALIZED"
| init_failed: "legal_step MODULE_STATE_UNINITIALIZED MODULE_STATE_ERROR"
| start_ok: "legal_step MODULE_STATE_INITIALIZED MODULE_STATE_STARTED"
| start_failed: "legal_step MODULE_STATE_INITIALIZED MODULE_STATE_ERROR"
| stop_ok: "legal_step MODULE_STATE_STARTED MODULE_STATE_STOPPED"
| cleanup_ok: "s \<noteq> MODULE_STATE_UNINITIALIZED \<Longrightarrow> legal_step s MODULE_STATE_UNINITIALIZED"

inductive_cases legal_from_stopped: "legal_step MODULE_STATE_STOPPED s"
inductive_cases legal_from_uninit: "legal_step MODULE_STATE_UNINITIALIZED s"

text \<open>A loop body moves the module it visits along legal steps, or leaves it alone.\<close>

definition legal_visit :: "'w visit \<Rightarrow> bool" where
  "legal_visit f \<longleftrightarrow> (\<forall>ms m w. legal_step\<^sup>*\<^sup>* (mod_state m) (fst (f ms m w)))"

lemma legal_bodies:
  "legal_visit init_module" "legal_visit start_module" "legal_visit stop_module"
  "legal_visit cleanup_module"
  by (auto simp: legal_visit_def init_module_def start_module_def stop_module_def cleanup_module_def
      intro: legal_step.intros split: prod.splits)

lemma pass_legal:
  "legal_visit f \<Longrightarrow> k < length (fst s) \<Longrightarrow>
   legal_step\<^sup>*\<^sup>* (mod_state (fst s ! k)) (mod_state (fst (pass f s) ! k))"
  by (simp add: pass_nth legal_visit_def)

lemma two_passes_legal:
  assumes "legal_visit f" and "legal_visit f'" and "k < length (fst s)"
  shows "legal_step\<^sup>*\<^sup>* (mod_state (fst s ! k)) (mod_state (fst (pass f' (pass f s)) ! k))"
  using pass_legal [OF assms(1,3)] pass_legal [OF assms(2), of k "pass f s"] assms(3)
  by (simp add: rtranclp_trans)

lemma start_modules:
  "module_manager_start (Some g) w = (r, Some g', w') \<Longrightarrow>
   r = 0 \<and> modules g' = fst (pass start_module (pass init_module (modules g, w)))"
  by (auto simp: module_manager_start_def split: prod.splits)

lemma stop_modules:
  "module_manager_stop (Some g) w = (r, Some g', w') \<Longrightarrow>
   r = 0 \<and> modules g' = fst (pass stop_module (modules g, w))"
  by (auto simp: module_manager_stop_def split: prod.splits)

lemma shutdown_modules:
  "module_manager_shutdown (Some g) w = (r, Some g', w') \<Longrightarrow>
   r = 0 \<and> modules g' = fst (pass cleanup_module (pass stop_module (modules g, w)))"
  by (auto simp: module_manager_shutdown_def module_manager_stop_def split: prod.splits)

section \<open>Starting in dependency order\<close>

text \<open>A callback that is present and always returns 0.\<close>

definition succeeds :: "'w callback \<Rightarrow> bool" where
  "succeeds f \<longleftrightarrow> (\<exists>g. f = Some g \<and> (\<forall>w. fst (g w) = 0))"

lemma run_callback_succeeds: "succeeds f \<Longrightarrow> fst (run_callback f w)"
  by (auto simp: succeeds_def run_callback_def case_prod_beta)

lemma bodies_succeed:
  "mod_state m = MODULE_STATE_UNINITIALIZED \<Longrightarrow> check_module_dependencies ms m = 0 \<Longrightarrow>
     succeeds (init_fn m) \<Longrightarrow> fst (init_module ms m w) = MODULE_STATE_INITIALIZED"
  "mod_state m = MODULE_STATE_INITIALIZED \<Longrightarrow> succeeds (start_fn m) \<Longrightarrow>
     fst (start_module ms m w) = MODULE_STATE_STARTED"
  "mod_state m = MODULE_STATE_STARTED \<Longrightarrow> succeeds (stop_fn m) \<Longrightarrow>
     fst (stop_module ms m w) = MODULE_STATE_STOPPED"
  "succeeds (cleanup_fn m) \<Longrightarrow> fst (cleanup_module ms m w) = MODULE_STATE_UNINITIALIZED"
  by (auto simp: init_module_def start_module_def stop_module_def cleanup_module_def case_prod_beta
      dest: run_callback_succeeds)

text \<open>Every dependency of a module is registered at an earlier slot.\<close>

definition deps_before :: "'w module_interface list \<Rightarrow> bool" where
  "deps_before ms \<longleftrightarrow> (\<forall>i < length ms. \<forall>ds. mod_deps (ms ! i) = Some ds \<longrightarrow>
     (\<forall>d \<in> set ds. \<exists>j < i. find_idx (named d) ms = Some j))"

definition all_in_state :: "module_state \<Rightarrow> 'w module_interface list \<Rightarrow> bool" where
  "all_in_state st ms \<longleftrightarrow> (\<forall>m \<in> set ms. mod_state m = st)"

lemma all_in_state_nth: "all_in_state st ms \<longleftrightarrow> (\<forall>k < length ms. mod_state (ms ! k) = st)"
  by (auto simp: all_in_state_def all_set_conv_all_nth)

lemma init_pass_all:
  assumes "deps_before ms" and "all_in_state MODULE_STATE_UNINITIALIZED ms"
    and "\<forall>m \<in> set ms. succeeds (init_fn m)"
  shows "all_in_state MODULE_STATE_INITIALIZED (fst (pass init_module (ms, w)))"
proof -
  have "mod_state (fst (pass init_module (ms, w)) ! k) = MODULE_STATE_INITIALIZED"
    if "k < length ms" for k
    using that
  proof (induction k rule: less_induct)
    case (less k)
    let ?cur = "fst (pass_upto init_module k (ms, w))"
    have "mod_state (?cur ! j) \<noteq> MODULE_STATE_UNINITIALIZED" if "j < k" for j
      using less that by (simp add: pass_upto_prefix)
    then have "check_module_dependencies ?cur (ms ! k) = 0"
      using assms(1) less.prems unfolding check_deps_iff dep_ready_iff deps_before_def
      by simp blast
    moreover have "succeeds (init_fn (ms ! k))" using assms(3) less.prems by simp
    moreover have "mod_state (ms ! k) = MODULE_STATE_UNINITIALIZED"
      using assms(2) less.prems by (simp add: all_in_state_nth)
    ultimately show ?case using less.prems by (simp add: pass_nth bodies_succeed)
  qed
  then show ?thesis by (simp add: all_in_state_nth)
qed

lemma pass_member_static:
  "m \<in> set (fst (pass f s)) \<Longrightarrow> \<exists>m' \<in> set (fst s). static m = static m'"
  by (metis imageE image_eqI list.set_map pass_static)

lemma start_pass_all:
  assumes "all_in_state MODULE_STATE_INITIALIZED ms" and "\<forall>m \<in> set ms. succeeds (start_fn m)"
  shows "all_in_state MODULE_STATE_STARTED (fst (pass start_module (ms, w)))"
  using assms by (simp add: all_in_state_nth pass_nth bodies_succeed)

lemma start_pass_uninit:
  "k < length (fst s) \<Longrightarrow> mod_state (fst (pass start_module s) ! k) = MODULE_STATE_UNINITIALIZED
   \<longleftrightarrow> mod_state (fst s ! k) = MODULE_STATE_UNINITIALIZED"
  by (auto simp: pass_nth start_module_def split: prod.splits)

lemma init_pass_left_uninit:
  assumes "all_in_state MODULE_STATE_UNINITIALIZED ms" and "k < length ms"
    and "mod_state (fst (pass init_module (ms, w)) ! k) \<noteq> MODULE_STATE_UNINITIALIZED"
    and "mod_deps (ms ! k) = Some ds" and "d \<in> set ds"
  shows "\<exists>j < k. find_idx (named d) ms = Some j
    \<and> mod_state (fst (pass init_module (ms, w)) ! j) \<noteq> MODULE_STATE_UNINITIALIZED"
proof -
  let ?cur = "fst (pass_upto init_module k (ms, w))"
  from assms(1,2,3) have "check_module_dependencies ?cur (ms ! k) = 0"
    by (auto simp: pass_nth init_module_def all_in_state_nth split: if_splits)
  then obtain j where j: "find_idx (named d) ms = Some j"
    and ready: "mod_state (?cur ! j) \<noteq> MODULE_STATE_UNINITIALIZED"
    using assms(4,5) by (auto simp: check_deps_iff dep_ready_iff)
  from find_idx_SomeD [OF j] have jl: "j < length ms" by simp
  have "j < k"
  proof (rule ccontr)
    assume "\<not> j < k"
    then have "?cur ! j = ms ! j" by simp
    with ready jl assms(1) show False by (simp add: all_in_state_nth)
  qed
  with j ready assms(2) show ?thesis by (auto simp: pass_upto_prefix)
qed

text \<open>A client's calls on the manager, in any order.\<close>

datatype 'w mgr_op = Register bool "'w module_interface" | Unregister string | Start | Stop | Shutdown

fun exec_op :: "'w mgr_op \<Rightarrow> 'w module_manager option \<times> 'w \<Rightarrow> 'w module_manager option \<times> 'w" where
  "exec_op (Register ok m) (g, w) = (snd (module_manager_register_module ok g (Some m)), w)"
| "exec_op (Unregister n) (g, w) = (snd (module_manager_unregister_module g (Some n)), w)"
| "exec_op Start (g, w) = snd (module_manager_start g w)"
| "exec_op Stop (g, w) = snd (module_manager_stop g w)"
| "exec_op Shutdown (g, w) = snd (module_manager_shutdown g w)"

definition mgr_ok :: "'w module_manager option \<Rightarrow> bool" where
  "mgr_ok g \<longleftrightarrow> (\<exists>h. g = Some h \<and> registry_inv h)"

lemma register_returns_manager:
  "\<exists>r g'. module_manager_register_module ok (Some g) m = (r, Some g')"
  "\<exists>r g'. module_manager_unregister_module (Some g) n = (r, Some g')"
  by (auto simp: module_manager_register_module_def module_manager_unregister_module_def
      expand_module_capacity_def split: option.splits if_splits prod.splits)

lemma registry_inv_pass_again:
  "registry_inv (g\<lparr>modules := fst s\<rparr>) \<Longrightarrow> registry_inv (g\<lparr>modules := fst (pass f s)\<rparr>)"
  using registry_inv_pass [of "g\<lparr>modules := fst s\<rparr>" f "snd s"] by simp

lemma exec_op_mgr_ok: "mgr_ok (fst s) \<Longrightarrow> mgr_ok (fst (exec_op op s))"
proof -
  assume "mgr_ok (fst s)"
  then obtain g w where s: "s = (Some g, w)" and inv: "registry_inv g"
    by (cases s) (auto simp: mgr_ok_def)
  have pass1: "registry_inv (g\<lparr>modules := fst (pass f (modules g, w))\<rparr>)" for f
    using inv by (rule registry_inv_pass)
  have pass2: "registry_inv (g\<lparr>modules := fst (pass f' (pass f (modules g, w)))\<rparr>)" for f f'
    using pass1 by (rule registry_inv_pass_again)
  show ?thesis
  proof (cases op)
    case (Register ok m)
    with register_returns_manager(1) [of ok g "Some m"] registry_inv_register [OF inv]
    show ?thesis by (auto simp: s mgr_ok_def)
  next
    case (Unregister n)
    with register_returns_manager(2) [of g "Some n"] registry_inv_unregister [OF inv]
    show ?thesis by (auto simp: s mgr_ok_def)
  next
    case Start
    with pass2 show ?thesis
      by (simp add: s mgr_ok_def module_manager_start_def case_prod_beta)
  next
    case Stop
    with pass1 show ?thesis
      by (simp add: s mgr_ok_def module_manager_stop_def case_prod_beta)
  next
    case Shutdown
    with pass2 show ?thesis
      by (simp add: s mgr_ok_def module_manager_shutdown_def module_manager_stop_def case_prod_beta)
  qed
qed

lemma exec_ops_mgr_ok: "mgr_ok (fst s) \<Longrightarrow> mgr_ok (fst (fold exec_op ops s))"
proof (induction ops arbitrary: s)
  case (Cons op ops)
  from Cons.IH [OF exec_op_mgr_ok [OF Cons.prems]] show ?case by simp
qed simp

section \<open>A sample manager for the witnesses\<close>

definition sample_module :: "string \<Rightarrow> int \<Rightarrow> string list option \<Rightarrow> string list module_interface" where
  "sample_module n rc ds =
     \<lparr>mod_name = Some n, mod_version = ''1.0.0'',
      init_fn = Some (\<lambda>w. (rc, w @ [''init '' @ n])), start_fn = Some (\<lambda>w. (0, w @ [''start '' @ n])),
      stop_fn = Some (\<lambda>w. (0, w @ [''stop '' @ n])), cleanup_fn = Some (\<lambda>w. (0, w @ [''cleanup '' @ n])),
      mod_state = MODULE_STATE_UNINITIALIZED, mod_deps = ds\<rparr>"

definition sample_manager :: "string list module_manager" where
  "sample_manager = \<lparr>modules = [sample_module ''logger'' 0 None, sample_module ''database'' 0 (Some [''logger''])],
     module_capacity = INITIAL_MODULE_CAPACITY\<rparr>"

lemma call_result:
  "module_manager_start (Some g) w = (0, Some (the (fst (snd (module_manager_start (Some g) w)))),
     snd (snd (module_manager_start (Some g) w)))"
  "module_manager_shutdown (Some g) w = (0, Some (the (fst (snd (module_manager_shutdown (Some g) w)))),
     snd (snd (module_manager_shutdown (Some g) w)))"
  by (simp_all add: module_manager_start_def module_manager_shutdown_def module_manager_stop_def
      case_prod_beta)

lemmas sample_defs = sample_manager_def sample_module_def INITIAL_MODULE_CAPACITY_def

lemma sample_succeeds [simp]: "succeeds (Some (\<lambda>w. (0, h w)))"
  by (simp add: succeeds_def)

lemma sample_start_premises:
  "all_in_state MODULE_STATE_UNINITIALIZED (modules sample_manager)"
  "deps_before (modules sample_manager)"
  "\<forall>m \<in> set (modules sample_manager). succeeds (init_fn m) \<and> succeeds (start_fn m)"
  "\<forall>m \<in> set (modules sample_manager). succeeds (cleanup_fn m)"
  by (auto simp: sample_defs all_in_state_def deps_before_def named_def less_Suc_eq)

section \<open>Properties\<close>

text \<open>C1: Start-up is complete. If every dependency of a module is registered at an earlier slot and
  every init and start callback is present and returns 0, then starting a manager whose modules
  are all uninitialised returns 0 and leaves every module running.\<close>

theorem start_brings_all_up:
  assumes "deps_before (modules g)" and "all_in_state MODULE_STATE_UNINITIALIZED (modules g)"
    and "\<forall>m \<in> set (modules g). succeeds (init_fn m) \<and> succeeds (start_fn m)"
    and "module_manager_start (Some g) w = (r, Some g', w')"
  shows "r = 0 \<and> length (modules g') = length (modules g)
    \<and> all_in_state MODULE_STATE_STARTED (modules g')"
proof -
  let ?s = "pass init_module (modules g, w)"
  have i: "all_in_state MODULE_STATE_INITIALIZED (fst ?s)"
    using assms(1-3) by (intro init_pass_all) auto
  have "\<forall>m \<in> set (fst ?s). succeeds (start_fn m)"
    using assms(3) by (metis fst_conv pass_member_static static_eqD(4))
  with i have "all_in_state MODULE_STATE_STARTED (fst (pass start_module (fst ?s, snd ?s)))"
    by (rule start_pass_all)
  with start_modules [OF assms(4)] show ?thesis by simp
qed

theorem start_brings_all_up_witness:
  "all_in_state MODULE_STATE_STARTED
     (modules (the (fst (snd (module_manager_start (Some sample_manager) [])))))"
  using start_brings_all_up [OF sample_start_premises(2,1,3) call_result(1) [of sample_manager "[]"]]
  by blast

text \<open>C2: Start-up respects dependencies. After starting a manager whose modules are all
  uninitialised, whatever the callbacks do, a module that was initialised at all has every
  dependency registered at an earlier slot, and that dependency's init was run.\<close>

theorem start_respects_dependencies:
  assumes "all_in_state MODULE_STATE_UNINITIALIZED (modules g)"
    and "module_manager_start (Some g) w = (r, Some g', w')"
    and "k < length (modules g)" and "mod_state (modules g' ! k) \<noteq> MODULE_STATE_UNINITIALIZED"
    and "mod_deps (modules g ! k) = Some ds" and "d \<in> set ds"
  shows "\<exists>j < k. find_idx (named d) (modules g) = Some j
    \<and> mod_state (modules g' ! j) \<noteq> MODULE_STATE_UNINITIALIZED"
proof -
  let ?s = "pass init_module (modules g, w)"
  have g': "modules g' = fst (pass start_module ?s)" using start_modules [OF assms(2)] by simp
  with assms(3,4) have "mod_state (fst ?s ! k) \<noteq> MODULE_STATE_UNINITIALIZED"
    by (simp add: start_pass_uninit)
  from init_pass_left_uninit [OF assms(1,3) this assms(5,6)] assms(3) show ?thesis
    by (auto simp: g' start_pass_uninit)
qed

theorem start_respects_dependencies_witness:
  "\<exists>j < 1. find_idx (named ''logger'') (modules sample_manager) = Some j
    \<and> mod_state (modules (the (fst (snd (module_manager_start (Some sample_manager) [])))) ! j)
      \<noteq> MODULE_STATE_UNINITIALIZED"
proof (rule start_respects_dependencies
    [OF sample_start_premises(1) call_result(1) [of sample_manager "[]"]])
  show "1 < length (modules sample_manager)"
    and "mod_deps (modules sample_manager ! 1) = Some [''logger'']" and "''logger'' \<in> set [''logger'']"
    by (simp_all add: sample_defs)
  show "mod_state (modules (the (fst (snd (module_manager_start (Some sample_manager) [])))) ! 1)
      \<noteq> MODULE_STATE_UNINITIALIZED"
    by code_simp
qed



text \<open>Shutdown resets. If every cleanup callback is present and returns 0, a shutdown leaves every
  module uninitialised, whether or not its stop callback succeeded.\<close>

theorem shutdown_resets_all:
  assumes "\<forall>m \<in> set (modules g). succeeds (cleanup_fn m)"
    and "module_manager_shutdown (Some g) w = (r, Some g', w')"
  shows "r = 0 \<and> all_in_state MODULE_STATE_UNINITIALIZED (modules g')"
  using assms(1) shutdown_modules [OF assms(2)]
  by (simp add: all_in_state_nth pass_nth bodies_succeed)

theorem shutdown_resets_all_witness:
  "all_in_state MODULE_STATE_UNINITIALIZED
     (modules (the (fst (snd (module_manager_shutdown (Some sample_manager) [])))))"
  using shutdown_resets_all [OF sample_start_premises(4) call_result(2) [of sample_manager "[]"]]
  by blast

text \<open>C4: The registry is a table of names. Any sequence of registrations and removals on a
  well-formed manager changes what a name is bound to exactly as the same sequence on a map in
  which the first registration of a name wins.\<close>

theorem registry_refines_map:
  assumes "registry_inv g"
  shows "reg_lookup (run_table reg_put reg_del ops g)
    = run_table (map_put reg_merge) map_del ops (reg_lookup g)"
  using registry.run_refines [OF assms] by blast

theorem registry_refines_map_witness:
  "reg_lookup (run_table reg_put reg_del [Set ''http'' (sample_module ''http'' 0 None), Del ''logger'']
      sample_manager)
    = run_table (map_put reg_merge) map_del [Set ''http'' (sample_module ''http'' 0 None), Del ''logger'']
      (reg_lookup sample_manager)"
  by (rule registry_refines_map) (simp add: registry_inv_def sample_defs)

text \<open>Whatever a client does with a freshly created manager, names stay unique and non-NULL and
  the modules fit the allocated array.\<close>

theorem manager_stays_well_formed:
  assumes "module_manager_create as = Some g"
  shows "mgr_ok (fst (fold exec_op ops (Some g, w)))"
  using exec_ops_mgr_ok [of "(Some g, w)" ops] registry_inv_create [OF assms]
  by (simp add: mgr_ok_def)

theorem manager_stays_well_formed_witness:
  "mgr_ok (fst (fold exec_op [Register True (sample_module ''http'' 0 None), Start, Shutdown]
     (Some \<lparr>modules = [], module_capacity = INITIAL_MODULE_CAPACITY\<rparr>, [])))"
  by (rule manager_stays_well_formed [where as = "[]"]) (simp add: module_manager_create_def)

text \<open>A dependency that failed counts as ready. The check compares state codes, and the error state
  has the greatest code: a module whose only dependency failed to initialise is initialised and
  started all the same.\<close>

theorem failed_dependency_counts_as_ready:
  assumes "a = \<lparr>mod_name = Some n, mod_version = va, init_fn = Some fi, start_fn = sa, stop_fn = pa,
      cleanup_fn = ca, mod_state = MODULE_STATE_UNINITIALIZED, mod_deps = None\<rparr>"
    and "b = \<lparr>mod_name = Some n', mod_version = vb, init_fn = ib, start_fn = sb, stop_fn = pb,
      cleanup_fn = cb, mod_state = MODULE_STATE_UNINITIALIZED, mod_deps = Some [n]\<rparr>"
    and "\<forall>w. fst (fi w) \<noteq> 0" and "succeeds ib" and "succeeds sb"
    and "module_manager_start (Some \<lparr>modules = [a, b], module_capacity = c\<rparr>) w = (r, Some g', w')"
  shows "map mod_state (modules g') = [MODULE_STATE_ERROR, MODULE_STATE_STARTED]"
proof -
  obtain w1 r1 where 1: "fi w = (r1, w1)" "r1 \<noteq> 0" using assms(3) by (metis prod.collapse)
  obtain fb w2 where 2: "ib = Some fb" "fb w1 = (0, w2)"
    using assms(4) by (metis prod.collapse succeeds_def)
  obtain hb w3 where 3: "sb = Some hb" "hb w2 = (0, w3)"
    using assms(5) by (metis prod.collapse succeeds_def)
  show ?thesis
    using start_modules [OF assms(6)] 1 2 3
    by (auto simp: assms(1,2) pass_def pass_upto_def visit_slot_def init_module_def start_module_def
        check_module_dependencies_def dep_ready_def find_module_def named_def run_callback_def
        numeral_2_eq_2)
qed
theorem failed_dependency_counts_as_ready_witness:
  "map mod_state (modules (the (fst (snd (module_manager_start
     (Some \<lparr>modules = [sample_module ''logger'' (-1) None, sample_module ''database'' 0 (Some [''logger''])],
       module_capacity = 16\<rparr>) [])))))
   = [MODULE_STATE_ERROR, MODULE_STATE_STARTED]"
  by (rule failed_dependency_counts_as_ready [OF sample_module_def sample_module_def _ _ _ call_result(1)])
     simp_all


end
