(* ===== verification/C_Heap.thy ===== *)
theory C_Heap
  imports Prelude
begin

text \<open>
  The C allocator as the memory pool uses it: the live blocks with their sizes, the link
  field at the start of a list node, and the bytes. Addresses are natural numbers and 0 is
  NULL. A new block never overlaps a live one, and, as in every real allocator, some bytes
  of the allocator's own lie in front of it.
\<close>

type_synonym ptr = nat

record c_heap =
  brk :: ptr
  heap_answers :: answers
  live :: "(ptr \<times> nat) list"
  links :: "ptr \<Rightarrow> ptr"
  bytes :: "ptr \<Rightarrow> 8 word"

definition gap :: nat where "gap = 16"

definition c_malloc :: "nat \<Rightarrow> c_heap \<Rightarrow> ptr \<times> c_heap" where
  "c_malloc n h = (case next_answer (heap_answers h) of (ok, as) \<Rightarrow>
     if ok
     then (brk h + gap, h\<lparr>brk := brk h + gap + n, heap_answers := as,
                          live := (brk h + gap, n) # live h\<rparr>)
     else (0, h\<lparr>heap_answers := as\<rparr>))"

definition c_free :: "ptr \<Rightarrow> c_heap \<Rightarrow> c_heap outcome" where
  "c_free a h = (if a = 0 then Ret h
     else if a \<in> fst ` set (live h) then Ret (h\<lparr>live := filter (\<lambda>b. fst b \<noteq> a) (live h)\<rparr>)
     else Fault Invalid_free)"

text \<open>Reading and writing the link field of the list node at \<open>a\<close>. A node is a whole block: an
  access at an address at which no live block starts is outside every object.\<close>

definition read_link :: "ptr \<Rightarrow> c_heap \<Rightarrow> ptr outcome" where
  "read_link a h = (if a = 0 then Fault Null_deref
     else if a \<in> fst ` set (live h) then Ret (links h a) else Fault Use_after_free)"

definition write_link :: "ptr \<Rightarrow> ptr \<Rightarrow> c_heap \<Rightarrow> c_heap outcome" where
  "write_link a n h = (if a = 0 then Fault Null_deref
     else if a \<in> fst ` set (live h) then Ret (h\<lparr>links := (links h)(a := n)\<rparr>) else Fault Out_of_bounds)"

text \<open>\<open>n\<close> bytes from \<open>a\<close> lie within one live block.\<close>

definition in_block :: "c_heap \<Rightarrow> ptr \<Rightarrow> nat \<Rightarrow> bool" where
  "in_block h a n = list_ex (\<lambda>(b, s). b \<le> a \<and> a + n \<le> b + s) (live h)"

definition c_memcpy :: "ptr \<Rightarrow> ptr \<Rightarrow> nat \<Rightarrow> c_heap \<Rightarrow> c_heap outcome" where
  "c_memcpy d s n h = (if in_block h d n \<and> in_block h s n
     then Ret (h\<lparr>bytes := (\<lambda>x. if d \<le> x \<and> x < d + n then bytes h (s + (x - d)) else bytes h x)\<rparr>)
     else Fault Out_of_bounds)"

definition c_memset :: "ptr \<Rightarrow> 8 word \<Rightarrow> nat \<Rightarrow> c_heap \<Rightarrow> c_heap outcome" where
  "c_memset d v n h = (if in_block h d n
     then Ret (h\<lparr>bytes := (\<lambda>x. if d \<le> x \<and> x < d + n then v else bytes h x)\<rparr>)
     else Fault Out_of_bounds)"

section \<open>Well-formed heaps\<close>

definition apart :: "(ptr \<times> nat) \<Rightarrow> (ptr \<times> nat) \<Rightarrow> bool" where
  "apart x y = (fst x + snd x + gap \<le> fst y \<or> fst y + snd y + gap \<le> fst x)"

definition heap_ok :: "c_heap \<Rightarrow> bool" where
  "heap_ok h \<longleftrightarrow> distinct (map fst (live h))
     \<and> (\<forall>x \<in> set (live h). gap \<le> fst x \<and> fst x + snd x \<le> brk h)
     \<and> (\<forall>x \<in> set (live h). \<forall>y \<in> set (live h). fst x \<noteq> fst y \<longrightarrow> apart x y)"

lemma gap_pos [simp]: "0 < gap" "gap \<noteq> 0" "8 \<le> gap"
  by (simp_all add: gap_def)

lemma heap_ok_block: "heap_ok h \<Longrightarrow> (a, s) \<in> set (live h) \<Longrightarrow> gap \<le> a \<and> a + s \<le> brk h \<and> a \<noteq> 0"
  by (fastforce simp: heap_ok_def gap_def)

lemma heap_ok_size_unique: "heap_ok h \<Longrightarrow> (a, s) \<in> set (live h) \<Longrightarrow> (a, t) \<in> set (live h) \<Longrightarrow> s = t"
  by (auto simp: heap_ok_def eq_key_imp_eq_value)

lemma heap_ok_apart:
  "heap_ok h \<Longrightarrow> (a, s) \<in> set (live h) \<Longrightarrow> (b, t) \<in> set (live h) \<Longrightarrow> a \<noteq> b \<Longrightarrow> apart (a, s) (b, t)"
  by (fastforce simp: heap_ok_def)

lemma malloc_cases:
  assumes "c_malloc n h = (a, h')"
  obtains (null) as where "a = 0" "h' = h\<lparr>heap_answers := as\<rparr>" "heap_answers h \<noteq> []"
  | (block) as where "a = brk h + gap" "heap_answers h = [] \<longrightarrow> as = []"
      "h' = h\<lparr>brk := brk h + gap + n, heap_answers := as, live := (brk h + gap, n) # live h\<rparr>"
  using assms by (cases "heap_answers h") (auto simp: c_malloc_def split: prod.splits if_splits)

lemma heap_ok_cong:
  "brk h' = brk h \<Longrightarrow> live h' = live h \<Longrightarrow> heap_ok h' = heap_ok h"
  by (simp add: heap_ok_def)

lemma heap_ok_malloc:
  assumes "heap_ok h" and "c_malloc n h = (a, h')"
  shows "heap_ok h'"
  using assms(2)
proof (cases rule: malloc_cases)
  case (null as)
  with assms(1) show ?thesis by (simp add: heap_ok_def)
next
  case (block as)
  have old: "gap \<le> fst x \<and> fst x + snd x \<le> brk h" if "x \<in> set (live h)" for x
    using assms(1) that by (simp add: heap_ok_def)
  then have "\<forall>x \<in> set (live h). fst x \<noteq> brk h + gap" by (fastforce simp: gap_def)
  moreover have "\<forall>x \<in> set (live h). apart x (brk h + gap, n) \<and> apart (brk h + gap, n) x"
    using old by (fastforce simp: apart_def)
  moreover have "\<forall>x \<in> set (live h). fst x + snd x \<le> brk h + gap + n" using old by fastforce
  ultimately show ?thesis
    using assms(1) block old by (fastforce simp: heap_ok_def)
qed

lemma malloc_fresh: "heap_ok h \<Longrightarrow> c_malloc n h = (a, h') \<Longrightarrow> a \<notin> fst ` set (live h)"
proof (erule malloc_cases)
  assume "heap_ok h" "a = 0"
  then show ?thesis by (auto dest: heap_ok_block)
next
  assume "heap_ok h" "a = brk h + gap"
  then show ?thesis by (fastforce dest: heap_ok_block simp: gap_def)
qed

lemma heap_ok_free: "heap_ok h \<Longrightarrow> c_free a h = Ret h' \<Longrightarrow> heap_ok h'"
  unfolding heap_ok_def c_free_def
  by (fastforce simp: distinct_map_filter split: if_splits)

text \<open>No live block starts within the eight bytes in front of another one.\<close>

lemma no_block_in_front:
  assumes "heap_ok h" and "(a, s) \<in> set (live h)"
  shows "a - 8 \<notin> fst ` set (live h)"
proof
  assume "a - 8 \<in> fst ` set (live h)"
  then obtain t where "(a - 8, t) \<in> set (live h)" by auto
  moreover from assms have "gap \<le> a" by (auto dest: heap_ok_block)
  moreover from this have "a \<noteq> a - 8" by (simp add: gap_def)
  ultimately show False
    using heap_ok_apart [OF assms(1) assms(2), of "a - 8" t] by (auto simp: apart_def gap_def)
qed

lemma in_blockI: "(b, s) \<in> set (live h) \<Longrightarrow> b \<le> a \<Longrightarrow> a + n \<le> b + s \<Longrightarrow> in_block h a n"
  by (auto simp: in_block_def list_ex_iff)

text \<open>Bytes that lie in the block at \<open>b\<close> end within that block.\<close>

lemma in_block_within:
  assumes "heap_ok h" and "(b, s) \<in> set (live h)" and "b \<le> a" "a < b + s" and "in_block h a n"
  shows "a + n \<le> b + s \<or> n = 0"
proof -
  from assms(5) obtain c t where c: "(c, t) \<in> set (live h)" "c \<le> a" "a + n \<le> c + t"
    by (auto simp: in_block_def list_ex_iff)
  show ?thesis
  proof (cases "b = c")
    case True
    with c assms(1,2) have "s = t" by (auto dest: heap_ok_size_unique)
    with True c show ?thesis by simp
  next
    case False
    with heap_ok_apart [OF assms(1,2) c(1)] c assms(3,4) show ?thesis
      by (auto simp: apart_def gap_def)
  qed
qed

section \<open>Linked lists in the heap\<close>

fun chain :: "(ptr \<Rightarrow> ptr) \<Rightarrow> ptr \<Rightarrow> ptr list \<Rightarrow> bool" where
  "chain n a [] \<longleftrightarrow> a = 0"
| "chain n a (x # xs) \<longleftrightarrow> a = x \<and> x \<noteq> 0 \<and> chain n (n x) xs"

lemma chain_upd [simp]: "y \<notin> set xs \<Longrightarrow> chain (n(y := z)) a xs = chain n a xs"
  by (induction xs arbitrary: a) auto

lemma chain_cong: "\<forall>x \<in> set xs. m x = n x \<Longrightarrow> chain m a xs = chain n a xs"
  by (induction xs arbitrary: a) auto

lemma chain_unique: "chain n a xs \<Longrightarrow> chain n a ys \<Longrightarrow> xs = ys"
proof (induction xs arbitrary: a ys)
  case Nil
  then show ?case by (cases ys) auto
next
  case (Cons x xs)
  then show ?case by (cases ys) auto
qed

end
