(* ===== verification/Memory_Pool.thy ===== *)
theory Memory_Pool
  imports C_Heap
begin

text \<open>
  The memory pool module (src/memory/memory_pool_module.c): four pools of fixed-size blocks,
  each a free list linked through the blocks themselves, allocation from the smallest pool
  that fits with the system allocator as the fallback, and the module's life cycle. The
  module's private data and the global pointer to it are set and cleared together, so both
  are the field \<open>pool_data\<close>. Log output is not modelled. A call runs with the pool's mutex
  held, so calls are modelled one after the other.
\<close>

section \<open>Data\<close>

record memory_pool_config =
  enable_small_pool :: bool
  enable_medium_pool :: bool
  enable_large_pool :: bool
  enable_huge_pool :: bool
  small_pool_blocks :: int
  medium_pool_blocks :: int
  large_pool_blocks :: int
  huge_pool_blocks :: int
  enable_statistics :: bool
  enable_auto_resize :: bool

record memory_pool =
  block_size :: "64 word"
  total_blocks :: int
  free_blocks :: int
  free_list :: ptr
  pool_mutex :: uv_mutex

record memory_pool_private_data =
  small_pool :: memory_pool
  medium_pool :: memory_pool
  large_pool :: memory_pool
  huge_pool :: memory_pool
  pool_config :: memory_pool_config
  stats_timer :: bool
  total_allocated :: "64 word"
  total_freed :: "64 word"
  allocation_count :: "32 word"
  free_count :: "32 word"

record pool_state =
  pool_heap :: c_heap
  pool_data :: "memory_pool_private_data option"

datatype pool_id = Small | Medium | Large | Huge

text \<open>The offset of \<open>data\<close> in a block, which is also the size of the block without its data.\<close>

definition DATA_OFFSET :: nat where "DATA_OFFSET = 8"

definition pool_default_config :: memory_pool_config where
  "pool_default_config =
     \<lparr>enable_small_pool = True, enable_medium_pool = True, enable_large_pool = True,
      enable_huge_pool = True, small_pool_blocks = 1000, medium_pool_blocks = 500,
      large_pool_blocks = 200, huge_pool_blocks = 50, enable_statistics = True,
      enable_auto_resize = True\<rparr>"

fun pool_block_size :: "pool_id \<Rightarrow> 64 word" where
  "pool_block_size Small = 64"
| "pool_block_size Medium = 256"
| "pool_block_size Large = 1024"
| "pool_block_size Huge = 4096"

fun the_pool :: "pool_id \<Rightarrow> memory_pool_private_data \<Rightarrow> memory_pool" where
  "the_pool Small d = small_pool d"
| "the_pool Medium d = medium_pool d"
| "the_pool Large d = large_pool d"
| "the_pool Huge d = huge_pool d"

fun put_pool :: "pool_id \<Rightarrow> memory_pool \<Rightarrow> memory_pool_private_data \<Rightarrow> memory_pool_private_data" where
  "put_pool Small p d = d\<lparr>small_pool := p\<rparr>"
| "put_pool Medium p d = d\<lparr>medium_pool := p\<rparr>"
| "put_pool Large p d = d\<lparr>large_pool := p\<rparr>"
| "put_pool Huge p d = d\<lparr>huge_pool := p\<rparr>"

fun pool_enabled :: "pool_id \<Rightarrow> memory_pool_config \<Rightarrow> bool" where
  "pool_enabled Small c = enable_small_pool c"
| "pool_enabled Medium c = enable_medium_pool c"
| "pool_enabled Large c = enable_large_pool c"
| "pool_enabled Huge c = enable_huge_pool c"

fun initial_blocks :: "pool_id \<Rightarrow> memory_pool_config \<Rightarrow> int" where
  "initial_blocks Small c = small_pool_blocks c"
| "initial_blocks Medium c = medium_pool_blocks c"
| "initial_blocks Large c = large_pool_blocks c"
| "initial_blocks Huge c = huge_pool_blocks c"

section \<open>One pool\<close>

text \<open>The loop of \<open>memory_pool_expand_pool\<close>; False when an allocation failed.\<close>

fun expand_loop :: "nat \<Rightarrow> memory_pool \<Rightarrow> c_heap \<Rightarrow> bool \<times> memory_pool \<times> c_heap" where
  "expand_loop 0 p h = (True, p, h)"
| "expand_loop (Suc n) p h =
     (case c_malloc (DATA_OFFSET + unat (block_size p)) h of (a, h1) \<Rightarrow>
        if a = 0 then (False, p, h1)
        else expand_loop n
          (p\<lparr>free_list := a, free_blocks := free_blocks p + 1, total_blocks := total_blocks p + 1\<rparr>)
          (h1\<lparr>links := (links h1)(a := free_list p)\<rparr>))"

definition memory_pool_expand_pool ::
  "memory_pool \<Rightarrow> int \<Rightarrow> c_heap \<Rightarrow> (int \<times> memory_pool \<times> c_heap) outcome" where
  "memory_pool_expand_pool p additional h =
     (if additional \<le> 0 then Ret (-1, p, h)
      else obind (uv_mutex_lock (pool_mutex p)) (\<lambda>m.
        case expand_loop (nat additional) (p\<lparr>pool_mutex := m\<rparr>) h of (ok, p1, h1) \<Rightarrow>
          obind (uv_mutex_unlock (pool_mutex p1)) (\<lambda>m1.
            Ret (if ok then 0 else -1, p1\<lparr>pool_mutex := m1\<rparr>, h1))))"

definition init_memory_pool ::
  "memory_pool \<Rightarrow> 64 word \<Rightarrow> int \<Rightarrow> c_heap \<Rightarrow> (int \<times> memory_pool \<times> c_heap) outcome" where
  "init_memory_pool p sz initial h =
     (let p1 = p\<lparr>block_size := sz, total_blocks := 0, free_blocks := 0, free_list := 0\<rparr> in
      case next_answer (heap_answers h) of (ok, as) \<Rightarrow>
        if \<not> ok then Ret (-1, p1, h\<lparr>heap_answers := as\<rparr>)
        else memory_pool_expand_pool (p1\<lparr>pool_mutex := Mutex_free\<rparr>) initial (h\<lparr>heap_answers := as\<rparr>))"

text \<open>The part of \<open>allocate_from_pool\<close> that takes the head of the free list, with the mutex held.\<close>

definition take_block :: "memory_pool \<Rightarrow> c_heap \<Rightarrow> (ptr \<times> memory_pool \<times> c_heap) outcome" where
  "take_block p h =
     obind (read_link (free_list p) h) (\<lambda>n.
     obind (uv_mutex_unlock (pool_mutex p)) (\<lambda>m.
       Ret (free_list p + DATA_OFFSET,
            p\<lparr>free_list := n, free_blocks := free_blocks p - 1, pool_mutex := m\<rparr>, h)))"

definition allocate_from_pool ::
  "bool \<Rightarrow> memory_pool \<Rightarrow> c_heap \<Rightarrow> (ptr \<times> memory_pool \<times> c_heap) outcome" where
  "allocate_from_pool auto_resize p h =
     obind (uv_mutex_lock (pool_mutex p)) (\<lambda>m.
       if free_blocks p = 0
       then obind (uv_mutex_unlock m) (\<lambda>m1.
         if auto_resize
         then obind (memory_pool_expand_pool (p\<lparr>pool_mutex := m1\<rparr>) (total_blocks p div 2 + 1) h)
           (\<lambda>(r, p1, h1).
              if r = 0
              then obind (uv_mutex_lock (pool_mutex p1)) (\<lambda>m2. take_block (p1\<lparr>pool_mutex := m2\<rparr>) h1)
              else obind (uv_mutex_unlock (pool_mutex p1)) (\<lambda>m2. Ret (0, p1\<lparr>pool_mutex := m2\<rparr>, h1)))
         else Ret (0, p\<lparr>pool_mutex := m1\<rparr>, h))
       else take_block (p\<lparr>pool_mutex := m\<rparr>) h)"

definition free_to_pool :: "memory_pool \<Rightarrow> ptr \<Rightarrow> c_heap \<Rightarrow> (memory_pool \<times> c_heap) outcome" where
  "free_to_pool p a h =
     (if a = 0 then Ret (p, h)
      else let block = a - DATA_OFFSET in
        obind (uv_mutex_lock (pool_mutex p)) (\<lambda>m.
        obind (write_link block (free_list p) h) (\<lambda>h1.
        obind (uv_mutex_unlock m) (\<lambda>m1.
          Ret (p\<lparr>free_list := block, free_blocks := free_blocks p + 1, pool_mutex := m1\<rparr>, h1)))))"

text \<open>
  The loop \<^verbatim>\<open>while (block) { next = block->next; free(block); block = next; }\<close>. It ends on
  every heap, also one whose free list runs in a circle: each round frees a live block.
\<close>

function cleanup_loop :: "ptr \<Rightarrow> c_heap \<Rightarrow> c_heap outcome" where
  "cleanup_loop a h =
     (if a = 0 then Ret h
      else case read_link a h of
        Fault e \<Rightarrow> Fault e
      | Ret n \<Rightarrow> cleanup_loop n (h\<lparr>live := filter (\<lambda>b. fst b \<noteq> a) (live h)\<rparr>))"
  by pat_completeness auto
termination
proof (relation "measure (\<lambda>(a, h). length (live h))")
  fix a :: ptr and h :: c_heap and n
  assume "a \<noteq> 0" "read_link a h = Ret n"
  then obtain s where "(a, s) \<in> set (live h)" by (auto simp: read_link_def split: if_splits)
  then have "length (filter (\<lambda>b. fst b \<noteq> a) (live h)) < length (live h)"
    by (intro length_filter_less) auto
  then show "((n, h\<lparr>live := filter (\<lambda>b. fst b \<noteq> a) (live h)\<rparr>), a, h) \<in> measure (\<lambda>(a, h). length (live h))"
    by simp
qed simp

declare cleanup_loop.simps [simp del]

definition memory_pool_cleanup_pool :: "memory_pool \<Rightarrow> c_heap \<Rightarrow> (memory_pool \<times> c_heap) outcome" where
  "memory_pool_cleanup_pool p h =
     obind (uv_mutex_lock (pool_mutex p)) (\<lambda>m.
     obind (cleanup_loop (free_list p) h) (\<lambda>h1.
     obind (uv_mutex_unlock m) (\<lambda>m1.
       Ret (p\<lparr>free_list := 0, total_blocks := 0, free_blocks := 0, pool_mutex := Mutex_dead\<rparr>, h1))))"

section \<open>Allocation\<close>

fun select_loop :: "pool_id list \<Rightarrow> memory_pool_config \<Rightarrow> 64 word \<Rightarrow> pool_id option" where
  "select_loop [] c sz = None"
| "select_loop (i # is) c sz =
     (if sz \<le> pool_block_size i \<and> pool_enabled i c then Some i else select_loop is c sz)"

definition select_memory_pool :: "64 word \<Rightarrow> pool_state \<Rightarrow> pool_id option" where
  "select_memory_pool sz s = (case pool_data s of
     None \<Rightarrow> None
   | Some d \<Rightarrow> select_loop [Small, Medium, Large, Huge] (pool_config d) sz)"

text \<open>The statistics update after a successful allocation.\<close>

definition count_allocation :: "64 word \<Rightarrow> pool_state \<Rightarrow> pool_state" where
  "count_allocation sz s = (case pool_data s of
     None \<Rightarrow> s
   | Some d \<Rightarrow> if enable_statistics (pool_config d)
       then s\<lparr>pool_data := Some (d\<lparr>total_allocated := total_allocated d + sz,
                                  allocation_count := allocation_count d + 1\<rparr>)\<rparr>
       else s)"

definition system_malloc :: "64 word \<Rightarrow> pool_state \<Rightarrow> ptr \<times> pool_state" where
  "system_malloc sz s = (case c_malloc (unat sz) (pool_heap s) of (a, h) \<Rightarrow>
     if a \<noteq> 0 then (a, count_allocation sz (s\<lparr>pool_heap := h\<rparr>)) else (0, s\<lparr>pool_heap := h\<rparr>))"

definition memory_pool_alloc :: "64 word \<Rightarrow> pool_state \<Rightarrow> (ptr \<times> pool_state) outcome" where
  "memory_pool_alloc sz s =
     (if sz = 0 then Ret (0, s)
      else case (select_memory_pool sz s, pool_data s) of
        (Some i, Some d) \<Rightarrow>
          obind (allocate_from_pool (enable_auto_resize (pool_config d)) (the_pool i d) (pool_heap s))
            (\<lambda>(a, p, h). let s1 = s\<lparr>pool_heap := h, pool_data := Some (put_pool i p d)\<rparr> in
               if a \<noteq> 0 then Ret (a, count_allocation sz s1) else Ret (system_malloc sz s1))
      | _ \<Rightarrow> Ret (system_malloc sz s))"

text \<open>
  The loop over the four pools in \<open>memory_pool_free\<close>. The addresses in the array are those
  of members of the private data, hence not NULL when there is one, and the body returns.
\<close>

fun free_loop :: "pool_id list \<Rightarrow> ptr \<Rightarrow> pool_state \<Rightarrow> pool_state option outcome" where
  "free_loop [] a s = Ret None"
| "free_loop (i # is) a s = (case pool_data s of
     None \<Rightarrow> free_loop is a s
   | Some d \<Rightarrow> obind (free_to_pool (the_pool i d) a (pool_heap s)) (\<lambda>(p, h).
       let d1 = put_pool i p d in
       Ret (Some (s\<lparr>pool_heap := h, pool_data := Some
         (if enable_statistics (pool_config d)
          then d1\<lparr>total_freed := total_freed d1 + block_size (the_pool i d1),
                  free_count := free_count d1 + 1\<rparr>
          else d1)\<rparr>))))"

definition memory_pool_free :: "ptr \<Rightarrow> pool_state \<Rightarrow> pool_state outcome" where
  "memory_pool_free a s =
     (if a = 0 then Ret s
      else obind (free_loop [Small, Medium, Large, Huge] a s) (\<lambda>r. case r of
        Some s1 \<Rightarrow> Ret s1
      | None \<Rightarrow>
          let s1 = (case pool_data s of
              Some d \<Rightarrow> if enable_statistics (pool_config d)
                then s\<lparr>pool_data := Some (d\<lparr>free_count := free_count d + 1\<rparr>)\<rparr> else s
            | None \<Rightarrow> s) in
          obind (c_free a (pool_heap s1)) (\<lambda>h. Ret (s1\<lparr>pool_heap := h\<rparr>))))"

definition memory_pool_realloc :: "ptr \<Rightarrow> 64 word \<Rightarrow> pool_state \<Rightarrow> (ptr \<times> pool_state) outcome" where
  "memory_pool_realloc a new_size s =
     (if a = 0 then memory_pool_alloc new_size s
      else if new_size = 0 then obind (memory_pool_free a s) (\<lambda>s1. Ret (0, s1))
      else obind (memory_pool_alloc new_size s) (\<lambda>(b, s1).
        if b = 0 then Ret (0, s1)
        else obind (c_memcpy b a (unat new_size) (pool_heap s1)) (\<lambda>h.
             obind (memory_pool_free a (s1\<lparr>pool_heap := h\<rparr>)) (\<lambda>s2. Ret (b, s2)))))"

definition memory_pool_calloc :: "64 word \<Rightarrow> 64 word \<Rightarrow> pool_state \<Rightarrow> (ptr \<times> pool_state) outcome" where
  "memory_pool_calloc cnt sz s =
     (let total_size = cnt * sz in
      obind (memory_pool_alloc total_size s) (\<lambda>(a, s1).
        if a \<noteq> 0
        then obind (c_memset a 0 (unat total_size) (pool_heap s1)) (\<lambda>h. Ret (a, s1\<lparr>pool_heap := h\<rparr>))
        else Ret (a, s1)))"

definition memory_pool_validate_ptr :: "ptr \<Rightarrow> int" where
  "memory_pool_validate_ptr a = (if a = 0 then 0 else 1)"

section \<open>The module\<close>

text \<open>The arguments \<open>self\<close> and \<open>loop\<close> say whether the pointer is not NULL. What \<open>memset\<close> leaves in
  the private data is a pool with no blocks and a mutex that is not initialised.\<close>

definition zero_pool :: memory_pool where
  "zero_pool = \<lparr>block_size = 0, total_blocks = 0, free_blocks = 0, free_list = 0, pool_mutex = Mutex_raw\<rparr>"

definition memory_pool_module_init :: "bool \<Rightarrow> bool \<Rightarrow> pool_state \<Rightarrow> int \<times> pool_state" where
  "memory_pool_module_init self loop s =
     (if \<not> self \<or> \<not> loop then (-1, s)
      else case next_answer (heap_answers (pool_heap s)) of (ok, as) \<Rightarrow>
        let s1 = s\<lparr>pool_heap := (pool_heap s)\<lparr>heap_answers := as\<rparr>\<rparr> in
        if \<not> ok then (-1, s1)
        else (0, s1\<lparr>pool_data := Some
          \<lparr>small_pool = zero_pool, medium_pool = zero_pool, large_pool = zero_pool,
           huge_pool = zero_pool, pool_config = pool_default_config, stats_timer = False,
           total_allocated = 0, total_freed = 0, allocation_count = 0, free_count = 0\<rparr>\<rparr>))"

text \<open>The four \<open>if\<close> statements that set up the enabled pools, in order; the first failure ends
  the start.\<close>

fun start_pools ::
  "pool_id list \<Rightarrow> memory_pool_private_data \<Rightarrow> c_heap \<Rightarrow> (int \<times> memory_pool_private_data \<times> c_heap) outcome" where
  "start_pools [] d h = Ret (0, d, h)"
| "start_pools (i # is) d h =
     (if pool_enabled i (pool_config d)
      then obind (init_memory_pool (the_pool i d) (pool_block_size i) (initial_blocks i (pool_config d)) h)
        (\<lambda>(r, p, h1). if r \<noteq> 0 then Ret (-1, put_pool i p d, h1) else start_pools is (put_pool i p d) h1)
      else start_pools is d h)"

definition memory_pool_module_start :: "bool \<Rightarrow> pool_state \<Rightarrow> (int \<times> pool_state) outcome" where
  "memory_pool_module_start self s = (case pool_data s of
     None \<Rightarrow> Ret (-1, s)
   | Some d \<Rightarrow> if \<not> self then Ret (-1, s) else
       obind (start_pools [Small, Medium, Large, Huge] d (pool_heap s)) (\<lambda>(r, d1, h).
         if r \<noteq> 0 then Ret (-1, s\<lparr>pool_data := Some d1, pool_heap := h\<rparr>)
         else Ret (0, s\<lparr>pool_data := Some (if enable_statistics (pool_config d1)
                 then d1\<lparr>stats_timer := True\<rparr> else d1), pool_heap := h\<rparr>)))"

definition memory_pool_module_stop :: "bool \<Rightarrow> pool_state \<Rightarrow> int \<times> pool_state" where
  "memory_pool_module_stop self s = (case pool_data s of
     None \<Rightarrow> (-1, s)
   | Some d \<Rightarrow> if \<not> self then (-1, s) else
       (0, if enable_statistics (pool_config d)
           then s\<lparr>pool_data := Some (d\<lparr>stats_timer := False\<rparr>)\<rparr> else s))"

fun cleanup_pools ::
  "pool_id list \<Rightarrow> memory_pool_private_data \<Rightarrow> c_heap \<Rightarrow> (memory_pool_private_data \<times> c_heap) outcome" where
  "cleanup_pools [] d h = Ret (d, h)"
| "cleanup_pools (i # is) d h =
     (if pool_enabled i (pool_config d)
      then obind (memory_pool_cleanup_pool (the_pool i d) h) (\<lambda>(p, h1). cleanup_pools is (put_pool i p d) h1)
      else cleanup_pools is d h)"

definition memory_pool_module_cleanup :: "bool \<Rightarrow> pool_state \<Rightarrow> (int \<times> pool_state) outcome" where
  "memory_pool_module_cleanup self s = (case pool_data s of
     None \<Rightarrow> Ret (-1, s)
   | Some d \<Rightarrow> if \<not> self then Ret (-1, s) else
       obind (cleanup_pools [Small, Medium, Large, Huge] d (pool_heap s)) (\<lambda>(d1, h).
         Ret (0, s\<lparr>pool_data := None, pool_heap := h\<rparr>)))"

definition memory_pool_module_set_config ::
  "bool \<Rightarrow> memory_pool_config option \<Rightarrow> pool_state \<Rightarrow> int \<times> pool_state" where
  "memory_pool_module_set_config self config s = (case (pool_data s, config) of
     (Some d, Some c) \<Rightarrow> if \<not> self then (-1, s) else (0, s\<lparr>pool_data := Some (d\<lparr>pool_config := c\<rparr>)\<rparr>)
   | _ \<Rightarrow> (-1, s))"

definition memory_pool_module_get_config :: "bool \<Rightarrow> pool_state \<Rightarrow> memory_pool_config option" where
  "memory_pool_module_get_config self s = (if self then map_option pool_config (pool_data s) else None)"

definition memory_pool_get_total_allocated :: "pool_state \<Rightarrow> 64 word" where
  "memory_pool_get_total_allocated s = (case pool_data s of None \<Rightarrow> 0 | Some d \<Rightarrow> total_allocated d)"

definition memory_pool_get_total_freed :: "pool_state \<Rightarrow> 64 word" where
  "memory_pool_get_total_freed s = (case pool_data s of None \<Rightarrow> 0 | Some d \<Rightarrow> total_freed d)"

definition memory_pool_get_allocation_count :: "pool_state \<Rightarrow> 32 word" where
  "memory_pool_get_allocation_count s = (case pool_data s of None \<Rightarrow> 0 | Some d \<Rightarrow> allocation_count d)"

definition memory_pool_get_free_count :: "pool_state \<Rightarrow> 32 word" where
  "memory_pool_get_free_count s = (case pool_data s of None \<Rightarrow> 0 | Some d \<Rightarrow> free_count d)"

section \<open>Free lists and heap growth\<close>

text \<open>\<open>free_chain h p xs\<close>: the free list of the pool is the list of live blocks \<open>xs\<close>, each large
  enough for the pool, and the counter says how many they are.\<close>

definition free_chain :: "c_heap \<Rightarrow> memory_pool \<Rightarrow> ptr list \<Rightarrow> bool" where
  "free_chain h p xs \<longleftrightarrow> chain (links h) (free_list p) xs \<and> distinct xs
     \<and> free_blocks p = int (length xs)
     \<and> (\<forall>x \<in> set xs. \<exists>s. (x, s) \<in> set (live h) \<and> DATA_OFFSET + unat (block_size p) \<le> s)"

definition heap_grows :: "c_heap \<Rightarrow> c_heap \<Rightarrow> ptr list \<Rightarrow> bool" where
  "heap_grows h h' ys \<longleftrightarrow> (\<exists>new. live h' = new @ live h \<and> fst ` set new = set ys)
     \<and> (\<forall>x. x \<notin> set ys \<longrightarrow> links h' x = links h x)
     \<and> set ys \<inter> fst ` set (live h) = {} \<and> bytes h' = bytes h"

lemma heap_grows_live: "heap_grows h h' ys \<Longrightarrow> b \<in> set (live h) \<Longrightarrow> b \<in> set (live h')"
  by (auto simp: heap_grows_def)

lemma heap_grows_refl [simp]: "heap_grows h (h\<lparr>heap_answers := as\<rparr>) []"
  by (simp add: heap_grows_def)

lemma heap_grows_trans:
  assumes "heap_grows h h1 ys" and "heap_grows h1 h2 zs"
  shows "heap_grows h h2 (zs @ ys)"
proof -
  from assms(1) obtain m where m: "live h1 = m @ live h" "fst ` set m = set ys"
    "\<forall>x. x \<notin> set ys \<longrightarrow> links h1 x = links h x" "set ys \<inter> fst ` set (live h) = {}" "bytes h1 = bytes h"
    unfolding heap_grows_def by blast
  from assms(2) obtain n where n: "live h2 = n @ live h1" "fst ` set n = set zs"
    "\<forall>x. x \<notin> set zs \<longrightarrow> links h2 x = links h1 x" "set zs \<inter> fst ` set (live h1) = {}" "bytes h2 = bytes h1"
    unfolding heap_grows_def by blast
  have "live h2 = (n @ m) @ live h \<and> fst ` set (n @ m) = set (zs @ ys)"
    using m(1,2) n(1,2) by (simp add: image_Un)
  moreover have "set (zs @ ys) \<inter> fst ` set (live h) = {}"
    using m(1,4) n(4) by (auto simp: image_Un)
  ultimately show ?thesis using m(3,5) n(3,5) unfolding heap_grows_def
    by (intro conjI exI [of _ "n @ m"]) simp_all
qed

lemma free_chain_live: "free_chain h p xs \<Longrightarrow> set xs \<subseteq> fst ` set (live h)"
  unfolding free_chain_def by force

lemma free_chain_grows:
  assumes "free_chain h p xs" and "heap_grows h h' ys"
  shows "free_chain h' p xs"
proof -
  have "\<forall>x \<in> set xs. links h' x = links h x"
    using free_chain_live [OF assms(1)] assms(2) by (auto simp: heap_grows_def)
  then have "chain (links h') (free_list p) xs = chain (links h) (free_list p) xs"
    by (rule chain_cong)
  with assms show ?thesis by (fastforce simp: free_chain_def dest: heap_grows_live)
qed

lemma free_chain_mutex [simp]: "free_chain h (p\<lparr>pool_mutex := m\<rparr>) xs = free_chain h p xs"
  by (simp add: free_chain_def)

lemma free_chain_heap_cong:
  "links h' = links h \<Longrightarrow> live h' = live h \<Longrightarrow> free_chain h' p xs = free_chain h p xs"
  by (simp add: free_chain_def)

lemma free_chain_relink [simp]:
  "x \<notin> set xs \<Longrightarrow> free_chain (h\<lparr>links := (links h)(x := y)\<rparr>) p xs = free_chain h p xs"
  by (simp add: free_chain_def)

lemma expand_step:
  assumes "heap_ok h" and "free_chain h p xs"
    and "c_malloc (DATA_OFFSET + unat (block_size p)) h = (a, h1)" and "a \<noteq> 0"
  defines "h2 \<equiv> h1\<lparr>links := (links h1)(a := free_list p)\<rparr>"
    and "p2 \<equiv> p\<lparr>free_list := a, free_blocks := free_blocks p + 1, total_blocks := total_blocks p + 1\<rparr>"
  shows "heap_ok h2 \<and> free_chain h2 p2 (a # xs) \<and> heap_grows h h2 [a]
    \<and> (heap_answers h = [] \<longrightarrow> heap_answers h2 = [])"
proof -
  have fresh: "a \<notin> fst ` set (live h)" using malloc_fresh [OF assms(1,3)] .
  with free_chain_live [OF assms(2)] have notin: "a \<notin> set xs" by auto
  have "heap_ok h2"
    using heap_ok_malloc [OF assms(1,3)] by (simp add: h2_def heap_ok_def)
  from assms(3) show ?thesis
  proof (cases rule: malloc_cases)
    case (block as)
    with assms(2,4) fresh notin \<open>heap_ok h2\<close> show ?thesis
      by (auto simp: h2_def p2_def free_chain_def heap_grows_def)
  qed (use assms(4) in simp)
qed

lemma expand_loop_spec:
  assumes "heap_ok h" and "free_chain h p xs" and "expand_loop n p h = (ok, p', h')"
  shows "\<exists>ys. heap_ok h' \<and> free_chain h' p' (ys @ xs) \<and> heap_grows h h' ys
    \<and> (ok \<longrightarrow> length ys = n) \<and> (heap_answers h = [] \<longrightarrow> ok \<and> heap_answers h' = [])
    \<and> block_size p' = block_size p \<and> pool_mutex p' = pool_mutex p
    \<and> total_blocks p' = total_blocks p + int (length ys)"
  using assms
proof (induction n arbitrary: p h xs)
  case 0
  then show ?case by (intro exI [of _ "[]"]) (auto simp: heap_grows_def)
next
  case (Suc n)
  obtain a h1 where m: "c_malloc (DATA_OFFSET + unat (block_size p)) h = (a, h1)" by force
  from m show ?case
  proof (cases rule: malloc_cases)
    case (null as)
    then have "free_chain h1 p xs" using Suc.prems(2) free_chain_heap_cong [of h1 h p xs] by simp
    with null Suc.prems m heap_ok_malloc [OF Suc.prems(1) m] show ?thesis
      by (intro exI [of _ "[]"]) auto
  next
    case (block as)
    then have False: "a \<noteq> 0" by simp
    let ?h = "h1\<lparr>links := (links h1)(a := free_list p)\<rparr>"
    let ?p = "p\<lparr>free_list := a, free_blocks := free_blocks p + 1, total_blocks := total_blocks p + 1\<rparr>"
    note st = expand_step [OF Suc.prems(1,2) m False]
    have "expand_loop n ?p ?h = (ok, p', h')" using Suc.prems(3) m False by simp
    from Suc.IH [OF _ _ this, of "a # xs"] st obtain ys where
      ys: "heap_ok h'" "free_chain h' p' (ys @ a # xs)" "heap_grows ?h h' ys"
        "ok \<longrightarrow> length ys = n" "heap_answers ?h = [] \<longrightarrow> ok \<and> heap_answers h' = []"
        "block_size p' = block_size p" "pool_mutex p' = pool_mutex p"
        "total_blocks p' = total_blocks p + 1 + int (length ys)" by auto
    have "heap_grows h h' (ys @ [a])" using heap_grows_trans [of h ?h "[a]" h' ys] st ys(3) by blast
    with ys st show ?thesis by (intro exI [of _ "ys @ [a]"]) auto
  qed
qed

text \<open>Setting up and growing a pool when no allocation fails, and taking and returning a block.\<close>

lemma expand_spec:
  assumes "heap_ok h" and "heap_answers h = []" and "free_chain h p xs" and "pool_mutex p = Mutex_free"
    and "0 < n"
  shows "\<exists>p' h' ys. memory_pool_expand_pool p n h = Ret (0, p', h') \<and> heap_ok h' \<and> heap_answers h' = []
    \<and> free_chain h' p' (ys @ xs) \<and> heap_grows h h' ys \<and> length ys = nat n
    \<and> block_size p' = block_size p \<and> pool_mutex p' = Mutex_free
    \<and> total_blocks p' = total_blocks p + n"
proof -
  obtain ok p1 h1 where e: "expand_loop (nat n) (p\<lparr>pool_mutex := Mutex_held\<rparr>) h = (ok, p1, h1)"
    by (metis surj_pair)
  from expand_loop_spec [OF assms(1) _ e, of xs] assms obtain ys where
    "heap_ok h1" "free_chain h1 p1 (ys @ xs)" "heap_grows h h1 ys" "length ys = nat n" "ok"
    "heap_answers h1 = []" "block_size p1 = block_size p" "pool_mutex p1 = Mutex_held"
    "total_blocks p1 = total_blocks p + int (length ys)" by auto
  with e assms show ?thesis
    by (intro exI [of _ "p1\<lparr>pool_mutex := Mutex_free\<rparr>"] exI [of _ h1] exI [of _ ys])
      (simp add: memory_pool_expand_pool_def)
qed

lemma init_pool_spec:
  assumes "heap_ok h" and "heap_answers h = []" and "0 < n"
  shows "\<exists>p' h' ys. init_memory_pool p sz n h = Ret (0, p', h') \<and> heap_ok h' \<and> heap_answers h' = []
    \<and> free_chain h' p' ys \<and> heap_grows h h' ys \<and> length ys = nat n
    \<and> block_size p' = sz \<and> pool_mutex p' = Mutex_free \<and> total_blocks p' = n"
proof -
  let ?p = "p\<lparr>block_size := sz, total_blocks := 0, free_blocks := 0, free_list := 0, pool_mutex := Mutex_free\<rparr>"
  have same: "h\<lparr>heap_answers := []\<rparr> = h" using assms(2) by simp
  have "init_memory_pool p sz n h = memory_pool_expand_pool ?p n h"
    using assms(2) by (simp add: init_memory_pool_def Let_def same)
  moreover have "free_chain h ?p []" by (simp add: free_chain_def)
  ultimately show ?thesis using expand_spec [OF assms(1,2), of ?p "[]" n] assms(3) by simp
qed

lemma take_block_spec:
  assumes "heap_ok h" and "free_chain h p (x # xs)" and "pool_mutex p = Mutex_held"
  shows "\<exists>p'. take_block p h = Ret (x + DATA_OFFSET, p', h) \<and> free_chain h p' xs
    \<and> pool_mutex p' = Mutex_free \<and> block_size p' = block_size p \<and> total_blocks p' = total_blocks p"
proof -
  from assms(2) have "free_list p = x" "x \<noteq> 0" "x \<in> fst ` set (live h)"
    using free_chain_live [OF assms(2)] by (auto simp: free_chain_def)
  with assms show ?thesis by (auto simp: take_block_def read_link_def free_chain_def)
qed

lemma allocate_spec:
  assumes "heap_ok h" and "heap_answers h = []" and "free_chain h p xs" and "pool_mutex p = Mutex_free"
    and "0 \<le> total_blocks p"
  shows "\<exists>p' h' x ys zs. allocate_from_pool True p h = Ret (x + DATA_OFFSET, p', h')
    \<and> heap_ok h' \<and> heap_answers h' = [] \<and> heap_grows h h' ys \<and> ys @ xs = x # zs
    \<and> (xs \<noteq> [] \<longrightarrow> ys = [] \<and> h' = h)
    \<and> free_chain h' p' zs \<and> free_chain h' p (xs) \<and> pool_mutex p' = Mutex_free
    \<and> (\<exists>s. (x, s) \<in> set (live h') \<and> DATA_OFFSET + unat (block_size p) \<le> s)
    \<and> block_size p' = block_size p \<and> 0 \<le> total_blocks p' \<and> x \<notin> set zs \<and> x \<noteq> 0"
proof (cases xs)
  case Nil
  let ?n = "total_blocks p div 2 + 1"
  have pos: "0 < ?n" using assms(5) by simp
  obtain p1 h1 ys where e: "memory_pool_expand_pool p ?n h = Ret (0, p1, h1)"
    "heap_ok h1" "heap_answers h1 = []" "free_chain h1 p1 (ys @ xs)" "heap_grows h h1 ys"
    "length ys = nat ?n" "block_size p1 = block_size p" "pool_mutex p1 = Mutex_free"
    "total_blocks p1 = total_blocks p + ?n"
    using expand_spec [OF assms(1-4) pos] by blast
  from e(6) pos obtain x zs where ys: "ys = x # zs" by (cases ys) auto
  with Nil e(4) have ch: "free_chain h1 (p1\<lparr>pool_mutex := Mutex_held\<rparr>) (x # zs)" by simp
  from take_block_spec [OF e(2) ch] obtain p2 where
    p2: "take_block (p1\<lparr>pool_mutex := Mutex_held\<rparr>) h1 = Ret (x + DATA_OFFSET, p2, h1)"
      "free_chain h1 p2 zs" "pool_mutex p2 = Mutex_free" "block_size p2 = block_size p"
      "total_blocks p2 = total_blocks p1" using e(7) by auto
  have same: "p\<lparr>pool_mutex := Mutex_free\<rparr> = p" using assms(4) by simp
  have "free_blocks p = 0" using assms(3) Nil by (simp add: free_chain_def)
  then have "allocate_from_pool True p h = Ret (x + DATA_OFFSET, p2, h1)"
    using assms(4) e(1,8) p2(1) by (simp add: allocate_from_pool_def same)
  moreover from ch e(7) have "\<exists>s. (x, s) \<in> set (live h1) \<and> DATA_OFFSET + unat (block_size p) \<le> s"
    "x \<notin> set zs" "x \<noteq> 0" by (auto simp: free_chain_def)
  ultimately show ?thesis
    using Nil e p2 ys assms(5) free_chain_grows [OF assms(3) e(5)]
    by (intro exI [of _ p2] exI [of _ h1] exI [of _ x] exI [of _ ys] exI [of _ zs]) simp
next
  case (Cons x zs)
  from take_block_spec [OF assms(1), of "p\<lparr>pool_mutex := Mutex_held\<rparr>" x zs] assms(3) Cons obtain p2 where
    p2: "take_block (p\<lparr>pool_mutex := Mutex_held\<rparr>) h = Ret (x + DATA_OFFSET, p2, h)"
      "free_chain h p2 zs" "pool_mutex p2 = Mutex_free" "block_size p2 = block_size p"
      "total_blocks p2 = total_blocks p" by auto
  have "free_blocks p \<noteq> 0" using assms(3) Cons by (simp add: free_chain_def)
  then have "allocate_from_pool True p h = Ret (x + DATA_OFFSET, p2, h)"
    using assms(4) p2(1) by (simp add: allocate_from_pool_def)
  moreover from assms(3) Cons have "\<exists>s. (x, s) \<in> set (live h) \<and> DATA_OFFSET + unat (block_size p) \<le> s"
    "x \<notin> set zs" "x \<noteq> 0" by (auto simp: free_chain_def)
  ultimately show ?thesis
    using Cons p2 assms
    by (intro exI [of _ p2] exI [of _ h] exI [of _ x] exI [of _ "[]"] exI [of _ zs])
      (simp add: heap_grows_def)
qed

lemma free_to_pool_spec:
  assumes "free_chain h p xs" and "pool_mutex p = Mutex_free"
    and "x = a - DATA_OFFSET" and "x \<noteq> 0" and "x \<notin> set xs"
    and "(x, s) \<in> set (live h)" and "DATA_OFFSET + unat (block_size p) \<le> s"
  shows "\<exists>p'. free_to_pool p a h = Ret (p', h\<lparr>links := (links h)(x := free_list p)\<rparr>)
    \<and> free_chain (h\<lparr>links := (links h)(x := free_list p)\<rparr>) p' (x # xs)
    \<and> pool_mutex p' = Mutex_free \<and> block_size p' = block_size p \<and> total_blocks p' = total_blocks p"
proof -
  have "x \<in> fst ` set (live h)" using assms(6) by force
  with assms show ?thesis
    by (cases "a = 0") (auto simp: free_to_pool_def write_link_def free_chain_def)
qed

section \<open>The four pools and the blocks that are handed out\<close>

definition pools_ok :: "pool_id set \<Rightarrow> memory_pool_private_data \<Rightarrow> c_heap \<Rightarrow> (pool_id \<Rightarrow> ptr list) \<Rightarrow> bool" where
  "pools_ok S d h fl \<longleftrightarrow>
     (\<forall>i \<in> S. free_chain h (the_pool i d) (fl i) \<and> pool_mutex (the_pool i d) = Mutex_free
        \<and> block_size (the_pool i d) = pool_block_size i \<and> 0 \<le> total_blocks (the_pool i d))
     \<and> (\<forall>i \<in> S. \<forall>j \<in> S. i \<noteq> j \<longrightarrow> set (fl i) \<inter> set (fl j) = {})"

text \<open>A client holds \<open>(a, n)\<close> when it asked for \<open>n\<close> bytes and was given the address \<open>a\<close>. The block
  behind it is live, large enough, large enough for the small pool, and in no free list.\<close>

definition owned_ok :: "c_heap \<Rightarrow> (pool_id \<Rightarrow> ptr list) \<Rightarrow> (ptr \<times> nat) list \<Rightarrow> bool" where
  "owned_ok h fl owned \<longleftrightarrow> distinct (map fst owned) \<and>
     (\<forall>(a, n) \<in> set owned. \<exists>x s. a = x + DATA_OFFSET \<and> (x, s) \<in> set (live h)
        \<and> DATA_OFFSET + n \<le> s \<and> DATA_OFFSET + 64 \<le> s \<and> (\<forall>i. x \<notin> set (fl i)))"

definition all_enabled :: "memory_pool_config \<Rightarrow> bool" where
  "all_enabled c \<longleftrightarrow> enable_small_pool c \<and> enable_medium_pool c \<and> enable_large_pool c
     \<and> enable_huge_pool c \<and> enable_auto_resize c"

definition pool_world :: "pool_state \<Rightarrow> (pool_id \<Rightarrow> ptr list) \<Rightarrow> (ptr \<times> nat) list \<Rightarrow> bool" where
  "pool_world s fl owned \<longleftrightarrow> heap_ok (pool_heap s) \<and> heap_answers (pool_heap s) = []
     \<and> owned_ok (pool_heap s) fl owned
     \<and> (\<exists>d. pool_data s = Some d \<and> all_enabled (pool_config d) \<and> pools_ok UNIV d (pool_heap s) fl)"

text \<open>The blocks the module accounts for, and the other blocks of the heap.\<close>

definition held :: "(pool_id \<Rightarrow> ptr list) \<Rightarrow> (ptr \<times> nat) list \<Rightarrow> ptr set" where
  "held fl owned = (\<Union>i. set (fl i)) \<union> (\<lambda>b. fst b - DATA_OFFSET) ` set owned"

definition foreign :: "c_heap \<Rightarrow> ptr set \<Rightarrow> (ptr \<times> nat) list" where
  "foreign h B = filter (\<lambda>b. fst b \<notin> B) (live h)"

lemma foreign_grows:
  assumes "heap_grows h h' ys"
  shows "foreign h' (B \<union> set ys) = foreign h B"
proof -
  from assms obtain new where new: "live h' = new @ live h" "fst ` set new = set ys"
    and old: "set ys \<inter> fst ` set (live h) = {}" unfolding heap_grows_def by blast
  have "filter (\<lambda>b. fst b \<notin> B \<union> set ys) new = []" using new(2) by (auto simp: filter_empty_conv)
  moreover have "filter (\<lambda>b. fst b \<notin> B \<union> set ys) (live h) = filter (\<lambda>b. fst b \<notin> B) (live h)"
    using old by (intro filter_cong) auto
  ultimately show ?thesis unfolding foreign_def new(1) by simp
qed

lemma UNIV_pool_id: "UNIV = {Small, Medium, Large, Huge}"
  using pool_id.exhaust by blast

lemma the_put_pool [simp]: "the_pool i (put_pool j p d) = (if i = j then p else the_pool i d)"
  by (cases i; cases j) simp_all

lemma config_put_pool [simp]: "pool_config (put_pool i p d) = pool_config d"
  by (cases i) simp_all

lemma pool_enabled_all: "all_enabled c \<Longrightarrow> pool_enabled i c"
  by (cases i) (simp_all add: all_enabled_def)

lemma the_pool_stats [simp]:
  "the_pool i (d\<lparr>total_allocated := x\<rparr>) = the_pool i d"
  "the_pool i (d\<lparr>allocation_count := c\<rparr>) = the_pool i d"
  "the_pool i (d\<lparr>total_freed := x\<rparr>) = the_pool i d"
  "the_pool i (d\<lparr>free_count := c\<rparr>) = the_pool i d"
  "the_pool i (d\<lparr>stats_timer := b\<rparr>) = the_pool i d"
  by (cases i; simp)+

lemma pools_ok_stats [simp]:
  "pools_ok S (d\<lparr>total_allocated := x\<rparr>) h fl = pools_ok S d h fl"
  "pools_ok S (d\<lparr>allocation_count := c\<rparr>) h fl = pools_ok S d h fl"
  "pools_ok S (d\<lparr>total_freed := x\<rparr>) h fl = pools_ok S d h fl"
  "pools_ok S (d\<lparr>free_count := c\<rparr>) h fl = pools_ok S d h fl"
  "pools_ok S (d\<lparr>stats_timer := b\<rparr>) h fl = pools_ok S d h fl"
  by (simp_all add: pools_ok_def)

lemma pools_okD:
  assumes "pools_ok S d h fl" and "i \<in> S"
  shows "free_chain h (the_pool i d) (fl i)" "pool_mutex (the_pool i d) = Mutex_free"
    "block_size (the_pool i d) = pool_block_size i" "0 \<le> total_blocks (the_pool i d)"
    "j \<in> S \<Longrightarrow> i \<noteq> j \<Longrightarrow> set (fl i) \<inter> set (fl j) = {}"
  using assms by (simp_all add: pools_ok_def)

lemma pools_ok_live: "pools_ok S d h fl \<Longrightarrow> i \<in> S \<Longrightarrow> set (fl i) \<subseteq> fst ` set (live h)"
  by (rule free_chain_live [of h "the_pool i d"]) (simp add: pools_ok_def)

lemma pools_ok_grows: "pools_ok S d h fl \<Longrightarrow> heap_grows h h' ys \<Longrightarrow> pools_ok S d h' fl"
  by (auto simp: pools_ok_def intro: free_chain_grows)

lemma pools_ok_put:
  assumes "pools_ok S d h fl" and "free_chain h p xs" and "pool_mutex p = Mutex_free"
    and "block_size p = pool_block_size i" and "0 \<le> total_blocks p"
    and "\<forall>j \<in> S. j \<noteq> i \<longrightarrow> set xs \<inter> set (fl j) = {}"
  shows "pools_ok (insert i S) (put_pool i p d) h (fl(i := xs))"
  using assms unfolding pools_ok_def by (auto simp: Int_commute)

lemma owned_ok_cong: "live h' = live h \<Longrightarrow> owned_ok h' fl owned = owned_ok h fl owned"
  by (simp add: owned_ok_def)

lemma owned_ok_grows: "owned_ok h fl owned \<Longrightarrow> heap_grows h h' ys \<Longrightarrow> owned_ok h' fl owned"
  unfolding owned_ok_def by (fastforce dest: heap_grows_live)

lemma owned_ok_lists:
  assumes "owned_ok h fl owned" and "\<And>i. set (fl' i) \<inter> fst ` set (live h) \<subseteq> (\<Union>j. set (fl j))"
  shows "owned_ok h fl' owned"
proof -
  have "\<forall>i. x \<notin> set (fl' i)" if "(x, s) \<in> set (live h)" "\<forall>i. x \<notin> set (fl i)" for x s
    using assms(2) that by force
  with assms(1) show ?thesis unfolding owned_ok_def by blast
qed

lemma owned_ok_Cons:
  "owned_ok h fl ((a, n) # owned) \<longleftrightarrow> owned_ok h fl owned \<and> a \<notin> fst ` set owned
     \<and> (\<exists>x s. a = x + DATA_OFFSET \<and> (x, s) \<in> set (live h)
        \<and> DATA_OFFSET + n \<le> s \<and> DATA_OFFSET + 64 \<le> s \<and> (\<forall>i. x \<notin> set (fl i)))"
  unfolding owned_ok_def by (simp add: conj_ac)

lemma select_fits:
  assumes "pool_data s = Some d" and "all_enabled (pool_config d)" and "sz \<le> 4096"
  shows "\<exists>i. select_memory_pool sz s = Some i \<and> sz \<le> pool_block_size i"
  using assms by (auto simp: select_memory_pool_def all_enabled_def)

lemma pool_block_size_min: "64 \<le> unat (pool_block_size i)"
  by (cases i) simp_all

lemma held_move:
  assumes "insert x (set zs) = set ys \<union> set (fl i)"
  shows "held (fl(i := zs)) ((x + DATA_OFFSET, n) # owned) = held fl owned \<union> set ys"
proof -
  have "insert x (\<Union>j. set ((fl(i := zs)) j)) = insert x (set zs) \<union> (\<Union>j \<in> - {i}. set (fl j))"
    by (auto split: if_splits)
  also have "\<dots> = set ys \<union> (\<Union>j. set (fl j))" unfolding assms by auto
  finally show ?thesis unfolding held_def by auto
qed

text \<open>Allocating and freeing when every pool is enabled and no allocation fails.\<close>

lemma alloc_world:
  assumes "pool_world s fl owned" and "0 < sz" and "sz \<le> 4096"
  shows "\<exists>a s' fl' i. memory_pool_alloc sz s = Ret (a, s')
    \<and> pool_world s' fl' ((a, unat sz) # owned) \<and> select_memory_pool sz s = Some i
    \<and> bytes (pool_heap s') = bytes (pool_heap s)
    \<and> (fl i \<noteq> [] \<longrightarrow> a = hd (fl i) + DATA_OFFSET)
    \<and> foreign (pool_heap s') (held fl' ((a, unat sz) # owned)) = foreign (pool_heap s) (held fl owned)
    \<and> set (live (pool_heap s)) \<subseteq> set (live (pool_heap s'))"
proof -
  let ?h = "pool_heap s"
  from assms(1) obtain d where d: "pool_data s = Some d" "all_enabled (pool_config d)"
    "pools_ok UNIV d ?h fl" and h: "heap_ok ?h" "heap_answers ?h = []" and own: "owned_ok ?h fl owned"
    by (auto simp: pool_world_def)
  obtain i where i: "select_memory_pool sz s = Some i" "sz \<le> pool_block_size i"
    using select_fits [OF d(1,2) assms(3)] by blast
  from d(3) have p: "free_chain ?h (the_pool i d) (fl i)" "pool_mutex (the_pool i d) = Mutex_free"
    "block_size (the_pool i d) = pool_block_size i" "0 \<le> total_blocks (the_pool i d)"
    using pools_okD [OF d(3), of i] by simp_all
  obtain p' h' x ys zs where
    al: "allocate_from_pool True (the_pool i d) ?h = Ret (x + DATA_OFFSET, p', h')"
      "heap_ok h'" "heap_answers h' = []" "heap_grows ?h h' ys" "ys @ fl i = x # zs"
      "fl i \<noteq> [] \<longrightarrow> ys = [] \<and> h' = ?h"
      "free_chain h' p' zs" "pool_mutex p' = Mutex_free" "block_size p' = pool_block_size i"
      "0 \<le> total_blocks p'" "x \<notin> set zs" "x \<noteq> 0"
      and blk: "\<exists>s. (x, s) \<in> set (live h') \<and> DATA_OFFSET + unat (pool_block_size i) \<le> s"
    using allocate_spec [OF h p(1,2,4)] unfolding p(3) by blast
  let ?fl = "fl(i := zs)" and ?s = "s\<lparr>pool_heap := h', pool_data := Some (put_pool i p' d)\<rparr>"
  have sub: "insert x (set zs) = set ys \<union> set (fl i)" using arg_cong [OF al(5), of set] by auto
  have new: "set ys \<inter> fst ` set (live ?h) = {}" using al(4) by (simp add: heap_grows_def)
  have apart: "j \<noteq> i \<Longrightarrow> insert x (set zs) \<inter> set (fl j) = {}" for j
  proof -
    assume "j \<noteq> i"
    with pools_okD(5) [OF d(3)] have "set (fl i) \<inter> set (fl j) = {}" by blast
    with new pools_ok_live [OF d(3), of j] show ?thesis unfolding sub by auto
  qed
  have pools: "pools_ok UNIV (put_pool i p' d) h' ?fl"
    using pools_ok_put [OF pools_ok_grows [OF d(3) al(4)] al(7-10)] apart by fastforce
  have xfl: "x \<notin> set (?fl j)" for j using apart [of j] al(11) by auto
  have disj: "a \<noteq> x + DATA_OFFSET" if "(a, n) \<in> set owned" for a n
  proof -
    from own that obtain y t where y: "a = y + DATA_OFFSET" "(y, t) \<in> set (live ?h)" "y \<notin> set (fl i)"
      unfolding owned_ok_def by blast
    then have "y \<notin> set ys" using new by force
    with y sub show ?thesis by auto
  qed
  have old: "owned_ok h' ?fl owned"
  proof (rule owned_ok_grows [OF owned_ok_lists [OF own] al(4)])
    fix j
    have "set (?fl j) \<subseteq> set ys \<union> set (fl j)" using sub by auto
    with new show "set (?fl j) \<inter> fst ` set (live ?h) \<subseteq> (\<Union>j. set (fl j))" by blast
  qed
  have "owned_ok h' ?fl ((x + DATA_OFFSET, unat sz) # owned)"
  proof -
    have "unat sz \<le> unat (pool_block_size i)" using i(2) by (simp add: word_le_nat_alt)
    moreover obtain t where "(x, t) \<in> set (live h')" "DATA_OFFSET + unat (pool_block_size i) \<le> t"
      using blk by blast
    ultimately have "\<exists>y t. x + DATA_OFFSET = y + DATA_OFFSET \<and> (y, t) \<in> set (live h')
        \<and> DATA_OFFSET + unat sz \<le> t \<and> DATA_OFFSET + 64 \<le> t \<and> (\<forall>i. y \<notin> set (?fl i))"
      using pool_block_size_min [of i] xfl by (intro exI [of _ x] exI [of _ t]) auto
    moreover have "x + DATA_OFFSET \<notin> fst ` set owned" using disj by force
    ultimately show ?thesis using old unfolding owned_ok_Cons by blast
  qed
  then have w: "pool_world (count_allocation sz ?s) ?fl ((x + DATA_OFFSET, unat sz) # owned)"
    using al(2,3) d(2) pools by (auto simp: pool_world_def count_allocation_def)
  have "memory_pool_alloc sz s = Ret (x + DATA_OFFSET, count_allocation sz ?s)"
    using al(1,12) d(1,2) i(1) assms(2) by (simp add: memory_pool_alloc_def all_enabled_def)
  moreover have "bytes (pool_heap (count_allocation sz ?s)) = bytes ?h"
    using al(4) by (simp add: count_allocation_def heap_grows_def)
  moreover have "fl i \<noteq> [] \<longrightarrow> x + DATA_OFFSET = hd (fl i) + DATA_OFFSET" using al(5,6) by auto
  moreover have "held ?fl ((x + DATA_OFFSET, unat sz) # owned) = held fl owned \<union> set ys"
    using sub by (rule held_move)
  then have "foreign (pool_heap (count_allocation sz ?s)) (held ?fl ((x + DATA_OFFSET, unat sz) # owned))
      = foreign ?h (held fl owned)"
    using foreign_grows [OF al(4), of "held fl owned"] by (simp add: count_allocation_def)
  moreover have "set (live ?h) \<subseteq> set (live (pool_heap (count_allocation sz ?s)))"
    using heap_grows_live [OF al(4)] by (auto simp: count_allocation_def)
  ultimately show ?thesis using w i(1) by blast
qed

lemma owned_ok_subset:
  "owned_ok h fl owned \<Longrightarrow> distinct (map fst own2) \<Longrightarrow> set own2 \<subseteq> set owned \<Longrightarrow> owned_ok h fl own2"
  unfolding owned_ok_def by blast

lemma owned_okD:
  assumes "owned_ok h fl owned" and "(a, n) \<in> set owned"
  obtains x s where "a = x + DATA_OFFSET" "(x, s) \<in> set (live h)" "DATA_OFFSET + n \<le> s"
    "DATA_OFFSET + 64 \<le> s" "\<And>i. x \<notin> set (fl i)"
  using assms unfolding owned_ok_def by blast

text \<open>Every freed block goes to the small pool.\<close>

lemma free_world:
  assumes "pool_world s fl owned" and "(a, n) \<in> set owned"
  defines "fl' \<equiv> fl(Small := (a - DATA_OFFSET) # fl Small)"
  shows "\<exists>s'. memory_pool_free a s = Ret s' \<and> pool_world s' fl' (filter (\<lambda>b. fst b \<noteq> a) owned)
    \<and> bytes (pool_heap s') = bytes (pool_heap s)
    \<and> foreign (pool_heap s') (held fl' (filter (\<lambda>b. fst b \<noteq> a) owned)) = foreign (pool_heap s) (held fl owned)"
proof -
  let ?h = "pool_heap s"
  from assms(1) obtain d where d: "pool_data s = Some d" "all_enabled (pool_config d)"
    "pools_ok UNIV d ?h fl" and h: "heap_ok ?h" "heap_answers ?h = []" and own: "owned_ok ?h fl owned"
    by (auto simp: pool_world_def)
  from own assms(2) obtain x t where x: "a = x + DATA_OFFSET" "(x, t) \<in> set (live ?h)"
    "DATA_OFFSET + 64 \<le> t" "\<And>i. x \<notin> set (fl i)" by (rule owned_okD) blast
  from heap_ok_block [OF h(1) x(2)] have x0: "x \<noteq> 0" by simp
  let ?p = "the_pool Small d"
  let ?h' = "?h\<lparr>links := (links ?h)(x := free_list ?p)\<rparr>"
  from d(3) have p: "free_chain ?h ?p (fl Small)" "pool_mutex ?p = Mutex_free"
    "block_size ?p = 64" "0 \<le> total_blocks ?p" using pools_okD [OF d(3), of Small] by simp_all
  from free_to_pool_spec [OF p(1,2) _ x0 x(4,2), of a] x(1,3) p(3) obtain p' where
    p': "free_to_pool ?p a ?h = Ret (p', ?h')" "free_chain ?h' p' (x # fl Small)"
      "pool_mutex p' = Mutex_free" "block_size p' = 64" "total_blocks p' = total_blocks ?p"
    by auto
  have "pools_ok UNIV d ?h' fl"
    using d(3) x(4) unfolding pools_ok_def by simp
  moreover have "\<forall>j \<in> UNIV. j \<noteq> Small \<longrightarrow> set (x # fl Small) \<inter> set (fl j) = {}"
  proof (intro ballI impI)
    fix j assume "j \<noteq> Small"
    with pools_okD(5) [OF d(3)] have "set (fl Small) \<inter> set (fl j) = {}" by blast
    with x(4) [of j] show "set (x # fl Small) \<inter> set (fl j) = {}" by simp
  qed
  ultimately have pools: "pools_ok UNIV (put_pool Small p' d) ?h' fl'"
    using pools_ok_put [of UNIV d ?h' fl p' "x # fl Small" Small] p' p(4) x(1)
    by (simp add: fl'_def DATA_OFFSET_def)
  have rest: "owned_ok ?h' fl' (filter (\<lambda>b. fst b \<noteq> a) owned)"
  proof -
    have "owned_ok ?h fl (filter (\<lambda>b. fst b \<noteq> a) owned)"
      using own by (rule owned_ok_subset) (use own in \<open>auto simp: owned_ok_def distinct_map_filter\<close>)
    moreover have "y \<noteq> a - DATA_OFFSET" if "(y + DATA_OFFSET, m) \<in> set (filter (\<lambda>b. fst b \<noteq> a) owned)" for y m
      using that x(1) by auto
    ultimately show ?thesis unfolding owned_ok_def fl'_def by fastforce
  qed
  have eq: "memory_pool_free a s = Ret (s\<lparr>pool_heap := ?h', pool_data := Some
    (if enable_statistics (pool_config d)
     then (put_pool Small p' d)\<lparr>total_freed := total_freed (put_pool Small p' d) + block_size p',
            free_count := free_count (put_pool Small p' d) + 1\<rparr>
     else put_pool Small p' d)\<rparr>)"
    using p'(1) d(1) x(1) x0 by (simp add: memory_pool_free_def Let_def)
  have "insert (a - DATA_OFFSET) ((\<lambda>b. fst b - DATA_OFFSET) ` set (filter (\<lambda>b. fst b \<noteq> a) owned))
      = (\<lambda>b. fst b - DATA_OFFSET) ` set owned"
    using assms(2) by force
  moreover have "(\<Union>i. set (fl' i)) = insert (a - DATA_OFFSET) (\<Union>i. set (fl i))"
    unfolding fl'_def by (auto split: if_splits)
  ultimately have "held fl' (filter (\<lambda>b. fst b \<noteq> a) owned) = held fl owned"
    unfolding held_def by (simp only: Un_insert_left Un_insert_right [symmetric])
  then have "foreign ?h' (held fl' (filter (\<lambda>b. fst b \<noteq> a) owned)) = foreign ?h (held fl owned)"
    by (simp add: foreign_def)
  then show ?thesis
    unfolding eq using pools rest d(2) h heap_ok_cong [of ?h' ?h]
    by (cases "enable_statistics (pool_config d)") (simp_all add: pool_world_def)
qed

text \<open>Setting up the pools and taking them down.\<close>

lemma start_pools_spec:
  assumes "heap_ok h" and "heap_answers h = []" and "pools_ok S d h fl" and "distinct is"
    and "set is \<inter> S = {}" and "\<And>i. pool_enabled i (pool_config d)"
    and "\<And>i. 0 < initial_blocks i (pool_config d)"
  shows "\<exists>d' h' fl' ys. start_pools is d h = Ret (0, d', h') \<and> heap_ok h' \<and> heap_answers h' = []
    \<and> pools_ok (S \<union> set is) d' h' fl' \<and> pool_config d' = pool_config d \<and> heap_grows h h' ys
    \<and> set ys \<union> (\<Union>i \<in> S. set (fl i)) = (\<Union>i \<in> S \<union> set is. set (fl' i))"
  using assms
proof (induction "is" arbitrary: S d h fl)
  case Nil
  then show ?case
    by (intro exI [of _ d] exI [of _ h] exI [of _ fl] exI [of _ "[]"]) (simp add: heap_grows_def)
next
  case (Cons i rest)
  obtain p1 h1 ys where i: "init_memory_pool (the_pool i d) (pool_block_size i)
      (initial_blocks i (pool_config d)) h = Ret (0, p1, h1)"
    and h1: "heap_ok h1" "heap_answers h1 = []" and ys: "free_chain h1 p1 ys" "heap_grows h h1 ys"
    and p1: "block_size p1 = pool_block_size i" "pool_mutex p1 = Mutex_free"
      "total_blocks p1 = initial_blocks i (pool_config d)"
    using init_pool_spec [OF Cons.prems(1,2,7)] by blast
  have new: "set ys \<inter> fst ` set (live h) = {}" using ys(2) by (simp add: heap_grows_def)
  have "\<forall>j \<in> S. j \<noteq> i \<longrightarrow> set ys \<inter> set (fl j) = {}"
    using new pools_ok_live [OF Cons.prems(3)] by blast
  moreover have "0 \<le> total_blocks p1" using p1(3) Cons.prems(7) [of i] by simp
  ultimately have "pools_ok (insert i S) (put_pool i p1 d) h1 (fl(i := ys))"
    using pools_ok_put [OF pools_ok_grows [OF Cons.prems(3) ys(2)] ys(1) p1(2,1)] by blast
  from Cons.IH [OF h1 this] Cons.prems obtain d' h' fl' zs where
    r: "start_pools rest (put_pool i p1 d) h1 = Ret (0, d', h')" "heap_ok h'" "heap_answers h' = []"
      "pools_ok (insert i S \<union> set rest) d' h' fl'" "pool_config d' = pool_config d" "heap_grows h1 h' zs"
      "set zs \<union> (\<Union>j \<in> insert i S. set ((fl(i := ys)) j)) = (\<Union>j \<in> insert i S \<union> set rest. set (fl' j))"
    by auto
  have "i \<notin> S" using Cons.prems(5) by simp
  then have "(\<Union>j \<in> insert i S. set ((fl(i := ys)) j)) = set ys \<union> (\<Union>j \<in> S. set (fl j))"
    by (auto split: if_splits)
  with r(7) have "set (zs @ ys) \<union> (\<Union>j \<in> S. set (fl j)) = (\<Union>j \<in> insert i S \<union> set rest. set (fl' j))" by auto
  with r i Cons.prems(6) heap_grows_trans [OF ys(2) r(6)] show ?case
    by (intro exI [of _ d'] exI [of _ h'] exI [of _ fl'] exI [of _ "zs @ ys"]) simp
qed

lemma cleanup_loop_spec:
  "chain (links h) a xs \<Longrightarrow> distinct xs \<Longrightarrow> set xs \<subseteq> fst ` set (live h) \<Longrightarrow>
   cleanup_loop a h = Ret (h\<lparr>live := foreign h (set xs)\<rparr>)"
proof (induction xs arbitrary: a h)
  case Nil
  then show ?case by (simp add: cleanup_loop.simps [of 0 h] foreign_def)
next
  case (Cons x xs)
  let ?h = "h\<lparr>live := filter (\<lambda>b. fst b \<noteq> x) (live h)\<rparr>"
  have "set xs \<subseteq> fst ` set (live ?h)" using Cons.prems by fastforce
  with Cons.IH [of ?h "links h x"] Cons.prems
  have "cleanup_loop (links h x) ?h = Ret (?h\<lparr>live := foreign ?h (set xs)\<rparr>)" by simp
  moreover have "foreign ?h (set xs) = foreign h (set (x # xs))"
    by (simp add: foreign_def conj_commute)
  ultimately show ?case
    using Cons.prems by (simp add: cleanup_loop.simps [of x h] read_link_def)
qed

lemma cleanup_pools_spec:
  assumes "pools_ok (set is) d h fl" and "distinct is" and "\<And>i. pool_enabled i (pool_config d)"
  shows "\<exists>d'. cleanup_pools is d h = Ret (d', h\<lparr>live := foreign h (\<Union>i \<in> set is. set (fl i))\<rparr>)"
  using assms
proof (induction "is" arbitrary: d h)
  case Nil
  then show ?case by (simp add: foreign_def)
next
  case (Cons i rest)
  let ?h = "h\<lparr>live := foreign h (set (fl i))\<rparr>"
  note p = pools_okD [OF Cons.prems(1), of i, simplified]
  have "cleanup_loop (free_list (the_pool i d)) h = Ret ?h"
    using cleanup_loop_spec p(1) free_chain_live [OF p(1)] by (simp add: free_chain_def)
  then obtain q where q: "memory_pool_cleanup_pool (the_pool i d) h = Ret (q, ?h)"
    using p(2) by (simp add: memory_pool_cleanup_pool_def)
  have "pools_ok (set rest) (put_pool i q d) ?h fl"
  proof -
    have fc: "free_chain ?h (the_pool j d) (fl j)" if "j \<in> set rest" for j
    proof -
      have "set (fl j) \<inter> set (fl i) = {}"
        using p(5) [of j] that Cons.prems(2) by auto
      moreover have "free_chain h (the_pool j d) (fl j)"
        using pools_okD(1) [OF Cons.prems(1)] that by simp
      ultimately show ?thesis unfolding free_chain_def foreign_def by fastforce
    qed
    have "i \<notin> set rest" using Cons.prems(2) by simp
    with Cons.prems(1) fc show ?thesis unfolding pools_ok_def by auto
  qed
  from Cons.IH [OF this] Cons.prems(2,3)
  obtain d' where "cleanup_pools rest (put_pool i q d) ?h
      = Ret (d', ?h\<lparr>live := foreign ?h (\<Union>j \<in> set rest. set (fl j))\<rparr>)" by auto
  moreover have "foreign ?h (\<Union>j \<in> set rest. set (fl j)) = foreign h (\<Union>j \<in> set (i # rest). set (fl j))"
    by (simp add: foreign_def conj_commute)
  ultimately show ?case using q Cons.prems(3) [of i] by simp
qed

section \<open>Clients\<close>

text \<open>The module brought up, and a client's calls on it: \<open>Take n\<close> asks for \<open>n\<close> bytes, \<open>Give k\<close>
  frees the \<open>k\<close>-th of the addresses the client holds.\<close>

definition boot_pools :: "pool_state \<Rightarrow> pool_state outcome" where
  "boot_pools s = obind (memory_pool_module_start True (snd (memory_pool_module_init True True s)))
     (\<lambda>(r, s1). Ret s1)"

datatype client_op = Take "64 word" | Give nat

fun run_client :: "client_op list \<Rightarrow> pool_state \<times> (ptr \<times> nat) list \<Rightarrow> (pool_state \<times> (ptr \<times> nat) list) outcome" where
  "run_client [] w = Ret w"
| "run_client (Take n # ops) (s, owned) =
     obind (memory_pool_alloc n s) (\<lambda>(a, s1). run_client ops (s1, (a, unat n) # owned))"
| "run_client (Give k # ops) (s, owned) =
     (if k < length owned
      then obind (memory_pool_free (fst (owned ! k)) s)
        (\<lambda>s1. run_client ops (s1, filter (\<lambda>b. fst b \<noteq> fst (owned ! k)) owned))
      else run_client ops (s, owned))"

fun pool_sized :: "client_op \<Rightarrow> bool" where
  "pool_sized (Take n) = (0 < n \<and> n \<le> 4096)"
| "pool_sized (Give k) = True"

lemma boot_world:
  assumes "heap_ok (pool_heap s)" and "heap_answers (pool_heap s) = []"
  shows "\<exists>s' fl. boot_pools s = Ret s' \<and> pool_world s' fl []
    \<and> foreign (pool_heap s') (held fl []) = live (pool_heap s)"
proof -
  let ?h = "pool_heap s"
  define d where "d = \<lparr>small_pool = zero_pool, medium_pool = zero_pool, large_pool = zero_pool,
    huge_pool = zero_pool, pool_config = pool_default_config, stats_timer = False,
    total_allocated = 0, total_freed = 0, allocation_count = 0, free_count = 0\<rparr>"
  have same: "?h\<lparr>heap_answers := []\<rparr> = ?h" using assms(2) by simp
  have init: "snd (memory_pool_module_init True True s) = s\<lparr>pool_data := Some d\<rparr>"
    using assms(2) by (simp add: memory_pool_module_init_def d_def same)
  have cfg: "all_enabled (pool_config d)" by (simp add: d_def all_enabled_def pool_default_config_def)
  have pos: "0 < initial_blocks i (pool_config d)" for i
    by (cases i) (simp_all add: d_def pool_default_config_def)
  have none: "pools_ok {} d ?h (\<lambda>i. [])" by (simp add: pools_ok_def)
  have ids: "distinct [Small, Medium, Large, Huge]" "set [Small, Medium, Large, Huge] = UNIV"
    by (simp_all add: UNIV_pool_id)
  obtain d' h' fl ys where st: "start_pools [Small, Medium, Large, Huge] d ?h = Ret (0, d', h')"
    "heap_ok h'" "heap_answers h' = []" "pools_ok UNIV d' h' fl" "pool_config d' = pool_config d"
    "heap_grows ?h h' ys" "set ys = (\<Union>i. set (fl i))"
    using start_pools_spec [OF assms none ids(1) _ pool_enabled_all [OF cfg] pos] unfolding ids(2) by auto
  let ?s = "s\<lparr>pool_data := Some (if enable_statistics (pool_config d') then d'\<lparr>stats_timer := True\<rparr> else d'),
    pool_heap := h'\<rparr>"
  have "boot_pools s = Ret ?s"
    using st(1) by (simp add: boot_pools_def init memory_pool_module_start_def)
  moreover have "pool_world ?s fl []"
    using st cfg by (simp add: pool_world_def owned_ok_def)
  moreover have "foreign h' (held fl []) = live ?h"
    using foreign_grows [OF st(6), of "{}"] st(7) by (simp add: held_def foreign_def)
  ultimately show ?thesis by (intro exI [of _ ?s] exI [of _ fl]) simp
qed

lemma run_client_world:
  assumes "pool_world s fl owned" and "list_all pool_sized ops"
  shows "\<exists>s' fl' owned'. run_client ops (s, owned) = Ret (s', owned') \<and> pool_world s' fl' owned'
    \<and> foreign (pool_heap s') (held fl' owned') = foreign (pool_heap s) (held fl owned)"
  using assms
proof (induction ops arbitrary: s fl owned)
  case Nil
  then show ?case by auto
next
  case (Cons op ops)
  show ?case
  proof (cases op)
    case (Take n)
    with Cons.prems have "0 < n" "n \<le> 4096" by simp_all
    from alloc_world [OF Cons.prems(1) this] obtain a s1 fl1 where
      a: "memory_pool_alloc n s = Ret (a, s1)" "pool_world s1 fl1 ((a, unat n) # owned)"
        "foreign (pool_heap s1) (held fl1 ((a, unat n) # owned)) = foreign (pool_heap s) (held fl owned)" by blast
    from Cons.IH [OF a(2)] Cons.prems(2) a Take show ?thesis by auto
  next
    case (Give k)
    show ?thesis
    proof (cases "k < length owned")
      case True
      then have "(fst (owned ! k), snd (owned ! k)) \<in> set owned" by simp
      from free_world [OF Cons.prems(1) this] obtain s1 fl1 where
        f: "memory_pool_free (fst (owned ! k)) s = Ret s1"
          "pool_world s1 fl1 (filter (\<lambda>b. fst b \<noteq> fst (owned ! k)) owned)"
          "foreign (pool_heap s1) (held fl1 (filter (\<lambda>b. fst b \<noteq> fst (owned ! k)) owned))
             = foreign (pool_heap s) (held fl owned)" by blast
      from Cons.IH [OF f(2)] Cons.prems(2) f Give True show ?thesis by auto
    qed (use Cons Give in auto)
  qed
qed

lemma owned_regions_apart:
  assumes "heap_ok h" and "owned_ok h fl owned" and "(a, n) \<in> set owned" and "(b, m) \<in> set owned"
    and "a \<noteq> b"
  shows "a + n \<le> b \<or> b + m \<le> a"
proof -
  from assms(2,3) obtain x s where x: "a = x + DATA_OFFSET" "(x, s) \<in> set (live h)" "DATA_OFFSET + n \<le> s"
    by (rule owned_okD) blast
  from assms(2,4) obtain y t where y: "b = y + DATA_OFFSET" "(y, t) \<in> set (live h)" "DATA_OFFSET + m \<le> t"
    by (rule owned_okD) blast
  from heap_ok_apart [OF assms(1) x(2) y(2)] x y assms(5) show ?thesis by (auto simp: apart_def)
qed

lemma owned_in_block:
  assumes "owned_ok h fl owned" and "(a, n) \<in> set owned"
  shows "in_block h a n"
proof -
  from assms obtain x s where "a = x + DATA_OFFSET" "(x, s) \<in> set (live h)" "DATA_OFFSET + n \<le> s"
    by (rule owned_okD) blast
  then show ?thesis by (intro in_blockI) auto
qed

section \<open>Properties\<close>


definition empty_heap :: c_heap where
  "empty_heap = \<lparr>brk = 0, heap_answers = [], live = [], links = (\<lambda>_. 0), bytes = (\<lambda>_. 0)\<rparr>"

definition no_pools :: pool_state where
  "no_pools = \<lparr>pool_heap = empty_heap, pool_data = None\<rparr>"

lemma no_pools_ok [simp]: "heap_ok (pool_heap no_pools)" "heap_answers (pool_heap no_pools) = []"
  by (simp_all add: no_pools_def empty_heap_def heap_ok_def)




text \<open>Reallocating an address to a size its block can hold copies the contents: the bytes at
  the new address are those at the old one. Reallocating to a size that the old block cannot
  hold reads past its end, because the old size is not known and the new size is copied.\<close>

theorem realloc_copies_or_overreads:
  assumes "pool_world s fl owned" and "(a, n) \<in> set owned" and "0 < new" and "new \<le> 4096"
    and "(a - DATA_OFFSET, t) \<in> set (live (pool_heap s))"
  shows "if DATA_OFFSET + unat new \<le> t
    then \<exists>b s'. memory_pool_realloc a new s = Ret (b, s')
      \<and> (\<forall>k < unat new. bytes (pool_heap s') (b + k) = bytes (pool_heap s) (a + k))
    else memory_pool_realloc a new s = Fault Out_of_bounds"
proof -
  obtain b s1 fl1 where al: "memory_pool_alloc new s = Ret (b, s1)"
    "pool_world s1 fl1 ((b, unat new) # owned)" "bytes (pool_heap s1) = bytes (pool_heap s)"
    "set (live (pool_heap s)) \<subseteq> set (live (pool_heap s1))"
    using alloc_world [OF assms(1,3,4)] by blast
  let ?h = "pool_heap s1"
  from al(2) have w: "heap_ok ?h" "owned_ok ?h fl1 ((b, unat new) # owned)" by (auto simp: pool_world_def)
  have "(a, n) \<in> set ((b, unat new) # owned)" using assms(2) by simp
  with w(2) obtain x u where x: "a = x + DATA_OFFSET" "(x, u) \<in> set (live ?h)" "DATA_OFFSET + n \<le> u" "DATA_OFFSET + 64 \<le> u"
    by (rule owned_okD) blast
  have u: "u = t" using heap_ok_size_unique [OF w(1) x(2)] al(4) assms(5) x(1) by auto
  have b0: "b \<noteq> 0" using w(2) by (rule owned_okD [of _ _ _ b "unat new"]) (auto simp: DATA_OFFSET_def)
  have a0: "a \<noteq> 0" using x(1) by (simp add: DATA_OFFSET_def)
  have inb: "in_block ?h b (unat new)" using owned_in_block [OF w(2)] by simp
  show ?thesis
  proof (cases "DATA_OFFSET + unat new \<le> t")
    case True
    let ?h2 = "?h\<lparr>bytes := \<lambda>y. if b \<le> y \<and> y < b + unat new then bytes ?h (a + (y - b)) else bytes ?h y\<rparr>"
    have "in_block ?h a (unat new)" using in_blockI [OF x(2), of a] x(1) True u by simp
    with inb have cp: "c_memcpy b a (unat new) ?h = Ret ?h2" by (simp add: c_memcpy_def)
    have "pool_world (s1\<lparr>pool_heap := ?h2\<rparr>) fl1 ((b, unat new) # owned)"
      using al(2) by (auto simp: pool_world_def heap_ok_def owned_ok_def pools_ok_def free_chain_def)
    from free_world [OF this] assms(2) obtain s2 where
      "memory_pool_free a (s1\<lparr>pool_heap := ?h2\<rparr>) = Ret s2" "bytes (pool_heap s2) = bytes ?h2" by fastforce
    with al(1,3) cp b0 a0 True assms(3) show ?thesis by (auto simp: memory_pool_realloc_def)
  next
    case False
    have "\<not> in_block ?h a (unat new)"
    proof
      assume "in_block ?h a (unat new)"
      from in_block_within [OF w(1) x(2) _ _ this] x(1,4) False u assms(3) show False
        by (auto simp: unat_eq_0)
    qed
    with al(1) b0 a0 assms(3) False show ?thesis by (auto simp: memory_pool_realloc_def c_memcpy_def)
  qed
qed

lemma booted_block:
  "\<exists>s1 fl1 a s fl t. boot_pools no_pools = Ret s1 \<and> pool_world s1 fl1 []
     \<and> memory_pool_alloc 100 s1 = Ret (a, s) \<and> pool_world s fl [(a, 100)]
     \<and> (a - DATA_OFFSET, t) \<in> set (live (pool_heap s)) \<and> DATA_OFFSET + 100 \<le> t"
proof -
  obtain s1 fl1 where b: "boot_pools no_pools = Ret s1" "pool_world s1 fl1 []"
    using boot_world [OF no_pools_ok] by blast
  from alloc_world [OF b(2), of 100] obtain a s fl where
    a: "memory_pool_alloc 100 s1 = Ret (a, s)" "pool_world s fl [(a, 100)]" by auto
  from a(2) have "owned_ok (pool_heap s) fl [(a, 100)]" by (simp add: pool_world_def)
  then obtain x t where "a = x + DATA_OFFSET" "(x, t) \<in> set (live (pool_heap s))" "DATA_OFFSET + 100 \<le> t"
    by (rule owned_okD [of _ _ _ a 100]) auto
  with b a show ?thesis
    by (intro exI [of _ s1] exI [of _ fl1] exI [of _ a] exI [of _ s] exI [of _ fl] exI [of _ t]) simp
qed

theorem realloc_copies_or_overreads_witness:
  "\<exists>s1 a s b s'. boot_pools no_pools = Ret s1 \<and> memory_pool_alloc 100 s1 = Ret (a, s)
     \<and> memory_pool_realloc a 50 s = Ret (b, s')
     \<and> (\<forall>k < 50. bytes (pool_heap s') (b + k) = bytes (pool_heap s) (a + k))"
proof -
  obtain s1 fl1 a s fl t where w: "boot_pools no_pools = Ret s1" "memory_pool_alloc 100 s1 = Ret (a, s)"
    "pool_world s fl [(a, 100)]" "(a - DATA_OFFSET, t) \<in> set (live (pool_heap s))" "DATA_OFFSET + 100 \<le> t"
    using booted_block by blast
  from realloc_copies_or_overreads [OF w(3) _ _ _ w(4), of 100 50] w(5)
  have "\<exists>b s'. memory_pool_realloc a 50 s = Ret (b, s')
    \<and> (\<forall>k < 50. bytes (pool_heap s') (b + k) = bytes (pool_heap s) (a + k))" by simp
  with w(1,2) show ?thesis by blast
qed

text \<open>A block that is freed is the next one handed out for a small request, whichever pool it
  came from: the free goes to the small pool, and the free list is last in, first out. The pool
  the block came from stays one block short.\<close>

theorem freed_block_is_reused:
  assumes "pool_world s fl owned" and "(a, n) \<in> set owned" and "0 < k" and "k \<le> 64"
  shows "\<exists>s1 s2. memory_pool_free a s = Ret s1 \<and> memory_pool_alloc k s1 = Ret (a, s2)
    \<and> (\<exists>fl'. pool_world s1 fl' (filter (\<lambda>b. fst b \<noteq> a) owned) \<and> (\<forall>i. i \<noteq> Small \<longrightarrow> fl' i = fl i))"
proof -
  let ?fl = "fl(Small := (a - DATA_OFFSET) # fl Small)"
  obtain s1 where f: "memory_pool_free a s = Ret s1" "pool_world s1 ?fl (filter (\<lambda>b. fst b \<noteq> a) owned)"
    using free_world [OF assms(1,2)] by blast
  have "k \<le> 4096" using assms(4) by (simp add: word_le_nat_alt)
  from alloc_world [OF f(2) assms(3) this] obtain b s2 i where
    al: "memory_pool_alloc k s1 = Ret (b, s2)" "select_memory_pool k s1 = Some i"
      "?fl i \<noteq> [] \<longrightarrow> b = hd (?fl i) + DATA_OFFSET" by blast
  have "i = Small" using al(2) f(2) assms(4)
    by (auto simp: select_memory_pool_def pool_world_def all_enabled_def)
  moreover have "DATA_OFFSET \<le> a"
  proof -
    from assms(1) have "owned_ok (pool_heap s) fl owned" by (simp add: pool_world_def)
    then show ?thesis using assms(2) by (rule owned_okD) simp
  qed
  ultimately have "b = a" using al(3) by simp
  with f al(1) show ?thesis by auto
qed

theorem freed_block_is_reused_witness:
  "\<exists>s1 a s s2 s3. boot_pools no_pools = Ret s1 \<and> memory_pool_alloc 100 s1 = Ret (a, s)
     \<and> memory_pool_free a s = Ret s2 \<and> memory_pool_alloc 8 s2 = Ret (a, s3)"
proof -
  obtain s1 fl1 a s fl t where w: "boot_pools no_pools = Ret s1" "memory_pool_alloc 100 s1 = Ret (a, s)"
    "pool_world s fl [(a, 100)]" using booted_block by blast
  from freed_block_is_reused [OF w(3), of a 100 8] w(1,2) show ?thesis by auto
qed

text \<open>An address that came from the system allocator (a request of more than 4096 bytes)
  cannot be freed while the module is up: the free takes the eight bytes in front of it for a
  block header and writes outside every block.\<close>

theorem system_block_free_faults:
  assumes "pool_world s fl owned" and "4096 < sz"
  shows "\<exists>a s'. memory_pool_alloc sz s = Ret (a, s') \<and> memory_pool_free a s' = Fault Out_of_bounds"
proof -
  from assms(1) obtain d where d: "pool_data s = Some d" "all_enabled (pool_config d)"
    "pools_ok UNIV d (pool_heap s) fl" "heap_ok (pool_heap s)" "heap_answers (pool_heap s) = []"
    by (auto simp: pool_world_def)
  have big: "\<not> sz \<le> 64" "\<not> sz \<le> 256" "\<not> sz \<le> 1024" "\<not> sz \<le> 4096" "sz \<noteq> 0"
    using assms(2) by (auto simp: word_less_nat_alt word_le_nat_alt)
  obtain a h' where m: "c_malloc (unat sz) (pool_heap s) = (a, h')" by force
  with d(5) have a: "a = brk (pool_heap s) + gap" "(a, unat sz) \<in> set (live h')"
    by (auto simp: c_malloc_def split: if_splits)
  have sel: "select_memory_pool sz s = None" using big d(1) by (simp add: select_memory_pool_def)
  have "memory_pool_alloc sz s = Ret (a, count_allocation sz (s\<lparr>pool_heap := h'\<rparr>))"
    using m a(1) big(5) sel by (simp add: memory_pool_alloc_def system_malloc_def)
  moreover have "write_link (a - DATA_OFFSET) q h' = Fault Out_of_bounds" for q
    using no_block_in_front [OF heap_ok_malloc [OF d(4) m] a(2)] a(1)
    by (simp add: write_link_def DATA_OFFSET_def gap_def)
  then have "free_to_pool (small_pool d) a h' = Fault Out_of_bounds"
    using pools_okD(2) [OF d(3), of Small] a(1) by (simp add: free_to_pool_def)
  then have "memory_pool_free a (count_allocation sz (s\<lparr>pool_heap := h'\<rparr>)) = Fault Out_of_bounds"
    using d(1) a(1) by (simp add: memory_pool_free_def count_allocation_def)
  ultimately show ?thesis by blast
qed

theorem system_block_free_faults_witness:
  "\<exists>s a s'. boot_pools no_pools = Ret s \<and> memory_pool_alloc 5000 s = Ret (a, s')
     \<and> memory_pool_free a s' = Fault Out_of_bounds"
proof -
  obtain s fl where b: "boot_pools no_pools = Ret s" "pool_world s fl []"
    using boot_world [OF no_pools_ok] by blast
  with system_block_free_faults [OF b(2), of 5000] show ?thesis by simp
qed

text \<open>When a pool is empty and the allocation of its first new block fails, the allocation
  does not fall back to the system allocator: it unlocks the mutex it no longer holds.\<close>

theorem failed_expansion_unlocks_twice:
  assumes "pool_data s = Some d" and "select_memory_pool sz s = Some i" and "sz \<noteq> 0"
    and "free_blocks (the_pool i d) = 0" and "0 \<le> total_blocks (the_pool i d)"
    and "pool_mutex (the_pool i d) = Mutex_free" and "enable_auto_resize (pool_config d)"
    and "heap_answers (pool_heap s) = False # as"
  shows "memory_pool_alloc sz s = Fault Unlock_unheld"
proof -
  obtain n where "nat (total_blocks (the_pool i d) div 2 + 1) = Suc n"
    using assms(5) by (cases "nat (total_blocks (the_pool i d) div 2 + 1)") auto
  moreover have "\<not> total_blocks (the_pool i d) div 2 + 1 \<le> 0" using assms(5) by simp
  ultimately have "memory_pool_expand_pool ((the_pool i d)\<lparr>pool_mutex := Mutex_free\<rparr>)
      (total_blocks (the_pool i d) div 2 + 1) (pool_heap s)
    = Ret (-1, (the_pool i d)\<lparr>pool_mutex := Mutex_free\<rparr>, (pool_heap s)\<lparr>heap_answers := as\<rparr>)"
    using assms(8) by (simp add: memory_pool_expand_pool_def c_malloc_def)
  then have "allocate_from_pool True (the_pool i d) (pool_heap s) = Fault Unlock_unheld"
    using assms(4,6) by (simp add: allocate_from_pool_def)
  with assms(1,2,3,7) show ?thesis by (simp add: memory_pool_alloc_def)
qed

definition dry_data :: memory_pool_private_data where
  "dry_data = \<lparr>small_pool = zero_pool\<lparr>block_size := 64, pool_mutex := Mutex_free\<rparr>,
     medium_pool = zero_pool, large_pool = zero_pool, huge_pool = zero_pool,
     pool_config = pool_default_config, stats_timer = False,
     total_allocated = 0, total_freed = 0, allocation_count = 0, free_count = 0\<rparr>"

theorem failed_expansion_unlocks_twice_witness:
  "memory_pool_alloc 8 \<lparr>pool_heap = empty_heap\<lparr>heap_answers := [False]\<rparr>, pool_data = Some dry_data\<rparr>
   = Fault Unlock_unheld"
  by (rule failed_expansion_unlocks_twice [where d = dry_data and i = Small and as = "[]"])
    (simp_all add: select_memory_pool_def pool_default_config_def zero_pool_def empty_heap_def dry_data_def)

end
