(* ===== verification/Threadpool.thy ===== *)
theory Threadpool
  imports Interfaces
begin

text \<open>
  The thread pool (src/thread/threadpool_module.c). Each critical section of the code is one
  function on the private data: what a worker does between locking and unlocking the queue
  mutex, what it does after the work, what a submitter does, what stop does. The threads are
  modelled by a step relation that interleaves these sections: a worker is at its loop head,
  waits on \<open>work_available\<close>, runs a work item, or has returned; a submitting thread is about
  to enter, waits on \<open>queue_not_full\<close>, or has returned. A condition variable wakes one
  waiting thread when it is signalled and all of them when it is broadcast; a waiting thread
  may also wake for no reason. The two linked queues are lists. Counters are integers: they
  never exceed the number of items, which memory bounds. Log output is not modelled.
\<close>

section \<open>Data\<close>

record work_item =
  work_func :: nat
  work_data :: nat

record threadpool_config =
  thread_count :: int
  cfg_max_queue_size :: int
  enable_work_stealing :: bool
  enable_priority_queue :: bool

text \<open>\<open>thread_slots\<close> is the length of the array \<open>threads\<close>.\<close>

record threadpool_private_data =
  thread_slots :: nat
  work_queue :: "work_item list"
  prio_queue :: "work_item list"
  queue_mutex :: uv_mutex
  shutdown :: bool
  active_threads :: int
  queued_work :: int
  max_queue_size :: int
  tp_config :: threadpool_config

definition tp_default_config :: threadpool_config where
  "tp_default_config = \<lparr>thread_count = 4, cfg_max_queue_size = 1000, enable_work_stealing = True,
     enable_priority_queue = True\<rparr>"

datatype worker = Idle | Waiting | Running work_item | Exited

datatype submit_kind = Normal | Priority

datatype submitter = Calling submit_kind work_item | Blocked submit_kind work_item | Returned int

record threadpool =
  tp_data :: "threadpool_private_data option"
  workers :: "worker list"
  submitters :: "submitter list"
  accepted :: "work_item list"
  executed :: "work_item list"

section \<open>Critical sections\<close>

datatype worker_verdict = Worker_waits | Worker_quits | Worker_takes work_item threadpool_private_data

text \<open>What a worker does with the mutex held at the head of its loop: it waits, breaks out of the
  loop, or takes an item, from the priority queue first.\<close>

definition worker_check :: "threadpool_private_data \<Rightarrow> worker_verdict" where
  "worker_check d =
     (if work_queue d = [] \<and> prio_queue d = [] \<and> \<not> shutdown d then Worker_waits
      else if shutdown d then Worker_quits
      else case prio_queue d of
        w # ws \<Rightarrow> Worker_takes w (d\<lparr>prio_queue := ws, queued_work := queued_work d - 1,
                                    active_threads := active_threads d + 1\<rparr>)
      | [] \<Rightarrow> (case work_queue d of
          w # ws \<Rightarrow> Worker_takes w (d\<lparr>work_queue := ws, queued_work := queued_work d - 1,
                                      active_threads := active_threads d + 1\<rparr>)
        | [] \<Rightarrow> Worker_waits))"

definition worker_done :: "threadpool_private_data \<Rightarrow> threadpool_private_data" where
  "worker_done d = d\<lparr>active_threads := active_threads d - 1\<rparr>"

definition create_work_item :: "nat \<Rightarrow> nat \<Rightarrow> bool \<Rightarrow> work_item option" where
  "create_work_item f x ok = (if ok then Some \<lparr>work_func = f, work_data = x\<rparr> else None)"

text \<open>The walk to the last node of the queue, and the link of the new one.\<close>

fun queue_append :: "work_item list \<Rightarrow> work_item \<Rightarrow> work_item list" where
  "queue_append [] w = [w]"
| "queue_append (x # xs) w = x # queue_append xs w"

datatype submit_verdict = Submit_waits | Submit_returns int threadpool_private_data

definition threadpool_submit_work :: "work_item \<Rightarrow> bool \<Rightarrow> threadpool_private_data \<Rightarrow> submit_verdict" where
  "threadpool_submit_work item ok d =
     (if queued_work d \<ge> max_queue_size d \<and> \<not> shutdown d then Submit_waits
      else if shutdown d then Submit_returns (-1) d
      else case create_work_item (work_func item) (work_data item) ok of
        None \<Rightarrow> Submit_returns (-1) d
      | Some w \<Rightarrow> Submit_returns 0 (d\<lparr>work_queue := queue_append (work_queue d) w,
                                     queued_work := queued_work d + 1\<rparr>))"

definition threadpool_submit_priority_work :: "work_item \<Rightarrow> bool \<Rightarrow> threadpool_private_data \<Rightarrow> submit_verdict" where
  "threadpool_submit_priority_work item ok d =
     (if queued_work d \<ge> max_queue_size d \<and> \<not> shutdown d then Submit_waits
      else if shutdown d then Submit_returns (-1) d
      else case create_work_item (work_func item) (work_data item) ok of
        None \<Rightarrow> Submit_returns (-1) d
      | Some w \<Rightarrow> Submit_returns 0 (d\<lparr>prio_queue := w # prio_queue d,
                                     queued_work := queued_work d + 1\<rparr>))"

definition threadpool_submit_work_async :: "work_item \<Rightarrow> bool \<Rightarrow> threadpool_private_data \<Rightarrow> submit_verdict" where
  "threadpool_submit_work_async item ok d = threadpool_submit_work item ok d"

fun submit_section :: "submit_kind \<Rightarrow> work_item \<Rightarrow> bool \<Rightarrow> threadpool_private_data \<Rightarrow> submit_verdict" where
  "submit_section Normal item ok d = threadpool_submit_work item ok d"
| "submit_section Priority item ok d = threadpool_submit_priority_work item ok d"

definition stop_request :: "threadpool_private_data \<Rightarrow> threadpool_private_data" where
  "stop_request d = d\<lparr>shutdown := True\<rparr>"

section \<open>The module\<close>

text \<open>The arguments \<open>self\<close> and \<open>config\<close> say whether the pointers are NULL. The answers are those of
  \<open>malloc\<close> (twice), \<open>uv_mutex_init\<close> and \<open>uv_cond_init\<close> (twice), then of \<open>uv_thread_create\<close>.\<close>

fun all_answers :: "nat \<Rightarrow> answers \<Rightarrow> bool \<times> answers" where
  "all_answers 0 as = (True, as)"
| "all_answers (Suc n) as = (case next_answer as of (ok, as1) \<Rightarrow>
     if ok then all_answers n as1 else (False, as1))"

definition threadpool_module_init :: "bool \<Rightarrow> answers \<Rightarrow> threadpool \<Rightarrow> int \<times> answers \<times> threadpool" where
  "threadpool_module_init self as s =
     (if \<not> self then (-1, as, s)
      else case all_answers 5 as of (ok, as1) \<Rightarrow>
        if \<not> ok then (-1, as1, s)
        else (0, as1, s\<lparr>tp_data := Some
          \<lparr>thread_slots = nat (thread_count tp_default_config), work_queue = [], prio_queue = [],
           queue_mutex = Mutex_free, shutdown = False, active_threads = 0, queued_work = 0,
           max_queue_size = cfg_max_queue_size tp_default_config, tp_config = tp_default_config\<rparr>\<rparr>))"

text \<open>The loop over \<open>i < thread_count\<close>: \<open>n\<close> rounds are left. Writing \<open>threads[i]\<close> past the array
  is a fault.\<close>

fun start_loop :: "nat \<Rightarrow> nat \<Rightarrow> nat \<Rightarrow> answers \<Rightarrow> worker list \<Rightarrow> (int \<times> answers \<times> worker list) outcome" where
  "start_loop 0 i slots as ws = Ret (0, as, ws)"
| "start_loop (Suc n) i slots as ws =
     (if i \<ge> slots then Fault Out_of_bounds
      else case next_answer as of (ok, as1) \<Rightarrow>
        if \<not> ok then Ret (-1, as1, ws) else start_loop n (Suc i) slots as1 (ws @ [Idle]))"

definition threadpool_module_start :: "bool \<Rightarrow> answers \<Rightarrow> threadpool \<Rightarrow> (int \<times> answers \<times> threadpool) outcome" where
  "threadpool_module_start self as s = (case tp_data s of
     None \<Rightarrow> Ret (-1, as, s)
   | Some d \<Rightarrow> if \<not> self then Ret (-1, as, s) else
       obind (start_loop (nat (thread_count (tp_config d))) 0 (thread_slots d) as (workers s))
         (\<lambda>(r, as1, ws). Ret (r, as1, s\<lparr>workers := ws\<rparr>)))"

text \<open>The joins of stop, once they can all return: joining a slot past the array, or one whose
  thread was never created, is a fault. None: some thread has not returned yet.\<close>

fun join_loop :: "nat \<Rightarrow> nat \<Rightarrow> nat \<Rightarrow> worker list \<Rightarrow> int outcome option" where
  "join_loop 0 i slots ws = Some (Ret 0)"
| "join_loop (Suc n) i slots ws =
     (if i \<ge> slots then Some (Fault Out_of_bounds)
      else if i \<ge> length ws then Some (Fault Uninit_read)
      else if ws ! i = Exited then join_loop n (Suc i) slots ws else None)"

definition threadpool_module_stop_join :: "bool \<Rightarrow> threadpool \<Rightarrow> int outcome option" where
  "threadpool_module_stop_join self s = (case tp_data s of
     None \<Rightarrow> Some (Ret (-1))
   | Some d \<Rightarrow> if \<not> self then Some (Ret (-1))
       else join_loop (nat (thread_count (tp_config d))) 0 (thread_slots d) (workers s))"

text \<open>Cleanup frees the items still queued without running them.\<close>

definition threadpool_module_cleanup :: "bool \<Rightarrow> threadpool \<Rightarrow> int \<times> threadpool" where
  "threadpool_module_cleanup self s = (case tp_data s of
     None \<Rightarrow> (-1, s)
   | Some d \<Rightarrow> if \<not> self then (-1, s) else (0, s\<lparr>tp_data := None\<rparr>))"

definition threadpool_module_set_config :: "bool \<Rightarrow> threadpool_config option \<Rightarrow> threadpool \<Rightarrow> int \<times> threadpool" where
  "threadpool_module_set_config self config s = (case (tp_data s, config) of
     (Some d, Some c) \<Rightarrow> if \<not> self then (-1, s)
        else (0, s\<lparr>tp_data := Some (d\<lparr>tp_config := c, max_queue_size := cfg_max_queue_size c\<rparr>)\<rparr>)
   | _ \<Rightarrow> (-1, s))"

definition threadpool_module_get_config :: "bool \<Rightarrow> threadpool \<Rightarrow> threadpool_config option" where
  "threadpool_module_get_config self s = (if self then map_option tp_config (tp_data s) else None)"

definition threadpool_get_active_thread_count :: "threadpool \<Rightarrow> int" where
  "threadpool_get_active_thread_count s = (case tp_data s of None \<Rightarrow> 0 | Some d \<Rightarrow> active_threads d)"

definition threadpool_get_queued_work_count :: "threadpool \<Rightarrow> int" where
  "threadpool_get_queued_work_count s = (case tp_data s of None \<Rightarrow> 0 | Some d \<Rightarrow> queued_work d)"

section \<open>Interleaving\<close>

fun blocked :: "submitter \<Rightarrow> bool" where
  "blocked (Blocked k w) = True"
| "blocked _ = False"

fun wake_submitter :: "submitter \<Rightarrow> submitter" where
  "wake_submitter (Blocked k w) = Calling k w"
| "wake_submitter x = x"

definition wake_worker :: "worker \<Rightarrow> worker" where
  "wake_worker w = (if w = Waiting then Idle else w)"

text \<open>\<open>signalled p t xs\<close>: the thread \<open>t\<close> may be the one that a signal wakes, None when no thread
  waits.\<close>

fun signalled :: "('a \<Rightarrow> bool) \<Rightarrow> nat option \<Rightarrow> 'a list \<Rightarrow> bool" where
  "signalled p None xs = (\<not> list_ex p xs)"
| "signalled p (Some j) xs = (j < length xs \<and> p (xs ! j))"

fun wake_one :: "('a \<Rightarrow> 'a) \<Rightarrow> nat option \<Rightarrow> 'a list \<Rightarrow> 'a list" where
  "wake_one f None xs = xs"
| "wake_one f (Some j) xs = xs[j := f (xs ! j)]"

datatype tp_event = Check nat | Finish nat | Arrive | Submit nat | Stop | Spurious

inductive tp_step :: "threadpool \<Rightarrow> tp_event \<Rightarrow> threadpool \<Rightarrow> bool" where
  check_waits: "\<lbrakk>tp_data s = Some d; i < length (workers s); workers s ! i = Idle;
    worker_check d = Worker_waits\<rbrakk>
    \<Longrightarrow> tp_step s (Check i) (s\<lparr>workers := (workers s)[i := Waiting]\<rparr>)"
| check_quits: "\<lbrakk>tp_data s = Some d; i < length (workers s); workers s ! i = Idle;
    worker_check d = Worker_quits\<rbrakk>
    \<Longrightarrow> tp_step s (Check i) (s\<lparr>workers := (workers s)[i := Exited]\<rparr>)"
| check_takes: "\<lbrakk>tp_data s = Some d; i < length (workers s); workers s ! i = Idle;
    worker_check d = Worker_takes w d'\<rbrakk>
    \<Longrightarrow> tp_step s (Check i) (s\<lparr>tp_data := Some d', workers := (workers s)[i := Running w]\<rparr>)"
| finish: "\<lbrakk>tp_data s = Some d; i < length (workers s); workers s ! i = Running w;
    signalled blocked t (submitters s)\<rbrakk>
    \<Longrightarrow> tp_step s (Finish i) (s\<lparr>tp_data := Some (worker_done d), workers := (workers s)[i := Idle],
          submitters := wake_one wake_submitter t (submitters s), executed := executed s @ [w]\<rparr>)"
| arrive: "tp_step s Arrive (s\<lparr>submitters := submitters s @ [Calling k w]\<rparr>)"
| submit_waits: "\<lbrakk>tp_data s = Some d; j < length (submitters s); submitters s ! j = Calling k w;
    submit_section k w ok d = Submit_waits\<rbrakk>
    \<Longrightarrow> tp_step s (Submit j) (s\<lparr>submitters := (submitters s)[j := Blocked k w]\<rparr>)"
| submit_fails: "\<lbrakk>tp_data s = Some d; j < length (submitters s); submitters s ! j = Calling k w;
    submit_section k w ok d = Submit_returns r d'; r \<noteq> 0\<rbrakk>
    \<Longrightarrow> tp_step s (Submit j) (s\<lparr>tp_data := Some d', submitters := (submitters s)[j := Returned r]\<rparr>)"
| submit_queues: "\<lbrakk>tp_data s = Some d; j < length (submitters s); submitters s ! j = Calling k w;
    submit_section k w ok d = Submit_returns 0 d'; signalled (\<lambda>x. x = Waiting) t (workers s)\<rbrakk>
    \<Longrightarrow> tp_step s (Submit j) (s\<lparr>tp_data := Some d', submitters := (submitters s)[j := Returned 0],
          workers := wake_one wake_worker t (workers s), accepted := accepted s @ [w]\<rparr>)"
| stop: "tp_data s = Some d
    \<Longrightarrow> tp_step s Stop (s\<lparr>tp_data := Some (stop_request d), workers := map wake_worker (workers s)\<rparr>)"
| spurious_worker: "\<lbrakk>i < length (workers s); workers s ! i = Waiting\<rbrakk>
    \<Longrightarrow> tp_step s Spurious (s\<lparr>workers := (workers s)[i := Idle]\<rparr>)"
| spurious_submitter: "\<lbrakk>j < length (submitters s); submitters s ! j = Blocked k w\<rbrakk>
    \<Longrightarrow> tp_step s Spurious (s\<lparr>submitters := (submitters s)[j := Calling k w]\<rparr>)"

inductive tp_run :: "threadpool \<Rightarrow> tp_event list \<Rightarrow> threadpool \<Rightarrow> bool" where
  tp_refl: "tp_run s [] s"
| tp_more: "tp_run s es s1 \<Longrightarrow> tp_step s1 e s2 \<Longrightarrow> tp_run s (es @ [e]) s2"

text \<open>The module brought up with the configuration \<open>c\<close>, every allocation succeeding.\<close>

definition no_threadpool :: threadpool where
  "no_threadpool = \<lparr>tp_data = None, workers = [], submitters = [], accepted = [], executed = []\<rparr>"

definition tp_boot :: "threadpool_config \<Rightarrow> threadpool outcome" where
  "tp_boot c = (case threadpool_module_init True [] no_threadpool of (r, as, s) \<Rightarrow>
     case threadpool_module_set_config True (Some c) s of (r1, s1) \<Rightarrow>
       obind (threadpool_module_start True as s1) (\<lambda>(r2, as2, s2). Ret s2))"

section \<open>Items in flight\<close>

fun in_hand :: "worker \<Rightarrow> work_item multiset" where
  "in_hand (Running w) = {#w#}"
| "in_hand _ = {#}"

primrec running :: "worker list \<Rightarrow> work_item multiset" where
  "running [] = {#}"
| "running (x # xs) = in_hand x + running xs"

definition queued_items :: "threadpool_private_data \<Rightarrow> work_item multiset" where
  "queued_items d = mset (prio_queue d) + mset (work_queue d)"

lemma running_append [simp]: "running (xs @ ys) = running xs + running ys"
  by (induction xs) simp_all

lemma running_update: "i < length ws \<Longrightarrow> running (ws[i := x]) + in_hand (ws ! i) = running ws + in_hand x"
proof (induction ws arbitrary: i)
  case (Cons y ws)
  then show ?case
  proof (cases i)
    case (Suc k)
    with Cons.IH [of k] Cons.prems show ?thesis by simp
  qed simp
qed simp

lemma running_swap: "i < length ws \<Longrightarrow> in_hand (ws ! i) = in_hand x \<Longrightarrow> running (ws[i := x]) = running ws"
  using running_update [of i ws x] by simp

lemma in_hand_wake [simp]: "in_hand (wake_worker w) = in_hand w"
  by (simp add: wake_worker_def)

lemma running_wake [simp]: "running (map wake_worker ws) = running ws"
  by (induction ws) simp_all

lemma running_wake_one: "signalled p t ws \<Longrightarrow> running (wake_one wake_worker t ws) = running ws"
  by (cases t) (simp_all add: running_swap)

lemma queue_append_eq [simp]: "queue_append ws w = ws @ [w]"
  by (induction ws) simp_all

lemma worker_takesD:
  assumes "worker_check d = Worker_takes w d'"
  shows "\<not> shutdown d" "queued_items d = add_mset w (queued_items d')"
    "queued_work d' = queued_work d - 1" "active_threads d' = active_threads d + 1"
    "max_queue_size d' = max_queue_size d" "shutdown d' = shutdown d"
    "size (queued_items d) = Suc (size (queued_items d'))"
    "tp_config d' = tp_config d" "thread_slots d' = thread_slots d"
  using assms by (auto simp: worker_check_def queued_items_def split: if_splits list.splits)

lemma submit_queuesD:
  assumes "submit_section k w ok d = Submit_returns 0 d'"
  shows "\<not> shutdown d" "queued_work d < max_queue_size d" "queued_items d' = add_mset w (queued_items d)"
    "queued_work d' = queued_work d + 1" "active_threads d' = active_threads d"
    "max_queue_size d' = max_queue_size d" "shutdown d' = shutdown d"
    "tp_config d' = tp_config d" "thread_slots d' = thread_slots d"
  using assms by (cases k; auto simp: threadpool_submit_work_def threadpool_submit_priority_work_def
    create_work_item_def queued_items_def split: if_splits)+

lemma submit_failsD: "submit_section k w ok d = Submit_returns r d' \<Longrightarrow> r \<noteq> 0 \<Longrightarrow> d' = d"
  by (cases k) (auto simp: threadpool_submit_work_def threadpool_submit_priority_work_def
    create_work_item_def split: if_splits)

lemma worker_check_shutdown: "shutdown d \<Longrightarrow> worker_check d = Worker_quits"
  by (simp add: worker_check_def)

section \<open>The invariant\<close>

text \<open>The counters say what they are named after, the queue is within its bound, no worker waits
  once shutdown is requested, and every accepted item is queued, being run, or has been run.\<close>

definition tp_inv :: "threadpool \<Rightarrow> bool" where
  "tp_inv s \<longleftrightarrow> (\<exists>d. tp_data s = Some d
     \<and> queued_work d = int (size (queued_items d)) \<and> queued_work d \<le> max_queue_size d
     \<and> active_threads d = int (size (running (workers s)))
     \<and> mset (accepted s) = mset (executed s) + running (workers s) + queued_items d
     \<and> (shutdown d \<longrightarrow> Waiting \<notin> set (workers s)))"

lemma tp_inv_step: "tp_step s e s' \<Longrightarrow> tp_inv s \<Longrightarrow> tp_inv s'"
proof (induction rule: tp_step.induct)
  case (check_waits s d i)
  then have "\<not> shutdown d" by (auto simp: worker_check_def)
  with check_waits show ?case by (auto simp: tp_inv_def running_swap)
next
  case (check_quits s d i)
  then show ?case by (auto simp: tp_inv_def running_swap dest: set_update_subset_insert [THEN subsetD])
next
  case (check_takes s d i w d')
  note t = worker_takesD [OF check_takes.hyps(4)]
  have "running ((workers s)[i := Running w]) = add_mset w (running (workers s))"
    using running_update [of i "workers s" "Running w"] check_takes.hyps(2,3) by simp
  with check_takes t show ?case by (simp add: tp_inv_def)
next
  case (finish s d i w t)
  have "running (workers s) = add_mset w (running ((workers s)[i := Idle]))"
    using running_update [of i "workers s" Idle] finish.hyps(2,3) by simp
  with finish show ?case
    by (auto simp: tp_inv_def worker_done_def queued_items_def dest: set_update_subset_insert [THEN subsetD])
next
  case (submit_fails s d j k w ok r d')
  then have "d' = d" by (blast dest: submit_failsD)
  with submit_fails show ?case by (simp add: tp_inv_def)
next
  case (submit_queues s d j k w ok d' t)
  note q = submit_queuesD [OF submit_queues.hyps(4)]
  from submit_queues q show ?case by (simp add: tp_inv_def running_wake_one)
next
  case (stop s d)
  then show ?case by (auto simp: tp_inv_def stop_request_def queued_items_def wake_worker_def split: if_splits)
next
  case (spurious_worker i s)
  then show ?case by (auto simp: tp_inv_def running_swap dest: set_update_subset_insert [THEN subsetD])
qed (auto simp: tp_inv_def)

lemma tp_inv_run: "tp_run s es s' \<Longrightarrow> tp_inv s \<Longrightarrow> tp_inv s'"
  by (induction rule: tp_run.induct) (auto intro: tp_inv_step)

lemma start_loop_spec: "i + n \<le> slots \<Longrightarrow> start_loop n i slots [] ws = Ret (0, [], ws @ replicate n Idle)"
  by (induction n arbitrary: i ws) (simp_all add: replicate_append_same [symmetric])

definition booted_data :: "threadpool_config \<Rightarrow> threadpool_private_data" where
  "booted_data c = \<lparr>thread_slots = 4, work_queue = [], prio_queue = [], queue_mutex = Mutex_free,
     shutdown = False, active_threads = 0, queued_work = 0, max_queue_size = cfg_max_queue_size c,
     tp_config = c\<rparr>"

lemma tp_boot_before_start:
  "tp_boot c = obind (threadpool_module_start True [] (no_threadpool\<lparr>tp_data := Some (booted_data c)\<rparr>))
     (\<lambda>(r2, as2, s2). Ret s2)"
  by (simp add: tp_boot_def threadpool_module_init_def threadpool_module_set_config_def
    tp_default_config_def booted_data_def eval_nat_numeral)

lemma tp_boot_eq:
  assumes "thread_count c \<le> 4"
  shows "tp_boot c = Ret (no_threadpool\<lparr>tp_data := Some (booted_data c),
    workers := replicate (nat (thread_count c)) Idle\<rparr>)"
  using assms start_loop_spec [of 0 "nat (thread_count c)" 4 "[]"]
  by (simp add: tp_boot_before_start threadpool_module_start_def booted_data_def no_threadpool_def)

lemma running_replicate [simp]: "running (replicate n Idle) = {#}"
  by (induction n) simp_all

lemma tp_boot_inv:
  assumes "tp_boot c = Ret s" and "thread_count c \<le> 4" and "0 \<le> cfg_max_queue_size c"
  shows "tp_inv s"
  using assms by (auto simp: tp_boot_eq tp_inv_def booted_data_def no_threadpool_def queued_items_def)

lemma tp_max_step:
  assumes "tp_step s e s'" and "\<exists>d. tp_data s = Some d \<and> max_queue_size d = n"
  shows "\<exists>d. tp_data s' = Some d \<and> max_queue_size d = n"
  using assms
proof (induction rule: tp_step.induct)
  case (submit_fails s d j k w ok r d')
  then have "d' = d" by (blast dest: submit_failsD)
  with submit_fails show ?case by simp
qed (auto simp: worker_done_def stop_request_def dest: worker_takesD(5) submit_queuesD(6))

lemma tp_max_run:
  assumes "tp_run s0 es s" and "tp_boot c = Ret s0" and "thread_count c \<le> 4"
  shows "\<exists>d. tp_data s = Some d \<and> max_queue_size d = cfg_max_queue_size c"
  using assms
proof (induction rule: tp_run.induct)
  case (tp_refl s)
  then show ?case by (auto simp: tp_boot_eq booted_data_def)
next
  case (tp_more s es s1 e s2)
  then show ?case by (blast intro: tp_max_step)
qed

section \<open>Shutdown\<close>

text \<open>How many more steps of its own a worker takes once shutdown is requested.\<close>

fun steps_left :: "worker \<Rightarrow> nat" where
  "steps_left Idle = 1"
| "steps_left Waiting = 2"
| "steps_left (Running w) = 2"
| "steps_left Exited = 0"

definition work_left :: "worker list \<Rightarrow> nat" where
  "work_left ws = sum_list (map steps_left ws)"

fun worker_event :: "tp_event \<Rightarrow> bool" where
  "worker_event (Check i) = True"
| "worker_event (Finish i) = True"
| "worker_event _ = False"

definition stopping :: "threadpool \<Rightarrow> bool" where
  "stopping s \<longleftrightarrow> (\<exists>d. tp_data s = Some d \<and> shutdown d)"

lemma work_left_update:
  "i < length ws \<Longrightarrow> work_left (ws[i := x]) + steps_left (ws ! i) = work_left ws + steps_left x"
proof (induction ws arbitrary: i)
  case (Cons y ws)
  then show ?case
  proof (cases i)
    case (Suc k)
    with Cons.IH [of k] Cons.prems show ?thesis by (simp add: work_left_def)
  qed (simp add: work_left_def)
qed simp

lemma work_left_wake: "work_left (map wake_worker ws) \<le> work_left ws"
  by (induction ws) (auto simp: work_left_def wake_worker_def)

lemma stopping_step: "tp_step s e s' \<Longrightarrow> stopping s \<Longrightarrow> stopping s'"
proof (induction rule: tp_step.induct)
  case (submit_fails s d j k w ok r d')
  then have "d' = d" by (blast dest: submit_failsD)
  with submit_fails show ?case by (simp add: stopping_def)
qed (auto simp: stopping_def stop_request_def worker_done_def dest: worker_takesD(6) submit_queuesD(7))

lemma stopping_work_left:
  "tp_step s e s' \<Longrightarrow> stopping s \<Longrightarrow>
   work_left (workers s') + (if worker_event e then 1 else 0) \<le> work_left (workers s)"
proof (induction rule: tp_step.induct)
  case (check_waits s d i)
  then show ?case by (auto simp: stopping_def worker_check_def split: if_splits)
next
  case (check_quits s d i)
  then show ?case using work_left_update [of i "workers s" Exited] by simp
next
  case (check_takes s d i w d')
  then show ?case using worker_takesD(1) by (auto simp: stopping_def)
next
  case (finish s d i w t)
  then show ?case using work_left_update [of i "workers s" Idle] by simp
next
  case (submit_queues s d j k w ok d' t)
  then show ?case using submit_queuesD(1) by (auto simp: stopping_def)
next
  case (stop s d)
  then show ?case using work_left_wake by simp
next
  case (spurious_worker i s)
  then show ?case using work_left_update [of i "workers s" Idle] by simp
qed simp_all

lemma stopping_run:
  "tp_run s es s' \<Longrightarrow> stopping s \<Longrightarrow>
   stopping s' \<and> work_left (workers s') + length (filter worker_event es) \<le> work_left (workers s)"
proof (induction rule: tp_run.induct)
  case (tp_more s es s1 e s2)
  with stopping_step [OF tp_more.hyps(2)] stopping_work_left [OF tp_more.hyps(2)]
  show ?case by (auto split: if_splits)
qed simp

lemma tp_run_front:
  assumes "tp_step s e s1" and "tp_run s1 es s2"
  shows "tp_run s (e # es) s2"
  using assms(2,1)
proof (induction rule: tp_run.induct)
  case (tp_refl s1)
  then show ?case using tp_run.tp_more [OF tp_run.tp_refl, of s e s1] by simp
next
  case (tp_more s1 es s2 e' s3)
  then show ?case using tp_run.tp_more [of s "e # es" s2 e' s3] by simp
qed

lemma tp_config_step:
  assumes "tp_step s e s'" and "tp_data s = Some d" and "length (workers s) = nat (thread_count (tp_config d))"
    and "thread_slots d = n"
  shows "\<exists>d'. tp_data s' = Some d' \<and> length (workers s') = nat (thread_count (tp_config d')) \<and> thread_slots d' = n
    \<and> tp_config d' = tp_config d"
  using assms
proof (induction rule: tp_step.induct)
  case (submit_fails s d' j k w ok r d'')
  then have "d'' = d'" by (blast dest: submit_failsD)
  with submit_fails show ?case by simp
next
  case (submit_queues s d' j k w ok d'' t)
  with submit_queuesD(8,9) [OF submit_queues.hyps(4)] show ?case by (cases t) auto
qed (auto simp: worker_done_def stop_request_def dest: worker_takesD(8,9))

lemma tp_config_run:
  assumes "tp_run s es s'" and "tp_data s = Some d" and "length (workers s) = nat (thread_count (tp_config d))"
  shows "\<exists>d'. tp_data s' = Some d' \<and> length (workers s') = nat (thread_count (tp_config d'))
    \<and> thread_slots d' = thread_slots d \<and> tp_config d' = tp_config d"
  using assms
proof (induction rule: tp_run.induct)
  case (tp_more s es s1 e s2)
  then obtain d1 where "tp_data s1 = Some d1" "length (workers s1) = nat (thread_count (tp_config d1))"
    "thread_slots d1 = thread_slots d" "tp_config d1 = tp_config d" by auto
  with tp_config_step [OF tp_more.hyps(2)] show ?case by metis
qed auto

lemma some_signalled: "\<exists>t. signalled p t xs"
proof (cases "list_ex p xs")
  case True
  then obtain j where "j < length xs" "p (xs ! j)" by (auto simp: list_ex_length)
  then show ?thesis by (intro exI [of _ "Some j"]) simp
next
  case False
  then show ?thesis by (intro exI [of _ None]) simp
qed

lemma stopping_enabled:
  assumes "stopping s" and "Waiting \<notin> set (workers s)" and "\<exists>w \<in> set (workers s). w \<noteq> Exited"
  shows "\<exists>e s'. worker_event e \<and> tp_step s e s' \<and> Waiting \<notin> set (workers s')"
proof -
  from assms(1) obtain d where d: "tp_data s = Some d" "shutdown d" by (auto simp: stopping_def)
  from assms(3) obtain i where i: "i < length (workers s)" "workers s ! i \<noteq> Exited"
    by (auto simp: in_set_conv_nth)
  from assms(2) i(1) have "workers s ! i \<noteq> Waiting" by (metis nth_mem)
  then consider "workers s ! i = Idle" | w where "workers s ! i = Running w"
    using i(2) by (cases "workers s ! i") auto
  moreover have keep: "Waiting \<notin> set ((workers s)[i := x])" if "x \<noteq> Waiting" for x
    using assms(2) that set_update_subset_insert [of "workers s" i x] by auto
  ultimately show ?thesis
  proof cases
    case 1
    have "tp_step s (Check i) (s\<lparr>workers := (workers s)[i := Exited]\<rparr>)"
      using d(1) i(1) 1 worker_check_shutdown [OF d(2)] by (rule check_quits)
    with keep [of Exited] show ?thesis
      by (intro exI [of _ "Check i"] exI [of _ "s\<lparr>workers := (workers s)[i := Exited]\<rparr>"]) simp
  next
    case 2
    obtain t where "signalled blocked t (submitters s)" using some_signalled by blast
    then have "tp_step s (Finish i) (s\<lparr>tp_data := Some (worker_done d), workers := (workers s)[i := Idle],
      submitters := wake_one wake_submitter t (submitters s), executed := executed s @ [w]\<rparr>)"
      by (rule finish [OF d(1) i(1) 2])
    moreover have "worker_event (Finish i)" by simp
    ultimately show ?thesis using keep [of Idle] by (metis (no_types, lifting) threadpool.select_convs(2)
      threadpool.surjective threadpool.update_convs worker.distinct(1))
  qed
qed

lemma stopping_drains:
  assumes "stopping s" and "Waiting \<notin> set (workers s)"
  shows "\<exists>es s'. tp_run s es s' \<and> (\<forall>w \<in> set (workers s'). w = Exited)"
  using assms
proof (induction "work_left (workers s)" arbitrary: s rule: less_induct)
  case less
  show ?case
  proof (cases "\<forall>w \<in> set (workers s). w = Exited")
    case True
    then show ?thesis using tp_refl by blast
  next
    case False
    then obtain e s1 where st: "worker_event e" "tp_step s e s1" "Waiting \<notin> set (workers s1)"
      using stopping_enabled [OF less.prems] by blast
    then have "work_left (workers s1) < work_left (workers s)"
      using stopping_work_left [OF st(2) less.prems(1)] by simp
    from less.hyps [OF this stopping_step [OF st(2) less.prems(1)] st(3)] tp_run_front [OF st(2)]
    show ?thesis by blast
  qed
qed

lemma join_loop_all:
  "\<forall>w \<in> set ws. w = Exited \<Longrightarrow> i + n \<le> length ws \<Longrightarrow> i + n \<le> slots \<Longrightarrow>
   join_loop n i slots ws = Some (Ret 0)"
  by (induction n arbitrary: i) simp_all

lemma work_left_le: "work_left ws \<le> 2 * length ws"
proof (induction ws)
  case (Cons w ws)
  then show ?case by (cases w) (simp_all add: work_left_def)
qed (simp add: work_left_def)

lemma stranded_step:
  assumes "tp_step s e s'" and "stopping s" and "\<forall>w \<in> set (workers s). w = Exited"
    and "j < length (submitters s)" and "submitters s ! j = Blocked k w" and "e \<noteq> Spurious"
  shows "stopping s' \<and> (\<forall>w \<in> set (workers s'). w = Exited) \<and> j < length (submitters s')
    \<and> submitters s' ! j = Blocked k w"
proof -
  have gone: "i < length (workers s) \<Longrightarrow> workers s ! i = Exited" for i using assms(3) by simp
  have st: "stopping s'" using stopping_step [OF assms(1,2)] .
  from assms(1) show ?thesis
  proof cases
    case (submit_queues d i k' w' ok d' t)
    then show ?thesis using submit_queuesD(1) assms(2) by (auto simp: stopping_def)
  qed (use st assms(2-6) gone in \<open>auto simp: nth_append nth_list_update wake_worker_def\<close>)
qed

lemma start_loop_overrun:
  "i \<le> slots \<Longrightarrow> slots < i + n \<Longrightarrow> start_loop n i slots [] ws = Fault Out_of_bounds"
  by (induction n arbitrary: i ws) auto

section \<open>The normal queue as a bounded queue\<close>

definition tp_enq :: "threadpool_private_data \<Rightarrow> work_item \<Rightarrow> threadpool_private_data option" where
  "tp_enq d w = (case threadpool_submit_work w True d of
     Submit_waits \<Rightarrow> None | Submit_returns r d' \<Rightarrow> if r = 0 then Some d' else None)"

definition tp_deq :: "threadpool_private_data \<Rightarrow> (work_item \<times> threadpool_private_data) option" where
  "tp_deq d = (case worker_check d of Worker_takes w d' \<Rightarrow> Some (w, d') | _ \<Rightarrow> None)"

definition normal_only :: "threadpool_private_data \<Rightarrow> bool" where
  "normal_only d \<longleftrightarrow> prio_queue d = [] \<and> \<not> shutdown d \<and> queued_work d = int (length (work_queue d))"

lemma tp_enq_Some: "normal_only d \<Longrightarrow> tp_enq d w = Some d' \<longleftrightarrow> queued_work d < max_queue_size d
    \<and> d' = d\<lparr>work_queue := work_queue d @ [w], queued_work := queued_work d + 1\<rparr>"
  by (auto simp: tp_enq_def threadpool_submit_work_def create_work_item_def normal_only_def)

lemma tp_deq_Some: "normal_only d \<Longrightarrow> tp_deq d = Some (w, d') \<longleftrightarrow> (\<exists>ws. work_queue d = w # ws
    \<and> d' = d\<lparr>work_queue := ws, queued_work := queued_work d - 1, active_threads := active_threads d + 1\<rparr>)"
  by (auto simp: tp_deq_def worker_check_def normal_only_def split: list.splits)

interpretation normal_queue: fifo_queue tp_enq tp_deq work_queue "\<lambda>d. nat (max_queue_size d)" normal_only
proof
  fix q :: threadpool_private_data and x q'
  assume n: "normal_only q"
  show "tp_enq q x = None \<longleftrightarrow> nat (max_queue_size q) \<le> length (work_queue q)"
    using n by (auto simp: tp_enq_def threadpool_submit_work_def create_work_item_def normal_only_def)
  show "tp_deq q = None \<longleftrightarrow> work_queue q = []"
    using n by (auto simp: tp_deq_def worker_check_def normal_only_def split: list.splits)
  {
    assume "tp_enq q x = Some q'"
    with n have q': "q' = q\<lparr>work_queue := work_queue q @ [x], queued_work := queued_work q + 1\<rparr>"
      by (simp add: tp_enq_Some)
    with n show "normal_only q'" "work_queue q' = work_queue q @ [x]"
      "nat (max_queue_size q') = nat (max_queue_size q)"
      "mset (work_queue q') = add_mset x (mset (work_queue q))"
      by (simp_all add: normal_only_def)
  }
  {
    assume "tp_deq q = Some (x, q')"
    with n obtain ws where "work_queue q = x # ws" "q' = q\<lparr>work_queue := ws,
      queued_work := queued_work q - 1, active_threads := active_threads q + 1\<rparr>"
      by (auto simp: tp_deq_Some)
    with n show "normal_only q'" "work_queue q = x # work_queue q'"
      "nat (max_queue_size q') = nat (max_queue_size q)" by (simp_all add: normal_only_def)
  }
qed

section \<open>A run\<close>

text \<open>One worker and room for one item: an item is queued, a second submitter blocks, stop is
  requested before the worker looks at the queue, and the worker leaves.\<close>

definition demo_config :: threadpool_config where
  "demo_config = \<lparr>thread_count = 1, cfg_max_queue_size = 1, enable_work_stealing = True,
     enable_priority_queue = True\<rparr>"

definition demo_item :: work_item where
  "demo_item = \<lparr>work_func = 1, work_data = 2\<rparr>"

definition demo_end :: threadpool where
  "demo_end = \<lparr>tp_data = Some ((booted_data demo_config)\<lparr>work_queue := [demo_item], queued_work := 1, shutdown := True\<rparr>),
     workers = [Exited], submitters = [Returned 0, Blocked Normal demo_item],
     accepted = [demo_item], executed = []\<rparr>"

lemma demo_boot: "tp_boot demo_config = Ret (no_threadpool\<lparr>tp_data := Some (booted_data demo_config), workers := [Idle]\<rparr>)"
  by (subst tp_boot_eq) (simp_all add: demo_config_def)

lemma demo_run:
  "tp_run (no_threadpool\<lparr>tp_data := Some (booted_data demo_config), workers := [Idle]\<rparr>)
     [Arrive, Submit 0, Arrive, Submit 1, Stop, Check 0] demo_end"
proof -
  define s0 where "s0 = no_threadpool\<lparr>tp_data := Some (booted_data demo_config), workers := [Idle]\<rparr>"
  define d1 where "d1 = (booted_data demo_config)\<lparr>work_queue := [demo_item], queued_work := 1\<rparr>"
  define s1 where "s1 = s0\<lparr>submitters := [Calling Normal demo_item]\<rparr>"
  define s2 where "s2 = s0\<lparr>tp_data := Some d1, submitters := [Returned 0], accepted := [demo_item]\<rparr>"
  define s3 where "s3 = s2\<lparr>submitters := [Returned 0, Calling Normal demo_item]\<rparr>"
  define s4 where "s4 = s2\<lparr>submitters := [Returned 0, Blocked Normal demo_item]\<rparr>"
  define s5 where "s5 = s4\<lparr>tp_data := Some (d1\<lparr>shutdown := True\<rparr>)\<rparr>"
  note defs = s0_def s1_def s2_def s3_def s4_def s5_def d1_def no_threadpool_def booted_data_def
    demo_config_def demo_item_def
  have "tp_step s0 Arrive s1" using arrive [of s0 Normal demo_item] by (simp add: defs)
  moreover have "tp_step s1 (Submit 0) s2"
    using submit_queues [of s1 "booted_data demo_config" 0 Normal demo_item True d1 None]
    by (simp add: defs threadpool_submit_work_def create_work_item_def)
  moreover have "tp_step s2 Arrive s3" using arrive [of s2 Normal demo_item] by (simp add: defs)
  moreover have "tp_step s3 (Submit 1) s4"
    using submit_waits [of s3 d1 1 Normal demo_item True] by (simp add: defs threadpool_submit_work_def)
  moreover have "tp_step s4 Stop s5"
    using stop [of s4 d1] by (simp add: defs stop_request_def wake_worker_def)
  moreover have "tp_step s5 (Check 0) demo_end"
    using check_quits [of s5 "d1\<lparr>shutdown := True\<rparr>" 0] by (simp add: defs worker_check_def demo_end_def)
  ultimately show ?thesis
    unfolding s0_def [symmetric] by (blast intro: tp_run_front tp_refl)
qed

section \<open>Properties\<close>

text \<open>C7: Whatever the order in which the threads run, when the configured number of workers fits
  the thread array, the counter of queued work is the number of queued items and never exceeds
  the configured bound, the counter of active threads is the number of items being run, and
  every item that was accepted is queued, being run, or has been run, exactly once.\<close>

theorem pool_accounts_for_all_work:
  assumes "tp_boot c = Ret s0" and "thread_count c \<le> 4" and "0 \<le> cfg_max_queue_size c"
    and "tp_run s0 es s"
  shows "\<exists>d. tp_data s = Some d
    \<and> threadpool_get_queued_work_count s = int (length (prio_queue d) + length (work_queue d))
    \<and> threadpool_get_queued_work_count s \<le> cfg_max_queue_size c
    \<and> threadpool_get_active_thread_count s = int (size (running (workers s)))
    \<and> mset (accepted s) = mset (executed s) + running (workers s) + mset (prio_queue d) + mset (work_queue d)"
proof -
  have "tp_inv s" using tp_inv_run [OF assms(4) tp_boot_inv [OF assms(1-3)]] .
  moreover have "\<exists>d. tp_data s = Some d \<and> max_queue_size d = cfg_max_queue_size c"
    using assms(4,1,2) by (rule tp_max_run)
  ultimately show ?thesis
    by (auto simp: tp_inv_def queued_items_def threadpool_get_queued_work_count_def
      threadpool_get_active_thread_count_def add.assoc)
qed

theorem pool_accounts_for_all_work_witness:
  "\<exists>d. tp_data demo_end = Some d
    \<and> threadpool_get_queued_work_count demo_end = int (length (prio_queue d) + length (work_queue d))
    \<and> threadpool_get_queued_work_count demo_end \<le> cfg_max_queue_size demo_config
    \<and> threadpool_get_active_thread_count demo_end = int (size (running (workers demo_end)))
    \<and> mset (accepted demo_end) = mset (executed demo_end) + running (workers demo_end)
        + mset (prio_queue d) + mset (work_queue d)"
  by (rule pool_accounts_for_all_work [OF demo_boot _ _ demo_run]) (simp_all add: demo_config_def)


lemma demo_stopping: "stopping demo_end"
  by (simp add: stopping_def demo_end_def)


text \<open>As long as no priority work is submitted, work items are started in the order in which
  they were submitted, none is lost or started twice, and the queue stays within its bound.\<close>

theorem normal_work_is_fifo:
  assumes "normal_only d" and "int (length (work_queue d)) \<le> max_queue_size d"
    and "run_queue tp_enq tp_deq ops d = (submitted, started, d')"
  shows "work_queue d @ submitted = started @ work_queue d'
    \<and> length (work_queue d') \<le> nat (max_queue_size d)"
  using normal_queue.run_fifo [OF assms(3,1)] normal_queue.run_bounded [OF assms(3,1)]
    normal_queue.run_conserves [OF assms(3,1)] assms(2) by auto

theorem normal_work_is_fifo_witness:
  "\<exists>d'. run_queue tp_enq tp_deq [Put demo_item, Put demo_item, Get] (booted_data demo_config)
     = ([demo_item], [demo_item], d') \<and> [demo_item] = [demo_item] @ work_queue d'"
proof -
  have "\<exists>d'. run_queue tp_enq tp_deq [Put demo_item, Put demo_item, Get] (booted_data demo_config)
     = ([demo_item], [demo_item], d')"
    by (simp add: tp_enq_def tp_deq_def threadpool_submit_work_def create_work_item_def worker_check_def
      booted_data_def demo_config_def demo_item_def)
  then obtain d' where d': "run_queue tp_enq tp_deq [Put demo_item, Put demo_item, Get] (booted_data demo_config)
     = ([demo_item], [demo_item], d')" by blast
  have "normal_only (booted_data demo_config)" by (simp add: normal_only_def booted_data_def)
  with normal_work_is_fifo [OF this _ d'] d' show ?thesis by (simp add: booted_data_def demo_config_def)
qed

text \<open>A submitter that waits for room when the pool has been stopped is never woken: stop
  signals only \<open>work_available\<close>, and once the workers are gone nothing signals
  \<open>queue_not_full\<close>. However the remaining threads run, the submitter stays blocked unless it
  wakes for no reason.\<close>

theorem stop_strands_submitters:
  assumes "tp_run s es s'" and "stopping s" and "\<forall>w \<in> set (workers s). w = Exited"
    and "j < length (submitters s)" and "submitters s ! j = Blocked k w" and "Spurious \<notin> set es"
  shows "submitters s' ! j = Blocked k w \<and> (\<forall>w \<in> set (workers s'). w = Exited)"
proof -
  have "stopping s' \<and> (\<forall>w \<in> set (workers s'). w = Exited)
      \<and> j < length (submitters s') \<and> submitters s' ! j = Blocked k w"
    using assms
  proof (induction rule: tp_run.induct)
    case (tp_more s es s1 e s2)
    then have "stopping s1" "\<forall>w \<in> set (workers s1). w = Exited" "j < length (submitters s1)"
      "submitters s1 ! j = Blocked k w" "e \<noteq> Spurious" by auto
    with tp_more.hyps(2) show ?case by (rule stranded_step)
  qed auto
  then show ?thesis by simp
qed

theorem stop_strands_submitters_witness:
  "\<not> (\<exists>es s'. tp_run demo_end es s' \<and> Spurious \<notin> set es \<and> submitters s' ! 1 \<noteq> Blocked Normal demo_item)"
  using stop_strands_submitters [of demo_end _ _ 1 Normal demo_item] demo_stopping by (auto simp: demo_end_def)

text \<open>Configuring more workers than the four of the default configuration and starting the
  pool writes thread handles past the end of the array, which was allocated for the default.\<close>

theorem more_workers_overrun_threads:
  assumes "4 < thread_count c"
  shows "tp_boot c = Fault Out_of_bounds"
proof -
  have "start_loop (nat (thread_count c)) 0 4 [] [] = Fault Out_of_bounds"
    using assms by (intro start_loop_overrun) auto
  then show ?thesis
    by (simp add: tp_boot_before_start threadpool_module_start_def booted_data_def no_threadpool_def)
qed

theorem more_workers_overrun_threads_witness:
  "tp_boot (demo_config\<lparr>thread_count := 8\<rparr>) = Fault Out_of_bounds"
  by (rule more_workers_overrun_threads) simp

end
