(* ===== verification/Thread_Comm.thy ===== *)
theory Thread_Comm
  imports Interfaces
begin

text \<open>
  The thread communication module (src/thread/thread_comm_module.c): a fixed table of
  registered threads, a bounded priority queue of messages per thread, named mutexes,
  statistics and the last error, all in one global object behind one mutex. A call is a
  function on that object; \<open>global_mutex\<close> is what the calling thread sees of the mutex, so a
  call that locks it twice is a fault. The inner mutex of a queue is held exactly for the
  duration of one queue operation and is not modelled. The clock and the caller's thread
  identity are arguments. Message data is a list of bytes; a pointer to it that is NULL is
  None. The tables of conditions, events, semaphores, pipes, shared buffers and scheduled
  tasks are never filled (the functions that would fill them return at once), so they are not
  part of the state. The answers of the allocator and of the pthread init functions are
  consumed in the order of the calls.
\<close>

section \<open>Data\<close>

datatype thread_comm_error =
    ERROR_NONE | ERROR_INVALID_PARAM | ERROR_MEMORY_ALLOCATION | ERROR_QUEUE_FULL
  | ERROR_QUEUE_EMPTY | ERROR_TIMEOUT | ERROR_THREAD_NOT_FOUND | ERROR_MESSAGE_TOO_LARGE
  | ERROR_INVALID_MESSAGE | ERROR_ALREADY_INITIALIZED | ERROR_NOT_INITIALIZED | ERROR_UNKNOWN

datatype thread_msg_type =
    MSG_DATA | MSG_SIGNAL | MSG_COMMAND | MSG_EVENT | MSG_REQUEST | MSG_RESPONSE
  | MSG_HEARTBEAT | MSG_ERROR

datatype thread_priority = PRIORITY_LOW | PRIORITY_NORMAL | PRIORITY_HIGH | PRIORITY_URGENT

datatype thread_run_state =
    THREAD_IDLE | THREAD_RUNNING | THREAD_WAITING | THREAD_BLOCKED | THREAD_TERMINATED

fun priority_code :: "thread_priority \<Rightarrow> nat" where
  "priority_code PRIORITY_LOW = 0"
| "priority_code PRIORITY_NORMAL = 1"
| "priority_code PRIORITY_HIGH = 2"
| "priority_code PRIORITY_URGENT = 3"

instantiation thread_priority :: linorder
begin

definition less_eq_thread_priority :: "thread_priority \<Rightarrow> thread_priority \<Rightarrow> bool" where
  "less_eq_thread_priority p q \<longleftrightarrow> priority_code p \<le> priority_code q"

definition less_thread_priority :: "thread_priority \<Rightarrow> thread_priority \<Rightarrow> bool" where
  "less_thread_priority p q \<longleftrightarrow> priority_code p < priority_code q"

instance
proof
  fix p q :: thread_priority
  show "p \<le> q \<Longrightarrow> q \<le> p \<Longrightarrow> p = q"
    by (cases p; cases q) (simp_all add: less_eq_thread_priority_def)
qed (auto simp: less_eq_thread_priority_def less_thread_priority_def)

end

record thread_msg =
  msg_id :: "32 word"
  msg_type :: thread_msg_type
  priority :: thread_priority
  msg_timestamp :: "64 word"
  sender_id :: "32 word"
  receiver_id :: "32 word"
  data_size :: "32 word"
  msg_data :: "8 word list option"
  msg_flags :: "32 word"

record priority_msg_queue =
  msgs :: "thread_msg list"
  q_size :: nat
  q_max_size :: nat

record thread_comm_config =
  comm_name :: string
  max_queue_msgs :: nat
  max_msg_size :: nat
  timeout_ms :: int
  enable_priority :: bool
  enable_broadcast :: bool
  max_threads :: nat
  enable_monitoring :: bool

record internal_thread_info =
  thread_id :: "32 word"
  pthread_id :: nat
  thread_name :: string
  thread_state :: thread_run_state
  create_time :: "64 word"
  cpu_time :: "64 word"
  message_count :: "32 word"
  user_data :: nat
  msg_queue :: "priority_msg_queue option"
  callback :: "nat option"
  callback_user_data :: nat
  is_registered :: bool

record named_mutex =
  mutex_name :: string
  named_lock :: uv_mutex
  mutex_initialized :: bool

record thread_pool =
  pool_name :: string
  pool_active_threads :: "32 word"
  pool_initialized :: bool

record thread_comm_stats =
  messages_sent :: "64 word"
  messages_received :: "64 word"
  bytes_sent :: "64 word"
  bytes_received :: "64 word"
  stat_errors :: "64 word"
  stat_timeouts :: "64 word"
  stat_active_threads :: "64 word"
  stat_max_threads :: "64 word"

record comm =
  comm_initialized :: bool
  comm_config :: thread_comm_config
  threads :: "internal_thread_info list"
  id_counter :: "32 word"
  active_thread_count :: "32 word"
  mutexes :: "named_mutex list"
  mutex_count :: "32 word"
  thread_pools :: "thread_pool list"
  thread_pool_count :: "32 word"
  comm_stats :: thread_comm_stats
  last_error :: thread_comm_error
  global_mutex :: uv_mutex
  comm_answers :: answers

definition thread_comm_default_config :: thread_comm_config where
  "thread_comm_default_config = \<lparr>comm_name = ''default'', max_queue_msgs = 1000,
     max_msg_size = 64 * 1024, timeout_ms = 5000, enable_priority = True, enable_broadcast = True,
     max_threads = 100, enable_monitoring = False\<rparr>"

definition zero_thread :: internal_thread_info where
  "zero_thread = \<lparr>thread_id = 0, pthread_id = 0, thread_name = [], thread_state = THREAD_IDLE,
     create_time = 0, cpu_time = 0, message_count = 0, user_data = 0, msg_queue = None,
     callback = None, callback_user_data = 0, is_registered = False\<rparr>"

definition zero_mutex :: named_mutex where
  "zero_mutex = \<lparr>mutex_name = [], named_lock = Mutex_raw, mutex_initialized = False\<rparr>"

definition zero_thread_pool :: thread_pool where
  "zero_thread_pool = \<lparr>pool_name = [], pool_active_threads = 0, pool_initialized = False\<rparr>"

definition zero_stats :: thread_comm_stats where
  "zero_stats = \<lparr>messages_sent = 0, messages_received = 0, bytes_sent = 0, bytes_received = 0,
     stat_errors = 0, stat_timeouts = 0, stat_active_threads = 0, stat_max_threads = 0\<rparr>"

text \<open>The object of the C program before any call.\<close>

definition comm_zero :: comm where
  "comm_zero = \<lparr>comm_initialized = False, comm_config = thread_comm_default_config\<lparr>max_threads := 0\<rparr>,
     threads = [], id_counter = 0, active_thread_count = 0, mutexes = [], mutex_count = 0,
     thread_pools = [], thread_pool_count = 0, comm_stats = zero_stats, last_error = ERROR_NONE,
     global_mutex = Mutex_raw, comm_answers = []\<rparr>"

text \<open>Locking and unlocking the global mutex, setting the last error, and the next answer.\<close>

definition lock_global :: "comm \<Rightarrow> comm outcome" where
  "lock_global s = obind (uv_mutex_lock (global_mutex s)) (\<lambda>m. Ret (s\<lparr>global_mutex := m\<rparr>))"

definition unlock_global :: "comm \<Rightarrow> comm outcome" where
  "unlock_global s = obind (uv_mutex_unlock (global_mutex s)) (\<lambda>m. Ret (s\<lparr>global_mutex := m\<rparr>))"

definition comm_answer :: "comm \<Rightarrow> bool \<times> comm" where
  "comm_answer s = (case next_answer (comm_answers s) of (ok, as) \<Rightarrow> (ok, s\<lparr>comm_answers := as\<rparr>))"

text \<open>Unlock, set the last error, return.\<close>

definition leave :: "'a \<Rightarrow> thread_comm_error \<Rightarrow> comm \<Rightarrow> ('a \<times> comm) outcome" where
  "leave r e s = obind (unlock_global s) (\<lambda>s1. Ret (r, s1\<lparr>last_error := e\<rparr>))"

section \<open>Message queues\<close>

fun comm_answers_all :: "nat \<Rightarrow> comm \<Rightarrow> bool \<times> comm" where
  "comm_answers_all 0 s = (True, s)"
| "comm_answers_all (Suc n) s = (case comm_answer s of (ok, s1) \<Rightarrow>
     if ok then comm_answers_all n s1 else (False, s1))"

text \<open>Groups of allocations: those of a group are all made, then checked together.\<close>

fun comm_answers_group :: "nat \<Rightarrow> comm \<Rightarrow> bool \<times> comm" where
  "comm_answers_group 0 s = (True, s)"
| "comm_answers_group (Suc n) s = (case comm_answer s of (ok, s1) \<Rightarrow>
     case comm_answers_group n s1 of (oks, s2) \<Rightarrow> (ok \<and> oks, s2))"

fun comm_allocs :: "nat list \<Rightarrow> comm \<Rightarrow> bool \<times> comm" where
  "comm_allocs [] s = (True, s)"
| "comm_allocs (n # ns) s = (case comm_answers_group n s of (ok, s1) \<Rightarrow>
     if ok then comm_allocs ns s1 else (False, s1))"

text \<open>A malloc, a mutex and two condition variables; the queue is stored in slot \<open>i\<close>.\<close>

definition create_message_queue :: "nat \<Rightarrow> nat \<Rightarrow> comm \<Rightarrow> int \<times> comm" where
  "create_message_queue i n s = (case comm_answers_all 4 s of (ok, s1) \<Rightarrow>
     if ok
     then (0, s1\<lparr>threads := (threads s1)[i := (threads s1 ! i)
            \<lparr>msg_queue := Some \<lparr>msgs = [], q_size = 0, q_max_size = n\<rparr>\<rparr>]\<rparr>)
     else (-1, s1))"

definition destroy_message_queue :: "nat \<Rightarrow> comm \<Rightarrow> comm" where
  "destroy_message_queue i s = s\<lparr>threads := (threads s)[i := (threads s ! i)\<lparr>msg_queue := None\<rparr>]\<rparr>"

text \<open>The walk past every message of at least the new priority, and the link before the next.\<close>

fun insert_by_priority :: "thread_msg \<Rightarrow> thread_msg list \<Rightarrow> thread_msg list" where
  "insert_by_priority m [] = [m]"
| "insert_by_priority m (x # xs) =
     (if priority x \<ge> priority m then x # insert_by_priority m xs else m # x # xs)"

definition link_message :: "thread_msg \<Rightarrow> priority_msg_queue \<Rightarrow> priority_msg_queue" where
  "link_message m q = q\<lparr>msgs := insert_by_priority m (msgs q), q_size := q_size q + 1\<rparr>"

definition copy_message :: "thread_msg \<Rightarrow> thread_msg" where
  "copy_message m = m\<lparr>msg_data := map_option (take (unat (data_size m))) (msg_data m)\<rparr>"

text \<open>The queued copy holds the first \<open>data_size\<close> bytes. Two allocations: the node and the data.\<close>

definition enqueue_message ::
  "priority_msg_queue option \<Rightarrow> thread_msg \<Rightarrow> comm \<Rightarrow> (int \<times> priority_msg_queue \<times> comm) outcome" where
  "enqueue_message qp m s = (case qp of
     None \<Rightarrow> Fault Null_deref
   | Some q \<Rightarrow>
       if q_size q \<ge> q_max_size q then Ret (-1, q, s)
       else case comm_answers_all 2 s of (ok, s1) \<Rightarrow>
         if \<not> ok then Ret (-1, q, s1)
         else Ret (0, link_message (copy_message m) q, s1))"

text \<open>The message handed out holds a copy of the data, or NULL when its allocation fails.\<close>

definition dequeue_message ::
  "priority_msg_queue option \<Rightarrow> comm \<Rightarrow> (thread_msg option \<times> priority_msg_queue \<times> comm) outcome" where
  "dequeue_message qp s = (case qp of
     None \<Rightarrow> Fault Null_deref
   | Some q \<Rightarrow>
       if q_size q = 0 then Ret (None, q, s)
       else (case msgs q of
         [] \<Rightarrow> Fault Null_deref
       | m # ms \<Rightarrow> (case comm_answer s of (ok, s1) \<Rightarrow>
           Ret (Some (if ok then m else m\<lparr>msg_data := None\<rparr>),
                q\<lparr>msgs := ms, q_size := q_size q - 1\<rparr>, s1))))"

section \<open>Threads\<close>

definition generate_thread_id :: "comm \<Rightarrow> 32 word \<times> comm" where
  "generate_thread_id s = (id_counter s + 1, s\<lparr>id_counter := id_counter s + 1\<rparr>)"

definition find_thread_by_id :: "32 word \<Rightarrow> comm \<Rightarrow> nat option" where
  "find_thread_by_id i s = find_idx (\<lambda>t. is_registered t \<and> thread_id t = i) (threads s)"

definition find_thread_by_pthread_id :: "nat \<Rightarrow> comm \<Rightarrow> nat option" where
  "find_thread_by_pthread_id p s = find_idx (\<lambda>t. is_registered t \<and> pthread_id t = p) (threads s)"

definition update_thread_state :: "32 word \<Rightarrow> thread_run_state \<Rightarrow> comm \<Rightarrow> comm" where
  "update_thread_state i st s = (case find_thread_by_id i s of
     None \<Rightarrow> s | Some k \<Rightarrow> s\<lparr>threads := (threads s)[k := (threads s ! k)\<lparr>thread_state := st\<rparr>]\<rparr>)"

text \<open>Two locks, then the arrays in groups that are checked together: threads; mutexes, conditions,
  events, semaphores; pipes and buffers; pools and tasks. A failure frees what was allocated and
  destroys the locks; the configuration stays set. A configuration with a negative number of
  threads is not modelled.\<close>

definition thread_comm_init :: "thread_comm_config option \<Rightarrow> comm \<Rightarrow> int \<times> comm" where
  "thread_comm_init config s =
     (if comm_initialized s then (-1, s\<lparr>last_error := ERROR_ALREADY_INITIALIZED\<rparr>)
      else case comm_answer s of (mutex_ok, s1) \<Rightarrow>
        if \<not> mutex_ok then (-1, s1\<lparr>last_error := ERROR_MEMORY_ALLOCATION\<rparr>)
        else case comm_answer s1 of (rwlock_ok, s2) \<Rightarrow>
          if \<not> rwlock_ok then (-1, s2\<lparr>global_mutex := Mutex_dead, last_error := ERROR_MEMORY_ALLOCATION\<rparr>)
          else let c = (case config of Some c \<Rightarrow> c | None \<Rightarrow> thread_comm_default_config) in
            case comm_allocs [1, 4, 2, 2] (s2\<lparr>comm_config := c\<rparr>) of (ok, s3) \<Rightarrow>
              if \<not> ok then (-1, s3\<lparr>global_mutex := Mutex_dead, last_error := ERROR_MEMORY_ALLOCATION\<rparr>)
              else (0, s3\<lparr>threads := replicate (max_threads c) zero_thread,
                     mutexes := replicate 100 zero_mutex, thread_pools := replicate 20 zero_thread_pool,
                     comm_stats := zero_stats\<lparr>stat_max_threads := of_nat (max_threads c)\<rparr>,
                     global_mutex := Mutex_free, comm_initialized := True, last_error := ERROR_NONE\<rparr>))"

definition thread_comm_register_thread ::
  "string option \<Rightarrow> nat \<Rightarrow> nat \<Rightarrow> 64 word \<Rightarrow> comm \<Rightarrow> (32 word \<times> comm) outcome" where
  "thread_comm_register_thread name data self now s = (case name of
     None \<Rightarrow> Ret (0, s\<lparr>last_error := ERROR_INVALID_PARAM\<rparr>)
   | Some nm \<Rightarrow>
     if \<not> comm_initialized s then Ret (0, s\<lparr>last_error := ERROR_INVALID_PARAM\<rparr>)
     else obind (lock_global s) (\<lambda>s1. case find_idx (\<lambda>t. \<not> is_registered t) (threads s1) of
         None \<Rightarrow> leave 0 ERROR_MEMORY_ALLOCATION s1
       | Some k \<Rightarrow> (case generate_thread_id s1 of (i, s2) \<Rightarrow>
           let t = (threads s2 ! k)\<lparr>thread_id := i, pthread_id := self, thread_name := take 63 nm,
                 thread_state := THREAD_RUNNING, create_time := now, cpu_time := 0,
                 message_count := 0, user_data := data, callback := None, callback_user_data := 0,
                 is_registered := True\<rparr>;
               s3 = s2\<lparr>threads := (threads s2)[k := t]\<rparr> in
           case create_message_queue k (max_queue_msgs (comm_config s3)) s3 of (r, s4) \<Rightarrow>
             if r \<noteq> 0
             then leave 0 ERROR_MEMORY_ALLOCATION
               (s4\<lparr>threads := (threads s4)[k := (threads s4 ! k)\<lparr>is_registered := False\<rparr>]\<rparr>)
             else leave i ERROR_NONE
               (s4\<lparr>active_thread_count := active_thread_count s4 + 1,
                   comm_stats := (comm_stats s4)\<lparr>stat_active_threads := stat_active_threads (comm_stats s4) + 1\<rparr>\<rparr>))))"

definition thread_comm_unregister_thread :: "32 word \<Rightarrow> comm \<Rightarrow> (int \<times> comm) outcome" where
  "thread_comm_unregister_thread i s =
     (if \<not> comm_initialized s then Ret (-1, s\<lparr>last_error := ERROR_NOT_INITIALIZED\<rparr>)
      else obind (lock_global s) (\<lambda>s1. case find_thread_by_id i s1 of
        None \<Rightarrow> leave (-1) ERROR_THREAD_NOT_FOUND s1
      | Some k \<Rightarrow>
          let s2 = destroy_message_queue k s1 in
          leave 0 ERROR_NONE
            (s2\<lparr>threads := (threads s2)[k := zero_thread],
                active_thread_count := active_thread_count s2 - 1,
                comm_stats := (comm_stats s2)\<lparr>stat_active_threads := stat_active_threads (comm_stats s2) - 1\<rparr>\<rparr>)))"

text \<open>The loop of cleanup over the thread table; the global mutex is held.\<close>

fun cleanup_threads :: "nat list \<Rightarrow> comm \<Rightarrow> comm outcome" where
  "cleanup_threads [] s = Ret s"
| "cleanup_threads (k # ks) s =
     (if is_registered (threads s ! k)
      then obind (thread_comm_unregister_thread (thread_id (threads s ! k)) s) (\<lambda>(r, s1). cleanup_threads ks s1)
      else cleanup_threads ks s)"

definition thread_comm_destroy_thread_pool :: "string option \<Rightarrow> comm \<Rightarrow> (int \<times> comm) outcome" where
  "thread_comm_destroy_thread_pool name s = (case name of
     None \<Rightarrow> Ret (-1, s\<lparr>last_error := ERROR_INVALID_PARAM\<rparr>)
   | Some nm \<Rightarrow>
     if \<not> comm_initialized s then Ret (-1, s\<lparr>last_error := ERROR_INVALID_PARAM\<rparr>)
     else obind (lock_global s) (\<lambda>s1.
       case find_idx (\<lambda>p. pool_initialized p \<and> pool_name p = nm) (thread_pools s1) of
         None \<Rightarrow> leave (-1) ERROR_THREAD_NOT_FOUND s1
       | Some k \<Rightarrow> leave 0 ERROR_NONE
           (s1\<lparr>thread_pools := (thread_pools s1)[k := (thread_pools s1 ! k)
                 \<lparr>pool_initialized := False, pool_active_threads := 0\<rparr>],
               thread_pool_count := thread_pool_count s1 - 1\<rparr>)))"

fun cleanup_thread_pools :: "nat list \<Rightarrow> comm \<Rightarrow> comm outcome" where
  "cleanup_thread_pools [] s = Ret s"
| "cleanup_thread_pools (k # ks) s =
     (if pool_initialized (thread_pools s ! k)
      then obind (thread_comm_destroy_thread_pool (Some (pool_name (thread_pools s ! k))) s)
        (\<lambda>(r, s1). cleanup_thread_pools ks s1)
      else cleanup_thread_pools ks s)"

text \<open>A loop over the first \<open>n\<close> slots of an array that stops at the first slot that satisfies the
  test; running past the array is a fault.\<close>

fun scan_slots :: "('a \<Rightarrow> bool) \<Rightarrow> nat \<Rightarrow> 'a list \<Rightarrow> nat \<Rightarrow> nat option outcome" where
  "scan_slots p 0 xs i = Ret None"
| "scan_slots p (Suc n) xs i =
     (if i \<ge> length xs then Fault Out_of_bounds
      else if p (xs ! i) then Ret (Some i) else scan_slots p n xs (Suc i))"

text \<open>Cleanup keeps the counters: only the arrays, the locks and the flag go.\<close>

definition thread_comm_cleanup :: "comm \<Rightarrow> (int \<times> comm) outcome" where
  "thread_comm_cleanup s =
     (if \<not> comm_initialized s then Ret (0, s)
      else obind (lock_global s) (\<lambda>s1.
        obind (cleanup_threads [0..<length (threads s1)] s1) (\<lambda>s2.
        obind (scan_slots (\<lambda>m. False) (unat (mutex_count s2)) (mutexes s2) 0) (\<lambda>none.
        obind (cleanup_thread_pools [0..<unat (thread_pool_count s2)] s2) (\<lambda>s3.
        obind (unlock_global s3) (\<lambda>s4.
          Ret (0, s4\<lparr>threads := [], mutexes := [], thread_pools := [], global_mutex := Mutex_dead,
                     comm_initialized := False\<rparr>)))))))"

section \<open>Messages\<close>

text \<open>Storing the queue back into slot \<open>k\<close>.\<close>

definition put_queue :: "nat \<Rightarrow> priority_msg_queue \<Rightarrow> comm \<Rightarrow> comm" where
  "put_queue k q s = s\<lparr>threads := (threads s)[k := (threads s ! k)\<lparr>msg_queue := Some q\<rparr>]\<rparr>"

text \<open>\<open>data\<close> holds exactly the \<open>data_size\<close> bytes of the call; \<open>t1\<close> and \<open>t2\<close> are the two readings of the
  clock. The size is stored in 32 bits.\<close>

definition make_message ::
  "32 word \<Rightarrow> 32 word \<Rightarrow> 8 word list \<Rightarrow> thread_msg_type \<Rightarrow> thread_priority \<Rightarrow> 64 word \<Rightarrow> 64 word \<Rightarrow> thread_msg" where
  "make_message sender receiver data type pri t1 t2 =
     \<lparr>msg_id = ucast t1, msg_type = type, priority = pri, msg_timestamp = t2, sender_id = sender,
      receiver_id = receiver, data_size = of_nat (length data), msg_data = Some data, msg_flags = 0\<rparr>"

definition thread_comm_send_message ::
  "32 word \<Rightarrow> 32 word \<Rightarrow> 8 word list option \<Rightarrow> thread_msg_type \<Rightarrow> thread_priority \<Rightarrow> 64 word \<Rightarrow> 64 word
   \<Rightarrow> comm \<Rightarrow> (int \<times> comm) outcome" where
  "thread_comm_send_message sender receiver data type pri t1 t2 s = (case data of
     None \<Rightarrow> Ret (-1, s\<lparr>last_error := ERROR_INVALID_PARAM\<rparr>)
   | Some bs \<Rightarrow>
     if \<not> comm_initialized s \<or> bs = [] then Ret (-1, s\<lparr>last_error := ERROR_INVALID_PARAM\<rparr>)
     else if length bs > max_msg_size (comm_config s) then Ret (-1, s\<lparr>last_error := ERROR_MESSAGE_TOO_LARGE\<rparr>)
     else obind (lock_global s) (\<lambda>s1. case find_thread_by_id receiver s1 of
         None \<Rightarrow> leave (-1) ERROR_THREAD_NOT_FOUND s1
       | Some k \<Rightarrow> (case comm_answer s1 of (ok, s2) \<Rightarrow>
           if \<not> ok then leave (-1) ERROR_MEMORY_ALLOCATION s2
           else obind (enqueue_message (msg_queue (threads s2 ! k))
               (make_message sender receiver bs type pri t1 t2) s2)
             (\<lambda>(r, q, s3). let s4 = put_queue k q s3 in
               if r = 0
               then leave 0 ERROR_NONE
                 (s4\<lparr>threads := (threads s4)[k := (threads s4 ! k)
                       \<lparr>message_count := message_count (threads s4 ! k) + 1\<rparr>],
                     comm_stats := (comm_stats s4)\<lparr>messages_sent := messages_sent (comm_stats s4) + 1,
                       bytes_sent := bytes_sent (comm_stats s4) + of_nat (length bs)\<rparr>\<rparr>)
               else leave r ERROR_QUEUE_FULL s4))))"

definition thread_comm_send_message_async ::
  "32 word \<Rightarrow> 32 word \<Rightarrow> 8 word list option \<Rightarrow> thread_msg_type \<Rightarrow> thread_priority \<Rightarrow> 64 word \<Rightarrow> 64 word
   \<Rightarrow> comm \<Rightarrow> (int \<times> comm) outcome" where
  "thread_comm_send_message_async sender receiver data type pri t1 t2 s =
     thread_comm_send_message sender receiver data type pri t1 t2 s"

text \<open>The loop of broadcast; the global mutex is held.\<close>

fun broadcast_loop ::
  "nat list \<Rightarrow> 32 word \<Rightarrow> 8 word list option \<Rightarrow> thread_msg_type \<Rightarrow> thread_priority \<Rightarrow> 64 word \<Rightarrow> 64 word
   \<Rightarrow> int \<Rightarrow> comm \<Rightarrow> (int \<times> comm) outcome" where
  "broadcast_loop [] sender data type pri t1 t2 n s = Ret (n, s)"
| "broadcast_loop (k # ks) sender data type pri t1 t2 n s =
     (if is_registered (threads s ! k) \<and> thread_id (threads s ! k) \<noteq> sender
      then obind (thread_comm_send_message sender (thread_id (threads s ! k)) data type pri t1 t2 s)
        (\<lambda>(r, s1). broadcast_loop ks sender data type pri t1 t2 (if r = 0 then n + 1 else n) s1)
      else broadcast_loop ks sender data type pri t1 t2 n s)"

definition thread_comm_broadcast_message ::
  "32 word \<Rightarrow> 8 word list option \<Rightarrow> thread_msg_type \<Rightarrow> thread_priority \<Rightarrow> 64 word \<Rightarrow> 64 word
   \<Rightarrow> comm \<Rightarrow> (int \<times> comm) outcome" where
  "thread_comm_broadcast_message sender data type pri t1 t2 s =
     (if \<not> comm_initialized s then Ret (-1, s\<lparr>last_error := ERROR_NOT_INITIALIZED\<rparr>)
      else obind (lock_global s) (\<lambda>s1.
        obind (broadcast_loop [0..<length (threads s1)] sender data type pri t1 t2 0 s1) (\<lambda>(n, s2).
          leave n ERROR_NONE s2)))"

datatype receive_result = Received int "thread_msg option" comm | Receive_waits nat comm

text \<open>
  One round of the receive loop on slot \<open>k\<close>, with the global mutex held: it returns a message,
  gives up when the timeout has passed, or waits on the condition variable, which releases the
  mutex. The wait has no timeout of its own; the next round runs when the queue is signalled.
\<close>

definition receive_round :: "nat \<Rightarrow> int \<Rightarrow> 64 word \<Rightarrow> 64 word \<Rightarrow> comm \<Rightarrow> receive_result outcome" where
  "receive_round k timeout start now s =
     obind (dequeue_message (msg_queue (threads s ! k)) s) (\<lambda>(mo, q, s1).
       let s2 = put_queue k q s1 in
       case mo of
         Some m \<Rightarrow>
           obind (leave 0 ERROR_NONE
             (s2\<lparr>comm_stats := (comm_stats s2)\<lparr>messages_received := messages_received (comm_stats s2) + 1,
                 bytes_received := bytes_received (comm_stats s2) + ucast (data_size m)\<rparr>\<rparr>))
             (\<lambda>(r, s3). Ret (Received r (Some m) s3))
       | None \<Rightarrow>
           if timeout > 0 \<and> now - start \<ge> of_int timeout
           then obind (leave (-1) ERROR_TIMEOUT s2) (\<lambda>(r, s3). Ret (Received r None s3))
           else obind (unlock_global s2) (\<lambda>s3. Ret (Receive_waits k s3)))"

text \<open>The call up to its first wait.\<close>

definition thread_comm_receive_message ::
  "32 word \<Rightarrow> bool \<Rightarrow> int \<Rightarrow> 64 word \<Rightarrow> 64 word \<Rightarrow> comm \<Rightarrow> receive_result outcome" where
  "thread_comm_receive_message receiver message timeout start now s =
     (if \<not> comm_initialized s \<or> \<not> message then Ret (Received (-1) None (s\<lparr>last_error := ERROR_INVALID_PARAM\<rparr>))
      else obind (lock_global s) (\<lambda>s1. case find_thread_by_id receiver s1 of
        None \<Rightarrow> obind (leave (-1) ERROR_THREAD_NOT_FOUND s1) (\<lambda>(r, s2). Ret (Received r None s2))
      | Some k \<Rightarrow> receive_round k timeout start now s1))"

text \<open>What a woken receiver does: it has the global mutex again and goes round the loop.\<close>

definition receive_resume :: "nat \<Rightarrow> int \<Rightarrow> 64 word \<Rightarrow> 64 word \<Rightarrow> comm \<Rightarrow> receive_result outcome" where
  "receive_resume k timeout start now s = obind (lock_global s) (receive_round k timeout start now)"

definition thread_comm_receive_message_async ::
  "32 word \<Rightarrow> bool \<Rightarrow> 64 word \<Rightarrow> 64 word \<Rightarrow> comm \<Rightarrow> receive_result outcome" where
  "thread_comm_receive_message_async receiver message start now s =
     thread_comm_receive_message receiver message 0 start now s"

text \<open>The queue functions below do not lock the global mutex.\<close>

definition thread_comm_poll_messages :: "32 word \<Rightarrow> comm \<Rightarrow> int \<times> comm" where
  "thread_comm_poll_messages receiver s =
     (if \<not> comm_initialized s then (-1, s\<lparr>last_error := ERROR_NOT_INITIALIZED\<rparr>)
      else case find_thread_by_id receiver s of
        None \<Rightarrow> (-1, s\<lparr>last_error := ERROR_THREAD_NOT_FOUND\<rparr>)
      | Some k \<Rightarrow> (case msg_queue (threads s ! k) of
          Some q \<Rightarrow> if q_size q > 0 then (int (q_size q), s) else (0, s)
        | None \<Rightarrow> (0, s)))"

definition thread_comm_create_message_queue :: "32 word \<Rightarrow> nat \<Rightarrow> comm \<Rightarrow> int \<times> comm" where
  "thread_comm_create_message_queue i n s =
     (if \<not> comm_initialized s then (-1, s\<lparr>last_error := ERROR_NOT_INITIALIZED\<rparr>)
      else case find_thread_by_id i s of
        None \<Rightarrow> (-1, s\<lparr>last_error := ERROR_THREAD_NOT_FOUND\<rparr>)
      | Some k \<Rightarrow> create_message_queue k n (destroy_message_queue k s))"

definition thread_comm_destroy_message_queue :: "32 word \<Rightarrow> comm \<Rightarrow> int \<times> comm" where
  "thread_comm_destroy_message_queue i s =
     (if \<not> comm_initialized s then (-1, s\<lparr>last_error := ERROR_NOT_INITIALIZED\<rparr>)
      else case find_thread_by_id i s of
        None \<Rightarrow> (-1, s\<lparr>last_error := ERROR_THREAD_NOT_FOUND\<rparr>)
      | Some k \<Rightarrow> (0, (destroy_message_queue k s)\<lparr>last_error := ERROR_NONE\<rparr>))"

definition thread_comm_get_queue_size :: "32 word \<Rightarrow> bool \<Rightarrow> comm \<Rightarrow> int \<times> nat option \<times> comm" where
  "thread_comm_get_queue_size i out s =
     (if \<not> comm_initialized s \<or> \<not> out then (-1, None, s\<lparr>last_error := ERROR_INVALID_PARAM\<rparr>)
      else case find_thread_by_id i s of
        None \<Rightarrow> (-1, None, s\<lparr>last_error := ERROR_THREAD_NOT_FOUND\<rparr>)
      | Some k \<Rightarrow> (0, Some (case msg_queue (threads s ! k) of Some q \<Rightarrow> q_size q | None \<Rightarrow> 0),
                   s\<lparr>last_error := ERROR_NONE\<rparr>))"

text \<open>The loop that drains a queue: one message per round, so \<open>size\<close> rounds are enough.\<close>

fun clear_loop :: "nat \<Rightarrow> nat \<Rightarrow> comm \<Rightarrow> comm outcome" where
  "clear_loop 0 k s = Ret s"
| "clear_loop (Suc n) k s =
     obind (dequeue_message (msg_queue (threads s ! k)) s) (\<lambda>(mo, q, s1). clear_loop n k (put_queue k q s1))"

definition thread_comm_clear_message_queue :: "32 word \<Rightarrow> comm \<Rightarrow> (int \<times> comm) outcome" where
  "thread_comm_clear_message_queue i s =
     (if \<not> comm_initialized s then Ret (-1, s\<lparr>last_error := ERROR_NOT_INITIALIZED\<rparr>)
      else case find_thread_by_id i s of
        None \<Rightarrow> Ret (-1, s\<lparr>last_error := ERROR_THREAD_NOT_FOUND\<rparr>)
      | Some k \<Rightarrow> (case msg_queue (threads s ! k) of
          None \<Rightarrow> Ret (0, s\<lparr>last_error := ERROR_NONE\<rparr>)
        | Some q \<Rightarrow> obind (clear_loop (q_size q) k s) (\<lambda>s1. Ret (0, s1\<lparr>last_error := ERROR_NONE\<rparr>))))"

definition thread_comm_set_message_callback :: "32 word \<Rightarrow> nat option \<Rightarrow> nat \<Rightarrow> comm \<Rightarrow> int \<times> comm" where
  "thread_comm_set_message_callback i cb data s =
     (if \<not> comm_initialized s then (-1, s\<lparr>last_error := ERROR_NOT_INITIALIZED\<rparr>)
      else case find_thread_by_id i s of
        None \<Rightarrow> (-1, s\<lparr>last_error := ERROR_THREAD_NOT_FOUND\<rparr>)
      | Some k \<Rightarrow> (0, s\<lparr>threads := (threads s)[k := (threads s ! k)\<lparr>callback := cb, callback_user_data := data\<rparr>],
                       last_error := ERROR_NONE\<rparr>))"

definition thread_comm_remove_message_callback :: "32 word \<Rightarrow> comm \<Rightarrow> int \<times> comm" where
  "thread_comm_remove_message_callback i s =
     (if \<not> comm_initialized s then (-1, s\<lparr>last_error := ERROR_NOT_INITIALIZED\<rparr>)
      else case find_thread_by_id i s of
        None \<Rightarrow> (-1, s\<lparr>last_error := ERROR_THREAD_NOT_FOUND\<rparr>)
      | Some k \<Rightarrow> (0, s\<lparr>threads := (threads s)[k := (threads s ! k)\<lparr>callback := None, callback_user_data := 0\<rparr>],
                       last_error := ERROR_NONE\<rparr>))"

section \<open>Named mutexes\<close>

definition thread_comm_create_mutex :: "string option \<Rightarrow> comm \<Rightarrow> (int \<times> comm) outcome" where
  "thread_comm_create_mutex name s = (case name of
     None \<Rightarrow> Ret (-1, s\<lparr>last_error := ERROR_INVALID_PARAM\<rparr>)
   | Some nm \<Rightarrow>
     if \<not> comm_initialized s then Ret (-1, s\<lparr>last_error := ERROR_INVALID_PARAM\<rparr>)
     else obind (lock_global s) (\<lambda>s1. case find_idx (\<lambda>m. \<not> mutex_initialized m) (mutexes s1) of
         None \<Rightarrow> leave (-1) ERROR_MEMORY_ALLOCATION s1
       | Some k \<Rightarrow> (case comm_answer (s1\<lparr>mutexes := (mutexes s1)[k := (mutexes s1 ! k)\<lparr>mutex_name := take 63 nm\<rparr>]\<rparr>) of
           (ok, s2) \<Rightarrow>
             if \<not> ok then leave (-1) ERROR_MEMORY_ALLOCATION s2
             else leave 0 ERROR_NONE
               (s2\<lparr>mutexes := (mutexes s2)[k := (mutexes s2 ! k)\<lparr>named_lock := Mutex_free, mutex_initialized := True\<rparr>],
                   mutex_count := mutex_count s2 + 1\<rparr>))))"

text \<open>The search of lock and unlock runs over the first \<open>mutex_count\<close> slots, that of destroy over
  all of them.\<close>

definition find_mutex :: "string \<Rightarrow> comm \<Rightarrow> nat option outcome" where
  "find_mutex nm s =
     scan_slots (\<lambda>m. mutex_initialized m \<and> mutex_name m = nm) (unat (mutex_count s)) (mutexes s) 0"

text \<open>The loop with a timeout polls: each poll finds the lock free or taken by another thread and, when
  it cannot be locked, reads the clock; a lock that the caller itself holds is never free. Some True: locked; Some False: timed out; None: the polls given did not end it.\<close>

fun trylock_loop :: "uv_mutex \<Rightarrow> 64 word \<Rightarrow> int \<Rightarrow> (bool \<times> 64 word) list \<Rightarrow> bool option" where
  "trylock_loop m start timeout [] = None"
| "trylock_loop m start timeout ((free, now) # polls) =
     (if free \<and> m = Mutex_free then Some True
      else if now - start \<ge> of_int timeout then Some False
      else trylock_loop m start timeout polls)"

text \<open>None: the call does not return within the polls given. A blocking lock returns when the mutex
  is free; the calling thread blocks for good on one that it holds itself.\<close>

definition thread_comm_lock_mutex ::
  "string option \<Rightarrow> int \<Rightarrow> 64 word \<Rightarrow> (bool \<times> 64 word) list \<Rightarrow> comm \<Rightarrow> (int \<times> comm) outcome option" where
  "thread_comm_lock_mutex name timeout start polls s = (case name of
     None \<Rightarrow> Some (Ret (-1, s\<lparr>last_error := ERROR_INVALID_PARAM\<rparr>))
   | Some nm \<Rightarrow>
     if \<not> comm_initialized s then Some (Ret (-1, s\<lparr>last_error := ERROR_INVALID_PARAM\<rparr>))
     else (case lock_global s of
       Fault e \<Rightarrow> Some (Fault e)
     | Ret s1 \<Rightarrow> (case find_mutex nm s1 of
         Fault e \<Rightarrow> Some (Fault e)
       | Ret None \<Rightarrow> Some (leave (-1) ERROR_THREAD_NOT_FOUND s1)
       | Ret (Some k) \<Rightarrow> (case unlock_global s1 of
           Fault e \<Rightarrow> Some (Fault e)
         | Ret s2 \<Rightarrow>
             let locked = s2\<lparr>mutexes := (mutexes s2)[k := (mutexes s2 ! k)\<lparr>named_lock := Mutex_held\<rparr>],
                             last_error := ERROR_NONE\<rparr> in
             if timeout > 0
             then (case trylock_loop (named_lock (mutexes s2 ! k)) start timeout polls of
                 None \<Rightarrow> None
               | Some True \<Rightarrow> Some (Ret (0, locked))
               | Some False \<Rightarrow> Some (Ret (-1, s2\<lparr>last_error := ERROR_TIMEOUT\<rparr>)))
             else (case uv_mutex_lock (named_lock (mutexes s2 ! k)) of
                 Fault e \<Rightarrow> Some (Fault e)
               | Ret m \<Rightarrow> Some (Ret (0, locked)))))))"

definition thread_comm_unlock_mutex :: "string option \<Rightarrow> comm \<Rightarrow> (int \<times> comm) outcome" where
  "thread_comm_unlock_mutex name s = (case name of
     None \<Rightarrow> Ret (-1, s\<lparr>last_error := ERROR_INVALID_PARAM\<rparr>)
   | Some nm \<Rightarrow>
     if \<not> comm_initialized s then Ret (-1, s\<lparr>last_error := ERROR_INVALID_PARAM\<rparr>)
     else obind (lock_global s) (\<lambda>s1. obind (find_mutex nm s1) (\<lambda>r. case r of
         None \<Rightarrow> leave (-1) ERROR_THREAD_NOT_FOUND s1
       | Some k \<Rightarrow> obind (unlock_global s1) (\<lambda>s2.
           obind (uv_mutex_unlock (named_lock (mutexes s2 ! k))) (\<lambda>m.
             Ret (0, s2\<lparr>mutexes := (mutexes s2)[k := (mutexes s2 ! k)\<lparr>named_lock := m\<rparr>],
                        last_error := ERROR_NONE\<rparr>))))))"

definition thread_comm_destroy_mutex :: "string option \<Rightarrow> comm \<Rightarrow> (int \<times> comm) outcome" where
  "thread_comm_destroy_mutex name s = (case name of
     None \<Rightarrow> Ret (-1, s\<lparr>last_error := ERROR_INVALID_PARAM\<rparr>)
   | Some nm \<Rightarrow>
     if \<not> comm_initialized s then Ret (-1, s\<lparr>last_error := ERROR_INVALID_PARAM\<rparr>)
     else obind (lock_global s) (\<lambda>s1.
       case find_idx (\<lambda>m. mutex_initialized m \<and> mutex_name m = nm) (mutexes s1) of
         None \<Rightarrow> leave (-1) ERROR_THREAD_NOT_FOUND s1
       | Some k \<Rightarrow> leave 0 ERROR_NONE
           (s1\<lparr>mutexes := (mutexes s1)[k := (mutexes s1 ! k)\<lparr>named_lock := Mutex_dead, mutex_initialized := False\<rparr>],
               mutex_count := mutex_count s1 - 1\<rparr>)))"

section \<open>Information, statistics, errors\<close>

definition thread_comm_get_statistics :: "bool \<Rightarrow> comm \<Rightarrow> (int \<times> thread_comm_stats option \<times> comm) outcome" where
  "thread_comm_get_statistics out s =
     (if \<not> comm_initialized s \<or> \<not> out then Ret (-1, None, s\<lparr>last_error := ERROR_INVALID_PARAM\<rparr>)
      else obind (lock_global s) (\<lambda>s1. obind (leave 0 ERROR_NONE s1) (\<lambda>(r, s2).
        Ret (r, Some (comm_stats s1), s2))))"

definition thread_comm_reset_statistics :: "comm \<Rightarrow> (int \<times> comm) outcome" where
  "thread_comm_reset_statistics s =
     (if \<not> comm_initialized s then Ret (-1, s\<lparr>last_error := ERROR_NOT_INITIALIZED\<rparr>)
      else obind (lock_global s) (\<lambda>s1. leave 0 ERROR_NONE (s1\<lparr>comm_stats := zero_stats\<rparr>)))"

definition thread_comm_is_thread_registered :: "32 word \<Rightarrow> comm \<Rightarrow> (bool \<times> comm) outcome" where
  "thread_comm_is_thread_registered i s =
     (if \<not> comm_initialized s then Ret (False, s)
      else obind (lock_global s) (\<lambda>s1. obind (unlock_global s1) (\<lambda>s2.
        Ret (find_thread_by_id i s1 \<noteq> None, s2))))"

definition thread_comm_get_current_thread_id :: "nat \<Rightarrow> comm \<Rightarrow> (32 word \<times> comm) outcome" where
  "thread_comm_get_current_thread_id self s =
     (if \<not> comm_initialized s then Ret (0, s)
      else obind (lock_global s) (\<lambda>s1. obind (unlock_global s1) (\<lambda>s2.
        Ret (case find_thread_by_pthread_id self s1 of
               Some k \<Rightarrow> thread_id (threads s1 ! k) | None \<Rightarrow> 0, s2))))"

definition thread_comm_is_initialized :: "comm \<Rightarrow> bool" where
  "thread_comm_is_initialized s = comm_initialized s"

text \<open>The public information of a thread: the slot without its queue and callback.\<close>

record thread_info =
  info_thread_id :: "32 word"
  info_pthread_id :: nat
  info_name :: string
  info_state :: thread_run_state
  info_create_time :: "64 word"
  info_cpu_time :: "64 word"
  info_message_count :: "32 word"
  info_user_data :: nat

definition thread_comm_get_thread_info :: "32 word \<Rightarrow> bool \<Rightarrow> comm \<Rightarrow> (int \<times> thread_info option \<times> comm) outcome" where
  "thread_comm_get_thread_info i out s =
     (if \<not> comm_initialized s \<or> \<not> out then Ret (-1, None, s\<lparr>last_error := ERROR_INVALID_PARAM\<rparr>)
      else obind (lock_global s) (\<lambda>s1. case find_thread_by_id i s1 of
        None \<Rightarrow> obind (leave (-1) ERROR_THREAD_NOT_FOUND s1) (\<lambda>(r, s2). Ret (r, None, s2))
      | Some k \<Rightarrow> let t = threads s1 ! k in
          obind (leave 0 ERROR_NONE s1) (\<lambda>(r, s2). Ret (r, Some
            \<lparr>info_thread_id = thread_id t, info_pthread_id = pthread_id t,
             info_name = take 63 (thread_name t), info_state = thread_state t,
             info_create_time = create_time t, info_cpu_time = cpu_time t,
             info_message_count = message_count t, info_user_data = user_data t\<rparr>, s2))))"

text \<open>The loop that fills the array of informations; \<open>n\<close> entries are left. The global mutex is held.\<close>

fun all_threads_loop :: "nat list \<Rightarrow> nat \<Rightarrow> comm \<Rightarrow> (thread_info option list \<times> comm) outcome" where
  "all_threads_loop [] n s = Ret ([], s)"
| "all_threads_loop (k # ks) n s =
     (if n = 0 then Ret ([], s)
      else if is_registered (threads s ! k)
      then obind (thread_comm_get_thread_info (thread_id (threads s ! k)) True s) (\<lambda>(r, info, s1).
        obind (all_threads_loop ks (n - 1) s1) (\<lambda>(infos, s2). Ret (info # infos, s2)))
      else all_threads_loop ks n s)"

text \<open>The results written through the two pointers: the count, and the array or NULL.\<close>

definition thread_comm_get_all_threads ::
  "bool \<Rightarrow> bool \<Rightarrow> comm \<Rightarrow> (int \<times> 32 word option \<times> thread_info option list option \<times> comm) outcome" where
  "thread_comm_get_all_threads out cnt s =
     (if \<not> comm_initialized s \<or> \<not> out \<or> \<not> cnt then Ret (-1, None, None, s\<lparr>last_error := ERROR_INVALID_PARAM\<rparr>)
      else obind (lock_global s) (\<lambda>s1.
        if active_thread_count s1 = 0
        then obind (leave 0 ERROR_NONE s1) (\<lambda>(r, s2). Ret (r, Some 0, None, s2))
        else case comm_answer s1 of (ok, s2) \<Rightarrow>
          if \<not> ok then obind (leave (-1) ERROR_MEMORY_ALLOCATION s2) (\<lambda>(r, s3). Ret (r, Some (active_thread_count s1), None, s3))
          else obind (all_threads_loop [0..<length (threads s2)] (unat (active_thread_count s2)) s2)
            (\<lambda>(infos, s3). obind (leave 0 ERROR_NONE s3) (\<lambda>(r, s4).
              Ret (r, Some (active_thread_count s1), Some infos, s4)))))"

definition thread_comm_enable_monitoring :: "bool \<Rightarrow> comm \<Rightarrow> int \<times> comm" where
  "thread_comm_enable_monitoring enable s =
     (if \<not> comm_initialized s then (-1, s\<lparr>last_error := ERROR_NOT_INITIALIZED\<rparr>)
      else (0, s\<lparr>last_error := ERROR_NONE\<rparr>))"

definition thread_comm_get_thread_count :: "comm \<Rightarrow> int" where
  "thread_comm_get_thread_count s = (if \<not> comm_initialized s then -1 else sint (active_thread_count s))"

definition thread_comm_get_last_error :: "comm \<Rightarrow> thread_comm_error" where
  "thread_comm_get_last_error s = last_error s"

definition thread_comm_clear_error :: "comm \<Rightarrow> comm" where
  "thread_comm_clear_error s = s\<lparr>last_error := ERROR_NONE\<rparr>"

fun thread_comm_error_string :: "thread_comm_error \<Rightarrow> string" where
  "thread_comm_error_string ERROR_NONE = ''No error''"
| "thread_comm_error_string ERROR_INVALID_PARAM = ''Invalid parameter''"
| "thread_comm_error_string ERROR_MEMORY_ALLOCATION = ''Memory allocation failed''"
| "thread_comm_error_string ERROR_QUEUE_FULL = ''Queue full''"
| "thread_comm_error_string ERROR_QUEUE_EMPTY = ''Queue empty''"
| "thread_comm_error_string ERROR_TIMEOUT = ''Timeout''"
| "thread_comm_error_string ERROR_THREAD_NOT_FOUND = ''Thread not found''"
| "thread_comm_error_string ERROR_MESSAGE_TOO_LARGE = ''Message too large''"
| "thread_comm_error_string ERROR_INVALID_MESSAGE = ''Invalid message''"
| "thread_comm_error_string ERROR_ALREADY_INITIALIZED = ''Already initialized''"
| "thread_comm_error_string ERROR_NOT_INITIALIZED = ''Not initialized''"
| "thread_comm_error_string ERROR_UNKNOWN = ''Unknown error''"

text \<open>
  The functions of five families do nothing: each ignores its arguments, clears the last error
  and returns success, also before the module is initialised. One datatype per family names
  its functions.
\<close>

definition succeed :: "comm \<Rightarrow> int \<times> comm" where
  "succeed s = (0, s\<lparr>last_error := ERROR_NONE\<rparr>)"

datatype pool_call = Create_thread_pool | Submit_task | Wait_task_completion

datatype event_pipe_call =
    Create_event | Set_event | Reset_event | Wait_event | Destroy_event
  | Create_pipe | Write_pipe | Read_pipe | Destroy_pipe

datatype buffer_condition_call =
    Create_shared_buffer | Map_shared_buffer | Unmap_shared_buffer | Destroy_shared_buffer
  | Create_condition | Wait_condition | Signal_condition | Broadcast_condition | Destroy_condition

datatype tuning_call =
    Schedule_task | Cancel_scheduled_task | Get_performance_metrics | Enable_debug_logging
  | Set_log_level | Log_message | Set_memory_pool_size | Get_memory_usage
  | Set_thread_affinity | Set_thread_priority | Enable_lock_free_queues

datatype semaphore_call = Create_semaphore | Wait_semaphore | Signal_semaphore | Destroy_semaphore

definition thread_comm_pool_call :: "pool_call \<Rightarrow> comm \<Rightarrow> int \<times> comm" where
  "thread_comm_pool_call f s = succeed s"

definition thread_comm_event_pipe_call :: "event_pipe_call \<Rightarrow> comm \<Rightarrow> int \<times> comm" where
  "thread_comm_event_pipe_call f s = succeed s"

definition thread_comm_buffer_condition_call :: "buffer_condition_call \<Rightarrow> comm \<Rightarrow> int \<times> comm" where
  "thread_comm_buffer_condition_call f s = succeed s"

definition thread_comm_tuning_call :: "tuning_call \<Rightarrow> comm \<Rightarrow> int \<times> comm" where
  "thread_comm_tuning_call f s = succeed s"

definition thread_comm_semaphore_call :: "semaphore_call \<Rightarrow> comm \<Rightarrow> int \<times> comm" where
  "thread_comm_semaphore_call f s = succeed s"

section \<open>The priority queue\<close>

definition queue_ok :: "priority_msg_queue \<Rightarrow> bool" where
  "queue_ok q \<longleftrightarrow> q_size q = length (msgs q) \<and> sorted_wrt (\<lambda>x y. priority y \<le> priority x) (msgs q)"

definition pq_enq :: "priority_msg_queue \<Rightarrow> thread_msg \<Rightarrow> priority_msg_queue option" where
  "pq_enq q m = (if q_size q \<ge> q_max_size q then None else Some (link_message m q))"

definition pq_deq :: "priority_msg_queue \<Rightarrow> (thread_msg \<times> priority_msg_queue) option" where
  "pq_deq q = (if q_size q = 0 then None else case msgs q of
     [] \<Rightarrow> None | m # ms \<Rightarrow> Some (m, q\<lparr>msgs := ms, q_size := q_size q - 1\<rparr>))"

lemma mset_insert_by_priority [simp]: "mset (insert_by_priority m xs) = add_mset m (mset xs)"
  by (induction xs) auto

lemma length_insert_by_priority [simp]: "length (insert_by_priority m xs) = Suc (length xs)"
  by (induction xs) auto

lemma set_insert_by_priority [simp]: "set (insert_by_priority m xs) = insert m (set xs)"
  by (induction xs) auto

lemma sorted_insert_by_priority:
  "sorted_wrt (\<lambda>x y. priority y \<le> priority x) xs \<Longrightarrow>
   sorted_wrt (\<lambda>x y. priority y \<le> priority x) (insert_by_priority m xs)"
  by (induction xs) auto

lemma filter_insert_by_priority:
  "sorted_wrt (\<lambda>x y. priority y \<le> priority x) xs \<Longrightarrow>
   filter (\<lambda>y. priority y = p) (insert_by_priority m xs)
     = filter (\<lambda>y. priority y = p) xs @ (if priority m = p then [m] else [])"
proof (induction xs)
  case (Cons x xs)
  show ?case
  proof (cases "priority x \<ge> priority m")
    case False
    with Cons.prems have "\<forall>y \<in> set (x # xs). priority y < priority m" by auto
    then have "priority m = p \<Longrightarrow> filter (\<lambda>y. priority y = p) (x # xs) = []"
      by (auto simp: filter_empty_conv)
    with False show ?thesis by auto
  qed (use Cons in auto)
qed simp

interpretation message_queue: priority_queue pq_enq pq_deq msgs q_max_size queue_ok priority
proof
  fix q x q' p
  assume ok: "queue_ok q"
  show "pq_enq q x = None \<longleftrightarrow> q_max_size q \<le> length (msgs q)" using ok by (auto simp: pq_enq_def queue_ok_def)
  show "pq_deq q = None \<longleftrightarrow> msgs q = []" using ok by (auto simp: pq_deq_def queue_ok_def split: list.splits)
  show "sorted_wrt (\<lambda>x y. priority y \<le> priority x) (msgs q)" using ok by (simp add: queue_ok_def)
  {
    assume "pq_enq q x = Some q'"
    then have q': "q' = link_message x q" by (auto simp: pq_enq_def split: if_splits)
    with ok show "mset (msgs q') = add_mset x (mset (msgs q))" "q_max_size q' = q_max_size q"
      "queue_ok q'"
      "filter (\<lambda>y. priority y = p) (msgs q')
        = filter (\<lambda>y. priority y = p) (msgs q) @ (if priority x = p then [x] else [])"
      by (auto simp: link_message_def queue_ok_def sorted_insert_by_priority filter_insert_by_priority)
  }
  {
    assume "pq_deq q = Some (x, q')"
    then obtain ms where "msgs q = x # ms" "q' = q\<lparr>msgs := ms, q_size := q_size q - 1\<rparr>"
      by (auto simp: pq_deq_def split: if_splits list.splits)
    with ok show "msgs q = x # msgs q'" "q_max_size q' = q_max_size q" "queue_ok q'"
      by (auto simp: queue_ok_def)
  }
qed

text \<open>The queue operations of the module are those of the interface.\<close>

lemma answers_used_up [simp]:
  assumes "comm_answers s = []"
  shows "comm_answer s = (True, s)" "comm_answers_all n s = (True, s)"
    "comm_answers_group n s = (True, s)" "comm_allocs ns s = (True, s)"
proof -
  have [simp]: "s\<lparr>comm_answers := []\<rparr> = s" using assms by simp
  show a [simp]: "comm_answer s = (True, s)" using assms by (simp add: comm_answer_def)
  show "comm_answers_all n s = (True, s)" by (induction n) simp_all
  have g [simp]: "comm_answers_group k s = (True, s)" for k by (induction k) simp_all
  show "comm_answers_group n s = (True, s)" by simp
  show "comm_allocs ns s = (True, s)" by (induction ns) simp_all
qed

lemma enqueue_message_pq:
  assumes "comm_answers s = []"
  shows "enqueue_message (Some q) m s = Ret (case pq_enq q (copy_message m) of
    None \<Rightarrow> (-1, q, s) | Some q' \<Rightarrow> (0, q', s))"
  using assms by (simp add: enqueue_message_def pq_enq_def)

lemma dequeue_message_pq:
  assumes "comm_answers s = []" and "queue_ok q"
  shows "dequeue_message (Some q) s = Ret (case pq_deq q of
    None \<Rightarrow> (None, q, s) | Some (m, q') \<Rightarrow> (Some m, q', s))"
  using assms by (auto simp: dequeue_message_def pq_deq_def queue_ok_def split: list.splits)

section \<open>The thread table\<close>

definition ids :: "internal_thread_info list \<Rightarrow> 32 word list" where
  "ids ts = map thread_id (filter is_registered ts)"

definition slot_ok :: "32 word \<Rightarrow> internal_thread_info \<Rightarrow> bool" where
  "slot_ok c t \<longleftrightarrow> (is_registered t \<longrightarrow> unat (thread_id t) \<le> unat c \<and>
     (\<exists>q. msg_queue t = Some q \<and> queue_ok q \<and> length (msgs q) \<le> q_max_size q))"

definition table_ok :: "internal_thread_info list \<Rightarrow> 32 word \<Rightarrow> 32 word \<Rightarrow> bool" where
  "table_ok ts c n \<longleftrightarrow> (\<forall>t \<in> set ts. slot_ok c t) \<and> distinct (ids ts) \<and> n = of_nat (length (ids ts))"

text \<open>Between calls: the module is initialised, the global mutex is free, no allocation fails, the
  identifiers of the registered threads are distinct and were issued by the counter, every
  registered thread has a well-formed queue within its bound, and the count of active threads
  is the number of registered slots.\<close>

definition comm_ok :: "comm \<Rightarrow> bool" where
  "comm_ok s \<longleftrightarrow> comm_initialized s \<and> global_mutex s = Mutex_free \<and> comm_answers s = []
     \<and> table_ok (threads s) (id_counter s) (active_thread_count s)"

lemma ids_split:
  "k < length ts \<Longrightarrow> ids ts = ids (take k ts) @ ids [ts ! k] @ ids (drop (Suc k) ts)"
  using arg_cong [OF id_take_nth_drop [of k ts], of ids] by (simp add: ids_def)

lemma ids_update:
  "k < length ts \<Longrightarrow> ids (ts[k := t]) = ids (take k ts) @ ids [t] @ ids (drop (Suc k) ts)"
  by (simp add: ids_def upd_conv_take_nth_drop)

lemma ids_update_same:
  assumes "k < length ts" and "ids [t] = ids [ts ! k]"
  shows "ids (ts[k := t]) = ids ts"
  by (simp only: ids_update [OF assms(1)] ids_split [OF assms(1)] assms(2))

lemma set_ids: "set (ids ts) = thread_id ` {t \<in> set ts. is_registered t}"
  by (auto simp: ids_def)

lemma table_ok_slot:
  assumes "table_ok ts c n" and "k < length ts" and "ids [t] = ids [ts ! k]" and "slot_ok c t"
  shows "table_ok (ts[k := t]) c n"
  unfolding table_ok_def ids_update_same [OF assms(2,3)]
  using assms set_update_subset_insert [of ts k t] by (auto simp: table_ok_def)

lemma table_ok_add:
  assumes "table_ok ts c n" and "k < length ts" and "\<not> is_registered (ts ! k)"
    and "is_registered t" and "thread_id t = c + 1" and "slot_ok (c + 1) t" and "unat c + 1 < 2 ^ 32"
  shows "table_ok (ts[k := t]) (c + 1) (n + 1)"
proof -
  have c1: "unat (c + 1) = unat c + 1" using assms(7) by (simp add: unat_word_ariths)
  have split: "ids ts = ids (take k ts) @ ids (drop (Suc k) ts)"
    "ids (ts[k := t]) = ids (take k ts) @ (c + 1) # ids (drop (Suc k) ts)"
    using ids_split [OF assms(2)] ids_update [OF assms(2), of t] assms(3,4,5) by (simp_all add: ids_def)
  have old: "x \<noteq> c + 1" if "x \<in> set (ids ts)" for x
  proof -
    have "unat x \<le> unat c" using that assms(1) by (auto simp: table_ok_def slot_ok_def set_ids)
    with c1 show ?thesis by auto
  qed
  have "distinct (ids (ts[k := t]))" using assms(1) old unfolding split by (auto simp: table_ok_def split)
  moreover have "\<forall>u \<in> set (ts[k := t]). slot_ok (c + 1) u"
    using assms(1,6) c1 by (auto simp: table_ok_def slot_ok_def dest!: set_update_subset_insert [THEN subsetD])
  moreover have "n + 1 = of_nat (length (ids (ts[k := t])))"
    using assms(1) split by (simp add: table_ok_def)
  ultimately show ?thesis by (simp add: table_ok_def)
qed

lemma table_ok_remove:
  assumes "table_ok ts c n" and "k < length ts" and "is_registered (ts ! k)"
  shows "table_ok (ts[k := zero_thread]) c (n - 1)"
proof -
  have split: "ids ts = ids (take k ts) @ thread_id (ts ! k) # ids (drop (Suc k) ts)"
    "ids (ts[k := zero_thread]) = ids (take k ts) @ ids (drop (Suc k) ts)"
    using ids_split [OF assms(2)] ids_update [OF assms(2), of zero_thread] assms(3)
    by (simp_all add: ids_def zero_thread_def)
  have "n - 1 = of_nat (length (ids (ts[k := zero_thread])))"
    using assms(1) split by (simp add: table_ok_def)
  then show ?thesis
    using assms(1) split
    by (auto simp: table_ok_def slot_ok_def zero_thread_def dest!: set_update_subset_insert [THEN subsetD])
qed

lemma find_thread_by_idD:
  assumes "find_thread_by_id i s = Some k"
  shows "k < length (threads s)" "is_registered (threads s ! k)" "thread_id (threads s ! k) = i"
  using assms by (auto simp: find_thread_by_id_def dest: find_idx_SomeD)

lemma find_thread_by_id_cong: "threads s' = threads s \<Longrightarrow> find_thread_by_id i s' = find_thread_by_id i s"
  by (simp add: find_thread_by_id_def)

lemma slot_queue:
  assumes "table_ok (threads s) c n" and "find_thread_by_id i s = Some k"
  obtains q where "msg_queue (threads s ! k) = Some q" "queue_ok q" "length (msgs q) \<le> q_max_size q"
proof -
  have "slot_ok c (threads s ! k)"
    using assms(1) nth_mem [OF find_thread_by_idD(1) [OF assms(2)]] by (simp add: table_ok_def)
  with find_thread_by_idD(2) [OF assms(2)] that show thesis by (auto simp: slot_ok_def)
qed

text \<open>Storing a well-formed queue back keeps the table well formed.\<close>

lemma table_ok_queue:
  assumes "table_ok (threads s) c n" and "find_thread_by_id i s = Some k"
    and "queue_ok q" and "length (msgs q) \<le> q_max_size q"
    and "ids [t] = ids [threads s ! k]" and "msg_queue t = Some q"
  shows "table_ok ((threads s)[k := t]) c n"
proof -
  note k = find_thread_by_idD [OF assms(2)]
  have "thread_id t = i" "is_registered t" using assms(5) k(2,3) by (auto simp: ids_def split: if_splits)
  moreover have "slot_ok c (threads s ! k)" using assms(1) k(1) by (simp add: table_ok_def)
  ultimately have "slot_ok c t" using assms(3,4,6) k(2,3) by (auto simp: slot_ok_def)
  with table_ok_slot [OF assms(1) k(1) assms(5)] show ?thesis .
qed

lemma lock_free [simp]: "global_mutex s = Mutex_free \<Longrightarrow> lock_global s = Ret (s\<lparr>global_mutex := Mutex_held\<rparr>)"
  by (simp add: lock_global_def)

lemma leave_held [simp]:
  "global_mutex s = Mutex_held \<Longrightarrow> leave r e s = Ret (r, s\<lparr>global_mutex := Mutex_free, last_error := e\<rparr>)"
  by (simp add: leave_def unlock_global_def)

lemma unlock_held [simp]: "global_mutex s = Mutex_held \<Longrightarrow> unlock_global s = Ret (s\<lparr>global_mutex := Mutex_free\<rparr>)"
  by (simp add: unlock_global_def)

lemma find_thread_upd [simp]:
  "find_thread_by_id i (s\<lparr>global_mutex := m\<rparr>) = find_thread_by_id i s"
  by (simp add: find_thread_by_id_def)

section \<open>Every call keeps the state well formed\<close>

lemma init_ok:
  assumes "\<not> comm_initialized s" and "comm_answers s = []" and "active_thread_count s = 0"
  shows "\<exists>s'. thread_comm_init c s = (0, s') \<and> comm_ok s' \<and> id_counter s' = id_counter s"
  using assms
  by (simp add: thread_comm_init_def comm_ok_def table_ok_def slot_ok_def ids_def zero_thread_def Let_def)

lemma create_queue_step:
  assumes "comm_answers s = []"
  shows "create_message_queue k n s = (0, s\<lparr>threads := (threads s)[k := (threads s ! k)
    \<lparr>msg_queue := Some \<lparr>msgs = [], q_size = 0, q_max_size = n\<rparr>\<rparr>]\<rparr>)"
  using assms by (simp add: create_message_queue_def)

lemma register_ok:
  assumes "comm_ok s" and "unat (id_counter s) + 1 < 2 ^ 32"
  shows "\<exists>i s'. thread_comm_register_thread (Some nm) d self now s = Ret (i, s') \<and> comm_ok s'
    \<and> (id_counter s' = id_counter s \<or> id_counter s' = id_counter s + 1)"
proof (cases "find_idx (\<lambda>t. \<not> is_registered t) (threads s)")
  case None
  with assms(1) show ?thesis by (simp add: thread_comm_register_thread_def comm_ok_def)
next
  case (Some k)
  then have k: "k < length (threads s)" "\<not> is_registered (threads s ! k)" by (auto dest: find_idx_SomeD)
  let ?t = "(threads s ! k)\<lparr>thread_id := id_counter s + 1, pthread_id := self, thread_name := take 63 nm,
    thread_state := THREAD_RUNNING, create_time := now, cpu_time := 0, message_count := 0,
    user_data := d, callback := None, callback_user_data := 0, is_registered := True,
    msg_queue := Some \<lparr>msgs = [], q_size = 0, q_max_size = max_queue_msgs (comm_config s)\<rparr>\<rparr>"
  have "table_ok ((threads s)[k := ?t]) (id_counter s + 1) (active_thread_count s + 1)"
    using assms k by (intro table_ok_add) (simp_all add: comm_ok_def slot_ok_def queue_ok_def)
  with assms(1) Some k(1) show ?thesis
    by (simp add: thread_comm_register_thread_def comm_ok_def generate_thread_id_def create_queue_step Let_def)
qed

lemma unregister_ok:
  assumes "comm_ok s"
  shows "\<exists>r s'. thread_comm_unregister_thread i s = Ret (r, s') \<and> comm_ok s' \<and> id_counter s' = id_counter s"
proof (cases "find_thread_by_id i s")
  case None
  with assms show ?thesis by (simp add: thread_comm_unregister_thread_def comm_ok_def)
next
  case (Some k)
  note k = find_thread_by_idD [OF Some]
  have "table_ok ((threads s)[k := zero_thread]) (id_counter s) (active_thread_count s - 1)"
    using assms k by (intro table_ok_remove) (simp_all add: comm_ok_def)
  with assms Some show ?thesis
    by (simp add: thread_comm_unregister_thread_def comm_ok_def destroy_message_queue_def Let_def)
qed

lemma pq_enq_ok:
  assumes "queue_ok q" and "pq_enq q m = Some q'"
  shows "queue_ok q'" "length (msgs q') \<le> q_max_size q'"
  using message_queue.enq_invar [OF assms] message_queue.enq_room [OF assms] by simp_all

lemma pq_deq_ok:
  assumes "queue_ok q" and "pq_deq q = Some (m, q')" and "length (msgs q) \<le> q_max_size q"
  shows "queue_ok q'" "length (msgs q') \<le> q_max_size q'"
  using message_queue.deq_invar [OF assms(1,2)] message_queue.deq_contents [OF assms(1,2)]
    message_queue.deq_cap [OF assms(1,2)] assms(3) by simp_all

text \<open>What a send does once the receiver is found.\<close>

lemma send_found:
  assumes "comm_ok s" and "find_thread_by_id r s = Some k" and "msg_queue (threads s ! k) = Some q"
    and "bs \<noteq> []" and "length bs \<le> max_msg_size (comm_config s)"
  shows "thread_comm_send_message sender r (Some bs) ty pri t1 t2 s =
    (case pq_enq q (copy_message (make_message sender r bs ty pri t1 t2)) of
       None \<Rightarrow> Ret (-1, s\<lparr>last_error := ERROR_QUEUE_FULL\<rparr>)
     | Some q' \<Rightarrow> Ret (0, s\<lparr>threads := (threads s)[k := (threads s ! k)\<lparr>msg_queue := Some q',
              message_count := message_count (threads s ! k) + 1\<rparr>],
            comm_stats := (comm_stats s)\<lparr>messages_sent := messages_sent (comm_stats s) + 1,
              bytes_sent := bytes_sent (comm_stats s) + of_nat (length bs)\<rparr>, last_error := ERROR_NONE\<rparr>))"
proof -
  have k: "k < length (threads s)" using find_thread_by_idD(1) [OF assms(2)] .
  have slot: "(threads s)[k := (threads s ! k)\<lparr>msg_queue := Some q\<rparr>] = threads s"
    using k assms(3) by (simp add: list_update_same_conv)
  show ?thesis
    using assms k
    by (simp add: thread_comm_send_message_def comm_ok_def enqueue_message_pq put_queue_def Let_def slot
      split: option.split)
qed

lemma receive_found:
  assumes "comm_ok s" and "find_thread_by_id r s = Some k" and "msg_queue (threads s ! k) = Some q"
    and "queue_ok q"
  shows "thread_comm_receive_message r True timeout start now s =
    (case pq_deq q of
       Some (m, q') \<Rightarrow> Ret (Received 0 (Some m)
         (s\<lparr>threads := (threads s)[k := (threads s ! k)\<lparr>msg_queue := Some q'\<rparr>],
            comm_stats := (comm_stats s)\<lparr>messages_received := messages_received (comm_stats s) + 1,
              bytes_received := bytes_received (comm_stats s) + ucast (data_size m)\<rparr>, last_error := ERROR_NONE\<rparr>))
     | None \<Rightarrow> if timeout > 0 \<and> now - start \<ge> of_int timeout
         then Ret (Received (-1) None (s\<lparr>last_error := ERROR_TIMEOUT\<rparr>)) else Ret (Receive_waits k s))"
proof -
  have k: "k < length (threads s)" using find_thread_by_idD(1) [OF assms(2)] .
  have slot: "(threads s)[k := (threads s ! k)\<lparr>msg_queue := Some q\<rparr>] = threads s"
    using k assms(3) by (simp add: list_update_same_conv)
  show ?thesis
    using assms
    by (simp add: thread_comm_receive_message_def receive_round_def comm_ok_def dequeue_message_pq
      put_queue_def Let_def slot split: option.split)
qed

lemma send_ok:
  assumes "comm_ok s"
  shows "\<exists>r s'. thread_comm_send_message sender rc data ty pri t1 t2 s = Ret (r, s') \<and> comm_ok s'
    \<and> id_counter s' = id_counter s"
proof (cases "find_thread_by_id rc s = None \<or> data = None \<or> data = Some [] \<or>
    length (the data) > max_msg_size (comm_config s)")
  case True
  with assms show ?thesis
    by (auto simp: thread_comm_send_message_def comm_ok_def split: option.splits)
next
  case False
  then obtain k where k: "find_thread_by_id rc s = Some k" by auto
  from False obtain bs where "data = Some bs" by auto
  with False have bs: "data = Some bs" "bs \<noteq> []" "length bs \<le> max_msg_size (comm_config s)" by auto
  have tab: "table_ok (threads s) (id_counter s) (active_thread_count s)" using assms by (simp add: comm_ok_def)
  from slot_queue [OF tab k] obtain q where q: "msg_queue (threads s ! k) = Some q" "queue_ok q"
    "length (msgs q) \<le> q_max_size q" by blast
  show ?thesis
  proof (cases "pq_enq q (copy_message (make_message sender rc bs ty pri t1 t2))")
    case None
    with send_found [OF assms k q(1) bs(2,3)] bs(1) assms show ?thesis by (simp add: comm_ok_def)
  next
    case (Some q')
    have "table_ok ((threads s)[k := (threads s ! k)\<lparr>msg_queue := Some q',
        message_count := message_count (threads s ! k) + 1\<rparr>]) (id_counter s) (active_thread_count s)"
      using pq_enq_ok [OF q(2) Some] by (intro table_ok_queue [OF tab k, of q']) (simp_all add: ids_def)
    with send_found [OF assms k q(1) bs(2,3)] bs(1) assms Some show ?thesis by (simp add: comm_ok_def)
  qed
qed

lemma receive_ok:
  assumes "comm_ok s"
  shows "\<exists>res. thread_comm_receive_message rc True timeout start now s = Ret res \<and>
    (\<exists>s'. (case res of Received r m s1 \<Rightarrow> s1 | Receive_waits k s1 \<Rightarrow> s1) = s'
      \<and> comm_ok s' \<and> id_counter s' = id_counter s)"
proof (cases "find_thread_by_id rc s")
  case None
  with assms show ?thesis by (simp add: thread_comm_receive_message_def comm_ok_def)
next
  case (Some k)
  have tab: "table_ok (threads s) (id_counter s) (active_thread_count s)" using assms by (simp add: comm_ok_def)
  from slot_queue [OF tab Some] obtain q where q: "msg_queue (threads s ! k) = Some q" "queue_ok q"
    "length (msgs q) \<le> q_max_size q" by blast
  show ?thesis
  proof (cases "pq_deq q")
    case None
    with receive_found [OF assms Some q(1,2)] assms show ?thesis by (simp add: comm_ok_def)
  next
    case (Some x)
    then obtain m q' where x: "pq_deq q = Some (m, q')" by (cases x) auto
    have "table_ok ((threads s)[k := (threads s ! k)\<lparr>msg_queue := Some q'\<rparr>]) (id_counter s) (active_thread_count s)"
      using pq_deq_ok [OF q(2) x q(3)]
      by (intro table_ok_queue [OF tab \<open>find_thread_by_id rc s = Some k\<close>, of q']) (simp_all add: ids_def)
    with receive_found [OF assms \<open>find_thread_by_id rc s = Some k\<close> q(1,2)] assms x show ?thesis
      by (simp add: comm_ok_def)
  qed
qed

lemma clear_loop_spec:
  assumes "comm_answers s = []" and "k < length (threads s)" and "msg_queue (threads s ! k) = Some q"
    and "queue_ok q"
  shows "clear_loop (q_size q) k s
    = Ret (s\<lparr>threads := (threads s)[k := (threads s ! k)\<lparr>msg_queue := Some (q\<lparr>msgs := [], q_size := 0\<rparr>)\<rparr>]\<rparr>)"
  using assms
proof (induction "q_size q" arbitrary: q s)
  case 0
  then have "q\<lparr>msgs := [], q_size := 0\<rparr> = q" by (simp add: queue_ok_def)
  with 0 have "(threads s)[k := (threads s ! k)\<lparr>msg_queue := Some (q\<lparr>msgs := [], q_size := 0\<rparr>)\<rparr>] = threads s"
    by (simp add: list_update_same_conv)
  with 0(1) show ?case by simp
next
  case (Suc n)
  obtain m ms where ms: "msgs q = m # ms" using Suc.hyps(2) Suc.prems(4) by (cases "msgs q") (auto simp: queue_ok_def)
  define q1 where "q1 = q\<lparr>msgs := ms, q_size := n\<rparr>"
  have d: "pq_deq q = Some (m, q1)" using ms Suc.hyps(2) by (simp add: pq_deq_def q1_def)
  have q1: "queue_ok q1" "n = q_size q1" "q1\<lparr>msgs := [], q_size := 0\<rparr> = q\<lparr>msgs := [], q_size := 0\<rparr>"
    using message_queue.deq_invar [OF Suc.prems(4) d] by (simp_all add: q1_def)
  have "clear_loop (Suc n) k s = clear_loop n k (put_queue k q1 s)"
    using Suc.prems d by (simp add: dequeue_message_pq)
  also have "\<dots> = Ret ((put_queue k q1 s)\<lparr>threads := (threads (put_queue k q1 s))
      [k := (threads (put_queue k q1 s) ! k)\<lparr>msg_queue := Some (q1\<lparr>msgs := [], q_size := 0\<rparr>)\<rparr>]\<rparr>)"
    using Suc.hyps(1) [OF q1(2), of "put_queue k q1 s"] Suc.prems(1,2) q1(1,2) by (simp add: put_queue_def)
  also have "\<dots> = Ret (s\<lparr>threads := (threads s)[k := (threads s ! k)\<lparr>msg_queue := Some (q\<lparr>msgs := [], q_size := 0\<rparr>)\<rparr>]\<rparr>)"
    using Suc.prems(2) q1(3) by (simp add: put_queue_def)
  finally show ?case using Suc.hyps(2) by simp
qed

lemma clear_ok:
  assumes "comm_ok s"
  shows "\<exists>r s'. thread_comm_clear_message_queue i s = Ret (r, s') \<and> comm_ok s' \<and> id_counter s' = id_counter s"
proof (cases "find_thread_by_id i s")
  case None
  with assms show ?thesis by (simp add: thread_comm_clear_message_queue_def comm_ok_def)
next
  case (Some k)
  have tab: "table_ok (threads s) (id_counter s) (active_thread_count s)" using assms by (simp add: comm_ok_def)
  from slot_queue [OF tab Some] obtain q where q: "msg_queue (threads s ! k) = Some q" "queue_ok q" by blast
  have "table_ok ((threads s)[k := (threads s ! k)\<lparr>msg_queue := Some (q\<lparr>msgs := [], q_size := 0\<rparr>)\<rparr>])
      (id_counter s) (active_thread_count s)"
    by (intro table_ok_queue [OF tab Some, of "q\<lparr>msgs := [], q_size := 0\<rparr>"]) (simp_all add: ids_def queue_ok_def)
  with clear_loop_spec [OF _ find_thread_by_idD(1) [OF Some] q] assms Some q(1) show ?thesis
    by (simp add: thread_comm_clear_message_queue_def comm_ok_def)
qed

lemma create_queue_ok:
  assumes "comm_ok s"
  shows "\<exists>r s'. thread_comm_create_message_queue i n s = (r, s') \<and> comm_ok s' \<and> id_counter s' = id_counter s"
proof (cases "find_thread_by_id i s")
  case None
  with assms show ?thesis by (simp add: thread_comm_create_message_queue_def comm_ok_def)
next
  case (Some k)
  have tab: "table_ok (threads s) (id_counter s) (active_thread_count s)" using assms by (simp add: comm_ok_def)
  let ?q = "\<lparr>msgs = [], q_size = 0, q_max_size = n\<rparr>"
  have "table_ok ((threads s)[k := (threads s ! k)\<lparr>msg_queue := Some ?q\<rparr>]) (id_counter s) (active_thread_count s)"
    by (intro table_ok_queue [OF tab Some, of ?q]) (simp_all add: ids_def queue_ok_def)
  with assms Some find_thread_by_idD(1) [OF Some] show ?thesis
    by (simp add: thread_comm_create_message_queue_def comm_ok_def create_message_queue_def destroy_message_queue_def)
qed

lemma create_mutex_ok:
  assumes "comm_ok s"
  shows "\<exists>r s'. thread_comm_create_mutex (Some nm) s = Ret (r, s') \<and> comm_ok s' \<and> id_counter s' = id_counter s"
  using assms by (cases "find_idx (\<lambda>m. \<not> mutex_initialized m) (mutexes s)")
    (simp_all add: thread_comm_create_mutex_def comm_ok_def)

lemma destroy_mutex_ok:
  assumes "comm_ok s"
  shows "\<exists>r s'. thread_comm_destroy_mutex (Some nm) s = Ret (r, s') \<and> comm_ok s' \<and> id_counter s' = id_counter s"
  using assms by (cases "find_idx (\<lambda>m. mutex_initialized m \<and> mutex_name m = nm) (mutexes s)")
    (simp_all add: thread_comm_destroy_mutex_def comm_ok_def)

text \<open>A client's calls.\<close>

datatype comm_op =
    Register string nat nat "64 word"
  | Unregister "32 word"
  | Send "32 word" "32 word" "8 word list option" thread_msg_type thread_priority "64 word" "64 word"
  | Receive "32 word" int "64 word" "64 word"
  | New_queue "32 word" nat
  | Clear_queue "32 word"
  | Set_callback "32 word" "nat option" nat
  | New_mutex string
  | Drop_mutex string
  | Reset_stats

fun exec_comm :: "comm_op \<Rightarrow> comm \<Rightarrow> comm outcome" where
  "exec_comm (Register nm d self now) s =
     obind (thread_comm_register_thread (Some nm) d self now s) (\<lambda>(i, s1). Ret s1)"
| "exec_comm (Unregister i) s = obind (thread_comm_unregister_thread i s) (\<lambda>(r, s1). Ret s1)"
| "exec_comm (Send a b data ty pri t1 t2) s =
     obind (thread_comm_send_message a b data ty pri t1 t2 s) (\<lambda>(r, s1). Ret s1)"
| "exec_comm (Receive i timeout start now) s =
     obind (thread_comm_receive_message i True timeout start now s)
       (\<lambda>res. Ret (case res of Received r m s1 \<Rightarrow> s1 | Receive_waits k s1 \<Rightarrow> s1))"
| "exec_comm (New_queue i n) s = Ret (snd (thread_comm_create_message_queue i n s))"
| "exec_comm (Clear_queue i) s = obind (thread_comm_clear_message_queue i s) (\<lambda>(r, s1). Ret s1)"
| "exec_comm (Set_callback i cb d) s = Ret (snd (thread_comm_set_message_callback i cb d s))"
| "exec_comm (New_mutex nm) s = obind (thread_comm_create_mutex (Some nm) s) (\<lambda>(r, s1). Ret s1)"
| "exec_comm (Drop_mutex nm) s = obind (thread_comm_destroy_mutex (Some nm) s) (\<lambda>(r, s1). Ret s1)"
| "exec_comm Reset_stats s = obind (thread_comm_reset_statistics s) (\<lambda>(r, s1). Ret s1)"

fun run_comm :: "comm_op list \<Rightarrow> comm \<Rightarrow> comm outcome" where
  "run_comm [] s = Ret s"
| "run_comm (op # ops) s = obind (exec_comm op s) (run_comm ops)"

lemma callback_ok:
  assumes "comm_ok s"
  shows "comm_ok (snd (thread_comm_set_message_callback i cb d s))
    \<and> id_counter (snd (thread_comm_set_message_callback i cb d s)) = id_counter s"
proof (cases "find_thread_by_id i s")
  case None
  with assms show ?thesis by (simp add: thread_comm_set_message_callback_def comm_ok_def)
next
  case (Some k)
  have tab: "table_ok (threads s) (id_counter s) (active_thread_count s)" using assms by (simp add: comm_ok_def)
  from slot_queue [OF tab Some] obtain q where q: "msg_queue (threads s ! k) = Some q" "queue_ok q"
    "length (msgs q) \<le> q_max_size q" by blast
  have "table_ok ((threads s)[k := (threads s ! k)\<lparr>callback := cb, callback_user_data := d\<rparr>])
      (id_counter s) (active_thread_count s)"
    using q by (intro table_ok_queue [OF tab Some, of q]) (simp_all add: ids_def)
  with assms Some show ?thesis by (simp add: thread_comm_set_message_callback_def comm_ok_def)
qed

lemma exec_comm_ok:
  assumes "comm_ok s" and "unat (id_counter s) + 1 < 2 ^ 32"
  shows "\<exists>s'. exec_comm op s = Ret s' \<and> comm_ok s' \<and> unat (id_counter s') \<le> unat (id_counter s) + 1"
proof (cases op)
  case (Register nm d self now)
  have "unat (id_counter s + 1) = unat (id_counter s) + 1" using assms(2) by (simp add: unat_word_ariths)
  with register_ok [OF assms, of nm d self now] Register show ?thesis by auto
next
  case (Unregister i)
  with unregister_ok [OF assms(1), of i] show ?thesis by auto
next
  case (Send a b data ty pri t1 t2)
  with send_ok [OF assms(1), of a b data ty pri t1 t2] show ?thesis by auto
next
  case (Receive i timeout start now)
  with receive_ok [OF assms(1), of i timeout start now] show ?thesis by auto
next
  case (New_queue i n)
  with create_queue_ok [OF assms(1), of i n] show ?thesis by auto
next
  case (Clear_queue i)
  with clear_ok [OF assms(1), of i] show ?thesis by auto
next
  case (Set_callback i cb d)
  with callback_ok [OF assms(1), of i cb d] show ?thesis by simp
next
  case (New_mutex nm)
  with create_mutex_ok [OF assms(1), of nm] show ?thesis by auto
next
  case (Drop_mutex nm)
  with destroy_mutex_ok [OF assms(1), of nm] show ?thesis by auto
next
  case Reset_stats
  with assms(1) show ?thesis by (simp add: thread_comm_reset_statistics_def comm_ok_def)
qed

lemma run_comm_ok:
  assumes "comm_ok s" and "unat (id_counter s) + length ops < 2 ^ 32"
  shows "\<exists>s'. run_comm ops s = Ret s' \<and> comm_ok s'"
  using assms
proof (induction ops arbitrary: s)
  case (Cons op ops)
  from Cons.prems obtain s1 where s1: "exec_comm op s = Ret s1" "comm_ok s1"
    "unat (id_counter s1) \<le> unat (id_counter s) + 1"
    using exec_comm_ok [of s op] by auto
  with Cons.IH [of s1] Cons.prems(2) show ?case by simp
qed simp

section \<open>Properties\<close>




definition demo_msg :: "thread_priority \<Rightarrow> 8 word \<Rightarrow> thread_msg" where
  "demo_msg p b = make_message 1 2 [b] MSG_DATA p 0 0"


text \<open>What is sent is what is received: a message sent to a thread whose queue is empty and has
  room is delivered to it with the same bytes, type, priority, sender and receiver.\<close>

theorem send_then_receive:
  assumes "comm_ok s" and "find_thread_by_id rc s = Some k"
    and "msg_queue (threads s ! k) = Some \<lparr>msgs = [], q_size = 0, q_max_size = n\<rparr>" and "0 < n"
    and "bs \<noteq> []" and "length bs \<le> max_msg_size (comm_config s)" and "length bs < 2 ^ 32"
  shows "\<exists>s1 m s2. thread_comm_send_message sender rc (Some bs) ty pri t1 t2 s = Ret (0, s1)
    \<and> thread_comm_receive_message rc True timeout start now s1 = Ret (Received 0 (Some m) s2)
    \<and> msg_data m = Some bs \<and> unat (data_size m) = length bs \<and> msg_type m = ty \<and> priority m = pri
    \<and> sender_id m = sender \<and> receiver_id m = rc"
proof -
  let ?m = "make_message sender rc bs ty pri t1 t2"
  let ?q = "\<lparr>msgs = [?m], q_size = 1, q_max_size = n\<rparr>"
  have size: "unat (of_nat (length bs) :: 32 word) = length bs"
    using assms(7) by (simp add: unat_of_nat)
  have "copy_message ?m = ?m" by (simp add: copy_message_def make_message_def size)
  then have enq: "pq_enq \<lparr>msgs = [], q_size = 0, q_max_size = n\<rparr> (copy_message ?m) = Some ?q"
    using assms(4) by (simp add: pq_enq_def link_message_def)
  obtain s1 where s1: "thread_comm_send_message sender rc (Some bs) ty pri t1 t2 s = Ret (0, s1)"
    and th: "threads s1 = (threads s)[k := (threads s ! k)\<lparr>msg_queue := Some ?q,
        message_count := message_count (threads s ! k) + 1\<rparr>]"
    using send_found [OF assms(1-3,5,6), of sender ty pri t1 t2] enq by simp
  have ok1: "comm_ok s1" using send_ok [OF assms(1), of sender rc "Some bs" ty pri t1 t2] s1 by auto
  note k = find_thread_by_idD [OF assms(2)]
  have first: "\<forall>j < k. \<not> (is_registered (threads s ! j) \<and> thread_id (threads s ! j) = rc)"
    using assms(2) by (auto simp: find_thread_by_id_def dest: find_idx_SomeD)
  have "find_thread_by_id rc s1 = Some k"
    unfolding find_thread_by_id_def th using k first by (intro find_idx_SomeI) auto
  moreover have "msg_queue (threads s1 ! k) = Some ?q" using th k(1) by simp
  moreover have "queue_ok ?q" by (simp add: queue_ok_def)
  ultimately have "thread_comm_receive_message rc True timeout start now s1
      = Ret (Received 0 (Some ?m) (s1\<lparr>threads := (threads s1)[k := (threads s1 ! k)\<lparr>msg_queue := Some (?q\<lparr>msgs := [], q_size := 0\<rparr>)\<rparr>],
            comm_stats := (comm_stats s1)\<lparr>messages_received := messages_received (comm_stats s1) + 1,
              bytes_received := bytes_received (comm_stats s1) + ucast (data_size ?m)\<rparr>, last_error := ERROR_NONE\<rparr>))"
    using receive_found [OF ok1] by (simp add: pq_deq_def)
  with s1 size show ?thesis by (auto simp: make_message_def)
qed

text \<open>A state with two registered threads.\<close>

definition two_threads :: comm where
  "two_threads = (case run_comm [Register ''a'' 0 7 1, Register ''b'' 0 8 2]
     (snd (thread_comm_init (Some (thread_comm_default_config\<lparr>max_threads := 2\<rparr>)) comm_zero)) of
       Ret s \<Rightarrow> s | Fault e \<Rightarrow> comm_zero)"

lemma two_threads_ok: "comm_ok two_threads"
proof -
  obtain s0 where s0: "thread_comm_init (Some (thread_comm_default_config\<lparr>max_threads := 2\<rparr>)) comm_zero = (0, s0)"
    "comm_ok s0" "id_counter s0 = 0"
    using init_ok [of comm_zero] by (auto simp: comm_zero_def)
  from run_comm_ok [OF s0(2), of "[Register ''a'' 0 7 1, Register ''b'' 0 8 2]"] s0
  show ?thesis by (auto simp: two_threads_def)
qed

lemma two_threads_slots:
  "find_thread_by_id 2 two_threads = Some 1"
  "msg_queue (threads two_threads ! 1) = Some \<lparr>msgs = [], q_size = 0, q_max_size = 1000\<rparr>"
  "max_msg_size (comm_config two_threads) = 65536"
  "is_registered (threads two_threads ! 1)" "thread_id (threads two_threads ! 1) = 2"
  "length (threads two_threads) = 2" "active_thread_count two_threads = 2"
  by (simp_all add: two_threads_def thread_comm_init_def comm_zero_def thread_comm_default_config_def
    numeral_2_eq_2 zero_thread_def thread_comm_register_thread_def generate_thread_id_def
    create_message_queue_def find_thread_by_id_def Let_def)

theorem send_then_receive_witness:
  "\<exists>s1 m s2. thread_comm_send_message 1 2 (Some [10, 20]) MSG_REQUEST PRIORITY_HIGH 5 6 two_threads = Ret (0, s1)
    \<and> thread_comm_receive_message 2 True 100 7 8 s1 = Ret (Received 0 (Some m) s2)
    \<and> msg_data m = Some [10, 20] \<and> priority m = PRIORITY_HIGH \<and> sender_id m = 1"
  using send_then_receive [OF two_threads_ok two_threads_slots(1,2), of "[10, 20]" 1 MSG_REQUEST PRIORITY_HIGH 5 6 100 7 8]
  by (auto simp: two_threads_slots(3))

lemma send_deadlock:
  "global_mutex s = Mutex_held \<Longrightarrow> comm_initialized s \<Longrightarrow> bs \<noteq> [] \<Longrightarrow> length bs \<le> max_msg_size (comm_config s)
   \<Longrightarrow> thread_comm_send_message a b (Some bs) ty pri t1 t2 s = Fault Self_deadlock"
  by (simp add: thread_comm_send_message_def lock_global_def)

lemma broadcast_deadlock:
  assumes "global_mutex s = Mutex_held" "comm_initialized s" "bs \<noteq> []" "length bs \<le> max_msg_size (comm_config s)"
    and "\<exists>k \<in> set ks. is_registered (threads s ! k) \<and> thread_id (threads s ! k) \<noteq> sender"
  shows "broadcast_loop ks sender (Some bs) ty pri t1 t2 n s = Fault Self_deadlock"
  using assms by (induction ks) (auto simp: send_deadlock)

lemma unregister_deadlock:
  "global_mutex s = Mutex_held \<Longrightarrow> comm_initialized s \<Longrightarrow> thread_comm_unregister_thread i s = Fault Self_deadlock"
  by (simp add: thread_comm_unregister_thread_def lock_global_def)

lemma cleanup_deadlock:
  "global_mutex s = Mutex_held \<Longrightarrow> comm_initialized s \<Longrightarrow> \<exists>k \<in> set ks. is_registered (threads s ! k)
   \<Longrightarrow> cleanup_threads ks s = Fault Self_deadlock"
  by (induction ks) (auto simp: unregister_deadlock)

lemma all_threads_deadlock:
  "global_mutex s = Mutex_held \<Longrightarrow> comm_initialized s \<Longrightarrow> 0 < n \<Longrightarrow> \<exists>k \<in> set ks. is_registered (threads s ! k)
   \<Longrightarrow> all_threads_loop ks n s = Fault Self_deadlock"
  by (induction ks) (auto simp: thread_comm_get_thread_info_def lock_global_def)

lemma active_count_pos:
  assumes "comm_ok s" and "k < length (threads s)" and "is_registered (threads s ! k)"
    and "length (threads s) < 2 ^ 32"
  shows "active_thread_count s \<noteq> 0"
proof -
  have n: "active_thread_count s = of_nat (length (ids (threads s)))" using assms(1) by (simp add: comm_ok_def table_ok_def)
  have "ids (threads s) \<noteq> []" using assms(2,3) nth_mem by (auto simp: ids_def filter_empty_conv)
  moreover have "length (ids (threads s)) < 2 ^ 32"
    using le_less_trans [OF length_filter_le [of is_registered "threads s"] assms(4)] by (simp add: ids_def)
  ultimately have "unat (active_thread_count s) \<noteq> 0" unfolding n by (simp add: unat_of_nat)
  then show ?thesis by auto
qed

text \<open>Three functions lock the global mutex and then call functions that lock it again. With a
  registered thread other than the sender, a broadcast never returns; with any registered thread,
  neither does cleanup, nor the listing of all threads.\<close>

theorem nested_calls_deadlock:
  assumes "comm_ok s" and "k < length (threads s)" and "is_registered (threads s ! k)"
    and "thread_id (threads s ! k) \<noteq> sender" and "length (threads s) < 2 ^ 32"
    and "bs \<noteq> []" and "length bs \<le> max_msg_size (comm_config s)"
  shows "thread_comm_broadcast_message sender (Some bs) ty pri t1 t2 s = Fault Self_deadlock
    \<and> thread_comm_cleanup s = Fault Self_deadlock
    \<and> thread_comm_get_all_threads True True s = Fault Self_deadlock"
proof -
  let ?s = "s\<lparr>global_mutex := Mutex_held\<rparr>"
  have ok: "comm_initialized s" "global_mutex s = Mutex_free" "comm_answers s = []"
    using assms(1) by (simp_all add: comm_ok_def)
  have k: "k \<in> set [0..<length (threads s)]" using assms(2) by simp
  have "broadcast_loop [0..<length (threads s)] sender (Some bs) ty pri t1 t2 0 ?s = Fault Self_deadlock"
    using ok(1) assms(3,4,6,7) k by (intro broadcast_deadlock) (auto intro: bexI [of _ k])
  moreover have "cleanup_threads [0..<length (threads s)] ?s = Fault Self_deadlock"
    using ok(1) assms(3) k by (intro cleanup_deadlock) (auto intro: bexI [of _ k])
  moreover have "all_threads_loop [0..<length (threads s)] (unat (active_thread_count s)) ?s = Fault Self_deadlock"
    using ok(1) assms(3) k active_count_pos [OF assms(1-3,5)]
    by (intro all_threads_deadlock) (auto simp: unat_gt_0 intro: bexI [of _ k])
  ultimately show ?thesis
    using ok active_count_pos [OF assms(1-3,5)]
    by (simp add: thread_comm_broadcast_message_def thread_comm_cleanup_def thread_comm_get_all_threads_def)
qed

theorem nested_calls_deadlock_witness:
  "thread_comm_broadcast_message 1 (Some [1]) MSG_EVENT PRIORITY_LOW 0 0 two_threads = Fault Self_deadlock
    \<and> thread_comm_cleanup two_threads = Fault Self_deadlock
    \<and> thread_comm_get_all_threads True True two_threads = Fault Self_deadlock"
  by (rule nested_calls_deadlock [OF two_threads_ok, of 1]) (simp_all add: two_threads_slots [simplified])

text \<open>The asynchronous receive is not asynchronous: it passes the timeout 0, which means no
  timeout, so on an empty queue it waits, and every time it is woken it waits again, whatever
  the clock says, until a message arrives.\<close>

theorem async_receive_waits:
  assumes "comm_ok s" and "find_thread_by_id rc s = Some k"
    and "msg_queue (threads s ! k) = Some q" and "queue_ok q" and "msgs q = []"
  shows "thread_comm_receive_message_async rc True start now s = Ret (Receive_waits k s)
    \<and> (\<forall>later. receive_resume k 0 start later s = Ret (Receive_waits k s))"
proof -
  have d: "pq_deq q = None" using assms(4,5) by (simp add: pq_deq_def)
  have slot: "(threads s)[k := (threads s ! k)\<lparr>msg_queue := Some q\<rparr>] = threads s"
    using find_thread_by_idD(1) [OF assms(2)] assms(3) by (simp add: list_update_same_conv)
  have "receive_resume k 0 start later s = Ret (Receive_waits k s)" for later
    using assms(1,3,4) d
    by (simp add: receive_resume_def receive_round_def comm_ok_def dequeue_message_pq put_queue_def Let_def slot)
  with receive_found [OF assms(1-4), of 0 start now] d show ?thesis
    by (simp add: thread_comm_receive_message_async_def)
qed

theorem async_receive_waits_witness:
  "thread_comm_receive_message_async 2 True 0 9 two_threads = Ret (Receive_waits 1 two_threads)"
  using async_receive_waits [OF two_threads_ok two_threads_slots(1,2), of 0 9] by (simp add: queue_ok_def)

text \<open>A named mutex can become unreachable while it exists: the search for it covers as many
  slots as there are mutexes, but destroying one leaves a hole. After creating two and
  destroying the first, the second cannot be locked.\<close>

theorem destroyed_mutex_hides_next:
  assumes "a \<noteq> b" and "length a \<le> 63" and "length b \<le> 63"
  shows "\<exists>s1 s2 s3 s4. thread_comm_create_mutex (Some a) (snd (thread_comm_init c comm_zero)) = Ret (0, s1)
    \<and> thread_comm_create_mutex (Some b) s1 = Ret (0, s2)
    \<and> thread_comm_destroy_mutex (Some a) s2 = Ret (0, s3)
    \<and> thread_comm_lock_mutex (Some b) timeout start polls s3 = Some (Ret (-1, s4))
    \<and> last_error s4 = ERROR_THREAD_NOT_FOUND"
proof -
  define s0 where "s0 = snd (thread_comm_init c comm_zero)"
  have s0: "comm_initialized s0" "global_mutex s0 = Mutex_free" "comm_answers s0 = []" "mutex_count s0 = 0"
    "mutexes s0 = zero_mutex # zero_mutex # replicate 98 zero_mutex"
    by (simp_all add: s0_def thread_comm_init_def comm_zero_def Let_def numeral_eq_Suc)
  define m where "m = (\<lambda>nm. \<lparr>mutex_name = nm, named_lock = Mutex_free, mutex_initialized = True\<rparr>)"
  define s1 where "s1 = s0\<lparr>mutexes := m a # zero_mutex # replicate 98 zero_mutex, mutex_count := 1, last_error := ERROR_NONE\<rparr>"
  define s2 where "s2 = s1\<lparr>mutexes := m a # m b # replicate 98 zero_mutex, mutex_count := 2\<rparr>"
  define s3 where "s3 = s2\<lparr>mutexes := (m a)\<lparr>named_lock := Mutex_dead, mutex_initialized := False\<rparr> # m b # replicate 98 zero_mutex,
    mutex_count := 1\<rparr>"
  have "thread_comm_create_mutex (Some a) s0 = Ret (0, s1)"
    using s0 assms(2) by (simp add: thread_comm_create_mutex_def zero_mutex_def s1_def m_def)
  moreover have "thread_comm_create_mutex (Some b) s1 = Ret (0, s2)"
    using s0 assms(3) by (simp add: thread_comm_create_mutex_def zero_mutex_def s1_def s2_def m_def)
  moreover have "thread_comm_destroy_mutex (Some a) s2 = Ret (0, s3)"
    using s0 by (simp add: thread_comm_destroy_mutex_def s1_def s2_def s3_def m_def)
  moreover have "thread_comm_lock_mutex (Some b) timeout start polls s3 = Some (Ret (-1, s3\<lparr>last_error := ERROR_THREAD_NOT_FOUND\<rparr>))"
    using s0 by (simp add: thread_comm_lock_mutex_def find_mutex_def s1_def s2_def s3_def m_def)
  ultimately show ?thesis unfolding s0_def by (metis comm.select_convs(11) comm.surjective comm.update_convs(11))
qed

theorem destroyed_mutex_hides_next_witness:
  "\<exists>s1 s2 s3 s4. thread_comm_create_mutex (Some ''a'') (snd (thread_comm_init None comm_zero)) = Ret (0, s1)
    \<and> thread_comm_create_mutex (Some ''b'') s1 = Ret (0, s2)
    \<and> thread_comm_destroy_mutex (Some ''a'') s2 = Ret (0, s3)
    \<and> thread_comm_lock_mutex (Some ''b'') 0 0 [] s3 = Some (Ret (-1, s4))
    \<and> last_error s4 = ERROR_THREAD_NOT_FOUND"
  by (rule destroyed_mutex_hides_next) simp_all

end
