(* ===== verification/Logger.thy ===== *)
theory Logger
  imports Interfaces
begin

text \<open>
  The logger (src/log/logger_module.c): a bounded queue of messages between the callers and a
  worker thread that writes them, synchronous logging, the level filter, and the module's life
  cycle. What is printed is a list of entries; \<open>console_line\<close> and \<open>file_line\<close> give the text of an
  entry. A formatted message is given by its full text and by whether formatting it reads any
  variadic argument; the current time is an argument, already rendered by \<open>get_timestamp\<close>. Each
  of the two mutexes is held for the body of one function and released on every path, and no
  function holds both, so a function body is one atomic step; the mutexes and the flush of the
  file buffer are not modelled. The answers are those of the allocator, of the libuv init
  functions, of \<open>fopen\<close> and of \<open>uv_thread_create\<close>, in the order of the calls.
\<close>

section \<open>Data\<close>

datatype log_level = LEVEL_DEBUG | LEVEL_INFO | LEVEL_WARN | LEVEL_ERROR | LEVEL_FATAL

fun level_code :: "log_level \<Rightarrow> nat" where
  "level_code LEVEL_DEBUG = 0"
| "level_code LEVEL_INFO = 1"
| "level_code LEVEL_WARN = 2"
| "level_code LEVEL_ERROR = 3"
| "level_code LEVEL_FATAL = 4"

instantiation log_level :: linorder
begin

definition less_eq_log_level :: "log_level \<Rightarrow> log_level \<Rightarrow> bool" where
  "less_eq_log_level a b \<longleftrightarrow> level_code a \<le> level_code b"

definition less_log_level :: "log_level \<Rightarrow> log_level \<Rightarrow> bool" where
  "less_log_level a b \<longleftrightarrow> level_code a < level_code b"

instance
proof
  fix a b :: log_level
  show "a \<le> b \<Longrightarrow> b \<le> a \<Longrightarrow> a = b"
    by (cases a; cases b) (simp_all add: less_eq_log_level_def)
qed (auto simp: less_eq_log_level_def less_log_level_def)

end

fun level_string :: "log_level \<Rightarrow> string" where
  "level_string LEVEL_DEBUG = ''DEBUG''"
| "level_string LEVEL_INFO = ''INFO''"
| "level_string LEVEL_WARN = ''WARN''"
| "level_string LEVEL_ERROR = ''ERROR''"
| "level_string LEVEL_FATAL = ''FATAL''"

definition ESC :: char where "ESC = CHR 0x1B"

fun level_color :: "log_level \<Rightarrow> string" where
  "level_color LEVEL_DEBUG = ESC # ''[36m''"
| "level_color LEVEL_INFO = ESC # ''[32m''"
| "level_color LEVEL_WARN = ESC # ''[33m''"
| "level_color LEVEL_ERROR = ESC # ''[31m''"
| "level_color LEVEL_FATAL = ESC # ''[35m''"

record log_message =
  log_msg_level :: log_level
  log_text :: "string option"
  log_time :: "string option"

record log_queue =
  log_msgs :: "log_message list"
  log_size :: nat
  log_max :: nat

record logger_config =
  cfg_level :: log_level
  log_file :: "string option"
  enable_console :: bool
  enable_file :: bool
  enable_timestamp :: bool
  enable_async :: bool
  cfg_max_queue :: nat
  flush_interval_ms :: int

record logger_private_data =
  log_fp :: bool
  logger_config :: logger_config
  message_queue :: log_queue
  worker_running :: bool
  flush_timer :: bool

record console_entry =
  con_time :: string
  con_level :: log_level
  con_text :: string

record logger =
  logger_data :: "logger_private_data option"
  global_log_level :: log_level
  console :: "console_entry list"
  file_out :: "string list"
  logger_answers :: answers

text \<open>A formatted message: its text, and whether formatting it reads variadic arguments.\<close>

record formatted =
  expansion :: string
  reads_args :: bool

definition logger_default_config :: logger_config where
  "logger_default_config = \<lparr>cfg_level = LEVEL_INFO, log_file = None, enable_console = True,
     enable_file = False, enable_timestamp = True, enable_async = True, cfg_max_queue = 10000,
     flush_interval_ms = 100\<rparr>"

text \<open>The state before the module is initialised.\<close>

definition logger_zero :: logger where
  "logger_zero = \<lparr>logger_data = None, global_log_level = LEVEL_INFO, console = [], file_out = [],
     logger_answers = []\<rparr>"

definition logger_answer :: "logger \<Rightarrow> bool \<times> logger" where
  "logger_answer s = (case next_answer (logger_answers s) of (ok, as) \<Rightarrow> (ok, s\<lparr>logger_answers := as\<rparr>))"

text \<open>\<open>snprintf\<close> into a buffer of \<open>n\<close> bytes keeps \<open>n - 1\<close> characters.\<close>

definition snprintf :: "nat \<Rightarrow> string \<Rightarrow> string" where
  "snprintf n text = take (n - 1) text"

section \<open>Messages and the queue\<close>

text \<open>Up to three allocations: the message, its text, and the timestamp. A failed \<open>strdup\<close> leaves
  a NULL.\<close>

definition create_log_message :: "log_level \<Rightarrow> string \<Rightarrow> string \<Rightarrow> logger \<Rightarrow> log_message option \<times> logger" where
  "create_log_message lv text now s = (case logger_answer s of (ok, s1) \<Rightarrow>
     if \<not> ok then (None, s1)
     else case logger_answer s1 of (ok2, s2) \<Rightarrow>
       let m = \<lparr>log_msg_level = lv, log_text = (if ok2 then Some text else None), log_time = None\<rparr> in
       case logger_data s2 of
         None \<Rightarrow> (Some m, s2)
       | Some d \<Rightarrow>
           if enable_timestamp (logger_config d)
           then (case logger_answer s2 of (ok3, s3) \<Rightarrow>
             (Some (m\<lparr>log_time := (if ok3 then Some now else None)\<rparr>), s3))
           else (Some m, s2))"

definition queue_push :: "log_queue \<Rightarrow> log_message \<Rightarrow> log_queue option" where
  "queue_push q m = (if log_size q \<ge> log_max q then None
     else Some (q\<lparr>log_msgs := log_msgs q @ [m], log_size := log_size q + 1\<rparr>))"

definition log_queue_push :: "log_message option \<Rightarrow> logger \<Rightarrow> int \<times> logger" where
  "log_queue_push mo s = (case (logger_data s, mo) of
     (Some d, Some m) \<Rightarrow> (case queue_push (message_queue d) m of
         None \<Rightarrow> (-1, s)
       | Some q \<Rightarrow> (0, s\<lparr>logger_data := Some (d\<lparr>message_queue := q\<rparr>)\<rparr>))
   | _ \<Rightarrow> (-1, s))"

definition queue_pop :: "log_queue \<Rightarrow> (log_message \<times> log_queue) option" where
  "queue_pop q = (if log_size q > 0
     then (case log_msgs q of [] \<Rightarrow> None
       | m # ms \<Rightarrow> Some (m, q\<lparr>log_msgs := ms, log_size := log_size q - 1\<rparr>))
     else None)"

datatype pop_result = Pop_waits | Popped "log_message option" logger

definition log_queue_pop :: "logger \<Rightarrow> pop_result" where
  "log_queue_pop s = (case logger_data s of
     None \<Rightarrow> Popped None s
   | Some d \<Rightarrow>
       if log_size (message_queue d) = 0 \<and> worker_running d then Pop_waits
       else (case queue_pop (message_queue d) of
           None \<Rightarrow> Popped None s
         | Some (m, q) \<Rightarrow> Popped (Some m) (s\<lparr>logger_data := Some (d\<lparr>message_queue := q\<rparr>)\<rparr>)))"

definition log_queue_clear :: "logger \<Rightarrow> logger" where
  "log_queue_clear s = (case logger_data s of
     None \<Rightarrow> s
   | Some d \<Rightarrow> s\<lparr>logger_data := Some (d\<lparr>message_queue := (message_queue d)\<lparr>log_msgs := [], log_size := 0\<rparr>\<rparr>)\<rparr>)"

definition log_queue_size :: "logger \<Rightarrow> nat" where
  "log_queue_size s = (case logger_data s of None \<Rightarrow> 0 | Some d \<Rightarrow> log_size (message_queue d))"

section \<open>Output\<close>

definition file_line :: "logger_private_data \<Rightarrow> string \<Rightarrow> string \<Rightarrow> string" where
  "file_line d now text = (if enable_timestamp (logger_config d)
     then ''['' @ now @ ''] '' @ text @ [CHR 0x0A] else text @ [CHR 0x0A])"

definition write_log_to_file :: "string \<Rightarrow> string \<Rightarrow> logger \<Rightarrow> logger" where
  "write_log_to_file now text s = (case logger_data s of
     None \<Rightarrow> s
   | Some d \<Rightarrow> if \<not> enable_file (logger_config d) \<or> \<not> log_fp d then s
       else s\<lparr>file_out := file_out s @ [file_line d now text]\<rparr>)"

definition console_line :: "console_entry \<Rightarrow> string" where
  "console_line e = level_color (con_level e) @ ''['' @ con_time e @ ''] '' @ level_string (con_level e)
     @ ESC # ''[0m '' @ con_text e @ [CHR 0x0A]"

definition write_log_to_console :: "log_level \<Rightarrow> string \<Rightarrow> string \<Rightarrow> logger \<Rightarrow> logger" where
  "write_log_to_console lv now text s =
     (if lv < global_log_level s then s
      else s\<lparr>console := console s @ [\<lparr>con_time = now, con_level = lv, con_text = text\<rparr>]\<rparr>)"

text \<open>\<open>prefix_line\<close>: the text that goes to the file, before it is cut to the buffer.\<close>

definition prefix_line :: "string option \<Rightarrow> log_level \<Rightarrow> string \<Rightarrow> string" where
  "prefix_line t lv text = (case t of
     Some ts \<Rightarrow> ''['' @ ts @ ''] '' @ level_string lv @ '' '' @ text
   | None \<Rightarrow> level_string lv @ '' '' @ text)"

definition log_internal_sync :: "log_level \<Rightarrow> formatted \<Rightarrow> string \<Rightarrow> logger \<Rightarrow> logger" where
  "log_internal_sync lv f now s =
     (if lv < global_log_level s then s
      else let text = snprintf 1024 (expansion f); s1 = write_log_to_console lv now text s in
        case logger_data s1 of
          None \<Rightarrow> s1
        | Some d \<Rightarrow> if enable_file (logger_config d)
            then write_log_to_file now (snprintf 2048
              (prefix_line (if enable_timestamp (logger_config d) then Some now else None) lv text)) s1
            else s1)"

text \<open>When the queue is full the message is formatted a second time from the same \<open>va_list\<close>.\<close>

definition log_internal_async :: "log_level \<Rightarrow> formatted \<Rightarrow> string \<Rightarrow> logger \<Rightarrow> logger outcome" where
  "log_internal_async lv f now s =
     (if lv < global_log_level s \<or> logger_data s = None then Ret s
      else let text = snprintf 1024 (expansion f) in
        case create_log_message lv text now s of (mo, s1) \<Rightarrow> (case mo of
            None \<Rightarrow> Ret s1
          | Some m \<Rightarrow> (case log_queue_push (Some m) s1 of (r, s2) \<Rightarrow>
              if r \<noteq> 0
              then (if reads_args f then Fault Va_list_reuse else Ret (log_internal_sync lv f now s2))
              else Ret s2)))"

definition log_debug :: "formatted \<Rightarrow> string \<Rightarrow> logger \<Rightarrow> logger outcome" where
  "log_debug f now s = log_internal_async LEVEL_DEBUG f now s"

definition log_info :: "formatted \<Rightarrow> string \<Rightarrow> logger \<Rightarrow> logger outcome" where
  "log_info f now s = log_internal_async LEVEL_INFO f now s"

definition log_warn :: "formatted \<Rightarrow> string \<Rightarrow> logger \<Rightarrow> logger outcome" where
  "log_warn f now s = log_internal_async LEVEL_WARN f now s"

definition log_error :: "formatted \<Rightarrow> string \<Rightarrow> logger \<Rightarrow> logger outcome" where
  "log_error f now s = log_internal_async LEVEL_ERROR f now s"

definition log_fatal :: "formatted \<Rightarrow> string \<Rightarrow> logger \<Rightarrow> logger outcome" where
  "log_fatal f now s = log_internal_async LEVEL_FATAL f now s"

definition log_debug_sync :: "formatted \<Rightarrow> string \<Rightarrow> logger \<Rightarrow> logger" where
  "log_debug_sync f now s = log_internal_sync LEVEL_DEBUG f now s"

definition log_info_sync :: "formatted \<Rightarrow> string \<Rightarrow> logger \<Rightarrow> logger" where
  "log_info_sync f now s = log_internal_sync LEVEL_INFO f now s"

definition log_warn_sync :: "formatted \<Rightarrow> string \<Rightarrow> logger \<Rightarrow> logger" where
  "log_warn_sync f now s = log_internal_sync LEVEL_WARN f now s"

definition log_error_sync :: "formatted \<Rightarrow> string \<Rightarrow> logger \<Rightarrow> logger" where
  "log_error_sync f now s = log_internal_sync LEVEL_ERROR f now s"

definition log_fatal_sync :: "formatted \<Rightarrow> string \<Rightarrow> logger \<Rightarrow> logger" where
  "log_fatal_sync f now s = log_internal_sync LEVEL_FATAL f now s"

text \<open>What the worker does with a message it has popped. Its text is NULL when the copy failed.\<close>

definition worker_write :: "log_message \<Rightarrow> string \<Rightarrow> logger \<Rightarrow> logger outcome" where
  "worker_write m now s = (case (logger_data s, log_text m) of
     (Some d, Some text) \<Rightarrow>
       let full = snprintf 1024 (prefix_line (log_time m) (log_msg_level m) text);
           s1 = (if enable_console (logger_config d) then write_log_to_console (log_msg_level m) now text s else s) in
       Ret (if enable_file (logger_config d) then write_log_to_file now full s1 else s1)
   | (_, None) \<Rightarrow> Fault Null_deref
   | (None, _) \<Rightarrow> Fault Use_after_free)"

text \<open>The body of the worker's loop: None when it waits.\<close>

definition logger_worker_body :: "string \<Rightarrow> logger \<Rightarrow> logger outcome option" where
  "logger_worker_body now s = (case log_queue_pop s of
     Pop_waits \<Rightarrow> None
   | Popped None s1 \<Rightarrow> Some (Ret s1)
   | Popped (Some m) s1 \<Rightarrow> Some (worker_write m now s1))"

section \<open>The module\<close>

fun logger_answers_all :: "nat \<Rightarrow> logger \<Rightarrow> bool \<times> logger" where
  "logger_answers_all 0 s = (True, s)"
| "logger_answers_all (Suc n) s = (case logger_answer s of (ok, s1) \<Rightarrow>
     if ok then logger_answers_all n s1 else (False, s1))"

definition plain_text :: "string \<Rightarrow> formatted" where
  "plain_text text = \<lparr>expansion = text, reads_args = False\<rparr>"

text \<open>The texts of the module's own messages are arguments: they do not matter to the model.\<close>

definition logger_module_init :: "bool \<Rightarrow> bool \<Rightarrow> string \<Rightarrow> string \<Rightarrow> logger \<Rightarrow> int \<times> logger" where
  "logger_module_init self loop text now s =
     (if \<not> self \<or> \<not> loop then (-1, s)
      else case logger_answers_all 4 s of (ok, s1) \<Rightarrow>
        if \<not> ok then (-1, s1)
        else (0, log_info_sync (plain_text text) now (s1\<lparr>logger_data := Some
          \<lparr>log_fp = False, logger_config = logger_default_config,
           message_queue = \<lparr>log_msgs = [], log_size = 0, log_max = cfg_max_queue logger_default_config\<rparr>,
           worker_running = False, flush_timer = False\<rparr>\<rparr>)))"

text \<open>Opening the file, when one is configured: the result, and the state after the message.\<close>

definition open_log_file :: "string \<Rightarrow> string \<Rightarrow> logger \<Rightarrow> bool \<times> logger" where
  "open_log_file text now s = (case logger_data s of
     None \<Rightarrow> (True, s)
   | Some d \<Rightarrow>
       if enable_file (logger_config d) \<and> log_file (logger_config d) \<noteq> None
       then (case logger_answer s of (ok, s1) \<Rightarrow>
         let s2 = s1\<lparr>logger_data := Some (d\<lparr>log_fp := ok\<rparr>)\<rparr> in
         if ok then (True, log_info_sync (plain_text text) now s2) else (False, log_error_sync (plain_text text) now s2))
       else (True, s))"

definition start_worker :: "string \<Rightarrow> string \<Rightarrow> logger \<Rightarrow> bool \<times> logger" where
  "start_worker text now s = (case logger_data s of
     None \<Rightarrow> (True, s)
   | Some d \<Rightarrow>
       if enable_async (logger_config d)
       then (case logger_answer (s\<lparr>logger_data := Some (d\<lparr>worker_running := True\<rparr>)\<rparr>) of (ok, s1) \<Rightarrow>
         if ok then (True, log_info_sync (plain_text text) now s1) else (False, log_error_sync (plain_text text) now s1))
       else (True, s))"

definition logger_module_start :: "bool \<Rightarrow> string \<Rightarrow> string \<Rightarrow> logger \<Rightarrow> int \<times> logger" where
  "logger_module_start self text now s =
     (if \<not> self \<or> logger_data s = None then (-1, s)
      else case open_log_file text now s of (opened, s1) \<Rightarrow>
        if \<not> opened then (-1, s1)
        else case start_worker text now s1 of (started, s2) \<Rightarrow>
          if \<not> started then (-1, s2)
          else (case logger_data s2 of
              None \<Rightarrow> (0, s2)
            | Some d \<Rightarrow> (0, log_info_sync (plain_text text) now (s2\<lparr>logger_data := Some (d\<lparr>flush_timer := True\<rparr>)\<rparr>))))"

text \<open>
  Stopping while a worker runs: the flag is cleared and the worker joined. The worker may be
  inside the body of its loop at that moment (\<open>inside\<close>), and then finishes that round before
  it sees the flag. The queue is then cleared.
\<close>

definition logger_module_stop :: "bool \<Rightarrow> bool \<Rightarrow> string \<Rightarrow> string \<Rightarrow> logger \<Rightarrow> (int \<times> logger) outcome" where
  "logger_module_stop self inside text now s = (case logger_data s of
     None \<Rightarrow> Ret (-1, s)
   | Some d \<Rightarrow> if \<not> self then Ret (-1, s) else
       let s1 = s\<lparr>logger_data := Some (d\<lparr>flush_timer := False\<rparr>)\<rparr> in
       obind
         (if worker_running d
          then let s2 = s\<lparr>logger_data := Some (d\<lparr>flush_timer := False, worker_running := False\<rparr>)\<rparr> in
            obind (if inside
                   then (case logger_worker_body now s2 of Some r \<Rightarrow> r | None \<Rightarrow> Ret s2)
                   else Ret s2)
              (\<lambda>s3. Ret (log_info_sync (plain_text text) now s3))
          else Ret s1)
         (\<lambda>s4. Ret (0, log_info_sync (plain_text text) now (log_queue_clear s4))))"

definition logger_module_cleanup :: "bool \<Rightarrow> string \<Rightarrow> string \<Rightarrow> logger \<Rightarrow> (int \<times> logger) outcome" where
  "logger_module_cleanup self text now s =
     (if \<not> self \<or> logger_data s = None then Ret (-1, s)
      else obind (log_info (plain_text text) now (s\<lparr>logger_data := None\<rparr>)) (\<lambda>s1. Ret (0, s1)))"

definition logger_module_set_config ::
  "bool \<Rightarrow> logger_config option \<Rightarrow> string \<Rightarrow> string \<Rightarrow> logger \<Rightarrow> (int \<times> logger) outcome" where
  "logger_module_set_config self config text now s = (case (logger_data s, config) of
     (Some d, Some c) \<Rightarrow> if \<not> self then Ret (-1, s)
       else (case (case log_file c of None \<Rightarrow> (None, s)
                   | Some path \<Rightarrow> (case logger_answer s of (ok, s1) \<Rightarrow> (if ok then Some path else None, s1))) of
         (path, s1) \<Rightarrow>
           obind (log_info (plain_text text) now (s1\<lparr>logger_data := Some
               (d\<lparr>logger_config := c\<lparr>log_file := path\<rparr>,
                  message_queue := (message_queue d)\<lparr>log_max := cfg_max_queue c\<rparr>\<rparr>),
               global_log_level := cfg_level c\<rparr>))
             (\<lambda>s2. Ret (0, s2)))
   | _ \<Rightarrow> Ret (-1, s))"

definition logger_module_get_config :: "bool \<Rightarrow> logger \<Rightarrow> logger_config option" where
  "logger_module_get_config self s = (if self then map_option logger_config (logger_data s) else None)"

definition logger_set_level :: "log_level \<Rightarrow> logger \<Rightarrow> logger" where
  "logger_set_level lv s = s\<lparr>global_log_level := lv\<rparr>"

definition logger_get_level :: "logger \<Rightarrow> log_level" where
  "logger_get_level s = global_log_level s"

definition logger_enable_async :: "bool \<Rightarrow> logger \<Rightarrow> int \<times> logger" where
  "logger_enable_async enable s = (case logger_data s of
     None \<Rightarrow> (-1, s)
   | Some d \<Rightarrow> (0, s\<lparr>logger_data := Some (d\<lparr>logger_config := (logger_config d)\<lparr>enable_async := enable\<rparr>\<rparr>)\<rparr>))"

text \<open>The wait of \<open>logger_flush\<close>: before each check of the queue the worker may have taken its
  steps; \<open>rounds\<close> holds the times of its rounds. None: the queue is not yet empty.\<close>

fun logger_flush_wait :: "string list \<Rightarrow> logger \<Rightarrow> (int \<times> logger) outcome option" where
  "logger_flush_wait rounds s =
     (if log_queue_size s = 0 then Some (Ret (0, s))
      else case rounds of
        [] \<Rightarrow> None
      | now # rest \<Rightarrow> (case logger_worker_body now s of
          None \<Rightarrow> None
        | Some (Fault e) \<Rightarrow> Some (Fault e)
        | Some (Ret s1) \<Rightarrow> logger_flush_wait rest s1))"

definition logger_flush :: "string list \<Rightarrow> logger \<Rightarrow> (int \<times> logger) outcome option" where
  "logger_flush rounds s = (if logger_data s = None then Some (Ret (-1, s)) else logger_flush_wait rounds s)"

declare logger_flush_wait.simps [simp del]

section \<open>The queue is a bounded queue\<close>

definition log_queue_ok :: "log_queue \<Rightarrow> bool" where
  "log_queue_ok q \<longleftrightarrow> log_size q = length (log_msgs q)"

interpretation log_fifo: fifo_queue queue_push queue_pop log_msgs log_max log_queue_ok
proof
  fix q x q'
  assume ok: "log_queue_ok q"
  show "queue_push q x = None \<longleftrightarrow> log_max q \<le> length (log_msgs q)" using ok by (auto simp: queue_push_def log_queue_ok_def)
  show "queue_pop q = None \<longleftrightarrow> log_msgs q = []" using ok by (auto simp: queue_pop_def log_queue_ok_def split: list.splits)
  {
    assume "queue_push q x = Some q'"
    then have "q' = q\<lparr>log_msgs := log_msgs q @ [x], log_size := log_size q + 1\<rparr>"
      by (auto simp: queue_push_def split: if_splits)
    with ok show "mset (log_msgs q') = add_mset x (mset (log_msgs q))" "log_max q' = log_max q"
      "log_queue_ok q'" "log_msgs q' = log_msgs q @ [x]" by (simp_all add: log_queue_ok_def)
  }
  {
    assume "queue_pop q = Some (x, q')"
    then obtain ms where "log_msgs q = x # ms" "q' = q\<lparr>log_msgs := ms, log_size := log_size q - 1\<rparr>"
      by (auto simp: queue_pop_def split: if_splits list.splits)
    with ok show "log_msgs q = x # log_msgs q'" "log_max q' = log_max q" "log_queue_ok q'"
      by (simp_all add: log_queue_ok_def)
  }
qed

section \<open>Callers and worker\<close>

datatype log_event = Log log_level formatted string | Work string

fun exec_log :: "log_event \<Rightarrow> logger \<Rightarrow> logger outcome" where
  "exec_log (Log lv f now) s = log_internal_async lv f now s"
| "exec_log (Work now) s = (case logger_worker_body now s of None \<Rightarrow> Ret s | Some r \<Rightarrow> r)"

fun run_log :: "log_event list \<Rightarrow> logger \<Rightarrow> logger outcome" where
  "run_log [] s = Ret s"
| "run_log (e # es) s = obind (exec_log e s) (run_log es)"

text \<open>What was printed and what is queued, as pairs of level and text; and what a sequence of
  events asks to be logged at the level \<open>g\<close>.\<close>

definition printed :: "logger \<Rightarrow> (log_level \<times> string) list" where
  "printed s = map (\<lambda>e. (con_level e, con_text e)) (console s)"

definition pending :: "logger_private_data \<Rightarrow> (log_level \<times> string) list" where
  "pending d = map (\<lambda>m. (log_msg_level m, the (log_text m))) (log_msgs (message_queue d))"

fun logged :: "log_level \<Rightarrow> log_event list \<Rightarrow> (log_level \<times> string) list" where
  "logged g [] = []"
| "logged g (Log lv f now # es) = (if lv < g then logged g es else (lv, snprintf 1024 (expansion f)) # logged g es)"
| "logged g (Work now # es) = logged g es"

text \<open>A running logger: no allocation fails, the console is on, and every queued message has its
  text and passes the level.\<close>

definition logging :: "logger \<Rightarrow> logger_private_data \<Rightarrow> bool" where
  "logging s d \<longleftrightarrow> logger_data s = Some d \<and> logger_answers s = [] \<and> enable_console (logger_config d)
     \<and> log_queue_ok (message_queue d)
     \<and> list_all (\<lambda>m. log_text m \<noteq> None \<and> global_log_level s \<le> log_msg_level m) (log_msgs (message_queue d))"

lemma logger_answer_ok: "logger_answers s = [] \<Longrightarrow> logger_answer s = (True, s)"
proof -
  assume a: "logger_answers s = []"
  then have "s\<lparr>logger_answers := []\<rparr> = s" by simp
  with a show ?thesis by (simp add: logger_answer_def)
qed

lemma create_log_message_ok:
  assumes "logger_answers s = []" and "logger_data s = Some d"
  shows "\<exists>m. create_log_message lv text now s = (Some m, s) \<and> log_msg_level m = lv \<and> log_text m = Some text"
  using assms by (simp add: create_log_message_def logger_answer_ok Let_def)

text \<open>An asynchronous call with room in the queue only queues the message.\<close>

lemma log_async_queues:
  assumes "logger_answers s = []" and "logger_data s = Some d" and "\<not> lv < global_log_level s"
    and "log_queue_ok (message_queue d)" and "length (log_msgs (message_queue d)) < log_max (message_queue d)"
  shows "\<exists>m q. log_internal_async lv f now s = Ret (s\<lparr>logger_data := Some (d\<lparr>message_queue := q\<rparr>)\<rparr>)
    \<and> log_msg_level m = lv \<and> log_text m = Some (snprintf 1024 (expansion f))
    \<and> log_msgs q = log_msgs (message_queue d) @ [m] \<and> log_queue_ok q \<and> log_max q = log_max (message_queue d)"
proof -
  obtain m where m: "create_log_message lv (snprintf 1024 (expansion f)) now s = (Some m, s)"
    "log_msg_level m = lv" "log_text m = Some (snprintf 1024 (expansion f))"
    using create_log_message_ok [OF assms(1,2)] by blast
  obtain q where q: "queue_push (message_queue d) m = Some q"
    using log_fifo.enq_None_iff [OF assms(4), of m] assms(5) by fastforce
  have "log_msgs q = log_msgs (message_queue d) @ [m]" "log_queue_ok q" "log_max q = log_max (message_queue d)"
    using log_fifo.enq_at_end [OF assms(4) q] log_fifo.enq_invar [OF assms(4) q] log_fifo.enq_cap [OF assms(4) q] .
  moreover have "log_internal_async lv f now s = Ret (s\<lparr>logger_data := Some (d\<lparr>message_queue := q\<rparr>)\<rparr>)"
    using assms(2,3) m(1) q by (simp add: log_internal_async_def log_queue_push_def Let_def)
  ultimately show ?thesis using m(2,3) by blast
qed

text \<open>A round of the worker on a queue that is not empty prints the first message.\<close>

lemma write_to_file_frame:
  "logger_data (write_log_to_file now text s) = logger_data s"
  "global_log_level (write_log_to_file now text s) = global_log_level s"
  "console (write_log_to_file now text s) = console s"
  "logger_answers (write_log_to_file now text s) = logger_answers s"
  by (simp_all add: write_log_to_file_def split: option.splits)

lemma worker_prints_first:
  assumes "logging s d" and "log_msgs (message_queue d) = m # ms"
  shows "\<exists>s' q. logger_worker_body now s = Some (Ret s')
    \<and> logging s' (d\<lparr>message_queue := q\<rparr>) \<and> log_msgs q = ms \<and> log_max q = log_max (message_queue d)
    \<and> printed s' = printed s @ [(log_msg_level m, the (log_text m))] \<and> global_log_level s' = global_log_level s"
proof -
  let ?q = "(message_queue d)\<lparr>log_msgs := ms, log_size := log_size (message_queue d) - 1\<rparr>"
  let ?s = "s\<lparr>logger_data := Some (d\<lparr>message_queue := ?q\<rparr>)\<rparr>"
  from assms obtain body where tx: "log_text m = Some body" "\<not> log_msg_level m < global_log_level s"
    by (auto simp: logging_def)
  have sz: "log_size (message_queue d) = Suc (length ms)"
    using assms by (simp add: logging_def log_queue_ok_def)
  then have pop: "log_queue_pop s = Popped (Some m) ?s"
    using assms by (simp add: log_queue_pop_def queue_pop_def logging_def)
  obtain s' where s': "worker_write m now ?s = Ret s'" "logger_data s' = logger_data ?s"
    "global_log_level s' = global_log_level s" "logger_answers s' = logger_answers s"
    "console s' = console s @ [\<lparr>con_time = now, con_level = log_msg_level m, con_text = body\<rparr>]"
    using assms(1) tx
    by (simp add: worker_write_def write_log_to_console_def logging_def Let_def write_to_file_frame)
  have "logging s' (d\<lparr>message_queue := ?q\<rparr>)"
    using assms s' sz by (simp add: logging_def log_queue_ok_def)
  with pop s' tx(1) show ?thesis
    by (intro exI [of _ s'] exI [of _ ?q]) (simp add: logger_worker_body_def printed_def)
qed

lemma worker_idle:
  assumes "logging s d" and "log_msgs (message_queue d) = []"
  shows "logger_worker_body now s = (if worker_running d then None else Some (Ret s))"
  using assms by (simp add: logger_worker_body_def log_queue_pop_def queue_pop_def logging_def log_queue_ok_def)

text \<open>A synchronous message at or above the level is printed at once; the private data stays.\<close>

lemma sync_prints:
  assumes "\<not> LEVEL_INFO < global_log_level s"
  shows "printed (log_info_sync (plain_text body) now s) = printed s @ [(LEVEL_INFO, snprintf 1024 body)]"
    "logger_data (log_info_sync (plain_text body) now s) = logger_data s"
    "global_log_level (log_info_sync (plain_text body) now s) = global_log_level s"
  using assms
  by (auto simp: log_info_sync_def log_internal_sync_def write_log_to_console_def plain_text_def
    write_to_file_frame printed_def Let_def split: option.splits)

lemma clear_frame:
  "printed (log_queue_clear s) = printed s" "global_log_level (log_queue_clear s) = global_log_level s"
  "log_queue_size (log_queue_clear s) = 0"
  by (simp_all add: log_queue_clear_def printed_def log_queue_size_def split: option.splits)

lemma sync_prints_cleared:
  assumes "\<not> LEVEL_INFO < global_log_level s"
  shows "printed (log_info_sync (plain_text body) now (log_queue_clear (log_info_sync (plain_text body) now s)))
      = printed s @ [(LEVEL_INFO, snprintf 1024 body), (LEVEL_INFO, snprintf 1024 body)]"
    "log_queue_size (log_info_sync (plain_text body) now (log_queue_clear (log_info_sync (plain_text body) now s))) = 0"
proof -
  let ?s = "log_info_sync (plain_text body) now s"
  have lv: "\<not> LEVEL_INFO < global_log_level (log_queue_clear ?s)"
    using assms by (simp add: clear_frame sync_prints(3) [OF assms])
  show "printed (log_info_sync (plain_text body) now (log_queue_clear ?s))
      = printed s @ [(LEVEL_INFO, snprintf 1024 body), (LEVEL_INFO, snprintf 1024 body)]"
    by (simp add: sync_prints(1) [OF lv] sync_prints(1) [OF assms] clear_frame)
  show "log_queue_size (log_info_sync (plain_text body) now (log_queue_clear ?s)) = 0"
    using clear_frame(3) [of ?s] by (simp add: log_queue_size_def sync_prints(2) [OF lv])
qed

lemma run_log_order:
  assumes "logging s d" and "length (log_msgs (message_queue d)) + length es \<le> log_max (message_queue d)"
  shows "\<exists>s' d'. run_log es s = Ret s' \<and> logging s' d'
    \<and> printed s' @ pending d' = printed s @ pending d @ logged (global_log_level s) es"
  using assms
proof (induction es arbitrary: s d)
  case Nil
  then show ?case by auto
next
  case (Cons e es)
  show ?case
  proof (cases e)
    case (Log lv f now)
    show ?thesis
    proof (cases "lv < global_log_level s")
      case True
      with Cons Log show ?thesis by (auto simp: log_internal_async_def)
    next
      case False
      obtain m q where q: "log_internal_async lv f now s = Ret (s\<lparr>logger_data := Some (d\<lparr>message_queue := q\<rparr>)\<rparr>)"
        "log_msg_level m = lv" "log_text m = Some (snprintf 1024 (expansion f))"
        "log_msgs q = log_msgs (message_queue d) @ [m]" "log_queue_ok q" "log_max q = log_max (message_queue d)"
        using log_async_queues [of s d lv f now] Cons.prems False by (auto simp: logging_def)
      let ?s = "s\<lparr>logger_data := Some (d\<lparr>message_queue := q\<rparr>)\<rparr>" and ?d = "d\<lparr>message_queue := q\<rparr>"
      have "logging ?s ?d" using Cons.prems(1) q(2-5) False by (auto simp: logging_def)
      moreover have "pending ?d = pending d @ [(lv, snprintf 1024 (expansion f))]"
        using q(2-4) by (simp add: pending_def)
      ultimately show ?thesis
        using Cons.IH [of ?s ?d] Cons.prems(2) q(1,4,6) Log False by (auto simp: printed_def)
    qed
  next
    case (Work now)
    show ?thesis
    proof (cases "log_msgs (message_queue d)")
      case Nil
      with worker_idle [OF Cons.prems(1) Nil] Cons Work show ?thesis by (auto split: if_splits)
    next
      case (Cons m ms)
      from worker_prints_first [OF Cons.prems(1) Cons] obtain s1 q where
        w: "logger_worker_body now s = Some (Ret s1)" "logging s1 (d\<lparr>message_queue := q\<rparr>)" "log_msgs q = ms"
          "log_max q = log_max (message_queue d)" "printed s1 = printed s @ [(log_msg_level m, the (log_text m))]"
          "global_log_level s1 = global_log_level s" by blast
      with Cons.IH [OF w(2)] Cons.prems(2) Cons Work show ?thesis by (auto simp: pending_def)
    qed
  qed
qed

section \<open>Properties\<close>


definition demo_logger_data :: logger_private_data where
  "demo_logger_data = \<lparr>log_fp = False, logger_config = logger_default_config,
     message_queue = \<lparr>log_msgs = [], log_size = 0, log_max = 10\<rparr>, worker_running = True, flush_timer = True\<rparr>"

definition demo_logger :: logger where
  "demo_logger = logger_zero\<lparr>logger_data := Some demo_logger_data\<rparr>"

lemma demo_logging: "logging demo_logger demo_logger_data"
  by (simp add: logging_def demo_logger_def demo_logger_data_def logger_zero_def logger_default_config_def log_queue_ok_def)


text \<open>A flush returns when the worker has had as many rounds as there are queued messages, and by
  then every queued message has been printed, in order.\<close>

theorem flush_prints_everything:
  assumes "logging s d" and "length (log_msgs (message_queue d)) \<le> length rounds"
  shows "\<exists>s'. logger_flush rounds s = Some (Ret (0, s')) \<and> printed s' = printed s @ pending d
    \<and> log_queue_size s' = 0"
proof -
  have "\<exists>s'. logger_flush_wait rounds s = Some (Ret (0, s')) \<and> printed s' = printed s @ pending d
    \<and> log_queue_size s' = 0"
    using assms
  proof (induction rounds arbitrary: s d)
    case Nil
    then show ?case
      by (simp add: logger_flush_wait.simps [of _ s] log_queue_size_def logging_def log_queue_ok_def pending_def)
  next
    case (Cons now rounds)
    show ?case
    proof (cases "log_msgs (message_queue d)")
      case Nil
      with Cons.prems show ?thesis
        by (simp add: logger_flush_wait.simps [of _ s] log_queue_size_def logging_def log_queue_ok_def pending_def)
    next
      case (Cons m ms)
      from worker_prints_first [OF Cons.prems(1) Cons] obtain s1 q where
        w: "logger_worker_body now s = Some (Ret s1)" "logging s1 (d\<lparr>message_queue := q\<rparr>)" "log_msgs q = ms"
          "printed s1 = printed s @ [(log_msg_level m, the (log_text m))]" by blast
      have "log_queue_size s \<noteq> 0"
        using Cons.prems(1) Cons by (simp add: log_queue_size_def logging_def log_queue_ok_def)
      with Cons.IH [OF w(2)] w Cons.prems(2) Cons show ?thesis
        by (auto simp: logger_flush_wait.simps [of _ s] pending_def)
    qed
  qed
  with assms(1) show ?thesis by (simp add: logger_flush_def logging_def)
qed

theorem flush_prints_everything_witness:
  "\<exists>s'. logger_flush [] demo_logger = Some (Ret (0, s')) \<and> printed s' = [] \<and> log_queue_size s' = 0"
  using flush_prints_everything [OF demo_logging, of "[]"]
  by (simp add: demo_logger_def demo_logger_data_def logger_zero_def printed_def pending_def)

text \<open>Stopping the logger throws queued messages away: the worker prints at most one more, the
  rest of the queue is cleared, and only the two messages of the stop itself are printed.\<close>

theorem stop_discards_queued:
  assumes "logging s d" and "worker_running d" and "global_log_level s \<le> LEVEL_INFO"
  shows "\<exists>s'. logger_module_stop True inside text now s = Ret (0, s') \<and> log_queue_size s' = 0
    \<and> printed s' = printed s @ (if inside then take 1 (pending d) else [])
        @ replicate 2 (LEVEL_INFO, snprintf 1024 text)"
proof -
  let ?d = "d\<lparr>flush_timer := False, worker_running := False\<rparr>"
  let ?s = "s\<lparr>logger_data := Some ?d\<rparr>"
  have lg: "logging ?s ?d" using assms(1) by (simp add: logging_def)
  have "\<exists>s3 d3. (if inside then (case logger_worker_body now ?s of Some r \<Rightarrow> r | None \<Rightarrow> Ret ?s) else Ret ?s) = Ret s3
    \<and> logging s3 d3 \<and> global_log_level s3 = global_log_level s
    \<and> printed s3 = printed s @ (if inside then take 1 (pending d) else [])"
  proof (cases "inside \<and> log_msgs (message_queue d) \<noteq> []")
    case True
    then obtain m ms where m: "log_msgs (message_queue ?d) = m # ms" by (cases "log_msgs (message_queue d)") auto
    from worker_prints_first [OF lg m, of now] True m show ?thesis by (auto simp: printed_def pending_def)
  next
    case False
    with worker_idle [OF lg, of now] lg show ?thesis by (auto simp: printed_def pending_def)
  qed
  then obtain s3 d3 where s3: "(if inside then (case logger_worker_body now ?s of Some r \<Rightarrow> r | None \<Rightarrow> Ret ?s) else Ret ?s) = Ret s3"
    "logging s3 d3" "global_log_level s3 = global_log_level s"
    "printed s3 = printed s @ (if inside then take 1 (pending d) else [])" by blast
  have lv: "\<not> LEVEL_INFO < global_log_level s3" using assms(3) s3(3) by simp
  from assms(1,2) s3(1) have "logger_module_stop True inside text now s
      = Ret (0, log_info_sync (plain_text text) now (log_queue_clear (log_info_sync (plain_text text) now s3)))"
    by (cases inside) (simp_all add: logger_module_stop_def logging_def Let_def)
  with sync_prints [OF lv] sync_prints_cleared [OF lv] s3(2,4) show ?thesis
    by (simp add: logging_def numeral_2_eq_2)
qed

definition queued_logger_data :: logger_private_data where
  "queued_logger_data = demo_logger_data\<lparr>message_queue := \<lparr>log_msgs =
       [\<lparr>log_msg_level = LEVEL_ERROR, log_text = Some ''x'', log_time = None\<rparr>,
        \<lparr>log_msg_level = LEVEL_FATAL, log_text = Some ''y'', log_time = None\<rparr>], log_size = 2, log_max = 10\<rparr>\<rparr>"

theorem stop_discards_queued_witness:
  "\<exists>s'. logger_module_stop True True ''stop'' ''t'' (logger_zero\<lparr>logger_data := Some queued_logger_data\<rparr>) = Ret (0, s')
    \<and> log_queue_size s' = 0
    \<and> printed s' = [(LEVEL_ERROR, ''x''), (LEVEL_INFO, ''stop''), (LEVEL_INFO, ''stop'')]"
proof -
  let ?s = "logger_zero\<lparr>logger_data := Some queued_logger_data\<rparr>"
  have "logging ?s queued_logger_data" "worker_running queued_logger_data" "global_log_level ?s \<le> LEVEL_INFO"
    by (simp_all add: logging_def queued_logger_data_def demo_logger_data_def logger_zero_def
      logger_default_config_def log_queue_ok_def less_eq_log_level_def)
  from stop_discards_queued [OF this, of True "''stop''" "''t''"] show ?thesis
    by (simp add: printed_def pending_def logger_zero_def queued_logger_data_def snprintf_def numeral_2_eq_2)
qed

text \<open>Turning asynchronous logging off does not make logging synchronous: the start creates no
  worker, and a message logged then is put into the queue and printed nowhere.\<close>

theorem async_off_prints_nothing:
  assumes "logging s d" and "\<not> worker_running d" and "\<not> enable_async (logger_config d)"
    and "\<not> enable_file (logger_config d)" and "global_log_level s \<le> lv"
    and "length (log_msgs (message_queue d)) < log_max (message_queue d)"
  shows "\<exists>s1 s2. logger_module_start True text now s = (0, s1)
    \<and> log_internal_async lv f now s1 = Ret s2
    \<and> console s2 = console s1 \<and> file_out s2 = file_out s1
    \<and> log_queue_size s2 = log_queue_size s + 1
    \<and> (\<exists>d2. logger_data s2 = Some d2 \<and> \<not> worker_running d2)"
proof -
  define s1 where "s1 = log_info_sync (plain_text text) now (s\<lparr>logger_data := Some (d\<lparr>flush_timer := True\<rparr>)\<rparr>)"
  have start: "logger_module_start True text now s = (0, s1)"
    using assms(1,3,4) by (simp add: logger_module_start_def open_log_file_def start_worker_def s1_def logging_def)
  have s1: "logger_data s1 = Some (d\<lparr>flush_timer := True\<rparr>)" "global_log_level s1 = global_log_level s"
    "logger_answers s1 = []"
    using assms(1,4) by (simp_all add: s1_def log_info_sync_def log_internal_sync_def write_log_to_console_def
      logging_def Let_def)
  have lv: "\<not> lv < global_log_level s1" using s1(2) assms(5) by simp
  obtain m q where q: "log_internal_async lv f now s1
        = Ret (s1\<lparr>logger_data := Some (d\<lparr>flush_timer := True, message_queue := q\<rparr>)\<rparr>)"
      "log_msgs q = log_msgs (message_queue d) @ [m]" "log_queue_ok q"
    using log_async_queues [OF s1(3,1) lv, of f now] assms(1,6) by (auto simp: logging_def)
  have "log_queue_size (s1\<lparr>logger_data := Some (d\<lparr>flush_timer := True, message_queue := q\<rparr>)\<rparr>) = log_queue_size s + 1"
    using assms(1) q(2,3) by (simp add: log_queue_size_def logging_def log_queue_ok_def)
  with start q(1) assms(2) show ?thesis by simp
qed

definition quiet_logger_data :: logger_private_data where
  "quiet_logger_data = demo_logger_data\<lparr>logger_config := logger_default_config\<lparr>enable_async := False\<rparr>,
     worker_running := False\<rparr>"

theorem async_off_prints_nothing_witness:
  "\<exists>s1 s2. logger_module_start True ''up'' ''t'' (logger_zero\<lparr>logger_data := Some quiet_logger_data\<rparr>) = (0, s1)
    \<and> log_internal_async LEVEL_FATAL (plain_text ''lost'') ''t'' s1 = Ret s2
    \<and> console s2 = console s1 \<and> file_out s2 = file_out s1"
proof -
  let ?s = "logger_zero\<lparr>logger_data := Some quiet_logger_data\<rparr>"
  have "logging ?s quiet_logger_data" "\<not> worker_running quiet_logger_data"
    "\<not> enable_async (logger_config quiet_logger_data)" "\<not> enable_file (logger_config quiet_logger_data)"
    "global_log_level ?s \<le> LEVEL_FATAL"
    "length (log_msgs (message_queue quiet_logger_data)) < log_max (message_queue quiet_logger_data)"
    by (simp_all add: logging_def quiet_logger_data_def demo_logger_data_def logger_zero_def
      logger_default_config_def log_queue_ok_def less_eq_log_level_def)
  from async_off_prints_nothing [OF this, of "''up''" "''t''" "plain_text ''lost''"] show ?thesis by auto
qed

text \<open>When the queue is full, a message whose format has conversions is formatted a second time
  from a \<open>va_list\<close> that the first formatting has consumed, which is undefined.\<close>

theorem full_queue_reuses_va_list:
  assumes "logging s d" and "log_max (message_queue d) \<le> length (log_msgs (message_queue d))"
    and "global_log_level s \<le> lv" and "reads_args f"
  shows "log_internal_async lv f now s = Fault Va_list_reuse"
proof -
  obtain m where m: "create_log_message lv (snprintf 1024 (expansion f)) now s = (Some m, s)"
    using create_log_message_ok [of s d lv "snprintf 1024 (expansion f)" now] assms(1) by (auto simp: logging_def)
  have "queue_push (message_queue d) m = None"
    using log_fifo.enq_None_iff [of "message_queue d" m] assms(1,2) by (simp add: logging_def)
  with m assms show ?thesis
    by (simp add: log_internal_async_def log_queue_push_def logging_def Let_def)
qed

theorem full_queue_reuses_va_list_witness:
  "log_internal_async LEVEL_ERROR \<lparr>expansion = ''code 3'', reads_args = True\<rparr> ''t''
     (logger_zero\<lparr>logger_data := Some (demo_logger_data\<lparr>message_queue := \<lparr>log_msgs = [], log_size = 0, log_max = 0\<rparr>\<rparr>)\<rparr>)
   = Fault Va_list_reuse"
  by (rule full_queue_reuses_va_list [of _ "demo_logger_data\<lparr>message_queue := \<lparr>log_msgs = [], log_size = 0, log_max = 0\<rparr>\<rparr>"])
    (simp_all add: logging_def demo_logger_data_def logger_zero_def logger_default_config_def log_queue_ok_def
      less_eq_log_level_def)

end
