(* ===== verification/C_Numbers.thy ===== *)
theory C_Numbers
  imports Prelude Complex_Main
begin

text \<open>
  What the program uses of the C library for numbers and text: white space, decimal printing
  and reading of integers (\<open>%d\<close>, \<open>atoi\<close>), and floating point numbers as rational values with the
  rounding of IEEE 754 (\<open>strtod\<close>, the conversion from double to float, \<open>%.6f\<close>). The sign of a
  floating-point zero and the payload of a NaN are not represented.
\<close>

section \<open>Characters\<close>

definition NL :: char where "NL = CHR 0x0A"
definition CR :: char where "CR = CHR 0x0D"
definition TAB :: char where "TAB = CHR 0x09"
definition NUL :: char where "NUL = CHR 0x00"

definition is_space :: "char \<Rightarrow> bool" where
  "is_space c \<longleftrightarrow> c \<in> {CHR '' '', CHR 0x09, CHR 0x0A, CHR 0x0B, CHR 0x0C, CHR 0x0D}"

definition is_digit :: "char \<Rightarrow> bool" where
  "is_digit c \<longleftrightarrow> 48 \<le> (of_char c :: nat) \<and> (of_char c :: nat) \<le> 57"

definition digit_val :: "char \<Rightarrow> nat" where
  "digit_val c = of_char c - 48"

definition digit_char :: "nat \<Rightarrow> char" where
  "digit_char d = char_of (48 + d)"

text \<open>A C string ends at the first NUL.\<close>

definition c_str :: "string \<Rightarrow> string" where
  "c_str s = takeWhile (\<lambda>c. c \<noteq> NUL) s"

lemma c_str_id [simp]: "NUL \<notin> set s \<Longrightarrow> c_str s = s"
  by (auto simp: c_str_def takeWhile_eq_all_conv)

definition lower :: "char \<Rightarrow> char" where
  "lower c = (if 65 \<le> (of_char c :: nat) \<and> (of_char c :: nat) \<le> 90 then char_of ((of_char c :: nat) + 32) else c)"

section \<open>Integers\<close>

fun print_nat :: "nat \<Rightarrow> string" where
  "print_nat n = (if n < 10 then [digit_char n] else print_nat (n div 10) @ [digit_char (n mod 10)])"

declare print_nat.simps [simp del]

definition print_int :: "int \<Rightarrow> string" where
  "print_int i = (if i < 0 then CHR ''-'' # print_nat (nat (- i)) else print_nat (nat i))"

definition nat_of_digits :: "string \<Rightarrow> nat" where
  "nat_of_digits s = foldl (\<lambda>a c. 10 * a + digit_val c) 0 s"

definition parse_sign :: "string \<Rightarrow> bool \<times> string" where
  "parse_sign s = (case s of
     c # cs \<Rightarrow> if c = CHR ''-'' then (True, cs) else if c = CHR ''+'' then (False, cs) else (False, s)
   | [] \<Rightarrow> (False, s))"

text \<open>\<open>strtol\<close> saturates at the range of \<open>long\<close>; \<open>atoi\<close> keeps the low 32 bits of its result.\<close>

definition strtol :: "string \<Rightarrow> int" where
  "strtol s = (case parse_sign (dropWhile is_space s) of (neg, r) \<Rightarrow>
     let v = int (nat_of_digits (takeWhile is_digit r)) in
     if neg then max (- (2 ^ 63)) (- v) else min (2 ^ 63 - 1) v)"

definition atoi :: "string \<Rightarrow> int" where
  "atoi s = signed_take_bit 31 (strtol s)"

lemma digit_char [simp]: "d < 10 \<Longrightarrow> is_digit (digit_char d)" "d < 10 \<Longrightarrow> digit_val (digit_char d) = d"
  by (simp_all add: is_digit_def digit_char_def digit_val_def of_char_of)

lemma digit_chars:
  "digit_char 0 = CHR ''0''" "digit_char 1 = CHR ''1''" "digit_char 2 = CHR ''2''" "digit_char 3 = CHR ''3''"
  "digit_char 4 = CHR ''4''" "digit_char 5 = CHR ''5''" "digit_char 6 = CHR ''6''" "digit_char 7 = CHR ''7''"
  "digit_char 8 = CHR ''8''" "digit_char 9 = CHR ''9''"
  by code_simp+

lemma print_nat_digits: "list_all is_digit (print_nat n)"
proof (induction n rule: print_nat.induct)
  case (1 n)
  then show ?case by (cases "n < 10") (simp_all add: print_nat.simps [of n])
qed

lemma print_nat_not_Nil [simp]: "print_nat n \<noteq> []"
  by (simp add: print_nat.simps [of n])

lemma nat_of_print_nat [simp]: "nat_of_digits (print_nat n) = n"
proof (induction n rule: print_nat.induct)
  case (1 n)
  then show ?case by (cases "n < 10") (simp_all add: print_nat.simps [of n] nat_of_digits_def)
qed

lemma digit_not_special:
  "is_digit c \<Longrightarrow> \<not> is_space c \<and> c \<noteq> CHR ''-'' \<and> c \<noteq> CHR ''+'' \<and> c \<noteq> CHR ''='' \<and> c \<noteq> CHR ''#'' \<and> c \<noteq> CHR ''.''
    \<and> c \<noteq> NL \<and> c \<noteq> CR \<and> c \<noteq> NUL"
  by (auto simp: is_digit_def is_space_def NL_def CR_def NUL_def)

lemma takeWhile_all_digits: "list_all is_digit s \<Longrightarrow> takeWhile is_digit s = s"
  by (simp add: list_all_iff takeWhile_eq_all_conv)

lemma print_nat_head: "\<exists>c cs. print_nat n = c # cs \<and> is_digit c"
  using print_nat_digits [of n] by (cases "print_nat n") auto

lemma strtol_print_int:
  assumes "- (2 ^ 63) \<le> i" and "i < 2 ^ 63"
  shows "strtol (print_int i) = i"
proof (cases "i < 0")
  case True
  have "dropWhile is_space (print_int i) = print_int i" using True by (simp add: print_int_def is_space_def)
  with True assms(1) show ?thesis
    by (simp add: strtol_def print_int_def parse_sign_def takeWhile_all_digits [OF print_nat_digits])
next
  case False
  obtain c cs where c: "print_nat (nat i) = c # cs" "is_digit c" using print_nat_head by blast
  have "dropWhile is_space (print_int i) = print_int i"
    using False c digit_not_special [OF c(2)] by (simp add: print_int_def)
  moreover have "parse_sign (print_int i) = (False, print_int i)"
    using False c digit_not_special [OF c(2)] by (simp add: print_int_def parse_sign_def)
  ultimately show ?thesis
    using False assms(2) by (simp add: strtol_def print_int_def takeWhile_all_digits [OF print_nat_digits])
qed

lemma atoi_print_int:
  assumes "- (2 ^ 31) \<le> i" and "i < 2 ^ 31"
  shows "atoi (print_int i) = i"
  using assms strtol_print_int [of i] by (simp add: atoi_def signed_take_bit_int_eq_self)

section \<open>Floating point\<close>

datatype flt = Fin rat | Inf bool | NaN

definition pow2 :: "int \<Rightarrow> rat" where
  "pow2 e = (if 0 \<le> e then 2 ^ nat e else 1 / 2 ^ nat (- e))"

fun bitlen :: "nat \<Rightarrow> nat" where
  "bitlen n = (if n = 0 then 0 else Suc (bitlen (n div 2)))"

declare bitlen.simps [simp del]

definition floor_log2 :: "rat \<Rightarrow> int" where
  "floor_log2 x = (case quotient_of x of (a, b) \<Rightarrow>
     let k = int (bitlen (nat a)) - int (bitlen (nat b)) in if pow2 k \<le> x then k else k - 1)"

definition round_half_even :: "rat \<Rightarrow> int" where
  "round_half_even x = (let f = \<lfloor>x\<rfloor>; d = x - of_int f in
     if d < 1 / 2 then f else if 1 / 2 < d then f + 1 else if even f then f else f + 1)"

definition ieee_round :: "int \<Rightarrow> int \<Rightarrow> int \<Rightarrow> rat \<Rightarrow> flt" where
  "ieee_round prec emin emax x =
     (if x = 0 then Fin 0
      else let e = max emin (floor_log2 \<bar>x\<bar>);
               q = pow2 (e - (prec - 1));
               y = of_int (round_half_even (\<bar>x\<bar> / q)) * q in
        if pow2 (emax + 1) \<le> y then Inf (x < 0) else Fin (sgn x * y))"

definition to_double :: "rat \<Rightarrow> flt" where
  "to_double x = ieee_round 53 (-1022) 1023 x"

fun double_to_float :: "flt \<Rightarrow> flt" where
  "double_to_float (Fin x) = ieee_round 24 (-126) 127 x"
| "double_to_float v = v"

definition hex_val :: "char \<Rightarrow> nat option" where
  "hex_val c = (let n = (of_char (lower c) :: nat) in
     if 48 \<le> n \<and> n \<le> 57 then Some (n - 48) else if 97 \<le> n \<and> n \<le> 102 then Some (n - 87) else None)"

definition nat_of_hex :: "string \<Rightarrow> nat" where
  "nat_of_hex s = foldl (\<lambda>a c. 16 * a + (case hex_val c of Some d \<Rightarrow> d | None \<Rightarrow> 0)) 0 s"

text \<open>An optional fraction after the digits \<open>ip\<close>: the digits of the fraction and what follows.\<close>

definition parse_fraction :: "(char \<Rightarrow> bool) \<Rightarrow> string \<Rightarrow> string \<times> string" where
  "parse_fraction p s = (case s of
     c # cs \<Rightarrow> if c = CHR ''.'' then (takeWhile p cs, dropWhile p cs) else ([], s)
   | [] \<Rightarrow> ([], s))"

text \<open>An optional exponent introduced by the letter \<open>e\<close>; without digits it is not part of the
  number.\<close>

definition parse_exponent :: "char \<Rightarrow> string \<Rightarrow> int \<times> string" where
  "parse_exponent e s = (case s of
     c # cs \<Rightarrow> (case parse_sign cs of (neg, r) \<Rightarrow>
         if lower c = e \<and> takeWhile is_digit r \<noteq> []
         then (let v = int (nat_of_digits (takeWhile is_digit r)) in (if neg then - v else v, dropWhile is_digit r))
         else (0, s))
   | [] \<Rightarrow> (0, s))"

definition has_prefix :: "string \<Rightarrow> string \<Rightarrow> bool" where
  "has_prefix p s = (map lower (take (length p) s) = p)"

text \<open>The subject of \<open>strtod\<close> after the sign: its exact value (before rounding) and the rest, or None
  when no number starts here.\<close>

definition parse_decimal :: "string \<Rightarrow> (rat \<times> string) option" where
  "parse_decimal s = (let ip = takeWhile is_digit s in
     case parse_fraction is_digit (dropWhile is_digit s) of (fp, r) \<Rightarrow>
       if ip = [] \<and> fp = [] then None
       else case parse_exponent CHR ''e'' r of (e, r1) \<Rightarrow>
         let m = (of_nat (nat_of_digits (ip @ fp)) :: rat); x = e - int (length fp) in
         Some (if 0 \<le> x then m * 10 ^ nat x else m / 10 ^ nat (- x), r1))"

definition parse_hexadecimal :: "string \<Rightarrow> (rat \<times> string) option" where
  "parse_hexadecimal s =
     (if has_prefix ''0x'' s
      then (let t = drop 2 s; p = (\<lambda>c. hex_val c \<noteq> None); ip = takeWhile p t in
        case parse_fraction p (dropWhile p t) of (fp, r) \<Rightarrow>
          if ip = [] \<and> fp = [] then None
          else case parse_exponent CHR ''p'' r of (e, r1) \<Rightarrow>
            Some ((of_nat (nat_of_hex (ip @ fp)) :: rat) * pow2 (e - 4 * int (length fp)), r1))
      else None)"

text \<open>A NaN may carry a parenthesised sequence of letters, digits and underscores.\<close>

definition is_nan_char :: "char \<Rightarrow> bool" where
  "is_nan_char c \<longleftrightarrow> is_digit c \<or> c = CHR ''_'' \<or> (97 \<le> (of_char (lower c) :: nat) \<and> (of_char (lower c) :: nat) \<le> 122)"

definition skip_nan_payload :: "string \<Rightarrow> string" where
  "skip_nan_payload s = (case s of
     c # cs \<Rightarrow> (case dropWhile is_nan_char cs of
         d # ds \<Rightarrow> if c = CHR ''('' \<and> d = CHR '')'' then ds else s
       | [] \<Rightarrow> s)
   | [] \<Rightarrow> s)"

text \<open>The value and the rest of the text; when there is no number the value is 0 and the rest is the
  whole text.\<close>

definition strtod :: "string \<Rightarrow> flt \<times> string" where
  "strtod s = (case parse_sign (dropWhile is_space s) of (neg, r) \<Rightarrow>
     if has_prefix ''infinity'' r then (Inf neg, drop 8 r)
     else if has_prefix ''inf'' r then (Inf neg, drop 3 r)
     else if has_prefix ''nan'' r then (NaN, skip_nan_payload (drop 3 r))
     else case parse_hexadecimal r of
       Some (x, t) \<Rightarrow> (to_double (if neg then - x else x), t)
     | None \<Rightarrow> (case parse_decimal r of
         Some (x, t) \<Rightarrow> (to_double (if neg then - x else x), t)
       | None \<Rightarrow> (Fin 0, s)))"

text \<open>What \<open>strtod\<close> leaves is no longer than what it was given.\<close>

lemma parse_sign_rest: "length (snd (parse_sign s)) \<le> length s"
  by (simp add: parse_sign_def split: list.split)

lemma parse_fraction_rest: "length (snd (parse_fraction p s)) \<le> length s"
  by (auto simp: parse_fraction_def length_dropWhile_le le_Suc_eq split: list.split)

lemma parse_exponent_rest: "length (snd (parse_exponent e s)) \<le> length s"
proof (cases s)
  case (Cons c cs)
  obtain neg r where p: "parse_sign cs = (neg, r)" by (cases "parse_sign cs")
  have "length (dropWhile is_digit r) \<le> length r" by (rule length_dropWhile_le)
  with parse_sign_rest [of cs] p show ?thesis by (simp add: parse_exponent_def Cons Let_def)
qed (simp add: parse_exponent_def)

lemma parse_decimal_rest: "parse_decimal s = Some (x, t) \<Longrightarrow> length t \<le> length s"
  using parse_fraction_rest [of is_digit "dropWhile is_digit s"] length_dropWhile_le [of is_digit s]
    parse_exponent_rest [of "CHR ''e''" "snd (parse_fraction is_digit (dropWhile is_digit s))"]
  by (auto simp: parse_decimal_def Let_def split: prod.splits if_splits)

lemma parse_hexadecimal_rest: "parse_hexadecimal s = Some (x, t) \<Longrightarrow> length t \<le> length s"
proof -
  define p where "p = (\<lambda>c. hex_val c \<noteq> None)"
  assume "parse_hexadecimal s = Some (x, t)"
  then show ?thesis
    using parse_fraction_rest [of p "dropWhile p (drop 2 s)"] length_dropWhile_le [of p "drop 2 s"]
      parse_exponent_rest [of "CHR ''p''" "snd (parse_fraction p (dropWhile p (drop 2 s)))"]
    by (auto simp: parse_hexadecimal_def Let_def p_def [symmetric] simp del: not_None_eq split: prod.splits if_splits)
qed

lemma skip_nan_payload_rest: "length (skip_nan_payload s) \<le> length s"
proof (cases s)
  case (Cons c cs)
  have "length (dropWhile is_nan_char cs) \<le> length cs" by (rule length_dropWhile_le)
  then show ?thesis by (auto simp: skip_nan_payload_def Cons split: list.split)
qed (simp add: skip_nan_payload_def)

lemma strtod_rest: "length (snd (strtod s)) \<le> length s"
proof -
  obtain neg r where p: "parse_sign (dropWhile is_space s) = (neg, r)" by (cases "parse_sign (dropWhile is_space s)")
  have "length r \<le> length s"
    using parse_sign_rest [of "dropWhile is_space s"] length_dropWhile_le [of is_space s] p by simp
  moreover have "length (skip_nan_payload (drop 3 r)) \<le> length r"
    using skip_nan_payload_rest [of "drop 3 r"] by simp
  ultimately show ?thesis
    using parse_decimal_rest [of r] parse_hexadecimal_rest [of r]
    by (fastforce simp: strtod_def p split: option.split)
qed

definition atof :: "string \<Rightarrow> flt" where
  "atof s = fst (strtod s)"

text \<open>\<open>%.6f\<close>: the exact value rounded to six decimals.\<close>

definition pad6 :: "nat \<Rightarrow> string" where
  "pad6 n = (let d = print_nat n in replicate (6 - length d) CHR ''0'' @ d)"

fun print_fixed6 :: "flt \<Rightarrow> string" where
  "print_fixed6 (Fin x) = (let n = nat (round_half_even (\<bar>x\<bar> * 10 ^ 6)) in
     (if x < 0 then ''-'' else []) @ print_nat (n div 10 ^ 6) @ ''.'' @ pad6 (n mod 10 ^ 6))"
| "print_fixed6 (Inf neg) = (if neg then ''-inf'' else ''inf'')"
| "print_fixed6 NaN = ''nan''"

text \<open>
  \<open>%.6g\<close> of a finite value that is not zero: six significant digits; scientific notation when the
  decimal exponent is below -4 or at least 6; trailing zeros of the fraction are dropped.
\<close>

definition pow10 :: "int \<Rightarrow> rat" where
  "pow10 e = (if 0 \<le> e then 10 ^ nat e else 1 / 10 ^ nat (- e))"

definition floor_log10 :: "rat \<Rightarrow> int" where
  "floor_log10 x = (case quotient_of x of (a, b) \<Rightarrow>
     let k = int (length (print_nat (nat a))) - int (length (print_nat (nat b))) in
     if pow10 k \<le> x then k else k - 1)"

definition significant6 :: "rat \<Rightarrow> nat \<times> int" where
  "significant6 x = (let e = floor_log10 x; n = nat (round_half_even (x / pow10 (e - 5))) in
     if n = 10 ^ 6 then (10 ^ 5, e + 1) else (n, e))"

definition strip_zeros :: "string \<Rightarrow> string" where
  "strip_zeros s = rev (dropWhile (\<lambda>c. c = CHR ''0'') (rev s))"

definition with_fraction :: "string \<Rightarrow> string \<Rightarrow> string" where
  "with_fraction ip fp = (let f = strip_zeros fp in if f = [] then ip else ip @ ''.'' @ f)"

definition print_general :: "rat \<Rightarrow> string" where
  "print_general x = (case significant6 \<bar>x\<bar> of (n, e) \<Rightarrow>
     let d = print_nat n in
     (if x < 0 then ''-'' else []) @
     (if e < -4 \<or> 6 \<le> e
      then with_fraction (take 1 d) (drop 1 d) @ ''e'' @ (if e < 0 then ''-'' else ''+'')
        @ (if \<bar>e\<bar> < 10 then ''0'' else []) @ print_nat (nat \<bar>e\<bar>)
      else if 0 \<le> e then with_fraction (take (nat e + 1) d) (drop (nat e + 1) d)
      else with_fraction ''0'' (replicate (nat (- e) - 1) CHR ''0'' @ d)))"

section \<open>Reading printed integers as doubles\<close>

lemma bitlen_le: "n < 2 ^ k \<Longrightarrow> bitlen n \<le> k"
proof (induction n arbitrary: k rule: bitlen.induct)
  case (1 n)
  show ?case
  proof (cases "n = 0")
    case False
    then obtain k' where k: "k = Suc k'" using 1(2) by (cases k) auto
    then have "bitlen (n div 2) \<le> k'" using False 1 by simp
    then show ?thesis using False k by (simp add: bitlen.simps [of n])
  qed (simp add: bitlen.simps)
qed

lemma bitlen_one: "bitlen (Suc 0) = 1"
proof -
  have "bitlen (Suc 0) = Suc (bitlen 0)" by (subst bitlen.simps) simp
  also have "bitlen 0 = 0" by (subst bitlen.simps) simp
  finally show ?thesis by simp
qed

lemma round_half_even_int [simp]: "round_half_even (of_int i) = i"
  by (simp add: round_half_even_def)

lemma pow2_int: "0 \<le> k \<Longrightarrow> pow2 (- k) = 1 / of_int (2 ^ nat k)"
  by (cases "k = 0") (simp_all add: pow2_def)

text \<open>An integer of at most 53 bits is a double.\<close>

lemma to_double_int:
  assumes "\<bar>i\<bar> < 2 ^ 53"
  shows "to_double (of_int i) = Fin (of_int i)"
proof (cases "i = 0")
  case False
  define e where "e = max (- 1022) (floor_log2 \<bar>of_int i\<bar>)"
  have q: "quotient_of \<bar>of_int i :: rat\<bar> = (\<bar>i\<bar>, 1)"
    by (simp only: of_int_abs [symmetric] of_int_rat) (simp add: quotient_of_Fract normalize_def)
  have "nat \<bar>i\<bar> < 2 ^ 53" using assms by (simp add: nat_less_iff)
  then have "bitlen (nat \<bar>i\<bar>) \<le> 53" by (rule bitlen_le)
  then have "floor_log2 \<bar>of_int i\<bar> \<le> 52" by (simp add: floor_log2_def q bitlen_one Let_def)
  then have e: "e \<le> 52" by (simp add: e_def)
  define m where "m = (2::int) ^ nat (52 - e)"
  have p: "pow2 (e - 52) = 1 / of_int m" using pow2_int [of "52 - e"] e by (simp add: m_def)
  have m: "0 < m" by (simp add: m_def)
  have "\<bar>of_int i :: rat\<bar> / pow2 (e - 52) = of_int (\<bar>i\<bar> * m)" using p m by simp
  then have "of_int (round_half_even (\<bar>of_int i :: rat\<bar> / pow2 (e - 52))) * pow2 (e - 52) = \<bar>of_int i\<bar>"
    using p m by (simp only: round_half_even_int) simp
  moreover have "\<not> pow2 (1023 + 1) \<le> \<bar>of_int i :: rat\<bar>"
  proof -
    have "\<bar>i\<bar> < 2 ^ 1024" using assms by (rule less_le_trans) simp
    then have "of_int \<bar>i\<bar> < (of_int (2 ^ 1024) :: rat)" by (simp only: of_int_less_iff)
    then show ?thesis by (simp add: pow2_def)
  qed
  moreover have "sgn (of_int i :: rat) * \<bar>of_int i\<bar> = of_int i" by (simp add: sgn_mult_abs)
  ultimately show ?thesis
    using False by (simp add: to_double_def ieee_round_def Let_def e_def [symmetric])
qed (simp add: to_double_def ieee_round_def)

text \<open>A text that cannot continue a decimal number.\<close>

definition number_end :: "string \<Rightarrow> bool" where
  "number_end s = (case s of [] \<Rightarrow> True
     | c # cs \<Rightarrow> \<not> is_digit c \<and> c \<noteq> CHR ''.'' \<and> lower c \<noteq> CHR ''e'' \<and> lower c \<noteq> CHR ''x'')"

lemma lower_digit: "is_digit c \<Longrightarrow> lower c = c"
  by (simp add: is_digit_def lower_def)

lemma digit_not_letter: "is_digit c \<Longrightarrow> c \<noteq> CHR ''i'' \<and> c \<noteq> CHR ''n'' \<and> c \<noteq> CHR ''x''"
  by (auto simp: is_digit_def)

lemma parse_decimal_print_nat:
  assumes "number_end rest"
  shows "parse_decimal (print_nat n @ rest) = Some (of_nat n, rest)"
proof -
  have d: "\<And>c. c \<in> set (print_nat n) \<Longrightarrow> is_digit c" using print_nat_digits [of n] by (simp add: list_all_iff)
  have r: "takeWhile is_digit rest = []" "dropWhile is_digit rest = rest"
    using assms by (cases rest; simp add: number_end_def)+
  have "takeWhile is_digit (print_nat n @ rest) = print_nat n" "dropWhile is_digit (print_nat n @ rest) = rest"
    using d r by (simp_all add: takeWhile_append dropWhile_append)
  moreover have "parse_fraction is_digit rest = ([], rest)" "parse_exponent CHR ''e'' rest = (0, rest)"
    using assms by (cases rest; simp add: number_end_def parse_fraction_def parse_exponent_def split: prod.split)+
  ultimately show ?thesis by (simp add: parse_decimal_def)
qed

lemma not_hexadecimal:
  assumes "number_end rest"
  shows "parse_hexadecimal (print_nat n @ rest) = None"
proof -
  obtain c cs where c: "print_nat n = c # cs" "is_digit c" using print_nat_head by blast
  have "list_all is_digit cs" using print_nat_digits [of n] c(1) by simp
  then have "\<not> has_prefix ''0x'' (print_nat n @ rest)"
    using assms digit_not_letter lower_digit
    by (cases cs; cases rest) (auto simp: c has_prefix_def number_end_def)
  then show ?thesis by (simp add: parse_hexadecimal_def)
qed

lemma strtod_print_int:
  assumes "\<bar>i\<bar> < 2 ^ 53" and "number_end rest"
  shows "strtod (print_int i @ rest) = (Fin (of_int i), rest)"
proof -
  define n where "n = nat \<bar>i\<bar>"
  obtain c cs where c: "print_nat n = c # cs" "is_digit c" using print_nat_head by blast
  note s = digit_not_special [OF c(2)]
  have "\<not> has_prefix w (print_nat n @ rest)" if "w = ''infinity'' \<or> w = ''inf'' \<or> w = ''nan''" for w
    using that digit_not_letter [OF c(2)] lower_digit [OF c(2)] by (auto simp: c has_prefix_def)
  moreover have "parse_sign (dropWhile is_space (print_int i @ rest)) = (i < 0, print_nat n @ rest)"
  proof (cases "i < 0")
    case True
    then have "print_int i = CHR ''-'' # print_nat n" by (simp add: print_int_def n_def)
    then show ?thesis using True by (simp add: parse_sign_def is_space_def)
  next
    case False
    then have "print_int i = c # cs" using c(1) by (simp add: print_int_def n_def)
    then show ?thesis using s c False by (simp add: parse_sign_def)
  qed
  moreover have "(if i < 0 then - of_nat n else of_nat n :: rat) = of_int i" by (simp add: n_def)
  ultimately show ?thesis
    using to_double_int [OF assms(1)]
    by (simp add: strtod_def not_hexadecimal [OF assms(2)] parse_decimal_print_nat [OF assms(2)])
qed

end
