(* ===== verification/Config_Store.thy ===== *)
theory Config_Store
  imports Interfaces C_Numbers
begin

text \<open>
  The configuration module (src/config/config_module.c): a list of typed items, set and read by
  key, loaded from and saved to an INI-like file. The global pointer and the module's private
  data are one object, None when the module is not initialised. The file system is a map from
  paths to contents. Each function holds the module's mutex
  for its body and releases it on every path, so the mutex is not modelled; log output is not
  modelled. The answers are those of \<open>malloc\<close>, \<open>strdup\<close>, \<open>uv_mutex_init\<close> and of opening a file
  for writing, in the order of the calls.
\<close>

section \<open>Data\<close>

text \<open>The type tag and the union of a configuration item. A failed copy leaves a NULL string.\<close>

datatype config_value =
    String_value "string option" | Int_value int | Float_value flt | Bool_value bool

fun same_type :: "config_value \<Rightarrow> config_value \<Rightarrow> bool" where
  "same_type (String_value a) (String_value b) = True"
| "same_type (Int_value a) (Int_value b) = True"
| "same_type (Float_value a) (Float_value b) = True"
| "same_type (Bool_value a) (Bool_value b) = True"
| "same_type _ _ = False"

record config_item =
  item_key :: "string option"
  item_value :: config_value

record config_module_config =
  config_file :: "string option"
  auto_save :: bool
  auto_reload :: bool

record config_private_data =
  items :: "config_item list"
  module_config :: config_module_config

record config_state =
  config_data :: "config_private_data option"
  files :: "string \<Rightarrow> string option"
  config_answers :: answers

definition config_default :: config_module_config where
  "config_default = \<lparr>config_file = Some ''config/config.ini'', auto_save = True, auto_reload = False\<rparr>"

definition config_answer :: "config_state \<Rightarrow> bool \<times> config_state" where
  "config_answer s = (case next_answer (config_answers s) of (ok, as) \<Rightarrow> (ok, s\<lparr>config_answers := as\<rparr>))"

section \<open>Items\<close>

text \<open>The walk along the list; comparing with a key that is NULL is a fault.\<close>

fun find_config_item :: "string \<Rightarrow> config_item list \<Rightarrow> nat option outcome" where
  "find_config_item k [] = Ret None"
| "find_config_item k (x # xs) = (case item_key x of
     None \<Rightarrow> Fault Null_deref
   | Some k' \<Rightarrow> if k' = k then Ret (Some 0)
       else obind (find_config_item k xs) (\<lambda>r. Ret (map_option Suc r)))"

fun add_config_item :: "config_item \<Rightarrow> config_item list \<Rightarrow> config_item list" where
  "add_config_item x [] = [x]"
| "add_config_item x (y # ys) = y # add_config_item x ys"

text \<open>The item with the zero value of its type, or None when the allocation failed.\<close>

definition create_config_item :: "string \<Rightarrow> config_value \<Rightarrow> config_state \<Rightarrow> config_item option \<times> config_state" where
  "create_config_item k zero s = (case config_answer s of (ok, s1) \<Rightarrow>
     if \<not> ok then (None, s1)
     else case config_answer s1 of (ok2, s2) \<Rightarrow>
       (Some \<lparr>item_key = (if ok2 then Some k else None), item_value = zero\<rparr>, s2))"

text \<open>
  The common body of the four setters: \<open>zero\<close> is the value a new item starts with, \<open>mk\<close> computes
  the value (copying a string may fail). An item of another type is left alone and the call
  still succeeds.
\<close>

definition config_set ::
  "string \<Rightarrow> config_value \<Rightarrow> (config_state \<Rightarrow> config_value \<times> config_state) \<Rightarrow> config_state
   \<Rightarrow> (int \<times> config_state) outcome" where
  "config_set k zero mk s = (case config_data s of
     None \<Rightarrow> Fault Null_deref
   | Some d \<Rightarrow> obind (find_config_item k (items d)) (\<lambda>r. case r of
       Some i \<Rightarrow>
         if same_type (item_value (items d ! i)) zero
         then (case mk s of (v, s1) \<Rightarrow>
           Ret (0, s1\<lparr>config_data := Some (d\<lparr>items := (items d)[i := (items d ! i)\<lparr>item_value := v\<rparr>]\<rparr>)\<rparr>))
         else Ret (0, s)
     | None \<Rightarrow> (case create_config_item k zero s of
         (None, s1) \<Rightarrow> Ret (-1, s1)
       | (Some x, s1) \<Rightarrow> (case mk s1 of (v, s2) \<Rightarrow>
           Ret (0, s2\<lparr>config_data := Some (d\<lparr>items := add_config_item (x\<lparr>item_value := v\<rparr>) (items d)\<rparr>)\<rparr>)))))"

definition config_set_string :: "string option \<Rightarrow> string option \<Rightarrow> config_state \<Rightarrow> (int \<times> config_state) outcome" where
  "config_set_string key val s = (case (key, val) of
     (Some k, Some v) \<Rightarrow> config_set k (String_value None)
       (\<lambda>s. case config_answer s of (ok, s1) \<Rightarrow> (String_value (if ok then Some v else None), s1)) s
   | _ \<Rightarrow> Ret (-1, s))"

definition config_set_int :: "string option \<Rightarrow> int \<Rightarrow> config_state \<Rightarrow> (int \<times> config_state) outcome" where
  "config_set_int key v s = (case key of
     Some k \<Rightarrow> config_set k (Int_value 0) (\<lambda>s. (Int_value v, s)) s
   | None \<Rightarrow> Ret (-1, s))"

definition config_set_float :: "string option \<Rightarrow> flt \<Rightarrow> config_state \<Rightarrow> (int \<times> config_state) outcome" where
  "config_set_float key v s = (case key of
     Some k \<Rightarrow> config_set k (Float_value (Fin 0)) (\<lambda>s. (Float_value v, s)) s
   | None \<Rightarrow> Ret (-1, s))"

definition config_set_bool :: "string option \<Rightarrow> bool \<Rightarrow> config_state \<Rightarrow> (int \<times> config_state) outcome" where
  "config_set_bool key v s = (case key of
     Some k \<Rightarrow> config_set k (Bool_value False) (\<lambda>s. (Bool_value v, s)) s
   | None \<Rightarrow> Ret (-1, s))"

text \<open>The value of a key, for the getters.\<close>

definition config_lookup :: "string \<Rightarrow> config_state \<Rightarrow> config_value option outcome" where
  "config_lookup k s = (case config_data s of
     None \<Rightarrow> Fault Null_deref
   | Some d \<Rightarrow> obind (find_config_item k (items d)) (\<lambda>r.
       Ret (map_option (\<lambda>i. item_value (items d ! i)) r)))"

definition config_get_string :: "string option \<Rightarrow> string option \<Rightarrow> config_state \<Rightarrow> string option outcome" where
  "config_get_string key def s = (case key of
     None \<Rightarrow> Ret def
   | Some k \<Rightarrow> obind (config_lookup k s) (\<lambda>v. Ret (case v of Some (String_value (Some x)) \<Rightarrow> Some x | _ \<Rightarrow> def)))"

definition config_get_int :: "string option \<Rightarrow> int \<Rightarrow> config_state \<Rightarrow> int outcome" where
  "config_get_int key def s = (case key of
     None \<Rightarrow> Ret def
   | Some k \<Rightarrow> obind (config_lookup k s) (\<lambda>v. Ret (case v of Some (Int_value x) \<Rightarrow> x | _ \<Rightarrow> def)))"

definition config_get_float :: "string option \<Rightarrow> flt \<Rightarrow> config_state \<Rightarrow> flt outcome" where
  "config_get_float key def s = (case key of
     None \<Rightarrow> Ret def
   | Some k \<Rightarrow> obind (config_lookup k s) (\<lambda>v. Ret (case v of Some (Float_value x) \<Rightarrow> x | _ \<Rightarrow> def)))"

text \<open>The C result is an int: 0 or 1 for a boolean item, and the default as it was given.\<close>

definition config_get_bool :: "string option \<Rightarrow> int \<Rightarrow> config_state \<Rightarrow> int outcome" where
  "config_get_bool key def s = (case key of
     None \<Rightarrow> Ret def
   | Some k \<Rightarrow> obind (config_lookup k s) (\<lambda>v. Ret (case v of Some (Bool_value x) \<Rightarrow> (if x then 1 else 0) | _ \<Rightarrow> def)))"

section \<open>Loading\<close>

text \<open>\<open>fgets\<close> with a buffer of \<open>n + 1\<close> bytes: at most \<open>n\<close> characters, up to and including a newline.\<close>

fun fgets :: "nat \<Rightarrow> string \<Rightarrow> string \<times> string" where
  "fgets 0 s = ([], s)"
| "fgets (Suc n) [] = ([], [])"
| "fgets (Suc n) (c # cs) =
     (if c = NL then ([c], cs) else case fgets n cs of (l, r) \<Rightarrow> (c # l, r))"

text \<open>\<open>strtok\<close> with one delimiter: the token and what is left after the delimiter that ended it.\<close>

definition strtok :: "char \<Rightarrow> string \<Rightarrow> (string \<times> string) option" where
  "strtok d s = (let t = dropWhile (\<lambda>c. c = d) s in
     if t = [] then None
     else Some (takeWhile (\<lambda>c. c \<noteq> d) t, drop 1 (dropWhile (\<lambda>c. c \<noteq> d) t)))"

definition is_blank :: "char \<Rightarrow> bool" where
  "is_blank c \<longleftrightarrow> c = CHR '' '' \<or> c = TAB"

definition is_trailing :: "char \<Rightarrow> bool" where
  "is_trailing c \<longleftrightarrow> is_blank c \<or> c = NL \<or> c = CR"

text \<open>The pointer that walks back from the end stops at the first character at the latest, so that
  one is never removed.\<close>

definition trim_end :: "string \<Rightarrow> string" where
  "trim_end s = take 1 s @ rev (dropWhile is_trailing (rev (drop 1 s)))"

definition trim :: "string \<Rightarrow> string" where
  "trim s = trim_end (dropWhile is_blank s)"

text \<open>The type of a value is guessed from its text.\<close>

definition set_parsed :: "string \<Rightarrow> string \<Rightarrow> config_state \<Rightarrow> (int \<times> config_state) outcome" where
  "set_parsed k v s =
     (if v = ''true'' \<or> v = ''1'' then config_set_bool (Some k) True s
      else if v = ''false'' \<or> v = ''0'' then config_set_bool (Some k) False s
      else if CHR ''.'' \<in> set v then config_set_float (Some k) (double_to_float (atof v)) s
      else if atoi v \<noteq> 0 \<or> v = ''0'' then config_set_int (Some k) (atoi v) s
      else config_set_string (Some k) (Some v) s)"

definition load_line :: "string \<Rightarrow> config_state \<Rightarrow> config_state outcome" where
  "load_line line s = (case line of
     [] \<Rightarrow> Ret s
   | c # _ \<Rightarrow>
     if c = NL \<or> c = CR \<or> c = CHR ''#'' then Ret s
     else (case strtok CHR ''='' (takeWhile (\<lambda>c. c \<noteq> CHR ''#'') line) of
         None \<Rightarrow> Ret s
       | Some (key, rest) \<Rightarrow> (case strtok CHR ''='' rest of
           None \<Rightarrow> Ret s
         | Some (val, _) \<Rightarrow> obind (set_parsed (trim key) (trim val) s) (\<lambda>(r, s1). Ret s1))))"

text \<open>The loop over the file. Every \<open>fgets\<close> that is not at the end takes at least one character.\<close>

lemma fgets_shorter:
  assumes "fgets n (c # cs) = (l, r)" and "0 < n"
  shows "length r < Suc (length cs)"
proof -
  have le: "length (snd (fgets m t)) \<le> length t" for m t
    by (induction m t rule: fgets.induct) (auto split: prod.splits)
  obtain m where "n = Suc m" using assms(2) by (cases n) auto
  with assms(1) le [of m cs] show ?thesis by (auto split: if_splits prod.splits)
qed

function load_lines :: "string \<Rightarrow> config_state \<Rightarrow> config_state outcome" where
  "load_lines [] s = Ret s"
| "load_lines (c # cs) s = (case fgets 255 (c # cs) of (line, rest) \<Rightarrow>
     (case load_line (c_str line) s of Fault e \<Rightarrow> Fault e | Ret s1 \<Rightarrow> load_lines rest s1))"
  by pat_completeness auto
termination
  by (relation "measure (\<lambda>(t, s). length t)") (auto dest: fgets_shorter [OF sym])

declare load_lines.simps [simp del]

definition config_load_from_file :: "string option \<Rightarrow> config_state \<Rightarrow> (int \<times> config_state) outcome" where
  "config_load_from_file name s = (case name of
     None \<Rightarrow> Ret (-1, s)
   | Some path \<Rightarrow> (case files s path of
       None \<Rightarrow> Ret (-1, s)
     | Some text \<Rightarrow> obind (load_lines text s) (\<lambda>s1. Ret (0, s1))))"

section \<open>Saving\<close>

text \<open>The two comment lines of a saved file, in UTF-8.\<close>

definition header1 :: string where
  "header1 = ''# '' @ [CHR 0xE9, CHR 0x85, CHR 0x8D, CHR 0xE7, CHR 0xBD, CHR 0xAE, CHR 0xE6, CHR 0x96, CHR 0x87,
     CHR 0xE4, CHR 0xBB, CHR 0xB6] @ '' - '' @ [CHR 0xE8, CHR 0x87, CHR 0xAA, CHR 0xE5, CHR 0x8A, CHR 0xA8,
     CHR 0xE7, CHR 0x94, CHR 0x9F, CHR 0xE6, CHR 0x88, CHR 0x90] @ [NL]"

definition header2 :: string where
  "header2 = ''# '' @ [CHR 0xE8, CHR 0xAF, CHR 0xB7, CHR 0xE5, CHR 0x8B, CHR 0xBF, CHR 0xE6, CHR 0x89, CHR 0x8B,
     CHR 0xE5, CHR 0x8A, CHR 0xA8, CHR 0xE7, CHR 0xBC, CHR 0x96, CHR 0xE8, CHR 0xBE, CHR 0x91, CHR 0xE6,
     CHR 0xAD, CHR 0xA4, CHR 0xE6, CHR 0x96, CHR 0x87, CHR 0xE4, CHR 0xBB, CHR 0xB6] @ [NL, NL]"

fun print_value :: "config_value \<Rightarrow> string option" where
  "print_value (String_value v) = v"
| "print_value (Int_value i) = Some (print_int i)"
| "print_value (Float_value f) = Some (print_fixed6 f)"
| "print_value (Bool_value b) = Some (if b then ''true'' else ''false'')"

text \<open>A string item whose value is NULL is not written. Printing a NULL key is a fault.\<close>

fun save_items :: "config_item list \<Rightarrow> string outcome" where
  "save_items [] = Ret []"
| "save_items (x # xs) = (case print_value (item_value x) of
     None \<Rightarrow> save_items xs
   | Some v \<Rightarrow> (case item_key x of
       None \<Rightarrow> Fault Null_deref
     | Some k \<Rightarrow> obind (save_items xs) (\<lambda>t. Ret (k @ ''='' @ v @ NL # t))))"

definition config_save_to_file :: "string option \<Rightarrow> config_state \<Rightarrow> (int \<times> config_state) outcome" where
  "config_save_to_file name s = (case name of
     None \<Rightarrow> Ret (-1, s)
   | Some path \<Rightarrow> (case config_answer s of (ok, s1) \<Rightarrow>
       if \<not> ok then Ret (-1, s1)
       else (case config_data s1 of
         None \<Rightarrow> Fault Null_deref
       | Some d \<Rightarrow> obind (save_items (items d)) (\<lambda>t.
           Ret (0, s1\<lparr>files := (files s1)(path \<mapsto> header1 @ header2 @ t)\<rparr>)))))"

section \<open>The module\<close>

definition config_module_init :: "bool \<Rightarrow> config_state \<Rightarrow> int \<times> config_state" where
  "config_module_init self s =
     (if \<not> self then (-1, s)
      else case config_answer s of (ok, s1) \<Rightarrow>
        if \<not> ok then (-1, s1)
        else case config_answer s1 of (ok2, s2) \<Rightarrow>
          if \<not> ok2 then (-1, s2)
          else (0, s2\<lparr>config_data := Some \<lparr>items = [], module_config = config_default\<rparr>\<rparr>))"

definition config_module_start :: "bool \<Rightarrow> config_state \<Rightarrow> (int \<times> config_state) outcome" where
  "config_module_start self s = (case config_data s of
     None \<Rightarrow> Ret (-1, s)
   | Some d \<Rightarrow> if \<not> self then Ret (-1, s)
       else (case config_file (module_config d) of
         None \<Rightarrow> Ret (0, s)
       | Some path \<Rightarrow> obind (config_load_from_file (Some path) s) (\<lambda>(r, s1). Ret (0, s1))))"

definition config_module_stop :: "bool \<Rightarrow> config_state \<Rightarrow> int" where
  "config_module_stop self s = (if \<not> self \<or> config_data s = None then -1 else 0)"

definition config_module_cleanup :: "bool \<Rightarrow> config_state \<Rightarrow> (int \<times> config_state) outcome" where
  "config_module_cleanup self s = (case config_data s of
     None \<Rightarrow> Ret (-1, s)
   | Some d \<Rightarrow> if \<not> self then Ret (-1, s)
       else obind
         (if auto_save (module_config d) \<and> config_file (module_config d) \<noteq> None
          then config_save_to_file (config_file (module_config d)) s else Ret (0, s))
         (\<lambda>(r, s1). Ret (0, s1\<lparr>config_data := None\<rparr>)))"

definition config_module_set_config ::
  "bool \<Rightarrow> config_module_config option \<Rightarrow> config_state \<Rightarrow> int \<times> config_state" where
  "config_module_set_config self config s = (case (config_data s, config) of
     (Some d, Some c) \<Rightarrow> if \<not> self then (-1, s)
       else (case (case config_file c of None \<Rightarrow> (None, s)
                   | Some path \<Rightarrow> (case config_answer s of (ok, s1) \<Rightarrow> (if ok then Some path else None, s1))) of
         (path, s1) \<Rightarrow> (0, s1\<lparr>config_data := Some (d\<lparr>module_config :=
             \<lparr>config_file = path, auto_save = auto_save c, auto_reload = auto_reload c\<rparr>\<rparr>)\<rparr>))
   | _ \<Rightarrow> (-1, s))"

definition config_module_get_config :: "bool \<Rightarrow> config_state \<Rightarrow> config_module_config option" where
  "config_module_get_config self s = (if self then map_option module_config (config_data s) else None)"

section \<open>The store as a map\<close>

definition items_ok :: "config_item list \<Rightarrow> bool" where
  "items_ok xs \<longleftrightarrow> distinct (map item_key xs) \<and> None \<notin> set (map item_key xs)"

definition item_lookup :: "config_item list \<Rightarrow> string \<Rightarrow> config_value option" where
  "item_lookup xs k = map_option item_value (List.find (\<lambda>x. item_key x = Some k) xs)"

text \<open>What setting a key to a value does to the items.\<close>

definition item_put :: "string \<Rightarrow> config_value \<Rightarrow> config_item list \<Rightarrow> config_item list" where
  "item_put k v xs =
     (case config_set k v (\<lambda>s. (v, s))
        \<lparr>config_data = Some \<lparr>items = xs, module_config = config_default\<rparr>, files = Map.empty, config_answers = []\<rparr> of
       Ret (r, s) \<Rightarrow> (case config_data s of Some d \<Rightarrow> items d | None \<Rightarrow> xs)
     | Fault e \<Rightarrow> xs)"

text \<open>A key that is bound keeps its type.\<close>

definition value_merge :: "config_value \<Rightarrow> config_value option \<Rightarrow> config_value option" where
  "value_merge v w = (case w of None \<Rightarrow> Some v | Some u \<Rightarrow> if same_type u v then Some v else Some u)"

lemma find_config_item_eq:
  "None \<notin> set (map item_key xs) \<Longrightarrow> find_config_item k xs = Ret (find_idx (\<lambda>x. item_key x = Some k) xs)"
  by (induction xs) (auto split: option.splits)

lemma add_config_item_eq [simp]: "add_config_item x xs = xs @ [x]"
  by (induction xs) simp_all

lemma config_answer_ok: "config_answers s = [] \<Longrightarrow> config_answer s = (True, s)"
proof -
  assume a: "config_answers s = []"
  then have "s\<lparr>config_answers := []\<rparr> = s" by simp
  with a show ?thesis by (simp add: config_answer_def)
qed

definition item_put_spec :: "string \<Rightarrow> config_value \<Rightarrow> config_item list \<Rightarrow> config_item list" where
  "item_put_spec k v xs = (case find_idx (\<lambda>x. item_key x = Some k) xs of
     None \<Rightarrow> xs @ [\<lparr>item_key = Some k, item_value = v\<rparr>]
   | Some i \<Rightarrow> if same_type (item_value (xs ! i)) v then xs[i := (xs ! i)\<lparr>item_value := v\<rparr>] else xs)"

text \<open>Every setter does to the items what \<open>item_put\<close> does, and returns 0.\<close>

lemma config_set_items:
  assumes "config_data s = Some d" and "items_ok (items d)" and "config_answers s = []"
    and "\<And>s. config_answers s = [] \<Longrightarrow> mk s = (v, s)" and "\<And>u. same_type u zero = same_type u v"
  shows "config_set k zero mk s = Ret (0, s\<lparr>config_data := Some (d\<lparr>items := item_put_spec k v (items d)\<rparr>)\<rparr>)"
proof -
  have f: "find_config_item k (items d) = Ret (find_idx (\<lambda>x. item_key x = Some k) (items d))"
    using assms(2) by (intro find_config_item_eq) (simp add: items_ok_def)
  have same: "s\<lparr>config_data := Some d\<rparr> = s" using assms(1) by simp
  show ?thesis
  proof (cases "find_idx (\<lambda>x. item_key x = Some k) (items d)")
    case None
    with f assms show ?thesis
      by (simp add: config_set_def item_put_spec_def create_config_item_def config_answer_ok)
  next
    case (Some i)
    with f assms(1,3-5) show ?thesis
      by (simp add: config_set_def item_put_spec_def)
  qed
qed

lemma item_put_eq: "items_ok xs \<Longrightarrow> item_put k v xs = item_put_spec k v xs"
  by (simp add: item_put_def config_set_items)

lemma same_type_update: "same_type u v \<Longrightarrow> same_type v u"
  by (cases u; cases v) simp_all

lemma item_put_spec_keys:
  "map item_key (item_put_spec k v xs)
    = (if Some k \<in> set (map item_key xs) then map item_key xs else map item_key xs @ [Some k])"
proof (cases "find_idx (\<lambda>x. item_key x = Some k) xs")
  case None
  then have "Some k \<notin> set (map item_key xs)" by (auto simp: find_idx_None)
  with None show ?thesis by (simp add: item_put_spec_def)
next
  case (Some i)
  then have i: "i < length xs" "item_key (xs ! i) = Some k" by (auto dest: find_idx_SomeD)
  then have "Some k \<in> set (map item_key xs)" by (metis length_map nth_map nth_mem)
  moreover have "map item_key (xs[i := (xs ! i)\<lparr>item_value := v\<rparr>]) = map item_key xs"
    using i by (simp add: map_update list_update_same_conv)
  ultimately show ?thesis using Some by (simp add: item_put_spec_def)
qed

lemma item_lookup_nth:
  "item_lookup xs k = map_option (\<lambda>i. item_value (xs ! i)) (find_idx (\<lambda>x. item_key x = Some k) xs)"
  by (simp add: item_lookup_def find_idx_find option.map_comp comp_def)

lemma item_lookup_put:
  assumes "items_ok xs"
  shows "item_lookup (item_put_spec k v xs) = (item_lookup xs)(k := value_merge v (item_lookup xs k))"
proof
  fix j
  show "item_lookup (item_put_spec k v xs) j = ((item_lookup xs)(k := value_merge v (item_lookup xs k))) j"
  proof (cases "find_idx (\<lambda>x. item_key x = Some k) xs")
    case None
    then have "item_lookup xs k = None" by (simp add: item_lookup_nth)
    moreover have "item_put_spec k v xs = xs @ [\<lparr>item_key = Some k, item_value = v\<rparr>]"
      using None by (simp add: item_put_spec_def)
    ultimately show ?thesis
      by (auto simp: item_lookup_def find_find_append value_merge_def split: option.splits)
  next
    case (Some i)
    then have i: "i < length xs" "item_key (xs ! i) = Some k" by (auto dest: find_idx_SomeD)
    have k: "item_lookup xs k = Some (item_value (xs ! i))" using Some by (simp add: item_lookup_nth)
    show ?thesis
    proof (cases "same_type (item_value (xs ! i)) v")
      case True
      let ?ys = "xs[i := (xs ! i)\<lparr>item_value := v\<rparr>]"
      have keys: "item_key (?ys ! n) = item_key (xs ! n)" if "n < length xs" for n
        using that i by (cases "n = i") simp_all
      have idx: "find_idx (\<lambda>x. item_key x = Some j) ?ys = find_idx (\<lambda>x. item_key x = Some j) xs"
        by (rule find_idx_keys) (use keys in auto)
      have other: "find_idx (\<lambda>x. item_key x = Some j) xs = Some m \<Longrightarrow> j \<noteq> k \<Longrightarrow> m \<noteq> i" for m
        using i by (auto dest: find_idx_SomeD)
      have "item_put_spec k v xs = ?ys" using Some True by (simp add: item_put_spec_def)
      with Some True k i other show ?thesis
        by (cases "find_idx (\<lambda>x. item_key x = Some j) xs") (auto simp: item_lookup_nth idx value_merge_def nth_list_update split: option.splits)
    next
      case False
      with Some k show ?thesis by (simp add: item_put_spec_def value_merge_def)
    qed
  qed
qed

interpretation config_items: keyed_store item_lookup item_put value_merge items_ok
proof
  fix xs k v
  assume ok: "items_ok xs"
  show "item_lookup (item_put k v xs) = (item_lookup xs)(k := value_merge v (item_lookup xs k))"
    using item_lookup_put [OF ok] item_put_eq [OF ok] by simp
  show "items_ok (item_put k v xs)"
    using ok by (auto simp: item_put_eq items_ok_def item_put_spec_keys)
qed

text \<open>Calls of the setters.\<close>

datatype config_call =
    Call_string string string | Call_int string int | Call_float string flt | Call_bool string bool

fun exec_config :: "config_call \<Rightarrow> config_state \<Rightarrow> (int \<times> config_state) outcome" where
  "exec_config (Call_string k v) s = config_set_string (Some k) (Some v) s"
| "exec_config (Call_int k v) s = config_set_int (Some k) v s"
| "exec_config (Call_float k v) s = config_set_float (Some k) v s"
| "exec_config (Call_bool k v) s = config_set_bool (Some k) v s"

fun run_config :: "config_call list \<Rightarrow> config_state \<Rightarrow> config_state outcome" where
  "run_config [] s = Ret s"
| "run_config (c # cs) s = obind (exec_config c s) (\<lambda>(r, s1). run_config cs s1)"

fun binding :: "config_call \<Rightarrow> string \<times> config_value" where
  "binding (Call_string k v) = (k, String_value (Some v))"
| "binding (Call_int k v) = (k, Int_value v)"
| "binding (Call_float k v) = (k, Float_value v)"
| "binding (Call_bool k v) = (k, Bool_value v)"

definition config_ok :: "config_state \<Rightarrow> config_private_data \<Rightarrow> bool" where
  "config_ok s d \<longleftrightarrow> config_data s = Some d \<and> items_ok (items d) \<and> config_answers s = []"

lemma exec_config_items:
  assumes "config_ok s d" and "binding c = (k, v)"
  shows "exec_config c s = Ret (0, s\<lparr>config_data := Some (d\<lparr>items := item_put k v (items d)\<rparr>)\<rparr>)"
proof -
  have s: "config_data s = Some d" "items_ok (items d)" "config_answers s = []"
    using assms(1) by (simp_all add: config_ok_def)
  have "same_type u (String_value None) = same_type u (String_value (Some x))" for u x by (cases u) simp_all
  moreover have "same_type u (Int_value 0) = same_type u (Int_value i)" for u i by (cases u) simp_all
  moreover have "same_type u (Float_value (Fin 0)) = same_type u (Float_value f)" for u f by (cases u) simp_all
  moreover have "same_type u (Bool_value False) = same_type u (Bool_value b)" for u b by (cases u) simp_all
  ultimately show ?thesis
    using assms(2) s
    by (cases c) (auto simp: config_set_string_def config_set_int_def config_set_float_def config_set_bool_def
      config_set_items [OF s] config_answer_ok item_put_eq)
qed

lemma run_config_items:
  assumes "config_ok s d"
  shows "run_config cs s = Ret (s\<lparr>config_data := Some (d\<lparr>items :=
    fold (\<lambda>(k, v). item_put k v) (map binding cs) (items d)\<rparr>)\<rparr>)"
  using assms
proof (induction cs arbitrary: s d)
  case Nil
  then show ?case by (simp add: config_ok_def)
next
  case (Cons c cs)
  obtain k v where b: "binding c = (k, v)" by force
  let ?d = "d\<lparr>items := item_put k v (items d)\<rparr>" and ?s = "s\<lparr>config_data := Some (d\<lparr>items := item_put k v (items d)\<rparr>)\<rparr>"
  have "config_ok ?s ?d" using Cons.prems config_items.invar_put by (simp add: config_ok_def)
  from Cons.IH [OF this] exec_config_items [OF Cons.prems b] b show ?case by simp
qed

section \<open>Properties\<close>

text \<open>C12: The configuration store behaves as a typed map: when no allocation fails, any sequence of
  set calls succeeds, and the store is then the map in which every key has the last value that was
  set for it with the type of its first one; what a lookup returns is the binding of that map.\<close>

theorem config_store_refines_map:
  assumes "config_ok s d"
  shows "\<exists>s' d'. run_config cs s = Ret s' \<and> config_ok s' d'
    \<and> item_lookup (items d') = fold (\<lambda>(k, v). map_put value_merge k v) (map binding cs) (item_lookup (items d))
    \<and> (\<forall>k. config_lookup k s' = Ret (item_lookup (items d') k))"
proof -
  let ?xs = "fold (\<lambda>(k, v). item_put k v) (map binding cs) (items d)"
  have ok: "items_ok (items d)" "config_answers s = []" using assms by (simp_all add: config_ok_def)
  have f: "item_lookup ?xs = fold (\<lambda>(k, v). map_put value_merge k v) (map binding cs) (item_lookup (items d))"
    "items_ok ?xs" using config_items.fold_put_refines [OF ok(1)] by simp_all
  have "config_lookup k (s\<lparr>config_data := Some (d\<lparr>items := ?xs\<rparr>)\<rparr>) = Ret (item_lookup ?xs k)" for k
    using f(2) by (simp add: config_lookup_def find_config_item_eq items_ok_def item_lookup_nth)
  with run_config_items [OF assms, of cs] f ok(2) show ?thesis by (auto simp: config_ok_def)
qed

definition demo_config_data :: config_private_data where
  "demo_config_data = \<lparr>items = [], module_config = config_default\<rparr>"

definition demo_config_state :: config_state where
  "demo_config_state = \<lparr>config_data = Some demo_config_data, files = Map.empty, config_answers = []\<rparr>"

lemma demo_config_ok: "config_ok demo_config_state demo_config_data"
  by (simp add: config_ok_def demo_config_state_def demo_config_data_def items_ok_def)

theorem config_store_refines_map_witness:
  "\<exists>s' d'. run_config [Call_int ''port'' 80, Call_bool ''tls'' True, Call_int ''port'' 8080] demo_config_state = Ret s'
    \<and> config_ok s' d' \<and> item_lookup (items d') ''port'' = Some (Int_value 8080)"
proof -
  from config_store_refines_map [OF demo_config_ok,
    of "[Call_int ''port'' 80, Call_bool ''tls'' True, Call_int ''port'' 8080]"]
  obtain s' d' where "run_config [Call_int ''port'' 80, Call_bool ''tls'' True, Call_int ''port'' 8080] demo_config_state = Ret s'"
    "config_ok s' d'" and l: "item_lookup (items d') = fold (\<lambda>(k, v). map_put value_merge k v)
      (map binding [Call_int ''port'' 80, Call_bool ''tls'' True, Call_int ''port'' 8080]) (item_lookup (items demo_config_data))"
    by auto
  moreover have "item_lookup (items d') ''port'' = Some (Int_value 8080)"
    unfolding l by (simp add: map_put_def value_merge_def demo_config_data_def item_lookup_def)
  ultimately show ?thesis by blast
qed

text \<open>Setting a key that is bound to a value of another type is reported as a success and
  changes nothing: reading it back with the new type gives the caller's default.\<close>

theorem set_of_other_type_is_lost:
  assumes "config_ok s d" and "item_lookup (items d) k = Some w" and "\<not> same_type w (Int_value v)"
  shows "config_set_int (Some k) v s = Ret (0, s) \<and> config_get_int (Some k) def s = Ret def"
proof -
  obtain i where i: "find_idx (\<lambda>x. item_key x = Some k) (items d) = Some i" "item_value (items d ! i) = w"
    using assms(2) by (auto simp: item_lookup_nth)
  have "exec_config (Call_int k v) s = Ret (0, s\<lparr>config_data := Some (d\<lparr>items := item_put k (Int_value v) (items d)\<rparr>)\<rparr>)"
    using exec_config_items [OF assms(1), of "Call_int k v"] by simp
  moreover have "item_put k (Int_value v) (items d) = items d"
    using assms(1,3) i by (simp add: item_put_eq config_ok_def item_put_spec_def)
  moreover have "s\<lparr>config_data := Some d\<rparr> = s" using assms(1) by (simp add: config_ok_def)
  ultimately have "config_set_int (Some k) v s = Ret (0, s)" by simp
  moreover have "config_lookup k s = Ret (Some w)"
    using assms(1) i by (simp add: config_lookup_def config_ok_def find_config_item_eq items_ok_def)
  then have "config_get_int (Some k) def s = Ret def"
    using assms(3) by (cases w) (simp_all add: config_get_int_def)
  ultimately show ?thesis by blast
qed

theorem set_of_other_type_is_lost_witness:
  "config_set_int (Some ''debug'') 5 (demo_config_state\<lparr>config_data := Some (demo_config_data
      \<lparr>items := [\<lparr>item_key = Some ''debug'', item_value = Bool_value True\<rparr>]\<rparr>)\<rparr>)
    = Ret (0, demo_config_state\<lparr>config_data := Some (demo_config_data
      \<lparr>items := [\<lparr>item_key = Some ''debug'', item_value = Bool_value True\<rparr>]\<rparr>)\<rparr>)"
  using set_of_other_type_is_lost [of "demo_config_state\<lparr>config_data := Some (demo_config_data
      \<lparr>items := [\<lparr>item_key = Some ''debug'', item_value = Bool_value True\<rparr>]\<rparr>)\<rparr>"
    "demo_config_data\<lparr>items := [\<lparr>item_key = Some ''debug'', item_value = Bool_value True\<rparr>]\<rparr>" "''debug''" "Bool_value True" 5]
  by (simp add: config_ok_def items_ok_def item_lookup_def demo_config_state_def)

section \<open>Saving and loading\<close>

text \<open>Text that survives a line of the file: not empty, none of the characters the reader treats
  specially, no blank in front and nothing that is trimmed at the end.\<close>

definition clean :: "string \<Rightarrow> bool" where
  "clean t \<longleftrightarrow> t \<noteq> [] \<and> list_all (\<lambda>c. c \<noteq> CHR ''='' \<and> c \<noteq> CHR ''#'' \<and> c \<noteq> NL \<and> c \<noteq> CR \<and> c \<noteq> NUL) t
     \<and> \<not> is_blank (hd t) \<and> \<not> is_trailing (last t)"

lemma NL_simps [simp]: "NL \<noteq> CHR ''=''" "NL \<noteq> CHR ''#''" "NL \<noteq> NUL" "NL \<noteq> CR" "is_trailing NL" "\<not> is_blank NL"
  "CHR ''='' \<noteq> NL" "CHR ''='' \<noteq> NUL" "CHR ''#'' \<noteq> NL"
  by (simp_all add: NL_def NUL_def CR_def is_trailing_def is_blank_def TAB_def)

lemma clean_notin: "clean t \<Longrightarrow> NL \<notin> set t" "clean t \<Longrightarrow> NUL \<notin> set t"
  by (auto simp: clean_def list_all_iff)

lemma NUL_simps [simp]: "NUL \<noteq> CHR ''=''" "NL \<noteq> CHR ''=''"
  by (simp_all add: NUL_def NL_def)

lemma fgets_line:
  "NL \<notin> set l \<Longrightarrow> length l < n \<Longrightarrow> fgets n (l @ NL # rest) = (l @ [NL], rest)"
proof (induction l arbitrary: n)
  case Nil
  then show ?case by (cases n) simp_all
next
  case (Cons c l)
  then show ?case by (cases n) auto
qed

lemma load_lines_line:
  assumes "NL \<notin> set l" and "NUL \<notin> set l" and "length l < 255"
  shows "load_lines (l @ NL # rest) s = obind (load_line (l @ [NL]) s) (load_lines rest)"
proof -
  have f: "fgets 255 (l @ NL # rest) = (l @ [NL], rest)" using assms(1,3) by (rule fgets_line)
  have cs: "c_str (l @ [NL]) = l @ [NL]" using assms(2) by (auto simp: c_str_def takeWhile_eq_all_conv)
  obtain c t where ct: "l @ NL # rest = c # t" by (cases l) simp_all
  show ?thesis
    using f cs unfolding ct by (cases "load_line (l @ [NL]) s") (simp_all add: load_lines.simps)
qed

lemma dropWhile_head: "t \<noteq> [] \<Longrightarrow> \<not> p (hd t) \<Longrightarrow> dropWhile p t = t"
  by (cases t) simp_all

lemma dropWhile_rev_last: "t \<noteq> [] \<Longrightarrow> \<not> p (last t) \<Longrightarrow> dropWhile p (rev t) = rev t"
  by (rule dropWhile_head) (simp_all add: hd_rev)

lemma trim_end_clean:
  assumes "t \<noteq> []" and "\<not> is_trailing (last t)"
  shows "trim_end t = t" "trim_end (t @ [NL]) = t"
proof -
  obtain c cs where t: "t = c # cs" using assms(1) by (cases t) auto
  have "rev (dropWhile is_trailing (rev cs)) = cs"
    using assms(2) t by (cases "cs = []") (simp_all add: dropWhile_rev_last)
  with t show "trim_end t = t" "trim_end (t @ [NL]) = t" by (simp_all add: trim_end_def)
qed

lemma trim_clean:
  assumes "clean t"
  shows "trim t = t" "trim (t @ [NL]) = t"
proof -
  have t: "t \<noteq> []" "\<not> is_blank (hd t)" "\<not> is_trailing (last t)" using assms by (simp_all add: clean_def)
  then have "dropWhile is_blank t = t" "dropWhile is_blank (t @ [NL]) = t @ [NL]"
    by (simp_all add: dropWhile_head)
  then show "trim t = t" "trim (t @ [NL]) = t" using trim_end_clean [OF t(1,3)] by (simp_all add: trim_def)
qed

lemma takeWhile_upto:
  "d \<notin> set t \<Longrightarrow> takeWhile (\<lambda>c. c \<noteq> d) (t @ d # rest) = t"
  "d \<notin> set t \<Longrightarrow> dropWhile (\<lambda>c. c \<noteq> d) (t @ d # rest) = d # rest"
  by (induction t) auto

lemma strtok_first:
  assumes "t \<noteq> []" and "d \<notin> set t"
  shows "strtok d (t @ d # rest) = Some (t, rest)" "strtok d t = Some (t, [])"
proof -
  have hd: "hd t \<noteq> d" using assms by (metis hd_in_set)
  then have skip: "dropWhile (\<lambda>c. c = d) (t @ d # rest) = t @ d # rest" "dropWhile (\<lambda>c. c = d) t = t"
    using assms(1) by (simp_all add: dropWhile_head)
  have all: "takeWhile (\<lambda>c. c \<noteq> d) t = t" "dropWhile (\<lambda>c. c \<noteq> d) t = []"
    using assms(2) by (auto simp: takeWhile_eq_all_conv)
  show "strtok d (t @ d # rest) = Some (t, rest)" "strtok d t = Some (t, [])"
    using assms(1) by (simp_all add: strtok_def skip all takeWhile_upto [OF assms(2)])
qed

lemma load_line_clean:
  assumes "clean k" and "clean v"
  shows "load_line (k @ CHR ''='' # v @ [NL]) s = obind (set_parsed k v s) (\<lambda>(r, s1). Ret s1)"
proof -
  have k: "k \<noteq> []" "CHR ''='' \<notin> set k" "CHR ''#'' \<notin> set k" "NL \<notin> set k" "CR \<notin> set k"
    and v: "v \<noteq> []" "CHR ''='' \<notin> set v" "CHR ''#'' \<notin> set v"
    using assms by (auto simp: clean_def list_all_iff)
  obtain c cs where c: "k = c # cs" "c \<noteq> NL" "c \<noteq> CR" "c \<noteq> CHR ''#''"
    using k by (cases k) auto
  have whole: "takeWhile (\<lambda>c. c \<noteq> CHR ''#'') (k @ CHR ''='' # v @ [NL]) = k @ CHR ''='' # v @ [NL]"
    using k(3) v(3) by (auto simp: takeWhile_eq_all_conv)
  have "strtok CHR ''='' (k @ CHR ''='' # v @ [NL]) = Some (k, v @ [NL])"
    using strtok_first(1) [OF k(1,2)] .
  moreover have "strtok CHR ''='' (v @ [NL]) = Some (v @ [NL], [])"
    using strtok_first(2) [of "v @ [NL]"] v by simp
  moreover have "trim (c # cs) = c # cs" using trim_clean(1) [OF assms(1)] c(1) by simp
  ultimately show ?thesis
    using c whole by (simp add: load_line_def trim_clean(2) [OF assms(2)])
qed

text \<open>Values that come back with their type: any boolean; an integer of 32 bits other than 0 and 1; a
  clean string that is not read as a boolean, a float or a non-zero integer.\<close>

fun survives :: "config_value \<Rightarrow> bool" where
  "survives (Bool_value b) = True"
| "survives (Int_value i) = (- (2 ^ 31) \<le> i \<and> i < 2 ^ 31 \<and> i \<noteq> 0 \<and> i \<noteq> 1)"
| "survives (String_value v) = (case v of None \<Rightarrow> False
     | Some t \<Rightarrow> clean t \<and> CHR ''.'' \<notin> set t \<and> atoi t = 0 \<and> t \<notin> {''true'', ''false'', ''0'', ''1''})"
| "survives (Float_value f) = False"

definition storable :: "config_item \<Rightarrow> bool" where
  "storable x \<longleftrightarrow> (case (item_key x, print_value (item_value x)) of
     (Some k, Some t) \<Rightarrow> clean k \<and> survives (item_value x) \<and> length k + length t < 254
   | _ \<Rightarrow> False)"

lemma print_int_chars: "c \<in> set (print_int i) \<Longrightarrow> is_digit c \<or> c = CHR ''-''"
  using print_nat_digits by (auto simp: print_int_def list_all_iff split: if_splits)

lemma minus_simps [simp]: "CHR ''-'' \<noteq> NL" "CHR ''-'' \<noteq> CR" "CHR ''-'' \<noteq> NUL" "\<not> is_blank CHR ''-''" "\<not> is_trailing CHR ''-''"
  by (simp_all add: NL_def CR_def NUL_def is_blank_def is_trailing_def TAB_def)

lemma digit_not_trailing: "is_digit c \<Longrightarrow> \<not> is_blank c \<and> \<not> is_trailing c"
  using digit_not_special [of c] by (auto simp: is_blank_def is_trailing_def is_space_def TAB_def)

lemma print_int_not_Nil [simp]: "print_int i \<noteq> []"
  by (simp add: print_int_def)

lemma print_int_clean: "clean (print_int i)" "CHR ''.'' \<notin> set (print_int i)"
proof -
  have ok: "c \<noteq> CHR ''='' \<and> c \<noteq> CHR ''#'' \<and> c \<noteq> CHR ''.'' \<and> c \<noteq> NL \<and> c \<noteq> CR \<and> c \<noteq> NUL \<and> \<not> is_blank c \<and> \<not> is_trailing c"
    if "c \<in> set (print_int i)" for c
    using print_int_chars [OF that] digit_not_special [of c] digit_not_trailing [of c] by auto
  show "clean (print_int i)" using ok by (simp add: clean_def list_all_iff)
  show "CHR ''.'' \<notin> set (print_int i)" using ok by blast
qed

lemma bool_text_clean: "clean ''true''" "clean ''false''"
  by (simp_all add: clean_def NL_def CR_def NUL_def is_blank_def is_trailing_def TAB_def)

lemma atoi_words: "atoi ''true'' = 0" "atoi ''false'' = 0" "atoi ''0'' = 0" "atoi ''1'' = 1"
  by (simp_all add: atoi_def strtol_def parse_sign_def is_space_def is_digit_def nat_of_digits_def digit_val_def
    signed_take_bit_int_eq_self)

lemma print_value_clean: "survives v \<Longrightarrow> print_value v = Some t \<Longrightarrow> clean t"
  by (cases v) (auto simp: print_int_clean bool_text_clean split: option.splits)

lemma set_parsed_survives:
  assumes "survives v" and "print_value v = Some t"
  shows "\<exists>c. binding c = (k, v) \<and> set_parsed k t s = exec_config c s"
proof (cases v)
  case (Bool_value b)
  with assms show ?thesis by (intro exI [of _ "Call_bool k b"]) (cases b; auto simp: set_parsed_def)
next
  case (Int_value i)
  then have t: "t = print_int i" "atoi t = i" "i \<noteq> 0" "i \<noteq> 1"
    using assms by (auto simp: atoi_print_int)
  then have "t \<notin> {''true'', ''false'', ''0'', ''1''}" using atoi_words by auto
  with t Int_value print_int_clean(2) [of i] show ?thesis
    by (intro exI [of _ "Call_int k i"]) (simp add: set_parsed_def)
next
  case (String_value x)
  with assms show ?thesis by (intro exI [of _ "Call_string k t"]) (auto simp: set_parsed_def)
qed (use assms in simp)

lemma item_put_new:
  assumes "items_ok (ys @ x # xs)" and "item_key x = Some k"
  shows "item_put k (item_value x) ys = ys @ [x]"
proof -
  have ok: "items_ok ys" using assms(1) by (auto simp: items_ok_def)
  have "Some k \<notin> set (map item_key ys)" using assms by (auto simp: items_ok_def)
  then have "\<forall>x \<in> set ys. item_key x \<noteq> Some k" by (metis image_eqI list.set_map)
  then have "find_idx (\<lambda>x. item_key x = Some k) ys = None" by (simp add: find_idx_None)
  moreover have "\<lparr>item_key = Some k, item_value = item_value x\<rparr> = x" using assms(2) by simp
  ultimately show ?thesis by (simp add: item_put_eq [OF ok] item_put_spec_def)
qed

text \<open>Loading the lines of storable items appends the items.\<close>

lemma load_saved_items:
  assumes "list_all storable xs" and "config_ok s d" and "items_ok (items d @ xs)"
  shows "\<exists>t. save_items xs = Ret t \<and> load_lines t s = Ret (s\<lparr>config_data := Some (d\<lparr>items := items d @ xs\<rparr>)\<rparr>)"
  using assms
proof (induction xs arbitrary: s d)
  case Nil
  then show ?case by (simp add: load_lines.simps config_ok_def)
next
  case (Cons x xs)
  obtain k v where kv: "item_key x = Some k" "print_value (item_value x) = Some v" "clean k"
    "survives (item_value x)" "length k + length v < 254"
    using Cons.prems(1) by (auto simp: storable_def split: option.splits)
  have v: "clean v" using print_value_clean [OF kv(4,2)] .
  let ?d = "d\<lparr>items := items d @ [x]\<rparr>" and ?s = "s\<lparr>config_data := Some (d\<lparr>items := items d @ [x]\<rparr>)\<rparr>"
  have ok: "config_ok ?s ?d" "items_ok (items ?d @ xs)"
    using Cons.prems(2,3) by (auto simp: config_ok_def items_ok_def)
  from Cons.IH [OF _ ok] Cons.prems(1) obtain t where
    t: "save_items xs = Ret t" "load_lines t ?s = Ret (s\<lparr>config_data := Some (d\<lparr>items := items d @ x # xs\<rparr>)\<rparr>)"
    by auto
  obtain c where c: "binding c = (k, item_value x)" "set_parsed k v s = exec_config c s"
    using set_parsed_survives [OF kv(4,2)] by blast
  have "load_line (k @ CHR ''='' # v @ [NL]) s = Ret ?s"
    by (simp add: load_line_clean [OF kv(3) v, of s] c(2) exec_config_items [OF Cons.prems(2) c(1)]
      item_put_new [OF Cons.prems(3) kv(1)])
  then have line: "load_line ((k @ CHR ''='' # v) @ [NL]) s = Ret ?s" by simp
  have "NL \<notin> set (k @ CHR ''='' # v)" "NUL \<notin> set (k @ CHR ''='' # v)" "length (k @ CHR ''='' # v) < 255"
    using clean_notin [OF kv(3)] clean_notin [OF v] kv(5) by simp_all
  from load_lines_line [OF this, of t s] have "load_lines ((k @ CHR ''='' # v) @ NL # t) s = load_lines t ?s"
    unfolding line by simp
  with t kv(1,2) show ?case by simp
qed

lemma load_header:
  "load_lines (header1 @ header2 @ t) s = load_lines t s"
proof -
  let ?l1 = "butlast header1" and ?l2 = "butlast (butlast header2)"
  have h: "header1 = ?l1 @ [NL]" "header2 = ?l2 @ [NL, NL]" by (simp_all add: header1_def header2_def)
  have l1: "NL \<notin> set ?l1" "NUL \<notin> set ?l1" "length ?l1 < 255" "load_line (?l1 @ [NL]) s = Ret s"
    and l2: "NL \<notin> set ?l2" "NUL \<notin> set ?l2" "length ?l2 < 255" "load_line (?l2 @ [NL]) s = Ret s"
    by (simp_all add: header1_def header2_def NL_def NUL_def CR_def load_line_def)
  have "load_lines (header1 @ header2 @ t) s = load_lines (?l1 @ NL # header2 @ t) s"
    by (subst h(1)) simp
  also have "\<dots> = load_lines (?l2 @ NL # NL # t) s"
    by (subst load_lines_line [OF l1(1-3)], subst h(2)) (simp add: l1(4))
  also have "\<dots> = load_lines ([] @ NL # t) s"
    by (subst load_lines_line [OF l2(1-3)]) (simp add: l2(4))
  also have "\<dots> = load_lines t s"
    by (subst load_lines_line) (simp_all add: load_line_def)
  finally show ?thesis .
qed

text \<open>C13: Saving and loading is a round trip for booleans, for integers of 32 bits other than 0 and
  1, and for plain strings, under plain keys: an empty store that loads the file written from a
  store of such items holds the same items in the same order.\<close>

theorem save_load_round_trip:
  assumes "config_ok s d" and "list_all storable (items d)"
  shows "\<exists>s1. config_save_to_file (Some path) s = Ret (0, s1)
    \<and> config_load_from_file (Some path) (s1\<lparr>config_data := Some (d\<lparr>items := []\<rparr>)\<rparr>) = Ret (0, s1)"
proof -
  have s: "config_data s = Some d" "items_ok (items d)" "config_answers s = []"
    using assms(1) by (simp_all add: config_ok_def)
  obtain t where t: "save_items (items d) = Ret t"
    using load_saved_items [OF assms(2), of "s\<lparr>config_data := Some (d\<lparr>items := []\<rparr>)\<rparr>" "d\<lparr>items := []\<rparr>"] s
    by (auto simp: config_ok_def items_ok_def)
  let ?s = "s\<lparr>files := (files s)(path \<mapsto> header1 @ header2 @ t)\<rparr>"
  let ?e = "?s\<lparr>config_data := Some (d\<lparr>items := []\<rparr>)\<rparr>"
  have save: "config_save_to_file (Some path) s = Ret (0, ?s)"
    using s t by (simp add: config_save_to_file_def config_answer_ok)
  have same: "?e\<lparr>config_data := Some d\<rparr> = ?s" using s(1) by simp
  have "config_ok ?e (d\<lparr>items := []\<rparr>)" "items_ok (items (d\<lparr>items := []\<rparr>) @ items d)"
    using s by (simp_all add: config_ok_def items_ok_def)
  with load_saved_items [OF assms(2), of ?e] t have "load_lines t ?e = Ret (?e\<lparr>config_data := Some d\<rparr>)" by auto
  then have "load_lines (header1 @ header2 @ t) ?e = Ret ?s" using load_header same by simp
  then have "config_load_from_file (Some path) ?e = Ret (0, ?s)" by (simp add: config_load_from_file_def)
  with save show ?thesis by blast
qed

definition saved_data :: config_private_data where
  "saved_data = demo_config_data\<lparr>items :=
     [\<lparr>item_key = Some ''port'', item_value = Int_value 8080\<rparr>, \<lparr>item_key = Some ''tls'', item_value = Bool_value True\<rparr>,
      \<lparr>item_key = Some ''host name'', item_value = String_value (Some ''a b'')\<rparr>]\<rparr>"

lemma saved_data_storable: "list_all storable (items saved_data)"
proof -
  have "atoi ''a b'' = 0"
    by (simp add: atoi_def strtol_def parse_sign_def is_space_def is_digit_def nat_of_digits_def)
  then show ?thesis
    by (simp add: saved_data_def storable_def clean_def NL_def CR_def NUL_def is_blank_def is_trailing_def TAB_def
      print_int_def print_nat.simps)
qed

theorem save_load_round_trip_witness:
  "\<exists>s1. config_save_to_file (Some ''f'') (demo_config_state\<lparr>config_data := Some saved_data\<rparr>) = Ret (0, s1)
    \<and> config_load_from_file (Some ''f'') (s1\<lparr>config_data := Some (saved_data\<lparr>items := []\<rparr>)\<rparr>) = Ret (0, s1)"
  by (rule save_load_round_trip [OF _ saved_data_storable])
    (simp add: config_ok_def demo_config_state_def items_ok_def saved_data_def)

lemma digit_char_0: "digit_char 0 = CHR ''0''"
  using char_of_char [of "CHR ''0''", where ?'a = nat] by (simp add: digit_char_def del: char_of_char)

lemma digit_char_1: "digit_char 1 = CHR ''1''"
  using char_of_char [of "CHR ''1''", where ?'a = nat] by (simp add: digit_char_def del: char_of_char)

text \<open>The integers 0 and 1 do not survive: they are written as 0 and 1, which the reader takes
  for booleans, so that reading the key back as an integer gives the caller's default.\<close>

theorem zero_and_one_reload_as_booleans:
  assumes "config_ok s d" and "items d = [\<lparr>item_key = Some k, item_value = Int_value i\<rparr>]"
    and "i = 0 \<or> i = 1" and "clean k" and "length k < 250"
  shows "\<exists>s1 s2. config_save_to_file (Some path) s = Ret (0, s1)
    \<and> config_load_from_file (Some path) (s1\<lparr>config_data := Some (d\<lparr>items := []\<rparr>)\<rparr>) = Ret (0, s2)
    \<and> config_lookup k s2 = Ret (Some (Bool_value (i = 1)))
    \<and> config_get_int (Some k) def s2 = Ret def"
proof -
  define v where "v = (if i = 1 then ''1'' else ''0'')"
  have p: "print_int i = v" using assms(3) by (auto simp: v_def print_int_def print_nat.simps digit_char_0 digit_char_1 [simplified])
  have v: "clean v" "length v = 1"
    by (simp_all add: v_def clean_def NL_def CR_def NUL_def is_blank_def is_trailing_def TAB_def)
  define t where "t = (k @ CHR ''='' # v) @ NL # []"
  define s1 where "s1 = s\<lparr>files := (files s)(path \<mapsto> header1 @ header2 @ t)\<rparr>"
  define e where "e = s1\<lparr>config_data := Some (d\<lparr>items := []\<rparr>)\<rparr>"
  define d2 where "d2 = d\<lparr>items := [\<lparr>item_key = Some k, item_value = Bool_value (i = 1)\<rparr>]\<rparr>"
  have s: "config_data s = Some d" "config_answers s = []" using assms(1) by (simp_all add: config_ok_def)
  have save: "config_save_to_file (Some path) s = Ret (0, s1)"
    using s assms(2) p by (simp add: config_save_to_file_def config_answer_ok s1_def t_def)
  have ok: "config_ok e (d\<lparr>items := []\<rparr>)" using s by (simp add: config_ok_def e_def s1_def items_ok_def)
  have "set_parsed k v e = exec_config (Call_bool k (i = 1)) e"
    using assms(3) by (auto simp: set_parsed_def v_def)
  moreover have "item_put k (Bool_value (i = 1)) [] = [\<lparr>item_key = Some k, item_value = Bool_value (i = 1)\<rparr>]"
    by (simp add: item_put_eq items_ok_def item_put_spec_def)
  ultimately have "set_parsed k v e = Ret (0, e\<lparr>config_data := Some d2\<rparr>)"
    using exec_config_items [OF ok, of "Call_bool k (i = 1)"] by (simp add: d2_def)
  then have line: "load_line ((k @ CHR ''='' # v) @ [NL]) e = Ret (e\<lparr>config_data := Some d2\<rparr>)"
    using load_line_clean [OF assms(4) v(1), of e] by simp
  have "NL \<notin> set (k @ CHR ''='' # v)" "NUL \<notin> set (k @ CHR ''='' # v)" "length (k @ CHR ''='' # v) < 255"
    using clean_notin [OF assms(4)] clean_notin [OF v(1)] assms(5) v(2) by simp_all
  from load_lines_line [OF this, of "[]" e] have "load_lines (header1 @ header2 @ t) e = Ret (e\<lparr>config_data := Some d2\<rparr>)"
    unfolding load_header t_def line by (simp add: load_lines.simps)
  then have load: "config_load_from_file (Some path) e = Ret (0, e\<lparr>config_data := Some d2\<rparr>)"
    by (simp add: config_load_from_file_def e_def s1_def)
  have look: "config_lookup k (e\<lparr>config_data := Some d2\<rparr>) = Ret (Some (Bool_value (i = 1)))"
    by (simp add: config_lookup_def d2_def)
  then have "config_get_int (Some k) def (e\<lparr>config_data := Some d2\<rparr>) = Ret def"
    by (simp add: config_get_int_def)
  with save load look show ?thesis unfolding e_def by blast
qed

theorem zero_and_one_reload_as_booleans_witness:
  "\<exists>s1 s2. config_save_to_file (Some ''f'') (demo_config_state\<lparr>config_data := Some (demo_config_data
        \<lparr>items := [\<lparr>item_key = Some ''n'', item_value = Int_value 1\<rparr>]\<rparr>)\<rparr>) = Ret (0, s1)
    \<and> config_load_from_file (Some ''f'') (s1\<lparr>config_data := Some (demo_config_data\<lparr>items := []\<rparr>)\<rparr>) = Ret (0, s2)
    \<and> config_get_int (Some ''n'') 7 s2 = Ret 7"
  using zero_and_one_reload_as_booleans [of "demo_config_state\<lparr>config_data := Some (demo_config_data
        \<lparr>items := [\<lparr>item_key = Some ''n'', item_value = Int_value 1\<rparr>]\<rparr>)\<rparr>"
      "demo_config_data\<lparr>items := [\<lparr>item_key = Some ''n'', item_value = Int_value 1\<rparr>]\<rparr>" "''n''" 1 "''f''" 7]
  by (auto simp: config_ok_def items_ok_def demo_config_state_def clean_def NL_def CR_def NUL_def is_blank_def
    is_trailing_def TAB_def)

end
