(* ===== verification/Json_Value.thy ===== *)
theory Json_Value
  imports Interfaces C_Numbers
begin

text \<open>
  JSON values (src/json/json_parser_module.c, all but the parser itself): creation, arrays,
  objects, cloning, merging, freeing and printing. A value is a tree; a pointer that may be
  NULL is an option. An array's elements and an object's pairs lie in one block each, which is
  NULL until it first grows (\<open>Null_block\<close>). A clone whose block could not be allocated keeps its
  count, so a NULL block carries a count as well.

  The addresses inside a block decide what \<open>json_free\<close> does, because it ends with \<open>free\<close> of the
  address it is given: slot 0 of an array is the address of the block itself; every other slot
  of an array and every value of a pair is an address inside a block. The answers are those of
  \<open>malloc\<close>, \<open>realloc\<close> and \<open>strdup\<close>, in the order of the calls. Memory that is only lost is not
  tracked.
\<close>

section \<open>Data\<close>

datatype 'a storage = Null_block nat | Block "'a list" nat

datatype json_value =
    Json_null
  | Json_bool bool
  | Json_number flt
  | Json_string "string option"
  | Json_array "json_value storage option"
  | Json_object "(string option \<times> json_value) storage option"

datatype json_error =
    JSON_NONE | JSON_INVALID_SYNTAX | JSON_UNEXPECTED_TOKEN | JSON_UNTERMINATED_STRING
  | JSON_INVALID_ESCAPE | JSON_NUMBER_TOO_LARGE | JSON_STRING_TOO_LONG | JSON_DEPTH_EXCEEDED
  | JSON_MEMORY_ALLOCATION | JSON_FILE_IO

fun stored_count :: "'a storage \<Rightarrow> nat" where
  "stored_count (Null_block n) = n"
| "stored_count (Block xs c) = length xs"

fun stored_capacity :: "'a storage \<Rightarrow> nat" where
  "stored_capacity (Null_block n) = n"
| "stored_capacity (Block xs c) = c"

section \<open>Creation\<close>

definition json_create_null :: "answers \<Rightarrow> json_value option \<times> answers" where
  "json_create_null as = (case next_answer as of (ok, as1) \<Rightarrow> (if ok then Some Json_null else None, as1))"

definition json_create_bool :: "int \<Rightarrow> answers \<Rightarrow> json_value option \<times> answers" where
  "json_create_bool b as = (case next_answer as of (ok, as1) \<Rightarrow>
     (if ok then Some (Json_bool (b \<noteq> 0)) else None, as1))"

definition json_create_number :: "flt \<Rightarrow> answers \<Rightarrow> json_value option \<times> answers" where
  "json_create_number x as = (case next_answer as of (ok, as1) \<Rightarrow>
     (if ok then Some (Json_number x) else None, as1))"

definition json_create_string :: "string option \<Rightarrow> answers \<Rightarrow> json_value option \<times> answers" where
  "json_create_string s as = (case next_answer as of (ok, as1) \<Rightarrow>
     if \<not> ok then (None, as1)
     else case s of
       None \<Rightarrow> (Some (Json_string None), as1)
     | Some t \<Rightarrow> (case strdup t as1 of (c, as2) \<Rightarrow> (Some (Json_string c), as2)))"

definition json_create_array :: "answers \<Rightarrow> json_value option \<times> answers" where
  "json_create_array as = (case next_answer as of (ok, as1) \<Rightarrow>
     if \<not> ok then (None, as1)
     else case next_answer as1 of (ok2, as2) \<Rightarrow>
       (Some (Json_array (if ok2 then Some (Null_block 0) else None)), as2))"

definition json_create_object :: "answers \<Rightarrow> json_value option \<times> answers" where
  "json_create_object as = (case next_answer as of (ok, as1) \<Rightarrow>
     if \<not> ok then (None, as1)
     else case next_answer as1 of (ok2, as2) \<Rightarrow>
       (Some (Json_object (if ok2 then Some (Null_block 0) else None)), as2))"

section \<open>Cloning\<close>

text \<open>
  \<open>clone_data\<close> is the switch of \<open>json_clone\<close>, after the value itself has been allocated;
  \<open>clone_values\<close> and \<open>clone_pairs\<close> are its loops, which dereference the result of each inner
  clone. The block of a clone is exactly as large as its contents.
\<close>

fun clone_data :: "json_value \<Rightarrow> answers \<Rightarrow> (json_value \<times> answers) outcome"
  and clone_values :: "json_value list \<Rightarrow> answers \<Rightarrow> (json_value list \<times> answers) outcome"
  and clone_pairs :: "(string option \<times> json_value) list \<Rightarrow> answers
    \<Rightarrow> ((string option \<times> json_value) list \<times> answers) outcome" where
  "clone_data Json_null as = Ret (Json_null, as)"
| "clone_data (Json_bool b) as = Ret (Json_bool b, as)"
| "clone_data (Json_number x) as = Ret (Json_number x, as)"
| "clone_data (Json_string None) as = Ret (Json_string None, as)"
| "clone_data (Json_string (Some s)) as = (case strdup s as of (c, as1) \<Rightarrow> Ret (Json_string c, as1))"
| "clone_data (Json_array None) as = (case next_answer as of (ok, as1) \<Rightarrow>
     if ok then Fault Null_deref else Ret (Json_array None, as1))"
| "clone_data (Json_array (Some (Null_block n))) as = (case next_answer as of (ok, as1) \<Rightarrow>
     if \<not> ok then Ret (Json_array None, as1)
     else case next_answer as1 of (ok2, as2) \<Rightarrow>
       if \<not> ok2 then Ret (Json_array (Some (Null_block n)), as2)
       else if n = 0 then Ret (Json_array (Some (Block [] 0)), as2)
       else Fault Null_deref)"
| "clone_data (Json_array (Some (Block vs c))) as = (case next_answer as of (ok, as1) \<Rightarrow>
     if \<not> ok then Ret (Json_array None, as1)
     else case next_answer as1 of (ok2, as2) \<Rightarrow>
       if \<not> ok2 then Ret (Json_array (Some (Null_block (length vs))), as2)
       else obind (clone_values vs as2) (\<lambda>(ws, as3). Ret (Json_array (Some (Block ws (length vs))), as3)))"
| "clone_data (Json_object None) as = (case next_answer as of (ok, as1) \<Rightarrow>
     if ok then Fault Null_deref else Ret (Json_object None, as1))"
| "clone_data (Json_object (Some (Null_block n))) as = (case next_answer as of (ok, as1) \<Rightarrow>
     if \<not> ok then Ret (Json_object None, as1)
     else case next_answer as1 of (ok2, as2) \<Rightarrow>
       if \<not> ok2 then Ret (Json_object (Some (Null_block n)), as2)
       else if n = 0 then Ret (Json_object (Some (Block [] 0)), as2)
       else Fault Null_deref)"
| "clone_data (Json_object (Some (Block ps c))) as = (case next_answer as of (ok, as1) \<Rightarrow>
     if \<not> ok then Ret (Json_object None, as1)
     else case next_answer as1 of (ok2, as2) \<Rightarrow>
       if \<not> ok2 then Ret (Json_object (Some (Null_block (length ps))), as2)
       else obind (clone_pairs ps as2) (\<lambda>(qs, as3). Ret (Json_object (Some (Block qs (length ps))), as3)))"
| "clone_values [] as = Ret ([], as)"
| "clone_values (v # vs) as = (case next_answer as of (ok, as1) \<Rightarrow>
     if \<not> ok then Fault Null_deref
     else obind (clone_data v as1) (\<lambda>(w, as2).
       obind (clone_values vs as2) (\<lambda>(ws, as3). Ret (w # ws, as3))))"
| "clone_pairs [] as = Ret ([], as)"
| "clone_pairs ((k, v) # ps) as = (case k of
     None \<Rightarrow> Fault Null_deref
   | Some key \<Rightarrow> (case strdup key as of (k', as0) \<Rightarrow>
       case next_answer as0 of (ok, as1) \<Rightarrow>
         if \<not> ok then Fault Null_deref
         else obind (clone_data v as1) (\<lambda>(w, as2).
           obind (clone_pairs ps as2) (\<lambda>(qs, as3). Ret ((k', w) # qs, as3)))))"

definition json_clone :: "json_value option \<Rightarrow> answers \<Rightarrow> (json_value option \<times> answers) outcome" where
  "json_clone value as = (case value of
     None \<Rightarrow> Ret (None, as)
   | Some v \<Rightarrow> (case next_answer as of (ok, as1) \<Rightarrow>
       if \<not> ok then Ret (None, as1)
       else obind (clone_data v as1) (\<lambda>(w, as2). Ret (Some w, as2))))"

section \<open>Freeing\<close>

text \<open>
  \<open>free_data\<close> is what \<open>json_free\<close> does before its final \<open>free(value)\<close>. In an array, freeing slot 0
  frees the block, so that slot 1 is then read in freed memory, or, when there is no slot 1, the
  block is freed again. In an object, freeing the first pair's value frees an address inside the
  block. With a NULL block the address of slot 0 is NULL, which \<open>json_free\<close> ignores, and that of
  slot 1 is not.
\<close>

fun free_data :: "json_value \<Rightarrow> unit outcome" where
  "free_data (Json_array (Some (Null_block n))) = (if n \<le> 1 then Ret () else Fault Null_deref)"
| "free_data (Json_array (Some (Block [] c))) = Ret ()"
| "free_data (Json_array (Some (Block [v] c))) = obind (free_data v) (\<lambda>u. Fault Double_free)"
| "free_data (Json_array (Some (Block (v # w # vs) c))) = obind (free_data v) (\<lambda>u. Fault Use_after_free)"
| "free_data (Json_object (Some (Null_block n))) = (if n = 0 then Ret () else Fault Null_deref)"
| "free_data (Json_object (Some (Block [] c))) = Ret ()"
| "free_data (Json_object (Some (Block ((k, v) # ps) c))) = obind (free_data v) (\<lambda>u. Fault Invalid_free)"
| "free_data _ = Ret ()"

text \<open>A value in a block of its own, or NULL.\<close>

definition json_free :: "json_value option \<Rightarrow> unit outcome" where
  "json_free value = (case value of None \<Rightarrow> Ret () | Some v \<Rightarrow> free_data v)"

section \<open>Arrays\<close>

text \<open>
  Growing a block: \<open>realloc\<close> to twice the capacity. A NULL block with a count (a clone whose block
  could not be allocated) would get slots that were never written; that is reported at once.
\<close>

definition expand_capacity :: "'a storage \<Rightarrow> answers \<Rightarrow> (int \<times> 'a storage \<times> answers) outcome" where
  "expand_capacity st as = (case next_answer as of (ok, as1) \<Rightarrow>
     let c = (if stored_capacity st = 0 then 8 else stored_capacity st * 2) in
     if \<not> ok then Ret (-1, st, as1)
     else case st of
       Block xs _ \<Rightarrow> Ret (0, Block xs c, as1)
     | Null_block n \<Rightarrow> if n = 0 then Ret (0, Block [] c, as1) else Fault Uninit_read)"

definition expand_array_capacity ::
  "json_value storage \<Rightarrow> answers \<Rightarrow> (int \<times> json_value storage \<times> answers) outcome" where
  "expand_array_capacity st as = expand_capacity st as"

definition expand_object_capacity ::
  "(string option \<times> json_value) storage \<Rightarrow> answers
   \<Rightarrow> (int \<times> (string option \<times> json_value) storage \<times> answers) outcome" where
  "expand_object_capacity st as = expand_capacity st as"

text \<open>Writing the slot after the last: there is one when the count is below the capacity.\<close>

fun append_slot :: "'a storage \<Rightarrow> 'a \<Rightarrow> 'a storage outcome" where
  "append_slot (Block xs c) x = (if length xs < c then Ret (Block (xs @ [x]) c) else Fault Out_of_bounds)"
| "append_slot (Null_block n) x = Fault Null_deref"

definition json_array_add ::
  "json_value option \<Rightarrow> json_value option \<Rightarrow> answers \<Rightarrow> (int \<times> json_value option \<times> answers) outcome" where
  "json_array_add array value as = (case (array, value) of
     (Some (Json_array (Some st)), Some v) \<Rightarrow>
       obind (if stored_count st \<ge> stored_capacity st then expand_array_capacity st as else Ret (0, st, as))
         (\<lambda>(r, st1, as1).
           if r \<noteq> 0 then Ret (-1, array, as1)
           else obind (json_clone (Some v) as1) (\<lambda>(c, as2). case c of
               None \<Rightarrow> Ret (-1, Some (Json_array (Some st1)), as2)
             | Some w \<Rightarrow> obind (append_slot st1 w) (\<lambda>st2. Ret (0, Some (Json_array (Some st2)), as2))))
   | _ \<Rightarrow> Ret (-1, array, as))"

text \<open>The element at an index, a pointer into the block; with a NULL block the pointer is NULL for
  index 0, and other indices below the count do not address anything.\<close>

definition json_array_get :: "json_value option \<Rightarrow> nat \<Rightarrow> json_value option outcome" where
  "json_array_get array i = (case array of
     Some (Json_array (Some st)) \<Rightarrow>
       if i \<ge> stored_count st then Ret None
       else (case st of
           Block vs _ \<Rightarrow> Ret (Some (vs ! i))
         | Null_block n \<Rightarrow> if i = 0 then Ret None else Fault Null_deref)
   | _ \<Rightarrow> Ret None)"

text \<open>
  Replacing an element frees the old one in place. For index 0 that frees the block, and the new
  element is written into freed memory; for a later index it frees an address inside the block.
\<close>

definition json_array_set ::
  "json_value option \<Rightarrow> nat \<Rightarrow> json_value option \<Rightarrow> (int \<times> json_value option) outcome" where
  "json_array_set array i value = (case (array, value) of
     (Some (Json_array (Some st)), Some v) \<Rightarrow>
       if i \<ge> stored_count st then Ret (-1, array)
       else (case st of
           Block vs _ \<Rightarrow> obind (free_data (vs ! i)) (\<lambda>u. if i = 0 then Fault Use_after_free else Fault Invalid_free)
         | Null_block n \<Rightarrow> Fault Null_deref)
   | _ \<Rightarrow> Ret (-1, array))"

definition json_array_size :: "json_value option \<Rightarrow> nat" where
  "json_array_size array = (case array of Some (Json_array (Some st)) \<Rightarrow> stored_count st | _ \<Rightarrow> 0)"

section \<open>Objects\<close>

text \<open>The search for a key; a pair whose key is NULL ends it with a fault.\<close>

fun find_pair :: "string \<Rightarrow> (string option \<times> json_value) list \<Rightarrow> nat option outcome" where
  "find_pair key [] = Ret None"
| "find_pair key ((k, v) # ps) = (case k of
     None \<Rightarrow> Fault Null_deref
   | Some k' \<Rightarrow> if k' = key then Ret (Some 0)
       else obind (find_pair key ps) (\<lambda>r. Ret (map_option Suc r)))"

definition find_stored :: "string \<Rightarrow> (string option \<times> json_value) storage \<Rightarrow> nat option outcome" where
  "find_stored key st = (case st of
     Block ps _ \<Rightarrow> find_pair key ps
   | Null_block n \<Rightarrow> if n = 0 then Ret None else Fault Null_deref)"

fun stored_list :: "'a storage \<Rightarrow> 'a list" where
  "stored_list (Block xs c) = xs"
| "stored_list (Null_block n) = []"

text \<open>A bound key: the old value is freed in place, which frees an address inside the block.\<close>

definition json_object_set ::
  "json_value option \<Rightarrow> string option \<Rightarrow> json_value option \<Rightarrow> answers
   \<Rightarrow> (int \<times> json_value option \<times> answers) outcome" where
  "json_object_set object key value as = (case (object, key, value) of
     (Some (Json_object (Some st)), Some k, Some v) \<Rightarrow>
       obind (find_stored k st) (\<lambda>r. case r of
         Some i \<Rightarrow> obind (free_data (snd (stored_list st ! i))) (\<lambda>u. Fault Invalid_free)
       | None \<Rightarrow>
           obind (if stored_count st \<ge> stored_capacity st then expand_object_capacity st as else Ret (0, st, as))
             (\<lambda>(r, st1, as1).
               if r \<noteq> 0 then Ret (-1, object, as1)
               else case strdup k as1 of (k', as2) \<Rightarrow>
                 obind (json_clone (Some v) as2) (\<lambda>(c, as3). case c of
                     None \<Rightarrow> Ret (-1, Some (Json_object (Some st1)), as3)
                   | Some w \<Rightarrow> obind (append_slot st1 (k', w)) (\<lambda>st2. Ret (0, Some (Json_object (Some st2)), as3)))))
   | _ \<Rightarrow> Ret (-1, object, as))"

definition json_object_get :: "json_value option \<Rightarrow> string option \<Rightarrow> json_value option outcome" where
  "json_object_get object key = (case (object, key) of
     (Some (Json_object (Some st)), Some k) \<Rightarrow>
       obind (find_stored k st) (\<lambda>r. Ret (map_option (\<lambda>i. snd (stored_list st ! i)) r))
   | _ \<Rightarrow> Ret None)"

definition json_object_has :: "json_value option \<Rightarrow> string option \<Rightarrow> int outcome" where
  "json_object_has object key = obind (json_object_get object key) (\<lambda>v. Ret (if v \<noteq> None then 1 else 0))"

text \<open>Removing a bound key frees its value in place, an address inside the block.\<close>

definition json_object_remove :: "json_value option \<Rightarrow> string option \<Rightarrow> (int \<times> json_value option) outcome" where
  "json_object_remove object key = (case (object, key) of
     (Some (Json_object (Some st)), Some k) \<Rightarrow>
       obind (find_stored k st) (\<lambda>r. case r of
         Some i \<Rightarrow> obind (free_data (snd (stored_list st ! i))) (\<lambda>u. Fault Invalid_free)
       | None \<Rightarrow> Ret (-1, object))
   | _ \<Rightarrow> Ret (-1, object))"

definition json_object_size :: "json_value option \<Rightarrow> nat" where
  "json_object_size object = (case object of Some (Json_object (Some st)) \<Rightarrow> stored_count st | _ \<Rightarrow> 0)"

section \<open>Types and accessors\<close>

fun json_is_null :: "json_value option \<Rightarrow> bool" where
  "json_is_null (Some Json_null) = True"
| "json_is_null _ = False"

fun json_is_bool :: "json_value option \<Rightarrow> bool" where
  "json_is_bool (Some (Json_bool b)) = True"
| "json_is_bool _ = False"

fun json_is_number :: "json_value option \<Rightarrow> bool" where
  "json_is_number (Some (Json_number x)) = True"
| "json_is_number _ = False"

fun json_is_string :: "json_value option \<Rightarrow> bool" where
  "json_is_string (Some (Json_string s)) = True"
| "json_is_string _ = False"

fun json_is_array :: "json_value option \<Rightarrow> bool" where
  "json_is_array (Some (Json_array a)) = True"
| "json_is_array _ = False"

fun json_is_object :: "json_value option \<Rightarrow> bool" where
  "json_is_object (Some (Json_object a)) = True"
| "json_is_object _ = False"

fun json_get_bool :: "json_value option \<Rightarrow> int" where
  "json_get_bool (Some (Json_bool b)) = (if b then 1 else 0)"
| "json_get_bool _ = 0"

fun json_get_number :: "json_value option \<Rightarrow> flt" where
  "json_get_number (Some (Json_number x)) = x"
| "json_get_number _ = Fin 0"

fun json_get_string :: "json_value option \<Rightarrow> string option" where
  "json_get_string (Some (Json_string s)) = s"
| "json_get_string _ = None"

definition json_is_valid :: "json_value option \<Rightarrow> bool" where
  "json_is_valid value = (value \<noteq> None)"

fun same_kind :: "json_value \<Rightarrow> json_value \<Rightarrow> bool" where
  "same_kind Json_null Json_null = True"
| "same_kind (Json_bool a) (Json_bool b) = True"
| "same_kind (Json_number a) (Json_number b) = True"
| "same_kind (Json_string a) (Json_string b) = True"
| "same_kind (Json_array a) (Json_array b) = True"
| "same_kind (Json_object a) (Json_object b) = True"
| "same_kind _ _ = False"

text \<open>The loop of \<open>json_merge\<close>; the results of the calls are ignored.\<close>

fun merge_pairs ::
  "json_value option \<Rightarrow> (string option \<times> json_value) list \<Rightarrow> answers \<Rightarrow> (json_value option \<times> answers) outcome" where
  "merge_pairs target [] as = Ret (target, as)"
| "merge_pairs target ((k, v) # ps) as =
     obind (json_object_set target k (Some v) as) (\<lambda>(r, target1, as1). merge_pairs target1 ps as1)"

definition json_merge ::
  "json_value option \<Rightarrow> json_value option \<Rightarrow> answers \<Rightarrow> (int \<times> json_value option \<times> answers) outcome" where
  "json_merge target source as = (case (target, source) of
     (Some t, Some s) \<Rightarrow>
       if \<not> same_kind t s then Ret (-1, target, as)
       else (case s of
           Json_object (Some (Null_block n)) \<Rightarrow> if n = 0 then Ret (0, target, as) else Fault Null_deref
         | Json_object (Some (Block ps c)) \<Rightarrow> obind (merge_pairs target ps as) (\<lambda>(t1, as1). Ret (0, t1, as1))
         | _ \<Rightarrow> Ret (0, target, as))
   | _ \<Rightarrow> Ret (-1, target, as))"

fun json_error_string :: "json_error \<Rightarrow> string" where
  "json_error_string JSON_NONE = ''No error''"
| "json_error_string JSON_INVALID_SYNTAX = ''Invalid JSON syntax''"
| "json_error_string JSON_UNEXPECTED_TOKEN = ''Unexpected token''"
| "json_error_string JSON_UNTERMINATED_STRING = ''Unterminated string''"
| "json_error_string JSON_INVALID_ESCAPE = ''Invalid escape sequence''"
| "json_error_string JSON_NUMBER_TOO_LARGE = ''Number too large''"
| "json_error_string JSON_STRING_TOO_LONG = ''String too long''"
| "json_error_string JSON_DEPTH_EXCEEDED = ''Maximum depth exceeded''"
| "json_error_string JSON_MEMORY_ALLOCATION = ''Memory allocation failed''"
| "json_error_string JSON_FILE_IO = ''File I/O error''"

section \<open>Printing\<close>

text \<open>The escapes of string contents.\<close>

definition BS :: char where "BS = CHR 0x08"
definition FF :: char where "FF = CHR 0x0C"
definition BACKSLASH :: char where "BACKSLASH = CHR 0x5C"
definition QUOTE :: char where "QUOTE = CHR 0x22"

definition escape_char :: "char \<Rightarrow> string" where
  "escape_char c =
     (if c = QUOTE then [BACKSLASH, QUOTE]
      else if c = BACKSLASH then [BACKSLASH, BACKSLASH]
      else if c = BS then [BACKSLASH, CHR ''b'']
      else if c = FF then [BACKSLASH, CHR ''f'']
      else if c = NL then [BACKSLASH, CHR ''n'']
      else if c = CR then [BACKSLASH, CHR ''r'']
      else if c = TAB then [BACKSLASH, CHR ''t'']
      else [c])"

definition quoted :: "string \<Rightarrow> string" where
  "quoted s = QUOTE # concat (map escape_char s) @ [QUOTE]"

text \<open>A number that is an int is printed as one; the conversion to int is undefined outside the
  range of int.\<close>

definition number_text :: "flt \<Rightarrow> string outcome" where
  "number_text x = (case x of
     Fin q \<Rightarrow> let i = (if q < 0 then \<lceil>q\<rceil> else \<lfloor>q\<rfloor>) in
       if i < - (2 ^ 31) \<or> 2 ^ 31 \<le> i then Fault Int_overflow
       else Ret (if q = of_int i then print_int i else print_general q)
   | _ \<Rightarrow> Fault Int_overflow)"

text \<open>Appending an element to the text of an array: the comma goes before every element but that at
  index 0, and an element whose text or whose space could not be allocated is left out.\<close>

definition append_element :: "bool \<Rightarrow> string option \<Rightarrow> string \<Rightarrow> answers \<Rightarrow> string \<times> answers" where
  "append_element first el acc as = (case el of
     None \<Rightarrow> (acc, as)
   | Some t \<Rightarrow> (case next_answer as of (ok, as1) \<Rightarrow>
       (if ok then acc @ (if first then [] else '','') @ t else acc, as1)))"

definition append_pair ::
  "bool \<Rightarrow> string option \<Rightarrow> string option \<Rightarrow> string \<Rightarrow> answers \<Rightarrow> string \<times> answers" where
  "append_pair first key el acc as = (case (key, el) of
     (Some k, Some t) \<Rightarrow> (case next_answer as of (ok, as1) \<Rightarrow>
       (if ok then acc @ (if first then [] else '','') @ k @ '':'' @ t else acc, as1))
   | _ \<Rightarrow> (acc, as))"

definition close_text :: "string \<Rightarrow> string \<Rightarrow> answers \<Rightarrow> string option \<times> answers" where
  "close_text bracket acc as = (case next_answer as of (ok, as1) \<Rightarrow>
     (Some (if ok then acc @ bracket else acc), as1))"

text \<open>The text of a string value in quotes; a NULL string is a fault.\<close>

definition string_text :: "string option \<Rightarrow> answers \<Rightarrow> (string option \<times> answers) outcome" where
  "string_text s as = (case s of
     None \<Rightarrow> Fault Null_deref
   | Some t \<Rightarrow> (case next_answer as of (ok, as1) \<Rightarrow> Ret (if ok then Some (quoted t) else None, as1)))"

text \<open>The key of a pair is printed through a string value made for the purpose.\<close>

definition key_text :: "string option \<Rightarrow> answers \<Rightarrow> (string option \<times> answers) outcome" where
  "key_text key as = (case json_create_string key as of
     (None, as1) \<Rightarrow> Ret (strdup ''null'' as1)
   | (Some (Json_string s), as1) \<Rightarrow> string_text s as1
   | (Some v, as1) \<Rightarrow> Ret (None, as1))"

fun stringify :: "json_value \<Rightarrow> answers \<Rightarrow> (string option \<times> answers) outcome"
  and stringify_values :: "bool \<Rightarrow> json_value list \<Rightarrow> string \<Rightarrow> answers \<Rightarrow> (string \<times> answers) outcome"
  and stringify_pairs :: "bool \<Rightarrow> (string option \<times> json_value) list \<Rightarrow> string \<Rightarrow> answers
    \<Rightarrow> (string \<times> answers) outcome" where
  "stringify Json_null as = Ret (strdup ''null'' as)"
| "stringify (Json_bool b) as = Ret (strdup (if b then ''true'' else ''false'') as)"
| "stringify (Json_number x) as = obind (number_text x) (\<lambda>t. Ret (strdup t as))"
| "stringify (Json_string s) as = string_text s as"
| "stringify (Json_array None) as = (case next_answer as of (ok, as1) \<Rightarrow>
     if ok then Fault Null_deref else Ret (None, as1))"
| "stringify (Json_array (Some (Null_block n))) as = (case next_answer as of (ok, as1) \<Rightarrow>
     if \<not> ok then Ret (None, as1)
     else if n = 0 then Ret (close_text '']'' ''['' as1)
     else if n = 1 then (case strdup ''null'' as1 of (el, as2) \<Rightarrow>
       case append_element True el ''['' as2 of (acc, as3) \<Rightarrow> Ret (close_text '']'' acc as3))
     else Fault Null_deref)"
| "stringify (Json_array (Some (Block vs c))) as = (case next_answer as of (ok, as1) \<Rightarrow>
     if \<not> ok then Ret (None, as1)
     else obind (stringify_values True vs ''['' as1) (\<lambda>(acc, as2). Ret (close_text '']'' acc as2)))"
| "stringify (Json_object None) as = (case next_answer as of (ok, as1) \<Rightarrow>
     if ok then Fault Null_deref else Ret (None, as1))"
| "stringify (Json_object (Some (Null_block n))) as = (case next_answer as of (ok, as1) \<Rightarrow>
     if \<not> ok then Ret (None, as1)
     else if n = 0 then Ret (close_text ''}'' ''{'' as1)
     else Fault Null_deref)"
| "stringify (Json_object (Some (Block ps c))) as = (case next_answer as of (ok, as1) \<Rightarrow>
     if \<not> ok then Ret (None, as1)
     else obind (stringify_pairs True ps ''{'' as1) (\<lambda>(acc, as2). Ret (close_text ''}'' acc as2)))"
| "stringify_values first [] acc as = Ret (acc, as)"
| "stringify_values first (v # vs) acc as = obind (stringify v as) (\<lambda>(el, as1).
     case append_element first el acc as1 of (acc1, as2) \<Rightarrow> stringify_values False vs acc1 as2)"
| "stringify_pairs first [] acc as = Ret (acc, as)"
| "stringify_pairs first ((k, v) # ps) acc as = obind (key_text k as) (\<lambda>(key, as1).
     obind (stringify v as1) (\<lambda>(el, as2).
       case append_pair first key el acc as2 of (acc1, as3) \<Rightarrow> stringify_pairs False ps acc1 as3))"

definition json_stringify :: "json_value option \<Rightarrow> answers \<Rightarrow> (string option \<times> answers) outcome" where
  "json_stringify value as = (case value of None \<Rightarrow> Ret (strdup ''null'' as) | Some v \<Rightarrow> stringify v as)"

definition json_pretty_print :: "json_value option \<Rightarrow> int \<Rightarrow> answers \<Rightarrow> (string option \<times> answers) outcome" where
  "json_pretty_print value indent as = json_stringify value as"

section \<open>What a value stands for\<close>

text \<open>The abstract documents, without blocks, capacities and NULL pointers.\<close>

datatype json =
    JNull | JBool bool | JNumber flt | JString string | JArray "json list" | JObject "(string \<times> json) list"

text \<open>A value that no failed allocation has damaged: no NULL string, key or array, contents within the
  capacity, and distinct keys.\<close>

fun json_ok :: "json_value \<Rightarrow> bool" where
  "json_ok (Json_string s) = (s \<noteq> None)"
| "json_ok (Json_array (Some (Null_block n))) = (n = 0)"
| "json_ok (Json_array (Some (Block vs c))) = (length vs \<le> c \<and> list_all json_ok vs)"
| "json_ok (Json_object (Some (Null_block n))) = (n = 0)"
| "json_ok (Json_object (Some (Block ps c))) =
     (length ps \<le> c \<and> list_all (\<lambda>p. fst p \<noteq> None) ps \<and> list_all (\<lambda>p. json_ok (snd p)) ps \<and> distinct (map fst ps))"
| "json_ok (Json_array None) = False"
| "json_ok (Json_object None) = False"
| "json_ok _ = True"

definition the_key :: "string option \<Rightarrow> string" where
  "the_key k = (case k of Some s \<Rightarrow> s | None \<Rightarrow> [])"

lemma the_key_Some [simp]: "the_key (Some k) = k"
  by (simp add: the_key_def)

fun json_abs :: "json_value \<Rightarrow> json" where
  "json_abs Json_null = JNull"
| "json_abs (Json_bool b) = JBool b"
| "json_abs (Json_number x) = JNumber x"
| "json_abs (Json_string s) = JString (the_key s)"
| "json_abs (Json_array (Some (Block vs c))) = JArray (map json_abs vs)"
| "json_abs (Json_array _) = JArray []"
| "json_abs (Json_object (Some (Block ps c))) = JObject (map (\<lambda>p. (the_key (fst p), json_abs (snd p))) ps)"
| "json_abs (Json_object _) = JObject []"

lemma strdup_ok [simp]: "strdup s [] = (Some s, [])"
  by (simp add: strdup_def)

section \<open>Clones\<close>

definition clones :: "json_value \<Rightarrow> bool" where
  "clones v \<longleftrightarrow> (\<exists>w. clone_data v [] = Ret (w, []) \<and> json_ok w \<and> json_abs w = json_abs v)"

lemma clone_values_ok:
  "list_all clones vs \<Longrightarrow> \<exists>ws. clone_values vs [] = Ret (ws, []) \<and> list_all json_ok ws \<and> map json_abs ws = map json_abs vs"
  by (induction vs) (auto simp: clones_def)

lemma clone_pairs_ok:
  "list_all (\<lambda>p. fst p \<noteq> None) ps \<Longrightarrow> list_all (\<lambda>p. clones (snd p)) ps \<Longrightarrow>
    \<exists>qs. clone_pairs ps [] = Ret (qs, []) \<and> map fst qs = map fst ps \<and> list_all (\<lambda>p. json_ok (snd p)) qs
      \<and> map (\<lambda>p. (the_key (fst p), json_abs (snd p))) qs = map (\<lambda>p. (the_key (fst p), json_abs (snd p))) ps"
  by (induction ps) (auto simp: clones_def)

lemma list_all_fst_cong:
  assumes "map fst qs = map fst ps"
  shows "list_all (\<lambda>p. P (fst p)) qs \<longleftrightarrow> list_all (\<lambda>p. P (fst p)) ps"
proof -
  have "list_all P (map fst qs) \<longleftrightarrow> list_all P (map fst ps)" by (simp add: assms)
  then show ?thesis by (simp add: list.pred_map o_def)
qed

lemma clone_ok: "json_ok v \<Longrightarrow> clones v"
proof (induction v)
  case (Json_string s)
  then show ?case by (auto simp: clones_def)
next
  case (Json_array a)
  then obtain st where a: "a = Some st" by (cases a) auto
  show ?case
  proof (cases st)
    case (Block vs c)
    with Json_array a have "list_all clones vs" by (auto simp: list_all_iff)
    then obtain ws where w: "clone_values vs [] = Ret (ws, [])" "list_all json_ok ws" "map json_abs ws = map json_abs vs"
      using clone_values_ok by blast
    from w(3) have "length ws = length vs" by (metis length_map)
    with w a Block show ?thesis by (simp add: clones_def)
  qed (use Json_array a in \<open>simp add: clones_def\<close>)
next
  case (Json_object a)
  then obtain st where a: "a = Some st" by (cases a) auto
  show ?case
  proof (cases st)
    case (Block ps c)
    with Json_object a have "list_all (\<lambda>p. clones (snd p)) ps" "list_all (\<lambda>p. fst p \<noteq> None) ps" "distinct (map fst ps)"
      by (fastforce simp: list_all_iff)+
    then obtain qs where q: "clone_pairs ps [] = Ret (qs, [])" "map fst qs = map fst ps" "list_all (\<lambda>p. json_ok (snd p)) qs"
        "map (\<lambda>p. (the_key (fst p), json_abs (snd p))) qs = map (\<lambda>p. (the_key (fst p), json_abs (snd p))) ps"
      using clone_pairs_ok by blast
    from q(2) have "length qs = length ps" by (metis length_map)
    with q a Block \<open>distinct (map fst ps)\<close> \<open>list_all (\<lambda>p. fst p \<noteq> None) ps\<close> show ?thesis
      by (simp add: clones_def list_all_fst_cong [OF q(2), of "\<lambda>k. k \<noteq> None", simplified])
  qed (use Json_object a in \<open>simp add: clones_def\<close>)
qed (simp_all add: clones_def)

text \<open>When no allocation fails, a clone of an undamaged value is an undamaged value that stands for
  the same document.\<close>

theorem clone_copies_document:
  assumes "json_ok v"
  shows "\<exists>w. json_clone (Some v) [] = Ret (Some w, []) \<and> json_ok w \<and> json_abs w = json_abs v"
  using clone_ok [OF assms] by (auto simp: json_clone_def clones_def)

definition demo_object :: json_value where
  "demo_object = Json_object (Some (Block
     [(Some ''a'', Json_array (Some (Block [Json_number (Fin 1), Json_null] 8))), (Some ''b'', Json_string (Some ''x''))] 8))"

theorem clone_copies_document_witness:
  "\<exists>w. json_clone (Some demo_object) [] = Ret (Some w, [])
    \<and> json_abs w = JObject [(''a'', JArray [JNumber (Fin 1), JNull]), (''b'', JString ''x'')]"
  using clone_copies_document [of demo_object] by (auto simp: demo_object_def)

section \<open>Freeing and updating\<close>

lemma free_data_cases:
  assumes "json_ok v"
  shows "free_data v = Ret () \<longleftrightarrow> (case json_abs v of JArray js \<Rightarrow> js = [] | JObject ps \<Rightarrow> ps = [] | _ \<Rightarrow> True)"
  using assms by (induction v rule: free_data.induct) auto

text \<open>Freeing a value works exactly when it is not an array or object with contents: freeing
  the contents frees addresses that were never allocated, or a block that is used or freed again
  afterwards.\<close>

theorem free_needs_empty_containers:
  assumes "json_ok v"
  shows "json_free (Some v) = Ret () \<longleftrightarrow>
    (case json_abs v of JArray js \<Rightarrow> js = [] | JObject ps \<Rightarrow> ps = [] | _ \<Rightarrow> True)"
  using free_data_cases [OF assms] by (simp add: json_free_def)

theorem free_needs_empty_containers_witness: "json_free (Some demo_object) \<noteq> Ret ()"
  using free_needs_empty_containers [of demo_object] by (simp add: demo_object_def)

lemma find_pair_ok:
  "list_all (\<lambda>p. fst p \<noteq> None) ps \<Longrightarrow> find_pair k ps = Ret (find_idx (\<lambda>p. fst p = Some k) ps)"
  by (induction ps) auto

lemma find_key_None: "find_idx (\<lambda>p. fst p = Some k) ps = None \<longleftrightarrow> Some k \<notin> set (map fst ps)"
  by (simp add: find_idx_None image_iff) metis

lemma the_key_image:
  "list_all (\<lambda>p. fst p \<noteq> None) ps \<Longrightarrow> k \<in> the_key ` set (map fst ps) \<longleftrightarrow> Some k \<in> set (map fst ps)"
  by (induction ps) auto

lemma json_ok_objectD:
  assumes "json_ok (Json_object (Some st))"
  shows "find_stored k st = Ret (find_idx (\<lambda>p. fst p = Some k) (stored_list st))"
    and "stored_count st = length (stored_list st)" and "length (stored_list st) \<le> stored_capacity st"
    and "json_abs (Json_object (Some st)) = JObject (map (\<lambda>p. (the_key (fst p), json_abs (snd p))) (stored_list st))"
    and "list_all (\<lambda>p. fst p \<noteq> None) (stored_list st)"
    and "list_all (\<lambda>p. json_ok (snd p)) (stored_list st)" and "distinct (map fst (stored_list st))"
  using assms by (cases st; simp add: find_stored_def find_pair_ok)+

text \<open>Making room in an undamaged block: afterwards there is a free slot and the contents are kept.\<close>

lemma make_room:
  assumes "stored_count st = length (stored_list st)" and "length (stored_list st) \<le> stored_capacity st"
  shows "\<exists>c. (if stored_count st \<ge> stored_capacity st then expand_capacity st [] else Ret (0, st, []))
      = Ret (0, Block (stored_list st) c, []) \<and> length (stored_list st) < c"
  using assms by (cases st) (auto simp: expand_capacity_def Let_def)

lemma array_add_ok:
  assumes "json_ok (Json_array (Some st))" and "json_ok v"
  shows "\<exists>a. json_array_add (Some (Json_array (Some st))) (Some v) [] = Ret (0, Some (Json_array (Some a)), [])
    \<and> json_ok (Json_array (Some a)) \<and> map json_abs (stored_list a) = map json_abs (stored_list st) @ [json_abs v]"
proof -
  have st: "stored_count st = length (stored_list st)" "length (stored_list st) \<le> stored_capacity st"
      "list_all json_ok (stored_list st)"
    using assms(1) by (cases st; simp)+
  obtain c where c: "(if stored_count st \<ge> stored_capacity st then expand_array_capacity st [] else Ret (0, st, []))
      = Ret (0, Block (stored_list st) c, [])" "length (stored_list st) < c"
    using make_room [OF st(1,2)] unfolding expand_array_capacity_def by blast
  obtain w where w: "json_clone (Some v) [] = Ret (Some w, [])" "json_ok w" "json_abs w = json_abs v"
    using clone_ok [OF assms(2)] by (auto simp: json_clone_def clones_def)
  have "json_array_add (Some (Json_array (Some st))) (Some v) []
      = Ret (0, Some (Json_array (Some (Block (stored_list st @ [w]) c))), [])"
    using c(2) w(1) by (simp add: json_array_add_def c(1) split del: if_split)
  moreover have "json_ok (Json_array (Some (Block (stored_list st @ [w]) c)))" using st(3) c(2) w(2) by simp
  ultimately show ?thesis using w(3) by (intro exI [of _ "Block (stored_list st @ [w]) c"]) simp
qed

lemma object_set_new:
  assumes "json_ok (Json_object (Some st))" and "json_ok v" and "Some k \<notin> set (map fst (stored_list st))"
  shows "\<exists>a w. json_object_set (Some (Json_object (Some st))) (Some k) (Some v) [] = Ret (0, Some (Json_object (Some a)), [])
    \<and> json_ok (Json_object (Some a)) \<and> stored_list a = stored_list st @ [(Some k, w)]
    \<and> json_ok w \<and> json_abs w = json_abs v"
proof -
  note d = json_ok_objectD [OF assms(1)]
  obtain c where c: "(if stored_count st \<ge> stored_capacity st then expand_object_capacity st [] else Ret (0, st, []))
      = Ret (0, Block (stored_list st) c, [])" "length (stored_list st) < c"
    using make_room [OF d(2,3)] unfolding expand_object_capacity_def by blast
  obtain w where w: "json_clone (Some v) [] = Ret (Some w, [])" "json_ok w" "json_abs w = json_abs v"
    using clone_ok [OF assms(2)] by (auto simp: json_clone_def clones_def)
  have "find_idx (\<lambda>p. fst p = Some k) (stored_list st) = None" using assms(3) by (simp add: find_key_None)
  then have "json_object_set (Some (Json_object (Some st))) (Some k) (Some v) []
      = Ret (0, Some (Json_object (Some (Block (stored_list st @ [(Some k, w)]) c))), [])"
    using c(2) w(1) by (simp add: json_object_set_def d(1) c(1) split del: if_split)
  moreover have "json_ok (Json_object (Some (Block (stored_list st @ [(Some k, w)]) c)))"
    using d(5-7) c(2) w(2) assms(3) by simp
  ultimately show ?thesis using w(2,3) by (intro exI [of _ "Block (stored_list st @ [(Some k, w)]) c"] exI [of _ w]) simp
qed

lemma object_set_bound:
  assumes "json_ok (Json_object (Some st))" and "Some k \<in> set (map fst (stored_list st))"
  shows "\<exists>e. json_object_set (Some (Json_object (Some st))) (Some k) (Some v) as = Fault e"
proof -
  have "find_idx (\<lambda>p. fst p = Some k) (stored_list st) \<noteq> None" using assms(2) by (simp add: find_key_None)
  then obtain i where "find_stored k st = Ret (Some i)" using json_ok_objectD(1) [OF assms(1)] by auto
  then show ?thesis by (cases "free_data (snd (stored_list st ! i))") (auto simp: json_object_set_def)
qed

text \<open>An object takes each key once. Setting a key that is not bound appends it, keeps the
  other bindings, and the key then reads as a value for the same document; setting a key that is
  already bound never returns properly, because the old value is freed inside the object's block.\<close>

theorem object_takes_each_key_once:
  assumes "json_ok (Json_object (Some st))" and "json_ok v"
    and "json_abs (Json_object (Some st)) = JObject ps"
  shows "if k \<in> fst ` set ps
    then \<exists>e. json_object_set (Some (Json_object (Some st))) (Some k) (Some v) [] = Fault e
    else \<exists>a w. json_object_set (Some (Json_object (Some st))) (Some k) (Some v) [] = Ret (0, Some a, [])
      \<and> json_ok a \<and> json_abs a = JObject (ps @ [(k, json_abs v)])
      \<and> json_object_get (Some a) (Some k) = Ret (Some w) \<and> json_abs w = json_abs v"
proof -
  note d = json_ok_objectD [OF assms(1)]
  have "ps = map (\<lambda>p. (the_key (fst p), json_abs (snd p))) (stored_list st)" using d(4) assms(3) by simp
  then have "fst ` set ps = the_key ` set (map fst (stored_list st))" by (simp add: image_image)
  then have keys: "k \<in> fst ` set ps \<longleftrightarrow> Some k \<in> set (map fst (stored_list st))"
    using the_key_image [OF d(5)] by simp
  show ?thesis
  proof (cases "k \<in> fst ` set ps")
    case True
    then show ?thesis using object_set_bound [OF assms(1)] keys by simp
  next
    case False
    then have new: "Some k \<notin> set (map fst (stored_list st))" using keys by simp
    obtain a w where a: "json_object_set (Some (Json_object (Some st))) (Some k) (Some v) [] = Ret (0, Some (Json_object (Some a)), [])"
        "json_ok (Json_object (Some a))" "stored_list a = stored_list st @ [(Some k, w)]" "json_abs w = json_abs v"
      using object_set_new [OF assms(1,2) new] by blast
    have "json_abs (Json_object (Some a)) = JObject (ps @ [(k, json_abs v)])"
      using json_ok_objectD(4) [OF a(2)] a(3,4) d(4) assms(3) by simp
    moreover have "find_idx (\<lambda>p. fst p = Some k) (stored_list st) = None" using new by (simp add: find_key_None)
    then have "json_object_get (Some (Json_object (Some a))) (Some k) = Ret (Some w)"
      by (simp add: json_object_get_def json_ok_objectD(1) [OF a(2)] a(3) find_idx_append)
    ultimately show ?thesis using False a by auto
  qed
qed

theorem object_takes_each_key_once_witness:
  "(\<exists>a. json_object_set (Some (Json_object (Some (Null_block 0)))) (Some ''k'') (Some Json_null) [] = Ret (0, Some a, [])
     \<and> json_abs a = JObject [(''k'', JNull)])
   \<and> (\<exists>e. json_object_set (Some (Json_object (Some (Block [(Some ''k'', Json_null)] 8)))) (Some ''k'') (Some Json_null) [] = Fault e)"
  using object_takes_each_key_once [of "Null_block 0" Json_null "[]" "''k''"]
    object_takes_each_key_once [of "Block [(Some ''k'', Json_null)] 8" Json_null "[(''k'', JNull)]" "''k''"]
  by auto

section \<open>The printed text\<close>

text \<open>The text of a document, and the documents whose numbers can be printed.\<close>

fun join :: "string list \<Rightarrow> string" where
  "join [] = []"
| "join (t # ts) = t @ concat (map ((#) CHR '','') ts)"

fun json_text :: "json \<Rightarrow> string" where
  "json_text JNull = ''null''"
| "json_text (JBool b) = (if b then ''true'' else ''false'')"
| "json_text (JNumber x) = (case number_text x of Ret t \<Rightarrow> t | Fault e \<Rightarrow> [])"
| "json_text (JString s) = quoted s"
| "json_text (JArray js) = ''['' @ join (map json_text js) @ '']''"
| "json_text (JObject ps) = ''{'' @ join (map (\<lambda>p. quoted (fst p) @ '':'' @ json_text (snd p)) ps) @ ''}''"

fun printable :: "json \<Rightarrow> bool" where
  "printable (JNumber x) = (case number_text x of Ret t \<Rightarrow> True | Fault e \<Rightarrow> False)"
| "printable (JArray js) = list_all printable js"
| "printable (JObject ps) = list_all (\<lambda>p. printable (snd p)) ps"
| "printable _ = True"

definition prints :: "json_value \<Rightarrow> bool" where
  "prints v \<longleftrightarrow> stringify v [] = Ret (Some (json_text (json_abs v)), [])"

lemma stringify_values_ok:
  "list_all prints vs \<Longrightarrow> stringify_values False vs acc []
     = Ret (acc @ concat (map ((#) CHR '','') (map (json_text \<circ> json_abs) vs)), [])"
  by (induction vs arbitrary: acc) (auto simp: prints_def append_element_def)

lemma stringify_array_ok:
  "list_all prints vs \<Longrightarrow> stringify_values True vs acc [] = Ret (acc @ join (map (json_text \<circ> json_abs) vs), [])"
  by (cases vs) (auto simp: prints_def append_element_def stringify_values_ok)

lemma key_text_ok: "key_text (Some k) [] = Ret (Some (quoted k), [])"
  by (simp add: key_text_def json_create_string_def string_text_def)

lemma stringify_pairs_ok:
  "list_all (\<lambda>p. fst p \<noteq> None) ps \<Longrightarrow> list_all (\<lambda>p. prints (snd p)) ps \<Longrightarrow> stringify_pairs False ps acc []
     = Ret (acc @ concat (map ((#) CHR '','')
         (map (\<lambda>p. quoted (the_key (fst p)) @ '':'' @ json_text (json_abs (snd p))) ps)), [])"
  by (induction ps arbitrary: acc) (auto simp: prints_def append_pair_def key_text_ok)

lemma stringify_object_ok:
  "list_all (\<lambda>p. fst p \<noteq> None) ps \<Longrightarrow> list_all (\<lambda>p. prints (snd p)) ps \<Longrightarrow> stringify_pairs True ps acc []
     = Ret (acc @ join (map (\<lambda>p. quoted (the_key (fst p)) @ '':'' @ json_text (json_abs (snd p))) ps), [])"
  by (cases ps) (auto simp: prints_def append_pair_def key_text_ok stringify_pairs_ok)

lemma stringify_ok: "json_ok v \<Longrightarrow> printable (json_abs v) \<Longrightarrow> prints v"
proof (induction v)
  case (Json_number x)
  then show ?case by (auto simp: prints_def split: outcome.splits)
next
  case (Json_array a)
  then obtain st where a: "a = Some st" by (cases a) auto
  show ?case
  proof (cases st)
    case (Block vs c)
    with Json_array a have "list_all prints vs" by (auto simp: list_all_iff)
    with a Block show ?thesis by (simp add: prints_def stringify_array_ok close_text_def o_def)
  qed (use Json_array a in \<open>simp add: prints_def close_text_def\<close>)
next
  case (Json_object a)
  then obtain st where a: "a = Some st" by (cases a) auto
  show ?case
  proof (cases st)
    case (Block ps c)
    with Json_object a have "list_all (\<lambda>p. prints (snd p)) ps" "list_all (\<lambda>p. fst p \<noteq> None) ps"
      by (fastforce simp: list_all_iff)+
    with a Block show ?thesis by (simp add: prints_def stringify_object_ok close_text_def o_def)
  qed (use Json_object a in \<open>simp add: prints_def close_text_def\<close>)
qed (auto simp: prints_def string_text_def)

end
