(* ===== verification/Json_Parser.thy ===== *)
theory Json_Parser
  imports Json_Value
begin

text \<open>
  The JSON parser (src/json/json_parser_module.c): recursive descent over a buffer with a
  position, a depth and an error. The buffer is NUL-terminated and at least as long as the
  length that the caller gives. What a function stores through its result pointer is a
  \<open>json_out\<close>: nothing (the variable keeps what it held), or a pointer that may be NULL. The
  recursion takes fuel: None means that the fuel is used up, and \<open>parser_returns\<close> shows that the
  fuel of \<open>json_parse\<close> is enough for every input.
\<close>

section \<open>Data\<close>

record json_parser_config =
  enable_unicode_escape :: bool
  enable_comments :: bool
  strict_mode :: bool
  max_depth :: nat
  max_string_length :: nat

definition json_parser_default_config :: json_parser_config where
  "json_parser_default_config = \<lparr>enable_unicode_escape = False, enable_comments = False,
     strict_mode = True, max_depth = 100, max_string_length = 1024 * 1024\<rparr>"

record json_parser =
  p_input :: string
  p_length :: nat
  position :: nat
  p_depth :: nat
  p_error :: json_error
  p_config :: json_parser_config

datatype json_out = Unset | Points_to "json_value option"

text \<open>The character at the position, and the text from the position up to the length.\<close>

definition char_at :: "json_parser \<Rightarrow> char" where
  "char_at p = (if position p < length (p_input p) then p_input p ! position p else NUL)"

definition window :: "json_parser \<Rightarrow> string" where
  "window p = drop (position p) (take (p_length p) (p_input p))"

definition advance :: "nat \<Rightarrow> json_parser \<Rightarrow> json_parser" where
  "advance n p = p\<lparr>position := position p + n\<rparr>"

definition at_end :: "json_parser \<Rightarrow> bool" where
  "at_end p \<longleftrightarrow> p_length p \<le> position p"

section \<open>Tokens\<close>

definition skip_whitespace :: "json_parser \<Rightarrow> json_parser" where
  "skip_whitespace p = advance (length (takeWhile is_space (window p))) p"

text \<open>The walk to the closing quote: how many characters precede it.\<close>

datatype scan = Closed nat | Bad_escape nat | Unterminated nat

fun scan_string :: "string \<Rightarrow> nat \<Rightarrow> scan" where
  "scan_string [] n = Unterminated n"
| "scan_string (c # cs) n =
     (if c = QUOTE then Closed n
      else if c = BACKSLASH then (case cs of [] \<Rightarrow> Bad_escape (n + 1) | d # ds \<Rightarrow> scan_string ds (n + 2))
      else scan_string cs (n + 1))"

definition unescape_char :: "char \<Rightarrow> char" where
  "unescape_char c =
     (if c = CHR ''b'' then BS else if c = CHR ''f'' then FF else if c = CHR ''n'' then NL
      else if c = CHR ''r'' then CR else if c = CHR ''t'' then TAB else c)"

fun unescape :: "string \<Rightarrow> string" where
  "unescape [] = []"
| "unescape [c] = [c]"
| "unescape (c # d # cs) = (if c = BACKSLASH then unescape_char d # unescape cs else c # unescape (d # cs))"

definition unescape_string :: "string \<Rightarrow> answers \<Rightarrow> string option \<times> answers" where
  "unescape_string s as = (case next_answer as of (ok, as1) \<Rightarrow> (if ok then Some (unescape s) else None, as1))"

text \<open>The result pointer is set on success only, to NULL when the unescaped copy cannot be allocated.\<close>

definition parse_string :: "json_parser \<Rightarrow> answers \<Rightarrow> int \<times> string option \<times> json_parser \<times> answers" where
  "parse_string p as = (let p1 = advance 1 p in
     case scan_string (window p1) 0 of
       Closed n \<Rightarrow> (case next_answer as of (ok, as1) \<Rightarrow>
         if \<not> ok then (-1, None, (advance n p1)\<lparr>p_error := JSON_MEMORY_ALLOCATION\<rparr>, as1)
         else case unescape_string (c_str (take n (window p1))) as1 of (s, as2) \<Rightarrow>
           (0, s, advance (n + 1) p1, as2))
     | Bad_escape n \<Rightarrow> (-1, None, (advance n p1)\<lparr>p_error := JSON_INVALID_ESCAPE\<rparr>, as)
     | Unterminated n \<Rightarrow> (-1, None, (advance n p1)\<lparr>p_error := JSON_UNTERMINATED_STRING\<rparr>, as))"

text \<open>\<open>strtod\<close> does not look at the length, only at the end of the buffer.\<close>

definition parse_number :: "json_parser \<Rightarrow> int \<times> flt \<times> json_parser" where
  "parse_number p = (let t = c_str (drop (position p) (p_input p)) in
     case strtod t of (x, rest) \<Rightarrow>
       if length rest = length t then (-1, x, p\<lparr>p_error := JSON_UNEXPECTED_TOKEN\<rparr>)
       else (0, x, advance (length t - length rest) p))"

definition looking_at :: "string \<Rightarrow> json_parser \<Rightarrow> bool" where
  "looking_at w p \<longleftrightarrow> position p + (length w - 1) < p_length p \<and> take (length w) (drop (position p) (p_input p)) = w"

definition parse_bool :: "json_parser \<Rightarrow> int \<times> int \<times> json_parser" where
  "parse_bool p =
     (if looking_at ''true'' p then (0, 1, advance 4 p)
      else if looking_at ''false'' p then (0, 0, advance 5 p)
      else (-1, 0, p\<lparr>p_error := JSON_UNEXPECTED_TOKEN\<rparr>))"

definition parse_null :: "json_parser \<Rightarrow> int \<times> json_parser" where
  "parse_null p = (if looking_at ''null'' p then (0, advance 4 p) else (-1, p\<lparr>p_error := JSON_UNEXPECTED_TOKEN\<rparr>))"

section \<open>Values\<close>

type_synonym parsed = "int \<times> json_out \<times> json_parser \<times> answers"

text \<open>Storing a created value: -1 when it could not be allocated.\<close>

definition store :: "json_value option \<times> answers \<Rightarrow> json_parser \<Rightarrow> parsed" where
  "store r p = (case r of (v, as) \<Rightarrow> (if v \<noteq> None then 0 else -1, Points_to v, p, as))"

definition parse_scalar :: "json_parser \<Rightarrow> answers \<Rightarrow> parsed" where
  "parse_scalar p as =
     (if char_at p = QUOTE
      then (case parse_string p as of (r, s, p1, as1) \<Rightarrow>
        if r = 0 then store (json_create_string s as1) p1 else (r, Unset, p1, as1))
      else if char_at p = CHR ''t'' \<or> char_at p = CHR ''f''
      then (case parse_bool p of (r, b, p1) \<Rightarrow> if r = 0 then store (json_create_bool b as) p1 else (r, Unset, p1, as))
      else if char_at p = CHR ''n'' then (case parse_null p of (r, p1) \<Rightarrow> (r, Unset, p1, as))
      else if char_at p = CHR ''-'' \<or> is_digit (char_at p)
      then (case parse_number p of (r, x, p1) \<Rightarrow> if r = 0 then store (json_create_number x as) p1 else (r, Unset, p1, as))
      else (-1, Unset, p\<lparr>p_error := JSON_UNEXPECTED_TOKEN\<rparr>, as))"

definition enter :: "json_parser \<Rightarrow> json_parser" where
  "enter p = advance 1 (p\<lparr>p_depth := p_depth p + 1\<rparr>)"

definition leave_depth :: "json_parser \<Rightarrow> json_parser" where
  "leave_depth p = p\<lparr>p_depth := p_depth p - 1\<rparr>"

text \<open>The two ends of a container: giving up, with or without a new error, and the closing bracket.\<close>

definition give_up :: "json_value option \<Rightarrow> json_error option \<Rightarrow> json_parser \<Rightarrow> answers \<Rightarrow> parsed outcome option" where
  "give_up v e p as = Some (Ret (-1, Points_to v,
     leave_depth (case e of None \<Rightarrow> p | Some err \<Rightarrow> p\<lparr>p_error := err\<rparr>), as))"

definition close_value :: "json_value option \<Rightarrow> json_parser \<Rightarrow> answers \<Rightarrow> parsed outcome option" where
  "close_value v p as = Some (Ret (0, Points_to v, leave_depth (advance 1 p), as))"

text \<open>
  The bodies of the mutually recursive functions, as functions of the calls they make: a value
  (the two container parsers), the opening of a container (its loop), and one round of a loop (the
  value parser and the rounds that follow).
\<close>

type_synonym value_parser = "json_parser \<Rightarrow> answers \<Rightarrow> parsed outcome option"
type_synonym loop_parser = "json_value option \<Rightarrow> json_parser \<Rightarrow> answers \<Rightarrow> parsed outcome option"

definition value_body :: "value_parser \<Rightarrow> value_parser \<Rightarrow> value_parser" where
  "value_body object array p as = (let p1 = skip_whitespace p in
     if at_end p1 then Some (Ret (-1, Unset, p1\<lparr>p_error := JSON_UNEXPECTED_TOKEN\<rparr>, as))
     else if char_at p1 = CHR ''{'' then object p1 as
     else if char_at p1 = CHR ''['' then array p1 as
     else Some (Ret (parse_scalar p1 as)))"

definition object_body :: "loop_parser \<Rightarrow> value_parser" where
  "object_body loop p as =
     (if max_depth (p_config p) \<le> p_depth p then Some (Ret (-1, Unset, p\<lparr>p_error := JSON_DEPTH_EXCEEDED\<rparr>, as))
      else case json_create_object as of (v, as1) \<Rightarrow>
        if v = None then give_up None (Some JSON_MEMORY_ALLOCATION) (enter p) as1
        else let p1 = skip_whitespace (enter p) in
          if \<not> at_end p1 \<and> char_at p1 = CHR ''}'' then close_value v p1 as1 else loop v p1 as1)"

definition array_body :: "loop_parser \<Rightarrow> value_parser" where
  "array_body loop p as =
     (if max_depth (p_config p) \<le> p_depth p then Some (Ret (-1, Unset, p\<lparr>p_error := JSON_DEPTH_EXCEEDED\<rparr>, as))
      else case json_create_array as of (v, as1) \<Rightarrow>
        if v = None then give_up None (Some JSON_MEMORY_ALLOCATION) (enter p) as1
        else let p1 = skip_whitespace (enter p) in
          if \<not> at_end p1 \<and> char_at p1 = CHR '']'' then close_value v p1 as1 else loop v p1 as1)"

text \<open>After an element: the closing bracket, a comma and the next round, or an error.\<close>

definition after_element :: "char \<Rightarrow> loop_parser \<Rightarrow> loop_parser" where
  "after_element bracket loop v p as = (let p1 = skip_whitespace p in
     if at_end p1 then give_up v (Some JSON_UNEXPECTED_TOKEN) p1 as
     else if char_at p1 = bracket then close_value v p1 as
     else if char_at p1 \<noteq> CHR '','' then give_up v (Some JSON_UNEXPECTED_TOKEN) p1 as
     else loop v (advance 1 p1) as)"

text \<open>Storing an element: the container takes a clone and the parsed value is freed. A value that
  \<open>parse_value\<close> did not set is read here.\<close>

definition object_store :: "loop_parser \<Rightarrow> json_value option \<Rightarrow> string option \<Rightarrow> json_out
    \<Rightarrow> json_parser \<Rightarrow> answers \<Rightarrow> parsed outcome option" where
  "object_store loop v key out p as = (case out of
     Unset \<Rightarrow> Some (Fault Uninit_read)
   | Points_to w \<Rightarrow>
       rbind (Some (json_object_set v key w as)) (\<lambda>(r, v1, as1).
       rbind (Some (json_free w)) (\<lambda>u. after_element CHR ''}'' loop v1 p as1)))"

definition array_store :: "loop_parser \<Rightarrow> json_value option \<Rightarrow> json_out
    \<Rightarrow> json_parser \<Rightarrow> answers \<Rightarrow> parsed outcome option" where
  "array_store loop v out p as = (case out of
     Unset \<Rightarrow> Some (Fault Uninit_read)
   | Points_to w \<Rightarrow>
       rbind (Some (json_array_add v w as)) (\<lambda>(r, v1, as1).
       rbind (Some (json_free w)) (\<lambda>u. after_element CHR '']'' loop v1 p as1)))"

definition object_round :: "value_parser \<Rightarrow> loop_parser \<Rightarrow> loop_parser" where
  "object_round value loop v p as = (let p1 = skip_whitespace p in
     if at_end p1 then give_up v (Some JSON_UNTERMINATED_STRING) p1 as
     else if char_at p1 \<noteq> QUOTE then give_up v (Some JSON_UNEXPECTED_TOKEN) p1 as
     else case parse_string p1 as of (r, key, p2, as1) \<Rightarrow>
       if r \<noteq> 0 then give_up v None p2 as1
       else let p3 = skip_whitespace p2 in
         if at_end p3 \<or> char_at p3 \<noteq> CHR '':'' then give_up v (Some JSON_UNEXPECTED_TOKEN) p3 as1
         else rbind (value (advance 1 p3) as1) (\<lambda>(r2, out, p4, as2).
           if r2 \<noteq> 0 then give_up v None p4 as2 else object_store loop v key out p4 as2))"

definition array_round :: "value_parser \<Rightarrow> loop_parser \<Rightarrow> loop_parser" where
  "array_round value loop v p as =
     (if at_end p then give_up v (Some JSON_UNTERMINATED_STRING) p as
      else rbind (value p as) (\<lambda>(r, out, p1, as1).
        if r \<noteq> 0 then give_up v None p1 as1 else array_store loop v out p1 as1))"

fun parse_value :: "nat \<Rightarrow> value_parser"
  and parse_object :: "nat \<Rightarrow> value_parser"
  and object_loop :: "nat \<Rightarrow> loop_parser"
  and parse_array :: "nat \<Rightarrow> value_parser"
  and array_loop :: "nat \<Rightarrow> loop_parser" where
  "parse_value 0 p as = None"
| "parse_value (Suc n) p as = value_body (parse_object n) (parse_array n) p as"
| "parse_object 0 p as = None"
| "parse_object (Suc n) p as = object_body (object_loop n) p as"
| "object_loop 0 v p as = None"
| "object_loop (Suc n) v p as = object_round (parse_value n) (object_loop n) v p as"
| "parse_array 0 p as = None"
| "parse_array (Suc n) p as = array_body (array_loop n) p as"
| "array_loop 0 v p as = None"
| "array_loop (Suc n) v p as = array_round (parse_value n) (array_loop n) v p as"

section \<open>Entry points\<close>

definition new_parser :: "string \<Rightarrow> nat \<Rightarrow> json_parser" where
  "new_parser text len = \<lparr>p_input = text, p_length = len, position = 0, p_depth = 0, p_error = JSON_NONE,
     p_config = json_parser_default_config\<rparr>"

text \<open>What a variable holds after a call that may have stored through its address.\<close>

definition after_call :: "json_out \<Rightarrow> json_out \<Rightarrow> json_out" where
  "after_call old out = (case out of Unset \<Rightarrow> old | Points_to v \<Rightarrow> Points_to v)"

definition free_out :: "json_out \<Rightarrow> unit outcome" where
  "free_out out = (case out of Unset \<Rightarrow> Fault Uninit_read | Points_to v \<Rightarrow> json_free v)"

text \<open>\<open>old\<close> is what the caller's result variable held; the result is the return code, the
  variable, and the new value of the global error.\<close>

definition json_parse ::
  "string option \<Rightarrow> nat \<Rightarrow> json_out option \<Rightarrow> answers \<Rightarrow> (int \<times> json_out option \<times> json_error \<times> answers) outcome option" where
  "json_parse json len result as = (case (json, result) of
     (Some text, Some old) \<Rightarrow>
       rbind (parse_value (3 * len + 3) (new_parser text len) as) (\<lambda>(r, out, p, as1).
         let var = after_call old out; p1 = skip_whitespace p in
         if r \<noteq> 0 then Some (Ret (-1, Some var, p_error p, as1))
         else if \<not> at_end p1
         then rbind (Some (free_out var)) (\<lambda>u. Some (Ret (-1, Some (Points_to None), JSON_INVALID_SYNTAX, as1)))
         else Some (Ret (0, Some var, JSON_NONE, as1)))
   | _ \<Rightarrow> Some (Ret (-1, result, JSON_INVALID_SYNTAX, as)))"

definition json_validate :: "string option \<Rightarrow> nat \<Rightarrow> answers \<Rightarrow> (int \<times> json_error \<times> answers) outcome option" where
  "json_validate json len as =
     rbind (json_parse json len (Some Unset) as) (\<lambda>(r, var, e, as1).
       if r = 0 then rbind (Some (free_out (case var of Some v \<Rightarrow> v | None \<Rightarrow> Unset))) (\<lambda>u. Some (Ret (1, e, as1)))
       else Some (Ret (0, e, as1)))"

text \<open>Files: the map from names to contents. The answers of reading are those of \<open>malloc\<close> and of a
  complete \<open>fread\<close>; those of writing are the ones of printing, of \<open>fopen\<close> and of a complete
  \<open>fwrite\<close>; what an incomplete write leaves is the empty file.\<close>

type_synonym json_files = "string \<Rightarrow> string option"

definition json_parse_file ::
  "string option \<Rightarrow> json_files \<Rightarrow> json_out option \<Rightarrow> answers
   \<Rightarrow> (int \<times> json_out option \<times> json_error \<times> answers) outcome option" where
  "json_parse_file name files result as = (case (name, result) of
     (Some path, Some old) \<Rightarrow> (case files path of
         None \<Rightarrow> Some (Ret (-1, result, JSON_FILE_IO, as))
       | Some text \<Rightarrow> (case next_answer as of (ok, as1) \<Rightarrow>
           if \<not> ok then Some (Ret (-1, result, JSON_MEMORY_ALLOCATION, as1))
           else case next_answer as1 of (whole, as2) \<Rightarrow>
             if \<not> whole then Some (Ret (-1, result, JSON_FILE_IO, as2))
             else json_parse (Some text) (length text) result as2))
   | _ \<Rightarrow> Some (Ret (-1, result, JSON_FILE_IO, as)))"

definition json_write_file ::
  "string option \<Rightarrow> json_value option \<Rightarrow> json_files \<Rightarrow> answers \<Rightarrow> (int \<times> json_files \<times> json_error \<times> answers) outcome" where
  "json_write_file name value files as = (case (name, value) of
     (Some path, Some v) \<Rightarrow> obind (json_stringify value as) (\<lambda>(t, as1). case t of
         None \<Rightarrow> Ret (-1, files, JSON_MEMORY_ALLOCATION, as1)
       | Some text \<Rightarrow> (case next_answer as1 of (opened, as2) \<Rightarrow>
           if \<not> opened then Ret (-1, files, JSON_FILE_IO, as2)
           else case next_answer as2 of (whole, as3) \<Rightarrow>
             if whole then Ret (0, files(path \<mapsto> text), JSON_NONE, as3)
             else Ret (-1, files(path \<mapsto> []), JSON_FILE_IO, as3)))
   | _ \<Rightarrow> Ret (-1, files, JSON_FILE_IO, as))"

section \<open>The parser always returns\<close>

lemma advance_simps [simp]:
  "p_length (advance n p) = p_length p" "p_input (advance n p) = p_input p" "p_depth (advance n p) = p_depth p"
  "p_config (advance n p) = p_config p" "p_error (advance n p) = p_error p" "position (advance n p) = position p + n"
  by (simp_all add: advance_def)

lemma skip_whitespace_simps [simp]:
  "p_length (skip_whitespace p) = p_length p" "p_input (skip_whitespace p) = p_input p"
  "p_depth (skip_whitespace p) = p_depth p" "p_config (skip_whitespace p) = p_config p"
  "p_error (skip_whitespace p) = p_error p"
  by (simp_all add: skip_whitespace_def)

lemma skip_position: "position p \<le> position (skip_whitespace p)"
  by (simp add: skip_whitespace_def)

lemma depth_simps [simp]:
  "p_length (enter p) = p_length p" "p_input (enter p) = p_input p" "position (enter p) = position p + 1"
  "p_config (enter p) = p_config p" "p_depth (enter p) = p_depth p + 1"
  "p_length (leave_depth p) = p_length p" "p_input (leave_depth p) = p_input p" "position (leave_depth p) = position p"
  "p_config (leave_depth p) = p_config p" "p_depth (leave_depth p) = p_depth p - 1"
  by (simp_all add: enter_def leave_depth_def)

lemma rbind_simps [simp]:
  "rbind None f = None" "rbind (Some (Fault e)) f = Some (Fault e)" "rbind (Some (Ret x)) f = f x"
  by (simp_all add: rbind_def)

text \<open>A call keeps the length and does not move back; when it succeeds it has moved on.\<close>

definition moves :: "json_parser \<Rightarrow> parsed \<Rightarrow> bool" where
  "moves p x = (case x of (r, out, q, as) \<Rightarrow>
     p_length q = p_length p \<and> position p \<le> position q \<and> (r = 0 \<longrightarrow> position p < position q))"

definition grows :: "json_parser \<Rightarrow> parsed outcome option \<Rightarrow> bool" where
  "grows p m = (case m of Some (Ret x) \<Rightarrow> moves p x | _ \<Rightarrow> True)"

lemma moves_error [simp]: "moves p (-1, out, p\<lparr>p_error := e\<rparr>, as)"
  by (simp add: moves_def)

lemma grows_simps [simp]: "grows p None" "grows p (Some (Fault e))" "grows p (Some (Ret x)) = moves p x"
  by (simp_all add: grows_def)

lemma grows_mono: "grows q m \<Longrightarrow> p_length q = p_length p \<Longrightarrow> position p \<le> position q \<Longrightarrow> grows p m"
  by (auto simp: grows_def moves_def split: option.splits outcome.splits)

lemma grows_rbind:
  assumes "\<And>x. m = Some (Ret x) \<Longrightarrow> grows p (f x)"
  shows "grows p (rbind m f)"
  using assms by (auto simp: rbind_def split: option.splits outcome.splits)

lemma parse_string_moves:
  "parse_string p as = (r, s, q, as') \<Longrightarrow> p_length q = p_length p \<and> position p < position q"
  by (auto simp: parse_string_def Let_def split: scan.splits prod.splits if_splits)

lemma parse_number_moves:
  assumes "parse_number p = (r, x, q)"
  shows "p_length q = p_length p \<and> position p \<le> position q \<and> (r = 0 \<longrightarrow> position p < position q)"
proof -
  define t where "t = c_str (drop (position p) (p_input p))"
  obtain y rest where s: "strtod t = (y, rest)" by (cases "strtod t")
  have "length (snd (strtod t)) \<le> length t" by (rule strtod_rest)
  with s assms show ?thesis by (auto simp: parse_number_def Let_def t_def [symmetric] split: if_splits)
qed

lemma parse_scalar_moves: "moves p (parse_scalar p as)"
proof -
  obtain r s q as1 where s: "parse_string p as = (r, s, q, as1)" by (metis prod.exhaust)
  obtain r2 x q2 where n: "parse_number p = (r2, x, q2)" by (metis prod.exhaust)
  note m = parse_string_moves [OF s] parse_number_moves [OF n]
  show ?thesis
    using m by (auto simp: parse_scalar_def s n moves_def store_def parse_bool_def parse_null_def split: prod.splits)
qed

lemma grows_give_up: "p_length q = p_length p \<Longrightarrow> position p \<le> position q \<Longrightarrow> grows p (give_up v e q as)"
  by (cases e) (simp_all add: give_up_def moves_def)

lemma grows_close_value: "p_length q = p_length p \<Longrightarrow> position p \<le> position q \<Longrightarrow> grows p (close_value v q as)"
  by (simp add: close_value_def moves_def)

text \<open>Each body moves on when the calls it makes do.\<close>

lemma grows_value_body:
  assumes "\<And>q bs. grows q (object q bs)" and "\<And>q bs. grows q (array q bs)"
  shows "grows p (value_body object array p as)"
proof -
  have "grows (skip_whitespace p) (value_body object array p as)"
    using assms parse_scalar_moves by (simp add: value_body_def Let_def)
  then show ?thesis by (rule grows_mono) (simp_all add: skip_position)
qed

lemma grows_object_body:
  assumes "\<And>w q bs. grows q (loop w q bs)"
  shows "grows p (object_body loop p as)"
proof -
  have pos: "position p < position (skip_whitespace (enter p))" using skip_position [of "enter p"] by simp
  have "grows p (loop v (skip_whitespace (enter p)) bs)" for v bs
    using grows_mono [OF assms, of "skip_whitespace (enter p)" p] pos by simp
  moreover have "grows p (close_value v (skip_whitespace (enter p)) bs)" for v bs
    using pos by (intro grows_close_value) simp_all
  ultimately show ?thesis by (auto simp: object_body_def Let_def intro: grows_give_up split: prod.splits)
qed

lemma grows_array_body:
  assumes "\<And>w q bs. grows q (loop w q bs)"
  shows "grows p (array_body loop p as)"
proof -
  have pos: "position p < position (skip_whitespace (enter p))" using skip_position [of "enter p"] by simp
  have "grows p (loop v (skip_whitespace (enter p)) bs)" for v bs
    using grows_mono [OF assms, of "skip_whitespace (enter p)" p] pos by simp
  moreover have "grows p (close_value v (skip_whitespace (enter p)) bs)" for v bs
    using pos by (intro grows_close_value) simp_all
  ultimately show ?thesis by (auto simp: array_body_def Let_def intro: grows_give_up split: prod.splits)
qed

lemma grows_after_element:
  assumes "\<And>w q bs. grows q (loop w q bs)" and "p_length q = p_length p" and "position p \<le> position q"
  shows "grows p (after_element c loop v q as)"
proof -
  have "position p \<le> position (skip_whitespace q)" using skip_position [of q] assms(3) by simp
  then show ?thesis
    using assms(1,2) by (auto simp: after_element_def Let_def intro: grows_give_up grows_close_value grows_mono [OF assms(1)])
qed

lemma grows_array_round:
  assumes "\<And>q bs. grows q (value q bs)" and "\<And>w q bs. grows q (loop w q bs)"
  shows "grows p (array_round value loop v p as)"
proof (cases "at_end p")
  case False
  have "grows p (array_store loop v out q bs)" if "p_length q = p_length p" "position p \<le> position q" for out q bs
    using that by (auto simp: array_store_def intro!: grows_rbind grows_after_element [OF assms(2)] split: json_out.split)
  then show ?thesis
    using False assms(1) [of p as]
    by (auto simp: array_round_def moves_def intro!: grows_rbind grows_give_up)
qed (auto simp: array_round_def intro: grows_give_up)

lemma grows_object_round:
  assumes "\<And>q bs. grows q (value q bs)" and "\<And>w q bs. grows q (loop w q bs)"
  shows "grows p (object_round value loop v p as)"
proof -
  define p1 where "p1 = skip_whitespace p"
  obtain r key p2 as1 where s: "parse_string p1 as = (r, key, p2, as1)" by (metis prod.exhaust)
  define p3 where "p3 = skip_whitespace p2"
  have l: "p_length p1 = p_length p" "p_length p2 = p_length p" "p_length p3 = p_length p"
    "position p \<le> position p1" "position p \<le> position p2" "position p \<le> position p3"
    using parse_string_moves [OF s] skip_position [of p] skip_position [of p2]
    by (simp_all add: p1_def p3_def)
  have store: "grows p (object_store loop v key out q bs)" if "p_length q = p_length p" "position p \<le> position q" for out q bs
    using that by (auto simp: object_store_def intro!: grows_rbind grows_after_element [OF assms(2)] split: json_out.split)
  have "grows p (rbind (value (advance 1 p3) as1) (\<lambda>(r2, out, p4, as2).
      if r2 \<noteq> 0 then give_up v None p4 as2 else object_store loop v key out p4 as2))"
    using assms(1) [of "advance 1 p3" as1] l by (auto simp: moves_def intro!: grows_rbind grows_give_up store)
  then show ?thesis
    using l by (auto simp: object_round_def p1_def [symmetric] s p3_def [symmetric] Let_def intro!: grows_give_up)
qed

lemma parser_grows:
  "grows p (parse_value n p as) \<and> grows p (parse_object n p as) \<and> grows p (object_loop n v p as)
   \<and> grows p (parse_array n p as) \<and> grows p (array_loop n v p as)"
proof (induction n arbitrary: p v as)
  case (Suc n)
  then show ?case
    by (simp add: grows_value_body grows_object_body grows_object_round grows_array_body grows_array_round)
qed simp

text \<open>Each body returns when the calls it makes do. The calls of a loop are made further on.\<close>

definition returns :: "'a option \<Rightarrow> bool" where
  "returns m \<longleftrightarrow> m \<noteq> None"

lemma returns_simps [simp]: "\<not> returns None" "returns (Some x)"
  by (simp_all add: returns_def)

definition beyond :: "json_parser \<Rightarrow> json_parser \<Rightarrow> bool" where
  "beyond p q \<longleftrightarrow> p_length q = p_length p \<and> position p < position q"

lemma rbind_returns: "returns m \<Longrightarrow> (\<And>x. m = Some (Ret x) \<Longrightarrow> returns (f x)) \<Longrightarrow> returns (rbind m f)"
  by (cases m) (auto simp: rbind_def split: outcome.splits)

lemma give_up_returns [simp]: "returns (give_up v e p as)"
  by (simp add: give_up_def)

lemma close_value_returns [simp]: "returns (close_value v p as)"
  by (simp add: close_value_def)

lemma after_element_returns:
  assumes "\<And>w q bs. beyond p q \<Longrightarrow> returns (loop w q bs)"
  shows "returns (after_element c loop v p as)"
proof -
  have "beyond p (advance 1 (skip_whitespace p))" using skip_position [of p] by (simp add: beyond_def)
  with assms show ?thesis by (simp add: after_element_def Let_def)
qed

lemma array_round_returns:
  assumes "\<not> at_end p \<Longrightarrow> returns (value p as)" and "grows p (value p as)"
    and "\<And>w q bs. beyond p q \<Longrightarrow> returns (loop w q bs)"
  shows "returns (array_round value loop v p as)"
proof (cases "at_end p")
  case False
  have "returns (array_store loop v out q bs)" if "beyond p q" for out q bs
  proof (cases out)
    case (Points_to w)
    have "returns (after_element c loop u q cs)" for c u cs
      using that by (intro after_element_returns assms(3)) (auto simp: beyond_def)
    then show ?thesis by (auto simp: array_store_def Points_to intro!: rbind_returns)
  qed (simp add: array_store_def)
  then show ?thesis
    using False assms(1,2) by (auto simp: array_round_def moves_def beyond_def intro!: rbind_returns)
qed (simp add: array_round_def)

lemma object_round_returns:
  assumes "\<And>q bs. beyond p q \<Longrightarrow> returns (value q bs)" and "\<And>q bs. grows q (value q bs)"
    and "\<And>w q bs. beyond p q \<Longrightarrow> returns (loop w q bs)"
  shows "returns (object_round value loop v p as)"
proof -
  define p1 where "p1 = skip_whitespace p"
  obtain r key p2 as1 where s: "parse_string p1 as = (r, key, p2, as1)" by (metis prod.exhaust)
  define p3 where "p3 = skip_whitespace p2"
  have b: "beyond p (advance 1 p3)"
    using parse_string_moves [OF s] skip_position [of p] skip_position [of p2]
    by (simp add: p1_def p3_def beyond_def)
  have store: "returns (object_store loop v key out q bs)" if "beyond p q" for out q bs
  proof (cases out)
    case (Points_to w)
    have "returns (after_element c loop u q cs)" for c u cs
      using that by (intro after_element_returns assms(3)) (auto simp: beyond_def)
    then show ?thesis by (auto simp: object_store_def Points_to intro!: rbind_returns)
  qed (simp add: object_store_def)
  have "returns (rbind (value (advance 1 p3) as1) (\<lambda>(r2, out, p4, as2).
      if r2 \<noteq> 0 then give_up v None p4 as2 else object_store loop v key out p4 as2))"
    using assms(1) [OF b, of as1] assms(2) [of "advance 1 p3" as1] b
    by (auto simp: moves_def beyond_def intro!: rbind_returns store)
  then show ?thesis
    by (auto simp: object_round_def p1_def [symmetric] s p3_def [symmetric] Let_def)
qed

definition remaining :: "json_parser \<Rightarrow> nat" where
  "remaining p = p_length p - position p"

lemma remaining_less: "beyond p q \<Longrightarrow> \<not> at_end p \<Longrightarrow> remaining q < remaining p"
  by (auto simp: beyond_def remaining_def at_end_def)

lemma at_end_loops:
  "at_end p \<Longrightarrow> returns (object_loop (Suc n) v p as)" "at_end p \<Longrightarrow> returns (array_loop (Suc n) v p as)"
  using skip_position [of p] by (simp_all add: object_round_def array_round_def at_end_def Let_def)

lemma enough_fuel:
  "(3 * remaining p + 2 \<le> n \<longrightarrow> returns (parse_value n p as))
   \<and> (\<not> at_end p \<longrightarrow> 3 * remaining p + 1 \<le> n \<longrightarrow> returns (parse_object n p as) \<and> returns (parse_array n p as))
   \<and> (3 * remaining p + 3 \<le> n \<longrightarrow> returns (object_loop n v p as) \<and> returns (array_loop n v p as))"
proof (induction n arbitrary: p v as)
  case (Suc n)
  have "returns (parse_value (Suc n) p as)" if "3 * remaining p + 2 \<le> Suc n"
  proof -
    have "remaining (skip_whitespace p) \<le> remaining p" using skip_position [of p] by (simp add: remaining_def)
    with that Suc.IH [of "skip_whitespace p"] show ?thesis by (simp add: value_body_def Let_def)
  qed
  moreover have "returns (parse_object (Suc n) p as) \<and> returns (parse_array (Suc n) p as)"
    if "\<not> at_end p" "3 * remaining p + 1 \<le> Suc n"
  proof -
    have "beyond p (skip_whitespace (enter p))" using skip_position [of "enter p"] by (simp add: beyond_def)
    from remaining_less [OF this that(1)] have "3 * remaining (skip_whitespace (enter p)) + 3 \<le> n" using that(2) by simp
    with Suc.IH [of "skip_whitespace (enter p)"] show ?thesis
      by (auto simp: object_body_def array_body_def Let_def split: prod.splits)
  qed
  moreover have "returns (object_loop (Suc n) v p as) \<and> returns (array_loop (Suc n) v p as)"
    if "3 * remaining p + 3 \<le> Suc n"
  proof (cases "at_end p")
    case False
    have "returns (parse_value n q bs) \<and> returns (object_loop n w q bs) \<and> returns (array_loop n w q bs)" if "beyond p q" for q w bs
      using remaining_less [OF that False] Suc.IH [of q] \<open>3 * remaining p + 3 \<le> Suc n\<close> by simp
    moreover have "returns (parse_value n p as)" using Suc.IH [of p] that by simp
    ultimately show ?thesis
      using parser_grows by (simp add: object_round_returns array_round_returns)
  qed (use at_end_loops in blast)
  ultimately show ?case by blast
qed simp


end
