(* ===== verification/Json_Round_Trip.thy ===== *)
theory Json_Round_Trip
  imports Json_Parser
begin

text \<open>
  What the parser does on texts that \<open>json_stringify\<close> prints. A document is flat when no container
  with contents lies inside another and it holds no null: those are the documents that can be
  parsed at all, because a container with contents cannot be freed after it has been copied into
  its parent, and a null leaves the parser's result variable unset.
\<close>

section \<open>Strings\<close>

lemma special_chars [simp]:
  "QUOTE \<noteq> BACKSLASH" "BACKSLASH \<noteq> QUOTE" "\<not> is_space QUOTE" "\<not> is_space BACKSLASH"
  "NUL \<noteq> QUOTE" "NUL \<noteq> BACKSLASH"
  by (simp_all add: QUOTE_def BACKSLASH_def is_space_def NUL_def)

lemma unescape_escape_char: "unescape (escape_char c @ t) = c # unescape t"
proof (cases "c = QUOTE \<or> c = BACKSLASH \<or> c = BS \<or> c = FF \<or> c = NL \<or> c = CR \<or> c = TAB")
  case True
  then show ?thesis
    by (auto simp: escape_char_def unescape_char_def QUOTE_def BACKSLASH_def BS_def FF_def NL_def CR_def TAB_def)
next
  case False
  then show ?thesis by (cases t) (simp_all add: escape_char_def)
qed

lemma unescape_escaped: "unescape (concat (map escape_char s)) = s"
  by (induction s) (simp_all add: unescape_escape_char)

lemma scan_escape_char: "scan_string (escape_char c @ t) n = scan_string t (n + length (escape_char c))"
  by (auto simp: escape_char_def)

lemma scan_escaped:
  "scan_string (concat (map escape_char s) @ QUOTE # rest) n = Closed (n + length (concat (map escape_char s)))"
  by (induction s arbitrary: n) (simp_all add: scan_escape_char add.assoc)

lemma escape_char_NUL: "NUL \<in> set (escape_char c) \<longleftrightarrow> c = NUL"
  by (auto simp: escape_char_def NUL_def QUOTE_def BACKSLASH_def BS_def FF_def NL_def CR_def TAB_def)

lemma escaped_NUL: "NUL \<in> set (concat (map escape_char s)) \<longleftrightarrow> NUL \<in> set s"
  using escape_char_NUL by auto

lemma c_str_append: "NUL \<notin> set s \<Longrightarrow> c_str (s @ t) = s @ c_str t"
  unfolding c_str_def by (rule takeWhile_append2) auto

section \<open>Looking at the text\<close>

text \<open>A parser that has the whole text as its length, and what it has before it.\<close>

definition full :: "json_parser \<Rightarrow> bool" where
  "full p \<longleftrightarrow> p_length p = length (p_input p) \<and> position p \<le> p_length p"

definition view :: "json_parser \<Rightarrow> string" where
  "view p = drop (position p) (p_input p)"

lemma view_advance: "view (advance n p) = drop n (view p)"
  by (simp add: view_def add.commute)

lemma full_advance: "full p \<Longrightarrow> n \<le> length (view p) \<Longrightarrow> full (advance n p)"
  by (auto simp: full_def view_def)

lemma window_view: "full p \<Longrightarrow> window p = view p"
  by (simp add: window_def view_def full_def)

lemma advance_advance [simp]: "advance m (advance n p) = advance (n + m) p"
  by (simp add: advance_def add.assoc)

lemma at_end_view: "full p \<Longrightarrow> at_end p \<longleftrightarrow> view p = []"
  by (auto simp: at_end_def view_def full_def)

lemma char_at_view: "view p = c # cs \<Longrightarrow> char_at p = c"
  by (metis char_at_def drop_all hd_drop_conv_nth list.discI list.sel(1) not_le view_def)

lemma skip_view: "full p \<Longrightarrow> view p = c # cs \<Longrightarrow> \<not> is_space c \<Longrightarrow> skip_whitespace p = p"
  by (simp add: skip_whitespace_def window_view advance_def)

lemma skip_view_end: "full p \<Longrightarrow> view p = [] \<Longrightarrow> skip_whitespace p = p"
  by (simp add: skip_whitespace_def window_view advance_def)

lemma leave_enter: "leave_depth (advance n (enter p)) = advance (Suc n) p"
  by (simp add: leave_depth_def enter_def advance_def)

lemma enter_view: "view (enter p) = drop 1 (view p)" "full p \<Longrightarrow> view p \<noteq> [] \<Longrightarrow> full (enter p)"
  by (auto simp: view_def full_def enter_def advance_def Suc_le_eq)

lemma parse_string_view:
  assumes "full p" and "view p = quoted s @ rest" and "NUL \<notin> set s"
  shows "parse_string p [] = (0, Some s, advance (length (quoted s)) p, [])"
proof -
  define e where "e = concat (map escape_char s)"
  have v: "view (advance 1 p) = e @ QUOTE # rest" using assms(2) by (simp add: view_advance quoted_def e_def)
  have w: "window (advance 1 p) = e @ QUOTE # rest"
    using v full_advance [OF assms(1), of 1] assms(2) by (simp add: window_view quoted_def)
  have "c_str e = e" using assms(3) escaped_NUL [of s] by (simp add: c_str_id e_def)
  with w show ?thesis
    using unescape_escaped [of s]
    by (simp add: parse_string_def Let_def scan_escaped e_def unescape_string_def quoted_def)
qed

section \<open>Documents\<close>

fun int_number :: "flt \<Rightarrow> bool" where
  "int_number (Fin q) = (q = of_int \<lfloor>q\<rfloor> \<and> - (2 ^ 31) \<le> \<lfloor>q\<rfloor> \<and> \<lfloor>q\<rfloor> < 2 ^ 31)"
| "int_number _ = False"

text \<open>What may stand inside a container: a boolean, a number that is an int, a string, an empty
  container.\<close>

fun item :: "json \<Rightarrow> bool" where
  "item JNull = False"
| "item (JBool b) = True"
| "item (JNumber x) = int_number x"
| "item (JString s) = (NUL \<notin> set s)"
| "item (JArray js) = (js = [])"
| "item (JObject ps) = (ps = [])"

fun flat :: "json \<Rightarrow> bool" where
  "flat (JArray js) = list_all item js"
| "flat (JObject ps) = (list_all (\<lambda>p. NUL \<notin> set (fst p) \<and> item (snd p)) ps \<and> distinct (map fst ps))"
| "flat j = item j"

lemma int_numberE:
  assumes "int_number x"
  obtains i where "x = Fin (of_int i)" "number_text x = Ret (print_int i)" "- (2 ^ 31) \<le> i" "i < 2 ^ 31"
proof (cases x)
  case (Fin q)
  define i where "i = \<lfloor>q\<rfloor>"
  have q: "q = of_int i" and b: "- (2 ^ 31) \<le> i" "i < 2 ^ 31" using assms by (auto simp: Fin i_def)
  have "number_text x = Ret (print_int i)" using b by (simp add: number_text_def Fin q)
  with q b Fin show ?thesis using that by blast
qed (use assms in auto)

lemma printable_item: "item j \<Longrightarrow> printable j"
proof (cases j)
  case (JNumber x)
  moreover assume "item j"
  ultimately show ?thesis by (auto elim!: int_numberE)
qed auto

lemma printable_flat: "flat j \<Longrightarrow> printable j"
  using printable_item [of j] by (cases j) (auto simp: list_all_iff printable_item simp del: item.simps printable.simps(1))

text \<open>What can follow an element: a comma, a bracket, or the end.\<close>

definition delimited :: "string \<Rightarrow> bool" where
  "delimited s = (case s of [] \<Rightarrow> True | c # cs \<Rightarrow> c \<in> {CHR '','', CHR '']'', CHR ''}''})"

lemma delimited_number_end: "delimited s \<Longrightarrow> number_end s"
  by (cases s) (auto simp: delimited_def number_end_def is_digit_def lower_def)

text \<open>The first character of an element's text.\<close>

lemma print_int_head: "\<exists>c cs. print_int i = c # cs \<and> (c = CHR ''-'' \<or> is_digit c)"
  using print_nat_head [of "nat i"] by (auto simp: print_int_def)

lemma view_length: "full p \<Longrightarrow> p_length p = position p + length (view p)"
  by (simp add: view_def full_def)

lemma looking_at_view:
  assumes "full p" and "view p = w @ rest" and "w \<noteq> []"
  shows "looking_at w p"
proof -
  have "p_length p = position p + length w + length rest" using view_length [OF assms(1)] assms(2) by simp
  moreover have "length w - 1 < length w + length rest" using assms(3) by (cases w) auto
  moreover have "drop (position p) (p_input p) = w @ rest" using assms(2) by (simp add: view_def)
  ultimately show ?thesis by (simp add: looking_at_def)
qed

text \<open>\<open>reads\<close>: from here the value parser reads a text and makes the document of it.\<close>

definition reads :: "nat \<Rightarrow> json_parser \<Rightarrow> string \<Rightarrow> json \<Rightarrow> bool" where
  "reads n p t j \<longleftrightarrow> (\<exists>v. parse_value n p [] = Some (Ret (0, Points_to (Some v), advance (length t) p, []))
     \<and> json_ok v \<and> json_abs v = j)"

lemma reads_bool:
  assumes "full p" and "view p = (if b then ''true'' else ''false'') @ rest"
  shows "reads (Suc n) p (if b then ''true'' else ''false'') (JBool b)"
proof -
  define w where "w = (if b then ''true'' else ''false'')"
  have l: "looking_at w p" using looking_at_view [OF assms(1), of w rest] assms(2) by (simp add: w_def)
  have "b \<or> \<not> looking_at ''true'' p" using assms(2) by (auto simp: looking_at_def view_def)
  with l have "parse_bool p = (0, if b then 1 else 0, advance (length w) p)" by (auto simp: parse_bool_def w_def)
  moreover obtain c cs where c: "view p = c # cs" "c = CHR ''t'' \<or> c = CHR ''f''" using assms(2) by (cases b) auto
  moreover have "skip_whitespace p = p" using skip_view [OF assms(1) c(1)] c(2) by (auto simp: is_space_def)
  moreover have "c \<noteq> QUOTE" using c(2) by (auto simp: QUOTE_def)
  ultimately show ?thesis
    using assms(1) char_at_view [OF c(1)]
    by (auto simp: reads_def value_body_def Let_def at_end_view parse_scalar_def store_def json_create_bool_def w_def)
qed

lemma reads_number:
  assumes "full p" and "view p = print_int i @ rest" and "delimited rest" and "- (2 ^ 31) \<le> i" and "i < 2 ^ 31"
  shows "reads (Suc n) p (print_int i) (JNumber (Fin (of_int i)))"
proof -
  have "\<bar>i\<bar> < 2 ^ 53" using assms(4,5) by auto
  moreover have "delimited (c_str rest)" using assms(3) by (cases rest) (auto simp: delimited_def c_str_def)
  ultimately have s: "strtod (print_int i @ c_str rest) = (Fin (of_int i), c_str rest)"
    using strtod_print_int delimited_number_end by blast
  have "NUL \<notin> set (print_int i)"
    using print_nat_digits [of "nat i"] print_nat_digits [of "nat (- i)"] digit_not_special
    by (auto simp: print_int_def list_all_iff NUL_def)
  then have "c_str (view p) = print_int i @ c_str rest" using assms(2) by (simp add: c_str_append)
  then have num: "parse_number p = (0, Fin (of_int i), advance (length (print_int i)) p)"
    using s print_int_head [of i] by (auto simp: parse_number_def Let_def view_def)
  obtain c cs where c: "view p = c # cs" "c = CHR ''-'' \<or> is_digit c" using print_int_head [of i] assms(2) by auto
  have n: "\<not> is_space c" "c \<noteq> QUOTE" "c \<noteq> CHR ''t''" "c \<noteq> CHR ''f''" "c \<noteq> CHR ''n''" "c \<noteq> CHR ''{''" "c \<noteq> CHR ''[''"
    using c(2) by (auto simp: is_space_def is_digit_def QUOTE_def)
  have "skip_whitespace p = p" using skip_view [OF assms(1) c(1) n(1)] .
  then show ?thesis
    using assms(1) char_at_view [OF c(1)] c n num
    by (simp add: reads_def value_body_def Let_def at_end_view parse_scalar_def store_def json_create_number_def)
qed

lemma reads_string:
  assumes "full p" and "view p = quoted s @ rest" and "NUL \<notin> set s"
  shows "reads (Suc n) p (quoted s) (JString s)"
proof -
  have c: "view p = QUOTE # tl (quoted s) @ rest" using assms(2) by (simp add: quoted_def)
  have "skip_whitespace p = p" by (rule skip_view [OF assms(1) c]) simp
  moreover have "QUOTE \<noteq> CHR ''{''" "QUOTE \<noteq> CHR ''[''" by (simp_all add: QUOTE_def)
  ultimately show ?thesis
    using assms(1) char_at_view [OF c] c parse_string_view [OF assms]
    by (simp add: reads_def value_body_def Let_def at_end_view parse_scalar_def store_def json_create_string_def)
qed

lemma reads_empty_array:
  assumes "full p" and "view p = ''[]'' @ rest" and "p_depth p < max_depth (p_config p)"
  shows "reads (Suc (Suc n)) p ''[]'' (JArray [])"
proof -
  have v: "view p = CHR ''['' # CHR '']'' # rest" "view (enter p) = CHR '']'' # rest"
    using assms(2) by (simp_all add: enter_view)
  have f: "full (enter p)" using enter_view(2) [OF assms(1)] v by simp
  have "skip_whitespace p = p" "skip_whitespace (enter p) = enter p"
    by (rule skip_view [OF assms(1) v(1)], simp add: is_space_def, rule skip_view [OF f v(2)], simp add: is_space_def)
  then show ?thesis
    using assms(1,3) f v char_at_view [OF v(1)] char_at_view [OF v(2)]
    by (simp add: reads_def value_body_def array_body_def Let_def at_end_view json_create_array_def close_value_def
      leave_enter numeral_2_eq_2)
qed

lemma reads_empty_object:
  assumes "full p" and "view p = ''{}'' @ rest" and "p_depth p < max_depth (p_config p)"
  shows "reads (Suc (Suc n)) p ''{}'' (JObject [])"
proof -
  have v: "view p = CHR ''{'' # CHR ''}'' # rest" "view (enter p) = CHR ''}'' # rest"
    using assms(2) by (simp_all add: enter_view)
  have f: "full (enter p)" using enter_view(2) [OF assms(1)] v by simp
  have "skip_whitespace p = p" "skip_whitespace (enter p) = enter p"
    by (rule skip_view [OF assms(1) v(1)], simp add: is_space_def, rule skip_view [OF f v(2)], simp add: is_space_def)
  then show ?thesis
    using assms(1,3) f v char_at_view [OF v(1)] char_at_view [OF v(2)]
    by (simp add: reads_def value_body_def object_body_def Let_def at_end_view json_create_object_def close_value_def
      leave_enter numeral_2_eq_2)
qed

text \<open>Every element is read back, whatever delimiter follows it.\<close>

lemma reads_item:
  assumes "full p" and "view p = json_text j @ rest" and "item j" and "delimited rest"
    and "p_depth p < max_depth (p_config p)" and "2 \<le> n"
  shows "reads n p (json_text j) j"
proof -
  obtain m where n: "n = Suc (Suc m)" using assms(6) by (metis Suc_le_D numeral_2_eq_2 Suc_le_mono)
  show ?thesis
  proof (cases j)
    case (JBool b)
    then show ?thesis using reads_bool [OF assms(1)] assms(2) n by simp
  next
    case (JNumber x)
    then obtain i where "x = Fin (of_int i)" "number_text x = Ret (print_int i)" "- (2 ^ 31) \<le> i" "i < 2 ^ 31"
      using assms(3) by (auto elim: int_numberE)
    then show ?thesis using reads_number [OF assms(1) _ assms(4)] assms(2) JNumber n by simp
  next
    case (JString s)
    then show ?thesis using reads_string [OF assms(1)] assms(2,3) n by simp
  next
    case (JArray js)
    then show ?thesis using reads_empty_array [OF assms(1)] assms(2,3,5) n by simp
  next
    case (JObject ps)
    then show ?thesis using reads_empty_object [OF assms(1)] assms(2,3,5) n by simp
  qed (use assms(3) in simp)
qed

lemma item_free: "json_ok v \<Longrightarrow> item (json_abs v) \<Longrightarrow> json_free (Some v) = Ret ()"
  using free_data_cases [of v] by (auto simp: json_free_def split: json.splits)

section \<open>Arrays\<close>

text \<open>After an element: a closing bracket ends the container, a comma starts the next round.\<close>

lemma after_element_close:
  assumes "full p" and "view p = c # rest" and "\<not> is_space c"
  shows "after_element c loop v p as = close_value v p as"
  using assms skip_view [OF assms] char_at_view [OF assms(2)] by (simp add: after_element_def Let_def at_end_view)

lemma after_element_comma:
  assumes "full p" and "view p = CHR '','' # rest" and "c \<noteq> CHR '',''"
  shows "after_element c loop v p as = loop v (advance 1 p) as"
proof -
  have "skip_whitespace p = p" by (rule skip_view [OF assms(1,2)]) (simp add: is_space_def)
  then show ?thesis using assms char_at_view [OF assms(2)] by (simp add: after_element_def Let_def at_end_view)
qed

text \<open>One round of the array loop: the element is read, copied and freed.\<close>

lemma array_round_reads:
  assumes "full p" and "view p = json_text j @ rest" and "rest \<noteq> []" and "item j" and "delimited rest"
    and "p_depth p < max_depth (p_config p)" and "3 \<le> n" and "json_ok (Json_array (Some st))"
  shows "\<exists>a. array_loop n (Some (Json_array (Some st))) p []
      = after_element CHR '']'' (array_loop (n - 1)) (Some (Json_array (Some a))) (advance (length (json_text j)) p) []
    \<and> json_ok (Json_array (Some a)) \<and> map json_abs (stored_list a) = map json_abs (stored_list st) @ [j]"
proof -
  obtain m where n: "n = Suc m" "2 \<le> m" using assms(7) by (cases n) auto
  obtain w where w: "parse_value m p [] = Some (Ret (0, Points_to (Some w), advance (length (json_text j)) p, []))"
      "json_ok w" "json_abs w = j"
    using reads_item [OF assms(1,2,4,5,6) n(2)] by (auto simp: reads_def)
  obtain a where a: "json_array_add (Some (Json_array (Some st))) (Some w) [] = Ret (0, Some (Json_array (Some a)), [])"
      "json_ok (Json_array (Some a))" "map json_abs (stored_list a) = map json_abs (stored_list st) @ [j]"
    using array_add_ok [OF assms(8) w(2)] w(3) by blast
  have "json_free (Some w) = Ret ()" using item_free w assms(4) by blast
  moreover have "\<not> at_end p" using assms(1-3) by (simp add: at_end_view)
  ultimately show ?thesis using a w n(1) by (intro exI [of _ a]) (simp add: array_round_def array_store_def)
qed

lemma array_loop_reads:
  assumes "full p" and "view p = join (map json_text (j # js)) @ CHR '']'' # rest" and "list_all item (j # js)"
    and "json_ok (Json_array (Some st))" and "p_depth p < max_depth (p_config p)" and "length js + 3 \<le> n"
  shows "\<exists>a. array_loop n (Some (Json_array (Some st))) p [] = close_value (Some (Json_array (Some a)))
        (advance (length (join (map json_text (j # js)))) p) []
    \<and> json_ok (Json_array (Some a)) \<and> map json_abs (stored_list a) = map json_abs (stored_list st) @ j # js"
  using assms
proof (induction js arbitrary: j st p n)
  case Nil
  let ?q = "advance (length (json_text j)) p"
  have v0: "view p = json_text j @ CHR '']'' # rest" using Nil(2) by simp
  obtain a where a: "array_loop n (Some (Json_array (Some st))) p []
      = after_element CHR '']'' (array_loop (n - 1)) (Some (Json_array (Some a))) ?q []"
      "json_ok (Json_array (Some a))" "map json_abs (stored_list a) = map json_abs (stored_list st) @ [j]"
    using array_round_reads [OF Nil(1) v0 _ _ _ Nil(5) _ Nil(4), of n] Nil(3,6) by (auto simp: delimited_def)
  have "view ?q = CHR '']'' # rest" "full ?q" using Nil(1,2) by (simp_all add: view_advance full_advance)
  then show ?case using a after_element_close by (auto simp: is_space_def)
next
  case (Cons k js)
  let ?q = "advance (length (json_text j)) p"
  let ?r = "CHR '','' # join (map json_text (k # js)) @ CHR '']'' # rest"
  have v0: "view p = json_text j @ ?r" using Cons(3) by simp
  have m: "length js + 3 \<le> n - 1" using Cons(7) by simp
  obtain a where a: "array_loop n (Some (Json_array (Some st))) p []
      = after_element CHR '']'' (array_loop (n - 1)) (Some (Json_array (Some a))) ?q []"
      "json_ok (Json_array (Some a))" "map json_abs (stored_list a) = map json_abs (stored_list st) @ [j]"
    using array_round_reads [OF Cons(2) v0 _ _ _ Cons(6) _ Cons(5), of n] Cons(4,7) by (auto simp: delimited_def)
  have v: "view ?q = ?r" "full ?q" using Cons(2,3) by (simp_all add: view_advance full_advance)
  then have v1: "view (advance 1 ?q) = join (map json_text (k # js)) @ CHR '']'' # rest" "full (advance 1 ?q)"
    by (simp_all add: view_advance full_advance del: advance_advance)
  obtain b where "array_loop (n - 1) (Some (Json_array (Some a))) (advance 1 ?q) [] = close_value (Some (Json_array (Some b)))
        (advance (length (join (map json_text (k # js)))) (advance 1 ?q)) []"
      "json_ok (Json_array (Some b))" "map json_abs (stored_list b) = map json_abs (stored_list a) @ k # js"
    using Cons(1) [OF v1(2,1) _ a(2) _ m] Cons(4,6) by auto
  then show ?case using a after_element_comma [OF v(2,1)] by (auto simp: ac_simps)
qed

section \<open>Objects\<close>

definition pair_text :: "string \<times> json \<Rightarrow> string" where
  "pair_text x = quoted (fst x) @ '':'' @ json_text (snd x)"

definition pair_item :: "string \<times> json \<Rightarrow> bool" where
  "pair_item x \<longleftrightarrow> NUL \<notin> set (fst x) \<and> item (snd x)"

lemma object_round_reads:
  assumes "full p" and "view p = pair_text x @ rest" and "rest \<noteq> []" and "pair_item x" and "delimited rest"
    and "p_depth p < max_depth (p_config p)" and "3 \<le> n" and "json_ok (Json_object (Some st))"
    and "Some (fst x) \<notin> set (map fst (stored_list st))"
  shows "\<exists>a w. object_loop n (Some (Json_object (Some st))) p []
      = after_element CHR ''}'' (object_loop (n - 1)) (Some (Json_object (Some a))) (advance (length (pair_text x)) p) []
    \<and> json_ok (Json_object (Some a)) \<and> stored_list a = stored_list st @ [(Some (fst x), w)] \<and> json_abs w = snd x"
proof -
  let ?k = "length (quoted (fst x))"
  obtain m where n: "n = Suc m" "2 \<le> m" using assms(7) by (cases n) auto
  have v: "view p = quoted (fst x) @ CHR '':'' # json_text (snd x) @ rest" using assms(2) by (simp add: pair_text_def)
  have k: "parse_string p [] = (0, Some (fst x), advance ?k p, [])"
    using parse_string_view [OF assms(1) v] assms(4) by (simp add: pair_item_def)
  have f: "full (advance ?k p)" "full (advance (Suc ?k) p)" using v by (simp_all add: full_advance assms(1))
  have vk: "view (advance ?k p) = CHR '':'' # json_text (snd x) @ rest" "view (advance (Suc ?k) p) = json_text (snd x) @ rest"
    using v by (simp_all add: view_advance)
  obtain w where w: "parse_value m (advance (Suc ?k) p) []
        = Some (Ret (0, Points_to (Some w), advance (length (json_text (snd x))) (advance (Suc ?k) p), []))"
      "json_ok w" "json_abs w = snd x"
    using reads_item [OF f(2) vk(2) _ assms(5) _ n(2)] assms(4,6) by (auto simp: reads_def pair_item_def)
  obtain a u where a: "json_object_set (Some (Json_object (Some st))) (Some (fst x)) (Some w) [] = Ret (0, Some (Json_object (Some a)), [])"
      "json_ok (Json_object (Some a))" "stored_list a = stored_list st @ [(Some (fst x), u)]" "json_abs u = snd x"
    using object_set_new [OF assms(8) w(2) assms(9)] w(3) by metis
  have "json_free (Some w) = Ret ()" using item_free w assms(4) by (simp add: pair_item_def)
  moreover have q: "view p = QUOTE # tl (quoted (fst x)) @ CHR '':'' # json_text (snd x) @ rest" using v by (simp add: quoted_def)
  moreover have "skip_whitespace p = p" by (rule skip_view [OF assms(1) q]) simp
  moreover have "skip_whitespace (advance ?k p) = advance ?k p" by (rule skip_view [OF f(1) vk(1)]) (simp add: is_space_def)
  ultimately have "object_loop n (Some (Json_object (Some st))) p []
      = after_element CHR ''}'' (object_loop m) (Some (Json_object (Some a))) (advance (length (pair_text x)) p) []"
    using a w n(1) k f assms(1) char_at_view [OF q] char_at_view [OF vk(1)] vk(1)
    by (simp add: object_round_def object_store_def Let_def at_end_view pair_text_def)
  with a n(1) show ?thesis by (intro exI [of _ a] exI [of _ u]) simp
qed

lemma object_loop_reads:
  assumes "full p" and "view p = join (map pair_text (x # xs)) @ CHR ''}'' # rest" and "list_all pair_item (x # xs)"
    and "json_ok (Json_object (Some st))" and "p_depth p < max_depth (p_config p)" and "length xs + 3 \<le> n"
    and "distinct (map fst (stored_list st) @ map (Some \<circ> fst) (x # xs))"
  shows "\<exists>a. object_loop n (Some (Json_object (Some st))) p [] = close_value (Some (Json_object (Some a)))
        (advance (length (join (map pair_text (x # xs)))) p) []
    \<and> json_ok (Json_object (Some a))
    \<and> map (\<lambda>y. (the_key (fst y), json_abs (snd y))) (stored_list a)
        = map (\<lambda>y. (the_key (fst y), json_abs (snd y))) (stored_list st) @ x # xs"
  using assms
proof (induction xs arbitrary: x st p n)
  case Nil
  let ?q = "advance (length (pair_text x)) p"
  have v0: "view p = pair_text x @ CHR ''}'' # rest" using Nil(2) by simp
  obtain a w where a: "object_loop n (Some (Json_object (Some st))) p []
      = after_element CHR ''}'' (object_loop (n - 1)) (Some (Json_object (Some a))) ?q []"
      "json_ok (Json_object (Some a))" "stored_list a = stored_list st @ [(Some (fst x), w)]" "json_abs w = snd x"
    using object_round_reads [OF Nil(1) v0 _ _ _ Nil(5) _ Nil(4), of n] Nil(3,6,7) by (auto simp: delimited_def)
  have "view ?q = CHR ''}'' # rest" "full ?q" using Nil(1) v0 by (simp_all add: view_advance full_advance)
  then show ?case using a after_element_close by (auto simp: is_space_def)
next
  case (Cons y xs)
  let ?q = "advance (length (pair_text x)) p"
  let ?r = "CHR '','' # join (map pair_text (y # xs)) @ CHR ''}'' # rest"
  have v0: "view p = pair_text x @ ?r" using Cons(3) by simp
  have m: "length xs + 3 \<le> n - 1" using Cons(7) by simp
  obtain a w where a: "object_loop n (Some (Json_object (Some st))) p []
      = after_element CHR ''}'' (object_loop (n - 1)) (Some (Json_object (Some a))) ?q []"
      "json_ok (Json_object (Some a))" "stored_list a = stored_list st @ [(Some (fst x), w)]" "json_abs w = snd x"
    using object_round_reads [OF Cons(2) v0 _ _ _ Cons(6) _ Cons(5), of n] Cons(4,7,8) by (auto simp: delimited_def)
  have v: "view ?q = ?r" "full ?q" using Cons(2) v0 by (simp_all add: view_advance full_advance)
  then have v1: "view (advance 1 ?q) = join (map pair_text (y # xs)) @ CHR ''}'' # rest" "full (advance 1 ?q)"
    by (simp_all add: view_advance full_advance del: advance_advance)
  have d: "distinct (map fst (stored_list a) @ map (Some \<circ> fst) (y # xs))" using Cons(8) a(3) by (auto simp: o_def)
  obtain b where "object_loop (n - 1) (Some (Json_object (Some a))) (advance 1 ?q) [] = close_value (Some (Json_object (Some b)))
        (advance (length (join (map pair_text (y # xs)))) (advance 1 ?q)) []"
      "json_ok (Json_object (Some b))"
      "map (\<lambda>y. (the_key (fst y), json_abs (snd y))) (stored_list b)
        = map (\<lambda>y. (the_key (fst y), json_abs (snd y))) (stored_list a) @ y # xs"
    using Cons(1) [OF v1(2,1) _ a(2) _ m d] Cons(4,6) by auto
  then show ?case using a after_element_comma [OF v(2,1)] by (auto simp: ac_simps)
qed

section \<open>Whole documents\<close>

text \<open>The number of elements of a document's outermost container.\<close>

fun elements :: "json \<Rightarrow> nat" where
  "elements (JArray js) = length js"
| "elements (JObject ps) = length ps"
| "elements j = 0"

lemma join_length: "length ts \<le> Suc (length (join ts))"
proof (cases ts)
  case (Cons t us)
  have "length us \<le> length (concat (map ((#) CHR '','') us))" by (induction us) auto
  then show ?thesis by (simp add: Cons)
qed simp

lemma json_text_JObject: "json_text (JObject ps) = CHR ''{'' # join (map pair_text ps) @ ''}''"
  by (simp add: pair_text_def [abs_def])

lemma elements_length: "elements j \<le> length (json_text j)"
  using join_length [of "map json_text (case j of JArray js \<Rightarrow> js | _ \<Rightarrow> [])"]
    join_length [of "map pair_text (case j of JObject ps \<Rightarrow> ps | _ \<Rightarrow> [])"]
  by (cases j) (simp_all add: json_text_JObject del: json_text.simps(6))

lemma open_bracket:
  assumes "full p" and "view p = c # t" and "t \<noteq> []" and "hd t \<noteq> c'" and "\<not> is_space (hd t)" and "\<not> is_space c"
  shows "skip_whitespace p = p" and "skip_whitespace (enter p) = enter p" and "full (enter p)" and "view (enter p) = t"
    and "char_at p = c" and "char_at (enter p) \<noteq> c'" and "\<not> at_end p"
proof -
  show "skip_whitespace p = p" by (rule skip_view [OF assms(1,2,6)])
  show f: "full (enter p)" using enter_view(2) [OF assms(1)] assms(2) by simp
  show v: "view (enter p) = t" using assms(2) by (simp add: enter_view)
  then have v': "view (enter p) = hd t # tl t" using assms(3) by simp
  show "skip_whitespace (enter p) = enter p" by (rule skip_view [OF f v' assms(5)])
  show "char_at p = c" by (rule char_at_view [OF assms(2)])
  show "char_at (enter p) \<noteq> c'" using char_at_view [OF v'] assms(4) by simp
  show "\<not> at_end p" using assms(1,2) by (simp add: at_end_view)
qed

lemma item_text_head:
  assumes "item j"
  shows "json_text j \<noteq> []" and "hd (json_text j) \<noteq> CHR '']''" and "\<not> is_space (hd (json_text j))"
proof -
  have "json_text j \<noteq> [] \<and> hd (json_text j) \<noteq> CHR '']'' \<and> \<not> is_space (hd (json_text j))"
  proof (cases j)
    case (JNumber x)
    then obtain i where "number_text x = Ret (print_int i)" using assms by (auto elim: int_numberE)
    then show ?thesis using JNumber print_int_head [of i] digit_not_special by (auto simp: is_space_def is_digit_def)
  qed (use assms in \<open>auto simp: quoted_def QUOTE_def is_space_def\<close>)
  then show "json_text j \<noteq> []" "hd (json_text j) \<noteq> CHR '']''" "\<not> is_space (hd (json_text j))" by blast+
qed

lemma reads_array:
  assumes "full p" and "view p = json_text (JArray (j # js)) @ rest" and "list_all item (j # js)"
    and "p_depth p + 1 < max_depth (p_config p)" and "length js + 5 \<le> n"
  shows "reads n p (json_text (JArray (j # js))) (JArray (j # js))"
proof -
  obtain m where n: "n = Suc (Suc m)" "length js + 3 \<le> m" using assms(5) by (cases n; cases "n - 1") auto
  define t where "t = join (map json_text (j # js)) @ CHR '']'' # rest"
  have v: "view p = CHR ''['' # t" using assms(2) by (simp add: t_def)
  have h: "hd t = hd (json_text j)" "t \<noteq> []" using item_text_head(1) [of j] assms(3) by (simp_all add: t_def)
  have h': "hd t \<noteq> CHR '']''" "\<not> is_space (hd t)" "\<not> is_space CHR ''[''"
    using item_text_head [of j] h(1) assms(3) by (simp_all add: is_space_def)
  note b = open_bracket [OF assms(1) v h(2) h']
  have d: "p_depth (enter p) < max_depth (p_config (enter p))" using assms(4) by simp
  have k: "json_ok (Json_array (Some (Null_block 0)))" by simp
  obtain a where a: "array_loop m (Some (Json_array (Some (Null_block 0)))) (enter p) [] = close_value (Some (Json_array (Some a)))
        (advance (length (join (map json_text (j # js)))) (enter p)) []"
      "json_ok (Json_array (Some a))" "map json_abs (stored_list a) = j # js"
    using array_loop_reads [OF b(3) b(4) [unfolded t_def] assms(3) k d n(2)] by auto
  have "parse_value n p [] = array_loop m (Some (Json_array (Some (Null_block 0)))) (enter p) []"
    using b n(1) assms(4) by (simp add: value_body_def array_body_def Let_def json_create_array_def)
  moreover have "json_abs (Json_array (Some a)) = JArray (j # js)" using a(3) by (cases a) auto
  ultimately show ?thesis using a by (simp add: reads_def close_value_def leave_enter)
qed

lemma reads_object:
  assumes "full p" and "view p = json_text (JObject (x # xs)) @ rest" and "list_all pair_item (x # xs)"
    and "distinct (map fst (x # xs))" and "p_depth p + 1 < max_depth (p_config p)" and "length xs + 5 \<le> n"
  shows "reads n p (json_text (JObject (x # xs))) (JObject (x # xs))"
proof -
  obtain m where n: "n = Suc (Suc m)" "length xs + 3 \<le> m" using assms(6) by (cases n; cases "n - 1") auto
  define t where "t = join (map pair_text (x # xs)) @ CHR ''}'' # rest"
  have v: "view p = CHR ''{'' # t" using assms(2) by (simp add: t_def json_text_JObject del: json_text.simps(6))
  have h: "hd t = QUOTE" "t \<noteq> []" by (simp_all add: t_def pair_text_def quoted_def)
  have h': "hd t \<noteq> CHR ''}''" "\<not> is_space (hd t)" "\<not> is_space CHR ''{''"
    using h(1) by (simp_all add: is_space_def QUOTE_def)
  note b = open_bracket [OF assms(1) v h(2) h']
  have d: "p_depth (enter p) < max_depth (p_config (enter p))" using assms(5) by simp
  have k: "json_ok (Json_object (Some (Null_block 0)))" by simp
  have u: "distinct (map fst (stored_list (Null_block 0 :: (string option \<times> json_value) storage)) @ map (Some \<circ> fst) (x # xs))"
    using assms(4) by (auto simp: distinct_map inj_on_def)
  obtain a where a: "object_loop m (Some (Json_object (Some (Null_block 0)))) (enter p) [] = close_value (Some (Json_object (Some a)))
        (advance (length (join (map pair_text (x # xs)))) (enter p)) []"
      "json_ok (Json_object (Some a))" "map (\<lambda>y. (the_key (fst y), json_abs (snd y))) (stored_list a) = x # xs"
    using object_loop_reads [OF b(3) b(4) [unfolded t_def] assms(3) k d n(2) u] by auto
  have "parse_value n p [] = object_loop m (Some (Json_object (Some (Null_block 0)))) (enter p) []"
    using b n(1) assms(5) by (simp add: value_body_def object_body_def Let_def json_create_object_def)
  moreover have "json_abs (Json_object (Some a)) = JObject (x # xs)" using a(3) json_ok_objectD(4) [OF a(2)] by simp
  ultimately show ?thesis
    using a by (simp add: reads_def close_value_def leave_enter json_text_JObject del: json_text.simps(6))
qed

text \<open>Every flat document is read back.\<close>

lemma reads_flat:
  assumes "full p" and "view p = json_text j @ rest" and "flat j" and "delimited rest"
    and "p_depth p + 1 < max_depth (p_config p)" and "elements j + 5 \<le> n"
  shows "reads n p (json_text j) j"
proof (cases "item j")
  case True
  then show ?thesis using reads_item [OF assms(1,2) _ assms(4)] assms(5,6) by simp
next
  case False
  show ?thesis
  proof (cases j)
    case (JArray js)
    then show ?thesis using False assms reads_array [OF assms(1)] by (cases js) auto
  next
    case (JObject ps)
    then have "list_all pair_item ps" "distinct (map fst ps)" using assms(3) by (auto simp: list_all_iff pair_item_def)
    then show ?thesis using False assms JObject reads_object [OF assms(1)] by (cases ps) auto
  qed (use False assms(3) in auto)
qed

lemma new_parser_view: "full (new_parser t (length t))" "view (new_parser t (length t)) = t"
  by (simp_all add: full_def view_def new_parser_def)

lemma new_parser_depth: "p_depth (new_parser t n) = 0" "max_depth (p_config (new_parser t n)) = 100"
  by (simp_all add: new_parser_def json_parser_default_config_def)

text \<open>C14: Printing and parsing is a round trip for flat documents: the text of an undamaged value whose
  numbers are ints, which holds no null and no container with contents inside another, is parsed
  without error into an undamaged value for the same document.\<close>

theorem flat_documents_round_trip:
  assumes "json_ok v" and "flat (json_abs v)"
  shows "\<exists>t w. json_stringify (Some v) [] = Ret (Some t, [])
    \<and> json_parse (Some t) (length t) (Some old) [] = Some (Ret (0, Some (Points_to (Some w)), JSON_NONE, []))
    \<and> json_ok w \<and> json_abs w = json_abs v"
proof -
  define t where "t = json_text (json_abs v)"
  define p where "p = new_parser t (length t)"
  have p: "full p" "view p = json_text (json_abs v) @ []" "p_depth p + 1 < max_depth (p_config p)"
    using new_parser_view [of t] new_parser_depth by (simp_all add: p_def t_def)
  have "elements (json_abs v) + 5 \<le> 3 * length t + 5" using elements_length [of "json_abs v"] by (simp add: t_def)
  moreover have "0 < length t"
    using assms(2) item_text_head(1) [of "json_abs v"] by (cases "json_abs v") (auto simp: t_def)
  ultimately have "elements (json_abs v) + 5 \<le> 3 * length t + 3"
    using elements_length [of "json_abs v"] unfolding t_def [symmetric] by linarith
  from reads_flat [OF p(1,2) assms(2) _ p(3) this]
  obtain w where w: "parse_value (3 * length t + 3) p [] = Some (Ret (0, Points_to (Some w), advance (length t) p, []))"
      "json_ok w" "json_abs w = json_abs v"
    by (auto simp: reads_def delimited_def t_def)
  have e: "full (advance (length t) p)" "view (advance (length t) p) = []"
    using p(1,2) by (simp_all add: view_advance full_advance t_def)
  have "json_parse (Some t) (length t) (Some old) [] = Some (Ret (0, Some (Points_to (Some w)), JSON_NONE, []))"
    using w(1) skip_view_end [OF e] e
    by (simp add: json_parse_def p_def [symmetric] Let_def after_call_def at_end_view)
  moreover have "json_stringify (Some v) [] = Ret (Some t, [])"
    using stringify_ok [OF assms(1) printable_flat [OF assms(2)]] by (simp add: json_stringify_def prints_def t_def)
  ultimately show ?thesis using w(2,3) by blast
qed

definition flat_value :: json_value where
  "flat_value = Json_object (Some (Block [(Some ''n'', Json_number (Fin (- 25))), (Some ''s'', Json_string (Some ''x'')),
     (Some ''b'', Json_bool True), (Some ''e'', Json_array (Some (Null_block 0)))] 8))"

theorem flat_documents_round_trip_witness:
  "\<exists>t w. json_stringify (Some flat_value) [] = Ret (Some t, [])
    \<and> json_parse (Some t) (length t) (Some Unset) [] = Some (Ret (0, Some (Points_to (Some w)), JSON_NONE, []))
    \<and> json_abs w = JObject [(''n'', JNumber (Fin (- 25))), (''s'', JString ''x''), (''b'', JBool True), (''e'', JArray [])]"
  using flat_documents_round_trip [of flat_value Unset] by (fastforce simp: flat_value_def NUL_def)

text \<open>A document with a container inside an array or object cannot be parsed when the inner one has
  contents: the inner value is copied into the outer one and then freed, which is a fault. Stated
  for an array that starts with a flat container that has contents.\<close>

theorem nested_containers_fault:
  assumes "flat j" and "0 < elements j" and "delimited rest"
  shows "\<exists>e. json_parse (Some (''['' @ json_text j @ rest)) (length (''['' @ json_text j @ rest)) (Some old) [] = Some (Fault e)"
proof -
  define t where "t = ''['' @ json_text j @ rest"
  define p where "p = new_parser t (length t)"
  have p: "full p" "view p = CHR ''['' # (json_text j @ rest)"
    using new_parser_view [of t] by (simp_all add: p_def t_def)
  have h: "json_text j @ rest \<noteq> []" "hd (json_text j @ rest) \<noteq> CHR '']''" "\<not> is_space (hd (json_text j @ rest))"
    using assms(2) by (cases j; simp add: is_space_def)+
  note b = open_bracket [OF p h, simplified is_space_def, simplified]
  have len: "3 * length t + 3 = Suc (Suc (Suc (3 * length t)))" by simp
  have "elements j + 5 \<le> 3 * length t" using elements_length [of j] assms(2) by (simp add: t_def)
  from reads_flat [OF b(3,4) assms(1,3) _ this]
  obtain w where w: "parse_value (3 * length t) (enter p) [] = Some (Ret (0, Points_to (Some w), advance (length (json_text j)) (enter p), []))"
      "json_ok w" "json_abs w = j"
    using new_parser_depth by (auto simp: reads_def p_def)
  obtain a where a: "json_array_add (Some (Json_array (Some (Null_block 0)))) (Some w) [] = Ret (0, Some (Json_array (Some a)), [])"
    using array_add_ok [of "Null_block 0" w] w(2) by auto
  have "json_free (Some w) \<noteq> Ret ()"
    using free_data_cases [OF w(2)] w(3) assms(2) by (cases j) (auto simp: json_free_def)
  then obtain e where e: "json_free (Some w) = Fault e" by (cases "json_free (Some w)") auto
  have "\<not> at_end (enter p)" using b(3,4) h(1) by (simp add: at_end_view)
  then have "array_loop (Suc (3 * length t)) (Some (Json_array (Some (Null_block 0)))) (enter p) [] = Some (Fault e)"
    using w(1) a e by (simp add: array_round_def array_store_def)
  then have "parse_value (3 * length t + 3) p [] = Some (Fault e)"
    using b new_parser_depth [of t "length t"] unfolding len p_def [symmetric]
    by (simp add: value_body_def array_body_def Let_def json_create_array_def)
  then show ?thesis unfolding t_def [symmetric] by (simp add: json_parse_def p_def)
qed

theorem nested_containers_fault_witness:
  "\<exists>e. json_parse (Some ''[[true]]'') 8 (Some Unset) [] = Some (Fault e)"
  using nested_containers_fault [of "JArray [JBool True]" "'']''" Unset] by (simp add: delimited_def eval_nat_numeral)

end
