(* ===== verification/C_Strings.thy ===== *)
theory C_Strings
  imports C_Numbers
begin

text \<open>
  The string functions of C on memory: a pointer into a block is the list of the bytes from there to
  the end of the block, and a function that runs past them is a fault. Where the block does hold a
  terminator, the text is what precedes it.
\<close>

section \<open>Blocks\<close>

text \<open>A block of \<open>n\<close> bytes in which the allocator left \<open>junk\<close>.\<close>

definition fresh_block :: "nat \<Rightarrow> string \<Rightarrow> string" where
  "fresh_block n junk = take n (junk @ replicate n NUL)"

text \<open>\<open>realloc\<close> to \<open>n\<close> bytes; of NULL it is \<open>malloc\<close>.\<close>

definition resize_block :: "nat \<Rightarrow> string \<Rightarrow> string option \<Rightarrow> string" where
  "resize_block n junk old = (case old of None \<Rightarrow> fresh_block n junk
     | Some mem \<Rightarrow> take n mem @ fresh_block (n - length mem) junk)"

text \<open>\<open>memcpy(block + i, data, length)\<close>.\<close>

definition put_bytes :: "nat \<Rightarrow> string \<Rightarrow> string \<Rightarrow> string outcome" where
  "put_bytes i d mem = (if i + length d \<le> length mem then Ret (take i mem @ d @ drop (i + length d) mem)
     else Fault Out_of_bounds)"

lemma length_fresh_block [simp]: "length (fresh_block n junk) = n"
  by (simp add: fresh_block_def)

lemma length_resize_block [simp]: "length (resize_block n junk old) = n"
  by (auto simp: resize_block_def min_def split: option.split)

lemma length_put_bytes: "put_bytes i d mem = Ret mem' \<Longrightarrow> length mem' = length mem"
  by (auto simp: put_bytes_def split: if_splits)

section \<open>Reading strings\<close>

text \<open>The C string at a pointer.\<close>

definition read_str :: "string \<Rightarrow> string outcome" where
  "read_str mem = (if NUL \<in> set mem then Ret (c_str mem) else Fault Out_of_bounds)"

text \<open>\<open>strstr\<close>: the offset of the first occurrence before the terminator.\<close>

fun strstr :: "string \<Rightarrow> string \<Rightarrow> nat option outcome" where
  "strstr w [] = (if w = [] then Ret (Some 0) else Fault Out_of_bounds)"
| "strstr w (c # cs) =
     (if take (length w) (c # cs) = w then Ret (Some 0)
      else if c = NUL then Ret None
      else obind (strstr w cs) (\<lambda>r. Ret (map_option Suc r)))"

definition strndup :: "nat \<Rightarrow> string \<Rightarrow> answers \<Rightarrow> string option \<times> answers" where
  "strndup n mem as = strdup (c_str (take n mem)) as"

text \<open>\<open>strtok\<close>: the token, and the text at which the next call continues.\<close>

definition strtok :: "string \<Rightarrow> string \<Rightarrow> string option \<times> string" where
  "strtok ds s = (let t = dropWhile (\<lambda>c. c \<in> set ds) s in
     if t = [] then (None, [])
     else (Some (takeWhile (\<lambda>c. c \<notin> set ds) t), drop 1 (dropWhile (\<lambda>c. c \<notin> set ds) t)))"

definition strcasecmp_eq :: "string \<Rightarrow> string \<Rightarrow> bool" where
  "strcasecmp_eq s t \<longleftrightarrow> map lower s = map lower t"

text \<open>\<open>sscanf(s, "%x", &v)\<close>: white space, a sign, an optional \<open>0x\<close>, and digits; None when no number is
  read. (Some libraries read \<open>0x\<close> without digits as 0; here it is no number, as in the standard.)\<close>

definition scan_hex :: "string \<Rightarrow> int option" where
  "scan_hex s = (case parse_sign (dropWhile is_space s) of (neg, t) \<Rightarrow>
     let d = takeWhile (\<lambda>c. hex_val c \<noteq> None) (if has_prefix ''0x'' t then drop 2 t else t);
         v = int (nat_of_hex d) in
     if d = [] then None else Some (if neg then - v else v))"

text \<open>The conversion from int to char keeps the low eight bits.\<close>

definition to_char :: "int \<Rightarrow> char" where
  "to_char i = char_of (nat (i mod 256))"

text \<open>\<open>snprintf\<close> into a buffer of \<open>n\<close> bytes.\<close>

definition snprintf_text :: "nat \<Rightarrow> string \<Rightarrow> string" where
  "snprintf_text n s = take (n - 1) s"

text \<open>\<open>strcat\<close> to a buffer of \<open>n\<close> bytes that holds the text \<open>a\<close>.\<close>

definition strcat_buf :: "nat \<Rightarrow> string \<Rightarrow> string \<Rightarrow> string outcome" where
  "strcat_buf n a b = (if length a + length b < n then Ret (a @ b) else Fault Out_of_bounds)"

section \<open>Laws\<close>

lemma strtok_shorter: "strtok ds s = (Some t, r) \<Longrightarrow> length r < length s"
proof -
  assume a: "strtok ds s = (Some t, r)"
  define u where "u = dropWhile (\<lambda>c. c \<in> set ds) s"
  from a have u: "u \<noteq> []" "r = drop 1 (dropWhile (\<lambda>c. c \<notin> set ds) u)"
    by (auto simp: strtok_def Let_def u_def split: if_splits)
  have "length u \<le> length s" by (simp add: u_def length_dropWhile_le)
  moreover have "length (dropWhile (\<lambda>c. c \<notin> set ds) u) \<le> length u" by (rule length_dropWhile_le)
  moreover have "0 < length u" using u(1) by simp
  ultimately show ?thesis using u(2) by (cases "dropWhile (\<lambda>c. c \<notin> set ds) u") auto
qed

text \<open>A token that a delimiter or the end follows.\<close>

lemma strtok_token:
  assumes "t \<noteq> []" and "set t \<inter> set ds = {}" and "d \<in> set ds"
  shows "strtok ds (t @ d # r) = (Some t, r)" "strtok ds t = (Some t, [])"
proof -
  have d: "dropWhile (\<lambda>c. c \<in> set ds) (t @ u) = t @ u" for u
    using assms(1,2) by (cases t) auto
  have "takeWhile (\<lambda>c. c \<notin> set ds) (t @ d # r) = t" "dropWhile (\<lambda>c. c \<notin> set ds) (t @ d # r) = d # r"
    using assms(2,3) by (auto simp: takeWhile_append dropWhile_append)
  moreover have "takeWhile (\<lambda>c. c \<notin> set ds) t = t" "dropWhile (\<lambda>c. c \<notin> set ds) t = []"
    using assms(2) by (auto simp: takeWhile_eq_all_conv dropWhile_eq_Nil_conv)
  moreover have "dropWhile (\<lambda>c. c \<in> set ds) t = t" using d [of "[]"] by simp
  ultimately show "strtok ds (t @ d # r) = (Some t, r)" "strtok ds t = (Some t, [])"
    using assms(1) by (simp_all add: strtok_def Let_def d del: takeWhile_eq_Nil_iff dropWhile_eq_Nil_conv)
qed

lemma strtok_skip: "d \<in> set ds \<Longrightarrow> strtok ds (d # r) = strtok ds r"
  by (simp add: strtok_def)

text \<open>The first occurrence, when the text in front contains neither the terminator nor the first
  character of what is searched.\<close>

lemma strstr_found:
  assumes "w = c # ws" and "c \<notin> set s" and "NUL \<notin> set s"
  shows "strstr w (s @ w @ r) = Ret (Some (length s))"
  using assms
proof (induction s)
  case Nil
  then show ?case by simp
next
  case (Cons d s)
  then have "take (length w) ((d # s) @ w @ r) \<noteq> w" by auto
  moreover have "d \<noteq> NUL" using Cons.prems(3) by auto
  ultimately show ?case using Cons by (simp del: take_append)
qed

lemma strstr_no_fault: "NUL \<in> set mem \<Longrightarrow> \<exists>r. strstr w mem = Ret r"
  by (induction mem) auto

lemma read_str_text: "NUL \<notin> set s \<Longrightarrow> read_str (s @ NUL # r) = Ret s"
  by (simp add: read_str_def c_str_def takeWhile_append)

lemma hex_digit_not_special: "hex_val c = Some d \<Longrightarrow> \<not> is_space c \<and> c \<noteq> CHR ''-'' \<and> c \<noteq> CHR ''+'' \<and> lower c \<noteq> CHR ''x''"
  by (auto simp: hex_val_def is_space_def Let_def split: if_splits) (auto simp: lower_def)

lemma scan_two_digits:
  assumes "hex_val a = Some m" and "hex_val b = Some n"
  shows "scan_hex [a, b] = Some (int (16 * m + n))"
proof -
  note s = hex_digit_not_special [OF assms(1)] hex_digit_not_special [OF assms(2)]
  have "\<not> has_prefix ''0x'' [a, b]" using s by (simp add: has_prefix_def)
  then show ?thesis using assms s by (simp add: scan_hex_def parse_sign_def nat_of_hex_def)
qed

end
