(* ===== verification/Uv_Inet.thy ===== *)
theory Uv_Inet
  imports C_Numbers
begin

text \<open>
  Internet addresses in libuv (src/depend/libuv-1.48.0/src/inet.c and the address functions of uv-common.c), which
  the HTTP and network modules use for the address they listen on. Bytes and 16-bit words are natural numbers; a C
  string is the list of its characters without the terminating NUL. A function that fills a buffer gives its return
  code and what it wrote. Writing outside a buffer is a fault.
\<close>

section \<open>Constants\<close>

definition EINVAL :: int where "EINVAL = -22"
definition ENOSPC :: int where "ENOSPC = -28"
definition E2BIG :: int where "E2BIG = -7"
definition EAFNOSUPPORT :: int where "EAFNOSUPPORT = -97"
definition AF_INET :: int where "AF_INET = 2"
definition AF_INET6 :: int where "AF_INET6 = 10"
definition INET6_ADDRSTRLEN :: nat where "INET6_ADDRSTRLEN = 46"

section \<open>Copying a string\<close>

text \<open>The loop of \<open>uv__strscpy\<close> with \<open>i\<close> characters copied: the result and the string that is in the buffer then.\<close>

fun strscpy_loop :: "nat \<Rightarrow> nat \<Rightarrow> string \<Rightarrow> string \<Rightarrow> int \<times> string option" where
  "strscpy_loop n i d s =
     (if i < n then (case s of [] \<Rightarrow> (int i, Some d) | c # cs \<Rightarrow> strscpy_loop n (Suc i) (d @ [c]) cs)
      else if i = 0 then (0, None) else (E2BIG, Some (butlast d)))"

declare strscpy_loop.simps [simp del]

definition uv__strscpy :: "string \<Rightarrow> nat \<Rightarrow> int \<times> string option" where
  "uv__strscpy s n = strscpy_loop n 0 [] s"

section \<open>From bytes to text\<close>

definition hex_char :: "nat \<Rightarrow> char" where
  "hex_char d = (if d < 10 then char_of (48 + d) else char_of (87 + d))"

fun print_hex :: "nat \<Rightarrow> string" where
  "print_hex n = (if n < 16 then [hex_char n] else print_hex (n div 16) @ [hex_char (n mod 16)])"

declare print_hex.simps [simp del]

definition dotted :: "nat list \<Rightarrow> string" where
  "dotted bs = print_nat (bs ! 0) @ ''.'' @ print_nat (bs ! 1) @ ''.'' @ print_nat (bs ! 2) @ ''.'' @ print_nat (bs ! 3)"

definition inet_ntop4 :: "nat list \<Rightarrow> nat \<Rightarrow> int \<times> string option" where
  "inet_ntop4 src sz =
     (let l = length (dotted src) in
      if l = 0 \<or> sz \<le> l then (ENOSPC, None) else (0, snd (uv__strscpy (dotted src) sz)))"

text \<open>The loop that finds the longest run of zero words: the best run and the current one, as base and length; base -1 is none.\<close>

fun zero_runs :: "nat list \<Rightarrow> nat \<Rightarrow> int \<times> nat \<Rightarrow> int \<times> nat \<Rightarrow> (int \<times> nat) \<times> (int \<times> nat)" where
  "zero_runs [] i best cur = (best, cur)"
| "zero_runs (w # ws) i best cur =
     (if w = 0 then zero_runs ws (Suc i) best (if fst cur = -1 then (int i, 1) else (fst cur, snd cur + 1))
      else if fst cur \<noteq> -1
      then zero_runs ws (Suc i) (if fst best = -1 \<or> snd best < snd cur then cur else best) (-1, snd cur)
      else zero_runs ws (Suc i) best cur)"

definition best_run :: "nat list \<Rightarrow> int \<times> nat" where
  "best_run ws = (case zero_runs ws 0 (-1, 0) (-1, 0) of (best, cur) \<Rightarrow>
     let b = (if fst cur \<noteq> -1 \<and> (fst best = -1 \<or> snd best < snd cur) then cur else best) in
     if fst b \<noteq> -1 \<and> snd b < 2 then (-1, snd b) else b)"

text \<open>Characters go to the buffer \<open>tmp\<close> at \<open>tp\<close>; they and the NUL that follows at the end have to fit.\<close>

definition put_tmp :: "string \<Rightarrow> string \<Rightarrow> string outcome" where
  "put_tmp tp cs = (if length tp + length cs < INET6_ADDRSTRLEN then Ret (tp @ cs) else Fault Out_of_bounds)"

text \<open>The formatting loop from word \<open>i\<close>.\<close>

fun format6 :: "nat list \<Rightarrow> nat list \<Rightarrow> int \<times> nat \<Rightarrow> nat \<Rightarrow> nat list \<Rightarrow> string \<Rightarrow> (int \<times> string) outcome" where
  "format6 src words best i [] tp = Ret (0, tp)"
| "format6 src words best i (w # ws) tp =
     (if fst best \<noteq> -1 \<and> fst best \<le> int i \<and> int i < fst best + int (snd best)
      then (if int i = fst best then obind (put_tmp tp '':'') (format6 src words best (Suc i) ws)
            else format6 src words best (Suc i) ws tp)
      else obind (if i \<noteq> 0 then put_tmp tp '':'' else Ret tp) (\<lambda>tp1.
        if i = 6 \<and> fst best = 0 \<and> (snd best = 6 \<or> (snd best = 7 \<and> words ! 7 \<noteq> 1) \<or> (snd best = 5 \<and> words ! 5 = 65535))
        then (case inet_ntop4 (drop 12 src) (INET6_ADDRSTRLEN - length tp1) of (err, s) \<Rightarrow>
          if err \<noteq> 0 then Ret (err, tp1) else (case s of None \<Rightarrow> Ret (0, tp1) | Some d \<Rightarrow> Ret (0, tp1 @ d)))
        else obind (put_tmp tp1 (print_hex w)) (format6 src words best (Suc i) ws)))"

definition words_of :: "nat list \<Rightarrow> nat list" where
  "words_of src = map (\<lambda>i. src ! (2 * i) * 256 + src ! (2 * i + 1)) [0..<8]"

definition inet_ntop6 :: "nat list \<Rightarrow> nat \<Rightarrow> (int \<times> string option) outcome" where
  "inet_ntop6 src sz =
     (let words = words_of src; best = best_run words in
      obind (format6 src words best 0 words []) (\<lambda>(err, tp).
        if err \<noteq> 0 then Ret (err, None)
        else obind (if fst best \<noteq> -1 \<and> fst best + int (snd best) = 8 then put_tmp tp '':'' else Ret tp) (\<lambda>tp1.
          if sz < length tp1 + 1 then Ret (ENOSPC, None) else Ret (0, snd (uv__strscpy tp1 sz)))))"

definition uv_inet_ntop :: "int \<Rightarrow> nat list \<Rightarrow> nat \<Rightarrow> (int \<times> string option) outcome" where
  "uv_inet_ntop af src sz =
     (if af = AF_INET then Ret (inet_ntop4 src sz) else if af = AF_INET6 then inet_ntop6 src sz else Ret (EAFNOSUPPORT, None))"

section \<open>From text to bytes\<close>

text \<open>The loop of \<open>inet_pton4\<close>: whether the last character was a digit, how many numbers have begun, the bytes before \<open>tp\<close> and the byte at \<open>tp\<close>.\<close>

fun pton4_loop :: "string \<Rightarrow> bool \<Rightarrow> nat \<Rightarrow> nat list \<Rightarrow> nat \<Rightarrow> int \<times> nat list" where
  "pton4_loop [] saw_digit octets done4 cur = (if octets < 4 then (EINVAL, []) else (0, done4 @ [cur]))"
| "pton4_loop (ch # src) saw_digit octets done4 cur =
     (if is_digit ch
      then let nw = cur * 10 + digit_val ch in
           if saw_digit \<and> cur = 0 then (EINVAL, [])
           else if 255 < nw then (EINVAL, [])
           else if \<not> saw_digit
           then (if 4 < octets + 1 then (EINVAL, []) else pton4_loop src True (octets + 1) done4 nw)
           else pton4_loop src saw_digit octets done4 nw
      else if ch = CHR ''.'' \<and> saw_digit
      then (if octets = 4 then (EINVAL, []) else pton4_loop src False octets (done4 @ [cur]) 0)
      else (EINVAL, []))"

definition inet_pton4 :: "string \<Rightarrow> int \<times> nat list" where
  "inet_pton4 src = pton4_loop src False 0 [] 0"

text \<open>The loop of \<open>inet_pton6\<close>: the text from the last colon on, the bytes written, where the double colon was, the hexadecimal digits seen
  and their value.\<close>

fun pton6_loop :: "string \<Rightarrow> string \<Rightarrow> nat list \<Rightarrow> nat option \<Rightarrow> nat \<Rightarrow> nat \<Rightarrow> (nat list \<times> nat option \<times> nat \<times> nat) option" where
  "pton6_loop [] curtok tp colonp seen val = Some (tp, colonp, seen, val)"
| "pton6_loop (ch # src) curtok tp colonp seen val =
     (case hex_val ch of
        Some d \<Rightarrow> if 4 < seen + 1 then None else pton6_loop src curtok tp colonp (seen + 1) (val * 16 + d)
      | None \<Rightarrow>
        if ch = CHR '':''
        then (if seen = 0 then (if colonp \<noteq> None then None else pton6_loop src src tp (Some (length tp)) seen val)
              else if src = [] then None
              else if 16 < length tp + 2 then None
              else pton6_loop src src (tp @ [val div 256 mod 256, val mod 256]) colonp 0 0)
        else if ch = CHR ''.'' \<and> length tp + 4 \<le> 16
        then (case inet_pton4 curtok of (err, bs) \<Rightarrow> if err = 0 then Some (tp @ bs, colonp, 0, val) else None)
        else None)"

definition pton6_finish :: "nat list \<times> nat option \<times> nat \<times> nat \<Rightarrow> int \<times> nat list" where
  "pton6_finish st = (case st of (tp, colonp, seen, val) \<Rightarrow>
     if seen \<noteq> 0 \<and> 16 < length tp + 2 then (EINVAL, [])
     else let tp1 = (if seen \<noteq> 0 then tp @ [val div 256 mod 256, val mod 256] else tp) in
       (case colonp of
          Some c \<Rightarrow> if length tp1 = 16 then (EINVAL, [])
            else (0, take c tp1 @ replicate (16 - length tp1) 0 @ drop c tp1)
        | None \<Rightarrow> if length tp1 \<noteq> 16 then (EINVAL, []) else (0, tp1)))"

definition inet_pton6 :: "string \<Rightarrow> int \<times> nat list" where
  "inet_pton6 src =
     (if src \<noteq> [] \<and> hd src = CHR '':'' \<and> (tl src = [] \<or> hd (tl src) \<noteq> CHR '':'') then (EINVAL, [])
      else let src1 = (if src \<noteq> [] \<and> hd src = CHR '':'' then tl src else src) in
        (case pton6_loop src1 src1 [] None 0 0 of None \<Rightarrow> (EINVAL, []) | Some st \<Rightarrow> pton6_finish st))"

text \<open>The zone of an IPv6 address, from \<open>%\<close> on, is left out.\<close>

definition uv_inet_pton :: "int \<Rightarrow> string option \<Rightarrow> int \<times> nat list" where
  "uv_inet_pton af src = (case src of None \<Rightarrow> (EINVAL, []) | Some s \<Rightarrow>
     if af = AF_INET then inet_pton4 s
     else if af = AF_INET6
     then (if CHR ''%'' \<in> set s
           then let a = takeWhile (\<lambda>c. c \<noteq> CHR ''%'') s in
                if INET6_ADDRSTRLEN - 1 < length a then (EINVAL, []) else inet_pton6 a
           else inet_pton6 s)
     else (EAFNOSUPPORT, []))"

section \<open>Socket addresses\<close>

record sockaddr =
  sa_family :: int
  sa_port :: nat
  sa_addr :: "nat list"
  sa_scope :: nat

text \<open>\<open>htons\<close> of an \<open>int\<close>: its low 16 bits, whose high byte comes first in the packet; the port is kept as that number.\<close>

definition htons :: "int \<Rightarrow> nat" where
  "htons port = nat (port mod 65536)"

text \<open>A failing call leaves the zeros.\<close>

definition fill_addr :: "nat \<Rightarrow> int \<times> nat list \<Rightarrow> sockaddr \<Rightarrow> int \<times> sockaddr" where
  "fill_addr n r a = (if fst r = 0 then (0, a\<lparr>sa_addr := snd r\<rparr>) else (fst r, a\<lparr>sa_addr := replicate n 0\<rparr>))"

definition uv_ip4_addr :: "string option \<Rightarrow> int \<Rightarrow> int \<times> sockaddr" where
  "uv_ip4_addr ip port = fill_addr 4 (uv_inet_pton AF_INET ip) \<lparr>sa_family = AF_INET, sa_port = htons port, sa_addr = [], sa_scope = 0\<rparr>"

text \<open>The part before the zone is cut to 39 characters; \<open>index\<close> is the system's table of interfaces, 0 for an unknown name.\<close>

definition uv_ip6_addr :: "(string \<Rightarrow> nat) \<Rightarrow> string \<Rightarrow> int \<Rightarrow> int \<times> sockaddr" where
  "uv_ip6_addr index ip port =
     (if CHR ''%'' \<in> set ip
      then let a = takeWhile (\<lambda>c. c \<noteq> CHR ''%'') ip; zone = tl (dropWhile (\<lambda>c. c \<noteq> CHR ''%'') ip) in
           fill_addr 16 (uv_inet_pton AF_INET6 (Some (if 40 \<le> length a then take 39 a else a)))
             \<lparr>sa_family = AF_INET6, sa_port = htons port, sa_addr = [], sa_scope = index zone\<rparr>
      else fill_addr 16 (uv_inet_pton AF_INET6 (Some ip))
             \<lparr>sa_family = AF_INET6, sa_port = htons port, sa_addr = [], sa_scope = 0\<rparr>)"

definition uv_ip4_name :: "sockaddr \<Rightarrow> nat \<Rightarrow> (int \<times> string option) outcome" where
  "uv_ip4_name a sz = uv_inet_ntop AF_INET (sa_addr a) sz"

definition uv_ip6_name :: "sockaddr \<Rightarrow> nat \<Rightarrow> (int \<times> string option) outcome" where
  "uv_ip6_name a sz = uv_inet_ntop AF_INET6 (sa_addr a) sz"

definition uv_ip_name :: "sockaddr \<Rightarrow> nat \<Rightarrow> (int \<times> string option) outcome" where
  "uv_ip_name a sz =
     (if sa_family a = AF_INET then uv_inet_ntop AF_INET (sa_addr a) sz
      else if sa_family a = AF_INET6 then uv_inet_ntop AF_INET6 (sa_addr a) sz
      else Ret (EAFNOSUPPORT, None))"

section \<open>IPv4 addresses\<close>

lemma strscpy_loop_fits:
  "i + length s < n \<Longrightarrow> strscpy_loop n i d s = (int (i + length s), Some (d @ s))"
proof (induction s arbitrary: i d)
  case Nil
  then show ?case by (simp add: strscpy_loop.simps [of n i])
next
  case (Cons c s)
  then show ?case by (simp add: strscpy_loop.simps [of n i])
qed

lemma strscpy_fits: "length s < n \<Longrightarrow> uv__strscpy s n = (int (length s), Some s)"
  by (simp add: uv__strscpy_def strscpy_loop_fits)

lemma strscpy_loop_cut:
  "n \<le> i + length s \<Longrightarrow> i \<le> n \<Longrightarrow> 0 < n \<Longrightarrow> length d = i \<Longrightarrow> strscpy_loop n i d s = (E2BIG, Some (take (n - 1) (d @ s)))"
proof (induction s arbitrary: i d)
  case Nil
  then have "i = n" by simp
  then show ?case using Nil.prems by (subst strscpy_loop.simps) (simp add: butlast_conv_take)
next
  case (Cons c s)
  show ?case
  proof (cases "i = n")
    case True
    then show ?thesis using Cons.prems by (subst strscpy_loop.simps) (simp add: butlast_conv_take)
  next
    case False
    then show ?thesis using Cons.IH [of "Suc i" "d @ [c]"] Cons.prems by (simp add: strscpy_loop.simps [of n i])
  qed
qed

lemma print_nat_byte:
  "n < 10 \<Longrightarrow> print_nat n = [digit_char n]"
  "10 \<le> n \<Longrightarrow> n < 100 \<Longrightarrow> print_nat n = [digit_char (n div 10), digit_char (n mod 10)]"
  "100 \<le> n \<Longrightarrow> n < 1000 \<Longrightarrow> print_nat n = [digit_char (n div 100), digit_char (n div 10 mod 10), digit_char (n mod 10)]"
proof -
  show "n < 10 \<Longrightarrow> print_nat n = [digit_char n]" by (simp add: print_nat.simps [of n])
  show "10 \<le> n \<Longrightarrow> n < 100 \<Longrightarrow> print_nat n = [digit_char (n div 10), digit_char (n mod 10)]"
    by (simp add: print_nat.simps [of n] print_nat.simps [of "n div 10"])
  assume "100 \<le> n" "n < 1000"
  then have "\<not> n < 10" "\<not> n div 10 < 10" "n div 100 < 10" by linarith+
  then show "print_nat n = [digit_char (n div 100), digit_char (n div 10 mod 10), digit_char (n mod 10)]"
    by (simp add: print_nat.simps [of n] print_nat.simps [of "n div 10"] print_nat.simps [of "n div 100"] div_mult2_eq [symmetric])
qed

lemma length_print_byte: "n < 256 \<Longrightarrow> length (print_nat n) \<le> 3 \<and> 1 \<le> length (print_nat n)"
  using print_nat_byte [of n] by (cases "n < 10"; cases "n < 100") auto

lemma print_nat_snoc: "0 < n \<Longrightarrow> d < 10 \<Longrightarrow> print_nat (n * 10 + d) = print_nat n @ [digit_char d]"
  by (simp add: print_nat.simps [of "n * 10 + d"])

lemma digit_char_val [simp]: "is_digit c \<Longrightarrow> digit_char (digit_val c) = c"
  by (auto simp: is_digit_def digit_char_def digit_val_def)

lemma digit_val_less: "is_digit c \<Longrightarrow> digit_val c < 10"
  by (auto simp: is_digit_def digit_val_def)

text \<open>What the loop has read.\<close>

definition read4 :: "bool \<Rightarrow> nat list \<Rightarrow> nat \<Rightarrow> string" where
  "read4 saw bs cur = concat (map (\<lambda>b. print_nat b @ ''.'') bs) @ (if saw then print_nat cur else [])"

lemma pton4_sound:
  assumes "pton4_loop s saw octets bs cur = (0, out)" and "octets = length bs + (if saw then 1 else 0)"
    and "octets \<le> 4" "length bs \<le> 3" "\<forall>b \<in> set (cur # bs). b < 256" "saw \<or> cur = 0"
  shows "\<exists>b. out = butlast out @ [b] \<and> length out = 4 \<and> (\<forall>b \<in> set out. b < 256) \<and> read4 saw bs cur @ s = read4 True (butlast out) (last out)"
  using assms
proof (induction s saw octets bs cur rule: pton4_loop.induct)
  case (1 saw octets bs cur)
  then have "saw" "length bs = 3" "out = bs @ [cur]" by (auto simp: EINVAL_def split: if_splits)
  then show ?case using "1.prems" by simp
next
  case (2 ch src saw octets bs cur)
  show ?case
  proof (cases "is_digit ch")
    case True
    let ?nw = "cur * 10 + digit_val ch"
    have ok: "\<not> (saw \<and> cur = 0)" "\<not> 255 < ?nw" using "2.prems"(1) True by (auto simp: EINVAL_def Let_def split: if_splits)
    have rd: "read4 True bs ?nw = read4 saw bs cur @ [ch]"
    proof (cases saw)
      case sw: True
      then show ?thesis using ok(1) True print_nat_snoc [of cur "digit_val ch"] digit_val_less [OF True] by (simp add: read4_def)
    next
      case False
      then show ?thesis using "2.prems"(6) True print_nat_byte(1) [OF digit_val_less [OF True]] by (simp add: read4_def)
    qed
    show ?thesis
    proof (cases saw)
      case sw: True
      have "pton4_loop src saw octets bs ?nw = (0, out)" using "2.prems"(1) True ok sw by (simp add: Let_def)
      from "2.IH"(2) [OF True refl ok(1,2) _ this] sw "2.prems" ok rd show ?thesis by auto
    next
      case False
      have o: "\<not> 4 < octets + 1" and lp: "pton4_loop src True (octets + 1) bs ?nw = (0, out)"
        using "2.prems"(1) True ok False by (auto simp: Let_def EINVAL_def split: if_splits)
      from "2.IH"(1) [OF True refl ok(1,2) False o lp] False "2.prems" ok rd o show ?thesis by auto
    qed
  next
    case False
    then have dot: "ch = CHR ''.''" "saw" "octets \<noteq> 4" and lp: "pton4_loop src False octets (bs @ [cur]) 0 = (0, out)"
      using "2.prems"(1) by (auto simp: EINVAL_def split: if_splits)
    have "read4 False (bs @ [cur]) 0 = read4 saw bs cur @ [ch]" using dot by (simp add: read4_def)
    with "2.IH"(3) [OF False _ dot(3) lp] dot "2.prems" show ?thesis by auto
  qed
qed

lemma pton4_byte:
  assumes "b < 256" and "n < 4"
  shows "pton4_loop (print_nat b @ rest) False n bs 0 = pton4_loop rest True (n + 1) bs b"
proof -
  consider "b < 10" | "10 \<le> b" "b < 100" | "100 \<le> b" using assms(1) by linarith
  then show ?thesis
  proof cases
    case 1
    then show ?thesis using assms by (simp add: print_nat_byte Let_def)
  next
    case 2
    have "b div 10 < 10" "b mod 10 < 10" "b div 10 \<noteq> 0" using 2 by linarith+
    then show ?thesis using assms 2 by (simp add: print_nat_byte Let_def)
  next
    case 3
    have "b div 100 < 10" "b div 10 mod 10 < 10" "b mod 10 < 10" "b div 100 \<noteq> 0" using 3 assms(1) by linarith+
    moreover have "b div 100 * 10 + b div 10 mod 10 = b div 10" by (simp add: div_mult2_eq [of b 10 10, simplified])
    moreover have "b div 10 * 10 + b mod 10 = b" by simp
    moreover have "b div 10 \<le> 255" "b div 10 \<noteq> 0" using 3 assms(1) by linarith+
    ultimately show ?thesis using assms 3 by (simp add: print_nat_byte Let_def)
  qed
qed

lemma dot_not_digit [simp]: "\<not> is_digit (CHR ''.'')"
  by (simp add: is_digit_def)

lemma pton4_dot [simp]: "n \<noteq> 4 \<Longrightarrow> pton4_loop (CHR ''.'' # rest) True n bs b = pton4_loop rest False n (bs @ [b]) 0"
  by simp

lemma four_elements: "length bs = 4 \<Longrightarrow> \<exists>a b c d. bs = [a, b, c, d]"
  by (auto simp: numeral_eq_Suc length_Suc_conv)

lemma pton4_dotted:
  assumes "length bs = 4" and "\<forall>b \<in> set bs. b < 256"
  shows "inet_pton4 (dotted bs) = (0, bs)"
proof -
  obtain a b c d where bs: "bs = [a, b, c, d]" using four_elements [OF assms(1)] by blast
  have "pton4_loop (print_nat d) False 3 [a, b, c] 0 = (0, bs)"
    using pton4_byte [of d 3 "[]" "[a, b, c]"] assms(2) bs by simp
  then show ?thesis using assms(2) bs by (simp add: inet_pton4_def dotted_def pton4_byte numeral_3_eq_3)
qed

text \<open>C40: The parser of IPv4 addresses accepts exactly the canonical texts: four numbers from 0 to 255 in decimal without
  leading zeros, joined by dots, for which it gives the four bytes. So printing and reading are inverse to each other.\<close>

theorem pton4_reads_dotted:
  "inet_pton4 s = (0, bs) \<longleftrightarrow> length bs = 4 \<and> (\<forall>b \<in> set bs. b < 256) \<and> s = dotted bs"
proof
  assume "inet_pton4 s = (0, bs)"
  then have lp: "pton4_loop s False 0 [] 0 = (0, bs)" by (simp add: inet_pton4_def)
  have "length bs = 4 \<and> (\<forall>b \<in> set bs. b < 256) \<and> read4 False [] 0 @ s = read4 True (butlast bs) (last bs)"
    using pton4_sound [OF lp] by auto
  moreover from this obtain a b c d where "bs = [a, b, c, d]" using four_elements by blast
  ultimately show "length bs = 4 \<and> (\<forall>b \<in> set bs. b < 256) \<and> s = dotted bs" by (simp add: read4_def dotted_def)
qed (use pton4_dotted in auto)

theorem pton4_reads_dotted_witness:
  "inet_pton4 ''127.0.0.1'' = (0, [127, 0, 0, 1]) \<and> fst (inet_pton4 ''127.0.0.01'') \<noteq> 0"
proof -
  have d: "dotted [127, 0, 0, 1] = ''127.0.0.1''" by code_simp
  have "fst (inet_pton4 ''127.0.0.01'') \<noteq> 0" by code_simp
  then show ?thesis using pton4_reads_dotted [of "''127.0.0.1''" "[127, 0, 0, 1]"] d by simp
qed

text \<open>The text of four bytes fits its buffer of 16.\<close>

lemma dotted_length:
  assumes "length bs = 4" and "\<forall>b \<in> set bs. b < 256"
  shows "7 \<le> length (dotted bs)" "length (dotted bs) \<le> 15"
proof -
  obtain a b c d where bs: "bs = [a, b, c, d]" using four_elements [OF assms(1)] by blast
  note l = length_print_byte [of a] length_print_byte [of b] length_print_byte [of c] length_print_byte [of d]
  show "7 \<le> length (dotted bs)" "length (dotted bs) \<le> 15" using l assms(2) bs by (auto simp: dotted_def)
qed

lemma ntop4_ok:
  assumes "length bs = 4" and "\<forall>b \<in> set bs. b < 256" and "length (dotted bs) < sz"
  shows "inet_ntop4 bs sz = (0, Some (dotted bs))"
  using dotted_length [OF assms(1,2)] assms(3) by (auto simp: inet_ntop4_def Let_def strscpy_fits)

text \<open>A text that is no address, and NULL, leave the address of all interfaces.\<close>

lemma unread_address_is_any:
  assumes "fst (uv_ip4_addr ip port) \<noteq> 0"
  shows "snd (uv_ip4_addr ip port) = snd (uv_ip4_addr (Some ''0.0.0.0'') port)"
proof -
  have any: "uv_inet_pton AF_INET (Some ''0.0.0.0'') = (0, [0, 0, 0, 0])" by code_simp
  show ?thesis using assms unfolding uv_ip4_addr_def any fill_addr_def
    by (simp add: numeral_eq_Suc split: if_splits)
qed

section \<open>IPv6 addresses\<close>

lemma hex_char_val: "d < 16 \<Longrightarrow> hex_val (hex_char d) = Some d"
  by (auto simp: hex_val_def hex_char_def lower_def of_char_of Let_def)

lemma hex_val_special: "hex_val (CHR '':'') = None" "hex_val (CHR ''.'') = None"
  by code_simp+

lemma print_hex_cases:
  "n < 16 \<Longrightarrow> print_hex n = [hex_char n]"
  "16 \<le> n \<Longrightarrow> n < 256 \<Longrightarrow> print_hex n = [hex_char (n div 16), hex_char (n mod 16)]"
  "256 \<le> n \<Longrightarrow> n < 4096 \<Longrightarrow> print_hex n = [hex_char (n div 256), hex_char (n div 16 mod 16), hex_char (n mod 16)]"
  "4096 \<le> n \<Longrightarrow> n < 65536 \<Longrightarrow>
     print_hex n = [hex_char (n div 4096), hex_char (n div 256 mod 16), hex_char (n div 16 mod 16), hex_char (n mod 16)]"
proof -
  show 1: "n < 16 \<Longrightarrow> print_hex n = [hex_char n]" for n by (simp add: print_hex.simps [of n])
  have step: "16 \<le> n \<Longrightarrow> print_hex n = print_hex (n div 16) @ [hex_char (n mod 16)]" for n by (simp add: print_hex.simps [of n])
  have dd: "n div 16 div 16 = n div 256" "n div 256 div 16 = n div 4096" for n :: nat
    using div_mult2_eq [of n 16 16] div_mult2_eq [of n 256 16] by simp_all
  show 2: "16 \<le> n \<Longrightarrow> n < 256 \<Longrightarrow> print_hex n = [hex_char (n div 16), hex_char (n mod 16)]" for n
    using step [of n] 1 [of "n div 16"] by simp
  show 3: "256 \<le> n \<Longrightarrow> n < 4096 \<Longrightarrow> print_hex n = [hex_char (n div 256), hex_char (n div 16 mod 16), hex_char (n mod 16)]" for n
  proof -
    assume n: "256 \<le> n" "n < 4096"
    then have "16 \<le> n div 16" "n div 16 < 256" by linarith+
    then show ?thesis using step [of n] 2 [of "n div 16"] n by (simp add: dd)
  qed
  assume n: "4096 \<le> n" "n < 65536"
  then have "256 \<le> n div 16" "n div 16 < 4096" by linarith+
  moreover have "n div 16 div 256 = n div 4096" using div_mult2_eq [of n 16 256] by simp
  ultimately show "print_hex n = [hex_char (n div 4096), hex_char (n div 256 mod 16), hex_char (n div 16 mod 16), hex_char (n mod 16)]"
    using step [of n] 3 [of "n div 16"] n by (simp add: dd)
qed

end
