(* ===== verification/Http_Module.thy ===== *)
theory Http_Module
  imports Interfaces C_Strings Uv_Inet
begin

text \<open>
  The HTTP server module (src/http/http_module.c): the route table, the request parser, responses,
  and the callbacks of a connection. A client's read buffer is a block of memory with its whole
  contents, because the parser does not look at the number of bytes received: what the allocator or
  an earlier request left behind them is part of what it reads. A route handler is a function on
  the program outside this module (\<open>'w\<close>). The answers are those of \<open>malloc\<close>, \<open>realloc\<close>, \<open>strdup\<close> and
  \<open>uv_mutex_init\<close>; results of other libuv calls are arguments. Memory that is only lost is not tracked.
\<close>

section \<open>Data\<close>

datatype http_method =
    HTTP_METHOD_GET | HTTP_METHOD_POST | HTTP_METHOD_PUT | HTTP_METHOD_DELETE | HTTP_METHOD_PATCH
  | HTTP_METHOD_HEAD | HTTP_METHOD_OPTIONS | HTTP_METHOD_UNKNOWN

type_synonym http_status = int
type_synonym http_header = "string option \<times> string option"

record http_request =
  rq_method :: http_method
  rq_path :: "string option"
  rq_query_string :: "string option"
  rq_body :: "string option"
  rq_body_length :: "64 word"
  rq_content_type :: "string option"
  rq_user_agent :: "string option"
  rq_authorization :: "string option"
  rq_headers :: "http_header list"

record http_response =
  rs_status :: http_status
  rs_content_type :: "string option"
  rs_body :: "string option"
  rs_body_length :: nat
  rs_headers :: "http_header list"

record http_config =
  port :: int
  host :: string
  max_connections :: int
  request_timeout_ms :: int
  enable_cors :: bool
  cors_origin :: string
  enable_logging :: bool
  enable_json_parsing :: bool

text \<open>A handler gets the request, the response and the user data, and gives its return code.\<close>

type_synonym 'w http_route_handler =
  "http_request \<Rightarrow> http_response \<Rightarrow> nat \<Rightarrow> 'w \<Rightarrow> answers \<Rightarrow> (int \<times> http_response \<times> 'w \<times> answers) outcome"

type_synonym 'w json_parser_callback = "string \<Rightarrow> 64 word \<Rightarrow> nat \<Rightarrow> 'w \<Rightarrow> int \<times> 'w"

record 'w http_route =
  route_method :: http_method
  route_path :: "string option"
  route_handler :: "'w http_route_handler"
  route_user_data :: nat

record 'w http_private_data =
  http_conf :: http_config
  routes :: "'w http_route list"
  route_count :: int
  routes_mutex :: uv_mutex
  json_parser_fn :: "'w json_parser_callback option"
  json_parser_user_data :: nat

record http_client =
  client_id :: nat
  read_buffer :: "string option"
  read_buffer_size :: nat
  read_buffer_used :: nat

text \<open>
  The module's globals; \<open>http_data\<close> is \<open>global_http_data\<close> and the module's \<open>private_data\<close>, which are set and
  cleared together. Clients are numbered as they connect; \<open>closing\<close> are those for which \<open>uv_close\<close> has
  been called, \<open>sent\<close> is what was given to \<open>uv_write\<close>, and \<open>world\<close> is the rest of the program.
\<close>

record 'w http_state =
  http_data :: "'w http_private_data option"
  client_pool :: "http_client list"
  active_clients :: int
  client_pool_mutex :: uv_mutex
  next_client :: nat
  closing :: "nat list"
  sent :: "(nat \<times> string) list"
  listening :: bool
  world :: 'w
  http_answers :: answers

definition http_default_config :: http_config where
  "http_default_config = \<lparr>port = 8080, host = ''0.0.0.0'', max_connections = 1000, request_timeout_ms = 30000,
     enable_cors = True, cors_origin = ''*'', enable_logging = True, enable_json_parsing = True\<rparr>"

definition http_answer :: "'w http_state \<Rightarrow> bool \<times> 'w http_state" where
  "http_answer s = (case next_answer (http_answers s) of (ok, as) \<Rightarrow> (ok, s\<lparr>http_answers := as\<rparr>))"

text \<open>A critical section without calls that wait: what matters of the mutex is that it can be locked.\<close>

definition critical :: "uv_mutex \<Rightarrow> 'a \<Rightarrow> 'a outcome" where
  "critical m x = obind (uv_mutex_lock m) (\<lambda>m1. obind (uv_mutex_unlock m1) (\<lambda>m2. Ret x))"

section \<open>Strings of the enumerations\<close>

fun http_method_to_string :: "http_method \<Rightarrow> string" where
  "http_method_to_string HTTP_METHOD_GET = ''GET''"
| "http_method_to_string HTTP_METHOD_POST = ''POST''"
| "http_method_to_string HTTP_METHOD_PUT = ''PUT''"
| "http_method_to_string HTTP_METHOD_DELETE = ''DELETE''"
| "http_method_to_string HTTP_METHOD_PATCH = ''PATCH''"
| "http_method_to_string HTTP_METHOD_HEAD = ''HEAD''"
| "http_method_to_string HTTP_METHOD_OPTIONS = ''OPTIONS''"
| "http_method_to_string HTTP_METHOD_UNKNOWN = ''UNKNOWN''"

definition http_string_to_method :: "string option \<Rightarrow> http_method" where
  "http_string_to_method method_str = (case method_str of
     None \<Rightarrow> HTTP_METHOD_UNKNOWN
   | Some s \<Rightarrow>
       if s = ''GET'' then HTTP_METHOD_GET
       else if s = ''POST'' then HTTP_METHOD_POST
       else if s = ''PUT'' then HTTP_METHOD_PUT
       else if s = ''DELETE'' then HTTP_METHOD_DELETE
       else if s = ''PATCH'' then HTTP_METHOD_PATCH
       else if s = ''HEAD'' then HTTP_METHOD_HEAD
       else if s = ''OPTIONS'' then HTTP_METHOD_OPTIONS
       else HTTP_METHOD_UNKNOWN)"

definition HTTP_STATUS_OK :: http_status where "HTTP_STATUS_OK = 200"
definition HTTP_STATUS_CREATED :: http_status where "HTTP_STATUS_CREATED = 201"
definition HTTP_STATUS_BAD_REQUEST :: http_status where "HTTP_STATUS_BAD_REQUEST = 400"
definition HTTP_STATUS_NOT_FOUND :: http_status where "HTTP_STATUS_NOT_FOUND = 404"
definition HTTP_STATUS_INTERNAL_SERVER_ERROR :: http_status where "HTTP_STATUS_INTERNAL_SERVER_ERROR = 500"

lemmas http_status_defs = HTTP_STATUS_OK_def HTTP_STATUS_CREATED_def HTTP_STATUS_BAD_REQUEST_def
  HTTP_STATUS_NOT_FOUND_def HTTP_STATUS_INTERNAL_SERVER_ERROR_def

definition http_status_to_string :: "http_status \<Rightarrow> string" where
  "http_status_to_string status =
     (if status = 200 then ''OK''
      else if status = 201 then ''Created''
      else if status = 204 then ''No Content''
      else if status = 400 then ''Bad Request''
      else if status = 401 then ''Unauthorized''
      else if status = 403 then ''Forbidden''
      else if status = 404 then ''Not Found''
      else if status = 405 then ''Method Not Allowed''
      else if status = 500 then ''Internal Server Error''
      else if status = 501 then ''Not Implemented''
      else if status = 503 then ''Service Unavailable''
      else ''Unknown'')"

section \<open>Responses\<close>

definition add_header_to_response ::
  "http_response option \<Rightarrow> string option \<Rightarrow> string option \<Rightarrow> answers \<Rightarrow> int \<times> http_response option \<times> answers" where
  "add_header_to_response response name value as = (case (response, name, value) of
     (Some rs, Some n, Some v) \<Rightarrow> (case next_answer as of (ok, as1) \<Rightarrow>
         if \<not> ok then (-1, response, as1)
         else case strdup n as1 of (n', as2) \<Rightarrow> (case strdup v as2 of (v', as3) \<Rightarrow>
           (0, Some (rs\<lparr>rs_headers := rs_headers rs @ [(n', v')]\<rparr>), as3)))
   | _ \<Rightarrow> (-1, response, as))"

definition http_add_header ::
  "http_response option \<Rightarrow> string option \<Rightarrow> string option \<Rightarrow> answers \<Rightarrow> int \<times> http_response option \<times> answers" where
  "http_add_header response name value as = add_header_to_response response name value as"

text \<open>The loop of \<open>http_get_header\<close>; a header whose name is NULL cannot be compared, and one whose value is
  NULL cannot be copied.\<close>

fun get_header_loop :: "string \<Rightarrow> http_header list \<Rightarrow> answers \<Rightarrow> (int \<times> string option \<times> answers) outcome" where
  "get_header_loop name [] as = Ret (-1, None, as)"
| "get_header_loop name ((n, v) # hs) as = (case n of
     None \<Rightarrow> Fault Null_deref
   | Some n' \<Rightarrow>
       if strcasecmp_eq n' name
       then (case v of None \<Rightarrow> Fault Null_deref
             | Some v' \<Rightarrow> (case strdup v' as of (c, as1) \<Rightarrow> Ret (0, c, as1)))
       else get_header_loop name hs as)"

text \<open>The second result is what is stored through the pointer, when the first is 0.\<close>

definition http_get_header ::
  "http_request option \<Rightarrow> string option \<Rightarrow> answers \<Rightarrow> (int \<times> string option \<times> answers) outcome" where
  "http_get_header request name as = (case (request, name) of
     (Some rq, Some n) \<Rightarrow> get_header_loop n (rq_headers rq) as
   | _ \<Rightarrow> Ret (-1, None, as))"

definition http_create_json_response ::
  "http_response \<Rightarrow> http_status \<Rightarrow> string option \<Rightarrow> answers \<Rightarrow> int \<times> http_response \<times> answers" where
  "http_create_json_response response status json_data as = (case json_data of
     None \<Rightarrow> (-1, response, as)
   | Some t \<Rightarrow> (case strdup ''application/json'' as of (ct, as1) \<Rightarrow> (case strdup t as1 of (b, as2) \<Rightarrow>
       (0, response\<lparr>rs_status := status, rs_content_type := ct, rs_body := b, rs_body_length := length t\<rparr>, as2))))"

definition http_send_ok_response :: "http_response \<Rightarrow> string option \<Rightarrow> answers \<Rightarrow> int \<times> http_response \<times> answers" where
  "http_send_ok_response response json_data as = http_create_json_response response HTTP_STATUS_OK json_data as"

definition error_json :: "http_status \<Rightarrow> string \<Rightarrow> string" where
  "error_json status message = snprintf_text 512
     ([CHR ''{'', CHR 0x22] @ ''error'' @ [CHR 0x22] @ '': true, '' @ [CHR 0x22] @ ''status'' @ [CHR 0x22] @ '': ''
      @ print_int status @ '', '' @ [CHR 0x22] @ ''message'' @ [CHR 0x22] @ '': '' @ [CHR 0x22] @ message
      @ [CHR 0x22, CHR ''}''])"

definition http_send_error_response ::
  "http_response \<Rightarrow> http_status \<Rightarrow> string option \<Rightarrow> answers \<Rightarrow> int \<times> http_response \<times> answers" where
  "http_send_error_response response status message as = (case message of
     None \<Rightarrow> (-1, response, as)
   | Some m \<Rightarrow> http_create_json_response response status (Some (error_json status m)) as)"

definition http_send_not_found_response :: "http_response \<Rightarrow> answers \<Rightarrow> int \<times> http_response \<times> answers" where
  "http_send_not_found_response response as =
     http_send_error_response response HTTP_STATUS_NOT_FOUND (Some ''Not Found'') as"

definition http_send_bad_request_response ::
  "http_response \<Rightarrow> string option \<Rightarrow> answers \<Rightarrow> int \<times> http_response \<times> answers" where
  "http_send_bad_request_response response message as =
     http_send_error_response response HTTP_STATUS_BAD_REQUEST message as"

section \<open>Routes\<close>

definition http_add_route ::
  "http_method \<Rightarrow> string option \<Rightarrow> 'w http_route_handler option \<Rightarrow> nat \<Rightarrow> 'w http_state
   \<Rightarrow> (int \<times> 'w http_state) outcome" where
  "http_add_route method path handler user_data s = (case (http_data s, path, handler) of
     (Some d, Some p, Some h) \<Rightarrow> (case http_answer s of (ok, s1) \<Rightarrow>
         if \<not> ok then Ret (-1, s1)
         else case strdup p (http_answers s1) of (p', as) \<Rightarrow>
           critical (routes_mutex d) (0, s1\<lparr>http_answers := as,
             http_data := Some (d\<lparr>routes := \<lparr>route_method = method, route_path = p', route_handler = h,
                 route_user_data = user_data\<rparr> # routes d, route_count := route_count d + 1\<rparr>)\<rparr>))
   | _ \<Rightarrow> Ret (-1, s))"

text \<open>The walk along the list; \<open>strcmp\<close> of a NULL path faults, and it is called only when the methods
  agree.\<close>

fun find_route :: "http_method \<Rightarrow> string option \<Rightarrow> 'w http_route list \<Rightarrow> nat option outcome" where
  "find_route m p [] = Ret None"
| "find_route m p (r # rs) =
     (if route_method r = m
      then (case (route_path r, p) of
          (Some a, Some b) \<Rightarrow> if a = b then Ret (Some 0) else obind (find_route m p rs) (\<lambda>i. Ret (map_option Suc i))
        | _ \<Rightarrow> Fault Null_deref)
      else obind (find_route m p rs) (\<lambda>i. Ret (map_option Suc i)))"

definition find_matching_route :: "http_request \<Rightarrow> 'w http_state \<Rightarrow> 'w http_route option outcome" where
  "find_matching_route request s = (case http_data s of
     None \<Rightarrow> Ret None
   | Some d \<Rightarrow> obind (critical (routes_mutex d) ()) (\<lambda>u.
       obind (find_route (rq_method request) (rq_path request) (routes d)) (\<lambda>i.
         Ret (map_option (\<lambda>n. routes d ! n) i))))"

definition http_remove_route :: "http_method \<Rightarrow> string option \<Rightarrow> 'w http_state \<Rightarrow> (int \<times> 'w http_state) outcome" where
  "http_remove_route method path s = (case (http_data s, path) of
     (Some d, Some p) \<Rightarrow> obind (critical (routes_mutex d) ()) (\<lambda>u.
       obind (find_route method path (routes d)) (\<lambda>r. case r of
         None \<Rightarrow> Ret (-1, s)
       | Some i \<Rightarrow> Ret (0, s\<lparr>http_data :=
           Some (d\<lparr>routes := take i (routes d) @ drop (Suc i) (routes d), route_count := route_count d - 1\<rparr>)\<rparr>)))
   | _ \<Rightarrow> Ret (-1, s))"

definition http_clear_routes :: "'w http_state \<Rightarrow> 'w http_state outcome" where
  "http_clear_routes s = (case http_data s of
     None \<Rightarrow> Ret s
   | Some d \<Rightarrow> critical (routes_mutex d) (s\<lparr>http_data := Some (d\<lparr>routes := [], route_count := 0\<rparr>)\<rparr>))"

section \<open>The JSON hook\<close>

definition http_set_json_parser :: "'w json_parser_callback option \<Rightarrow> nat \<Rightarrow> 'w http_state \<Rightarrow> int \<times> 'w http_state" where
  "http_set_json_parser parser user_data s = (case http_data s of
     None \<Rightarrow> (-1, s)
   | Some d \<Rightarrow> (0, s\<lparr>http_data := Some (d\<lparr>json_parser_fn := parser, json_parser_user_data := user_data\<rparr>)\<rparr>))"

text \<open>Nothing is stored through the result pointer, whose presence is the second argument.\<close>

definition http_parse_json_request :: "http_request option \<Rightarrow> bool \<Rightarrow> 'w http_state \<Rightarrow> int \<times> 'w http_state" where
  "http_parse_json_request request parsed_data s = (case (http_data s, request) of
     (Some d, Some rq) \<Rightarrow> (case json_parser_fn d of
         None \<Rightarrow> (-1, s)
       | Some parse \<Rightarrow>
           if \<not> parsed_data then (-1, s)
           else (case rq_body rq of
               None \<Rightarrow> (-1, s)
             | Some b \<Rightarrow>
                 if rq_body_length rq > 0
                 then (case parse b (rq_body_length rq) (json_parser_user_data d) (world s) of
                     (r, w) \<Rightarrow> (r, s\<lparr>world := w\<rparr>))
                 else (-1, s)))
   | _ \<Rightarrow> (-1, s))"

section \<open>URLs\<close>

text \<open>The decoding loop over the characters in front of the terminator.\<close>

fun decode_loop :: "string \<Rightarrow> string" where
  "decode_loop [] = []"
| "decode_loop (c # cs) =
     (if c = CHR ''%'' \<and> 2 \<le> length cs
      then (case scan_hex (take 2 cs) of
          Some v \<Rightarrow> to_char v # decode_loop (drop 2 cs)
        | None \<Rightarrow> c # decode_loop cs)
      else if c = CHR ''+'' then CHR '' '' # decode_loop cs
      else c # decode_loop cs)"

text \<open>A decoded NUL ends the result early.\<close>

definition url_decode :: "string option \<Rightarrow> answers \<Rightarrow> string option \<times> answers" where
  "url_decode str as = (case str of
     None \<Rightarrow> (None, as)
   | Some s \<Rightarrow> (case next_answer as of (ok, as1) \<Rightarrow> (if ok then Some (c_str (decode_loop s)) else None, as1)))"

text \<open>The return code, the path and the query string. Without memory the path or the query is NULL
  and the code is 0 all the same.\<close>

definition parse_url :: "string \<Rightarrow> answers \<Rightarrow> int \<times> string option \<times> string option \<times> answers" where
  "parse_url url as =
     (case (if CHR ''?'' \<in> set url
            then (case strndup (length (takeWhile (\<lambda>c. c \<noteq> CHR ''?'') url)) url as of (p, as1) \<Rightarrow>
              case strdup (drop 1 (dropWhile (\<lambda>c. c \<noteq> CHR ''?'') url)) as1 of (q, as2) \<Rightarrow> (p, q, as2))
            else (case strdup url as of (p, as1) \<Rightarrow> (p, None, as1))) of
       (p, q, as3) \<Rightarrow> (case url_decode p as3 of (p', as4) \<Rightarrow>
         (case url_decode q as4 of (q', as5) \<Rightarrow> (0, p', q', as5))))"

section \<open>Requests\<close>

definition no_request :: http_request where
  "no_request = \<lparr>rq_method = HTTP_METHOD_GET, rq_path = None, rq_query_string = None, rq_body = None,
     rq_body_length = 0, rq_content_type = None, rq_user_agent = None, rq_authorization = None, rq_headers = []\<rparr>"

definition CRLF :: string where "CRLF = [CR, NL]"

text \<open>One header line.\<close>

definition header_line :: "string \<Rightarrow> http_request \<Rightarrow> answers \<Rightarrow> http_request \<times> answers" where
  "header_line line rq as =
     (if CHR '':'' \<notin> set line then (rq, as)
      else let name = takeWhile (\<lambda>c. c \<noteq> CHR '':'') line;
               value = dropWhile (\<lambda>c. c = CHR '' '') (drop 1 (dropWhile (\<lambda>c. c \<noteq> CHR '':'') line)) in
        if strcasecmp_eq name ''Content-Type''
        then (case strdup value as of (v, as1) \<Rightarrow> (rq\<lparr>rq_content_type := v\<rparr>, as1))
        else if strcasecmp_eq name ''User-Agent''
        then (case strdup value as of (v, as1) \<Rightarrow> (rq\<lparr>rq_user_agent := v\<rparr>, as1))
        else if strcasecmp_eq name ''Authorization''
        then (case strdup value as of (v, as1) \<Rightarrow> (rq\<lparr>rq_authorization := v\<rparr>, as1))
        else (rq, as))"

function parse_header_lines :: "string \<Rightarrow> http_request \<Rightarrow> answers \<Rightarrow> http_request \<times> answers" where
  "parse_header_lines s rq as = (case strtok CRLF s of
     (None, rest) \<Rightarrow> (rq, as)
   | (Some line, rest) \<Rightarrow> (case header_line line rq as of (rq1, as1) \<Rightarrow> parse_header_lines rest rq1 as1))"
  by pat_completeness auto
termination
  by (relation "measure (\<lambda>(s, rq, as). length s)") (auto dest: strtok_shorter [OF sym])

declare parse_header_lines.simps [simp del]

text \<open>
  The headers and the body: \<open>mem\<close> is the memory from \<open>off\<close> on, the first byte after the request line.
  When the copy of the headers cannot be allocated, \<open>strtok(NULL)\<close> goes on with what is left of the
  request line.
\<close>

definition parse_headers_and_body ::
  "string \<Rightarrow> nat \<Rightarrow> nat \<Rightarrow> string \<Rightarrow> http_request \<Rightarrow> answers \<Rightarrow> (http_request \<times> answers) outcome" where
  "parse_headers_and_body mem off len line_rest rq as =
     obind (strstr (CRLF @ CRLF) mem) (\<lambda>found. case found of
       None \<Rightarrow> Ret (rq, as)
     | Some n \<Rightarrow> (case strndup n mem as of (h, as1) \<Rightarrow>
         case parse_header_lines (case h of Some t \<Rightarrow> t | None \<Rightarrow> line_rest) rq as1 of (rq1, as2) \<Rightarrow>
           obind (read_str (drop (n + 4) mem)) (\<lambda>b. case strdup b as2 of (b', as3) \<Rightarrow>
             Ret (rq1\<lparr>rq_body := b', rq_body_length := of_nat len - of_nat (off + n + 4)\<rparr>, as3))))"

text \<open>
  Without memory for the request line, \<open>strtok(NULL)\<close> is called with no text to go on with (an earlier
  request's text is freed by then).
\<close>

definition parse_http_request :: "string option \<Rightarrow> nat \<Rightarrow> answers \<Rightarrow> (int \<times> http_request \<times> answers) outcome" where
  "parse_http_request data len as = (case data of
     None \<Rightarrow> Ret (-1, no_request, as)
   | Some mem \<Rightarrow>
       if len = 0 then Ret (-1, no_request, as)
       else obind (strstr CRLF mem) (\<lambda>found. case found of
         None \<Rightarrow> Ret (-1, no_request, as)
       | Some n \<Rightarrow> (case strndup n mem as of
           (None, as1) \<Rightarrow> Fault Null_deref
         | (Some line, as1) \<Rightarrow>
             (case strtok '' '' line of (method_str, r1) \<Rightarrow>
              case strtok '' '' r1 of (url, r2) \<Rightarrow>
              case strtok '' '' r2 of (version, r3) \<Rightarrow>
                (case (method_str, url, version) of
                   (Some m, Some u, Some v) \<Rightarrow>
                     (case parse_url u as1 of (r, p, q, as2) \<Rightarrow>
                       let rq = no_request\<lparr>rq_method := http_string_to_method (Some m), rq_path := p, rq_query_string := q\<rparr> in
                       if r \<noteq> 0 then Ret (-1, rq, as2)
                       else obind (parse_headers_and_body (drop (n + 2) mem) (n + 2) len r3 rq as2)
                         (\<lambda>(rq1, as3). Ret (0, rq1, as3)))
                 | _ \<Rightarrow> Ret (-1, no_request, as1))))))"

section \<open>Answering a request\<close>

definition no_response :: http_response where
  "no_response = \<lparr>rs_status = 0, rs_content_type = None, rs_body = None, rs_body_length = 0, rs_headers = []\<rparr>"

text \<open>The headers that let browsers of other origins in.\<close>

definition add_cors_headers :: "http_config \<Rightarrow> http_response \<Rightarrow> answers \<Rightarrow> http_response \<times> answers" where
  "add_cors_headers conf rs as =
     (case http_add_header (Some rs) (Some ''Access-Control-Allow-Origin'') (Some (cors_origin conf)) as of (r1, rs1, as1) \<Rightarrow>
      case http_add_header rs1 (Some ''Access-Control-Allow-Methods'') (Some ''GET, POST, PUT, DELETE, OPTIONS'') as1 of (r2, rs2, as2) \<Rightarrow>
      case http_add_header rs2 (Some ''Access-Control-Allow-Headers'') (Some ''Content-Type, Authorization'') as2 of (r3, rs3, as3) \<Rightarrow>
        (case rs3 of Some rs4 \<Rightarrow> (rs4, as3) | None \<Rightarrow> (rs, as3)))"

text \<open>The handler of the route, with a general error when it does not return 0, or the error for a missing
  route.\<close>

definition run_route :: "http_request \<Rightarrow> 'w http_route option \<Rightarrow> 'w http_state \<Rightarrow> (http_response \<times> 'w http_state) outcome" where
  "run_route request route s = (case route of
     Some rt \<Rightarrow> obind (route_handler rt request no_response (route_user_data rt) (world s) (http_answers s))
       (\<lambda>(r, rs, w, as).
         if r \<noteq> 0
         then (case http_send_error_response rs HTTP_STATUS_INTERNAL_SERVER_ERROR (Some ''Internal Server Error'') as of
             (r2, rs2, as2) \<Rightarrow> Ret (rs2, s\<lparr>world := w, http_answers := as2\<rparr>))
         else Ret (rs, s\<lparr>world := w, http_answers := as\<rparr>))
   | None \<Rightarrow> (case http_send_not_found_response no_response (http_answers s) of
       (r, rs, as) \<Rightarrow> Ret (rs, s\<lparr>http_answers := as\<rparr>)))"

definition add_cors :: "http_response \<Rightarrow> 'w http_state \<Rightarrow> http_response \<times> 'w http_state" where
  "add_cors rs s = (case http_data s of
     None \<Rightarrow> (rs, s)
   | Some d \<Rightarrow>
       if enable_cors (http_conf d)
       then (case add_cors_headers (http_conf d) rs (http_answers s) of (rs1, as1) \<Rightarrow> (rs1, s\<lparr>http_answers := as1\<rparr>))
       else (rs, s))"

definition create_http_response :: "http_request \<Rightarrow> 'w http_state \<Rightarrow> (int \<times> http_response \<times> 'w http_state) outcome" where
  "create_http_response request s =
     obind (find_matching_route request s) (\<lambda>route.
     obind (run_route request route s) (\<lambda>(rs, s1). case add_cors rs s1 of (rs1, s2) \<Rightarrow> Ret (0, rs1, s2)))"

text \<open>The buffer of 1024 bytes for the headers: each line is cut at 255 bytes and appended.\<close>

definition HEADERS_BUFFER :: nat where "HEADERS_BUFFER = 1024"

definition append_header :: "string \<Rightarrow> string \<Rightarrow> string outcome" where
  "append_header buf line = strcat_buf HEADERS_BUFFER buf (snprintf_text 256 line)"

fun append_custom_headers :: "http_header list \<Rightarrow> string \<Rightarrow> string outcome" where
  "append_custom_headers [] buf = Ret buf"
| "append_custom_headers ((n, v) # hs) buf = (case (n, v) of
     (Some n', Some v') \<Rightarrow> obind (append_header buf (n' @ '': '' @ v' @ CRLF)) (append_custom_headers hs)
   | _ \<Rightarrow> Fault Null_deref)"

definition headers_text :: "http_response \<Rightarrow> string outcome" where
  "headers_text rs =
     obind (case rs_content_type rs of None \<Rightarrow> Ret [] | Some ct \<Rightarrow> append_header [] (''Content-Type: '' @ ct @ CRLF)) (\<lambda>b1.
     obind (case rs_body rs of None \<Rightarrow> Ret b1
        | Some b \<Rightarrow> append_header b1 (''Content-Length: '' @ print_nat (rs_body_length rs) @ CRLF)) (\<lambda>b2.
     obind (append_custom_headers (rs_headers rs) b2) (\<lambda>b3. strcat_buf HEADERS_BUFFER b3 CRLF)))"

definition status_line :: "http_response \<Rightarrow> string" where
  "status_line rs = snprintf_text 256 (''HTTP/1.1 '' @ print_int (rs_status rs) @ '' '' @ http_status_to_string (rs_status rs) @ CRLF)"

text \<open>\<open>memcpy\<close> of the body: its block ends with the terminator.\<close>

definition body_bytes :: "http_response \<Rightarrow> string outcome" where
  "body_bytes rs = (case rs_body rs of
     None \<Rightarrow> Ret []
   | Some b \<Rightarrow> if rs_body_length rs \<le> length b + 1 then Ret (take (rs_body_length rs) (b @ [NUL])) else Fault Out_of_bounds)"

definition send_response :: "nat \<Rightarrow> http_response \<Rightarrow> 'w http_state \<Rightarrow> 'w http_state outcome" where
  "send_response client rs s =
     obind (headers_text rs) (\<lambda>hs.
       case http_answer s of (ok, s1) \<Rightarrow>
         if \<not> ok then Ret s1
         else obind (body_bytes rs) (\<lambda>b.
           case http_answer s1 of (ok2, s2) \<Rightarrow>
             if \<not> ok2 then Ret s2
             else Ret (s2\<lparr>sent := sent s2 @ [(client, status_line rs @ hs @ b)]\<rparr>)))"

section \<open>Connections\<close>

text \<open>\<open>accept\<close> is the result of \<open>uv_accept\<close> and \<open>junk\<close> what the allocator left in the buffer. Whether the
  buffer could be allocated is not looked at.\<close>

definition on_new_connection :: "int \<Rightarrow> int \<Rightarrow> string \<Rightarrow> 'w http_state \<Rightarrow> 'w http_state outcome" where
  "on_new_connection status accept junk s =
     (if status < 0 then Ret s
      else case http_answer s of (ok, s1) \<Rightarrow>
        if \<not> ok then Ret s1
        else case http_answer s1 of (ok2, s2) \<Rightarrow>
          if accept = 0
          then critical (client_pool_mutex s2) (s2\<lparr>next_client := next_client s2 + 1,
            client_pool := \<lparr>client_id = next_client s2, read_buffer = (if ok2 then Some (fresh_block 4096 junk) else None),
              read_buffer_size = 4096, read_buffer_used = 0\<rparr> # client_pool s2,
            active_clients := active_clients s2 + 1\<rparr>)
          else Ret s2)"

definition alloc_buffer :: "nat \<Rightarrow> string \<Rightarrow> answers \<Rightarrow> (string option \<times> nat) \<times> answers" where
  "alloc_buffer suggested_size junk as = (case next_answer as of (ok, as1) \<Rightarrow>
     ((if ok then Some (fresh_block suggested_size junk) else None, suggested_size), as1))"

definition client_at :: "nat \<Rightarrow> 'w http_state \<Rightarrow> nat option" where
  "client_at i s = find_idx (\<lambda>c. client_id c = i) (client_pool s)"

definition set_client :: "nat \<Rightarrow> http_client \<Rightarrow> 'w http_state \<Rightarrow> 'w http_state" where
  "set_client n c s = s\<lparr>client_pool := (client_pool s)[n := c]\<rparr>"

definition uv_close_client :: "nat \<Rightarrow> 'w http_state \<Rightarrow> 'w http_state" where
  "uv_close_client i s = s\<lparr>closing := i # closing s\<rparr>"

text \<open>Making room for \<open>n\<close> more bytes: the buffer is doubled, once. None when that fails.\<close>

definition extend_buffer :: "nat \<Rightarrow> string \<Rightarrow> http_client \<Rightarrow> answers \<Rightarrow> http_client option \<times> answers" where
  "extend_buffer n junk c as =
     (if read_buffer_used c + n > read_buffer_size c
      then (case next_answer as of (ok, as1) \<Rightarrow>
        (if ok then Some (c\<lparr>read_buffer := Some (resize_block (read_buffer_size c * 2) junk (read_buffer c)),
                            read_buffer_size := read_buffer_size c * 2\<rparr>) else None, as1))
      else (Some c, as))"

text \<open>Parsing what the buffer holds and answering it; the buffer is emptied when it held a request.\<close>

definition process_buffer :: "nat \<Rightarrow> http_client \<Rightarrow> 'w http_state \<Rightarrow> 'w http_state outcome" where
  "process_buffer n c s =
     obind (parse_http_request (read_buffer c) (read_buffer_used c) (http_answers s)) (\<lambda>(r, rq, as).
       let s1 = s\<lparr>http_answers := as\<rparr> in
       if r = 0
       then obind (create_http_response rq s1) (\<lambda>(r2, rs, s2).
         obind (if r2 = 0 then send_response (client_id c) rs s2 else Ret s2) (\<lambda>s3.
           Ret (set_client n (c\<lparr>read_buffer_used := 0\<rparr>) s3)))
       else Ret (set_client n c s1))"

text \<open>A read of \<open>nread\<close> bytes at \<open>base\<close> on the connection of client \<open>i\<close>; \<open>junk\<close> is what the allocator leaves in
  a buffer that has to grow.\<close>

definition on_client_read :: "nat \<Rightarrow> int \<Rightarrow> string \<Rightarrow> string \<Rightarrow> 'w http_state \<Rightarrow> 'w http_state outcome" where
  "on_client_read i nread base junk s = (case client_at i s of
     None \<Rightarrow> Fault Use_after_free
   | Some n \<Rightarrow>
       if nread > 0
       then (case extend_buffer (nat nread) junk (client_pool s ! n) (http_answers s) of
           (None, as) \<Rightarrow> Ret (uv_close_client i (s\<lparr>http_answers := as\<rparr>))
         | (Some c, as) \<Rightarrow> (case read_buffer c of
               None \<Rightarrow> Fault Null_deref
             | Some mem \<Rightarrow>
                 obind (put_bytes (read_buffer_used c) (take (nat nread) base) mem) (\<lambda>mem1.
                   process_buffer n (c\<lparr>read_buffer := Some mem1, read_buffer_used := read_buffer_used c + nat nread\<rparr>)
                     (s\<lparr>http_answers := as\<rparr>))))
       else if nread < 0 then Ret (uv_close_client i s)
       else Ret s)"

definition on_client_close :: "nat \<Rightarrow> 'w http_state \<Rightarrow> 'w http_state outcome" where
  "on_client_close i s = (case client_at i s of
     None \<Rightarrow> Fault Use_after_free
   | Some n \<Rightarrow> critical (client_pool_mutex s)
       (s\<lparr>client_pool := take n (client_pool s) @ drop (Suc n) (client_pool s),
         active_clients := active_clients s - 1, closing := remove1 i (closing s)\<rparr>))"

section \<open>Life cycle\<close>

definition http_module_init :: "bool \<Rightarrow> 'w http_state \<Rightarrow> int \<times> 'w http_state" where
  "http_module_init self s =
     (if \<not> self then (-1, s)
      else case http_answer s of (ok, s1) \<Rightarrow>
        if \<not> ok then (-1, s1)
        else case http_answer s1 of (ok2, s2) \<Rightarrow>
          if \<not> ok2 then (-1, s2)
          else case http_answer s2 of (ok3, s3) \<Rightarrow>
            if \<not> ok3 then (-1, s3)
            else (0, s3\<lparr>client_pool_mutex := Mutex_free,
              http_data := Some \<lparr>http_conf = http_default_config, routes = [], route_count = 0, routes_mutex = Mutex_free,
                json_parser_fn = None, json_parser_user_data = 0\<rparr>\<rparr>))"

text \<open>The address comes from \<open>uv_ip4_addr\<close>, whose result is not looked at; \<open>tcp_bind\<close> is what \<open>uv_tcp_bind\<close> gives for it.\<close>

definition http_module_start :: "bool \<Rightarrow> (sockaddr \<Rightarrow> int) \<Rightarrow> int \<Rightarrow> 'w http_state \<Rightarrow> int \<times> 'w http_state" where
  "http_module_start self tcp_bind listen_result s = (case http_data s of
     None \<Rightarrow> (-1, s)
   | Some d \<Rightarrow>
       if \<not> self then (-1, s)
       else let addr = snd (uv_ip4_addr (Some (host (http_conf d))) (port (http_conf d))) in
         if tcp_bind addr \<noteq> 0 then (-1, s)
         else if listen_result \<noteq> 0 then (-1, s)
         else (0, s\<lparr>listening := True\<rparr>))"

definition http_module_stop :: "bool \<Rightarrow> 'w http_state \<Rightarrow> int \<times> 'w http_state" where
  "http_module_stop self s =
     (if \<not> self \<or> http_data s = None then (-1, s) else (0, s\<lparr>listening := False\<rparr>))"

text \<open>The configuration keeps the strings of the default, so there is none to free.\<close>

definition http_module_cleanup :: "bool \<Rightarrow> 'w http_state \<Rightarrow> (int \<times> 'w http_state) outcome" where
  "http_module_cleanup self s =
     (if \<not> self \<or> http_data s = None then Ret (-1, s)
      else obind (http_clear_routes s) (\<lambda>s1.
        Ret (0, s1\<lparr>client_pool_mutex := Mutex_dead, http_data := None\<rparr>)))"

end
