(* ===== verification/Http_Requests.thy ===== *)
theory Http_Requests
  imports Http_Module
begin

text \<open>
  What the HTTP module makes of requests: URL decoding undoes percent encoding, and the parser
  recovers the parts of a well-formed request from the memory that holds it.
\<close>

section \<open>Percent encoding\<close>

text \<open>A reference encoder: every character that is not kept becomes a percent sign and two digits.\<close>

definition hex_digit :: "nat \<Rightarrow> char" where
  "hex_digit n = ''0123456789ABCDEF'' ! n"

definition encode_char :: "(char \<Rightarrow> bool) \<Rightarrow> char \<Rightarrow> string" where
  "encode_char keep c = (if keep c then [c]
     else [CHR ''%'', hex_digit ((of_char c :: nat) div 16), hex_digit ((of_char c :: nat) mod 16)])"

definition url_encode :: "(char \<Rightarrow> bool) \<Rightarrow> string \<Rightarrow> string" where
  "url_encode keep s = concat (map (encode_char keep) s)"

definition url_keep :: "char \<Rightarrow> bool" where
  "url_keep c \<longleftrightarrow> c \<noteq> CHR ''%'' \<and> c \<noteq> CHR ''+''"

lemma hex_digit_cases: "n < 16 \<Longrightarrow> hex_digit n \<in> set ''0123456789ABCDEF''"
  unfolding hex_digit_def by (rule nth_mem) simp

lemma hex_val_digit: "n < 16 \<Longrightarrow> hex_val (hex_digit n) = Some n"
proof -
  assume n: "n < 16"
  have "map hex_val ''0123456789ABCDEF'' = map Some [0..<16]"
    by (simp add: hex_val_def lower_def upt_rec)
  then have "map hex_val ''0123456789ABCDEF'' ! n = map Some [0..<16] ! n" by (rule arg_cong)
  with n show ?thesis by (simp add: hex_digit_def del: list.map)
qed

lemma decode_encoded_char:
  assumes "keep c \<longrightarrow> url_keep c"
  shows "decode_loop (encode_char keep c @ r) = c # decode_loop r"
proof (cases "keep c")
  case True
  with assms show ?thesis by (simp add: encode_char_def url_keep_def)
next
  case False
  define n where "n = (of_char c :: nat)"
  have n: "n < 256" by (simp add: n_def)
  then have "scan_hex [hex_digit (n div 16), hex_digit (n mod 16)] = Some (int (16 * (n div 16) + n mod 16))"
    by (intro scan_two_digits hex_val_digit) auto
  moreover have "16 * (n div 16) + n mod 16 = n" by simp
  moreover have "to_char (int n) = c" using n by (simp add: to_char_def n_def)
  ultimately show ?thesis
    using False by (simp add: encode_char_def n_def [symmetric] del: of_nat_add of_nat_mult)
qed

lemma decode_encode:
  "\<forall>c. keep c \<longrightarrow> url_keep c \<Longrightarrow> decode_loop (url_encode keep s) = s"
  by (induction s) (simp_all add: url_encode_def decode_encoded_char decode_encoded_char [of _ _ "[]", simplified])

lemma url_decode_encode:
  "\<forall>c. keep c \<longrightarrow> url_keep c \<Longrightarrow> NUL \<notin> set s \<Longrightarrow> url_decode (Some (url_encode keep s)) [] = (Some s, [])"
  by (simp add: url_decode_def decode_encode)

text \<open>C18: Decoding undoes percent encoding, for every encoder that escapes at least the percent
  sign and the plus, and every text without NUL.\<close>

theorem url_decode_inverts_encode:
  assumes "\<forall>c. keep c \<longrightarrow> url_keep c" and "NUL \<notin> set s"
  shows "url_decode (Some (url_encode keep s)) [] = (Some s, [])"
  using assms by (rule url_decode_encode)

theorem url_decode_inverts_encode_witness:
  "url_decode (Some ''100%25%2Ba'') [] = (Some ''100%+a'', [])"
proof -
  have "url_encode url_keep ''100%+a'' = ''100%25%2Ba''"
    by (simp add: url_encode_def encode_char_def url_keep_def hex_digit_def)
  then show ?thesis using url_decode_inverts_encode [of url_keep "''100%+a''"] by (simp add: NUL_def)
qed

section \<open>Lines\<close>

text \<open>A line has contents and none of the characters that would end it.\<close>

definition line_ok :: "string \<Rightarrow> bool" where
  "line_ok l \<longleftrightarrow> l \<noteq> [] \<and> CR \<notin> set l \<and> NL \<notin> set l \<and> NUL \<notin> set l"

fun crlf_join :: "string list \<Rightarrow> string" where
  "crlf_join [] = []"
| "crlf_join [l] = l"
| "crlf_join (l # m # ls) = l @ CRLF @ crlf_join (m # ls)"

lemma crlf_join_Cons: "ls \<noteq> [] \<Longrightarrow> crlf_join (l # ls) = l @ CRLF @ crlf_join ls"
  by (cases ls) auto

lemma concat_lines: "ls \<noteq> [] \<Longrightarrow> concat (map (\<lambda>l. l @ CRLF) ls) = crlf_join ls @ CRLF"
  by (induction ls rule: crlf_join.induct) auto

lemma no_NUL_join: "list_all line_ok ls \<Longrightarrow> NUL \<notin> set (crlf_join ls)"
  by (induction ls rule: crlf_join.induct) (auto simp: line_ok_def CRLF_def NUL_def CR_def NL_def)

lemma strstr_skip:
  "c \<notin> set s \<Longrightarrow> NUL \<notin> set s \<Longrightarrow>
   strstr (c # w) (s @ r) = obind (strstr (c # w) r) (\<lambda>x. Ret (map_option ((+) (length s)) x))"
proof (induction s)
  case Nil
  then show ?case by (cases "strstr (c # w) r") (simp_all add: option.map_ident)
next
  case (Cons d s)
  then have "d \<noteq> c" "d \<noteq> NUL" by auto
  with Cons show ?case
    by (cases "strstr (c # w) r") (auto simp: option.map_comp comp_def)
qed

lemma char_simps [simp]: "CR \<noteq> NL" "NL \<noteq> CR" "CR \<noteq> NUL" "NL \<noteq> NUL" "NUL \<noteq> CR" "NUL \<noteq> NL"
  by (simp_all add: CR_def NL_def NUL_def)

lemma strstr_blank_line:
  "ls \<noteq> [] \<Longrightarrow> list_all line_ok ls \<Longrightarrow>
   strstr (CRLF @ CRLF) (crlf_join ls @ CRLF @ CRLF @ r) = Ret (Some (length (crlf_join ls)))"
proof (induction ls rule: crlf_join.induct)
  case (2 l)
  then show ?case by (simp add: CRLF_def line_ok_def strstr_skip)
next
  case (3 l m ls)
  obtain c cs where m: "m = c # cs" "c \<noteq> CR" using 3(3) by (cases m) (auto simp: line_ok_def)
  obtain t where t: "crlf_join (m # ls) = c # t" using m by (cases ls) auto
  from 3 show ?case by (simp add: CRLF_def line_ok_def strstr_skip t m(2))
qed simp

lemma strtok_line:
  assumes "line_ok l"
  shows "strtok CRLF (l @ CRLF @ r) = (Some l, NL # r)" "strtok CRLF l = (Some l, [])"
  using assms strtok_token(1) [of l CRLF CR "NL # r"] strtok_token(2) [of l CRLF CR] by (auto simp: line_ok_def CRLF_def)

lemma line_ok_head: "line_ok l \<Longrightarrow> \<exists>c cs. l = c # cs"
  by (cases l) (auto simp: line_ok_def)

lemma parse_lines_nil: "parse_header_lines [] rq as = (rq, as)"
  by (simp add: parse_header_lines.simps [of "[]"] strtok_def)

lemma parse_lines_skip: "parse_header_lines (NL # s) rq as = parse_header_lines s rq as"
  by (simp add: parse_header_lines.simps [of "NL # s"] parse_header_lines.simps [of s] strtok_skip CRLF_def)

lemma parse_lines_Cons:
  assumes "line_ok l"
  shows "parse_header_lines (crlf_join (l # ls)) rq as
    = (case header_line l rq as of (rq1, as1) \<Rightarrow> parse_header_lines (crlf_join ls) rq1 as1)"
proof (cases ls)
  case Nil
  with strtok_line(2) [OF assms] show ?thesis
    by (simp add: parse_header_lines.simps [of l] parse_lines_nil split: prod.split)
next
  case (Cons m ms)
  with strtok_line(1) [OF assms] show ?thesis
    by (simp add: parse_header_lines.simps [of "l @ CRLF @ crlf_join (m # ms)"] parse_lines_skip split: prod.split)
qed

section \<open>Headers\<close>

text \<open>The value of the last header with a name, in any spelling of its letters.\<close>

fun last_header :: "string \<Rightarrow> (string \<times> string) list \<Rightarrow> string option" where
  "last_header name [] = None"
| "last_header name ((n, v) # hs) = (case last_header name hs of
     Some u \<Rightarrow> Some u | None \<Rightarrow> if strcasecmp_eq n name then Some v else None)"

definition header_text :: "string \<times> string \<Rightarrow> string" where
  "header_text h = fst h @ '': '' @ snd h"

definition header_ok :: "string \<times> string \<Rightarrow> bool" where
  "header_ok h \<longleftrightarrow> line_ok (header_text h) \<and> CHR '':'' \<notin> set (fst h) \<and> (\<forall>v. snd h \<noteq> CHR '' '' # v)"

lemma lower_names:
  "map lower ''Content-Type'' = ''content-type''" "map lower ''User-Agent'' = ''user-agent''"
  "map lower ''Authorization'' = ''authorization''"
  by code_simp+

lemma header_line_ok:
  assumes "header_ok (n, v)"
  shows "header_line (header_text (n, v)) rq [] =
    (rq\<lparr>rq_content_type := if strcasecmp_eq n ''Content-Type'' then Some v else rq_content_type rq,
        rq_user_agent := if strcasecmp_eq n ''User-Agent'' then Some v else rq_user_agent rq,
        rq_authorization := if strcasecmp_eq n ''Authorization'' then Some v else rq_authorization rq\<rparr>, [])"
proof -
  have c: "CHR '':'' \<notin> set n" and v: "\<forall>u. v \<noteq> CHR '' '' # u" using assms by (auto simp: header_ok_def)
  have "takeWhile (\<lambda>c. c \<noteq> CHR '':'') (header_text (n, v)) = n"
    "dropWhile (\<lambda>c. c \<noteq> CHR '':'') (header_text (n, v)) = '': '' @ v"
    using c by (auto simp: header_text_def takeWhile_append dropWhile_append)
  moreover have "dropWhile (\<lambda>c. c = CHR '' '') v = v" using v by (cases v) auto
  moreover have "CHR '':'' \<in> set (header_text (n, v))" by (simp add: header_text_def)
  ultimately show ?thesis
    by (auto simp: header_line_def Let_def strdup_def strcasecmp_eq_def lower_names)
qed

lemma parse_headers_ok:
  "list_all header_ok hs \<Longrightarrow>
   parse_header_lines (crlf_join (map header_text hs)) rq [] =
    (rq\<lparr>rq_content_type := (case last_header ''Content-Type'' hs of Some v \<Rightarrow> Some v | None \<Rightarrow> rq_content_type rq),
        rq_user_agent := (case last_header ''User-Agent'' hs of Some v \<Rightarrow> Some v | None \<Rightarrow> rq_user_agent rq),
        rq_authorization := (case last_header ''Authorization'' hs of Some v \<Rightarrow> Some v | None \<Rightarrow> rq_authorization rq)\<rparr>, [])"
proof (induction hs arbitrary: rq)
  case Nil
  then show ?case by (simp add: parse_lines_nil)
next
  case (Cons h hs)
  obtain n v where h: "h = (n, v)" by (cases h)
  have "header_ok (n, v)" "line_ok (header_text (n, v))" using Cons.prems h by (auto simp: header_ok_def)
  with Cons h show ?case by (auto simp: parse_lines_Cons header_line_ok split: option.split)
qed

section \<open>Requests\<close>

text \<open>The URL of a path and an optional query, and the text of a request.\<close>

definition url_text :: "(char \<Rightarrow> bool) \<Rightarrow> string \<Rightarrow> string option \<Rightarrow> string" where
  "url_text keep p q = url_encode keep p @ (case q of None \<Rightarrow> [] | Some t \<Rightarrow> ''?'' @ url_encode keep t)"

definition request_line :: "http_method \<Rightarrow> string \<Rightarrow> string" where
  "request_line m url = http_method_to_string m @ '' '' @ url @ '' HTTP/1.1''"

definition request_text :: "http_method \<Rightarrow> string \<Rightarrow> (string \<times> string) list \<Rightarrow> string \<Rightarrow> string" where
  "request_text m url hs b = request_line m url @ CRLF @ concat (map (\<lambda>h. header_text h @ CRLF) hs) @ CRLF @ b"

text \<open>The characters a URL may keep as they are.\<close>

definition url_safe :: "char \<Rightarrow> bool" where
  "url_safe c \<longleftrightarrow> url_keep c \<and> c \<notin> {CHR '' '', CHR ''?'', CR, NL, NUL}"

lemma hex_digit_safe: "n < 16 \<Longrightarrow> url_safe (hex_digit n)"
  by (drule hex_digit_cases) (auto simp: url_safe_def url_keep_def CR_def NL_def NUL_def)

lemma set_url_encode:
  assumes "\<forall>c. keep c \<longrightarrow> url_safe c" and "c \<in> set (url_encode keep s)"
  shows "url_safe c \<or> c = CHR ''%''"
proof -
  from assms(2) obtain d where "d \<in> set s" "c \<in> set (encode_char keep d)" by (auto simp: url_encode_def)
  moreover have "(of_char d :: nat) div 16 < 16" using less_mult_imp_div_less [of "of_char d :: nat" 16 16] by simp
  ultimately show ?thesis using assms(1) hex_digit_safe by (auto simp: encode_char_def split: if_splits)
qed

lemma url_encode_clean:
  assumes "\<forall>c. keep c \<longrightarrow> url_safe c"
  shows "CHR '' '' \<notin> set (url_encode keep s)" "CHR ''?'' \<notin> set (url_encode keep s)"
    "CR \<notin> set (url_encode keep s)" "NL \<notin> set (url_encode keep s)" "NUL \<notin> set (url_encode keep s)"
  using set_url_encode [OF assms] by (fastforce simp: url_safe_def CR_def NL_def NUL_def)+

lemma url_encode_Nil: "url_encode keep s = [] \<longleftrightarrow> s = []"
  by (cases s) (auto simp: url_encode_def encode_char_def)

lemma parse_url_text:
  assumes "\<forall>c. keep c \<longrightarrow> url_safe c" and "NUL \<notin> set p" and "\<forall>t. q = Some t \<longrightarrow> NUL \<notin> set t"
  shows "parse_url (url_text keep p q) [] = (0, Some p, q, [])"
proof -
  have k: "\<forall>c. keep c \<longrightarrow> url_keep c" using assms(1) by (auto simp: url_safe_def)
  note e = url_encode_clean [OF assms(1)]
  show ?thesis
  proof (cases q)
    case None
    then show ?thesis
      using e(2) [of p] assms(2) by (simp add: parse_url_def url_text_def strdup_def url_decode_encode [OF k] url_decode_def [of None])
  next
    case (Some t)
    have "takeWhile (\<lambda>c. c \<noteq> CHR ''?'') (url_text keep p q) = url_encode keep p"
      "dropWhile (\<lambda>c. c \<noteq> CHR ''?'') (url_text keep p q) = ''?'' @ url_encode keep t"
      using e(2) [of p] Some by (auto simp: url_text_def takeWhile_append dropWhile_append)
    moreover have "take (length (url_encode keep p)) (url_text keep p q) = url_encode keep p"
      "CHR ''?'' \<in> set (url_text keep p q)" using Some by (auto simp: url_text_def)
    ultimately show ?thesis
      using Some assms(2,3) e(5) [of p]
      by (simp add: parse_url_def strndup_def strdup_def url_decode_encode [OF k])
  qed
qed

lemma url_text_clean:
  assumes "\<forall>c. keep c \<longrightarrow> url_safe c" and "p \<noteq> []"
  shows "url_text keep p q \<noteq> []" "CHR '' '' \<notin> set (url_text keep p q)" "CR \<notin> set (url_text keep p q)"
    "NUL \<notin> set (url_text keep p q)"
  using url_encode_clean [OF assms(1)] assms(2)
  by (auto simp: url_text_def url_encode_Nil CR_def NUL_def split: option.splits)

text \<open>The three tokens of a request line.\<close>

lemma method_text:
  "http_method_to_string m \<noteq> []" "CHR '' '' \<notin> set (http_method_to_string m)" "CR \<notin> set (http_method_to_string m)"
  "NUL \<notin> set (http_method_to_string m)" "http_string_to_method (Some (http_method_to_string m)) = m"
  by (cases m; simp add: CR_def NUL_def http_string_to_method_def)+

lemma request_line_tokens:
  assumes "url \<noteq> []" and "CHR '' '' \<notin> set url"
  shows "strtok '' '' (request_line m url) = (Some (http_method_to_string m), url @ '' HTTP/1.1'')"
    "strtok '' '' (url @ '' HTTP/1.1'') = (Some url, ''HTTP/1.1'')"
    "strtok '' '' ''HTTP/1.1'' = (Some ''HTTP/1.1'', [])"
  using strtok_token(1) [of "http_method_to_string m" "'' ''" "CHR '' ''" "url @ '' HTTP/1.1''"] method_text(1,2) [of m]
    strtok_token(1) [of url "'' ''" "CHR '' ''" "''HTTP/1.1''"] assms
    strtok_token(2) [of "''HTTP/1.1''" "'' ''" "CHR '' ''"]
  by (auto simp: request_line_def)

lemma headers_and_body_ok:
  assumes "list_all header_ok hs" and "hs \<noteq> []" and "NUL \<notin> set b"
  shows "parse_headers_and_body (crlf_join (map header_text hs) @ CRLF @ CRLF @ b @ NUL # junk) off len lr
      (no_request\<lparr>rq_method := m, rq_path := p, rq_query_string := q\<rparr>) []
    = Ret (no_request\<lparr>rq_method := m, rq_path := p, rq_query_string := q, rq_body := Some b,
        rq_body_length := of_nat len - of_nat (off + length (crlf_join (map header_text hs)) + 4),
        rq_content_type := last_header ''Content-Type'' hs, rq_user_agent := last_header ''User-Agent'' hs,
        rq_authorization := last_header ''Authorization'' hs\<rparr>, [])"
proof -
  define t where "t = crlf_join (map header_text hs)"
  have l: "list_all line_ok (map header_text hs)" using assms(1) by (auto simp: list_all_iff header_ok_def)
  have "NUL \<notin> set t" using no_NUL_join [OF l] by (simp add: t_def)
  moreover have "strstr (CRLF @ CRLF) (t @ CRLF @ CRLF @ b @ NUL # junk) = Ret (Some (length t))"
    using strstr_blank_line [OF _ l] assms(2) by (simp add: t_def)
  moreover have "drop (length t + 4) (t @ CRLF @ CRLF @ b @ NUL # junk) = b @ NUL # junk"
    by (simp add: CRLF_def)
  ultimately show ?thesis
    using parse_headers_ok [OF assms(1)] read_str_text [OF assms(3)]
    by (simp add: parse_headers_and_body_def strndup_def strdup_def t_def [symmetric] no_request_def split: option.split)
qed

text \<open>What a well-formed request says.\<close>

definition parsed_request ::
  "http_method \<Rightarrow> string \<Rightarrow> string option \<Rightarrow> (string \<times> string) list \<Rightarrow> string \<Rightarrow> http_request" where
  "parsed_request m p q hs b = \<lparr>rq_method = m, rq_path = Some p, rq_query_string = q, rq_body = Some b,
     rq_body_length = of_nat (length b), rq_content_type = last_header ''Content-Type'' hs,
     rq_user_agent = last_header ''User-Agent'' hs, rq_authorization = last_header ''Authorization'' hs, rq_headers = []\<rparr>"

lemma parse_request_text:
  assumes "\<forall>c. keep c \<longrightarrow> url_safe c" and "p \<noteq> []" and "NUL \<notin> set p" and "\<forall>t. q = Some t \<longrightarrow> NUL \<notin> set t"
    and "list_all header_ok hs" and "hs \<noteq> []" and "NUL \<notin> set b"
    and "0 < len"
  shows "parse_http_request (Some (request_text m (url_text keep p q) hs b @ NUL # junk)) len []
    = Ret (0, (parsed_request m p q hs b)\<lparr>rq_body_length :=
        of_nat len - of_nat (length (request_text m (url_text keep p q) hs b) - length b)\<rparr>, [])"
proof -
  define url where "url = url_text keep p q"
  define l where "l = request_line m url"
  define t where "t = crlf_join (map header_text hs)"
  note u = url_text_clean [OF assms(1,2), of q, folded url_def]
  have l: "CR \<notin> set l" "NUL \<notin> set l" using u method_text [of m] by (auto simp: l_def request_line_def CR_def NUL_def)
  have mem: "request_text m url hs b @ NUL # junk = l @ CRLF @ t @ CRLF @ CRLF @ b @ NUL # junk"
    using concat_lines [of "map header_text hs"] assms(6) by (simp add: request_text_def l_def t_def comp_def)
  have len: "length (request_text m url hs b) - length b = (length l + 2) + length t + 4"
    using arg_cong [OF mem, of length] by (simp add: CRLF_def)
  have "strstr CRLF (l @ CRLF @ t @ CRLF @ CRLF @ b @ NUL # junk) = Ret (Some (length l))"
    using strstr_found [of CRLF CR "[NL]" l] l by (simp add: CRLF_def)
  moreover have "drop (length l + 2) (l @ CRLF @ t @ CRLF @ CRLF @ b @ NUL # junk) = t @ CRLF @ CRLF @ b @ NUL # junk"
    by (simp add: CRLF_def)
  moreover have "parse_url url [] = (0, Some p, q, [])" using parse_url_text [OF assms(1,3,4)] by (simp add: url_def)
  ultimately show ?thesis
    using assms(8) l request_line_tokens(1) [OF u(1,2), of m, folded l_def] request_line_tokens(2,3) [OF u(1,2)]
      headers_and_body_ok [OF assms(5,6,7), folded t_def]
    by (simp add: parse_http_request_def len url_def [symmetric] mem strndup_def strdup_def method_text(5) parsed_request_def
        no_request_def)
qed

lemma parse_whole_request:
  assumes "\<forall>c. keep c \<longrightarrow> url_safe c" and "p \<noteq> []" and "NUL \<notin> set p" and "\<forall>t. q = Some t \<longrightarrow> NUL \<notin> set t"
    and "list_all header_ok hs" and "hs \<noteq> []" and "NUL \<notin> set b"
  shows "parse_http_request (Some (request_text m (url_text keep p q) hs b @ NUL # junk))
      (length (request_text m (url_text keep p q) hs b)) []
    = Ret (0, parsed_request m p q hs b, [])"
proof -
  define t where "t = request_text m (url_text keep p q) hs b"
  have "length b \<le> length t" "0 < length t" by (simp_all add: t_def request_text_def CRLF_def)
  then have "(of_nat (length t) :: 64 word) - of_nat (length t - length b) = of_nat (length b)" by (simp add: of_nat_diff)
  then show ?thesis
    using parse_request_text [OF assms \<open>0 < length t\<close>, of m junk] by (simp add: t_def [symmetric] parsed_request_def)
qed

text \<open>C17: The parser recovers method, path, query, the three headers it knows (the last one of a name, in
  any spelling) and the body of a request that has at least one header, from memory in which a NUL
  follows the request.\<close>

theorem request_parsed:
  assumes "\<forall>c. keep c \<longrightarrow> url_safe c" and "p \<noteq> []" and "NUL \<notin> set p" and "\<forall>t. q = Some t \<longrightarrow> NUL \<notin> set t"
    and "list_all header_ok hs" and "hs \<noteq> []" and "NUL \<notin> set b"
  shows "parse_http_request (Some (request_text m (url_text keep p q) hs b @ NUL # junk))
      (length (request_text m (url_text keep p q) hs b)) []
    = Ret (0, parsed_request m p q hs b, [])"
  using assms by (rule parse_whole_request)

theorem request_parsed_witness:
  "parse_http_request (Some (request_text HTTP_METHOD_POST (url_text url_safe ''/a b'' (Some ''q'')) [(''content-TYPE'', ''t'')] ''x=1'' @ [NUL]))
      (length (request_text HTTP_METHOD_POST (url_text url_safe ''/a b'' (Some ''q'')) [(''content-TYPE'', ''t'')] ''x=1'')) []
    = Ret (0, parsed_request HTTP_METHOD_POST ''/a b'' (Some ''q'') [(''content-TYPE'', ''t'')] ''x=1'', [])"
  by (rule request_parsed) (auto simp: header_ok_def header_text_def line_ok_def NUL_def CR_def NL_def)

text \<open>How many bytes were received plays no part beyond the length noted for the body: whatever positive
  number it is, the whole request in the memory is parsed, so that a single byte completed by what an
  earlier request left in the buffer is taken for a request, with a body length that wraps around.\<close>

theorem received_length_ignored:
  assumes "\<forall>c. keep c \<longrightarrow> url_safe c" and "p \<noteq> []" and "NUL \<notin> set p" and "\<forall>t. q = Some t \<longrightarrow> NUL \<notin> set t"
    and "list_all header_ok hs" and "hs \<noteq> []" and "NUL \<notin> set b" and "0 < len"
  shows "parse_http_request (Some (request_text m (url_text keep p q) hs b @ NUL # junk)) len []
    = Ret (0, (parsed_request m p q hs b)\<lparr>rq_body_length :=
        of_nat len - of_nat (length (request_text m (url_text keep p q) hs b) - length b)\<rparr>, [])"
  using assms by (rule parse_request_text)

theorem received_length_ignored_witness:
  "\<exists>rq. parse_http_request (Some (request_text HTTP_METHOD_GET (url_text url_safe ''/'' None) [(''H'', ''v'')] [] @ [NUL])) 1 []
    = Ret (0, rq, []) \<and> rq_body_length rq = - 23"
proof -
  have "length (request_text HTTP_METHOD_GET (url_text url_safe ''/'' None) [(''H'', ''v'')] []) = 24"
    by (simp add: request_text_def request_line_def url_text_def url_encode_def encode_char_def header_text_def CRLF_def
        url_safe_def url_keep_def CR_def NL_def NUL_def)
  moreover have "header_ok (''H'', ''v'')" by (simp add: header_ok_def header_text_def line_ok_def NUL_def CR_def NL_def)
  ultimately show ?thesis
    using received_length_ignored [of url_safe "''/''" None "[(''H'', ''v'')]" "[]" 1 HTTP_METHOD_GET "[]"] by (simp add: NUL_def)
qed

end
