(* ===== verification/Http_Server.thy ===== *)
theory Http_Server
  imports Http_Requests
begin

text \<open>
  Properties of the HTTP server: the route table is a table of stacks, a response is sent whole
  exactly when its headers fit the buffer, a well-formed request reaches the newest handler of its
  route, and the pool of connections stays consistent under every sequence of events.
\<close>

section \<open>The route table\<close>

definition routes_ok :: "'w http_state \<Rightarrow> bool" where
  "routes_ok s \<longleftrightarrow> http_answers s = [] \<and> (case http_data s of None \<Rightarrow> False
     | Some d \<Rightarrow> routes_mutex d = Mutex_free \<and> list_all (\<lambda>r. route_path r \<noteq> None) (routes d)
         \<and> route_count d = int (length (routes d)))"

text \<open>The handlers registered for a method and a path, newest first.\<close>

definition route_bindings :: "'w http_state \<Rightarrow> http_method \<times> string \<Rightarrow> ('w http_route_handler \<times> nat) list" where
  "route_bindings s k = (case http_data s of None \<Rightarrow> []
     | Some d \<Rightarrow> map (\<lambda>r. (route_handler r, route_user_data r))
         (filter (\<lambda>r. route_method r = fst k \<and> route_path r = Some (snd k)) (routes d)))"

definition route_put :: "http_method \<times> string \<Rightarrow> 'w http_route_handler \<times> nat \<Rightarrow> 'w http_state \<Rightarrow> 'w http_state" where
  "route_put k v s = (case http_add_route (fst k) (Some (snd k)) (Some (fst v)) (snd v) s of
     Ret (r, s1) \<Rightarrow> s1 | Fault e \<Rightarrow> s)"

definition route_pop :: "http_method \<times> string \<Rightarrow> 'w http_state \<Rightarrow> 'w http_state" where
  "route_pop k s = (case http_remove_route (fst k) (Some (snd k)) s of Ret (r, s1) \<Rightarrow> s1 | Fault e \<Rightarrow> s)"

lemma critical_free [simp]: "critical Mutex_free x = Ret x"
  by (simp add: critical_def)

lemma critical_dead [simp]: "critical Mutex_dead x = Fault Bad_mutex"
  by (simp add: critical_def)

lemma find_route_ok:
  "list_all (\<lambda>r. route_path r \<noteq> None) rs \<Longrightarrow>
   find_route m (Some p) rs = Ret (find_idx (\<lambda>r. route_method r = m \<and> route_path r = Some p) rs)"
  by (induction rs) auto

lemma routes_okE:
  assumes "routes_ok s"
  obtains d where "http_data s = Some d" "routes_mutex d = Mutex_free" "http_answers s = []"
    "list_all (\<lambda>r. route_path r \<noteq> None) (routes d)" "route_count d = int (length (routes d))"
  using assms by (auto simp: routes_ok_def split: option.splits)

lemma filter_drop_found:
  "find_idx P xs = Some i \<Longrightarrow> filter P (take i xs @ drop (Suc i) xs) = tl (filter P xs)"
  by (induction xs arbitrary: i) (auto split: if_splits)

lemma filter_drop_other:
  "find_idx P xs = Some i \<Longrightarrow> (\<And>x. P x \<Longrightarrow> \<not> Q x) \<Longrightarrow> filter Q (take i xs @ drop (Suc i) xs) = filter Q xs"
  by (induction xs arbitrary: i) (auto split: if_splits)

lemma find_idx_filter: "newest (filter P xs) = map_option (\<lambda>i. xs ! i) (find_idx P xs)"
  by (induction xs) (auto simp: newest_def option.map_comp comp_def split: list.splits)

lemma add_route_ok:
  assumes "routes_ok s"
  shows "routes_ok (route_put k v s)" "route_bindings (route_put k v s) = stack_put k v (route_bindings s)"
proof -
  obtain d where d: "http_data s = Some d" "routes_mutex d = Mutex_free" "http_answers s = []"
    "list_all (\<lambda>r. route_path r \<noteq> None) (routes d)" "route_count d = int (length (routes d))"
    using assms by (rule routes_okE)
  have "route_put k v s = s\<lparr>http_answers := [], http_data := Some (d\<lparr>routes := \<lparr>route_method = fst k, route_path = Some (snd k),
      route_handler = fst v, route_user_data = snd v\<rparr> # routes d, route_count := route_count d + 1\<rparr>)\<rparr>"
    using d by (simp add: route_put_def http_add_route_def http_answer_def strdup_def)
  with d show "routes_ok (route_put k v s)" "route_bindings (route_put k v s) = stack_put k v (route_bindings s)"
    by (auto simp: routes_ok_def route_bindings_def stack_put_def fun_eq_iff prod_eq_iff)
qed

lemma remove_route_ok:
  assumes "routes_ok s"
  shows "routes_ok (route_pop k s)" "route_bindings (route_pop k s) = stack_pop k (route_bindings s)"
proof -
  obtain d where d: "http_data s = Some d" "routes_mutex d = Mutex_free" "http_answers s = []"
    "list_all (\<lambda>r. route_path r \<noteq> None) (routes d)" "route_count d = int (length (routes d))"
    using assms by (rule routes_okE)
  define P where "P = (\<lambda>(k :: http_method \<times> string) (r :: 'a http_route). route_method r = fst k \<and> route_path r = Some (snd k))"
  have f: "find_route (fst k) (Some (snd k)) (routes d) = Ret (find_idx (P k) (routes d))"
    using find_route_ok [OF d(4)] by (simp add: P_def)
  have "routes_ok (route_pop k s) \<and> route_bindings (route_pop k s) = stack_pop k (route_bindings s)"
  proof (cases "find_idx (P k) (routes d)")
    case None
    then have "filter (P k) (routes d) = []" by (auto simp: find_idx_None filter_empty_conv)
    with None f d assms show ?thesis
      by (auto simp: route_pop_def http_remove_route_def route_bindings_def stack_pop_def fun_eq_iff P_def)
  next
    case (Some i)
    then have i: "i < length (routes d)" by (auto dest: find_idx_SomeD)
    define rs where "rs = take i (routes d) @ drop (Suc i) (routes d)"
    have rs: "length rs = length (routes d) - 1" "set rs \<subseteq> set (routes d)"
      using i by (auto simp: rs_def dest: in_set_takeD in_set_dropD)
    have "filter (P j) rs = (if j = k then tl (filter (P k) (routes d)) else filter (P j) (routes d))" for j
    proof (cases "j = k")
      case False
      then have "P k x \<Longrightarrow> \<not> P j x" for x by (auto simp: P_def prod_eq_iff)
      with False filter_drop_other [OF Some, of "P j"] show ?thesis by (simp add: rs_def)
    qed (use filter_drop_found [OF Some] in \<open>simp add: rs_def\<close>)
    moreover have "route_pop k s = s\<lparr>http_data := Some (d\<lparr>routes := rs, route_count := route_count d - 1\<rparr>)\<rparr>"
      using d f Some by (simp add: route_pop_def http_remove_route_def rs_def)
    moreover have "list_all (\<lambda>r. route_path r \<noteq> None) rs" "int (length rs) = route_count d - 1"
      using d(4,5) rs i by (auto simp: list_all_iff)
    moreover have "route_bindings s j = map (\<lambda>r. (route_handler r, route_user_data r)) (filter (P j) (routes d))"
      "route_bindings (s\<lparr>http_data := Some (d\<lparr>routes := rs, route_count := route_count d - 1\<rparr>)\<rparr>) j
         = map (\<lambda>r. (route_handler r, route_user_data r)) (filter (P j) rs)" for j
      using d(1) by (simp_all add: route_bindings_def P_def)
    ultimately show ?thesis
      using d by (auto simp: routes_ok_def stack_pop_def fun_eq_iff map_tl)
  qed
  then show "routes_ok (route_pop k s)" "route_bindings (route_pop k s) = stack_pop k (route_bindings s)" by auto
qed

interpretation route_table: shadowing_table route_bindings route_put route_pop routes_ok
  by unfold_locales (auto simp: add_route_ok remove_route_ok)

lemma find_matching_ok:
  assumes "routes_ok s" and "rq_path rq = Some p"
  shows "\<exists>rt. find_matching_route rq s = Ret rt
    \<and> map_option (\<lambda>r. (route_handler r, route_user_data r)) rt = newest (route_bindings s (rq_method rq, p))"
proof -
  obtain d where d: "http_data s = Some d" "routes_mutex d = Mutex_free" "list_all (\<lambda>r. route_path r \<noteq> None) (routes d)"
    using assms(1) by (rule routes_okE)
  have "newest (map f xs) = map_option f (newest xs)" for f :: "'a http_route \<Rightarrow> 'a http_route_handler \<times> nat" and xs
    by (cases xs) (auto simp: newest_def)
  with d assms(2) show ?thesis
    by (simp add: find_matching_route_def find_route_ok route_bindings_def find_idx_filter)
qed

text \<open>C19: After any sequence of adding and removing routes, the route found for a request is the newest one
  still registered for its method and path, as in a table in which every key has a stack of
  handlers.\<close>

theorem routes_refine_stacks:
  assumes "routes_ok s" and "rq_path rq = Some p"
  shows "\<exists>rt. find_matching_route rq (run_table route_put route_pop ops s) = Ret rt
    \<and> map_option (\<lambda>r. (route_handler r, route_user_data r)) rt
      = newest (run_table stack_put stack_pop ops (route_bindings s) (rq_method rq, p))"
  using route_table.bindings_run [OF assms(1), of ops]
    find_matching_ok [of "run_table route_put route_pop ops s", OF _ assms(2)] by simp

definition demo_server :: "unit http_state" where
  "demo_server = \<lparr>http_data = Some \<lparr>http_conf = http_default_config, routes = [], route_count = 0, routes_mutex = Mutex_free,
       json_parser_fn = None, json_parser_user_data = 0\<rparr>,
     client_pool = [], active_clients = 0, client_pool_mutex = Mutex_free, next_client = 1, closing = [], sent = [],
     listening = True, world = (), http_answers = []\<rparr>"

theorem routes_refine_stacks_witness:
  "\<exists>rt. find_matching_route (no_request\<lparr>rq_path := Some ''/a''\<rparr>)
      (run_table route_put route_pop [Set (HTTP_METHOD_GET, ''/a'') (\<lambda>q r u w as. Ret (0, r, w, as), 1),
         Set (HTTP_METHOD_GET, ''/a'') (\<lambda>q r u w as. Ret (1, r, w, as), 2), Del (HTTP_METHOD_GET, ''/a'')] demo_server) = Ret (Some rt)
    \<and> route_user_data rt = 1"
  using routes_refine_stacks [of demo_server "no_request\<lparr>rq_path := Some ''/a''\<rparr>" "''/a''"
      "[Set (HTTP_METHOD_GET, ''/a'') (\<lambda>q r u w as. Ret (0, r, w, as), 1),
        Set (HTTP_METHOD_GET, ''/a'') (\<lambda>q r u w as. Ret (1, r, w, as), 2), Del (HTTP_METHOD_GET, ''/a'')]"]
  by (auto simp: routes_ok_def demo_server_def no_request_def stack_put_def stack_pop_def newest_def route_bindings_def)

section \<open>Responses\<close>

text \<open>The header lines of a response, each cut at 255 bytes.\<close>

definition response_lines :: "http_response \<Rightarrow> string list" where
  "response_lines rs =
     (case rs_content_type rs of None \<Rightarrow> [] | Some ct \<Rightarrow> [''Content-Type: '' @ ct @ CRLF])
     @ (case rs_body rs of None \<Rightarrow> [] | Some b \<Rightarrow> [''Content-Length: '' @ print_nat (length b) @ CRLF])
     @ map (\<lambda>h. the (fst h) @ '': '' @ the (snd h) @ CRLF) (rs_headers rs)"

definition response_headers :: "http_response \<Rightarrow> string" where
  "response_headers rs = concat (map (take 255) (response_lines rs)) @ CRLF"

definition response_ok :: "http_response \<Rightarrow> bool" where
  "response_ok rs \<longleftrightarrow> list_all (\<lambda>h. fst h \<noteq> None \<and> snd h \<noteq> None) (rs_headers rs)
     \<and> (\<forall>b. rs_body rs = Some b \<longrightarrow> rs_body_length rs = length b)"

definition fits :: "string \<Rightarrow> string outcome" where
  "fits t = (if length t < HEADERS_BUFFER then Ret t else Fault Out_of_bounds)"

lemma append_header_fits:
  "obind (fits a) (\<lambda>b. append_header b l) = fits (a @ take 255 l)"
  by (auto simp: append_header_def strcat_buf_def snprintf_text_def fits_def)

lemma custom_headers_fit:
  "list_all (\<lambda>h. fst h \<noteq> None \<and> snd h \<noteq> None) hs \<Longrightarrow>
   obind (fits a) (append_custom_headers hs)
     = fits (a @ concat (map (\<lambda>h. take 255 (the (fst h) @ '': '' @ the (snd h) @ CRLF)) hs))"
proof (induction hs arbitrary: a)
  case Nil
  then show ?case by (cases "fits a") auto
next
  case (Cons h hs)
  then obtain n v where h: "h = (Some n, Some v)" by (cases h) auto
  have "obind (fits a) (append_custom_headers (h # hs))
      = obind (obind (fits a) (\<lambda>b. append_header b (n @ '': '' @ v @ CRLF))) (append_custom_headers hs)"
    using h by (cases "fits a") auto
  with Cons h show ?case by (simp only: append_header_fits) simp
qed

lemma strcat_fits: "obind (fits a) (\<lambda>b. strcat_buf HEADERS_BUFFER b t) = fits (a @ t)"
  by (auto simp: strcat_buf_def fits_def)

lemma headers_text_fits:
  assumes "response_ok rs"
  shows "headers_text rs = fits (response_headers rs)"
proof -
  have e: "fits [] = Ret []" by (simp add: fits_def HEADERS_BUFFER_def)
  define t1 where "t1 = (case rs_content_type rs of None \<Rightarrow> [] | Some ct \<Rightarrow> take 255 (''Content-Type: '' @ ct @ CRLF))"
  define t2 where "t2 = (case rs_body rs of None \<Rightarrow> t1 | Some b \<Rightarrow> t1 @ take 255 (''Content-Length: '' @ print_nat (length b) @ CRLF))"
  have "(case rs_content_type rs of None \<Rightarrow> Ret [] | Some ct \<Rightarrow> append_header [] (''Content-Type: '' @ ct @ CRLF)) = fits t1"
    using append_header_fits [of "[]"] by (cases "rs_content_type rs") (simp_all add: t1_def e)
  moreover have "obind (fits t1) (\<lambda>b1. case rs_body rs of None \<Rightarrow> Ret b1
      | Some b \<Rightarrow> append_header b1 (''Content-Length: '' @ print_nat (rs_body_length rs) @ CRLF)) = fits t2"
  proof (cases "rs_body rs")
    case None
    then show ?thesis by (cases "fits t1") (simp_all add: t2_def)
  next
    case (Some b)
    then have "rs_body_length rs = length b" using assms by (simp add: response_ok_def)
    with Some show ?thesis by (simp only: t2_def option.case append_header_fits)
  qed
  moreover have "obind (fits t2) (append_custom_headers (rs_headers rs))
      = fits (t2 @ concat (map (\<lambda>h. take 255 (the (fst h) @ '': '' @ the (snd h) @ CRLF)) (rs_headers rs)))"
    using assms by (intro custom_headers_fit) (simp add: response_ok_def)
  moreover have "t2 @ concat (map (\<lambda>h. take 255 (the (fst h) @ '': '' @ the (snd h) @ CRLF)) (rs_headers rs)) @ CRLF = response_headers rs"
    by (auto simp: t1_def t2_def response_headers_def response_lines_def comp_def split: option.split)
  ultimately show ?thesis
    unfolding headers_text_def by (simp add: obind_assoc [symmetric] strcat_fits)
qed

lemma send_response_ok:
  assumes "response_ok rs" and "http_answers s = []"
  shows "send_response i rs s =
    (if length (response_headers rs) < 1024
     then Ret (s\<lparr>sent := sent s @ [(i, status_line rs @ response_headers rs @ (case rs_body rs of None \<Rightarrow> [] | Some b \<Rightarrow> b))]\<rparr>)
     else Fault Out_of_bounds)"
proof -
  have "body_bytes rs = Ret (case rs_body rs of None \<Rightarrow> [] | Some b \<Rightarrow> b)"
    using assms(1) by (auto simp: body_bytes_def response_ok_def split: option.split)
  moreover have "http_answer s = (True, s)" using assms(2) by (simp add: http_answer_def)
  ultimately show ?thesis
    using headers_text_fits [OF assms(1)] by (simp add: send_response_def fits_def HEADERS_BUFFER_def)
qed

text \<open>C20: A response is sent whole, with the Content-Length of its body, exactly when its header lines (each cut at 255
  bytes) and the blank line take less than 1024 bytes; otherwise they overrun the buffer on the stack.\<close>

theorem response_sent_iff_headers_fit:
  assumes "response_ok rs" and "http_answers s = []"
  shows "send_response i rs s =
    (if length (response_headers rs) < 1024
     then Ret (s\<lparr>sent := sent s @ [(i, status_line rs @ response_headers rs @ (case rs_body rs of None \<Rightarrow> [] | Some b \<Rightarrow> b))]\<rparr>)
     else Fault Out_of_bounds)"
  using assms by (rule send_response_ok)

definition demo_response :: "nat \<Rightarrow> http_response" where
  "demo_response n = \<lparr>rs_status = 200, rs_content_type = None, rs_body = Some ''hi'', rs_body_length = 2,
     rs_headers = replicate n (Some ''N'', Some (replicate 300 CHR ''v''))\<rparr>"

lemma demo_response_ok: "response_ok (demo_response n)"
  by (simp add: response_ok_def demo_response_def list_all_iff)

lemma demo_response_headers:
  "response_headers (demo_response n) = ''Content-Length: 2'' @ CRLF @ concat (replicate n (''N: '' @ replicate 252 CHR ''v'')) @ CRLF"
proof -
  have "take 255 (''Content-Length: '' @ print_nat 2 @ CRLF) = ''Content-Length: 2'' @ CRLF"
    by (simp add: print_nat.simps [of 2] digit_chars CRLF_def)
  moreover have "take 255 (''N'' @ '': '' @ replicate 300 CHR ''v'' @ CRLF) = ''N: '' @ replicate 252 CHR ''v''"
    by simp
  ultimately show ?thesis
    by (simp add: response_headers_def response_lines_def demo_response_def numeral_2_eq_2 del: take_append)
qed

theorem response_sent_iff_headers_fit_witness:
  "send_response 7 (demo_response 0) demo_server = Ret (demo_server\<lparr>sent := [(7,
      ''HTTP/1.1 200 OK'' @ CRLF @ ''Content-Length: 2'' @ CRLF @ CRLF @ ''hi'')]\<rparr>)
   \<and> send_response 7 (demo_response 5) demo_server = Fault Out_of_bounds"
proof -
  have "status_line (demo_response 0) = ''HTTP/1.1 200 OK'' @ CRLF"
    by (simp add: status_line_def demo_response_def print_int_def print_nat.simps [of 200] print_nat.simps [of 20]
        print_nat.simps [of 2] digit_chars http_status_to_string_def snprintf_text_def CRLF_def)
  moreover have "length (concat (replicate n (''N: '' @ replicate 252 CHR ''v''))) = n * 255" for n
    by (induction n) simp_all
  then have "length (response_headers (demo_response n)) = 21 + n * 255" for n
    by (simp add: demo_response_headers CRLF_def)
  moreover have "response_headers (demo_response 0) = ''Content-Length: 2'' @ CRLF @ CRLF"
    by (simp add: demo_response_headers)
  moreover have "rs_body (demo_response n) = Some ''hi''" for n by (simp add: demo_response_def)
  moreover have "http_answers demo_server = []" "sent demo_server = []" by (simp_all add: demo_server_def)
  ultimately show ?thesis
    using response_sent_iff_headers_fit [OF demo_response_ok, of demo_server 7 0]
      response_sent_iff_headers_fit [OF demo_response_ok, of demo_server 7 5] by (simp add: CRLF_def)
qed

section \<open>From bytes to an answer\<close>

text \<open>A client whose buffer is empty.\<close>

definition ready :: "http_client \<Rightarrow> string \<Rightarrow> bool" where
  "ready c mem \<longleftrightarrow> read_buffer c = Some mem \<and> read_buffer_size c = length mem \<and> read_buffer_used c = 0"

text \<open>The response with the headers for other origins.\<close>

definition with_cors :: "http_config \<Rightarrow> http_response \<Rightarrow> http_response" where
  "with_cors conf rs = (if enable_cors conf then rs\<lparr>rs_headers := rs_headers rs @
     [(Some ''Access-Control-Allow-Origin'', Some (cors_origin conf)),
      (Some ''Access-Control-Allow-Methods'', Some ''GET, POST, PUT, DELETE, OPTIONS''),
      (Some ''Access-Control-Allow-Headers'', Some ''Content-Type, Authorization'')]\<rparr> else rs)"

definition response_bytes :: "http_response \<Rightarrow> string" where
  "response_bytes rs = status_line rs @ response_headers rs @ (case rs_body rs of None \<Rightarrow> [] | Some b \<Rightarrow> b)"

definition not_found_response :: http_response where
  "not_found_response = \<lparr>rs_status = 404, rs_content_type = Some ''application/json'',
     rs_body = Some (error_json 404 ''Not Found''), rs_body_length = length (error_json 404 ''Not Found''), rs_headers = []\<rparr>"

lemma add_cors_ok: "enable_cors conf \<Longrightarrow> add_cors_headers conf rs [] = (with_cors conf rs, [])"
  by (simp add: add_cors_headers_def http_add_header_def add_header_to_response_def strdup_def with_cors_def)

lemma not_found_ok: "http_send_not_found_response no_response [] = (0, not_found_response, [])"
  by (simp add: http_send_not_found_response_def http_send_error_response_def http_create_json_response_def strdup_def
      http_status_defs not_found_response_def no_response_def)

lemma create_response_handler:
  assumes "routes_ok s" and "http_data s = Some d" and "rq_path rq = Some p"
    and "newest (route_bindings s (rq_method rq, p)) = Some (h, u)"
    and "h rq no_response u (world s) [] = Ret (0, rs, w, [])"
  shows "create_http_response rq s = Ret (0, with_cors (http_conf d) rs, s\<lparr>world := w, http_answers := []\<rparr>)"
proof -
  obtain rt where rt: "find_matching_route rq s = Ret rt"
    "map_option (\<lambda>r. (route_handler r, route_user_data r)) rt = Some (h, u)"
    using find_matching_ok [OF assms(1,3)] assms(4) by auto
  then obtain r where r: "rt = Some r" "route_handler r = h" "route_user_data r = u" by (cases rt) auto
  have "http_answers s = []" using assms(1) by (auto elim: routes_okE)
  with rt(1) r assms(2,5) show ?thesis
    by (simp add: create_http_response_def run_route_def add_cors_def add_cors_ok) (simp add: with_cors_def)
qed

lemma create_response_missing:
  assumes "routes_ok s" and "http_data s = Some d" and "rq_path rq = Some p"
    and "newest (route_bindings s (rq_method rq, p)) = None"
  shows "create_http_response rq s = Ret (0, with_cors (http_conf d) not_found_response, s\<lparr>http_answers := []\<rparr>)"
proof -
  have "find_matching_route rq s = Ret None" using find_matching_ok [OF assms(1,3)] assms(4) by auto
  moreover have "http_answers s = []" using assms(1) by (auto elim: routes_okE)
  ultimately show ?thesis
    using assms(2) by (simp add: create_http_response_def run_route_def add_cors_def add_cors_ok not_found_ok) (simp add: with_cors_def)
qed

lemma not_found_headers_fit: "length (response_headers (with_cors conf not_found_response)) < 1024"
proof -
  define x where "x = take 255 (''Access-Control-Allow-Origin: '' @ cors_origin conf @ CRLF)"
  define y where "y = take 255 (''Content-Length: '' @ print_nat (length (error_json 404 ''Not Found'')) @ CRLF)"
  have "length x \<le> 255" "length y \<le> 255" by (simp_all add: x_def y_def)
  then show ?thesis
    by (auto simp: response_headers_def response_lines_def with_cors_def not_found_response_def CRLF_def x_def y_def)
qed

text \<open>What a well-formed request is, as the text that arrives.\<close>

definition request_ok :: "(char \<Rightarrow> bool) \<Rightarrow> string \<Rightarrow> string option \<Rightarrow> (string \<times> string) list \<Rightarrow> string \<Rightarrow> bool" where
  "request_ok keep p q hs b \<longleftrightarrow> (\<forall>c. keep c \<longrightarrow> url_safe c) \<and> p \<noteq> [] \<and> NUL \<notin> set p \<and> (\<forall>t. q = Some t \<longrightarrow> NUL \<notin> set t)
     \<and> list_all header_ok hs \<and> hs \<noteq> [] \<and> NUL \<notin> set b"

lemma state_answers_id: "http_answers s = [] \<Longrightarrow> s\<lparr>http_answers := []\<rparr> = s"
  by (cases s) simp

lemma read_parses:
  assumes "request_ok keep p q hs b" and "t = request_text m (url_text keep p q) hs b"
    and "client_at i s = Some n" and "ready (client_pool s ! n) mem" and "length t < length mem" and "mem ! length t = NUL"
    and "http_answers s = []"
  shows "on_client_read i (int (length t)) t junk s
    = obind (create_http_response (parsed_request m p q hs b) s) (\<lambda>(r, rs, s1).
        obind (if r = 0 then send_response (client_id (client_pool s ! n)) rs s1 else Ret s1) (\<lambda>s2.
          Ret (set_client n ((client_pool s ! n)\<lparr>read_buffer := Some (t @ drop (length t) mem), read_buffer_used := 0\<rparr>) s2)))"
proof -
  define c where "c = client_pool s ! n"
  have c: "read_buffer c = Some mem" "read_buffer_size c = length mem" "read_buffer_used c = 0"
    using assms(4) by (simp_all add: c_def ready_def)
  have "request_text m (url_text keep p q) hs b \<noteq> []" by (simp add: request_text_def CRLF_def)
  then have t: "0 < length t" "take (length t) t = t" using assms(2) by auto
  have "t @ drop (length t) mem = t @ NUL # drop (Suc (length t)) mem"
    using assms(5,6) by (simp add: Cons_nth_drop_Suc [symmetric])
  then have p: "parse_http_request (Some (t @ drop (length t) mem)) (length t) [] = Ret (0, parsed_request m p q hs b, [])"
    using parse_whole_request [of keep p q hs b m "drop (Suc (length t)) mem"] assms(1,2) by (simp add: request_ok_def)
  have "extend_buffer (length t) junk c [] = (Some c, [])" using assms(5) c by (simp add: extend_buffer_def)
  moreover have "put_bytes 0 t mem = Ret (t @ drop (length t) mem)" using assms(5) by (simp add: put_bytes_def)
  ultimately show ?thesis
    using t p assms(3) c
    by (simp add: on_client_read_def process_buffer_def c_def [symmetric] assms(7) state_answers_id cong: if_cong)
qed

lemma read_dispatches:
  assumes "request_ok keep p q hs b" and "t = request_text m (url_text keep p q) hs b"
    and "client_at i s = Some n" and "ready (client_pool s ! n) mem" and "length t < length mem" and "mem ! length t = NUL"
    and "http_answers s = []" and "create_http_response (parsed_request m p q hs b) s = Ret (0, rs, s1)"
    and "response_ok rs" and "length (response_headers rs) < 1024" and "http_answers s1 = []"
  shows "on_client_read i (int (length t)) t junk s
    = Ret (set_client n ((client_pool s ! n)\<lparr>read_buffer := Some (t @ drop (length t) mem), read_buffer_used := 0\<rparr>)
        (s1\<lparr>sent := sent s1 @ [(client_id (client_pool s ! n), response_bytes rs)]\<rparr>))"
  using send_response_ok [OF assms(9,11)] assms(8,10)
  by (simp add: read_parses [OF assms(1-7)] response_bytes_def)

text \<open>A server with one idle connection and one route.\<close>

definition demo_handler :: "unit http_route_handler" where
  "demo_handler rq rs u w as = Ret (0, demo_response 0, w, as)"

definition demo_connected :: "unit http_state" where
  "demo_connected = demo_server\<lparr>client_pool := [\<lparr>client_id = 0, read_buffer = Some (replicate 4096 NUL),
       read_buffer_size = 4096, read_buffer_used = 0\<rparr>], active_clients := 1,
     http_data := Some \<lparr>http_conf = http_default_config, routes = [\<lparr>route_method = HTTP_METHOD_GET, route_path = Some ''/x'',
       route_handler = demo_handler, route_user_data = 0\<rparr>], route_count = 1, routes_mutex = Mutex_free,
       json_parser_fn = None, json_parser_user_data = 0\<rparr>\<rparr>"

definition demo_request :: "string \<Rightarrow> string" where
  "demo_request p = request_text HTTP_METHOD_GET (url_text url_safe p None) [(''Host'', ''h'')] []"

lemma demo_connected:
  "routes_ok demo_connected" "client_at 0 demo_connected = Some 0" "ready (client_pool demo_connected ! 0) (replicate 4096 NUL)"
  "http_data demo_connected = Some (the (http_data demo_connected))" "sent demo_connected = []"
  "client_id (client_pool demo_connected ! 0) = 0"
  "http_conf (the (http_data demo_connected)) = http_default_config"
  by (simp_all add: demo_connected_def demo_server_def routes_ok_def client_at_def ready_def)

lemma demo_request_ok: "p \<noteq> [] \<Longrightarrow> NUL \<notin> set p \<Longrightarrow> request_ok url_safe p None [(''Host'', ''h'')] []"
  by (auto simp: request_ok_def header_ok_def header_text_def line_ok_def NUL_def CR_def NL_def)

lemma demo_request_length: "length (demo_request ''/x'') < 4096" "length (demo_request ''/y'') < 4096"
  by (simp_all add: demo_request_def request_text_def request_line_def url_text_def url_encode_def encode_char_def
      header_text_def CRLF_def)

lemma demo_replies_fit:
  "response_ok (with_cors http_default_config (demo_response 0))"
  "length (response_headers (with_cors http_default_config (demo_response 0))) < 1024"
  by (simp_all add: response_ok_def with_cors_def http_default_config_def demo_response_def response_headers_def
      response_lines_def CRLF_def print_nat.simps)

text \<open>C16: A well-formed request that arrives in one piece on an idle connection is answered by the newest handler
  registered for its method and path: the handler gets the parsed request, and its response goes out with the
  headers for other origins, on the same connection. Needed are a NUL behind the request in the buffer and
  headers that fit.\<close>

theorem request_reaches_handler:
  assumes "routes_ok s" and "http_data s = Some d" and "client_at i s = Some n" and "ready (client_pool s ! n) mem"
    and "request_ok keep p q hs b" and "t = request_text m (url_text keep p q) hs b"
    and "length t < length mem" and "mem ! length t = NUL"
    and "newest (route_bindings s (m, p)) = Some (h, u)"
    and "h (parsed_request m p q hs b) no_response u (world s) [] = Ret (0, rs, w, [])"
    and "response_ok (with_cors (http_conf d) rs)" and "length (response_headers (with_cors (http_conf d) rs)) < 1024"
  shows "on_client_read i (int (length t)) t junk s
    = Ret (set_client n ((client_pool s ! n)\<lparr>read_buffer := Some (t @ drop (length t) mem), read_buffer_used := 0\<rparr>)
        (s\<lparr>world := w, http_answers := [],
           sent := sent s @ [(client_id (client_pool s ! n), response_bytes (with_cors (http_conf d) rs))]\<rparr>))"
proof -
  have a: "http_answers s = []" using assms(1) by (auto elim: routes_okE)
  then have "create_http_response (parsed_request m p q hs b) s
      = Ret (0, with_cors (http_conf d) rs, s\<lparr>world := w, http_answers := []\<rparr>)"
    using create_response_handler [OF assms(1,2), of "parsed_request m p q hs b" p h u rs w] assms(9,10)
    by (simp add: parsed_request_def state_answers_id)
  from read_dispatches [OF assms(5,6,3,4,7,8) a this assms(11,12)] show ?thesis by simp
qed

theorem request_reaches_handler_witness:
  "\<exists>s. on_client_read 0 (int (length (demo_request ''/x''))) (demo_request ''/x'') [] demo_connected = Ret s
    \<and> sent s = [(0, response_bytes (with_cors http_default_config (demo_response 0)))]"
proof -
  have "newest (route_bindings demo_connected (HTTP_METHOD_GET, ''/x'')) = Some (demo_handler, 0)"
    by (simp add: newest_def route_bindings_def demo_connected_def)
  then show ?thesis
    using request_reaches_handler [OF demo_connected(1,4,2,3) demo_request_ok [of "''/x''"] demo_request_def, of demo_handler 0
        "demo_response 0" "()" "[]"] demo_request_length demo_replies_fit demo_connected(5-7)
    by (simp add: demo_handler_def NUL_def set_client_def)
qed

text \<open>A well-formed request for a path without a route is answered with status 404 on its
  connection, whatever the origin the server allows.\<close>

theorem unknown_path_gets_404:
  assumes "routes_ok s" and "http_data s = Some d" and "client_at i s = Some n" and "ready (client_pool s ! n) mem"
    and "request_ok keep p q hs b" and "t = request_text m (url_text keep p q) hs b"
    and "length t < length mem" and "mem ! length t = NUL"
    and "route_bindings s (m, p) = []"
  shows "on_client_read i (int (length t)) t junk s
    = Ret (set_client n ((client_pool s ! n)\<lparr>read_buffer := Some (t @ drop (length t) mem), read_buffer_used := 0\<rparr>)
        (s\<lparr>http_answers := [],
           sent := sent s @ [(client_id (client_pool s ! n), response_bytes (with_cors (http_conf d) not_found_response))]\<rparr>))"
proof -
  have a: "http_answers s = []" using assms(1) by (auto elim: routes_okE)
  then have c: "create_http_response (parsed_request m p q hs b) s
      = Ret (0, with_cors (http_conf d) not_found_response, s\<lparr>http_answers := []\<rparr>)"
    using create_response_missing [OF assms(1,2), of "parsed_request m p q hs b" p] assms(9)
    by (simp add: parsed_request_def state_answers_id newest_def)
  have "response_ok (with_cors (http_conf d) not_found_response)"
    by (simp add: response_ok_def with_cors_def not_found_response_def)
  moreover have "length (response_headers (with_cors (http_conf d) not_found_response)) < 1024"
    by (simp add: not_found_headers_fit)
  ultimately show ?thesis using read_dispatches [OF assms(5,6,3,4,7,8) a c] by simp
qed

theorem unknown_path_gets_404_witness:
  "\<exists>s. on_client_read 0 (int (length (demo_request ''/y''))) (demo_request ''/y'') [] demo_connected = Ret s
    \<and> sent s = [(0, response_bytes (with_cors http_default_config not_found_response))]"
proof -
  have "route_bindings demo_connected (HTTP_METHOD_GET, ''/y'') = []"
    by (simp add: route_bindings_def demo_connected_def)
  then show ?thesis
    using unknown_path_gets_404 [OF demo_connected(1,4,2,3) demo_request_ok [of "''/y''"] demo_request_def, of "[]"]
      demo_request_length demo_connected(5-7)
    by (simp add: NUL_def set_client_def)
qed

section \<open>What the buffer holds\<close>

text \<open>A read that brings more than what is free in twice the buffer writes past its end: the buffer is
  doubled only once. The allocation for a read is as large as libuv suggests, not as the buffer.\<close>

theorem large_read_overruns:
  assumes "client_at i s = Some n" and "read_buffer (client_pool s ! n) = Some mem"
    and "read_buffer_size (client_pool s ! n) = length mem" and "http_answers s = []"
    and "read_buffer_used (client_pool s ! n) \<le> length mem"
    and "2 * length mem < read_buffer_used (client_pool s ! n) + length base"
  shows "on_client_read i (int (length base)) base junk s = Fault Out_of_bounds"
proof -
  define c where "c = client_pool s ! n"
  have "base \<noteq> []" using assms(5,6) by auto
  moreover have "extend_buffer (length base) junk c [] = (Some (c\<lparr>read_buffer := Some (resize_block (length mem * 2) junk (Some mem)),
      read_buffer_size := length mem * 2\<rparr>), [])"
    using assms(2,3,6) by (simp add: extend_buffer_def c_def)
  moreover have "put_bytes (read_buffer_used c) base (resize_block (length mem * 2) junk (Some mem)) = Fault Out_of_bounds"
    using assms(6) by (simp add: put_bytes_def c_def)
  ultimately show ?thesis using assms(1,4) by (simp add: on_client_read_def c_def [symmetric])
qed

theorem large_read_overruns_witness:
  "on_client_read 0 8193 (replicate 8193 CHR ''A'') [] demo_connected = Fault Out_of_bounds"
proof -
  have "read_buffer (client_pool demo_connected ! 0) = Some (replicate 4096 NUL)"
    "read_buffer_size (client_pool demo_connected ! 0) = 4096" "read_buffer_used (client_pool demo_connected ! 0) = 0"
    "http_answers demo_connected = []"
    by (simp_all add: demo_connected_def demo_server_def)
  with large_read_overruns [OF demo_connected(2), of "replicate 4096 NUL" "replicate 8193 CHR ''A''" "[]"]
  show ?thesis by simp
qed

section \<open>The pool of connections\<close>

definition buffer_ok :: "http_client \<Rightarrow> bool" where
  "buffer_ok c \<longleftrightarrow> read_buffer_used c \<le> read_buffer_size c
     \<and> (\<forall>mem. read_buffer c = Some mem \<longrightarrow> length mem = read_buffer_size c)"

definition pool_ok :: "'w http_state \<Rightarrow> bool" where
  "pool_ok s \<longleftrightarrow> distinct (map client_id (client_pool s)) \<and> (\<forall>c \<in> set (client_pool s). client_id c < next_client s)
     \<and> active_clients s = int (length (client_pool s)) \<and> list_all buffer_ok (client_pool s)
     \<and> distinct (closing s) \<and> set (closing s) \<subseteq> client_id ` set (client_pool s)"

text \<open>The events of the loop: a connection, bytes on an open connection, and the end of a closing one.\<close>

inductive http_event :: "'w http_state \<Rightarrow> 'w http_state \<Rightarrow> bool" where
  connection: "on_new_connection status accept junk s = Ret s' \<Longrightarrow> http_event s s'"
| bytes: "i \<in> client_id ` set (client_pool s) \<Longrightarrow> i \<notin> set (closing s) \<Longrightarrow> nread \<le> int (length base)
    \<Longrightarrow> on_client_read i nread base junk s = Ret s' \<Longrightarrow> http_event s s'"
| closed_connection: "i \<in> set (closing s) \<Longrightarrow> on_client_close i s = Ret s' \<Longrightarrow> http_event s s'"

inductive http_events :: "'w http_state \<Rightarrow> 'w http_state \<Rightarrow> bool" where
  none: "http_events s s"
| more: "http_events s t \<Longrightarrow> http_event t u \<Longrightarrow> http_events s u"

text \<open>What the pool's invariant speaks about.\<close>

definition same_pool :: "'w http_state \<Rightarrow> 'w http_state \<Rightarrow> bool" where
  "same_pool s t \<longleftrightarrow> client_pool t = client_pool s \<and> next_client t = next_client s \<and> active_clients t = active_clients s
     \<and> closing t = closing s"

lemma same_pool_ok: "same_pool s t \<Longrightarrow> pool_ok s \<Longrightarrow> pool_ok t"
  by (simp add: same_pool_def pool_ok_def)

lemma same_pool_trans: "same_pool s t \<Longrightarrow> same_pool t u \<Longrightarrow> same_pool s u"
  by (simp add: same_pool_def)

lemma same_pool_answer: "http_answer s = (ok, t) \<Longrightarrow> same_pool s t"
  by (auto simp: http_answer_def same_pool_def split: prod.splits)

lemma create_response_pool: "create_http_response rq s = Ret (r, rs, t) \<Longrightarrow> same_pool s t"
proof -
  assume "create_http_response rq s = Ret (r, rs, t)"
  then obtain route rs0 s1 where s1: "run_route rq route s = Ret (rs0, s1)" "add_cors rs0 s1 = (rs, t)"
    by (auto simp: create_http_response_def split: prod.splits)
  have "same_pool s s1"
  proof (cases route)
    case None
    then show ?thesis using s1(1)
      by (cases "http_send_not_found_response no_response (http_answers s)") (auto simp: run_route_def same_pool_def)
  next
    case (Some rt)
    then show ?thesis
    proof (cases "route_handler rt rq no_response (route_user_data rt) (world s) (http_answers s)")
      case (Ret x)
      with Some s1(1) show ?thesis
        by (cases x) (auto simp: run_route_def same_pool_def split: if_splits prod.splits)
    qed (use Some s1(1) in \<open>simp add: run_route_def\<close>)
  qed
  moreover have "same_pool s1 t" using s1(2) by (auto simp: add_cors_def same_pool_def split: option.splits if_splits prod.splits)
  ultimately show ?thesis by (rule same_pool_trans)
qed

lemma send_response_pool: "send_response i rs s = Ret t \<Longrightarrow> same_pool s t"
proof -
  assume t: "send_response i rs s = Ret t"
  obtain ok s1 ok2 s2 where a: "http_answer s = (ok, s1)" "http_answer s1 = (ok2, s2)" by (meson surj_pair)
  with t same_pool_answer [OF a(1)] same_pool_answer [OF a(2)] show ?thesis
    by (auto simp: send_response_def same_pool_def split: if_splits)
qed

lemma process_buffer_pool:
  assumes "process_buffer n c s = Ret t"
  shows "\<exists>u c'. same_pool s u \<and> t = set_client n c' u \<and> (c' = c \<or> c' = c\<lparr>read_buffer_used := 0\<rparr>)"
proof -
  obtain r rq as where p: "parse_http_request (read_buffer c) (read_buffer_used c) (http_answers s) = Ret (r, rq, as)"
    using assms by (auto simp: process_buffer_def)
  have a: "same_pool s (s\<lparr>http_answers := as\<rparr>)" by (simp add: same_pool_def)
  show ?thesis
  proof (cases "r = 0")
    case True
    with assms p obtain r2 rs s2 s3 where s: "create_http_response rq (s\<lparr>http_answers := as\<rparr>) = Ret (r2, rs, s2)"
        "(if r2 = 0 then send_response (client_id c) rs s2 else Ret s2) = Ret s3" "t = set_client n (c\<lparr>read_buffer_used := 0\<rparr>) s3"
      by (auto simp: process_buffer_def)
    have "same_pool s2 s3" using s(2) send_response_pool [of _ rs s2 s3] by (auto simp: same_pool_def split: if_splits)
    with a create_response_pool [OF s(1)] have "same_pool s s3" by (meson same_pool_trans)
    with s(3) show ?thesis by blast
  next
    case False
    with assms p a show ?thesis by (auto simp: process_buffer_def)
  qed
qed

lemma map_id_update: "n < length xs \<Longrightarrow> f c = f (xs ! n) \<Longrightarrow> map f (xs[n := c]) = map f xs"
  by (simp add: map_update list_update_same_conv)

lemma set_client_ok:
  assumes "pool_ok s" and "n < length (client_pool s)" and "client_id c = client_id (client_pool s ! n)" and "buffer_ok c"
  shows "pool_ok (set_client n c s)"
proof -
  have m: "map client_id ((client_pool s)[n := c]) = map client_id (client_pool s)"
    using assms(2,3) by (rule map_id_update)
  then have "client_id ` set ((client_pool s)[n := c]) = client_id ` set (client_pool s)" by (metis set_map)
  moreover have "list_all buffer_ok ((client_pool s)[n := c])"
    using assms(1,4) set_update_subset_insert [of "client_pool s" n c] by (auto simp: pool_ok_def list_all_iff)
  moreover have "\<forall>d \<in> set ((client_pool s)[n := c]). client_id d < next_client s"
    using assms set_update_subset_insert [of "client_pool s" n c] by (fastforce simp: pool_ok_def)
  ultimately show ?thesis using assms(1) m by (simp add: pool_ok_def set_client_def)
qed

lemma client_atD: "client_at i s = Some n \<Longrightarrow> n < length (client_pool s) \<and> client_id (client_pool s ! n) = i"
  by (auto simp: client_at_def dest: find_idx_SomeD)

lemma extend_buffer_ok:
  "extend_buffer n junk c as = (Some c', as') \<Longrightarrow> buffer_ok c \<Longrightarrow>
   client_id c' = client_id c \<and> read_buffer_used c' = read_buffer_used c \<and> buffer_ok c'"
  by (auto simp: extend_buffer_def buffer_ok_def split: if_splits prod.splits)

lemma read_pool_ok:
  assumes "pool_ok s" and "i \<in> client_id ` set (client_pool s)" and "i \<notin> set (closing s)" and "nread \<le> int (length base)"
    and "on_client_read i nread base junk s = Ret t"
  shows "pool_ok t"
proof -
  obtain n where n: "client_at i s = Some n" using assms(5) by (auto simp: on_client_read_def split: option.splits)
  note c = client_atD [OF n]
  have closed: "pool_ok (uv_close_client i (s\<lparr>http_answers := as\<rparr>))" for as
    using assms(1-3) by (auto simp: pool_ok_def uv_close_client_def)
  have "pool_ok (uv_close_client i s)" using assms(1-3) by (auto simp: pool_ok_def uv_close_client_def)
  consider "nread \<le> 0" | "0 < nread" "fst (extend_buffer (nat nread) junk (client_pool s ! n) (http_answers s)) = None"
    | c' as where "0 < nread" "extend_buffer (nat nread) junk (client_pool s ! n) (http_answers s) = (Some c', as)"
    by (cases "extend_buffer (nat nread) junk (client_pool s ! n) (http_answers s)") (metis fst_conv linorder_not_less option.exhaust)
  then show ?thesis
  proof cases
    case 1
    with assms(1,5) n \<open>pool_ok (uv_close_client i s)\<close> show ?thesis by (auto simp: on_client_read_def split: if_splits)
  next
    case 2
    with assms(5) n closed show ?thesis by (auto simp: on_client_read_def split: prod.splits)
  next
    case 3
    with assms(5) n obtain mem mem1 where m: "read_buffer c' = Some mem"
        "put_bytes (read_buffer_used c') (take (nat nread) base) mem = Ret mem1"
        "process_buffer n (c'\<lparr>read_buffer := Some mem1, read_buffer_used := read_buffer_used c' + nat nread\<rparr>)
           (s\<lparr>http_answers := as\<rparr>) = Ret t"
      by (auto simp: on_client_read_def split: option.splits)
    define c2 where "c2 = c'\<lparr>read_buffer := Some mem1, read_buffer_used := read_buffer_used c' + nat nread\<rparr>"
    have "buffer_ok (client_pool s ! n)" using assms(1) c by (simp add: pool_ok_def list_all_length)
    then have c': "client_id c' = client_id (client_pool s ! n)" "buffer_ok c'" using extend_buffer_ok [OF 3(2)] by auto
    have "length (take (nat nread) base) = nat nread" using assms(4) 3(1) by (simp add: nat_le_iff)
    then have "buffer_ok c2 \<and> buffer_ok (c2\<lparr>read_buffer_used := 0\<rparr>)"
      using m(1,2) c'(2) length_put_bytes [OF m(2)]
      by (auto simp: c2_def buffer_ok_def put_bytes_def split: if_splits)
    moreover obtain u c3 where u: "same_pool s u" "t = set_client n c3 u" "c3 = c2 \<or> c3 = c2\<lparr>read_buffer_used := 0\<rparr>"
      using process_buffer_pool [OF m(3)] by (auto simp: c2_def same_pool_def)
    ultimately show ?thesis
      using set_client_ok [OF same_pool_ok [OF u(1) assms(1)], of n c3] c c' u by (auto simp: same_pool_def c2_def)
  qed
qed

lemma close_pool_ok:
  assumes "pool_ok s" and "i \<in> set (closing s)" and "on_client_close i s = Ret t"
  shows "pool_ok t"
proof -
  obtain n where n: "client_at i s = Some n" using assms(3) by (auto simp: on_client_close_def split: option.splits)
  define xs where "xs = take n (client_pool s) @ drop (Suc n) (client_pool s)"
  note c = client_atD [OF n]
  have split: "client_pool s = take n (client_pool s) @ client_pool s ! n # drop (Suc n) (client_pool s)"
    using c by (simp add: id_take_nth_drop)
  have d: "distinct (map client_id (take n (client_pool s) @ client_pool s ! n # drop (Suc n) (client_pool s)))"
    using assms(1) split by (simp add: pool_ok_def)
  then have x: "distinct (map client_id xs)" "i \<notin> client_id ` set xs" using c by (auto simp: xs_def)
  have y: "set (client_pool s) = insert (client_pool s ! n) (set xs)" using arg_cong [OF split, of set] by (auto simp: xs_def)
  have "t = s\<lparr>client_pool := xs, active_clients := active_clients s - 1, closing := remove1 i (closing s)\<rparr>"
    using assms(3) n by (auto simp: on_client_close_def xs_def critical_def)
  moreover have "int (length xs) = int (length (client_pool s)) - 1" using c by (auto simp: xs_def)
  moreover have "set (closing s) - {i} \<subseteq> client_id ` set xs" using assms(1) y c by (auto simp: pool_ok_def)
  ultimately show ?thesis
    using assms(1) x y by (auto simp: pool_ok_def list_all_iff of_nat_diff)
qed

lemma connect_pool_ok:
  assumes "pool_ok s" and "on_new_connection status accept junk s = Ret t"
  shows "pool_ok t"
proof -
  obtain ok s1 ok2 s2 where a: "http_answer s = (ok, s1)" "http_answer s1 = (ok2, s2)" by (meson surj_pair)
  have p: "pool_ok s1" "pool_ok s2"
    using assms(1) a by (meson same_pool_answer same_pool_ok)+
  define c where "c = \<lparr>client_id = next_client s2, read_buffer = (if ok2 then Some (fresh_block 4096 junk) else None),
     read_buffer_size = 4096, read_buffer_used = 0\<rparr>"
  consider "t = s" | "t = s1" | "t = s2"
    | "t = s2\<lparr>next_client := next_client s2 + 1, client_pool := c # client_pool s2, active_clients := active_clients s2 + 1\<rparr>"
    using assms(2) a by (auto simp: on_new_connection_def critical_def c_def split: if_splits)
  then show ?thesis
  proof cases
    case 4
    have "buffer_ok c" by (simp add: buffer_ok_def c_def)
    moreover have "client_id c = next_client s2" by (simp add: c_def)
    ultimately show ?thesis using p(2) 4 by (auto simp: pool_ok_def)
  qed (use assms(1) p in simp_all)
qed

text \<open>C21: Under every sequence of connections, reads (of any size that does not fault) and closings, clients have distinct
  numbers, the counter is the length of the pool, every buffer has its noted size and holds no more than
  that, and every closing client is still in the pool.\<close>

theorem connections_stay_consistent:
  assumes "http_events s t" and "pool_ok s"
  shows "pool_ok t"
  using assms
proof (induction rule: http_events.induct)
  case (more s t u)
  from more.hyps(2) more.IH [OF more.prems] show ?case
    by (cases rule: http_event.cases) (auto intro: connect_pool_ok read_pool_ok close_pool_ok)
qed

lemma demo_pool: "pool_ok demo_connected"
  by (simp add: pool_ok_def demo_connected_def demo_server_def buffer_ok_def)

lemma demo_close_event: "http_events demo_connected (uv_close_client 0 demo_connected)"
proof (rule http_events.more [OF http_events.none], rule http_event.bytes)
  show "on_client_read 0 (- 1) [] [] demo_connected = Ret (uv_close_client 0 demo_connected)"
    using demo_connected(2) by (simp add: on_client_read_def)
qed (simp_all add: demo_connected_def demo_server_def)

theorem connections_stay_consistent_witness: "pool_ok (uv_close_client 0 demo_connected)"
  using connections_stay_consistent [OF demo_close_event demo_pool] .

text \<open>The module's cleanup leaves the connections open: when one of them closes afterwards, or a new one is
  accepted, the code locks the mutex that the cleanup has destroyed.\<close>

theorem cleanup_strands_connections:
  assumes "http_module_cleanup True s = Ret (0, t)" and "i \<in> client_id ` set (client_pool s)" and "http_answers s = []"
  shows "client_pool t = client_pool s \<and> on_client_close i t = Fault Bad_mutex \<and> on_new_connection 0 0 junk t = Fault Bad_mutex"
proof -
  obtain s1 where s1: "http_clear_routes s = Ret s1" "t = s1\<lparr>client_pool_mutex := Mutex_dead, http_data := None\<rparr>"
    using assms(1) by (auto simp: http_module_cleanup_def split: if_splits)
  have "client_pool s1 = client_pool s" "http_answers s1 = []"
    using s1(1) assms(3) by (auto simp: http_clear_routes_def critical_def split: option.splits)
  moreover from this have "client_at i t \<noteq> None"
    using assms(2) s1(2) by (auto simp: client_at_def find_idx_None)
  ultimately show ?thesis
    using s1(2) by (auto simp: on_client_close_def on_new_connection_def http_answer_def)
qed

theorem cleanup_strands_connections_witness:
  "\<exists>t. http_module_cleanup True demo_connected = Ret (0, t) \<and> on_client_close 0 t = Fault Bad_mutex"
proof -
  obtain t where "http_module_cleanup True demo_connected = Ret (0, t)"
    by (simp add: http_module_cleanup_def http_clear_routes_def demo_connected_def)
  then show ?thesis
    using cleanup_strands_connections [of demo_connected t 0 "[]"] by (auto simp: demo_connected_def demo_server_def)
qed

end
