(* ===== verification/Json_Answers.thy ===== *)
theory Json_Answers
  imports Json_Parser
begin

text \<open>
  A run of the JSON parser in which no allocation fails so far (the list of answers is empty) stays one.
\<close>

lemma strdup_nil [simp]: "strdup s [] = (Some s, [])"
  by (simp add: strdup_def)

definition calm :: "('a \<times> answers) outcome \<Rightarrow> bool" where
  "calm m \<longleftrightarrow> (\<forall>x as. m = Ret (x, as) \<longrightarrow> as = [])"

lemma calm_simps [simp]: "calm (Ret (x, as)) \<longleftrightarrow> as = []" "calm (Fault e)"
  by (simp_all add: calm_def)

lemma calm_obind: "calm m \<Longrightarrow> (\<And>x. calm (f (x, []))) \<Longrightarrow> calm (obind m f)"
  by (cases m) (auto simp: calm_def)

lemma clone_calm: "calm (clone_data v [])"
proof (induction v)
  case (Json_string s)
  then show ?case by (cases s) simp_all
next
  case (Json_array a)
  have vals: "list_all (\<lambda>v. calm (clone_data v [])) vs \<Longrightarrow> calm (clone_values vs [])" for vs
    by (induction vs) (auto intro!: calm_obind)
  show ?case
  proof (cases a)
    case (Some st)
    with Json_array vals show ?thesis by (cases st) (auto simp: list_all_iff intro!: calm_obind)
  qed simp
next
  case (Json_object a)
  have pairs: "list_all (\<lambda>p. calm (clone_data (snd p) [])) ps \<Longrightarrow> calm (clone_pairs ps [])" for ps
    by (induction ps) (auto intro!: calm_obind split: option.splits)
  show ?case
  proof (cases a)
    case (Some st)
    with Json_object pairs show ?thesis by (cases st) (fastforce simp: list_all_iff intro!: calm_obind)+
  qed simp
qed simp_all

lemma json_clone_nil: "json_clone v [] = Ret (w, as) \<Longrightarrow> as = []"
  using clone_calm by (auto simp: json_clone_def calm_def split: option.splits)

lemma expand_nil: "expand_capacity st [] = Ret (r, st1, as) \<Longrightarrow> as = []"
  by (auto simp: expand_capacity_def Let_def split: storage.splits if_splits)

lemma object_set_nil: "json_object_set v k x [] = Ret (r, v1, as) \<Longrightarrow> as = []"
  by (auto simp: json_object_set_def expand_object_capacity_def dest!: json_clone_nil expand_nil
      split: option.splits json_value.splits if_splits)

lemma array_add_nil: "json_array_add v x [] = Ret (r, v1, as) \<Longrightarrow> as = []"
  by (auto simp: json_array_add_def expand_array_capacity_def dest!: json_clone_nil expand_nil
      split: option.splits json_value.splits if_splits)

lemma create_nil [simp]:
  "json_create_bool b [] = (Some (Json_bool (b \<noteq> 0)), [])" "json_create_number x [] = (Some (Json_number x), [])"
  "json_create_string (Some s) [] = (Some (Json_string (Some s)), [])" "json_create_string None [] = (Some (Json_string None), [])"
  "json_create_array [] = (Some (Json_array (Some (Null_block 0))), [])"
  "json_create_object [] = (Some (Json_object (Some (Null_block 0))), [])"
  by (simp_all add: json_create_bool_def json_create_number_def json_create_string_def json_create_array_def
      json_create_object_def)

lemma parse_string_nil: "parse_string p [] = (r, s, q, as) \<Longrightarrow> as = []"
  by (auto simp: parse_string_def unescape_string_def Let_def split: scan.splits)

lemma parse_scalar_nil: "snd (snd (snd (parse_scalar p []))) = []"
proof -
  obtain r s q as where s: "parse_string p [] = (r, s, q, as)" by (metis prod.exhaust)
  have "snd (json_create_string s []) = []" by (cases s) simp_all
  with s parse_string_nil [OF s] show ?thesis
    by (cases "json_create_string s []") (simp add: parse_scalar_def store_def split: prod.splits)
qed

text \<open>The result of a parsing function leaves the answers empty.\<close>

definition quiet :: "parsed outcome option \<Rightarrow> bool" where
  "quiet m \<longleftrightarrow> (\<forall>r out p as. m = Some (Ret (r, out, p, as)) \<longrightarrow> as = [])"

lemma quiet_simps [simp]:
  "quiet None" "quiet (Some (Fault e))" "quiet (Some (Ret (r, out, p, as))) \<longleftrightarrow> as = []"
  "quiet (give_up v err p [])" "quiet (close_value v p [])"
  by (simp_all add: quiet_def give_up_def close_value_def)

lemma quiet_rbind: "(\<And>x. m = Some (Ret x) \<Longrightarrow> quiet (f x)) \<Longrightarrow> quiet (rbind m f)"
  by (auto simp: rbind_def split: option.splits outcome.splits)

lemma quiet_value_body:
  assumes "\<And>q. quiet (object q [])" and "\<And>q. quiet (array q [])"
  shows "quiet (value_body object array p [])"
proof -
  have "quiet (Some (Ret (parse_scalar q [])))" for q
    using parse_scalar_nil [of q] by (cases "parse_scalar q []") auto
  with assms show ?thesis by (simp add: value_body_def Let_def)
qed

lemma quiet_after_element: "(\<And>w q. quiet (loop w q [])) \<Longrightarrow> quiet (after_element c loop v p [])"
  by (simp add: after_element_def Let_def)

lemma quiet_array_round:
  assumes "\<And>q. quiet (value q [])" and "\<And>w q. quiet (loop w q [])"
  shows "quiet (array_round value loop v p [])"
proof -
  have "quiet (array_store loop v out q [])" for out q
    using assms(2)
    by (auto simp: array_store_def dest!: array_add_nil intro!: quiet_rbind quiet_after_element split: json_out.splits)
  then show ?thesis
    using assms(1) [of p] by (auto simp: array_round_def quiet_def [of "value p []"] intro!: quiet_rbind)
qed

lemma quiet_object_round:
  assumes "\<And>q. quiet (value q [])" and "\<And>w q. quiet (loop w q [])"
  shows "quiet (object_round value loop v p [])"
proof -
  have store: "quiet (object_store loop v key out q [])" for key out q
    using assms(2)
    by (auto simp: object_store_def dest!: object_set_nil intro!: quiet_rbind quiet_after_element split: json_out.splits)
  obtain r key p2 as1 where s: "parse_string (skip_whitespace p) [] = (r, key, p2, as1)" by (metis prod.exhaust)
  have "quiet (rbind (value q []) (\<lambda>(r2, out, p4, as2).
      if r2 \<noteq> 0 then give_up v None p4 as2 else object_store loop v key out p4 as2))" for q
    using assms(1) [of q] store by (auto simp: quiet_def [of "value q []"] intro!: quiet_rbind)
  then show ?thesis using parse_string_nil [OF s] by (simp add: object_round_def s Let_def)
qed

lemma parser_quiet:
  "quiet (parse_value n p []) \<and> quiet (parse_object n p []) \<and> quiet (object_loop n v p [])
   \<and> quiet (parse_array n p []) \<and> quiet (array_loop n v p [])"
proof (induction n arbitrary: p v)
  case (Suc n)
  then show ?case
    by (auto intro!: quiet_value_body quiet_object_round quiet_array_round simp: object_body_def array_body_def Let_def)
qed simp

lemma json_parse_nil:
  assumes "json_parse json len result [] = Some (Ret (r, var, e, as))"
  shows "as = []"
proof (cases "\<exists>tx old. json = Some tx \<and> result = Some old")
  case True
  then obtain tx old where j: "json = Some tx" "result = Some old" by blast
  then obtain r1 out p as1 where p: "parse_value (3 * len + 3) (new_parser tx len) [] = Some (Ret (r1, out, p, as1))"
    using assms by (auto simp: json_parse_def rbind_def split: option.splits outcome.splits)
  then have "as1 = []" using parser_quiet [of "3 * len + 3" "new_parser tx len"] by (auto simp: quiet_def)
  with assms j p show ?thesis
    by (auto simp: json_parse_def rbind_def Let_def split: if_splits outcome.splits)
qed (use assms in \<open>auto simp: json_parse_def split: option.splits\<close>)

end
