(* ===== verification/Http_Routes.thy ===== *)
theory Http_Routes
  imports Http_Server Json_Answers
begin

text \<open>
  The REST interface (src/http/http_routes.c): the table of users, the handlers and their
  registration. The handlers build their answers with the JSON functions of \<^verbatim>\<open>Json_Value\<close> and read bodies with the
  parser of \<^verbatim>\<open>Json_Parser\<close>, so what these do with memory decides what the interface can answer. The
  world of the HTTP module is here the table of users. Messages are UTF-8 bytes.
\<close>

section \<open>The users\<close>

record user =
  user_id :: int
  user_name :: string
  user_email :: string
  user_age :: int

text \<open>The array has three slots; \<open>user_count\<close> of them are in use.\<close>

record user_table =
  users :: "user list"
  user_count :: nat

definition initial_users :: user_table where
  "initial_users = \<lparr>users =
     [\<lparr>user_id = 1, user_name = [CHR 0xE5, CHR 0xBC, CHR 0xA0, CHR 0xE4, CHR 0xB8, CHR 0x89], user_email = ''zhangsan@example.com'', user_age = 25\<rparr>,
      \<lparr>user_id = 2, user_name = [CHR 0xE6, CHR 0x9D, CHR 0x8E, CHR 0xE5, CHR 0x9B, CHR 0x9B], user_email = ''lisi@example.com'', user_age = 30\<rparr>,
      \<lparr>user_id = 3, user_name = [CHR 0xE7, CHR 0x8E, CHR 0x8B, CHR 0xE4, CHR 0xBA, CHR 0x94], user_email = ''wangwu@example.com'', user_age = 28\<rparr>],
     user_count = 3\<rparr>"

definition find_user :: "int \<Rightarrow> user_table \<Rightarrow> nat option" where
  "find_user i w = find_idx (\<lambda>u. user_id u = i) (take (user_count w) (users w))"

section \<open>Messages\<close>

definition msg_no_memory :: string where
  "msg_no_memory = [CHR 0xE5, CHR 0x86, CHR 0x85, CHR 0xE5, CHR 0xAD, CHR 0x98, CHR 0xE5, CHR 0x88, CHR 0x86,
     CHR 0xE9, CHR 0x85, CHR 0x8D, CHR 0xE5, CHR 0xA4, CHR 0xB1, CHR 0xE8, CHR 0xB4, CHR 0xA5]"

definition msg_no_json :: string where
  "msg_no_json = ''JSON'' @ [CHR 0xE7, CHR 0x94, CHR 0x9F, CHR 0xE6, CHR 0x88, CHR 0x90, CHR 0xE5, CHR 0xA4,
     CHR 0xB1, CHR 0xE8, CHR 0xB4, CHR 0xA5]"

definition msg_bad_path :: string where
  "msg_bad_path = [CHR 0xE6, CHR 0x97, CHR 0xA0, CHR 0xE6, CHR 0x95, CHR 0x88, CHR 0xE7, CHR 0x9A, CHR 0x84,
     CHR 0xE7, CHR 0x94, CHR 0xA8, CHR 0xE6, CHR 0x88, CHR 0xB7, CHR 0xE8, CHR 0xB7, CHR 0xAF, CHR 0xE5,
     CHR 0xBE, CHR 0x84]"

definition msg_bad_id :: string where
  "msg_bad_id = [CHR 0xE6, CHR 0x97, CHR 0xA0, CHR 0xE6, CHR 0x95, CHR 0x88, CHR 0xE7, CHR 0x9A, CHR 0x84,
     CHR 0xE7, CHR 0x94, CHR 0xA8, CHR 0xE6, CHR 0x88, CHR 0xB7] @ ''ID''"

definition msg_no_user :: string where
  "msg_no_user = [CHR 0xE7, CHR 0x94, CHR 0xA8, CHR 0xE6, CHR 0x88, CHR 0xB7, CHR 0xE4, CHR 0xB8, CHR 0x8D,
     CHR 0xE5, CHR 0xAD, CHR 0x98, CHR 0xE5, CHR 0x9C, CHR 0xA8]"

definition msg_empty_body :: string where
  "msg_empty_body = [CHR 0xE8, CHR 0xAF, CHR 0xB7, CHR 0xE6, CHR 0xB1, CHR 0x82, CHR 0xE4, CHR 0xBD, CHR 0x93,
     CHR 0xE4, CHR 0xB8, CHR 0x8D, CHR 0xE8, CHR 0x83, CHR 0xBD, CHR 0xE4, CHR 0xB8, CHR 0xBA, CHR 0xE7,
     CHR 0xA9, CHR 0xBA]"

definition msg_bad_json :: string where
  "msg_bad_json = [CHR 0xE6, CHR 0x97, CHR 0xA0, CHR 0xE6, CHR 0x95, CHR 0x88, CHR 0xE7, CHR 0x9A,
     CHR 0x84] @ ''JSON'' @ [CHR 0xE6, CHR 0xA0, CHR 0xBC, CHR 0xE5, CHR 0xBC, CHR 0x8F]"

definition msg_not_object :: string where
  "msg_not_object = [CHR 0xE8, CHR 0xAF, CHR 0xB7, CHR 0xE6, CHR 0xB1, CHR 0x82, CHR 0xE4, CHR 0xBD, CHR 0x93,
     CHR 0xE5, CHR 0xBF, CHR 0x85, CHR 0xE9, CHR 0xA1, CHR 0xBB, CHR 0xE6, CHR 0x98,
     CHR 0xAF] @ ''JSON'' @ [CHR 0xE5, CHR 0xAF, CHR 0xB9, CHR 0xE8, CHR 0xB1, CHR 0xA1]"

definition msg_missing :: string where
  "msg_missing = [CHR 0xE7, CHR 0xBC, CHR 0xBA, CHR 0xE5, CHR 0xB0, CHR 0x91, CHR 0xE5, CHR 0xBF, CHR 0x85,
     CHR 0xE9, CHR 0x9C, CHR 0x80, CHR 0xE7, CHR 0x9A, CHR 0x84, CHR 0xE5, CHR 0xAD, CHR 0x97, CHR 0xE6,
     CHR 0xAE, CHR 0xB5, CHR 0xEF, CHR 0xBC, CHR 0x9A] @ ''name, email, age''"

definition msg_invalid :: string where
  "msg_invalid = [CHR 0xE6, CHR 0x95, CHR 0xB0, CHR 0xE6, CHR 0x8D, CHR 0xAE, CHR 0xE9, CHR 0xAA, CHR 0x8C,
     CHR 0xE8, CHR 0xAF, CHR 0x81, CHR 0xE5, CHR 0xA4, CHR 0xB1, CHR 0xE8, CHR 0xB4, CHR 0xA5]"

definition msg_created :: string where
  "msg_created = [CHR 0xE7, CHR 0x94, CHR 0xA8, CHR 0xE6, CHR 0x88, CHR 0xB7, CHR 0xE5, CHR 0x88, CHR 0x9B,
     CHR 0xE5, CHR 0xBB, CHR 0xBA, CHR 0xE6, CHR 0x88, CHR 0x90, CHR 0xE5, CHR 0x8A, CHR 0x9F]"

definition msg_updated :: string where
  "msg_updated = [CHR 0xE7, CHR 0x94, CHR 0xA8, CHR 0xE6, CHR 0x88, CHR 0xB7, CHR 0xE6, CHR 0x9B, CHR 0xB4,
     CHR 0xE6, CHR 0x96, CHR 0xB0, CHR 0xE6, CHR 0x88, CHR 0x90, CHR 0xE5, CHR 0x8A, CHR 0x9F]"

definition msg_deleted :: string where
  "msg_deleted = [CHR 0xE7, CHR 0x94, CHR 0xA8, CHR 0xE6, CHR 0x88, CHR 0xB7, CHR 0xE5, CHR 0x88, CHR 0xA0,
     CHR 0xE9, CHR 0x99, CHR 0xA4, CHR 0xE6, CHR 0x88, CHR 0x90, CHR 0xE5, CHR 0x8A, CHR 0x9F]"

section \<open>Building an answer\<close>

type_synonym handled = "(int \<times> http_response \<times> user_table \<times> answers) outcome"

definition error_reply :: "http_response \<Rightarrow> http_status \<Rightarrow> string \<Rightarrow> user_table \<Rightarrow> answers \<Rightarrow> handled" where
  "error_reply rs status message w as = (case http_send_error_response rs status (Some message) as of
     (r, rs1, as1) \<Rightarrow> Ret (r, rs1, w, as1))"

definition bad_request :: "http_response \<Rightarrow> string \<Rightarrow> user_table \<Rightarrow> answers \<Rightarrow> handled" where
  "bad_request rs message w as = (case http_send_bad_request_response rs (Some message) as of
     (r, rs1, as1) \<Rightarrow> Ret (r, rs1, w, as1))"

text \<open>A member of an answer: its key and the creation of its value.\<close>

type_synonym field = "string \<times> (answers \<Rightarrow> json_value option \<times> answers)"

definition number_field :: "string \<Rightarrow> int \<Rightarrow> field" where
  "number_field k i = (k, json_create_number (Fin (of_int i)))"

definition string_field :: "string \<Rightarrow> string \<Rightarrow> field" where
  "string_field k s = (k, json_create_string (Some s))"

text \<open>\<open>json_object_set(object, key, json_create_...(...))\<close>, once per member; the results are ignored.\<close>

fun set_fields :: "json_value option \<Rightarrow> field list \<Rightarrow> answers \<Rightarrow> (json_value option \<times> answers) outcome" where
  "set_fields obj [] as = Ret (obj, as)"
| "set_fields obj ((k, mk) # fs) as = (case mk as of (v, as1) \<Rightarrow>
     obind (json_object_set obj (Some k) v as1) (\<lambda>(r, obj1, as2). set_fields obj1 fs as2))"

definition user_fields :: "user \<Rightarrow> field list" where
  "user_fields u = [number_field ''id'' (user_id u), string_field ''name'' (user_name u),
     string_field ''email'' (user_email u), number_field ''age'' (user_age u)]"

fun free_all :: "json_value option list \<Rightarrow> unit outcome" where
  "free_all [] = Ret ()"
| "free_all (v # vs) = obind (json_free v) (\<lambda>u. free_all vs)"

text \<open>Printing a value, sending the text and freeing the values: the answer itself and those that were parsed.\<close>

definition send_value ::
  "http_status \<Rightarrow> json_value option \<Rightarrow> json_value option list \<Rightarrow> http_response \<Rightarrow> user_table \<Rightarrow> answers \<Rightarrow> handled" where
  "send_value status v others rs w as = obind (json_stringify v as) (\<lambda>(t, as1). case t of
     None \<Rightarrow> obind (free_all (v # others)) (\<lambda>u. error_reply rs HTTP_STATUS_INTERNAL_SERVER_ERROR msg_no_json w as1)
   | Some text \<Rightarrow> (case http_create_json_response rs status (Some text) as1 of
       (r, rs1, as2) \<Rightarrow> obind (free_all (v # others)) (\<lambda>u. Ret (r, rs1, w, as2))))"

text \<open>An object with the given members as the answer.\<close>

definition send_object ::
  "http_status \<Rightarrow> field list \<Rightarrow> json_value option list \<Rightarrow> http_response \<Rightarrow> user_table \<Rightarrow> answers \<Rightarrow> handled" where
  "send_object status fs others rs w as = (case json_create_object as of (obj, as1) \<Rightarrow>
     if obj = None
     then obind (free_all others) (\<lambda>u. error_reply rs HTTP_STATUS_INTERNAL_SERVER_ERROR msg_no_memory w as1)
     else obind (set_fields obj fs as1) (\<lambda>(obj1, as2). send_value status obj1 others rs w as2))"

section \<open>Reading a request\<close>

text \<open>The number behind \<^verbatim>\<open>/api/users/\<close> in the path.\<close>

definition with_user_id :: "http_request \<Rightarrow> http_response \<Rightarrow> user_table \<Rightarrow> answers \<Rightarrow> (int \<Rightarrow> handled) \<Rightarrow> handled" where
  "with_user_id rq rs w as k = (case rq_path rq of
     None \<Rightarrow> Fault Null_deref
   | Some path \<Rightarrow>
       if take 11 path \<noteq> ''/api/users/'' then bad_request rs msg_bad_path w as
       else let i = atoi (drop 11 path) in
         if i \<le> 0 then bad_request rs msg_bad_id w as else k i)"

text \<open>
  \<open>json_parse\<close> of the body. The body ends with a NUL and the length noted for it may lie behind that; the
  parser passes over a NUL only inside a string, which then is not terminated within the block. That the
  parser returns at all is \<open>parser_returns\<close>.
\<close>

definition parse_body :: "string \<Rightarrow> nat \<Rightarrow> answers \<Rightarrow> (int \<times> json_out \<times> answers) outcome" where
  "parse_body b len as =
     (case json_parse (Some (b @ [NUL])) (min len (length b + 1)) (Some Unset) as of
        Some (Ret (r, Some var, e, as1)) \<Rightarrow>
          if r \<noteq> 0 \<and> e = JSON_UNTERMINATED_STRING \<and> length b + 1 < len then Fault Out_of_bounds else Ret (r, var, as1)
      | Some (Fault e) \<Rightarrow> Fault e
      | _ \<Rightarrow> Fault Self_deadlock)"

text \<open>The body as a JSON object; the continuation gets the value.\<close>

definition with_json_body ::
  "http_request \<Rightarrow> http_response \<Rightarrow> user_table \<Rightarrow> answers \<Rightarrow> (json_value option \<Rightarrow> answers \<Rightarrow> handled) \<Rightarrow> handled" where
  "with_json_body rq rs w as k = (case rq_body rq of
     None \<Rightarrow> bad_request rs msg_empty_body w as
   | Some b \<Rightarrow>
       if rq_body_length rq = 0 then bad_request rs msg_empty_body w as
       else obind (parse_body b (unat (rq_body_length rq)) as) (\<lambda>(r, var, as1).
         if r \<noteq> 0 then bad_request rs msg_bad_json w as1
         else case var of
             Unset \<Rightarrow> Fault Uninit_read
           | Points_to v \<Rightarrow>
               if \<not> json_is_object v then obind (json_free v) (\<lambda>u. bad_request rs msg_not_object w as1)
               else k v as1))"

text \<open>Comparisons of doubles: a NaN is neither below nor above.\<close>

definition age_out_of_range :: "flt \<Rightarrow> bool" where
  "age_out_of_range x = (case x of Fin q \<Rightarrow> q < 0 \<or> 150 < q | Inf neg \<Rightarrow> True | NaN \<Rightarrow> False)"

definition age_in_range :: "flt \<Rightarrow> int option" where
  "age_in_range x = (case x of Fin q \<Rightarrow> if 0 \<le> q \<and> q \<le> 150 then Some \<lfloor>q\<rfloor> else None | _ \<Rightarrow> None)"

section \<open>Handlers\<close>

fun add_users :: "user list \<Rightarrow> json_value option \<Rightarrow> answers \<Rightarrow> (json_value option \<times> answers) outcome" where
  "add_users [] arr as = Ret (arr, as)"
| "add_users (x # xs) arr as = (case json_create_object as of (obj, as1) \<Rightarrow>
     if obj = None then add_users xs arr as1
     else obind (set_fields obj (user_fields x) as1) (\<lambda>(obj1, as2).
       obind (json_array_add arr obj1 as2) (\<lambda>(r, arr1, as3).
         obind (json_free obj1) (\<lambda>u. add_users xs arr1 as3))))"

definition handle_get_users :: "user_table http_route_handler" where
  "handle_get_users rq rs user_data w as = (case json_create_array as of (arr, as1) \<Rightarrow>
     if arr = None then error_reply rs HTTP_STATUS_INTERNAL_SERVER_ERROR msg_no_memory w as1
     else obind (add_users (take (user_count w) (users w)) arr as1) (\<lambda>(arr1, as2).
       send_value HTTP_STATUS_OK arr1 [] rs w as2))"

definition handle_get_user :: "user_table http_route_handler" where
  "handle_get_user rq rs user_data w as = with_user_id rq rs w as (\<lambda>i.
     case find_user i w of
       None \<Rightarrow> error_reply rs HTTP_STATUS_NOT_FOUND msg_no_user w as
     | Some n \<Rightarrow> send_object HTTP_STATUS_OK (user_fields (users w ! n)) [] rs w as)"

text \<open>The new user is not stored.\<close>

definition handle_create_user :: "user_table http_route_handler" where
  "handle_create_user rq rs user_data w as = with_json_body rq rs w as (\<lambda>v as1.
     obind (json_object_get v (Some ''name'')) (\<lambda>name_value.
     obind (json_object_get v (Some ''email'')) (\<lambda>email_value.
     obind (json_object_get v (Some ''age'')) (\<lambda>age_value.
       if \<not> json_is_string name_value \<or> \<not> json_is_string email_value \<or> \<not> json_is_number age_value
       then obind (json_free v) (\<lambda>u. bad_request rs msg_missing w as1)
       else case json_get_string name_value of
           None \<Rightarrow> Fault Null_deref
         | Some name \<Rightarrow>
             if name = [] then obind (json_free v) (\<lambda>u. bad_request rs msg_invalid w as1)
             else case json_get_string email_value of
                 None \<Rightarrow> Fault Null_deref
               | Some email \<Rightarrow>
                   if email = [] \<or> age_out_of_range (json_get_number age_value)
                   then obind (json_free v) (\<lambda>u. bad_request rs msg_invalid w as1)
                   else send_object HTTP_STATUS_CREATED
                     [number_field ''id'' (int (user_count w) + 1), string_field ''name'' name, string_field ''email'' email,
                      (''age'', json_create_number (json_get_number age_value)), string_field ''message'' msg_created]
                     [v] rs w as1))))"

text \<open>\<open>strncpy\<close> into a field of \<open>n\<close> bytes, when the member is there and a string; a string without memory is
  NULL.\<close>

definition update_text :: "nat \<Rightarrow> json_value option \<Rightarrow> string \<Rightarrow> string outcome" where
  "update_text n v old = (if json_is_string v
     then (case json_get_string v of None \<Rightarrow> Fault Null_deref | Some s \<Rightarrow> Ret (take (n - 1) s))
     else Ret old)"

definition update_age :: "json_value option \<Rightarrow> int \<Rightarrow> int" where
  "update_age v old = (if json_is_number v
     then (case age_in_range (json_get_number v) of Some i \<Rightarrow> i | None \<Rightarrow> old) else old)"

definition update_user :: "json_value option \<Rightarrow> user \<Rightarrow> user outcome" where
  "update_user v x =
     obind (json_object_get v (Some ''name'')) (\<lambda>name_value.
     obind (json_object_get v (Some ''email'')) (\<lambda>email_value.
     obind (json_object_get v (Some ''age'')) (\<lambda>age_value.
     obind (update_text 64 name_value (user_name x)) (\<lambda>name.
     obind (update_text 128 email_value (user_email x)) (\<lambda>email.
       Ret (x\<lparr>user_name := name, user_email := email, user_age := update_age age_value (user_age x)\<rparr>))))))"

definition handle_update_user :: "user_table http_route_handler" where
  "handle_update_user rq rs user_data w as = with_user_id rq rs w as (\<lambda>i.
     with_json_body rq rs w as (\<lambda>v as1. case find_user i w of
       None \<Rightarrow> obind (json_free v) (\<lambda>u. error_reply rs HTTP_STATUS_NOT_FOUND msg_no_user w as1)
     | Some n \<Rightarrow> obind (update_user v (users w ! n)) (\<lambda>x.
         send_object HTTP_STATUS_OK (user_fields x @ [string_field ''message'' msg_updated]) [v] rs
           (w\<lparr>users := (users w)[n := x]\<rparr>) as1)))"

definition handle_delete_user :: "user_table http_route_handler" where
  "handle_delete_user rq rs user_data w as = with_user_id rq rs w as (\<lambda>i.
     case find_user i w of
       None \<Rightarrow> error_reply rs HTTP_STATUS_NOT_FOUND msg_no_user w as
     | Some n \<Rightarrow> send_object HTTP_STATUS_OK [string_field ''message'' msg_deleted, number_field ''deleted_id'' i] [] rs
         (w\<lparr>users := shift_loop n (user_count w) (users w), user_count := user_count w - 1\<rparr>) as)"

definition health_fields :: "field list" where
  "health_fields = [string_field ''status'' ''healthy'', string_field ''timestamp'' ''2024-01-01T00:00:00Z'',
     string_field ''version'' ''1.0.0'']"

definition handle_health_check :: "user_table http_route_handler" where
  "handle_health_check rq rs user_data w as = send_object HTTP_STATUS_OK health_fields [] rs w as"

section \<open>Registration\<close>

definition api_routes :: "((http_method \<times> string) \<times> user_table http_route_handler) list" where
  "api_routes =
     [((HTTP_METHOD_GET, ''/api/users''), handle_get_users),
      ((HTTP_METHOD_GET, ''/api/users/1''), handle_get_user),
      ((HTTP_METHOD_GET, ''/api/users/2''), handle_get_user),
      ((HTTP_METHOD_GET, ''/api/users/3''), handle_get_user),
      ((HTTP_METHOD_POST, ''/api/users''), handle_create_user),
      ((HTTP_METHOD_PUT, ''/api/users/1''), handle_update_user),
      ((HTTP_METHOD_PUT, ''/api/users/2''), handle_update_user),
      ((HTTP_METHOD_PUT, ''/api/users/3''), handle_update_user),
      ((HTTP_METHOD_DELETE, ''/api/users/1''), handle_delete_user),
      ((HTTP_METHOD_DELETE, ''/api/users/2''), handle_delete_user),
      ((HTTP_METHOD_DELETE, ''/api/users/3''), handle_delete_user),
      ((HTTP_METHOD_GET, ''/api/health''), handle_health_check)]"

text \<open>One call of \<open>http_add_route\<close> per route; the results are ignored.\<close>

fun add_routes ::
  "((http_method \<times> string) \<times> 'w http_route_handler) list \<Rightarrow> 'w http_state \<Rightarrow> 'w http_state outcome" where
  "add_routes [] s = Ret s"
| "add_routes (((m, p), h) # rs) s =
     obind (http_add_route m (Some p) (Some h) 0 s) (\<lambda>(r, s1). add_routes rs s1)"

definition register_http_routes :: "user_table http_state \<Rightarrow> user_table http_state outcome" where
  "register_http_routes s = add_routes api_routes s"

section \<open>What the interface can answer\<close>

text \<open>Once an object has a member it cannot be freed, so an answer with members never comes back from its
  handler.\<close>

definition has_member :: "json_value option \<Rightarrow> bool" where
  "has_member v \<longleftrightarrow> (\<exists>p ps c. v = Some (Json_object (Some (Block (p # ps) c))))"

lemma has_member_free: "has_member v \<Longrightarrow> \<exists>e. json_free v = Fault e"
proof -
  assume "has_member v"
  then obtain k x ps c where v: "v = Some (Json_object (Some (Block ((k, x) # ps) c)))" by (auto simp: has_member_def)
  then show ?thesis by (cases "free_data x") (auto simp: json_free_def)
qed

lemma expand_members:
  "expand_object_capacity (Block xs c) as = Ret (r, st, as1) \<Longrightarrow> \<exists>c'. st = Block xs c'"
  by (auto simp: expand_object_capacity_def expand_capacity_def Let_def split: prod.splits if_splits)

lemma set_keeps_member:
  assumes "has_member v" and "json_object_set v k x as = Ret (r, v1, as1)"
  shows "has_member v1"
proof -
  obtain p ps c where v: "v = Some (Json_object (Some (Block (p # ps) c)))" using assms(1) by (auto simp: has_member_def)
  show ?thesis
  proof (cases "k = None \<or> x = None")
    case True
    then have "v1 = v" using assms(2) v by (auto simp: json_object_set_def split: option.splits)
    with assms(1) show ?thesis by simp
  next
    case False
    then obtain k' x' where k: "k = Some k'" "x = Some x'" by auto
    define room where "room = (if c \<le> Suc (length ps) then expand_object_capacity (Block (p # ps) c) as else Ret (0, Block (p # ps) c, as))"
    obtain f where f: "find_stored k' (Block (p # ps) c) = Ret f" using assms(2) by (auto simp: json_object_set_def v k)
    then have "f = None" using assms(2) by (auto simp: json_object_set_def v k split: option.splits)
    with f assms(2) obtain r1 st as2 where e: "room = Ret (r1, st, as2)"
        "(if r1 \<noteq> 0 then Ret (-1, Some (Json_object (Some (Block (p # ps) c))), as2) else case strdup k' as2 of (k', as3) \<Rightarrow>
           obind (json_clone (Some x') as3) (\<lambda>(c, as4). case c of None \<Rightarrow> Ret (-1, Some (Json_object (Some st)), as4)
             | Some w \<Rightarrow> obind (append_slot st (k', w)) (\<lambda>st2. Ret (0, Some (Json_object (Some st2)), as4)))) = Ret (r, v1, as1)"
      by (fastforce simp: json_object_set_def v k room_def split del: if_split)
    have "\<exists>c'. st = Block (p # ps) c'" using e(1) by (auto simp: room_def dest: expand_members split: if_splits)
    then obtain c' where st: "st = Block (p # ps) c'" by blast
    from e(2) assms(1) show ?thesis
      by (cases "strdup k' as2") (auto simp: st has_member_def split: if_splits option.splits)
  qed
qed

lemma fields_keep_member: "has_member v \<Longrightarrow> set_fields v fs as = Ret (v1, as1) \<Longrightarrow> has_member v1"
proof (induction v fs as rule: set_fields.induct)
  case (2 obj k mk fs as)
  then show ?case by (cases "mk as") (auto dest: set_keeps_member)
qed simp

lemma send_value_faults: "has_member v \<Longrightarrow> \<exists>e. send_value st v others rs w as = Fault e"
proof -
  assume "has_member v"
  then obtain e where e: "json_free v = Fault e" using has_member_free by blast
  then show ?thesis
  proof (cases "json_stringify v as")
    case (Ret x)
    with e show ?thesis by (cases x) (auto simp: send_value_def split: option.splits prod.splits)
  qed (simp add: send_value_def)
qed

text \<open>A member that is a number or a text, created when there is memory.\<close>

definition plain_field :: "field \<Rightarrow> bool" where
  "plain_field f \<longleftrightarrow> (\<exists>v. snd f [] = (Some v, []) \<and> clone_data v [] = Ret (v, []))"

lemma plain_fields [simp]: "plain_field (number_field k i)" "plain_field (string_field k t)"
  by (simp_all add: plain_field_def number_field_def string_field_def)

lemma first_field:
  assumes "plain_field f" and "set_fields (Some (Json_object (Some (Null_block 0)))) (f # fs) [] = Ret (v, as)"
  shows "has_member v"
proof -
  obtain k mk where f: "f = (k, mk)" by (cases f)
  with assms(1) obtain x where x: "mk [] = (Some x, [])" "clone_data x [] = Ret (x, [])" by (auto simp: plain_field_def)
  have "json_object_set (Some (Json_object (Some (Null_block 0)))) (Some k) (Some x) []
      = Ret (0, Some (Json_object (Some (Block [(Some k, x)] 8))), [])"
    using x(2) by (simp add: json_object_set_def find_stored_def expand_object_capacity_def expand_capacity_def json_clone_def)
  then have "set_fields (Some (Json_object (Some (Block [(Some k, x)] 8)))) fs [] = Ret (v, as)"
    using assms(2) x(1) f by simp
  then show ?thesis by (rule fields_keep_member [rotated]) (simp add: has_member_def)
qed

lemma send_object_faults: "plain_field f \<Longrightarrow> \<exists>e. send_object st (f # fs) others rs w [] = Fault e"
proof -
  assume f: "plain_field f"
  show ?thesis
  proof (cases "set_fields (Some (Json_object (Some (Null_block 0)))) (f # fs) []")
    case (Ret x)
    then obtain v as where x: "x = (v, as)" by (cases x)
    from first_field [OF f] Ret x have "has_member v" by simp
    from send_value_faults [OF this, of st others rs w as] Ret x show ?thesis by (simp add: send_object_def)
  qed (simp add: send_object_def)
qed

lemma add_users_faults: "\<exists>e. add_users (x # xs) arr [] = Fault e"
proof (cases "set_fields (Some (Json_object (Some (Null_block 0)))) (user_fields x) []")
  case (Ret y)
  then obtain v as where y: "y = (v, as)" by (cases y)
  have "has_member v"
    using Ret unfolding y user_fields_def by (rule first_field [OF plain_fields(1)])
  then obtain e where "json_free v = Fault e" using has_member_free by blast
  with Ret y show ?thesis by (cases "json_array_add arr v as") auto
qed simp

text \<open>A result that, when there is one, is an error response and leaves the users alone.\<close>

definition refused :: "user_table \<Rightarrow> handled \<Rightarrow> bool" where
  "refused w m \<longleftrightarrow> (\<forall>r rs w' as. m = Ret (r, rs, w', as) \<longrightarrow> r = 0 \<and> 400 \<le> rs_status rs \<and> w' = w)"

lemma refused_Fault [simp]: "refused w (Fault e)"
  by (simp add: refused_def)

lemma refused_object: "plain_field f \<Longrightarrow> refused w' (send_object st (f # fs) others rs w [])"
  using send_object_faults [of f st fs others rs w] by auto

lemma refused_error [simp]: "400 \<le> st \<Longrightarrow> refused w (error_reply rs st m w as)" "refused w (bad_request rs m w as)"
  by (auto simp: refused_def error_reply_def bad_request_def http_send_error_response_def http_send_bad_request_response_def
      http_create_json_response_def http_status_defs split: prod.splits)

lemma refused_obind: "(\<And>x. m = Ret x \<Longrightarrow> refused w (f x)) \<Longrightarrow> refused w (obind m f)"
  by (cases m) auto

lemma refused_user_id: "(\<And>i. refused w (k i)) \<Longrightarrow> refused w (with_user_id rq rs w as k)"
  by (auto simp: with_user_id_def Let_def split: option.splits)

lemma parse_body_nil: "parse_body b len [] = Ret (r, var, as) \<Longrightarrow> as = []"
  by (auto simp: parse_body_def dest!: json_parse_nil split: option.splits outcome.splits if_splits)

lemma refused_json_body:
  "(\<And>v. refused w (k v [])) \<Longrightarrow> refused w (with_json_body rq rs w [] k)"
  by (auto simp: with_json_body_def dest!: parse_body_nil intro!: refused_obind split: option.splits json_out.splits)

lemma refused_create: "refused w (handle_create_user rq rs u w [])"
  unfolding handle_create_user_def
  by (intro refused_json_body refused_obind)
    (auto intro!: refused_obind refused_object split: option.splits)

lemma refused_update: "refused w (handle_update_user rq rs u w [])"
  unfolding handle_update_user_def
  by (intro refused_user_id refused_json_body)
    (auto intro!: refused_obind refused_object simp: user_fields_def http_status_defs split: option.splits)

lemma refused_others:
  "refused w (handle_get_user rq rs u w [])" "refused w (handle_delete_user rq rs u w [])"
  "refused w (handle_health_check rq rs u w [])"
  unfolding handle_get_user_def handle_delete_user_def handle_health_check_def health_fields_def
  by (auto intro!: refused_user_id refused_object simp: user_fields_def http_status_defs split: option.splits)

lemma refused_get_users:
  assumes "take (user_count w) (users w) \<noteq> []"
  shows "refused w (handle_get_users rq rs u w [])"
proof -
  obtain x xs where "take (user_count w) (users w) = x # xs" using assms by (cases "take (user_count w) (users w)") auto
  moreover obtain e where "add_users (x # xs) (Some (Json_array (Some (Null_block 0)))) [] = Fault e"
    using add_users_faults by blast
  ultimately show ?thesis by (simp add: handle_get_users_def del: add_users.simps)
qed

section \<open>Looking up a user\<close>

definition error_response :: "http_response \<Rightarrow> http_status \<Rightarrow> string \<Rightarrow> http_response" where
  "error_response rs st m = rs\<lparr>rs_status := st, rs_content_type := Some ''application/json'',
     rs_body := Some (error_json st m), rs_body_length := length (error_json st m)\<rparr>"

lemma error_reply_nil:
  "error_reply rs st m w [] = Ret (0, error_response rs st m, w, [])"
  "bad_request rs m w [] = Ret (0, error_response rs 400 m, w, [])"
  by (simp_all add: error_reply_def bad_request_def http_send_error_response_def http_send_bad_request_response_def
      http_create_json_response_def http_status_defs error_response_def)

lemma find_user_None: "find_user i w = None \<longleftrightarrow> i \<notin> user_id ` set (take (user_count w) (users w))"
  by (auto simp: find_user_def find_idx_None)

text \<open>What asking for the user with a number gives, while there is memory: a bad request for a number that is not positive,
  404 for a number no user has, and a fault for every user there is.\<close>

theorem get_user_outcomes:
  assumes "rq_path rq = Some (''/api/users/'' @ print_int i)" and "- (2 ^ 31) \<le> i" and "i < 2 ^ 31"
  shows "if i \<le> 0 then handle_get_user rq rs u w [] = Ret (0, error_response rs 400 msg_bad_id, w, [])
    else if i \<notin> user_id ` set (take (user_count w) (users w))
    then handle_get_user rq rs u w [] = Ret (0, error_response rs 404 msg_no_user, w, [])
    else \<exists>e. handle_get_user rq rs u w [] = Fault e"
proof -
  have "atoi (drop 11 (''/api/users/'' @ print_int i)) = i" using atoi_print_int [OF assms(2,3)] by simp
  moreover have "take 11 (''/api/users/'' @ print_int i) = ''/api/users/''" by simp
  ultimately have "handle_get_user rq rs u w [] = (if i \<le> 0 then bad_request rs msg_bad_id w []
      else case find_user i w of None \<Rightarrow> error_reply rs HTTP_STATUS_NOT_FOUND msg_no_user w []
        | Some n \<Rightarrow> send_object HTTP_STATUS_OK (user_fields (users w ! n)) [] rs w [])"
    using assms(1) by (simp add: handle_get_user_def with_user_id_def)
  moreover have "\<exists>e. send_object HTTP_STATUS_OK (user_fields x) [] rs w [] = Fault e" for x
    unfolding user_fields_def by (rule send_object_faults) simp
  moreover have "\<exists>n. find_user i w = Some n" if "i \<in> user_id ` set (take (user_count w) (users w))"
    using that find_user_None [of i w] by auto
  ultimately show ?thesis
    using find_user_None [of i w] by (auto simp: error_reply_nil http_status_defs)
qed

lemma missing_user:
  "handle_get_user (no_request\<lparr>rq_path := Some (''/api/users/'' @ print_int 9)\<rparr>) no_response 0 initial_users []
    = Ret (0, error_response no_response 404 msg_no_user, initial_users, [])"
proof -
  have "atoi (drop 11 (''/api/users/'' @ print_int 9)) = 9" using atoi_print_int [of 9] by simp
  moreover have "find_user 9 initial_users = None" by (simp add: find_user_def initial_users_def)
  ultimately show ?thesis by (simp add: handle_get_user_def with_user_id_def error_reply_nil http_status_defs)
qed

theorem get_user_outcomes_witness:
  "handle_get_user (no_request\<lparr>rq_path := Some (''/api/users/'' @ print_int 9)\<rparr>) no_response 0 initial_users []
      = Ret (0, error_response no_response 404 msg_no_user, initial_users, [])
   \<and> (\<exists>e. handle_get_user (no_request\<lparr>rq_path := Some (''/api/users/'' @ print_int 2)\<rparr>) no_response 0 initial_users [] = Fault e)"
  using get_user_outcomes [of "no_request\<lparr>rq_path := Some (''/api/users/'' @ print_int 9)\<rparr>" 9 no_response 0 initial_users]
    get_user_outcomes [of "no_request\<lparr>rq_path := Some (''/api/users/'' @ print_int 2)\<rparr>" 2 no_response 0 initial_users]
  by (simp add: initial_users_def)

text \<open>While there is a user and memory, no handler of the interface ever answers with success: what a handler
  returns is an error response, and it has not touched the users. Every answer of success ends in a fault
  when the JSON value that was printed is freed.\<close>

theorem api_only_refuses:
  assumes "(k, h) \<in> set api_routes" and "take (user_count w) (users w) \<noteq> []" and "h rq rs u w [] = Ret (r, rs', w', as)"
  shows "r = 0 \<and> 400 \<le> rs_status rs' \<and> w' = w"
proof -
  have "refused w (h rq rs u w [])"
    using assms(1) refused_create refused_update refused_others refused_get_users [OF assms(2)] by (auto simp: api_routes_def)
  with assms(3) show ?thesis by (simp add: refused_def)
qed

theorem api_only_refuses_witness:
  "\<exists>rs'. handle_get_user (no_request\<lparr>rq_path := Some (''/api/users/'' @ print_int 9)\<rparr>) no_response 0 initial_users []
      = Ret (0, rs', initial_users, []) \<and> 400 \<le> rs_status rs'"
proof -
  have "((HTTP_METHOD_GET, ''/api/users/1''), handle_get_user) \<in> set api_routes" by (simp add: api_routes_def)
  moreover have "take (user_count initial_users) (users initial_users) \<noteq> []" by (simp add: initial_users_def)
  ultimately have "400 \<le> rs_status (error_response no_response 404 msg_no_user)"
    using api_only_refuses missing_user by blast
  then show ?thesis using missing_user by blast
qed

section \<open>Registration and requests\<close>

lemma add_route_put:
  assumes "routes_ok s"
  shows "http_add_route m (Some p) (Some h) u s = Ret (0, route_put (m, p) (h, u) s)"
proof -
  obtain d where "http_data s = Some d" "routes_mutex d = Mutex_free" "http_answers s = []"
    using assms by (rule routes_okE)
  then show ?thesis by (simp add: route_put_def http_add_route_def http_answer_def)
qed

lemma add_routes_put:
  "routes_ok s \<Longrightarrow> add_routes rs s = Ret (fold (\<lambda>(k, v). route_put k v) (map (\<lambda>(k, h). (k, (h, 0))) rs) s)"
proof (induction rs arbitrary: s)
  case (Cons r rs)
  obtain m p h where r: "r = ((m, p), h)" by (metis prod.exhaust)
  have "routes_ok (route_put (m, p) (h, 0) s)" using Cons.prems by (rule add_route_ok)
  with Cons r add_route_put [OF Cons.prems] show ?case by simp
qed simp

lemma fold_map_put:
  "distinct (map fst kvs) \<Longrightarrow> fold (\<lambda>(k, v). map_put (\<lambda>v old. Some v) k v) kvs m = m ++ map_of kvs"
proof (induction kvs arbitrary: m)
  case (Cons kv kvs)
  obtain k v where kv: "kv = (k, v)" by (cases kv)
  have "k \<notin> dom (map_of kvs)" using Cons.prems kv by (simp add: dom_map_of_conv_image_fst)
  then have "m(k \<mapsto> v) ++ map_of kvs = m ++ map_of (kv # kvs)"
    using kv by (auto simp: map_add_def fun_eq_iff dom_def split: option.split)
  moreover have "fold (\<lambda>(k, v). map_put (\<lambda>v old. Some v) k v) (kv # kvs) m
      = fold (\<lambda>(k, v). map_put (\<lambda>v old. Some v) k v) kvs (m(k \<mapsto> v))"
    by (simp only: fold_simps kv prod.case map_put_def [of "\<lambda>v old. Some v" k v] comp_apply)
  moreover have "distinct (map fst kvs)" using Cons.prems by simp
  ultimately show ?case using Cons.IH by metis
qed simp

lemma register_routes_ok:
  assumes "routes_ok s"
  shows "\<exists>t. register_http_routes s = Ret t \<and> routes_ok t
    \<and> (\<lambda>k. newest (route_bindings t k)) = (\<lambda>k. newest (route_bindings s k)) ++ map_of (map (\<lambda>(k, h). (k, (h, 0))) api_routes)"
proof -
  define kvs where "kvs = map (\<lambda>(k, h). (k, (h, 0 :: nat))) api_routes"
  define t where "t = fold (\<lambda>(k, v). route_put k v) kvs s"
  have "distinct (map fst kvs)" by (simp add: kvs_def api_routes_def)
  moreover have "register_http_routes s = Ret t" using add_routes_put [OF assms] by (simp add: register_http_routes_def t_def kvs_def)
  ultimately show ?thesis
    using route_table.store.fold_put_refines [OF assms, of kvs] fold_map_put [of kvs] by (auto simp: t_def kvs_def)
qed

lemma registered:
  assumes "routes_ok s" and "register_http_routes s = Ret t"
  shows "routes_ok t" "newest (route_bindings t k)
    = (case map_of api_routes k of Some h \<Rightarrow> Some (h, 0) | None \<Rightarrow> newest (route_bindings s k))"
proof -
  have m: "map_of (map (\<lambda>(k, h). (k, (h, 0 :: nat))) api_routes) k = map_option (\<lambda>h. (h, 0)) (map_of api_routes k)"
    by (simp add: map_of_map)
  show "routes_ok t" using register_routes_ok [OF assms(1)] assms(2) by auto
  have "(\<lambda>k. newest (route_bindings t k)) = (\<lambda>k. newest (route_bindings s k)) ++ map_of (map (\<lambda>(k, h). (k, (h, 0))) api_routes)"
    using register_routes_ok [OF assms(1)] assms(2) by auto
  from fun_cong [OF this, of k] m
  show "newest (route_bindings t k) = (case map_of api_routes k of Some h \<Rightarrow> Some (h, 0) | None \<Rightarrow> newest (route_bindings s k))"
    by (cases "map_of api_routes k") (simp_all add: map_add_def)
qed

lemma health_check_faults: "handle_health_check rq rs u w [] = Fault Invalid_free"
  by (simp add: handle_health_check_def health_fields_def send_object_def send_value_def string_field_def json_object_set_def
      find_stored_def expand_object_capacity_def expand_capacity_def json_clone_def json_free_def json_stringify_def
      http_create_json_response_def append_pair_def key_text_ok string_text_def close_text_def)

text \<open>After registration every route of the interface leads to its handler, and every other route to what it led to before.\<close>

theorem registration_binds_every_route:
  assumes "routes_ok s"
  shows "\<exists>t. register_http_routes s = Ret t \<and> routes_ok t \<and> (\<forall>k. newest (route_bindings t k) =
    (case map_of api_routes k of Some h \<Rightarrow> Some (h, 0) | None \<Rightarrow> newest (route_bindings s k)))"
  using register_routes_ok [OF assms] registered [OF assms] by blast

text \<open>A server with one idle connection.\<close>

definition api_server :: "user_table http_state" where
  "api_server = \<lparr>http_data = Some \<lparr>http_conf = http_default_config, routes = [], route_count = 0, routes_mutex = Mutex_free,
       json_parser_fn = None, json_parser_user_data = 0\<rparr>,
     client_pool = [\<lparr>client_id = 0, read_buffer = Some (replicate 4096 NUL), read_buffer_size = 4096, read_buffer_used = 0\<rparr>],
     active_clients = 1, client_pool_mutex = Mutex_free, next_client = 1, closing = [], sent = [],
     listening = True, world = initial_users, http_answers = []\<rparr>"

lemma api_server_ok: "routes_ok api_server"
  by (simp add: api_server_def routes_ok_def)

theorem registration_binds_every_route_witness:
  "\<exists>t. register_http_routes api_server = Ret t
    \<and> newest (route_bindings t (HTTP_METHOD_GET, ''/api/health'')) = Some (handle_health_check, 0)"
proof -
  have "map_of api_routes (HTTP_METHOD_GET, ''/api/health'') = Some handle_health_check" by (simp add: api_routes_def)
  then show ?thesis using registration_binds_every_route [OF api_server_ok] by auto
qed

text \<open>A well-formed request for the health of a server with the registered routes ends the server: freeing the JSON object of
  the answer frees an address inside a block.\<close>

theorem health_request_faults:
  assumes "routes_ok s" and "register_http_routes s = Ret s'" and "client_at i s' = Some n" and "ready (client_pool s' ! n) mem"
    and "request_ok keep ''/api/health'' q hs b" and "t = request_text HTTP_METHOD_GET (url_text keep ''/api/health'' q) hs b"
    and "length t < length mem" and "mem ! length t = NUL"
  shows "on_client_read i (int (length t)) t junk s' = Fault Invalid_free"
proof -
  have s': "routes_ok s'" "newest (route_bindings s' (HTTP_METHOD_GET, ''/api/health'')) = Some (handle_health_check, 0)"
    using registered(1) [OF assms(1,2)] registered(2) [OF assms(1,2), of "(HTTP_METHOD_GET, ''/api/health'')"] by (simp_all add: api_routes_def)
  define rq where "rq = parsed_request HTTP_METHOD_GET ''/api/health'' q hs b"
  have rq: "rq_path rq = Some ''/api/health''" "rq_method rq = HTTP_METHOD_GET" by (simp_all add: rq_def parsed_request_def)
  obtain rt where rt: "find_matching_route rq s' = Ret (Some rt)" "route_handler rt = handle_health_check"
    using find_matching_ok [OF s'(1) rq(1)] s'(2) rq(2) by auto
  have "http_answers s' = []" using s'(1) by (auto elim: routes_okE)
  moreover from this rt have "create_http_response rq s' = Fault Invalid_free"
    by (simp add: create_http_response_def run_route_def health_check_faults)
  ultimately show ?thesis using read_parses [OF assms(5,6,3,4,7,8)] by (simp add: rq_def)
qed

lemma api_registered:
  "\<exists>t. register_http_routes api_server = Ret t \<and> client_pool t = client_pool api_server"
proof -
  have put: "routes_ok s \<Longrightarrow> client_pool (route_put k v s) = client_pool s" for k v and s :: "user_table http_state"
    by (erule routes_okE) (simp add: route_put_def http_add_route_def http_answer_def)
  have "routes_ok s \<Longrightarrow> client_pool (fold (\<lambda>(k, v). route_put k v) kvs s) = client_pool s" for kvs and s :: "user_table http_state"
    by (induction kvs arbitrary: s) (auto simp: put add_route_ok)
  then show ?thesis using add_routes_put [OF api_server_ok] by (auto simp: register_http_routes_def api_server_ok)
qed

definition health_request :: string where
  "health_request = request_text HTTP_METHOD_GET (url_text url_safe ''/api/health'' None) [(''Host'', ''h'')] []"

theorem health_request_faults_witness:
  "\<exists>t. register_http_routes api_server = Ret t
    \<and> on_client_read 0 (int (length health_request)) health_request [] t = Fault Invalid_free"
proof -
  obtain t where t: "register_http_routes api_server = Ret t" "client_pool t = client_pool api_server"
    using api_registered by blast
  have "length health_request < 4096"
    by (simp add: health_request_def request_text_def request_line_def url_text_def url_encode_def encode_char_def
        header_text_def CRLF_def)
  moreover have "client_at 0 t = Some 0" "ready (client_pool t ! 0) (replicate 4096 NUL)"
    using t(2) by (simp_all add: client_at_def api_server_def ready_def)
  ultimately show ?thesis
    using health_request_faults [OF api_server_ok t(1), of 0 0 "replicate 4096 NUL" url_safe None "[(''Host'', ''h'')]" "[]"]
      demo_request_ok [of "''/api/health''"] t(1) by (simp add: health_request_def NUL_def)
qed

end
