(* ===== verification/Xml_Tree.thy ===== *)
theory Xml_Tree
  imports Interfaces C_Strings
begin

text \<open>
  XML nodes (src/xml/xml_parser_module.c, all but the parser): creation, attributes, text, escaping,
  names and printing. A node is a tree: every node has one owner, so the parent and sibling pointers
  follow from the place in the tree; what the functions do with these pointers is the subject of
  \<^verbatim>\<open>Xml_Links\<close>. Attributes are listed newest first, as the code links them. A name or value whose copy
  could not be allocated is NULL. The answers are those of \<open>calloc\<close>, \<open>malloc\<close>, \<open>realloc\<close> and \<open>strdup\<close>.
\<close>

section \<open>Data\<close>

datatype xml_node_type =
    XML_TYPE_ELEMENT | XML_TYPE_TEXT | XML_TYPE_ATTRIBUTE | XML_TYPE_COMMENT | XML_TYPE_CDATA
  | XML_TYPE_PROCESSING | XML_TYPE_DOCUMENT

type_synonym xml_attribute = "string option \<times> string option"

datatype xml_node = Xml_node (node_type: xml_node_type) (node_name: "string option") (node_value: "string option")
  (node_attributes: "xml_attribute list") (node_children: "xml_node list") (node_line: int) (node_column: int)

datatype xml_error =
    XML_ERROR_NONE | XML_ERROR_INVALID_SYNTAX | XML_ERROR_UNEXPECTED_TOKEN | XML_ERROR_UNTERMINATED_TAG
  | XML_ERROR_UNTERMINATED_STRING | XML_ERROR_INVALID_ATTRIBUTE | XML_ERROR_DEPTH_EXCEEDED
  | XML_ERROR_NODE_LIMIT_EXCEEDED | XML_ERROR_MEMORY_ALLOCATION | XML_ERROR_FILE_IO | XML_ERROR_INVALID_ENCODING
  | XML_ERROR_UNKNOWN

record xml_document =
  xml_root :: "xml_node option"
  xml_version :: "string option"
  xml_encoding :: "string option"
  xml_standalone :: "string option"
  xml_doctype :: "string option"
  xml_filename :: "string option"

fun xml_error_string :: "xml_error \<Rightarrow> string" where
  "xml_error_string XML_ERROR_NONE = ''No error''"
| "xml_error_string XML_ERROR_INVALID_SYNTAX = ''Invalid XML syntax''"
| "xml_error_string XML_ERROR_UNEXPECTED_TOKEN = ''Unexpected token''"
| "xml_error_string XML_ERROR_UNTERMINATED_TAG = ''Unterminated tag''"
| "xml_error_string XML_ERROR_UNTERMINATED_STRING = ''Unterminated string''"
| "xml_error_string XML_ERROR_INVALID_ATTRIBUTE = ''Invalid attribute''"
| "xml_error_string XML_ERROR_DEPTH_EXCEEDED = ''Maximum depth exceeded''"
| "xml_error_string XML_ERROR_NODE_LIMIT_EXCEEDED = ''Maximum node count exceeded''"
| "xml_error_string XML_ERROR_MEMORY_ALLOCATION = ''Memory allocation failed''"
| "xml_error_string XML_ERROR_FILE_IO = ''File I/O error''"
| "xml_error_string XML_ERROR_INVALID_ENCODING = ''Invalid encoding''"
| "xml_error_string XML_ERROR_UNKNOWN = ''Unknown error''"

text \<open>The module keeps the error of the last call in one global.\<close>

definition xml_get_last_error :: "xml_error \<Rightarrow> xml_error" where
  "xml_get_last_error global_last_error = global_last_error"

definition xml_clear_error :: "xml_error \<Rightarrow> xml_error" where
  "xml_clear_error global_last_error = XML_ERROR_NONE"

section \<open>Creation\<close>

definition strdup_safe :: "string option \<Rightarrow> answers \<Rightarrow> string option \<times> answers" where
  "strdup_safe s as = (case s of None \<Rightarrow> (None, as) | Some t \<Rightarrow> strdup t as)"

definition create_node ::
  "xml_node_type \<Rightarrow> string option \<Rightarrow> string option \<Rightarrow> answers \<Rightarrow> xml_node option \<times> answers" where
  "create_node type name value as = (case next_answer as of (ok, as1) \<Rightarrow>
     if \<not> ok then (None, as1)
     else case strdup_safe name as1 of (n, as2) \<Rightarrow> (case strdup_safe value as2 of (v, as3) \<Rightarrow>
       (Some (Xml_node type n v [] [] 0 0), as3)))"

definition create_attribute :: "string option \<Rightarrow> string option \<Rightarrow> answers \<Rightarrow> xml_attribute option \<times> answers" where
  "create_attribute name value as = (case next_answer as of (ok, as1) \<Rightarrow>
     if \<not> ok then (None, as1)
     else case strdup_safe name as1 of (n, as2) \<Rightarrow> (case strdup_safe value as2 of (v, as3) \<Rightarrow> (Some (n, v), as3)))"

definition xml_create_node ::
  "xml_node_type \<Rightarrow> string option \<Rightarrow> string option \<Rightarrow> answers \<Rightarrow> xml_node option \<times> answers" where
  "xml_create_node type name value as = create_node type name value as"

definition xml_create_element :: "string option \<Rightarrow> answers \<Rightarrow> xml_node option \<times> answers" where
  "xml_create_element name as = create_node XML_TYPE_ELEMENT name None as"

definition xml_create_text :: "string option \<Rightarrow> answers \<Rightarrow> xml_node option \<times> answers" where
  "xml_create_text t as = create_node XML_TYPE_TEXT None t as"

definition xml_create_attribute :: "string option \<Rightarrow> string option \<Rightarrow> answers \<Rightarrow> xml_node option \<times> answers" where
  "xml_create_attribute name value as = create_node XML_TYPE_ATTRIBUTE name value as"

definition xml_create_comment :: "string option \<Rightarrow> answers \<Rightarrow> xml_node option \<times> answers" where
  "xml_create_comment c as = create_node XML_TYPE_COMMENT None c as"

definition xml_create_cdata :: "string option \<Rightarrow> answers \<Rightarrow> xml_node option \<times> answers" where
  "xml_create_cdata c as = create_node XML_TYPE_CDATA None c as"

section \<open>Attributes\<close>

definition set_attributes :: "xml_attribute list \<Rightarrow> xml_node \<Rightarrow> xml_node" where
  "set_attributes ats n = (case n of Xml_node ty nm v _ cs l c \<Rightarrow> Xml_node ty nm v ats cs l c)"

text \<open>The search for an attribute: \<open>strcmp\<close> of a name that is NULL faults.\<close>

fun find_attr :: "string \<Rightarrow> xml_attribute list \<Rightarrow> nat option outcome" where
  "find_attr name [] = Ret None"
| "find_attr name ((n, v) # ats) = (case n of
     None \<Rightarrow> Fault Null_deref
   | Some n' \<Rightarrow> if n' = name then Ret (Some 0) else obind (find_attr name ats) (\<lambda>r. Ret (map_option Suc r)))"

definition xml_set_attribute ::
  "xml_node option \<Rightarrow> string option \<Rightarrow> string option \<Rightarrow> answers \<Rightarrow> (int \<times> xml_node option \<times> answers) outcome" where
  "xml_set_attribute node name value as = (case (node, name) of
     (Some x, Some n) \<Rightarrow>
       if node_type x \<noteq> XML_TYPE_ELEMENT then Ret (-1, node, as)
       else obind (find_attr n (node_attributes x)) (\<lambda>r. case r of
         Some i \<Rightarrow> (case strdup_safe value as of (v, as1) \<Rightarrow>
           Ret (0, Some (set_attributes ((node_attributes x)[i := (fst (node_attributes x ! i), v)]) x), as1))
       | None \<Rightarrow> (case create_attribute (Some n) value as of (a, as1) \<Rightarrow> (case a of
             None \<Rightarrow> Ret (-1, node, as1)
           | Some at1 \<Rightarrow> Ret (0, Some (set_attributes (at1 # node_attributes x) x), as1))))
   | _ \<Rightarrow> Ret (-1, node, as))"

text \<open>The code, the value stored through the result pointer (None: nothing is stored), and the answers.\<close>

definition xml_get_attribute ::
  "xml_node option \<Rightarrow> string option \<Rightarrow> answers \<Rightarrow> (int \<times> string option option \<times> answers) outcome" where
  "xml_get_attribute node name as = (case (node, name) of
     (Some x, Some n) \<Rightarrow>
       if node_type x \<noteq> XML_TYPE_ELEMENT then Ret (-1, None, as)
       else obind (find_attr n (node_attributes x)) (\<lambda>r. case r of
         Some i \<Rightarrow> (case strdup_safe (snd (node_attributes x ! i)) as of (v, as1) \<Rightarrow> Ret (0, Some v, as1))
       | None \<Rightarrow> Ret (-1, Some None, as))
   | _ \<Rightarrow> Ret (-1, None, as))"

section \<open>Children and text\<close>

text \<open>The loop of \<open>xml_find_child\<close>: the first element with the name.\<close>

fun find_child :: "string \<Rightarrow> xml_node list \<Rightarrow> xml_node option outcome" where
  "find_child name [] = Ret None"
| "find_child name (c # cs) =
     (if node_type c = XML_TYPE_ELEMENT
      then (case node_name c of
          None \<Rightarrow> Fault Null_deref
        | Some n \<Rightarrow> if n = name then Ret (Some c) else find_child name cs)
      else find_child name cs)"

definition xml_find_child :: "xml_node option \<Rightarrow> string option \<Rightarrow> xml_node option outcome" where
  "xml_find_child parent name = (case (parent, name) of
     (Some p, Some n) \<Rightarrow> find_child n (node_children p) | _ \<Rightarrow> Ret None)"

definition xml_set_text :: "xml_node option \<Rightarrow> string option \<Rightarrow> answers \<Rightarrow> int \<times> xml_node option \<times> answers" where
  "xml_set_text node t as = (case node of
     None \<Rightarrow> (-1, None, as)
   | Some (Xml_node ty nm _ ats cs l c) \<Rightarrow> (case strdup_safe t as of (v, as1) \<Rightarrow> (0, Some (Xml_node ty nm v ats cs l c), as1)))"

definition is_text_node :: "xml_node \<Rightarrow> bool" where
  "is_text_node n \<longleftrightarrow> node_type n = XML_TYPE_TEXT \<or> node_type n = XML_TYPE_CDATA"

definition xml_get_text :: "xml_node option \<Rightarrow> string option" where
  "xml_get_text node = (case node of
     None \<Rightarrow> None
   | Some n \<Rightarrow>
       if is_text_node n then node_value n
       else if node_type n = XML_TYPE_ELEMENT
       then (case List.find is_text_node (node_children n) of None \<Rightarrow> None | Some c \<Rightarrow> node_value c)
       else None)"

text \<open>\<open>xml_add_child\<close> on trees: an element takes the child at the end.\<close>

definition add_child :: "xml_node \<Rightarrow> xml_node \<Rightarrow> xml_node" where
  "add_child parent child = (case parent of Xml_node ty nm v ats cs l c \<Rightarrow>
     if ty = XML_TYPE_ELEMENT then Xml_node ty nm v ats (cs @ [child]) l c else parent)"

section \<open>Escaping\<close>

definition xml_escape_char :: "char \<Rightarrow> string" where
  "xml_escape_char c =
     (if c = CHR ''&'' then ''&amp;''
      else if c = CHR ''<'' then ''&lt;''
      else if c = CHR ''>'' then ''&gt;''
      else if c = CHR 0x22 then ''&quot;''
      else if c = CHR 0x27 then ''&apos;''
      else [c])"

definition escaped_length :: "string \<Rightarrow> nat" where
  "escaped_length s = foldl (\<lambda>n c. n +
     (if c = CHR ''&'' then 4 else if c = CHR ''<'' then 3 else if c = CHR ''>'' then 3
      else if c = CHR 0x22 then 5 else if c = CHR 0x27 then 5 else 0)) (length s) s"

text \<open>The text is written into a buffer of the computed length and one more byte.\<close>

definition escape_xml_string :: "string option \<Rightarrow> answers \<Rightarrow> (string option \<times> answers) outcome" where
  "escape_xml_string str as = (case str of
     None \<Rightarrow> Ret (None, as)
   | Some s \<Rightarrow> (case next_answer as of (ok, as1) \<Rightarrow>
       if \<not> ok then Ret (None, as1)
       else let t = concat (map xml_escape_char s) in
         if length t \<le> escaped_length s then Ret (Some t, as1) else Fault Out_of_bounds))"

fun unescape_loop :: "string \<Rightarrow> string" where
  "unescape_loop [] = []"
| "unescape_loop (c # cs) =
     (if c = CHR ''&'' \<and> cs \<noteq> []
      then (if take 4 cs = ''amp;'' then CHR ''&'' # unescape_loop (drop 4 cs)
        else if take 3 cs = ''lt;'' then CHR ''<'' # unescape_loop (drop 3 cs)
        else if take 3 cs = ''gt;'' then CHR ''>'' # unescape_loop (drop 3 cs)
        else if take 5 cs = ''quot;'' then CHR 0x22 # unescape_loop (drop 5 cs)
        else if take 5 cs = ''apos;'' then CHR 0x27 # unescape_loop (drop 5 cs)
        else c # unescape_loop cs)
      else c # unescape_loop cs)"

definition unescape_xml_string :: "string option \<Rightarrow> answers \<Rightarrow> string option \<times> answers" where
  "unescape_xml_string str as = (case str of
     None \<Rightarrow> (None, as)
   | Some s \<Rightarrow> (case next_answer as of (ok, as1) \<Rightarrow> (if ok then Some (unescape_loop s) else None, as1)))"

definition xml_escape_string :: "string option \<Rightarrow> answers \<Rightarrow> (string option \<times> answers) outcome" where
  "xml_escape_string str as = (case str of None \<Rightarrow> Ret (None, as) | Some s \<Rightarrow> escape_xml_string str as)"

definition xml_unescape_string :: "string option \<Rightarrow> answers \<Rightarrow> string option \<times> answers" where
  "xml_unescape_string str as = (case str of None \<Rightarrow> (None, as) | Some s \<Rightarrow> unescape_xml_string str as)"

section \<open>Names\<close>

definition is_alpha :: "char \<Rightarrow> bool" where
  "is_alpha c \<longleftrightarrow> 97 \<le> (of_char (lower c) :: nat) \<and> (of_char (lower c) :: nat) \<le> 122"

definition is_name_char :: "char \<Rightarrow> bool" where
  "is_name_char c \<longleftrightarrow> is_alpha c \<or> is_digit c \<or> c = CHR ''_'' \<or> c = CHR ''-'' \<or> c = CHR '':'' \<or> c = CHR ''.''"

definition is_valid_xml_name :: "string option \<Rightarrow> bool" where
  "is_valid_xml_name name = (case name of
     None \<Rightarrow> False
   | Some [] \<Rightarrow> False
   | Some (c # cs) \<Rightarrow> (is_alpha c \<or> c = CHR ''_'') \<and> list_all is_name_char cs)"

definition is_valid_attribute_value :: "string option \<Rightarrow> bool" where
  "is_valid_attribute_value value = (case value of
     None \<Rightarrow> True | Some s \<Rightarrow> list_all (\<lambda>c. c \<noteq> CHR ''<'' \<and> c \<noteq> CHR ''&'') s)"

definition xml_is_valid_name :: "string option \<Rightarrow> bool" where
  "xml_is_valid_name name = is_valid_xml_name name"

definition xml_is_valid_attribute_value :: "string option \<Rightarrow> bool" where
  "xml_is_valid_attribute_value value = is_valid_attribute_value value"

section \<open>Printing\<close>

text \<open>Several \<open>strcat\<close> in a row into a buffer of \<open>n\<close> bytes.\<close>

fun strcat_all :: "nat \<Rightarrow> string \<Rightarrow> string list \<Rightarrow> string outcome" where
  "strcat_all n a [] = Ret a"
| "strcat_all n a (b # bs) = obind (strcat_buf n a b) (\<lambda>t. strcat_all n t bs)"

definition EQ_QUOTE :: string where "EQ_QUOTE = [CHR ''='', CHR 0x22]"
definition END_QUOTE :: string where "END_QUOTE = [CHR 0x22]"

text \<open>The attributes; each one resizes the buffer to what it needs and a few bytes more.\<close>

fun write_attributes :: "xml_attribute list \<Rightarrow> string \<Rightarrow> nat \<Rightarrow> answers \<Rightarrow> (string \<times> nat \<times> answers) outcome" where
  "write_attributes [] buf cap as = Ret (buf, cap, as)"
| "write_attributes ((n, v) # ats) buf cap as = obind (escape_xml_string v as) (\<lambda>(e, as1). case (n, e) of
     (Some n', Some e') \<Rightarrow> (case next_answer as1 of (ok, as2) \<Rightarrow>
         if \<not> ok then write_attributes ats buf cap as2
         else let cap1 = length buf + length n' + length e' + 10 in
           obind (strcat_all cap1 buf ['' '', n', EQ_QUOTE, e', END_QUOTE]) (\<lambda>buf1. write_attributes ats buf1 cap1 as2))
   | _ \<Rightarrow> Fault Null_deref)"

text \<open>The indentation goes into an array of 256 bytes.\<close>

definition indent_text :: "int \<Rightarrow> string outcome" where
  "indent_text n = (if n < 0 \<or> 255 < n then Fault Out_of_bounds else Ret (replicate (nat n) CHR '' ''))"

fun format_node_pretty :: "xml_node \<Rightarrow> int \<Rightarrow> int \<Rightarrow> answers \<Rightarrow> (string option \<times> answers) outcome"
  and format_children :: "xml_node list \<Rightarrow> int \<Rightarrow> int \<Rightarrow> string \<Rightarrow> nat \<Rightarrow> answers \<Rightarrow> (string \<times> nat \<times> answers) outcome" where
  "format_node_pretty (Xml_node ty nm v ats cs l c) indent level as = (case next_answer as of (ok, as1) \<Rightarrow>
     if \<not> ok then Ret (None, as1)
     else obind (indent_text (level * indent)) (\<lambda>ind.
       if ty = XML_TYPE_ELEMENT
       then (case nm of
           None \<Rightarrow> Fault Null_deref
         | Some n \<Rightarrow> obind (write_attributes ats (snprintf_text 1024 (ind @ ''<'' @ n)) 1024 as1) (\<lambda>(b1, cap1, as2).
             if cs \<noteq> []
             then obind (strcat_buf cap1 b1 (''>'' @ [NL])) (\<lambda>b2.
               obind (format_children cs indent (level + 1) b2 cap1 as2) (\<lambda>(b3, cap2, as3).
                 obind (strcat_all cap2 b3 [ind, ''</'', n, ''>'' @ [NL]]) (\<lambda>b4. Ret (Some b4, as3))))
             else obind (strcat_buf cap1 b1 (''/>'' @ [NL])) (\<lambda>b2. Ret (Some b2, as2))))
       else if ty = XML_TYPE_TEXT
       then obind (escape_xml_string v as1) (\<lambda>(e, as2). case e of
           None \<Rightarrow> Fault Null_deref
         | Some t \<Rightarrow> Ret (Some (snprintf_text 1024 (ind @ t)), as2))
       else if ty = XML_TYPE_COMMENT
       then (case v of None \<Rightarrow> Fault Null_deref
         | Some t \<Rightarrow> Ret (Some (snprintf_text 1024 (ind @ ''<!--'' @ t @ ''-->'' @ [NL])), as1))
       else if ty = XML_TYPE_CDATA
       then (case v of None \<Rightarrow> Fault Null_deref
         | Some t \<Rightarrow> Ret (Some (snprintf_text 1024 (ind @ ''<![CDATA['' @ t @ '']]>'' @ [NL])), as1))
       else Ret (Some (snprintf_text 1024 (ind @ ''<!-- unknown node type -->'' @ [NL])), as1)))"
| "format_children [] indent level buf cap as = Ret (buf, cap, as)"
| "format_children (x # xs) indent level buf cap as = obind (format_node_pretty x indent level as) (\<lambda>(t, as1). case t of
     None \<Rightarrow> format_children xs indent level buf cap as1
   | Some u \<Rightarrow> (case next_answer as1 of (ok, as2) \<Rightarrow>
       if \<not> ok then format_children xs indent level buf cap as2
       else let cap1 = length buf + length u + 1 in
         obind (strcat_buf cap1 buf u) (\<lambda>buf1. format_children xs indent level buf1 cap1 as2)))"

definition xml_header :: string where
  "xml_header = ''<?xml version='' @ [CHR 0x22] @ ''1.0'' @ [CHR 0x22] @ '' encoding='' @ [CHR 0x22] @ ''UTF-8'' @ [CHR 0x22] @ ''?>'' @ [NL]"

definition xml_pretty_print :: "xml_document option \<Rightarrow> int \<Rightarrow> answers \<Rightarrow> (string option \<times> answers) outcome" where
  "xml_pretty_print document indent as = (case document of
     None \<Rightarrow> Ret (None, as)
   | Some d \<Rightarrow> (case xml_root d of
       None \<Rightarrow> Ret (None, as)
     | Some x \<Rightarrow> (case next_answer as of (ok, as1) \<Rightarrow>
         if \<not> ok then Ret (None, as1)
         else obind (format_node_pretty x indent 0 as1) (\<lambda>(t, as2). case t of
             None \<Rightarrow> Ret (Some (snprintf_text 1024 xml_header), as2)
           | Some u \<Rightarrow> (case next_answer as2 of (ok2, as3) \<Rightarrow>
               if ok2
               then obind (strcat_buf (length (snprintf_text 1024 xml_header) + length u + 1) (snprintf_text 1024 xml_header) u)
                 (\<lambda>r. Ret (Some r, as3))
               else Ret (Some (snprintf_text 1024 xml_header), as3))))))"

text \<open>Saving to a string: the code, the string that is stored through the pointer, the new global error.\<close>

definition xml_save_string ::
  "xml_document option \<Rightarrow> answers \<Rightarrow> (int \<times> string option \<times> xml_error \<times> answers) outcome" where
  "xml_save_string document as = (case document of
     None \<Rightarrow> Ret (-1, None, XML_ERROR_INVALID_SYNTAX, as)
   | Some d \<Rightarrow> obind (xml_pretty_print document 2 as) (\<lambda>(t, as1).
       if t = None then Ret (-1, None, XML_ERROR_MEMORY_ALLOCATION, as1) else Ret (0, t, XML_ERROR_NONE, as1)))"

definition xml_save_memory ::
  "xml_document option \<Rightarrow> answers \<Rightarrow> (int \<times> string option \<times> nat option \<times> xml_error \<times> answers) outcome" where
  "xml_save_memory document as = (case document of
     None \<Rightarrow> Ret (-1, None, None, XML_ERROR_INVALID_SYNTAX, as)
   | Some d \<Rightarrow> obind (xml_pretty_print document 2 as) (\<lambda>(t, as1). case t of
       None \<Rightarrow> Ret (-1, None, None, XML_ERROR_MEMORY_ALLOCATION, as1)
     | Some s \<Rightarrow> Ret (0, t, Some (length s), XML_ERROR_NONE, as1)))"

text \<open>Files are a map from names to contents. The answers after printing are those of \<open>fopen\<close> and of a complete
  \<open>fwrite\<close>; what an incomplete write leaves is the empty file.\<close>

definition xml_save_file ::
  "string option \<Rightarrow> xml_document option \<Rightarrow> (string \<Rightarrow> string option) \<Rightarrow> answers
   \<Rightarrow> (int \<times> (string \<Rightarrow> string option) \<times> xml_error \<times> answers) outcome" where
  "xml_save_file filename document files as = (case (filename, document) of
     (Some path, Some d) \<Rightarrow> obind (xml_pretty_print document 2 as) (\<lambda>(t, as1). case t of
         None \<Rightarrow> Ret (-1, files, XML_ERROR_MEMORY_ALLOCATION, as1)
       | Some s \<Rightarrow> (case next_answer as1 of (opened, as2) \<Rightarrow>
           if \<not> opened then Ret (-1, files, XML_ERROR_FILE_IO, as2)
           else case next_answer as2 of (whole, as3) \<Rightarrow>
             if whole then Ret (0, files(path \<mapsto> s), XML_ERROR_NONE, as3)
             else Ret (-1, files(path \<mapsto> []), XML_ERROR_FILE_IO, as3)))
   | _ \<Rightarrow> Ret (-1, files, XML_ERROR_FILE_IO, as))"

section \<open>Escaping is reversible\<close>

lemma unescape_escaped_char: "unescape_loop (xml_escape_char c @ r) = c # unescape_loop r"
  by (simp add: xml_escape_char_def)

lemma unescape_escaped_text: "unescape_loop (concat (map xml_escape_char s)) = s"
  by (induction s) (simp_all add: unescape_escaped_char)

lemma escaped_length_eq: "escaped_length s = length (concat (map xml_escape_char s))"
proof -
  have "foldl (\<lambda>n c. n + (if c = CHR ''&'' then 4 else if c = CHR ''<'' then 3 else if c = CHR ''>'' then 3
      else if c = CHR 0x22 then 5 else if c = CHR 0x27 then 5 else 0)) k t + length t = k + length (concat (map xml_escape_char t))" for k t
    by (induction t arbitrary: k) (simp_all add: xml_escape_char_def)
  from this [of "length s" s] show ?thesis by (simp add: escaped_length_def)
qed

text \<open>Escaping a text fills exactly the buffer that was computed for it and unescaping gives the text back.\<close>

theorem xml_escape_round_trip:
  "\<exists>t. xml_escape_string (Some s) [] = Ret (Some t, []) \<and> length t = escaped_length s
    \<and> xml_unescape_string (Some t) [] = (Some s, [])"
  by (simp add: xml_escape_string_def escape_xml_string_def escaped_length_eq Let_def xml_unescape_string_def unescape_xml_string_def
      unescape_escaped_text)

section \<open>Attributes form a map\<close>

definition attributes_ok :: "xml_node \<Rightarrow> bool" where
  "attributes_ok x \<longleftrightarrow> node_type x = XML_TYPE_ELEMENT \<and> list_all (\<lambda>a. fst a \<noteq> None) (node_attributes x)"

text \<open>The binding of a name: absent, or a value that may be NULL.\<close>

definition attribute_of :: "xml_node \<Rightarrow> string \<Rightarrow> string option option" where
  "attribute_of x n = (case xml_get_attribute (Some x) (Some n) [] of Ret (r, v, as) \<Rightarrow> if r = 0 then v else None | Fault e \<Rightarrow> None)"

definition attribute_put :: "string \<Rightarrow> string option \<Rightarrow> xml_node \<Rightarrow> xml_node" where
  "attribute_put n v x = (case xml_set_attribute (Some x) (Some n) v [] of Ret (r, Some y, as) \<Rightarrow> y | _ \<Rightarrow> x)"

lemma find_attr_ok: "list_all (\<lambda>a. fst a \<noteq> None) ats \<Longrightarrow> find_attr n ats = Ret (find_idx (\<lambda>a. fst a = Some n) ats)"
  by (induction ats) auto

lemma strdup_safe_nil [simp]: "strdup_safe v [] = (v, [])"
  by (simp add: strdup_safe_def strdup_def split: option.split)

lemma attribute_of_find:
  "attributes_ok x \<Longrightarrow> attribute_of x n = map_option snd (List.find (\<lambda>a. fst a = Some n) (node_attributes x))"
  by (auto simp: attribute_of_def xml_get_attribute_def attributes_ok_def find_attr_ok find_idx_find split: option.split)

lemma set_attributes_simps [simp]:
  "node_attributes (set_attributes ats x) = ats" "node_type (set_attributes ats x) = node_type x"
  by (simp_all add: set_attributes_def split: xml_node.split)

lemma attribute_put_list:
  assumes "attributes_ok x"
  shows "attribute_put n v x = set_attributes (case find_idx (\<lambda>a. fst a = Some n) (node_attributes x) of
     Some i \<Rightarrow> (node_attributes x)[i := (Some n, v)] | None \<Rightarrow> (Some n, v) # node_attributes x) x"
proof -
  have "fst (node_attributes x ! i) = Some n" if "find_idx (\<lambda>a. fst a = Some n) (node_attributes x) = Some i" for i
    using find_idx_SomeD [OF that] by simp
  with assms show ?thesis
    by (auto simp: attribute_put_def xml_set_attribute_def attributes_ok_def find_attr_ok create_attribute_def split: option.split)
qed

lemma find_update_found:
  "find_idx (\<lambda>a. fst a = k) xs = Some i \<Longrightarrow>
   List.find (\<lambda>a. fst a = j) (xs[i := (k, v)]) = (if j = k then Some (k, v) else List.find (\<lambda>a. fst a = j) xs)"
  by (induction xs arbitrary: i) (auto split: if_splits nat.split)

lemma list_all_update: "list_all P xs \<Longrightarrow> P y \<Longrightarrow> list_all P (xs[i := y])"
  using set_update_subset_insert [of xs i y] by (auto simp: list_all_iff)

lemma attribute_put_ok:
  assumes "attributes_ok x"
  shows "attributes_ok (attribute_put n v x)" "attribute_of (attribute_put n v x) = (attribute_of x)(n \<mapsto> v)"
proof -
  show ok: "attributes_ok (attribute_put n v x)"
    using assms by (cases "find_idx (\<lambda>a. fst a = Some n) (node_attributes x)")
      (auto simp: attribute_put_list attributes_ok_def intro: list_all_update)
  show "attribute_of (attribute_put n v x) = (attribute_of x)(n \<mapsto> v)"
    unfolding fun_eq_iff attribute_of_find [OF ok]
    by (auto simp: fun_upd_def attribute_of_find [OF assms] attribute_put_list [OF assms] find_update_found split: option.split)
qed

interpretation attributes: keyed_store attribute_of attribute_put "\<lambda>v old. Some v" attributes_ok
  by unfold_locales (auto simp: attribute_put_ok fun_eq_iff)

text \<open>Any sequence of attribute settings on an element is read back as from a map in which the last value of a name wins.\<close>

theorem attributes_refine_map:
  assumes "attributes_ok x"
  shows "attribute_of (fold (\<lambda>(n, v). attribute_put n v) nvs x) = fold (\<lambda>(n, v) m. m(n \<mapsto> v)) nvs (attribute_of x)"
proof -
  have "map_put (\<lambda>v old. Some v) = (\<lambda>(n :: string) (v :: string option) m. m(n \<mapsto> v))" by (simp add: map_put_def fun_eq_iff)
  then show ?thesis using attributes.fold_put_refines [OF assms, of nvs] by simp
qed

theorem attributes_refine_map_witness:
  "attribute_of (fold (\<lambda>(n, v). attribute_put n v) [(''a'', Some ''1''), (''b'', Some ''2''), (''a'', Some ''3'')]
     (Xml_node XML_TYPE_ELEMENT (Some ''e'') None [] [] 0 0)) ''a'' = Some (Some ''3'')"
  using attributes_refine_map [of "Xml_node XML_TYPE_ELEMENT (Some ''e'') None [] [] 0 0"
      "[(''a'', Some ''1''), (''b'', Some ''2''), (''a'', Some ''3'')]"]
  by (simp add: attributes_ok_def)

section \<open>What printing can print\<close>

text \<open>A printed node, when no allocation fails: there is a text, and none has failed.\<close>

definition printed :: "(string option \<times> answers) outcome \<Rightarrow> bool" where
  "printed m \<longleftrightarrow> (\<forall>t as. m = Ret (t, as) \<longrightarrow> t \<noteq> None \<and> as = [])"

lemma printed_simps [simp]: "printed (Fault e)" "printed (Ret (t, as)) \<longleftrightarrow> t \<noteq> None \<and> as = []"
  by (simp_all add: printed_def)

lemma printed_obind: "(\<And>x. m = Ret x \<Longrightarrow> printed (f x)) \<Longrightarrow> printed (obind m f)"
  by (cases m) auto

lemma escape_nil: "escape_xml_string v [] = Ret (e, as) \<Longrightarrow> as = []"
  by (auto simp: escape_xml_string_def Let_def split: option.splits if_splits)

lemma write_attributes_nil: "write_attributes ats buf cap [] = Ret (b, c, as) \<Longrightarrow> as = []"
proof (induction ats arbitrary: buf cap)
  case (Cons at1 ats)
  obtain n v where a: "at1 = (n, v)" by (cases at1)
  with Cons.prems obtain e as1 where e: "escape_xml_string v [] = Ret (e, as1)" by auto
  then have "as1 = []" by (rule escape_nil)
  with Cons a e show ?case by (auto simp: Let_def simp del: strcat_all.simps split: option.splits)
qed simp

text \<open>After children have been printed the buffer is full to the last byte.\<close>

definition full_after :: "xml_node list \<Rightarrow> (string \<times> nat \<times> answers) outcome \<Rightarrow> bool" where
  "full_after xs m \<longleftrightarrow> (\<forall>b c as. m = Ret (b, c, as) \<longrightarrow> as = [] \<and> (xs \<noteq> [] \<longrightarrow> c = length b + 1))"

lemma strcat_exact: "strcat_buf (Suc (length a + length b)) a b = Ret (a @ b)"
  by (simp add: strcat_buf_def)

lemma children_fill:
  "list_all (\<lambda>x. \<forall>i l. printed (format_node_pretty x i l [])) xs \<Longrightarrow> full_after xs (format_children xs i l buf cap [])"
proof (induction xs arbitrary: buf cap)
  case Nil
  then show ?case by (simp add: full_after_def)
next
  case (Cons x xs)
  show ?case
  proof (cases "format_node_pretty x i l []")
    case (Ret y)
    moreover have "printed (format_node_pretty x i l [])" using Cons.prems by simp
    ultimately obtain t where "format_node_pretty x i l [] = Ret (Some t, [])" by (cases y) auto
    moreover have "full_after xs (format_children xs i l (buf @ t) (length buf + length t + 1) [])" using Cons by simp
    ultimately show ?thesis
      by (cases "xs = []") (auto simp: full_after_def Let_def strcat_exact)
  qed (simp add: full_after_def)
qed

text \<open>No text fits into a full buffer.\<close>

lemma full_buffer: "strcat_all (Suc (length b)) b [ind, ''</'', n, t] = Fault Out_of_bounds"
  by (simp add: strcat_buf_def)

lemma children_fillD:
  assumes "list_all (\<lambda>x. \<forall>i l. printed (format_node_pretty x i l [])) xs" and "format_children xs i l buf cap [] = Ret (b, c, as)"
  shows "as = []" "xs \<noteq> [] \<Longrightarrow> c = Suc (length b)"
  using children_fill [OF assms(1), of i l buf cap] assms(2) by (simp_all add: full_after_def)

lemma node_printed: "printed (format_node_pretty x i l [])"
proof (induction x arbitrary: i l)
  case (Xml_node ty nm v ats cs ln1 c)
  then have kids: "list_all (\<lambda>x. \<forall>i l. printed (format_node_pretty x i l [])) cs" by (simp add: list_all_iff)
  show ?case
    by (auto intro!: printed_obind dest!: write_attributes_nil escape_nil
        simp: children_fillD(1) [OF kids] simp del: strcat_all.simps split: option.splits)
qed

lemma printing_children:
  assumes "cs \<noteq> []"
  shows "\<exists>e. format_node_pretty (Xml_node XML_TYPE_ELEMENT nm v ats cs ln1 c) i l [] = Fault e"
proof -
  have kids: "list_all (\<lambda>x. \<forall>i l. printed (format_node_pretty x i l [])) cs" using node_printed by (simp add: list_all_iff)
  have "\<nexists>y. format_node_pretty (Xml_node XML_TYPE_ELEMENT nm v ats cs ln1 c) i l [] = Ret y"
    using assms
    by (auto simp: full_buffer dest!: write_attributes_nil children_fillD(2) [OF kids] simp del: strcat_all.simps split: option.splits)
  then show ?thesis by (cases "format_node_pretty (Xml_node XML_TYPE_ELEMENT nm v ats cs ln1 c) i l []") auto
qed

text \<open>Printing a document whose root element has a child is a fault (while there is memory): the buffer has just been
  resized to fit the last child, and the end tag is written behind it.\<close>

theorem printing_children_overruns:
  assumes "xml_root d = Some (Xml_node XML_TYPE_ELEMENT nm v ats cs ln1 c)" and "cs \<noteq> []"
  shows "\<exists>e. xml_save_string (Some d) [] = Fault e"
  using printing_children [OF assms(2), of nm v ats ln1 c 2 0] assms(1)
  by (auto simp: xml_save_string_def xml_pretty_print_def)

theorem printing_children_overruns_witness:
  "\<exists>e. xml_save_string (Some \<lparr>xml_root = Some (Xml_node XML_TYPE_ELEMENT (Some ''a'') None []
       [Xml_node XML_TYPE_TEXT None (Some ''t'') [] [] 1 1] 1 1), xml_version = None, xml_encoding = None, xml_standalone = None,
     xml_doctype = None, xml_filename = None\<rparr>) [] = Fault e"
  by (rule printing_children_overruns [of _ "Some ''a''" None "[]" "[Xml_node XML_TYPE_TEXT None (Some ''t'') [] [] 1 1]" 1 1]) simp_all

end
