(* ===== verification/Xml_Links.thy ===== *)
theory Xml_Links
  imports Xml_Tree
begin

text \<open>
  The links between XML nodes (src/xml/xml_parser_module.c, \<open>xml_add_child\<close> and \<open>xml_remove_child\<close>): nodes
  live at addresses and each has pointers to its parent, its first and last child and its neighbours.
  The children of a node are a doubly linked list, and the two functions refine the operations on
  lists that \<^verbatim>\<open>Xml_Tree\<close> uses. Address 0 is NULL.
\<close>

section \<open>Nodes in memory\<close>

record xml_links =
  l_type :: xml_node_type
  l_parent :: nat
  l_first_child :: nat
  l_last_child :: nat
  l_prev :: nat
  l_next :: nat

type_synonym xml_heap = "nat \<rightharpoonup> xml_links"

definition node_at :: "nat \<Rightarrow> xml_heap \<Rightarrow> xml_links outcome" where
  "node_at a h = (if a = 0 then Fault Null_deref else case h a of None \<Rightarrow> Fault Use_after_free | Some n \<Rightarrow> Ret n)"

definition set_node :: "nat \<Rightarrow> (xml_links \<Rightarrow> xml_links) \<Rightarrow> xml_heap \<Rightarrow> xml_heap outcome" where
  "set_node a f h = obind (node_at a h) (\<lambda>n. Ret (h(a \<mapsto> f n)))"

definition xml_add_child :: "nat \<Rightarrow> nat \<Rightarrow> xml_heap \<Rightarrow> (int \<times> xml_heap) outcome" where
  "xml_add_child parent child h =
     (if parent = 0 \<or> child = 0 then Ret (-1, h)
      else obind (node_at parent h) (\<lambda>p.
        if l_type p \<noteq> XML_TYPE_ELEMENT then Ret (-1, h)
        else obind (set_node child (l_parent_update (\<lambda>_. parent)) h) (\<lambda>h1.
          obind (node_at parent h1) (\<lambda>p1.
          if l_first_child p1 = 0
          then obind (set_node parent (\<lambda>n. n\<lparr>l_first_child := child, l_last_child := child\<rparr>) h1) (\<lambda>h2.
            obind (set_node child (\<lambda>n. n\<lparr>l_prev := 0, l_next := 0\<rparr>) h2) (\<lambda>h3. Ret (0, h3)))
          else obind (set_node child (\<lambda>n. n\<lparr>l_prev := l_last_child p1, l_next := 0\<rparr>) h1) (\<lambda>h2.
            obind (set_node (l_last_child p1) (l_next_update (\<lambda>_. child)) h2) (\<lambda>h3.
            obind (set_node parent (l_last_child_update (\<lambda>_. child)) h3) (\<lambda>h4. Ret (0, h4))))))))"

definition xml_remove_child :: "nat \<Rightarrow> nat \<Rightarrow> xml_heap \<Rightarrow> (int \<times> xml_heap) outcome" where
  "xml_remove_child parent child h =
     (if parent = 0 \<or> child = 0 then Ret (-1, h)
      else obind (node_at child h) (\<lambda>c.
        if l_parent c \<noteq> parent then Ret (-1, h)
        else obind
          (if l_prev c \<noteq> 0 then set_node (l_prev c) (l_next_update (\<lambda>_. l_next c)) h
           else set_node parent (l_first_child_update (\<lambda>_. l_next c)) h) (\<lambda>h1.
        obind (node_at child h1) (\<lambda>c1. obind
          (if l_next c1 \<noteq> 0 then set_node (l_next c1) (l_prev_update (\<lambda>_. l_prev c1)) h1
           else set_node parent (l_last_child_update (\<lambda>_. l_prev c1)) h1) (\<lambda>h2.
        obind (set_node child (\<lambda>n. n\<lparr>l_parent := 0, l_prev := 0, l_next := 0\<rparr>) h2) (\<lambda>h3. Ret (0, h3)))))))"

text \<open>Freeing a node, and the loop over a node and its right neighbours. The walk follows the pointers, so it takes fuel; the
  blocks of names, values and attributes have one owner each and are not tracked. The node is read once more after its children
  have been freed.\<close>

fun free_node_recursive :: "nat \<Rightarrow> nat \<Rightarrow> xml_heap \<Rightarrow> xml_heap outcome option"
  and free_siblings :: "nat \<Rightarrow> nat \<Rightarrow> xml_heap \<Rightarrow> xml_heap outcome option" where
  "free_node_recursive 0 a h = None"
| "free_node_recursive (Suc n) a h =
     (if a = 0 then Some (Ret h)
      else rbind (Some (node_at a h)) (\<lambda>x. rbind (free_siblings n (l_first_child x) h) (\<lambda>h1.
        rbind (Some (node_at a h1)) (\<lambda>y. Some (Ret (h1(a := None)))))))"
| "free_siblings 0 c h = None"
| "free_siblings (Suc n) c h =
     (if c = 0 then Some (Ret h)
      else rbind (Some (node_at c h)) (\<lambda>x. rbind (free_node_recursive n c h) (free_siblings n (l_next x))))"

definition xml_free_node :: "nat \<Rightarrow> nat \<Rightarrow> xml_heap \<Rightarrow> xml_heap outcome option" where
  "xml_free_node fuel a h = (if a \<noteq> 0 then free_node_recursive fuel a h else Some (Ret h))"

section \<open>Doubly linked lists\<close>

definition hd_or :: "nat list \<Rightarrow> nat \<Rightarrow> nat" where
  "hd_or xs d = (case xs of [] \<Rightarrow> d | x # _ \<Rightarrow> x)"

definition last_or :: "nat list \<Rightarrow> nat \<Rightarrow> nat" where
  "last_or xs d = (if xs = [] then d else last xs)"

lemma hd_or_simps [simp]: "hd_or [] d = d" "hd_or (x # xs) d = x"
  by (simp_all add: hd_or_def)

lemma last_or_simps [simp]: "last_or [] d = d" "last_or (xs @ [x]) d = x" "last_or (x # xs) d = last_or xs x"
  by (simp_all add: last_or_def)

lemma hd_or_append: "hd_or (xs @ ys) d = hd_or xs (hd_or ys d)"
  by (cases xs) simp_all

lemma last_or_append: "last_or (xs @ ys) d = last_or ys (last_or xs d)"
  by (simp add: last_or_def)

text \<open>The nodes \<open>xs\<close> are linked in this order below \<open>p\<close>, between the neighbours \<open>a\<close> and \<open>b\<close>.\<close>

fun linked :: "xml_heap \<Rightarrow> nat \<Rightarrow> nat \<Rightarrow> nat list \<Rightarrow> nat \<Rightarrow> bool" where
  "linked h p a [] b = True"
| "linked h p a (x # xs) b \<longleftrightarrow>
     (\<exists>n. h x = Some n \<and> l_parent n = p \<and> l_prev n = a \<and> l_next n = hd_or xs b) \<and> linked h p x xs b"

lemma linked_append: "linked h p a (xs @ ys) b \<longleftrightarrow> linked h p a xs (hd_or ys b) \<and> linked h p (last_or xs a) ys b"
  by (induction xs arbitrary: a) (auto simp: hd_or_append)

lemma linked_upd [simp]: "y \<notin> set xs \<Longrightarrow> linked (h(y := z)) p a xs b = linked h p a xs b"
  by (induction xs arbitrary: a) auto

lemma linked_node: "linked h p a xs b \<Longrightarrow> x \<in> set xs \<Longrightarrow> \<exists>n. h x = Some n \<and> l_parent n = p"
  by (induction xs arbitrary: a) auto

text \<open>A node's children, among the nodes \<open>C\<close> that are there.\<close>

definition child_list :: "nat set \<Rightarrow> nat \<Rightarrow> xml_heap \<Rightarrow> nat list \<Rightarrow> bool" where
  "child_list C p h xs \<longleftrightarrow> p \<noteq> 0 \<and> p \<notin> C \<and> 0 \<notin> C \<and> set xs \<subseteq> C \<and> distinct xs \<and> linked h p 0 xs 0
     \<and> (\<exists>n. h p = Some n \<and> l_type n = XML_TYPE_ELEMENT \<and> l_first_child n = hd_or xs 0 \<and> l_last_child n = last_or xs 0)
     \<and> (\<forall>c \<in> C. \<exists>n. h c = Some n \<and> (c \<notin> set xs \<longrightarrow> l_parent n \<noteq> p))"

lemma child_listD:
  assumes "child_list C p h xs"
  shows "p \<noteq> 0" "p \<notin> C" "0 \<notin> C" "set xs \<subseteq> C" "distinct xs" "linked h p 0 xs 0"
    "\<exists>n. h p = Some n \<and> l_type n = XML_TYPE_ELEMENT \<and> l_first_child n = hd_or xs 0 \<and> l_last_child n = last_or xs 0"
    "c \<in> C \<Longrightarrow> \<exists>n. h c = Some n \<and> (c \<notin> set xs \<longrightarrow> l_parent n \<noteq> p)"
  using assms by (auto simp: child_list_def)

lemma set_node_Some [simp]: "h a = Some n \<Longrightarrow> a \<noteq> 0 \<Longrightarrow> set_node a f h = Ret (h(a \<mapsto> f n))"
  by (simp add: set_node_def node_at_def)

lemma node_at_Some [simp]: "h a = Some n \<Longrightarrow> a \<noteq> 0 \<Longrightarrow> node_at a h = Ret n"
  by (simp add: node_at_def)

text \<open>The last node of a list gets a new right neighbour.\<close>

lemma linked_new_end:
  assumes "linked h p a (xs @ [x]) b" and "x \<notin> set xs"
  shows "\<exists>n. h x = Some n \<and> linked (h(x \<mapsto> n\<lparr>l_next := c\<rparr>)) p a (xs @ [x]) c"
  using assms by (auto simp: linked_append)

text \<open>The first node of a list gets a new left neighbour.\<close>

lemma linked_new_start:
  assumes "linked h p a (x # xs) b" and "x \<notin> set xs"
  shows "\<exists>n. h x = Some n \<and> linked (h(x \<mapsto> n\<lparr>l_prev := c\<rparr>)) p c (x # xs) b"
  using assms by auto

section \<open>The operations refine those on lists\<close>

lemma add_child_appends:
  assumes "child_list C p h xs" and "c \<in> C" and "c \<notin> set xs"
  shows "\<exists>h'. xml_add_child p c h = Ret (0, h') \<and> child_list C p h' (xs @ [c])"
proof -
  note k = child_listD [OF assms(1)]
  obtain pn where pn: "h p = Some pn" "l_type pn = XML_TYPE_ELEMENT" "l_first_child pn = hd_or xs 0" "l_last_child pn = last_or xs 0"
    using k(7) by blast
  obtain cn where cn: "h c = Some cn" using k(8) [OF assms(2)] by blast
  have "c \<noteq> 0" using k(3) assms(2) by metis
  moreover have "c \<noteq> p" "p \<notin> set xs" "0 \<notin> set xs" using k(2-4) assms(2) by auto
  ultimately have d: "c \<noteq> 0" "c \<noteq> p" "p \<notin> set xs" "0 \<notin> set xs" by blast+
  show ?thesis
  proof (cases xs rule: rev_cases)
    case Nil
    with k assms pn cn d show ?thesis by (auto simp: xml_add_child_def child_list_def)
  next
    case (snoc ys z)
    then have z: "z \<noteq> 0" "z \<noteq> p" "z \<noteq> c" "z \<notin> set ys" "z \<in> C" using d k(4,5) assms(3) by auto
    obtain zn where zn: "h z = Some zn" "linked (h(z \<mapsto> zn\<lparr>l_next := c\<rparr>)) p 0 xs c"
      using linked_new_end [of h p 0 ys z 0 c] k(6) snoc z(4) by auto
    define h' where "h' = h(c \<mapsto> cn\<lparr>l_parent := p, l_prev := z, l_next := 0\<rparr>, z \<mapsto> zn\<lparr>l_next := c\<rparr>, p \<mapsto> pn\<lparr>l_last_child := c\<rparr>)"
    have "hd_or xs 0 \<noteq> 0" using d(4) snoc by (cases ys) auto
    then have "xml_add_child p c h = Ret (0, h')"
      using pn cn d z zn(1) k(1) snoc by (simp add: xml_add_child_def h'_def fun_upd_twist)
    moreover have "linked h' p 0 (xs @ [c]) 0"
    proof -
      have "h' = (h(z \<mapsto> zn\<lparr>l_next := c\<rparr>))(c \<mapsto> cn\<lparr>l_parent := p, l_prev := z, l_next := 0\<rparr>, p \<mapsto> pn\<lparr>l_last_child := c\<rparr>)"
        using z(3) by (simp add: h'_def fun_upd_twist)
      then have "linked h' p 0 xs c" using zn(2) assms(3) d(3) by simp
      then show ?thesis using snoc d(2) z by (simp add: linked_append h'_def)
    qed
    ultimately show ?thesis using k assms pn d z zn(1) snoc by (auto simp: child_list_def h'_def hd_or_append last_or_append)
  qed
qed

text \<open>The two halves around a child that is taken out.\<close>

lemma remove_child_removes:
  assumes "child_list C p h (ys @ c # zs)"
  shows "\<exists>h'. xml_remove_child p c h = Ret (0, h') \<and> child_list C p h' (ys @ zs)"
proof -
  note k = child_listD [OF assms]
  obtain pn where pn: "h p = Some pn" "l_type pn = XML_TYPE_ELEMENT" "l_first_child pn = hd_or ys c" "l_last_child pn = last_or zs c"
    using k(7) by (auto simp: hd_or_append last_or_append)
  have l: "linked h p 0 ys c" "linked h p c zs 0" using k(6) by (simp_all add: linked_append)
  obtain cn where cn: "h c = Some cn" "l_parent cn = p" "l_prev cn = last_or ys 0" "l_next cn = hd_or zs 0"
    using k(6) by (auto simp: linked_append)
  have d: "c \<noteq> 0" "c \<noteq> p" "p \<notin> set ys" "p \<notin> set zs" "0 \<notin> set ys" "0 \<notin> set zs" "c \<notin> set ys" "c \<notin> set zs"
    "set ys \<inter> set zs = {}" "distinct ys" "distinct zs"
    using k(2-5) by auto
  define hl where "hl = (if ys = [] then h(p \<mapsto> pn\<lparr>l_first_child := hd_or zs 0\<rparr>)
    else h(last ys \<mapsto> (the (h (last ys)))\<lparr>l_next := hd_or zs 0\<rparr>))"
  have left: "(if l_prev cn \<noteq> 0 then set_node (l_prev cn) (l_next_update (\<lambda>_. l_next cn)) h
      else set_node p (l_first_child_update (\<lambda>_. l_next cn)) h) = Ret hl \<and> linked hl p 0 ys (hd_or zs 0) \<and> linked hl p c zs 0
    \<and> hl c = Some cn \<and> (\<exists>qn. hl p = Some qn \<and> l_type qn = XML_TYPE_ELEMENT \<and> l_first_child qn = hd_or (ys @ zs) 0
        \<and> l_last_child qn = last_or zs c) \<and> (\<forall>x. x \<noteq> p \<longrightarrow> x \<notin> set ys \<longrightarrow> hl x = h x)"
  proof (cases ys rule: rev_cases)
    case Nil
    then show ?thesis using cn pn d l k(1) by (simp add: hl_def)
  next
    case (snoc us u)
    then obtain un where "h u = Some un" "linked (h(u \<mapsto> un\<lparr>l_next := hd_or zs 0\<rparr>)) p 0 ys (hd_or zs 0)"
      using linked_new_end [of h p 0 us u c "hd_or zs 0"] l(1) d(10) by auto
    then show ?thesis using snoc cn pn d l by (cases us) (auto simp: hl_def hd_or_append)
  qed
  then obtain qn where qn: "hl p = Some qn" "l_type qn = XML_TYPE_ELEMENT" "l_first_child qn = hd_or (ys @ zs) 0" "l_last_child qn = last_or zs c"
    by blast
  define hr where "hr = (if zs = [] then hl(p \<mapsto> qn\<lparr>l_last_child := last_or ys 0\<rparr>)
    else hl(hd zs \<mapsto> (the (hl (hd zs)))\<lparr>l_prev := last_or ys 0\<rparr>))"
  have right: "(if l_next cn \<noteq> 0 then set_node (l_next cn) (l_prev_update (\<lambda>_. l_prev cn)) hl
      else set_node p (l_last_child_update (\<lambda>_. l_prev cn)) hl) = Ret hr \<and> linked hr p 0 (ys @ zs) 0 \<and> hr c = Some cn
    \<and> (\<exists>qn. hr p = Some qn \<and> l_type qn = XML_TYPE_ELEMENT \<and> l_first_child qn = hd_or (ys @ zs) 0
        \<and> l_last_child qn = last_or (ys @ zs) 0) \<and> (\<forall>x. x \<noteq> p \<longrightarrow> x \<notin> set (ys @ zs) \<longrightarrow> hr x = h x)"
  proof (cases zs)
    case Nil
    then show ?thesis using left cn qn d k(1) by (simp add: hr_def)
  next
    case (Cons u us)
    then obtain un where "hl u = Some un" "linked (hl(u \<mapsto> un\<lparr>l_prev := last_or ys 0\<rparr>)) p (last_or ys 0) zs 0"
      using linked_new_start [of hl p c u us 0 "last_or ys 0"] left d(11) by auto
    then show ?thesis using Cons left cn qn d by (auto simp: hr_def linked_append last_or_append)
  qed
  have "linked (hr(c \<mapsto> cn\<lparr>l_parent := 0, l_prev := 0, l_next := 0\<rparr>)) p 0 (ys @ zs) 0" using right d by simp
  moreover have "xml_remove_child p c h = Ret (0, hr(c \<mapsto> cn\<lparr>l_parent := 0, l_prev := 0, l_next := 0\<rparr>))"
    using left right cn(1,2) d(1) k(1) by (simp add: xml_remove_child_def)
  moreover have "\<exists>n. hr x = Some n \<and> (x \<notin> set (ys @ zs) \<longrightarrow> l_parent n \<noteq> p)" if "x \<in> C" "x \<noteq> c" for x
  proof (cases "x \<in> set (ys @ zs)")
    case True
    then show ?thesis using linked_node [of hr p 0 "ys @ zs" 0 x] right by auto
  next
    case False
    then show ?thesis using k(2) k(8) [OF that(1)] that right by auto
  qed
  ultimately show ?thesis using k right d by (auto simp: child_list_def)
qed

text \<open>A child that is not in the list has another parent or none, and is refused.\<close>

lemma remove_child_refuses:
  assumes "child_list C p h xs" and "c \<in> C" and "c \<notin> set xs"
  shows "xml_remove_child p c h = Ret (-1, h)"
proof -
  have "c \<noteq> 0" using child_listD(3) [OF assms(1)] assms(2) by metis
  with child_listD(8) [OF assms(1,2)] assms(3) show ?thesis by (auto simp: xml_remove_child_def)
qed

datatype link_op = Add_child nat | Remove_child nat

fun link_step :: "nat \<Rightarrow> link_op \<Rightarrow> xml_heap \<Rightarrow> (int \<times> xml_heap) outcome" where
  "link_step p (Add_child c) h = xml_add_child p c h"
| "link_step p (Remove_child c) h = xml_remove_child p c h"

fun run_links :: "nat \<Rightarrow> link_op list \<Rightarrow> xml_heap \<Rightarrow> (int list \<times> xml_heap) outcome" where
  "run_links p [] h = Ret ([], h)"
| "run_links p (x # xs) h = obind (link_step p x h) (\<lambda>(r, h1). obind (run_links p xs h1) (\<lambda>(rs, h2). Ret (r # rs, h2)))"

text \<open>The operations on a list of children, with the code each returns.\<close>

fun list_step :: "link_op \<Rightarrow> nat list \<Rightarrow> int \<times> nat list" where
  "list_step (Add_child c) xs = (0, xs @ [c])"
| "list_step (Remove_child c) xs = (if c \<in> set xs then (0, remove1 c xs) else (-1, xs))"

fun run_list :: "link_op list \<Rightarrow> nat list \<Rightarrow> int list \<times> nat list" where
  "run_list [] xs = ([], xs)"
| "run_list (x # ops) xs = (case list_step x xs of (r, ys) \<Rightarrow> (case run_list ops ys of (rs, zs) \<Rightarrow> (r # rs, zs)))"

text \<open>A child is added only while it is not in the list.\<close>

fun links_used_well :: "nat set \<Rightarrow> link_op list \<Rightarrow> nat list \<Rightarrow> bool" where
  "links_used_well C [] xs = True"
| "links_used_well C (Add_child c # ops) xs \<longleftrightarrow> c \<in> C \<and> c \<notin> set xs \<and> links_used_well C ops (xs @ [c])"
| "links_used_well C (Remove_child c # ops) xs \<longleftrightarrow> c \<in> C \<and> links_used_well C ops (remove1 c xs)"

text \<open>C23: Any sequence of calls of \<open>xml_add_child\<close> and \<open>xml_remove_child\<close> that adds a node only while it is not among the
  children runs without a fault, returns what the operations on a list return, and keeps the parent, child and sibling pointers a
  doubly linked list of exactly that list.\<close>

theorem child_links_refine_list:
  assumes "child_list C p h xs" and "links_used_well C ops xs"
  shows "\<exists>h'. run_links p ops h = Ret (fst (run_list ops xs), h') \<and> child_list C p h' (snd (run_list ops xs))"
  using assms
proof (induction ops arbitrary: h xs)
  case (Cons x ops)
  have "\<exists>h1 ys r. link_step p x h = Ret (r, h1) \<and> list_step x xs = (r, ys) \<and> child_list C p h1 ys \<and> links_used_well C ops ys"
  proof (cases x)
    case (Add_child c)
    then show ?thesis using add_child_appends [OF Cons.prems(1), of c] Cons.prems(2) by auto
  next
    case (Remove_child c)
    show ?thesis
    proof (cases "c \<in> set xs")
      case True
      then obtain ys zs where s: "xs = ys @ c # zs" "c \<notin> set ys" by (metis split_list_first)
      then show ?thesis
        using remove_child_removes [of C p h ys c zs] Cons.prems Remove_child by (auto simp: remove1_append)
    next
      case False
      then show ?thesis
        using remove_child_refuses [OF Cons.prems(1)] Cons.prems Remove_child by (auto simp: remove1_idem)
    qed
  qed
  then obtain h1 ys r where 1: "link_step p x h = Ret (r, h1)" "list_step x xs = (r, ys)" "child_list C p h1 ys" "links_used_well C ops ys"
    by blast
  from Cons.IH [OF 1(3,4)] 1 show ?case by (auto split: prod.splits)
qed simp

definition lone_element :: xml_links where
  "lone_element = \<lparr>l_type = XML_TYPE_ELEMENT, l_parent = 0, l_first_child = 0, l_last_child = 0, l_prev = 0, l_next = 0\<rparr>"

theorem child_links_refine_list_witness:
  "\<exists>h'. run_links 1 [Add_child 2, Add_child 3, Remove_child 2] (\<lambda>a. if a \<le> 3 then Some lone_element else None) = Ret ([0, 0, 0], h')
    \<and> child_list {2, 3} 1 h' [3]"
proof -
  have "child_list {2, 3} 1 (\<lambda>a. if a \<le> 3 then Some lone_element else None) []" by (simp add: child_list_def lone_element_def)
  from child_links_refine_list [OF this, of "[Add_child 2, Add_child 3, Remove_child 2]"] show ?thesis by simp
qed

text \<open>The condition is needed: a node that is added while it is the last child becomes its own right neighbour, and a walk over the
  children does not end.\<close>

theorem adding_twice_makes_a_cycle:
  assumes "child_list C p h (xs @ [c])"
  shows "\<exists>h' n. xml_add_child p c h = Ret (0, h') \<and> h' c = Some n \<and> l_next n = c \<and> l_prev n = c"
proof -
  note k = child_listD [OF assms]
  have "c \<noteq> 0" using k(3,4) by (metis in_set_conv_decomp subset_code(1))
  moreover obtain n where "h c = Some n" using k(4) k(8) [of c] by auto
  moreover have "hd_or (xs @ [c]) 0 \<noteq> 0" using k(3,4) \<open>c \<noteq> 0\<close> by (cases xs) (auto intro: gr0I)
  moreover obtain pn where "h p = Some pn" "l_type pn = XML_TYPE_ELEMENT" "l_first_child pn = hd_or (xs @ [c]) 0" "l_last_child pn = c"
    using k(7) by auto
  moreover have "c \<noteq> p" using k(2,4) by auto
  ultimately have "xml_add_child p c h
      = Ret (0, h(c \<mapsto> n\<lparr>l_parent := p, l_prev := c, l_next := c\<rparr>, p \<mapsto> pn\<lparr>l_last_child := c\<rparr>))"
    using k(1) by (simp add: xml_add_child_def)
  then show ?thesis using \<open>c \<noteq> p\<close> by simp
qed

section \<open>Freeing a tree\<close>

datatype link_tree = Link_tree (tree_root: nat) "link_tree list"

fun tree_nodes :: "link_tree \<Rightarrow> nat list" where
  "tree_nodes (Link_tree a ts) = a # concat (map tree_nodes ts)"

fun tree_at :: "xml_heap \<Rightarrow> link_tree \<Rightarrow> bool" and forest_at :: "xml_heap \<Rightarrow> link_tree list \<Rightarrow> bool" where
  "tree_at h (Link_tree a ts) \<longleftrightarrow> a \<noteq> 0 \<and> (\<exists>n. h a = Some n \<and> l_first_child n = hd_or (map tree_root ts) 0) \<and> forest_at h ts"
| "forest_at h [] \<longleftrightarrow> True"
| "forest_at h (t # ts) \<longleftrightarrow> (\<exists>n. h (tree_root t) = Some n \<and> l_next n = hd_or (map tree_root ts) 0) \<and> tree_at h t \<and> forest_at h ts"

lemma root_in_nodes: "tree_root t \<in> set (tree_nodes t)"
  by (cases t) simp

lemma tree_at_cong: "\<forall>x \<in> set (tree_nodes t). g x = h x \<Longrightarrow> tree_at g t = tree_at h t"
  and forest_at_cong: "\<forall>x \<in> set (concat (map tree_nodes ts)). g x = h x \<Longrightarrow> forest_at g ts = forest_at h ts"
  by (induction t and ts rule: tree_at_forest_at.induct) (auto simp: root_in_nodes)

lemma tree_root_at: "tree_at h t \<Longrightarrow> tree_root t \<noteq> 0 \<and> (\<exists>n. h (tree_root t) = Some n)"
  by (cases t) auto

lemma tree_nodes_pos: "0 < length (tree_nodes t)"
  by (cases t) simp

text \<open>Induction over trees and forests for properties of every heap.\<close>

lemma tree_forest_induct [case_names tree none more]:
  assumes "\<And>a ts. Q ts \<Longrightarrow> P (Link_tree a ts)" and "Q []" and "\<And>t ts. P t \<Longrightarrow> Q ts \<Longrightarrow> Q (t # ts)"
  shows "P t" and "Q ts"
proof -
  have all: "P t" for t
  proof (induction t)
    case (Link_tree a us)
    then have "Q us" by (induction us) (auto intro: assms)
    then show ?case by (rule assms(1))
  qed
  then show "P t" .
  from all show "Q ts" by (induction ts) (auto intro: assms)
qed

lemma free_walk:
  shows "tree_at h t \<Longrightarrow> distinct (tree_nodes t) \<Longrightarrow> 2 * length (tree_nodes t) \<le> fuel \<Longrightarrow>
      free_node_recursive fuel (tree_root t) h = Some (Ret (h |` (- set (tree_nodes t))))"
    and "forest_at h ts \<Longrightarrow> distinct (concat (map tree_nodes ts)) \<Longrightarrow> 2 * length (concat (map tree_nodes ts)) < fuel \<Longrightarrow>
      free_siblings fuel (hd_or (map tree_root ts) 0) h = Some (Ret (h |` (- set (concat (map tree_nodes ts)))))"
proof (induction t and ts arbitrary: h fuel and h fuel rule: tree_forest_induct)
  case (tree a ts)
  then obtain n m where n: "h a = Some n" "l_first_child n = hd_or (map tree_root ts) 0" "fuel = Suc m" by (cases fuel) auto
  define h1 where "h1 = h |` (- set (concat (map tree_nodes ts)))"
  have "free_siblings m (l_first_child n) h = Some (Ret h1)"
    using tree.IH [of h m] tree.prems n by (simp add: h1_def)
  moreover have "h1 a = Some n" using n(1) tree.prems(2) by (simp add: h1_def restrict_map_def)
  moreover have "h1(a := None) = h |` (- set (tree_nodes (Link_tree a ts)))" by (auto simp: h1_def restrict_map_def fun_eq_iff)
  ultimately show ?case using n tree.prems(1) by (simp add: rbind_def)
next
  case none
  then show ?case by (cases fuel) (auto simp: restrict_map_def)
next
  case (more t ts)
  then obtain n m where n: "h (tree_root t) = Some n" "l_next n = hd_or (map tree_root ts) 0" "fuel = Suc m" by (cases fuel) auto
  define h1 where "h1 = h |` (- set (tree_nodes t))"
  have "free_node_recursive m (tree_root t) h = Some (Ret h1)"
    using more.IH(1) [of h m] more.prems n(3) by (simp add: h1_def)
  moreover have "forest_at h1 ts = forest_at h ts"
    by (rule forest_at_cong) (use more.prems(2) in \<open>auto simp: h1_def restrict_map_def\<close>)
  then have "free_siblings m (hd_or (map tree_root ts) 0) h1 = Some (Ret (h1 |` (- set (concat (map tree_nodes ts)))))"
  proof -
    have "2 * length (concat (map tree_nodes ts)) < m" using more.prems(3) n(3) tree_nodes_pos [of t] by (simp del: length_greater_0_conv)
    with more.IH(2) [of h1 m] more.prems(1,2) \<open>forest_at h1 ts = forest_at h ts\<close> show ?thesis by simp
  qed
  moreover have "h1 |` (- set (concat (map tree_nodes ts))) = h |` (- set (concat (map tree_nodes (t # ts))))"
    by (auto simp: h1_def restrict_map_def fun_eq_iff)
  ultimately show ?case using n tree_root_at [of h t] more.prems(1) by (simp add: rbind_def)
qed

text \<open>C24: Freeing a node whose subtree is well linked takes fuel for twice its nodes, runs without a fault, and frees exactly the
  nodes of the subtree.\<close>

theorem free_releases_the_tree:
  assumes "tree_at h t" and "distinct (tree_nodes t)" and "2 * length (tree_nodes t) \<le> fuel"
  shows "xml_free_node fuel (tree_root t) h = Some (Ret (h |` (- set (tree_nodes t))))"
  using free_walk(1) [OF assms] tree_root_at [OF assms(1)] by (simp add: xml_free_node_def)

theorem free_releases_the_tree_witness:
  "xml_free_node 6 1 [1 \<mapsto> lone_element\<lparr>l_first_child := 2, l_last_child := 3\<rparr>, 2 \<mapsto> lone_element\<lparr>l_parent := 1, l_next := 3\<rparr>,
      3 \<mapsto> lone_element\<lparr>l_parent := 1, l_prev := 2\<rparr>] = Some (Ret Map.empty)"
proof -
  define h :: xml_heap where "h = [1 \<mapsto> lone_element\<lparr>l_first_child := 2, l_last_child := 3\<rparr>, 2 \<mapsto> lone_element\<lparr>l_parent := 1, l_next := 3\<rparr>,
      3 \<mapsto> lone_element\<lparr>l_parent := 1, l_prev := 2\<rparr>]"
  have "tree_at h (Link_tree 1 [Link_tree 2 [], Link_tree 3 []])" by (simp add: h_def lone_element_def)
  from free_releases_the_tree [OF this, of 6] have "xml_free_node 6 1 h = Some (Ret (h |` (- {1, 2, 3})))" by simp
  moreover have "h |` (- {1, 2, 3}) = Map.empty" by (auto simp: h_def restrict_map_def fun_eq_iff)
  ultimately show ?thesis by (simp add: h_def)
qed

end
