(* ===== verification/Xml_Parser.thy ===== *)
theory Xml_Parser
  imports Xml_Tree
begin

text \<open>
  The XML parser (src/xml/xml_parser_module.c): recursive descent over a NUL-terminated buffer. The
  functions that make a node or a string give None when the code returns -1 or NULL. The loop over the
  children of an element and the loop over its attributes need not make progress, so they take fuel,
  and so does everything that calls them: None is a run that has not returned when the fuel is used
  up. \<open>documents_are_parsed\<close> shows how much fuel well-formed documents need, \<open>stray_character_hangs\<close> and
  \<open>markup_hangs\<close> that for some texts no fuel is enough.
\<close>

section \<open>State\<close>

record xml_parser =
  x_input :: string
  x_length :: nat
  x_position :: nat
  x_depth :: nat
  x_line :: int
  x_column :: int
  x_error :: xml_error

definition xml_max_depth :: nat where "xml_max_depth = 100"

definition x_window :: "xml_parser \<Rightarrow> string" where
  "x_window p = drop (x_position p) (take (x_length p) (x_input p))"

definition x_advance :: "nat \<Rightarrow> xml_parser \<Rightarrow> xml_parser" where
  "x_advance n p = p\<lparr>x_position := x_position p + n\<rparr>"

definition x_end :: "xml_parser \<Rightarrow> bool" where
  "x_end p \<longleftrightarrow> x_length p \<le> x_position p"

text \<open>The character \<open>n\<close> places on.\<close>

definition x_char :: "nat \<Rightarrow> xml_parser \<Rightarrow> char" where
  "x_char n p = (if x_position p + n < length (x_input p) then x_input p ! (x_position p + n) else NUL)"

definition set_parser_error :: "xml_error \<Rightarrow> xml_parser \<Rightarrow> xml_parser" where
  "set_parser_error e p = p\<lparr>x_error := e\<rparr>"

definition update_position :: "char \<Rightarrow> xml_parser \<Rightarrow> xml_parser" where
  "update_position c p = (if c = NL then p\<lparr>x_line := x_line p + 1, x_column := 1\<rparr> else p\<lparr>x_column := x_column p + 1\<rparr>)"

definition xml_skip_whitespace :: "xml_parser \<Rightarrow> xml_parser" where
  "xml_skip_whitespace p = fold (\<lambda>c q. x_advance 1 (update_position c q)) (takeWhile is_space (x_window p)) p"

section \<open>Strings\<close>

definition parse_name :: "xml_parser \<Rightarrow> answers \<Rightarrow> string option \<times> xml_parser \<times> answers" where
  "parse_name p as = (let n = takeWhile is_name_char (x_window p); p1 = x_advance (length n) p in
     if n = [] then (None, p1, as)
     else case next_answer as of (ok, as1) \<Rightarrow> (if ok then Some n else None, p1, as1))"

definition parse_quoted_string :: "xml_parser \<Rightarrow> answers \<Rightarrow> string option \<times> xml_parser \<times> answers" where
  "parse_quoted_string p as =
     (if x_end p then (None, p, as)
      else let quote = x_char 0 p in
        if quote \<noteq> CHR 0x22 \<and> quote \<noteq> CHR 0x27 then (None, p, as)
        else let p1 = x_advance 1 p; t = takeWhile (\<lambda>c. c \<noteq> quote) (x_window p1); p2 = x_advance (length t) p1 in
          if x_end p2 then (None, p2, as)
          else case next_answer as of (ok, as1) \<Rightarrow>
            if ok then (Some (c_str t), x_advance 1 p2, as1) else (None, p2, as1))"

section \<open>Attributes and tags\<close>

definition parse_attribute :: "xml_parser \<Rightarrow> answers \<Rightarrow> xml_attribute option \<times> xml_parser \<times> answers" where
  "parse_attribute p as = (case parse_name p as of (n, p1, as1) \<Rightarrow> (case n of
     None \<Rightarrow> (None, p1, as1)
   | Some name \<Rightarrow> (let p2 = xml_skip_whitespace p1 in
       if x_end p2 \<or> x_char 0 p2 \<noteq> CHR ''='' then (None, p2, as1)
       else case parse_quoted_string (xml_skip_whitespace (x_advance 1 p2)) as1 of (v, p3, as2) \<Rightarrow> (case v of
           None \<Rightarrow> (None, p3, as2)
         | Some value \<Rightarrow> (case create_attribute (Some name) (Some value) as2 of (a, as3) \<Rightarrow> (a, p3, as3))))))"

text \<open>An attribute that is not well formed is left out; the loop goes on where its parsing stopped.\<close>

fun parse_attributes ::
  "nat \<Rightarrow> xml_attribute list \<Rightarrow> xml_parser \<Rightarrow> answers \<Rightarrow> (xml_attribute list \<times> xml_parser \<times> answers) option" where
  "parse_attributes 0 ats p as = None"
| "parse_attributes (Suc n) ats p as =
     (if x_end p then Some (ats, p, as)
      else let p1 = xml_skip_whitespace p in
        if x_end p1 then Some (ats, p1, as)
        else if x_char 0 p1 = CHR ''>'' \<or> x_char 0 p1 = CHR ''/'' then Some (ats, p1, as)
        else case parse_attribute p1 as of (a, p2, as1) \<Rightarrow>
          parse_attributes n (case a of None \<Rightarrow> ats | Some at1 \<Rightarrow> at1 # ats) p2 as1)"

text \<open>Walking to one of the given characters and over it.\<close>

definition skip_past :: "string \<Rightarrow> xml_parser \<Rightarrow> xml_parser" where
  "skip_past cs p = (let p1 = x_advance (length (takeWhile (\<lambda>c. c \<notin> set cs) (x_window p))) p in
     if x_end p1 then p1 else x_advance 1 p1)"

definition set_location :: "xml_parser \<Rightarrow> xml_node \<Rightarrow> xml_node" where
  "set_location p x = (case x of Xml_node ty nm v ats cs _ _ \<Rightarrow> Xml_node ty nm v ats cs (x_line p) (x_column p))"

definition parse_start_tag :: "nat \<Rightarrow> xml_parser \<Rightarrow> answers \<Rightarrow> (xml_node option \<times> xml_parser \<times> answers) option" where
  "parse_start_tag n p as = (case parse_name (x_advance 1 p) as of (nm, p1, as1) \<Rightarrow> (case nm of
     None \<Rightarrow> Some (None, set_parser_error XML_ERROR_INVALID_SYNTAX p1, as1)
   | Some name \<Rightarrow> (case create_node XML_TYPE_ELEMENT (Some name) None as1 of (x, as2) \<Rightarrow> (case x of
       None \<Rightarrow> Some (None, set_parser_error XML_ERROR_MEMORY_ALLOCATION p1, as2)
     | Some e \<Rightarrow> (case parse_attributes n [] p1 as2 of
         None \<Rightarrow> None
       | Some (ats, p2, as3) \<Rightarrow> Some (Some (set_attributes ats (set_location p1 e)), skip_past ''>/'' p2, as3))))))"

text \<open>Whether the tag was read, and the new state; the name of the element may be NULL.\<close>

definition parse_end_tag :: "xml_parser \<Rightarrow> string option \<Rightarrow> answers \<Rightarrow> (bool \<times> xml_parser \<times> answers) outcome" where
  "parse_end_tag p expected as = (case parse_name (x_advance 2 p) as of (nm, p1, as1) \<Rightarrow> (case nm of
     None \<Rightarrow> Ret (False, set_parser_error XML_ERROR_INVALID_SYNTAX p1, as1)
   | Some name \<Rightarrow> (case expected of
       None \<Rightarrow> Fault Null_deref
     | Some e \<Rightarrow>
         if name \<noteq> e then Ret (False, set_parser_error XML_ERROR_UNTERMINATED_TAG p1, as1)
         else Ret (True, skip_past ''>'' p1, as1))))"

section \<open>Text, comments, sections and instructions\<close>

type_synonym node_result = "xml_node option \<times> xml_parser \<times> answers"

definition parse_text :: "xml_parser \<Rightarrow> answers \<Rightarrow> node_result" where
  "parse_text p as = (let t = takeWhile (\<lambda>c. c \<noteq> CHR ''<'') (x_window p); p1 = x_advance (length t) p in
     if t = [] then (None, p1, as)
     else case next_answer as of (ok, as1) \<Rightarrow>
       if \<not> ok then (None, p1, as1)
       else case create_node XML_TYPE_TEXT None (Some (c_str t)) as1 of (x, as2) \<Rightarrow> (x, p1, as2))"

text \<open>How many characters precede the first occurrence of a mark, or all of them.\<close>

fun before_mark :: "string \<Rightarrow> string \<Rightarrow> nat" where
  "before_mark w [] = 0"
| "before_mark w (c # cs) = (if take (length w) (c # cs) = w then 0 else Suc (before_mark w cs))"

text \<open>The contents from the position to the mark become a node; the position is then moved over the mark, whether
  there was one or not.\<close>

definition parse_marked :: "string \<Rightarrow> xml_node_type \<Rightarrow> string option \<Rightarrow> xml_parser \<Rightarrow> answers \<Rightarrow> node_result" where
  "parse_marked mark ty name p as = (let n = before_mark mark (x_window p); p1 = x_advance n p in
     case next_answer as of (ok, as1) \<Rightarrow>
       if \<not> ok then (None, p1, as1)
       else case create_node ty name (Some (c_str (take n (x_window p)))) as1 of (x, as2) \<Rightarrow>
         (x, x_advance (length mark) p1, as2))"

definition parse_comment :: "xml_parser \<Rightarrow> answers \<Rightarrow> node_result" where
  "parse_comment p as = parse_marked ''-->'' XML_TYPE_COMMENT None (x_advance 4 p) as"

definition parse_cdata :: "xml_parser \<Rightarrow> answers \<Rightarrow> node_result" where
  "parse_cdata p as = parse_marked '']]>'' XML_TYPE_CDATA None (x_advance 9 p) as"

definition parse_processing_instruction :: "xml_parser \<Rightarrow> answers \<Rightarrow> node_result" where
  "parse_processing_instruction p as = (case parse_name (x_advance 2 p) as of (t, p1, as1) \<Rightarrow> (case t of
     None \<Rightarrow> (None, p1, as1)
   | Some target \<Rightarrow> parse_marked ''?>'' XML_TYPE_PROCESSING (Some target) (xml_skip_whitespace p1) as1))"

section \<open>Elements\<close>

definition x_leave :: "xml_parser \<Rightarrow> xml_parser" where
  "x_leave p = p\<lparr>x_depth := x_depth p - 1\<rparr>"

definition add_parsed :: "xml_node \<Rightarrow> xml_node option \<Rightarrow> xml_node" where
  "add_parsed x child = (case child of None \<Rightarrow> x | Some c \<Rightarrow> add_child x c)"

type_synonym element_parser = "xml_parser \<Rightarrow> answers \<Rightarrow> node_result outcome option"
type_synonym children_parser = "xml_node \<Rightarrow> xml_parser \<Rightarrow> answers \<Rightarrow> node_result outcome option"

text \<open>The bodies of the two recursive functions, over the calls they make.\<close>

definition element_body :: "nat \<Rightarrow> children_parser \<Rightarrow> element_parser" where
  "element_body n loop p as =
     (if xml_max_depth \<le> x_depth p then Some (Ret (None, set_parser_error XML_ERROR_DEPTH_EXCEEDED p, as))
      else case parse_start_tag n (p\<lparr>x_depth := x_depth p + 1\<rparr>) as of
          None \<Rightarrow> None
        | Some (x, p1, as1) \<Rightarrow> (case x of
            None \<Rightarrow> Some (Ret (None, x_leave p1, as1))
          | Some e \<Rightarrow>
              if \<not> x_end p1 \<and> x_input p1 ! (x_position p1 - 1) = CHR ''/'' then Some (Ret (Some e, x_leave p1, as1))
              else loop e p1 as1))"

text \<open>One round of the loop over the children. When the text ends where a round would start, the element is taken
  as it is.\<close>

definition with_child :: "children_parser \<Rightarrow> xml_node \<Rightarrow> node_result \<Rightarrow> node_result outcome option" where
  "with_child loop x r = (case r of (c, p, as) \<Rightarrow> loop (add_parsed x c) p as)"

definition children_round :: "element_parser \<Rightarrow> children_parser \<Rightarrow> children_parser" where
  "children_round element loop x p as =
     (if x_end p then Some (Ret (Some x, x_leave p, as))
      else let p1 = xml_skip_whitespace p in
        if x_end p1 then Some (Ret (None, x_leave (set_parser_error XML_ERROR_UNTERMINATED_TAG p1), as))
        else if x_char 0 p1 \<noteq> CHR ''<'' then with_child loop x (parse_text p1 as)
        else if x_length p1 \<le> x_position p1 + 1 then loop x p1 as
        else if x_char 1 p1 = CHR ''/''
        then rbind (Some (parse_end_tag p1 (node_name x) as)) (\<lambda>(ok, p2, as1).
          Some (Ret (if ok then Some x else None, x_leave p2, as1)))
        else if x_char 1 p1 = CHR ''!''
        then (if x_position p1 + 2 < x_length p1 \<and> x_char 2 p1 = CHR ''-'' then with_child loop x (parse_comment p1 as)
          else if x_position p1 + 7 < x_length p1 \<and> take 8 (drop (x_position p1 + 1) (x_input p1)) = ''![CDATA[''
          then with_child loop x (parse_cdata p1 as)
          else loop x p1 as)
        else if x_char 1 p1 = CHR ''?'' then with_child loop x (parse_processing_instruction p1 as)
        else rbind (element p1 as) (with_child loop x))"

fun parse_element :: "nat \<Rightarrow> element_parser" and parse_children :: "nat \<Rightarrow> children_parser" where
  "parse_element 0 p as = None"
| "parse_element (Suc n) p as = element_body n (parse_children n) p as"
| "parse_children 0 x p as = None"
| "parse_children (Suc n) x p as = children_round (parse_element n) (parse_children n) x p as"

section \<open>Documents\<close>

definition x_looking_at :: "string \<Rightarrow> xml_parser \<Rightarrow> bool" where
  "x_looking_at w p \<longleftrightarrow> x_position p + (length w - 1) < x_length p \<and> take (length w) (drop (x_position p) (x_input p)) = w"

text \<open>One item of the declaration: its word, an equals sign and a quoted text.\<close>

definition declaration_item :: "string \<Rightarrow> xml_parser \<Rightarrow> answers \<Rightarrow> string option \<times> xml_parser \<times> answers" where
  "declaration_item w p as =
     (if x_looking_at w p
      then (let p1 = xml_skip_whitespace (x_advance (length w) p) in
        if \<not> x_end p1 \<and> x_char 0 p1 = CHR ''='' then parse_quoted_string (xml_skip_whitespace (x_advance 1 p1)) as
        else (None, p1, as))
      else (None, p, as))"

definition or_else :: "'a option \<Rightarrow> 'a option \<Rightarrow> 'a option" where
  "or_else new old = (case new of None \<Rightarrow> old | Some x \<Rightarrow> new)"

definition skip_declaration_end :: "xml_parser \<Rightarrow> xml_parser" where
  "skip_declaration_end p = (let p1 = x_advance (before_mark ''?>'' (x_window p)) p in if x_end p1 then p1 else x_advance 2 p1)"

definition parse_declaration :: "xml_document \<Rightarrow> xml_parser \<Rightarrow> answers \<Rightarrow> xml_document \<times> xml_parser \<times> answers" where
  "parse_declaration d p as = (let p1 = x_advance 2 p; p2 = (if x_looking_at ''xml'' p1 then x_advance 3 p1 else p1) in
     case declaration_item ''version'' (xml_skip_whitespace p2) as of (v, p3, as1) \<Rightarrow>
     case declaration_item ''encoding'' (xml_skip_whitespace p3) as1 of (e, p4, as2) \<Rightarrow>
     case declaration_item ''standalone'' (xml_skip_whitespace p4) as2 of (s, p5, as3) \<Rightarrow>
       (d\<lparr>xml_version := or_else v (xml_version d), xml_encoding := or_else e (xml_encoding d),
          xml_standalone := or_else s (xml_standalone d)\<rparr>, skip_declaration_end p5, as3))"

definition no_document :: xml_document where
  "no_document = \<lparr>xml_root = None, xml_version = None, xml_encoding = None, xml_standalone = None, xml_doctype = None,
     xml_filename = None\<rparr>"

text \<open>The return code, the document that is stored (also when the code is -1), the state, the answers.\<close>

definition parse_document ::
  "nat \<Rightarrow> xml_parser \<Rightarrow> answers \<Rightarrow> (int \<times> xml_document option \<times> xml_parser \<times> answers) outcome option" where
  "parse_document fuel p as = (case next_answer as of (ok, as1) \<Rightarrow>
     if \<not> ok then Some (Ret (-1, None, set_parser_error XML_ERROR_MEMORY_ALLOCATION p, as1))
     else let p1 = xml_skip_whitespace p in
       case (if x_looking_at ''<?'' p1 then parse_declaration no_document p1 as1 else (no_document, p1, as1)) of (d, p2, as2) \<Rightarrow>
         rbind (parse_element fuel (xml_skip_whitespace p2) as2) (\<lambda>(x, p3, as3). case x of
             None \<Rightarrow> Some (Ret (-1, Some d, p3, as3))
           | Some r \<Rightarrow> (let d1 = d\<lparr>xml_root := Some r\<rparr>; p4 = xml_skip_whitespace p3 in
               if x_end p4 then Some (Ret (0, Some d1, p4, as3))
               else Some (Ret (-1, Some d1, set_parser_error XML_ERROR_INVALID_SYNTAX p4, as3)))))"

definition new_xml_parser :: "string \<Rightarrow> nat \<Rightarrow> xml_parser" where
  "new_xml_parser s len = \<lparr>x_input = s, x_length = len, x_position = 0, x_depth = 0, x_line = 1, x_column = 1,
     x_error = XML_ERROR_NONE\<rparr>"

text \<open>The last result but one is the new value of the global error.\<close>

definition xml_parse_string ::
  "nat \<Rightarrow> string option \<Rightarrow> nat \<Rightarrow> answers \<Rightarrow> (int \<times> xml_document option \<times> xml_error \<times> answers) outcome option" where
  "xml_parse_string fuel xml_string len as = (case xml_string of
     None \<Rightarrow> Some (Ret (-1, None, XML_ERROR_INVALID_SYNTAX, as))
   | Some s \<Rightarrow> rbind (parse_document fuel (new_xml_parser s len) as) (\<lambda>(r, d, p, as1).
       Some (Ret (if r \<noteq> 0 then -1 else 0, d, if r \<noteq> 0 then x_error p else XML_ERROR_NONE, as1))))"

definition xml_parse_memory ::
  "nat \<Rightarrow> string option \<Rightarrow> nat \<Rightarrow> answers \<Rightarrow> (int \<times> xml_document option \<times> xml_error \<times> answers) outcome option" where
  "xml_parse_memory fuel buffer n as = xml_parse_string fuel buffer n as"

text \<open>The answers of reading a file are those of \<open>malloc\<close> and of a complete \<open>fread\<close>.\<close>

definition xml_parse_file ::
  "nat \<Rightarrow> string option \<Rightarrow> (string \<Rightarrow> string option) \<Rightarrow> answers
   \<Rightarrow> (int \<times> xml_document option \<times> xml_error \<times> answers) outcome option" where
  "xml_parse_file fuel filename files as = (case filename of
     None \<Rightarrow> Some (Ret (-1, None, XML_ERROR_FILE_IO, as))
   | Some path \<Rightarrow> (case files path of
       None \<Rightarrow> Some (Ret (-1, None, XML_ERROR_FILE_IO, as))
     | Some s \<Rightarrow> (case next_answer as of (ok, as1) \<Rightarrow>
         if \<not> ok then Some (Ret (-1, None, XML_ERROR_MEMORY_ALLOCATION, as1))
         else case next_answer as1 of (whole, as2) \<Rightarrow>
           if \<not> whole then Some (Ret (-1, None, XML_ERROR_FILE_IO, as2))
           else rbind (xml_parse_string fuel (Some s) (length s) as2) (\<lambda>(r, d, e, as3). case d of
               Some doc \<Rightarrow>
                 if r = 0
                 then (case strdup path as3 of (f, as4) \<Rightarrow> Some (Ret (r, Some (doc\<lparr>xml_filename := f\<rparr>), e, as4)))
                 else Some (Ret (r, d, e, as3))
             | None \<Rightarrow> Some (Ret (r, d, e, as3))))))"

end
