(* ===== verification/Xml_Documents.thy ===== *)
theory Xml_Documents
  imports Xml_Parser
begin

text \<open>
  What the XML parser makes of texts: well-formed documents are parsed into the tree they stand for;
  some malformed ones are accepted, some never let the parser return.
\<close>

section \<open>Documents as they are written\<close>

datatype xdoc = XElem string "(string \<times> string) list" "xdoc list" | XText string

definition attr_text :: "string \<times> string \<Rightarrow> string" where
  "attr_text a = '' '' @ fst a @ EQ_QUOTE @ snd a @ END_QUOTE"

fun xdoc_text :: "xdoc \<Rightarrow> string" where
  "xdoc_text (XText t) = t"
| "xdoc_text (XElem n ats kids) = ''<'' @ n @ concat (map attr_text ats) @ ''>'' @ concat (map xdoc_text kids) @ ''</'' @ n @ ''>''"

definition name_ok :: "string \<Rightarrow> bool" where
  "name_ok n \<longleftrightarrow> n \<noteq> [] \<and> list_all is_name_char n"

definition attr_ok :: "string \<times> string \<Rightarrow> bool" where
  "attr_ok a \<longleftrightarrow> name_ok (fst a) \<and> CHR 0x22 \<notin> set (snd a) \<and> NUL \<notin> set (snd a)"

definition text_ok :: "string \<Rightarrow> bool" where
  "text_ok t \<longleftrightarrow> t \<noteq> [] \<and> \<not> is_space (hd t) \<and> CHR ''<'' \<notin> set t \<and> NUL \<notin> set t"

fun is_xtext :: "xdoc \<Rightarrow> bool" where
  "is_xtext (XText t) = True"
| "is_xtext (XElem n ats kids) = False"

fun no_adjacent :: "xdoc list \<Rightarrow> bool" where
  "no_adjacent (a # b # ks) \<longleftrightarrow> \<not> (is_xtext a \<and> is_xtext b) \<and> no_adjacent (b # ks)"
| "no_adjacent _ \<longleftrightarrow> True"

fun doc_ok :: "xdoc \<Rightarrow> bool" where
  "doc_ok (XText t) \<longleftrightarrow> text_ok t"
| "doc_ok (XElem n ats kids) \<longleftrightarrow> name_ok n \<and> list_all attr_ok ats \<and> list_all doc_ok kids \<and> no_adjacent kids"

fun height :: "xdoc \<Rightarrow> nat" where
  "height (XText t) = 0"
| "height (XElem n ats kids) = Suc (foldr max (map height kids) 0)"

text \<open>The document that a parsed node stands for; attributes are linked newest first.\<close>

definition opt_text :: "string option \<Rightarrow> string" where
  "opt_text s = (case s of None \<Rightarrow> [] | Some t \<Rightarrow> t)"

fun xml_abs :: "xml_node \<Rightarrow> xdoc" where
  "xml_abs (Xml_node ty nm v ats cs l c) = (if ty = XML_TYPE_TEXT then XText (opt_text v)
     else XElem (opt_text nm) (rev (map (\<lambda>a. (opt_text (fst a), opt_text (snd a))) ats)) (map xml_abs cs))"

section \<open>The rest of the text\<close>

definition view :: "xml_parser \<Rightarrow> string \<Rightarrow> bool" where
  "view p s \<longleftrightarrow> x_length p \<le> length (x_input p) \<and> x_position p \<le> x_length p \<and> x_window p = s"

text \<open>The same run further on, with \<open>r\<close> left to read.\<close>

definition runs :: "xml_parser \<Rightarrow> xml_parser \<Rightarrow> string \<Rightarrow> bool" where
  "runs p q r \<longleftrightarrow> x_input q = x_input p \<and> x_length q = x_length p \<and> x_depth q = x_depth p \<and> view q r"

lemma advance_fields [simp]:
  "x_input (x_advance n p) = x_input p" "x_length (x_advance n p) = x_length p" "x_depth (x_advance n p) = x_depth p"
  "x_position (x_advance n p) = x_position p + n" "x_line (x_advance n p) = x_line p" "x_column (x_advance n p) = x_column p"
  by (simp_all add: x_advance_def)

lemma update_fields [simp]:
  "x_input (update_position c p) = x_input p" "x_length (update_position c p) = x_length p"
  "x_depth (update_position c p) = x_depth p" "x_position (update_position c p) = x_position p"
  by (simp_all add: update_position_def)

lemma xml_view_length: "view p s \<Longrightarrow> x_length p = x_position p + length s"
proof -
  assume v: "view p s"
  then have "length (x_window p) = length s" "x_length p \<le> length (x_input p)" "x_position p \<le> x_length p"
    by (simp_all add: view_def)
  then show ?thesis by (simp add: x_window_def)
qed

lemma xml_view_advance: "view p (a @ b) \<Longrightarrow> view (x_advance (length a) p) b"
proof -
  assume v: "view p (a @ b)"
  then have w: "drop (x_position p) (take (x_length p) (x_input p)) = a @ b" by (simp add: view_def x_window_def)
  from xml_view_length [OF v] have "x_position p + length a \<le> x_length p" by simp
  moreover from w have "drop (x_position p + length a) (take (x_length p) (x_input p)) = b"
    by (metis add.commute append_eq_conv_conj drop_drop)
  ultimately show ?thesis using v by (simp add: view_def x_window_def)
qed

lemma view_advance1: "view p (c # b) \<Longrightarrow> view (x_advance 1 p) b" "view p (c # b) \<Longrightarrow> view (x_advance (Suc 0) p) b"
  using xml_view_advance [of p "[c]" b] by simp_all

lemma view_window: "view p s \<Longrightarrow> x_window p = s"
  by (simp add: view_def)

lemma view_end: "view p s \<Longrightarrow> x_end p \<longleftrightarrow> s = []"
  using xml_view_length [of p s] by (simp add: x_end_def)

lemma view_char: "view p s \<Longrightarrow> n < length s \<Longrightarrow> x_char n p = s ! n"
proof -
  assume v: "view p s" and n: "n < length s"
  have "x_position p + n < x_length p" using xml_view_length [OF v] n by simp
  moreover from this v have "s ! n = x_input p ! (x_position p + n)"
    by (auto simp: view_def x_window_def)
  moreover have "x_length p \<le> length (x_input p)" using v by (simp add: view_def)
  ultimately show ?thesis by (simp add: x_char_def)
qed

lemma view_last:
  assumes "view p (a @ b)" and "a \<noteq> []"
  shows "x_input p ! (x_position p + length a - 1) = last a"
proof -
  have "x_char (length a - 1) p = last a"
    using view_char [OF assms(1), of "length a - 1"] assms(2) by (cases a) (auto simp: nth_append last_conv_nth)
  moreover have "x_position p + (length a - 1) < length (x_input p)"
    using xml_view_length [OF assms(1)] assms by (cases a) (auto simp: view_def)
  moreover have "x_position p + length a - 1 = x_position p + (length a - 1)" using assms(2) by (cases a) auto
  ultimately show ?thesis by (simp add: x_char_def)
qed

definition starts_dark :: "string \<Rightarrow> bool" where
  "starts_dark s = (case s of [] \<Rightarrow> True | c # cs \<Rightarrow> \<not> is_space c)"

lemma skip_dark: "view p s \<Longrightarrow> starts_dark s \<Longrightarrow> xml_skip_whitespace p = p"
  by (cases s) (auto simp: xml_skip_whitespace_def view_def starts_dark_def)

lemma skip_space:
  "view p (CHR '' '' # s) \<Longrightarrow> starts_dark s \<Longrightarrow> runs p (xml_skip_whitespace p) s"
proof -
  assume v: "view p (CHR '' '' # s)" and d: "starts_dark s"
  have "takeWhile is_space (x_window p) = '' ''"
    using view_window [OF v] d by (cases s) (auto simp: starts_dark_def is_space_def)
  then have "xml_skip_whitespace p = x_advance 1 (update_position CHR '' '' p)" by (simp add: xml_skip_whitespace_def)
  moreover have "view (x_advance 1 (update_position CHR '' '' p)) s"
    using view_advance1 [OF v] by (simp add: view_def x_window_def)
  ultimately show ?thesis by (simp add: runs_def)
qed

lemma runs_refl: "view p s \<Longrightarrow> runs p p s"
  by (simp add: runs_def)

lemma runs_trans: "runs p q s \<Longrightarrow> runs q r t \<Longrightarrow> runs p r t"
  by (simp add: runs_def)

lemma runs_advance: "view p (a @ b) \<Longrightarrow> runs p (x_advance (length a) p) b"
  by (simp add: runs_def xml_view_advance)

section \<open>Names, attributes and tags\<close>

lemma xml_special_chars:
  "\<not> is_name_char (CHR ''='')" "\<not> is_name_char (CHR ''>'')" "\<not> is_name_char (CHR '' '')" "\<not> is_name_char (CHR ''/'')"
  "\<not> is_space (CHR ''='')" "\<not> is_space (CHR ''>'')" "\<not> is_space (CHR ''/'')" "\<not> is_space (CHR ''<'')" "\<not> is_space (CHR 0x22)"
  "\<not> is_name_char (CHR ''!'')" "\<not> is_name_char (CHR ''?'')" "\<not> is_name_char (CHR ''<'')"
  by (simp_all add: is_name_char_def is_alpha_def lower_def is_digit_def is_space_def)

lemma name_char_dark: "is_name_char c \<Longrightarrow> \<not> is_space c"
  by (auto simp: is_space_def is_name_char_def is_alpha_def lower_def is_digit_def)

lemma name_head: "name_ok n \<Longrightarrow> \<exists>c cs. n = c # cs \<and> is_name_char c \<and> \<not> is_space c"
  using name_char_dark by (cases n) (auto simp: name_ok_def)

lemma parse_name_ok:
  assumes "view p (n @ c # r)" and "name_ok n" and "\<not> is_name_char c"
  shows "parse_name p [] = (Some n, x_advance (length n) p, [])"
proof -
  have "takeWhile is_name_char (n @ c # r) = n"
    using assms(2,3) by (simp add: name_ok_def takeWhile_append list_all_iff)
  with view_window [OF assms(1)] assms(2) show ?thesis by (simp add: parse_name_def name_ok_def Let_def)
qed

lemma parse_quoted_ok:
  assumes "view p (CHR 0x22 # v @ CHR 0x22 # r)" and "CHR 0x22 \<notin> set v" and "NUL \<notin> set v"
  shows "parse_quoted_string p [] = (Some v, x_advance (length v + 2) p, [])"
proof -
  have p1: "view (x_advance 1 p) (v @ CHR 0x22 # r)" using view_advance1(1) [OF assms(1)] .
  have "takeWhile (\<lambda>c. c \<noteq> CHR 0x22) (v @ CHR 0x22 # r) = v"
    using assms(2) by (subst takeWhile_append2) auto
  moreover have "\<not> x_end (x_advance (length v) (x_advance 1 p))" using view_end [OF xml_view_advance [OF p1]] by simp
  moreover have "x_advance 1 (x_advance (length v) (x_advance 1 p)) = x_advance (length v + 2) p" by (simp add: x_advance_def)
  ultimately show ?thesis
    using view_end [OF assms(1)] view_char [OF assms(1), of 0] view_window [OF p1] assms(3)
    by (simp add: parse_quoted_string_def Let_def)
qed

lemma xml_create_nil:
  "create_attribute (Some n) (Some u) [] = (Some (Some n, Some u), [])"
  "create_node ty nm v [] = (Some (Xml_node ty nm v [] [] 0 0), [])"
  by (simp_all add: create_attribute_def create_node_def)

lemma parse_attribute_ok:
  assumes "view p (n @ EQ_QUOTE @ v @ END_QUOTE @ r)" and "attr_ok (n, v)"
  shows "\<exists>q. parse_attribute p [] = (Some (Some n, Some v), q, []) \<and> runs p q r"
proof -
  have n: "name_ok n" "CHR 0x22 \<notin> set v" "NUL \<notin> set v" using assms(2) by (auto simp: attr_ok_def)
  have v0: "view p (n @ CHR ''='' # CHR 0x22 # v @ CHR 0x22 # r)" using assms(1) by (simp add: EQ_QUOTE_def END_QUOTE_def)
  note a = parse_name_ok [OF v0 n(1) xml_special_chars(1)]
  have v1: "view (x_advance (length n) p) (CHR ''='' # CHR 0x22 # v @ CHR 0x22 # r)" using xml_view_advance [OF v0] .
  have v2: "view (x_advance 1 (x_advance (length n) p)) (CHR 0x22 # v @ CHR 0x22 # r)" using view_advance1(1) [OF v1] .
  note q = parse_quoted_ok [OF v2 n(2,3)]
  have "xml_skip_whitespace (x_advance (length n) p) = x_advance (length n) p"
    using skip_dark [OF v1] xml_special_chars(5) by (simp add: starts_dark_def)
  moreover have "xml_skip_whitespace (x_advance 1 (x_advance (length n) p)) = x_advance 1 (x_advance (length n) p)"
    using skip_dark [OF v2] xml_special_chars(9) by (simp add: starts_dark_def)
  moreover have "runs p (x_advance (length v + 2) (x_advance 1 (x_advance (length n) p))) r"
    using xml_view_advance [of _ "CHR 0x22 # v @ [CHR 0x22]" r] v2 by (simp add: runs_def)
  ultimately show ?thesis
    using a q view_end [OF v1] view_char [OF v1, of 0] xml_create_nil(1) by (simp add: parse_attribute_def)
qed

definition parsed_attrs :: "(string \<times> string) list \<Rightarrow> xml_attribute list" where
  "parsed_attrs ats = rev (map (\<lambda>a. (Some (fst a), Some (snd a))) ats)"

lemma parse_attributes_ok:
  "view p (concat (map attr_text ats) @ CHR ''>'' # r) \<Longrightarrow> list_all attr_ok ats \<Longrightarrow> length ats < fuel \<Longrightarrow>
   \<exists>q. parse_attributes fuel acc p [] = Some (parsed_attrs ats @ acc, q, []) \<and> runs p q (CHR ''>'' # r)"
proof (induction ats arbitrary: p acc fuel)
  case Nil
  then obtain n where f: "fuel = Suc n" by (cases fuel) auto
  from Nil have v: "view p (CHR ''>'' # r)" by simp
  then have "xml_skip_whitespace p = p" using skip_dark xml_special_chars(6) by (simp add: starts_dark_def)
  with v f show ?case using view_end [OF v] view_char [OF v, of 0] by (simp add: parsed_attrs_def runs_refl Let_def)
next
  case (Cons a ats)
  obtain n v where a: "a = (n, v)" by (cases a)
  obtain m where f: "fuel = Suc m" using Cons.prems(3) by (cases fuel) auto
  define s where "s = concat (map attr_text ats) @ CHR ''>'' # r"
  have ok: "attr_ok (n, v)" using Cons.prems(2) a by simp
  then obtain c cs where n: "n = c # cs" "is_name_char c" "\<not> is_space c" using name_head [of n] by (auto simp: attr_ok_def)
  have v0: "view p (CHR '' '' # n @ EQ_QUOTE @ v @ END_QUOTE @ s)" using Cons.prems(1) by (simp add: a attr_text_def [of "(n, v)"] s_def)
  define p1 where "p1 = xml_skip_whitespace p"
  have p1: "runs p p1 (n @ EQ_QUOTE @ v @ END_QUOTE @ s)"
    unfolding p1_def using skip_space [OF v0] n by (simp add: starts_dark_def)
  then have v1: "view p1 (n @ EQ_QUOTE @ v @ END_QUOTE @ s)" by (simp add: runs_def)
  obtain p2 where p2: "parse_attribute p1 [] = (Some (Some n, Some v), p2, [])" "runs p1 p2 s"
    using parse_attribute_ok [OF v1 ok] by blast
  have "view p2 (concat (map attr_text ats) @ CHR ''>'' # r)" using p2(2) by (simp add: runs_def s_def)
  moreover have "list_all attr_ok ats" "length ats < m" using Cons.prems(2,3) f by simp_all
  ultimately obtain q where q: "parse_attributes m ((Some n, Some v) # acc) p2 [] = Some (parsed_attrs ats @ (Some n, Some v) # acc, q, [])"
      "runs p2 q (CHR ''>'' # r)"
    using Cons.IH by blast
  have "x_char 0 p1 = c" using view_char [OF v1, of 0] n by simp
  then have "\<not> (x_char 0 p1 = CHR ''>'' \<or> x_char 0 p1 = CHR ''/'')" using n(2) xml_special_chars by auto
  moreover have "\<not> x_end p" "\<not> x_end p1" using view_end [OF v0] view_end [OF v1] n by simp_all
  ultimately have "parse_attributes fuel acc p [] = Some (parsed_attrs (a # ats) @ acc, q, [])"
    using p2(1) q(1) f by (simp add: p1_def [symmetric] parsed_attrs_def a Let_def)
  moreover have "runs p q (CHR ''>'' # r)" using p1 p2(2) q(2) by (meson runs_trans)
  ultimately show ?case by blast
qed

lemma skip_past_here: "view p (c # r) \<Longrightarrow> c \<in> set cs \<Longrightarrow> skip_past cs p = x_advance 1 p"
  using view_window [of p "c # r"] view_end [of p "c # r"] by (simp add: skip_past_def Let_def x_advance_def x_end_def)

lemma first_not_name:
  "\<exists>c t. concat (map attr_text ats) @ CHR ''>'' # r = c # t \<and> \<not> is_name_char c"
  by (cases ats) (auto simp: attr_text_def xml_special_chars)

lemma start_tag_ok:
  assumes "view p (''<'' @ n @ concat (map attr_text ats) @ ''>'' @ r)" and "name_ok n" and "list_all attr_ok ats" and "length ats < fuel"
  shows "\<exists>l c q. parse_start_tag fuel p [] = Some (Some (Xml_node XML_TYPE_ELEMENT (Some n) None (parsed_attrs ats) [] l c), q, [])
    \<and> runs p q r \<and> x_input q ! (x_position q - 1) = CHR ''>''"
proof -
  define s where "s = concat (map attr_text ats) @ CHR ''>'' # r"
  have v0: "view p (CHR ''<'' # n @ s)" using assms(1) by (simp add: s_def)
  have v1: "view (x_advance 1 p) (n @ s)" using view_advance1(1) [OF v0] .
  obtain c t where c: "s = c # t" "\<not> is_name_char c" using first_not_name s_def by metis
  define p1 where "p1 = x_advance (length n) (x_advance 1 p)"
  have nm: "parse_name (x_advance 1 p) [] = (Some n, p1, [])"
    using parse_name_ok [OF v1 [unfolded c(1)] assms(2) c(2)] by (simp add: p1_def)
  have v2: "view p1 s" using xml_view_advance [OF v1] by (simp add: p1_def)
  then obtain q where q: "parse_attributes fuel [] p1 [] = Some (parsed_attrs ats, q, [])" "runs p1 q (CHR ''>'' # r)"
    using parse_attributes_ok [of p1 ats r fuel "[]"] assms(3,4) by (auto simp: s_def)
  have v3: "view q (CHR ''>'' # r)" using q(2) by (simp add: runs_def)
  have "skip_past ''>/'' q = x_advance 1 q" using skip_past_here [OF v3] by simp
  moreover have "x_input (x_advance 1 q) ! (x_position (x_advance 1 q) - 1) = CHR ''>''"
    using view_last [of q "''>''" r] v3 by simp
  moreover have "runs p (x_advance 1 q) r" using q(2) view_advance1(1) [OF v3] by (simp add: runs_def p1_def)
  ultimately show ?thesis
    using nm q(1) xml_create_nil(2) by (simp add: parse_start_tag_def set_location_def set_attributes_def)
qed

lemma end_tag_ok:
  assumes "view p (''</'' @ n @ ''>'' @ r)" and "name_ok n"
  shows "\<exists>q. parse_end_tag p (Some n) [] = Ret (True, q, []) \<and> runs p q r"
proof -
  have v1: "view (x_advance 2 p) (n @ CHR ''>'' # r)" using xml_view_advance [of p "''</''"] assms(1) by (simp add: numeral_2_eq_2)
  have v2: "view (x_advance (length n) (x_advance 2 p)) (CHR ''>'' # r)" using xml_view_advance [OF v1] .
  have "skip_past ''>'' (x_advance (length n) (x_advance 2 p)) = x_advance 1 (x_advance (length n) (x_advance 2 p))"
    using skip_past_here [OF v2] by simp
  moreover have "runs p (x_advance 1 (x_advance (length n) (x_advance 2 p))) r"
    using view_advance1(1) [OF v2] by (simp add: runs_def)
  ultimately show ?thesis
    using parse_name_ok [OF v1 assms(2) xml_special_chars(2)] by (simp add: parse_end_tag_def)
qed

lemma text_parsed:
  assumes "view p (t @ CHR ''<'' # r)" and "text_ok t"
  shows "parse_text p [] = (Some (Xml_node XML_TYPE_TEXT None (Some t) [] [] 0 0), x_advance (length t) p, [])"
proof -
  have "takeWhile (\<lambda>c. c \<noteq> CHR ''<'') (t @ CHR ''<'' # r) = t"
    using assms(2) by (subst takeWhile_append2) (auto simp: text_ok_def)
  with view_window [OF assms(1)] assms(2) show ?thesis by (simp add: parse_text_def text_ok_def Let_def xml_create_nil)
qed

section \<open>Elements\<close>

text \<open>What the induction over a document carries: the parser reads it from any state in which there is room for its
  depth.\<close>

definition reads :: "xdoc \<Rightarrow> bool" where
  "reads d \<longleftrightarrow> (\<forall>p r fuel. view p (xdoc_text d @ r) \<longrightarrow> x_depth p + height d \<le> xml_max_depth \<longrightarrow> length (xdoc_text d) \<le> fuel
     \<longrightarrow> (\<exists>x q. parse_element fuel p [] = Some (Ret (Some x, q, [])) \<and> runs p q r \<and> xml_abs x = d))"

definition left_run :: "xml_parser \<Rightarrow> xml_parser \<Rightarrow> string \<Rightarrow> bool" where
  "left_run p q r \<longleftrightarrow> x_input q = x_input p \<and> x_length q = x_length p \<and> x_depth q = x_depth p - 1 \<and> view q r"

lemma view_leave [simp]: "view (x_leave p) s = view p s"
  by (simp add: x_leave_def view_def x_window_def)

lemma runs_left: "runs p q r \<Longrightarrow> left_run p (x_leave q) r"
  by (simp add: runs_def left_run_def) (simp add: x_leave_def)

lemma elem_text:
  "doc_ok d \<Longrightarrow> \<not> is_xtext d \<Longrightarrow> \<exists>c t. xdoc_text d = CHR ''<'' # c # t \<and> is_name_char c"
  by (cases d) (auto simp: name_ok_def neq_Nil_conv)

lemma after_text:
  "list_all doc_ok ks \<Longrightarrow> no_adjacent (XText t # ks) \<Longrightarrow> \<exists>u. concat (map xdoc_text ks) @ ''</'' @ r = CHR ''<'' # u"
proof (cases ks)
  case (Cons k js)
  assume "list_all doc_ok ks" "no_adjacent (XText t # ks)"
  with Cons elem_text [of k] show ?thesis by auto
qed simp

lemma round_start:
  assumes "view p s" and "s \<noteq> []" and "starts_dark s"
  shows "xml_skip_whitespace p = p" "\<not> x_end p" "x_char 0 p = hd s"
  using skip_dark [OF assms(1,3)] view_end [OF assms(1)] view_char [OF assms(1), of 0] assms(2) by (auto simp: hd_conv_nth)

lemma name_char_not_mark: "is_name_char c \<Longrightarrow> c \<noteq> CHR ''/'' \<and> c \<noteq> CHR ''!'' \<and> c \<noteq> CHR ''?''"
  using xml_special_chars by auto

lemma children_read:
  "view p (concat (map xdoc_text kids) @ ''</'' @ n @ ''>'' @ r) \<Longrightarrow> node_name x = Some n \<Longrightarrow> node_type x = XML_TYPE_ELEMENT \<Longrightarrow>
   name_ok n \<Longrightarrow> list_all doc_ok kids \<Longrightarrow> no_adjacent kids \<Longrightarrow> \<forall>k \<in> set kids. \<not> is_xtext k \<longrightarrow> reads k \<Longrightarrow>
   x_depth p + foldr max (map height kids) 0 \<le> xml_max_depth \<Longrightarrow> length (concat (map xdoc_text kids)) < fuel \<Longrightarrow>
   \<exists>ys q. parse_children fuel x p [] = Some (Ret (Some (foldl add_child x ys), q, [])) \<and> map xml_abs ys = kids \<and> left_run p q r"
proof (induction kids arbitrary: x p fuel)
  case Nil
  then have v: "view p (CHR ''<'' # CHR ''/'' # n @ ''>'' @ r)" by simp
  obtain m where f: "fuel = Suc m" using Nil.prems(9) by (cases fuel) auto
  note s = round_start [OF v] 
  have "x_char 1 p = CHR ''/''" "x_position p + 1 < x_length p" using view_char [OF v, of 1] xml_view_length [OF v] by simp_all
  moreover obtain q where q: "parse_end_tag p (Some n) [] = Ret (True, q, [])" "runs p q r"
    using end_tag_ok [of p n r] Nil.prems(1,4) by auto
  ultimately have "parse_children fuel x p [] = Some (Ret (Some x, x_leave q, []))"
    using s Nil.prems(2) xml_special_chars by (simp add: f children_round_def starts_dark_def rbind_def)
  with runs_left [OF q(2)] show ?case by (intro exI [of _ "[]"]) auto
next
  case (Cons k ks)
  obtain m where f: "fuel = Suc m" using Cons.prems(9) by (cases fuel) auto
  define rest where "rest = concat (map xdoc_text ks) @ ''</'' @ n @ ''>'' @ r"
  have v: "view p (xdoc_text k @ rest)" using Cons.prems(1) by (simp add: rest_def)
  have ks: "list_all doc_ok ks" "no_adjacent ks" "\<forall>k \<in> set ks. \<not> is_xtext k \<longrightarrow> reads k"
    using Cons.prems(5-7) by (cases ks; simp)+
  have deep: "x_depth p + height k \<le> xml_max_depth" "x_depth p + foldr max (map height ks) 0 \<le> xml_max_depth"
    using Cons.prems(8) by auto
  have step: "\<exists>ys q. parse_children fuel x p [] = Some (Ret (Some (foldl add_child x ys), q, [])) \<and> map xml_abs ys = k # ks \<and> left_run p q r"
    if c: "runs p p1 rest" "xml_abs y = k" "parse_children fuel x p [] = parse_children m (add_child x y) p1 []" for y p1
  proof -
    have "node_name (add_child x y) = Some n" "node_type (add_child x y) = XML_TYPE_ELEMENT"
      using Cons.prems(2,3) by (cases x; simp add: add_child_def)+
    moreover have "0 < length (xdoc_text k)" using Cons.prems(5) by (cases k) (auto simp: text_ok_def)
    then have "length (concat (map xdoc_text ks)) < m" using Cons.prems(9) f by (simp del: length_greater_0_conv)
    moreover have "view p1 (concat (map xdoc_text ks) @ ''</'' @ n @ ''>'' @ r)" using c(1) by (simp add: runs_def rest_def)
    moreover have "x_depth p1 + foldr max (map height ks) 0 \<le> xml_max_depth" using deep(2) c(1) by (simp add: runs_def)
    ultimately obtain ys q where q: "parse_children m (add_child x y) p1 [] = Some (Ret (Some (foldl add_child (add_child x y) ys), q, []))"
        "map xml_abs ys = ks" "left_run p1 q r"
      using Cons.IH [of p1 "add_child x y" m] Cons.prems(4) ks by blast
    from q(3) c(1) have "left_run p q r" by (simp add: runs_def left_run_def)
    with q c show ?thesis by (intro exI [of _ "y # ys"] exI [of _ q]) simp
  qed
  show ?case
  proof (cases k)
    case (XText t)
    have t: "text_ok t" using Cons.prems(5) XText by simp
    obtain u where u: "rest = CHR ''<'' # u" using after_text [OF ks(1), of t "n @ ''>'' @ r"] Cons.prems(6) XText by (auto simp: rest_def)
    have vt: "view p (t @ CHR ''<'' # u)" using v u XText by simp
    have "t @ CHR ''<'' # u \<noteq> []" "starts_dark (t @ CHR ''<'' # u)" "hd (t @ CHR ''<'' # u) \<noteq> CHR ''<''"
      using t by (cases t; auto simp: starts_dark_def text_ok_def)+
    note s = round_start [OF vt this(1,2)] this(3)
    have "parse_children fuel x p [] = parse_children m (add_child x (Xml_node XML_TYPE_TEXT None (Some t) [] [] 0 0)) (x_advance (length t) p) []"
      using s text_parsed [OF vt t] by (simp add: f children_round_def with_child_def add_parsed_def)
    from step [OF _ _ this] show ?thesis using runs_advance [OF vt] u XText by (simp add: opt_text_def)
  next
    case (XElem a b c)
    then have e: "doc_ok k" "\<not> is_xtext k" using Cons.prems(5) by simp_all
    then obtain d t where t: "xdoc_text k = CHR ''<'' # d # t" "is_name_char d" using elem_text by blast
    have vt: "view p (CHR ''<'' # d # t @ rest)" using v t by simp
    have "starts_dark (CHR ''<'' # d # t @ rest)" using xml_special_chars by (simp add: starts_dark_def)
    note s = round_start [OF vt _ this]
    have d: "x_char 1 p = d" "x_position p + 1 < x_length p" using view_char [OF vt, of 1] xml_view_length [OF vt] by simp_all
    have "reads k" using Cons.prems(7) e(2) by simp
    moreover have "length (xdoc_text k) \<le> m" using Cons.prems(9) f by simp
    ultimately obtain y p1 where y: "parse_element m p [] = Some (Ret (Some y, p1, []))" "runs p p1 rest" "xml_abs y = k"
      using v deep(1) unfolding reads_def by blast
    have "parse_children fuel x p [] = parse_children m (add_child x y) p1 []"
      using s d y(1) name_char_not_mark [OF t(2)] by (simp add: f children_round_def with_child_def add_parsed_def rbind_def)
    then show ?thesis using step [OF y(2,3)] by blast
  qed
qed

lemma abs_add_children:
  "node_type x = XML_TYPE_ELEMENT \<Longrightarrow> xml_abs x = XElem n ats ks \<Longrightarrow> xml_abs (foldl add_child x ys) = XElem n ats (ks @ map xml_abs ys)"
proof (induction ys arbitrary: x ks)
  case (Cons y ys)
  have "node_type (add_child x y) = XML_TYPE_ELEMENT" "xml_abs (add_child x y) = XElem n ats (ks @ [xml_abs y])"
    using Cons.prems by (cases x; simp add: add_child_def)+
  with Cons.IH show ?case by simp
qed simp

lemma element_read: "doc_ok d \<Longrightarrow> \<not> is_xtext d \<Longrightarrow> reads d"
proof (induction d)
  case (XElem n ats kids)
  have ok: "name_ok n" "list_all attr_ok ats" "list_all doc_ok kids" "no_adjacent kids" using XElem.prems by simp_all
  have kids: "\<forall>k \<in> set kids. \<not> is_xtext k \<longrightarrow> reads k" using XElem.IH ok(3) by (simp add: list_all_iff)
  show ?case unfolding reads_def
  proof (intro allI impI)
    fix p r fuel
    assume v: "view p (xdoc_text (XElem n ats kids) @ r)" and d: "x_depth p + height (XElem n ats kids) \<le> xml_max_depth"
      and f: "length (xdoc_text (XElem n ats kids)) \<le> fuel"
    obtain m where m: "fuel = Suc m" using f by (cases fuel) auto
    define p0 where "p0 = p\<lparr>x_depth := Suc (x_depth p)\<rparr>"
    define s where "s = concat (map xdoc_text kids) @ ''</'' @ n @ ''>'' @ r"
    have v0: "view p0 (''<'' @ n @ concat (map attr_text ats) @ ''>'' @ s)"
      using v by (simp add: p0_def s_def view_def x_window_def)
    have "length ats \<le> length (concat (map attr_text ats))" by (induction ats) (simp_all add: attr_text_def)
    then have l: "length ats < m" "length (concat (map xdoc_text kids)) < m" using f m by simp_all
    obtain ln1 c q where q: "parse_start_tag m p0 [] = Some (Some (Xml_node XML_TYPE_ELEMENT (Some n) None (parsed_attrs ats) [] ln1 c), q, [])"
        "runs p0 q s" "x_input q ! (x_position q - 1) = CHR ''>''"
      using start_tag_ok [OF v0 ok(1,2) l(1)] by blast
    define x where "x = Xml_node XML_TYPE_ELEMENT (Some n) None (parsed_attrs ats) [] ln1 c"
    have vq: "view q s" "x_depth q = x_depth p + 1" using q(2) by (simp_all add: runs_def p0_def)
    have "x_depth q + foldr max (map height kids) 0 \<le> xml_max_depth" using vq(2) d by simp
    then obtain ys q1 where q1: "parse_children m x q [] = Some (Ret (Some (foldl add_child x ys), q1, []))"
        "map xml_abs ys = kids" "left_run q q1 r"
      using children_read [OF vq(1) [unfolded s_def], of x m] ok kids l(2) by (auto simp: x_def)
    have "parse_element fuel p [] = Some (Ret (Some (foldl add_child x ys), q1, []))"
      using q(1,3) q1(1) d m by (simp add: element_body_def p0_def [symmetric] x_def)
    moreover have "xml_abs x = XElem n ats []" by (simp add: x_def parsed_attrs_def opt_text_def rev_map comp_def)
    then have "xml_abs (foldl add_child x ys) = XElem n ats kids"
      using abs_add_children [of x n ats "[]" ys] q1(2) by (simp add: x_def)
    moreover have "runs p q1 r" using q(2) q1(3) by (simp add: runs_def left_run_def p0_def)
    ultimately show "\<exists>x q. parse_element fuel p [] = Some (Ret (Some x, q, [])) \<and> runs p q r \<and> xml_abs x = XElem n ats kids"
      by blast
  qed
qed simp

lemma xml_new_parser_view: "view (new_xml_parser s (length s)) s"
  by (simp add: view_def new_xml_parser_def x_window_def)

text \<open>C22: A well-formed document (elements with attributes, texts and an end tag each, at most 100 deep) is parsed: fuel for every
  character of it is enough, no error is left, and the tree stands for the document.\<close>

theorem documents_are_parsed:
  assumes "doc_ok d" and "\<not> is_xtext d" and "height d \<le> 100" and "length (xdoc_text d) \<le> fuel"
  shows "\<exists>x. xml_parse_string fuel (Some (xdoc_text d)) (length (xdoc_text d)) []
      = Some (Ret (0, Some (no_document\<lparr>xml_root := Some x\<rparr>), XML_ERROR_NONE, [])) \<and> xml_abs x = d"
proof -
  define p where "p = new_xml_parser (xdoc_text d) (length (xdoc_text d))"
  have v: "view p (xdoc_text d @ [])" using xml_new_parser_view by (simp add: p_def)
  obtain c t where c: "xdoc_text d = CHR ''<'' # c # t" "is_name_char c" using elem_text [OF assms(1,2)] by blast
  have s: "xml_skip_whitespace p = p" using skip_dark [OF v] c xml_special_chars by (simp add: starts_dark_def)
  have "x_depth p + height d \<le> xml_max_depth" using assms(3) by (simp add: p_def new_xml_parser_def xml_max_depth_def)
  then obtain x q where x: "parse_element fuel p [] = Some (Ret (Some x, q, []))" "runs p q []" "xml_abs x = d"
    using element_read [OF assms(1,2)] v assms(4) unfolding reads_def by blast
  have "\<not> x_looking_at ''<?'' p"
    using c name_char_not_mark by (auto simp: x_looking_at_def p_def new_xml_parser_def)
  moreover have "view q []" using x(2) by (simp add: runs_def)
  then have "xml_skip_whitespace q = q" "x_end q" using skip_dark [of q "[]"] view_end [of q "[]"] by (simp_all add: starts_dark_def)
  ultimately show ?thesis
    using x s by (intro exI [of _ x]) (simp add: xml_parse_string_def parse_document_def p_def [symmetric] rbind_def)
qed

definition demo_doc :: xdoc where
  "demo_doc = XElem ''a'' [(''k'', ''v'')] [XText ''hi'', XElem ''b'' [] []]"

theorem documents_are_parsed_witness:
  "\<exists>x. xml_parse_string 40 (Some (xdoc_text demo_doc)) (length (xdoc_text demo_doc)) []
      = Some (Ret (0, Some (no_document\<lparr>xml_root := Some x\<rparr>), XML_ERROR_NONE, [])) \<and> xml_abs x = demo_doc"
  by (rule documents_are_parsed)
    (simp_all add: demo_doc_def name_ok_def attr_ok_def text_ok_def attr_text_def is_name_char_def is_alpha_def lower_def is_space_def
      NUL_def EQ_QUOTE_def END_QUOTE_def)

section \<open>Texts on which the parser does not return\<close>

lemma advance_0 [simp]: "x_advance 0 p = p"
  by (simp add: x_advance_def)

definition stray :: "char \<Rightarrow> bool" where
  "stray c \<longleftrightarrow> \<not> is_name_char c \<and> \<not> is_space c \<and> c \<noteq> CHR ''>'' \<and> c \<noteq> CHR ''/''"

lemma attributes_stuck: "view p (c # r) \<Longrightarrow> stray c \<Longrightarrow> parse_attributes fuel ats p as = None"
proof (induction fuel)
  case (Suc n)
  note v = Suc.prems(1)
  have "parse_attribute p as = (None, p, as)"
    using view_window [OF v] Suc.prems(2) by (simp add: parse_attribute_def parse_name_def stray_def)
  moreover have "xml_skip_whitespace p = p" using skip_dark [OF v] Suc.prems(2) by (simp add: starts_dark_def stray_def)
  ultimately show ?case
    using Suc view_end [OF v] view_char [OF v, of 0] by (simp add: Let_def stray_def)
qed simp

lemma document_start:
  assumes "s = CHR ''<'' # n @ r" and "name_ok n"
  shows "xml_skip_whitespace (new_xml_parser s (length s)) = new_xml_parser s (length s)"
    "\<not> x_looking_at ''<?'' (new_xml_parser s (length s))"
proof -
  obtain c cs where c: "n = c # cs" "is_name_char c" using name_head [OF assms(2)] by blast
  show "xml_skip_whitespace (new_xml_parser s (length s)) = new_xml_parser s (length s)"
    using skip_dark [OF xml_new_parser_view, of s] assms(1) xml_special_chars by (simp add: starts_dark_def)
  show "\<not> x_looking_at ''<?'' (new_xml_parser s (length s))"
    using c name_char_not_mark by (auto simp: x_looking_at_def new_xml_parser_def assms(1))
qed

text \<open>Parsing a text that starts with a tag is parsing its element.\<close>

lemma parse_string_element:
  assumes "s = CHR ''<'' # n @ r" and "name_ok n"
  shows "xml_parse_string fuel (Some s) (length s) [] =
    rbind (parse_element fuel (new_xml_parser s (length s)) []) (\<lambda>(x, q, as). case x of
        None \<Rightarrow> Some (Ret (-1, Some no_document, x_error q, as))
      | Some e \<Rightarrow> if x_end (xml_skip_whitespace q) then Some (Ret (0, Some (no_document\<lparr>xml_root := Some e\<rparr>), XML_ERROR_NONE, as))
          else Some (Ret (-1, Some (no_document\<lparr>xml_root := Some e\<rparr>), XML_ERROR_INVALID_SYNTAX, as)))"
  using document_start [OF assms]
  by (auto simp: xml_parse_string_def parse_document_def rbind_def set_parser_error_def Let_def split: option.splits outcome.splits)

text \<open>A start tag with a stray character after the name (a quote, an equals sign, another bracket) is never parsed to an
  end: no amount of fuel is enough.\<close>

theorem stray_character_hangs:
  assumes "name_ok n" and "stray c"
  shows "xml_parse_string fuel (Some (''<'' @ n @ c # r)) (length (''<'' @ n @ c # r)) [] = None"
proof -
  define s where "s = CHR ''<'' # n @ c # r"
  define p where "p = (new_xml_parser s (length s))\<lparr>x_depth := Suc 0\<rparr>"
  have v: "view p s" using xml_new_parser_view [of s] by (simp add: p_def view_def x_window_def)
  have v1: "view (x_advance 1 p) (n @ c # r)" using view_advance1(1) [of p "CHR ''<''"] v by (simp add: s_def)
  have "parse_name (x_advance 1 p) [] = (Some n, x_advance (length n) (x_advance 1 p), [])"
    using parse_name_ok [OF v1 assms(1)] assms(2) by (simp add: stray_def)
  moreover have "parse_attributes m [] (x_advance (length n) (x_advance 1 p)) [] = None" for m
    using attributes_stuck [OF xml_view_advance [OF v1] assms(2)] .
  ultimately have "parse_start_tag m p [] = None" for m by (simp add: parse_start_tag_def xml_create_nil)
  then have "parse_element fuel (new_xml_parser s (length s)) [] = None"
    by (cases fuel) (simp_all add: element_body_def p_def new_xml_parser_def xml_max_depth_def)
  then show ?thesis using parse_string_element [OF s_def assms(1)] by (simp add: s_def rbind_def)
qed

theorem stray_character_hangs_witness: "xml_parse_string 1000 (Some ''<a=>'') 4 [] = None"
  using stray_character_hangs [of "''a''" "CHR ''=''" 1000 "''>''"] xml_special_chars
  by (simp add: stray_def name_ok_def is_name_char_def is_alpha_def lower_def eval_nat_numeral)

text \<open>Markup that the loop over the children looks at and leaves where it is.\<close>

definition stuck_markup :: "string \<Rightarrow> bool" where
  "stuck_markup m \<longleftrightarrow> m = ''<'' \<or> (\<exists>r. m = ''<!'' @ r \<and> take 1 r \<noteq> ''-'' \<and> take 7 r \<noteq> ''[CDATA['')"

lemma children_stuck:
  "view p m \<Longrightarrow> x_input p = a @ m \<Longrightarrow> x_position p = length a \<Longrightarrow> stuck_markup m \<Longrightarrow> parse_children fuel x p as = None"
proof (induction fuel)
  case (Suc n)
  note v = Suc.prems(1)
  from Suc.prems(4) obtain r where r: "m = CHR ''<'' # r" by (auto simp: stuck_markup_def)
  then have s: "xml_skip_whitespace p = p" "\<not> x_end p" "x_char 0 p = CHR ''<''"
    using round_start [OF v] xml_special_chars by (simp_all add: starts_dark_def)
  show ?case
  proof (cases "m = ''<''")
    case True
    then have "x_length p \<le> x_position p + 1" using xml_view_length [OF v] by simp
    with s Suc show ?thesis by (simp add: children_round_def)
  next
    case False
    then obtain u where u: "m = ''<!'' @ u" "take 1 u \<noteq> ''-''" "take 7 u \<noteq> ''[CDATA[''" using Suc.prems(4) by (auto simp: stuck_markup_def)
    have "x_char 1 p = CHR ''!''" using view_char [OF v, of 1] u(1) by simp
    moreover have "x_position p + 1 < x_length p" using xml_view_length [OF v] u(1) by simp
    moreover have "\<not> (x_position p + 2 < x_length p \<and> x_char 2 p = CHR ''-'')"
      using xml_view_length [OF v] view_char [OF v, of 2] u(1,2) by (cases u) auto
    moreover have "take 8 (drop (x_position p + 1) (x_input p)) \<noteq> ''![CDATA[''"
      using Suc.prems(2,3) u(1,3) by (simp add: eval_nat_numeral)
    ultimately show ?thesis using s Suc by (auto simp: children_round_def)
  qed
qed simp

text \<open>A start tag without attributes.\<close>

lemma plain_start_tag:
  assumes "s = CHR ''<'' # n @ CHR ''>'' # m" and "name_ok n" and "0 < k"
  shows "\<exists>l c q. parse_start_tag k ((new_xml_parser s (length s))\<lparr>x_depth := Suc 0\<rparr>) []
      = Some (Some (Xml_node XML_TYPE_ELEMENT (Some n) None [] [] l c), q, [])
    \<and> view q m \<and> x_input q = (''<'' @ n @ ''>'') @ m \<and> x_position q = length (''<'' @ n @ ''>'') \<and> x_depth q = Suc 0
    \<and> x_input q ! (x_position q - 1) = CHR ''>''"
proof -
  define p where "p = (new_xml_parser s (length s))\<lparr>x_depth := Suc 0\<rparr>"
  have "view p (''<'' @ n @ concat (map attr_text []) @ ''>'' @ m)"
    using xml_new_parser_view [of s] assms(1) by (simp add: p_def view_def x_window_def)
  from start_tag_ok [OF this assms(2), of k] assms(3) obtain l c q
    where q: "parse_start_tag k p [] = Some (Some (Xml_node XML_TYPE_ELEMENT (Some n) None [] [] l c), q, [])"
      "runs p q m" "x_input q ! (x_position q - 1) = CHR ''>''"
    by (auto simp: parsed_attrs_def)
  have "view q m" using q(2) by (simp add: runs_def)
  then have "x_position q = length (''<'' @ n @ ''>'')"
    using xml_view_length [of q m] q(2) assms(1) by (simp add: runs_def p_def new_xml_parser_def)
  with q show ?thesis using \<open>view q m\<close> assms(1) by (auto simp: runs_def p_def [symmetric]) (auto simp: p_def new_xml_parser_def)
qed

lemma plain_element:
  assumes "s = CHR ''<'' # n @ CHR ''>'' # m" and "name_ok n"
  shows "\<exists>l c q. view q m \<and> x_input q = (''<'' @ n @ ''>'') @ m \<and> x_position q = length (''<'' @ n @ ''>'') \<and> x_depth q = Suc 0
    \<and> parse_element (Suc (Suc k)) (new_xml_parser s (length s)) []
      = parse_children (Suc k) (Xml_node XML_TYPE_ELEMENT (Some n) None [] [] l c) q []"
proof -
  obtain l c q where q: "parse_start_tag (Suc k) ((new_xml_parser s (length s))\<lparr>x_depth := Suc 0\<rparr>) []
      = Some (Some (Xml_node XML_TYPE_ELEMENT (Some n) None [] [] l c), q, [])" "view q m" "x_input q = (''<'' @ n @ ''>'') @ m"
      "x_position q = length (''<'' @ n @ ''>'')" "x_depth q = Suc 0" "x_input q ! (x_position q - 1) = CHR ''>''"
    using plain_start_tag [OF assms, of "Suc k"] by blast
  have "parse_element (Suc (Suc k)) (new_xml_parser s (length s)) []
      = parse_children (Suc k) (Xml_node XML_TYPE_ELEMENT (Some n) None [] [] l c) q []"
    using q(1,6) by (simp add: element_body_def xml_max_depth_def new_xml_parser_def del: parse_children.simps)
  with q show ?thesis by blast
qed

lemma start_tag_no_fuel:
  assumes "s = CHR ''<'' # n @ CHR ''>'' # m" and "name_ok n"
  shows "parse_start_tag 0 ((new_xml_parser s (length s))\<lparr>x_depth := Suc 0\<rparr>) [] = None"
proof -
  define p where "p = (new_xml_parser s (length s))\<lparr>x_depth := Suc 0\<rparr>"
  have "view p s" using xml_new_parser_view [of s] by (simp add: p_def view_def x_window_def)
  then have "view (x_advance 1 p) (n @ CHR ''>'' # m)" using view_advance1(1) [of p "CHR ''<''"] assms(1) by simp
  from parse_name_ok [OF this assms(2) xml_special_chars(2)] show ?thesis
    by (simp add: parse_start_tag_def xml_create_nil p_def [symmetric])
qed

text \<open>Inside an element, a last bracket with nothing behind it, or a declaration that is neither a comment nor a CDATA
  section, keeps the parser busy forever.\<close>

theorem markup_hangs:
  assumes "name_ok n" and "stuck_markup m"
  shows "xml_parse_string fuel (Some (''<'' @ n @ ''>'' @ m)) (length (''<'' @ n @ ''>'' @ m)) [] = None"
proof -
  define s where "s = CHR ''<'' # n @ CHR ''>'' # m"
  have "parse_element fuel (new_xml_parser s (length s)) [] = None"
  proof (cases fuel)
    case (Suc j)
    show ?thesis
    proof (cases j)
      case 0
      then show ?thesis
        using Suc start_tag_no_fuel [OF s_def assms(1)] by (auto simp: element_body_def new_xml_parser_def xml_max_depth_def)
    next
      case (Suc k)
      from plain_element [OF s_def assms(1), of k] obtain l c q
        where "view q m" "x_input q = (''<'' @ n @ ''>'') @ m" "x_position q = length (''<'' @ n @ ''>'')"
          "parse_element fuel (new_xml_parser s (length s)) []
            = parse_children (Suc k) (Xml_node XML_TYPE_ELEMENT (Some n) None [] [] l c) q []"
        using \<open>fuel = Suc j\<close> Suc by blast
      with children_stuck [OF _ _ _ assms(2)] show ?thesis by metis
    qed
  qed simp
  then show ?thesis using parse_string_element [OF s_def assms(1)] by (simp add: s_def rbind_def)
qed

theorem markup_hangs_witness: "xml_parse_string 1000 (Some ''<a><!x'') 6 [] = None"
  using markup_hangs [of "''a''" "''<!x''" 1000]
  by (simp add: stuck_markup_def name_ok_def is_name_char_def is_alpha_def lower_def eval_nat_numeral)

section \<open>Elements that are not closed\<close>

lemma text_to_the_end:
  assumes "view p t" and "text_ok t"
  shows "parse_text p [] = (Some (Xml_node XML_TYPE_TEXT None (Some t) [] [] 0 0), x_advance (length t) p, [])"
proof -
  have "takeWhile (\<lambda>c. c \<noteq> CHR ''<'') t = t" using assms(2) by (auto simp: takeWhile_eq_all_conv text_ok_def)
  with view_window [OF assms(1)] assms(2) show ?thesis
    by (simp add: parse_text_def text_ok_def Let_def xml_create_nil del: takeWhile_eq_all_conv)
qed

lemma children_at_end:
  "view p [] \<Longrightarrow> parse_children (Suc k) x p [] = Some (Ret (Some x, x_leave p, []))"
  by (simp add: children_round_def view_end)

lemma children_text_end:
  assumes "view p t" and "text_ok t"
  shows "\<exists>q. parse_children (Suc (Suc k)) x p []
    = Some (Ret (Some (add_child x (Xml_node XML_TYPE_TEXT None (Some t) [] [] 0 0)), q, [])) \<and> view q []"
proof -
  have t: "t \<noteq> []" "starts_dark t" "hd t \<noteq> CHR ''<''"
    using assms(2) by (auto simp: text_ok_def starts_dark_def neq_Nil_conv)
  have e: "view (x_advance (length t) p) []" using xml_view_advance [of p t "[]"] assms(1) by simp
  have "parse_children (Suc (Suc k)) x p []
      = parse_children (Suc k) (add_child x (Xml_node XML_TYPE_TEXT None (Some t) [] [] 0 0)) (x_advance (length t) p) []"
    using round_start [OF assms(1) t(1,2)] t(3) text_to_the_end [OF assms]
    by (simp add: children_round_def [of _ _ _ p] with_child_def add_parsed_def)
  with children_at_end [OF e] e show ?thesis by auto
qed

text \<open>An element whose end tag is missing is accepted without an error when the text ends right after its start tag or
  after a text in it, and stands for the same document as the element with its end tag.\<close>

theorem missing_end_tag_accepted:
  assumes "name_ok n" and "t = [] \<or> text_ok t" and "4 \<le> fuel"
  shows "\<exists>x. xml_parse_string fuel (Some (''<'' @ n @ ''>'' @ t)) (length (''<'' @ n @ ''>'' @ t)) []
      = Some (Ret (0, Some (no_document\<lparr>xml_root := Some x\<rparr>), XML_ERROR_NONE, []))
    \<and> xml_abs x = XElem n [] (if t = [] then [] else [XText t])"
proof -
  define s where "s = CHR ''<'' # n @ CHR ''>'' # t"
  obtain k where "fuel = 4 + k" using assms(3) le_Suc_ex by blast
  then have k: "fuel = Suc (Suc (Suc (Suc k)))" by simp
  from plain_element [OF s_def assms(1), of "Suc (Suc k)"] k obtain l c q
    where q: "view q t" "parse_element fuel (new_xml_parser s (length s)) []
        = parse_children (Suc (Suc (Suc k))) (Xml_node XML_TYPE_ELEMENT (Some n) None [] [] l c) q []"
    by blast
  have "\<exists>x q1. parse_element fuel (new_xml_parser s (length s)) [] = Some (Ret (Some x, q1, [])) \<and> view q1 []
      \<and> xml_abs x = XElem n [] (if t = [] then [] else [XText t])"
  proof (cases "t = []")
    case True
    then show ?thesis using q children_at_end [of q] by (auto simp: opt_text_def simp del: parse_children.simps)
  next
    case False
    then have "text_ok t" using assms(2) by blast
    from children_text_end [OF q(1) this, of "Suc k" "Xml_node XML_TYPE_ELEMENT (Some n) None [] [] l c"] q(2) False
    show ?thesis by (auto simp: add_child_def opt_text_def simp del: parse_children.simps)
  qed
  then obtain x q1 where x: "parse_element fuel (new_xml_parser s (length s)) [] = Some (Ret (Some x, q1, []))" "view q1 []"
      "xml_abs x = XElem n [] (if t = [] then [] else [XText t])" by blast
  have "xml_skip_whitespace q1 = q1" "x_end q1"
    using x(2) skip_dark [of q1 "[]"] view_end [of q1 "[]"] by (simp_all add: starts_dark_def)
  with x show ?thesis
    using parse_string_element [OF s_def assms(1), of fuel] by (intro exI [of _ x]) (simp add: s_def rbind_def)
qed

theorem missing_end_tag_accepted_witness:
  "\<exists>x. xml_parse_string 4 (Some ''<a>b'') 4 [] = Some (Ret (0, Some (no_document\<lparr>xml_root := Some x\<rparr>), XML_ERROR_NONE, []))
    \<and> xml_abs x = XElem ''a'' [] [XText ''b'']"
  using missing_end_tag_accepted [of "''a''" "''b''" 4]
  by (simp add: text_ok_def name_ok_def is_name_char_def is_alpha_def lower_def is_space_def NUL_def eval_nat_numeral)

end
