(* ===== verification/Database.thy ===== *)
theory Database
  imports Interfaces C_Strings
begin

text \<open>
  The database module (src/db/database_module.c): the module's life cycle, the connection pool, single
  connections, result sets, and the SQL helpers. The driver calls are stubs in the source; what the
  stubs do is what is modelled. The module's private data are objects in memory, because the module
  interface (\<open>self->private_data\<close>) and the global \<open>global_db_data\<close> refer to them separately. The answers
  are those of \<open>calloc\<close>, \<open>malloc\<close>, \<open>strdup\<close>, \<open>uv_mutex_init\<close> and \<open>uv_cond_init\<close>. Log output and memory that is
  only released or lost are not modelled.
\<close>

section \<open>Data\<close>

datatype database_type = DB_TYPE_SQLITE | DB_TYPE_MYSQL | DB_TYPE_POSTGRESQL | DB_TYPE_UNKNOWN

datatype database_connection_status = DB_CONN_DISCONNECTED | DB_CONN_CONNECTING | DB_CONN_CONNECTED | DB_CONN_ERROR

record db_row =
  row_columns :: "string option list"
  row_values :: "string option list"
  column_count :: int

text \<open>The rows are linked; they are listed from the first on.\<close>

record db_result =
  res_rows :: "db_row list"
  res_row_count :: int
  res_affected_rows :: int
  res_last_error :: "string option"

record database_connection =
  conn_handle :: nat
  conn_type :: database_type
  conn_status :: database_connection_status
  conn_host :: "string option"
  conn_port :: int
  conn_database :: "string option"
  conn_username :: "string option"
  conn_password :: "string option"
  conn_last_error :: "string option"
  conn_timeout :: int

record database_config =
  cfg_type :: database_type
  cfg_host :: "string option"
  cfg_port :: int
  cfg_database :: "string option"
  cfg_username :: "string option"
  cfg_password :: "string option"
  cfg_timeout :: int
  cfg_max_connections :: int
  cfg_enable_pooling :: bool

record database_private_data =
  pd_config :: database_config
  pd_connections :: "database_connection list option"
  pd_connection_count :: int
  pd_max_connections :: int
  pd_mutex :: uv_mutex
  pd_cond_ready :: bool
  pd_pool_initialized :: bool

text \<open>
  The live private data, the pointer in the module's interface and the global one, and whether the
  interface object may be written: both instances that the file defines are \<open>const\<close>.
\<close>

record db_state =
  db_store :: "nat \<rightharpoonup> database_private_data"
  db_next :: nat
  db_private :: "nat option"
  global_db_data :: "nat option"
  db_writable :: bool
  db_answers :: answers

definition db_default_config :: database_config where
  "db_default_config = \<lparr>cfg_type = DB_TYPE_SQLITE, cfg_host = Some ''localhost'', cfg_port = 3306,
     cfg_database = Some ''netserve.db'', cfg_username = Some [], cfg_password = Some [], cfg_timeout = 30,
     cfg_max_connections = 10, cfg_enable_pooling = True\<rparr>"

definition db_answer :: "db_state \<Rightarrow> bool \<times> db_state" where
  "db_answer s = (case next_answer (db_answers s) of (ok, as) \<Rightarrow> (ok, s\<lparr>db_answers := as\<rparr>))"

definition db_object :: "nat \<Rightarrow> db_state \<Rightarrow> database_private_data outcome" where
  "db_object r s = (case db_store s r of None \<Rightarrow> Fault Use_after_free | Some d \<Rightarrow> Ret d)"

definition db_put :: "nat \<Rightarrow> database_private_data \<Rightarrow> db_state \<Rightarrow> db_state" where
  "db_put r d s = s\<lparr>db_store := (db_store s)(r \<mapsto> d)\<rparr>"

definition set_private :: "nat option \<Rightarrow> db_state \<Rightarrow> db_state outcome" where
  "set_private r s = (if db_writable s then Ret (s\<lparr>db_private := r\<rparr>) else Fault Const_write)"

fun db_mutex_destroy :: "uv_mutex \<Rightarrow> uv_mutex outcome" where
  "db_mutex_destroy Mutex_free = Ret Mutex_dead"
| "db_mutex_destroy _ = Fault Bad_mutex"

section \<open>Connections\<close>

definition create_db_connection :: "answers \<Rightarrow> database_connection option \<times> answers" where
  "create_db_connection as = (case next_answer as of (ok, as1) \<Rightarrow>
     (if ok then Some \<lparr>conn_handle = 0, conn_type = DB_TYPE_UNKNOWN, conn_status = DB_CONN_DISCONNECTED, conn_host = None,
        conn_port = 0, conn_database = None, conn_username = None, conn_password = None, conn_last_error = None, conn_timeout = 30\<rparr>
      else None, as1))"

definition dup_text :: "string option \<Rightarrow> answers \<Rightarrow> string option \<times> answers" where
  "dup_text s as = (case s of None \<Rightarrow> (None, as) | Some t \<Rightarrow> strdup t as)"

text \<open>The connection is simulated: the handle is a constant.\<close>

definition SIMULATED_HANDLE :: nat where "SIMULATED_HANDLE = 305419896"

definition db_connect :: "database_config option \<Rightarrow> answers \<Rightarrow> database_connection option \<times> answers" where
  "db_connect config as = (case config of
     None \<Rightarrow> (None, as)
   | Some cf \<Rightarrow> (case create_db_connection as of (c, as1) \<Rightarrow> (case c of
       None \<Rightarrow> (None, as1)
     | Some conn \<Rightarrow>
         (case dup_text (cfg_host cf) as1 of (h, as2) \<Rightarrow>
          case dup_text (cfg_database cf) as2 of (d, as3) \<Rightarrow>
          case dup_text (cfg_username cf) as3 of (u, as4) \<Rightarrow>
          case dup_text (cfg_password cf) as4 of (p, as5) \<Rightarrow>
            (Some (conn\<lparr>conn_type := cfg_type cf, conn_host := h, conn_port := cfg_port cf, conn_database := d,
               conn_username := u, conn_password := p, conn_timeout := cfg_timeout cf, conn_status := DB_CONN_CONNECTED,
               conn_handle := SIMULATED_HANDLE\<rparr>), as5)))))"

definition db_disconnect :: "database_connection option \<Rightarrow> int \<times> database_connection option" where
  "db_disconnect conn = (case conn of
     None \<Rightarrow> (-1, None)
   | Some c \<Rightarrow> (0, Some (c\<lparr>conn_handle := 0, conn_status := DB_CONN_DISCONNECTED\<rparr>)))"

definition db_is_connected :: "database_connection option \<Rightarrow> bool" where
  "db_is_connected conn = (case conn of None \<Rightarrow> False
     | Some c \<Rightarrow> conn_status c = DB_CONN_CONNECTED \<and> conn_handle c \<noteq> 0)"

definition db_ping :: "database_connection option \<Rightarrow> int" where
  "db_ping conn = (if conn = None \<or> \<not> db_is_connected conn then -1 else 0)"

section \<open>Statements\<close>

text \<open>A query gives an empty result.\<close>

definition db_execute_query :: "database_connection option \<Rightarrow> string option \<Rightarrow> answers \<Rightarrow> db_result option \<times> answers" where
  "db_execute_query conn sql as =
     (if conn = None \<or> sql = None \<or> \<not> db_is_connected conn then (None, as)
      else case next_answer as of (ok, as1) \<Rightarrow>
        (if ok then Some \<lparr>res_rows = [], res_row_count = 0, res_affected_rows = 0, res_last_error = None\<rparr> else None, as1))"

definition db_execute_prepared :: "database_connection option \<Rightarrow> string option \<Rightarrow> answers \<Rightarrow> db_result option \<times> answers" where
  "db_execute_prepared conn sql as =
     (if conn = None \<or> sql = None \<or> \<not> db_is_connected conn then (None, as) else db_execute_query conn sql as)"

definition db_execute_update :: "database_connection option \<Rightarrow> string option \<Rightarrow> int" where
  "db_execute_update conn sql = (if conn = None \<or> sql = None \<or> \<not> db_is_connected conn then -1 else 0)"

text \<open>The loop stops at the first statement that fails; an array shorter than the count is read past its end.\<close>

fun batch_loop :: "database_connection option \<Rightarrow> string option list \<Rightarrow> nat \<Rightarrow> int outcome" where
  "batch_loop conn sqls 0 = Ret 0"
| "batch_loop conn [] (Suc n) = Fault Out_of_bounds"
| "batch_loop conn (s # sqls) (Suc n) = (if db_execute_update conn s < 0 then Ret (-1) else batch_loop conn sqls n)"

definition db_execute_batch :: "database_connection option \<Rightarrow> string option list option \<Rightarrow> int \<Rightarrow> int outcome" where
  "db_execute_batch conn sql_array n = (case sql_array of
     None \<Rightarrow> Ret (-1)
   | Some sqls \<Rightarrow>
       if conn = None \<or> n \<le> 0 \<or> \<not> db_is_connected conn then Ret (-1)
       else obind (batch_loop conn sqls (nat n)) (\<lambda>r. Ret (if r = 0 then n else -1)))"

definition db_begin_transaction :: "database_connection option \<Rightarrow> int" where
  "db_begin_transaction conn = (if conn = None \<or> \<not> db_is_connected conn then -1 else 0)"

definition db_commit_transaction :: "database_connection option \<Rightarrow> int" where
  "db_commit_transaction conn = (if conn = None \<or> \<not> db_is_connected conn then -1 else 0)"

definition db_rollback_transaction :: "database_connection option \<Rightarrow> int" where
  "db_rollback_transaction conn = (if conn = None \<or> \<not> db_is_connected conn then -1 else 0)"

section \<open>Result sets\<close>

definition array_at :: "int \<Rightarrow> 'a list \<Rightarrow> 'a outcome" where
  "array_at i xs = (if 0 \<le> i \<and> i < int (length xs) then Ret (xs ! nat i) else Fault Out_of_bounds)"

definition db_get_row_count :: "db_result option \<Rightarrow> int" where
  "db_get_row_count result = (case result of None \<Rightarrow> 0 | Some r \<Rightarrow> res_row_count r)"

definition db_get_column_count :: "db_result option \<Rightarrow> int" where
  "db_get_column_count result = (case result of None \<Rightarrow> 0
     | Some r \<Rightarrow> (case res_rows r of [] \<Rightarrow> 0 | row # _ \<Rightarrow> column_count row))"

definition db_get_column_name :: "db_result option \<Rightarrow> int \<Rightarrow> string option outcome" where
  "db_get_column_name result column_index = (case result of
     None \<Rightarrow> Ret None
   | Some r \<Rightarrow> (case res_rows r of
       [] \<Rightarrow> Ret None
     | row # _ \<Rightarrow>
         if column_index < 0 \<or> column_count row \<le> column_index then Ret None
         else array_at column_index (row_columns row)))"

text \<open>The walk to a row: as many links as the index says, or to the end.\<close>

definition db_get_value :: "db_result option \<Rightarrow> int \<Rightarrow> int \<Rightarrow> string option outcome" where
  "db_get_value result row_index column_index = (case result of
     None \<Rightarrow> Ret None
   | Some r \<Rightarrow>
       if res_rows r = [] \<or> row_index < 0 \<or> column_index < 0 then Ret None
       else (case drop (nat row_index) (res_rows r) of
           [] \<Rightarrow> Ret None
         | row # _ \<Rightarrow> if column_count row \<le> column_index then Ret None else array_at column_index (row_values row)))"

text \<open>The search for a column by its name among the first \<open>n\<close>.\<close>

fun column_loop :: "string \<Rightarrow> string option list \<Rightarrow> nat \<Rightarrow> int option outcome" where
  "column_loop name cols 0 = Ret None"
| "column_loop name [] (Suc n) = Fault Out_of_bounds"
| "column_loop name (c # cols) (Suc n) = (case c of
     None \<Rightarrow> Fault Null_deref
   | Some t \<Rightarrow> if t = name then Ret (Some 0) else obind (column_loop name cols n) (\<lambda>i. Ret (map_option (\<lambda>j. j + 1) i)))"

definition db_get_value_by_name :: "db_result option \<Rightarrow> int \<Rightarrow> string option \<Rightarrow> string option outcome" where
  "db_get_value_by_name result row_index column_name = (case (result, column_name) of
     (Some r, Some name) \<Rightarrow> (case res_rows r of
         [] \<Rightarrow> Ret None
       | row # _ \<Rightarrow> obind (column_loop name (row_columns row) (nat (column_count row))) (\<lambda>i. case i of
             None \<Rightarrow> Ret None
           | Some j \<Rightarrow> db_get_value result row_index j))
   | _ \<Rightarrow> Ret None)"

section \<open>Errors and helpers\<close>

definition db_get_last_error :: "database_connection option \<Rightarrow> string option" where
  "db_get_last_error conn = (case conn of None \<Rightarrow> None | Some c \<Rightarrow> conn_last_error c)"

definition db_get_last_error_code :: "database_connection option \<Rightarrow> int" where
  "db_get_last_error_code conn = (case conn of None \<Rightarrow> 0 | Some c \<Rightarrow> if conn_last_error c \<noteq> None then -1 else 0)"

definition db_clear_error :: "database_connection option \<Rightarrow> database_connection option" where
  "db_clear_error conn = map_option (conn_last_error_update (\<lambda>_. None)) conn"

definition set_db_error :: "database_connection option \<Rightarrow> string option \<Rightarrow> answers \<Rightarrow> database_connection option \<times> answers" where
  "set_db_error conn e as = (case conn of
     None \<Rightarrow> (None, as)
   | Some c \<Rightarrow> (case dup_text e as of (t, as1) \<Rightarrow> (Some (c\<lparr>conn_last_error := t\<rparr>), as1)))"

definition db_escape_string :: "database_connection option \<Rightarrow> string option \<Rightarrow> answers \<Rightarrow> string option \<times> answers" where
  "db_escape_string conn str as = (if conn = None \<or> str = None then (None, as)
     else case next_answer as of (ok, as1) \<Rightarrow> (if ok then str else None, as1))"

definition BACKTICK :: string where "BACKTICK = [CHR 0x60]"

definition db_quote_identifier :: "database_connection option \<Rightarrow> string option \<Rightarrow> answers \<Rightarrow> string option \<times> answers" where
  "db_quote_identifier conn identifier as = (case (conn, identifier) of
     (Some c, Some n) \<Rightarrow> (case next_answer as of (ok, as1) \<Rightarrow> (if ok then Some (BACKTICK @ n @ BACKTICK) else None, as1))
   | _ \<Rightarrow> (None, as))"

definition QUOTE :: string where "QUOTE = [CHR 0x27]"

definition exists_sql :: "string \<Rightarrow> string" where
  "exists_sql t = snprintf_text 256 (''SELECT 1 FROM information_schema.tables WHERE table_name = '' @ QUOTE @ t @ QUOTE)"

definition db_table_exists :: "database_connection option \<Rightarrow> string option \<Rightarrow> answers \<Rightarrow> bool \<times> answers" where
  "db_table_exists conn table_name as = (case table_name of
     None \<Rightarrow> (False, as)
   | Some t \<Rightarrow>
       if conn = None \<or> \<not> db_is_connected conn then (False, as)
       else case db_execute_query conn (Some (exists_sql t)) as of (r, as1) \<Rightarrow> (case r of
           None \<Rightarrow> (False, as1)
         | Some result \<Rightarrow> (0 < res_row_count result, as1)))"

definition count_sql :: "string \<Rightarrow> string" where
  "count_sql t = snprintf_text 256 (''SELECT COUNT(*) FROM '' @ t)"

definition db_get_table_count :: "database_connection option \<Rightarrow> string option \<Rightarrow> answers \<Rightarrow> (int \<times> answers) outcome" where
  "db_get_table_count conn table_name as = (case table_name of
     None \<Rightarrow> Ret (-1, as)
   | Some t \<Rightarrow>
       if conn = None \<or> \<not> db_is_connected conn then Ret (-1, as)
       else case db_execute_query conn (Some (count_sql t)) as of (r, as1) \<Rightarrow> (case r of
           None \<Rightarrow> Ret (-1, as1)
         | Some result \<Rightarrow> (case res_rows result of
             [] \<Rightarrow> Ret (-1, as1)
           | row # _ \<Rightarrow> obind (array_at 0 (row_values row)) (\<lambda>v. case v of
               None \<Rightarrow> Fault Null_deref
             | Some x \<Rightarrow> Ret (atoi x, as1)))))"

section \<open>The connection pool\<close>

text \<open>
  The loop that fills the array. A connection that cannot be allocated is copied from NULL. A
  connection without a handle ends the loop; the connections before it are then freed one by one
  although they lie inside the array, of which the first address is freed once more at the end.
\<close>

fun fill_pool :: "nat \<Rightarrow> nat \<Rightarrow> database_connection list \<Rightarrow> answers \<Rightarrow> (database_connection list option \<times> answers) outcome" where
  "fill_pool 0 i conns as = Ret (Some conns, as)"
| "fill_pool (Suc n) i conns as = (case create_db_connection as of (c, as1) \<Rightarrow> (case c of
     None \<Rightarrow> Fault Null_deref
   | Some conn \<Rightarrow>
       if conn_handle conn = 0 then (if i = 0 then Ret (None, as1) else Fault Double_free)
       else fill_pool n (Suc i) (conns @ [conn]) as1))"

definition init_connection_pool :: "nat \<Rightarrow> db_state \<Rightarrow> (int \<times> db_state) outcome" where
  "init_connection_pool r s = obind (db_object r s) (\<lambda>d.
     if pd_pool_initialized d then Ret (0, s)
     else case db_answer s of (ok, s1) \<Rightarrow>
       if \<not> ok then Ret (-1, db_put r (d\<lparr>pd_connections := None\<rparr>) s1)
       else obind (fill_pool (nat (pd_max_connections d)) 0 [] (db_answers s1)) (\<lambda>(conns, as).
         let s2 = s1\<lparr>db_answers := as\<rparr> in
         case conns of
           None \<Rightarrow> Ret (-1, db_put r (d\<lparr>pd_connections := None\<rparr>) s2)
         | Some cs \<Rightarrow> Ret (0, db_put r (d\<lparr>pd_connections := Some cs, pd_connection_count := 0, pd_pool_initialized := True\<rparr>) s2)))"

text \<open>The connections are disconnected before the array is freed, which nobody can observe.\<close>

definition cleanup_connection_pool :: "nat \<Rightarrow> db_state \<Rightarrow> db_state outcome" where
  "cleanup_connection_pool r s = obind (db_object r s) (\<lambda>d.
     if \<not> pd_pool_initialized d then Ret s
     else case pd_connections d of
         None \<Rightarrow> Ret (db_put r (d\<lparr>pd_connection_count := 0, pd_pool_initialized := False\<rparr>) s)
       | Some cs \<Rightarrow>
           if pd_max_connections d \<le> int (length cs)
           then Ret (db_put r (d\<lparr>pd_connections := None, pd_connection_count := 0, pd_pool_initialized := False\<rparr>) s)
           else Fault Out_of_bounds)"

definition db_pool_init :: "database_config option \<Rightarrow> db_state \<Rightarrow> (int \<times> db_state) outcome" where
  "db_pool_init config s = (case (global_db_data s, config) of
     (Some r, Some c) \<Rightarrow> init_connection_pool r s | _ \<Rightarrow> Ret (-1, s))"

text \<open>
  What a caller gets: a slot of the pool, or a pointer to no connection (the address of a slot of an
  array that is NULL, or outside the array).
\<close>

datatype conn_ref = Pool_slot nat | No_connection

definition slot_ref :: "database_private_data \<Rightarrow> conn_ref" where
  "slot_ref d = (case pd_connections d of
     None \<Rightarrow> No_connection
   | Some cs \<Rightarrow> if 0 \<le> pd_connection_count d \<and> pd_connection_count d < int (length cs)
       then Pool_slot (nat (pd_connection_count d)) else No_connection)"

text \<open>None is a call that waits for the condition variable; the mutex is released while it waits.\<close>

definition db_pool_get_connection :: "bool \<Rightarrow> db_state \<Rightarrow> ((int \<times> conn_ref) option \<times> db_state) outcome" where
  "db_pool_get_connection conn_given s = (case global_db_data s of
     None \<Rightarrow> Ret (Some (-1, No_connection), s)
   | Some r \<Rightarrow>
       if \<not> conn_given then Ret (Some (-1, No_connection), s)
       else obind (db_object r s) (\<lambda>d. obind (uv_mutex_lock (pd_mutex d)) (\<lambda>m.
         if pd_max_connections d \<le> pd_connection_count d
         then (if pd_cond_ready d then Ret (None, s) else Fault Bad_mutex)
         else obind (uv_mutex_unlock m) (\<lambda>m1.
           Ret (Some (0, slot_ref d), db_put r (d\<lparr>pd_connection_count := pd_connection_count d + 1, pd_mutex := m1\<rparr>) s)))))"

text \<open>Of the connection that is returned only whether it is NULL is looked at.\<close>

definition db_pool_return_connection :: "bool \<Rightarrow> db_state \<Rightarrow> (int \<times> db_state) outcome" where
  "db_pool_return_connection conn_given s = (case global_db_data s of
     None \<Rightarrow> Ret (-1, s)
   | Some r \<Rightarrow>
       if \<not> conn_given then Ret (-1, s)
       else obind (db_object r s) (\<lambda>d. obind (uv_mutex_lock (pd_mutex d)) (\<lambda>m.
         if pd_connection_count d \<le> - (2 ^ 31) then Fault Int_overflow
         else if \<not> pd_cond_ready d then Fault Bad_mutex
         else obind (uv_mutex_unlock m) (\<lambda>m1.
           Ret (0, db_put r (d\<lparr>pd_connection_count := pd_connection_count d - 1, pd_mutex := m1\<rparr>) s)))))"

definition db_pool_cleanup :: "db_state \<Rightarrow> db_state outcome" where
  "db_pool_cleanup s = (case global_db_data s of None \<Rightarrow> Ret s | Some r \<Rightarrow> cleanup_connection_pool r s)"

section \<open>The module\<close>

definition database_module_init :: "bool \<Rightarrow> db_state \<Rightarrow> (int \<times> db_state) outcome" where
  "database_module_init self_given s =
     (if \<not> self_given then Ret (-1, s)
      else case db_answer s of (ok, s1) \<Rightarrow>
        if \<not> ok then Ret (-1, s1)
        else let r = db_next s1;
            d = \<lparr>pd_config = db_default_config, pd_connections = None, pd_connection_count = 0,
              pd_max_connections = cfg_max_connections db_default_config, pd_mutex = Mutex_raw, pd_cond_ready = False,
              pd_pool_initialized = False\<rparr> in
          obind (set_private (Some r) (db_put r d (s1\<lparr>db_next := r + 1\<rparr>))) (\<lambda>s2.
            case db_answer s2 of (mutex_ok, s3) \<Rightarrow>
              if \<not> mutex_ok then Ret (-1, s3)
              else case db_answer s3 of (cond_ok, s4) \<Rightarrow>
                if \<not> cond_ok then Ret (-1, db_put r (d\<lparr>pd_mutex := Mutex_dead\<rparr>) s4)
                else Ret (0, (db_put r (d\<lparr>pd_mutex := Mutex_free, pd_cond_ready := True\<rparr>) s4)\<lparr>global_db_data := Some r\<rparr>)))"

definition database_module_start :: "db_state \<Rightarrow> (int \<times> db_state) outcome" where
  "database_module_start s = (case db_private s of
     None \<Rightarrow> Ret (-1, s)
   | Some r \<Rightarrow> obind (db_object r s) (\<lambda>d.
       if cfg_enable_pooling (pd_config d)
       then obind (init_connection_pool r s) (\<lambda>(code, s1). Ret (if code \<noteq> 0 then -1 else 0, s1))
       else Ret (0, s)))"

definition database_module_stop :: "db_state \<Rightarrow> (int \<times> db_state) outcome" where
  "database_module_stop s = (case db_private s of
     None \<Rightarrow> Ret (-1, s)
   | Some r \<Rightarrow> obind (db_object r s) (\<lambda>d.
       if pd_pool_initialized d then obind (cleanup_connection_pool r s) (\<lambda>s1. Ret (0, s1)) else Ret (0, s)))"

definition database_module_cleanup :: "db_state \<Rightarrow> (int \<times> db_state) outcome" where
  "database_module_cleanup s = (case db_private s of
     None \<Rightarrow> Ret (0, s)
   | Some r \<Rightarrow> obind (db_object r s) (\<lambda>d. obind (db_mutex_destroy (pd_mutex d)) (\<lambda>m.
       if \<not> pd_cond_ready d then Fault Bad_mutex
       else if (case pd_connections d of None \<Rightarrow> False | Some cs \<Rightarrow> int (length cs) < pd_connection_count d) then Fault Out_of_bounds
       else obind (set_private None (s\<lparr>global_db_data := None, db_store := (db_store s)(r := None)\<rparr>)) (\<lambda>s1. Ret (0, s1)))))"

definition database_module_set_config :: "database_config option \<Rightarrow> db_state \<Rightarrow> (int \<times> db_state) outcome" where
  "database_module_set_config config s = (case (global_db_data s, config) of
     (Some r, Some c) \<Rightarrow> obind (db_object r s) (\<lambda>d. Ret (0, db_put r (d\<lparr>pd_config := c\<rparr>) s))
   | _ \<Rightarrow> Ret (-1, s))"

definition database_module_set_config_interface :: "database_config option \<Rightarrow> db_state \<Rightarrow> (int \<times> db_state) outcome" where
  "database_module_set_config_interface config s = (case (db_private s, config) of
     (Some r, Some c) \<Rightarrow> obind (db_object r s) (\<lambda>d. Ret (0, db_put r (d\<lparr>pd_config := c\<rparr>) s))
   | _ \<Rightarrow> Ret (-1, s))"

text \<open>The module before it is initialised.\<close>

definition db_boot :: "bool \<Rightarrow> answers \<Rightarrow> db_state" where
  "db_boot writable as = \<lparr>db_store = Map.empty, db_next = 0, db_private = None, global_db_data = None, db_writable = writable,
     db_answers = as\<rparr>"

section \<open>Calls and runs\<close>

datatype db_op =
    Db_init | Db_start | Db_stop | Db_cleanup | Db_set_config database_config | Db_set_interface database_config
  | Db_pool_init database_config | Db_pool_get | Db_pool_return | Db_pool_cleanup

datatype db_reply = Code int | Connection int conn_ref | Waits

definition coded :: "(int \<times> db_state) outcome \<Rightarrow> (db_reply \<times> db_state) outcome" where
  "coded m = obind m (\<lambda>(r, s). Ret (Code r, s))"

fun db_step :: "db_op \<Rightarrow> db_state \<Rightarrow> (db_reply \<times> db_state) outcome" where
  "db_step Db_init s = coded (database_module_init True s)"
| "db_step Db_start s = coded (database_module_start s)"
| "db_step Db_stop s = coded (database_module_stop s)"
| "db_step Db_cleanup s = coded (database_module_cleanup s)"
| "db_step (Db_set_config c) s = coded (database_module_set_config (Some c) s)"
| "db_step (Db_set_interface c) s = coded (database_module_set_config_interface (Some c) s)"
| "db_step (Db_pool_init c) s = coded (db_pool_init (Some c) s)"
| "db_step Db_pool_get s = obind (db_pool_get_connection True s) (\<lambda>(r, s1).
     Ret (case r of None \<Rightarrow> Waits | Some (c, p) \<Rightarrow> Connection c p, s1))"
| "db_step Db_pool_return s = coded (db_pool_return_connection True s)"
| "db_step Db_pool_cleanup s = obind (db_pool_cleanup s) (\<lambda>s1. Ret (Code 0, s1))"

fun run_db :: "db_op list \<Rightarrow> db_state \<Rightarrow> (db_reply list \<times> db_state) outcome" where
  "run_db [] s = Ret ([], s)"
| "run_db (x # xs) s = obind (db_step x s) (\<lambda>(r, s1). obind (run_db xs s1) (\<lambda>(rs, s2). Ret (r # rs, s2)))"

section \<open>The pool never has a connection\<close>

text \<open>What every reachable state satisfies while the interface can be written and no allocation fails; \<open>k\<close> bounds how often a
  connection has been returned.\<close>

definition pd_ok :: "nat \<Rightarrow> database_private_data \<Rightarrow> bool" where
  "pd_ok k d \<longleftrightarrow> pd_connections d = None \<and> \<not> pd_pool_initialized d \<and> pd_max_connections d = 10 \<and> pd_mutex d = Mutex_free
     \<and> pd_cond_ready d \<and> - int k \<le> pd_connection_count d \<and> pd_connection_count d \<le> 10"

definition db_inv :: "nat \<Rightarrow> db_state \<Rightarrow> bool" where
  "db_inv k s \<longleftrightarrow> db_writable s \<and> db_answers s = [] \<and> db_private s = global_db_data s
     \<and> (\<forall>r d. db_store s r = Some d \<longrightarrow> pd_ok k d) \<and> (\<forall>r. db_private s = Some r \<longrightarrow> (\<exists>d. db_store s r = Some d))"

fun no_pool_reply :: "db_op \<Rightarrow> db_reply \<Rightarrow> bool" where
  "no_pool_reply (Db_pool_init c) r \<longleftrightarrow> r = Code (-1)"
| "no_pool_reply Db_pool_get r \<longleftrightarrow> r = Waits \<or> r = Connection 0 No_connection \<or> r = Connection (-1) No_connection"
| "no_pool_reply _ r \<longleftrightarrow> True"

lemma db_inv_cases:
  assumes "db_inv k s"
  obtains (down) "db_private s = None" and "global_db_data s = None"
  | (up) r d where "db_private s = Some r" and "global_db_data s = Some r" and "db_store s r = Some d" and "pd_ok k d"
  using assms by (cases "db_private s") (auto simp: db_inv_def)

lemma pd_ok_mono: "pd_ok k d \<Longrightarrow> pd_ok (Suc k) d"
  by (auto simp: pd_ok_def)

lemma db_inv_mono: "db_inv k s \<Longrightarrow> db_inv (Suc k) s"
  by (auto simp: db_inv_def intro: pd_ok_mono)

lemma db_inv_put: "db_inv k s \<Longrightarrow> pd_ok k d \<Longrightarrow> db_inv k (db_put r d s)"
  by (auto simp: db_inv_def db_put_def)

lemma db_answer_nil: "db_answers s = [] \<Longrightarrow> db_answer s = (True, s)"
  by (simp add: db_answer_def)

text \<open>The first connection has no handle, so the pool is given up at once.\<close>

lemma init_pool_fails:
  assumes "db_inv k s" and "db_store s r = Some d"
  shows "\<exists>s1. init_connection_pool r s = Ret (-1, s1) \<and> db_inv k s1"
proof -
  have d: "pd_ok k d" and a: "db_answers s = []" using assms by (simp_all add: db_inv_def)
  have "fill_pool (nat (pd_max_connections d)) 0 [] [] = Ret (None, [])"
    using d by (simp add: pd_ok_def create_db_connection_def numeral_eq_Suc)
  moreover have "d\<lparr>pd_connections := None\<rparr> = d" using d by (simp add: pd_ok_def)
  moreover have e: "s\<lparr>db_answers := []\<rparr> = s" using a by simp
  moreover have "\<not> pd_pool_initialized d" using d by (simp add: pd_ok_def)
  ultimately have "init_connection_pool r s = Ret (-1, db_put r d s)"
    using assms(2) a db_answer_nil [OF a] by (simp add: init_connection_pool_def db_object_def e)
  with db_inv_put [OF assms(1) d] show ?thesis by blast
qed

lemma db_life_cycle_steps:
  assumes "db_inv k s" and "x = Db_init \<or> x = Db_start \<or> x = Db_stop \<or> x = Db_cleanup"
  shows "\<exists>r s1. db_step x s = Ret (r, s1) \<and> db_inv k s1"
proof -
  have i: "\<exists>r s1. db_step Db_init s = Ret (r, s1) \<and> db_inv k s1"
    using assms(1) by (auto simp: coded_def database_module_init_def db_answer_def Let_def set_private_def db_put_def db_inv_def pd_ok_def
        db_default_config_def)
  show ?thesis using assms(1)
  proof (cases rule: db_inv_cases)
    case down
    then show ?thesis using assms i
      by (auto simp: coded_def database_module_start_def database_module_stop_def database_module_cleanup_def)
  next
    case (up r d)
    obtain s1 where "init_connection_pool r s = Ret (-1, s1)" "db_inv k s1" using init_pool_fails [OF assms(1) up(3)] by blast
    then have "db_step Db_start s = (if cfg_enable_pooling (pd_config d) then Ret (Code (-1), s1) else Ret (Code 0, s))"
      using up by (simp add: coded_def database_module_start_def db_object_def)
    with assms(1) \<open>db_inv k s1\<close> have "\<exists>r s1. db_step Db_start s = Ret (r, s1) \<and> db_inv k s1" by simp
    moreover have "\<exists>r s1. db_step Db_stop s = Ret (r, s1) \<and> db_inv k s1"
      using up assms(1) by (auto simp: coded_def database_module_stop_def db_object_def pd_ok_def)
    moreover have "\<exists>r s1. db_step Db_cleanup s = Ret (r, s1) \<and> db_inv k s1"
      using up assms(1) by (auto simp: coded_def database_module_cleanup_def db_object_def pd_ok_def set_private_def db_inv_def)
    ultimately show ?thesis using assms(2) i by blast
  qed
qed

lemma db_pool_steps:
  assumes "db_inv k s" and "int k < 2 ^ 31" and "x \<notin> {Db_init, Db_start, Db_stop, Db_cleanup}"
  shows "\<exists>r s1. db_step x s = Ret (r, s1) \<and> db_inv (Suc k) s1 \<and> no_pool_reply x r"
proof -
  note m = db_inv_mono [OF assms(1)]
  show ?thesis using assms(1)
  proof (cases rule: db_inv_cases)
    case down
    then show ?thesis
      using assms(3) m
      by (cases x) (auto simp: coded_def database_module_set_config_def database_module_set_config_interface_def db_pool_init_def
          db_pool_get_connection_def db_pool_return_connection_def db_pool_cleanup_def)
  next
    case (up r d)
    have put: "db_inv (Suc k) (db_put r e s)" if "pd_ok (Suc k) e" for e using db_inv_put [OF m that] .
    obtain s1 where "init_connection_pool r s = Ret (-1, s1)" "db_inv k s1" using init_pool_fails [OF assms(1) up(3)] by blast
    with up assms(2,3) m put show ?thesis
      by (cases x) (auto simp: coded_def database_module_set_config_def database_module_set_config_interface_def db_pool_init_def
          db_pool_get_connection_def db_pool_return_connection_def db_pool_cleanup_def cleanup_connection_pool_def db_object_def
          pd_ok_def slot_ref_def intro: db_inv_mono)
  qed
qed

lemma db_steps:
  assumes "db_inv k s" and "int k < 2 ^ 31"
  shows "\<exists>r s1. db_step x s = Ret (r, s1) \<and> db_inv (Suc k) s1 \<and> no_pool_reply x r"
proof (cases "x \<in> {Db_init, Db_start, Db_stop, Db_cleanup}")
  case True
  then obtain r s1 where "db_step x s = Ret (r, s1)" "db_inv k s1" using db_life_cycle_steps [OF assms(1), of x] by blast
  with True db_inv_mono show ?thesis by auto
next
  case False
  with db_pool_steps [OF assms] show ?thesis by blast
qed

lemma db_run_inv:
  "db_inv k s \<Longrightarrow> int k + int (length ops) \<le> 2 ^ 31 \<Longrightarrow>
   \<exists>rs s1. run_db ops s = Ret (rs, s1) \<and> db_inv (k + length ops) s1 \<and> list_all2 no_pool_reply ops rs"
proof (induction ops arbitrary: k s)
  case (Cons x ops)
  have "int k < 2 ^ 31" "int (Suc k) + int (length ops) \<le> 2 ^ 31" using Cons.prems(2) by simp_all
  then obtain r s1 where 1: "db_step x s = Ret (r, s1)" "db_inv (Suc k) s1" "no_pool_reply x r"
    using db_steps [OF Cons.prems(1)] by blast
  then obtain rs s2 where "run_db ops s1 = Ret (rs, s2)" "db_inv (Suc k + length ops) s2" "list_all2 no_pool_reply ops rs"
    using Cons.IH [of "Suc k" s1] \<open>int (Suc k) + int (length ops) \<le> 2 ^ 31\<close> by blast
  with 1 show ?case by simp
qed simp

text \<open>In a run of up to \<open>2 ^ 31\<close> calls of the module, with an interface that can be written and no allocation that fails, no
  call faults, the pool is never initialised, initialising it always fails, and a caller who asks for a connection waits or gets a
  pointer to none.\<close>

theorem pool_never_has_a_connection:
  assumes "int (length ops) \<le> 2 ^ 31"
  shows "\<exists>rs s. run_db ops (db_boot True []) = Ret (rs, s) \<and> list_all2 no_pool_reply ops rs
    \<and> (\<forall>r d. db_store s r = Some d \<longrightarrow> pd_connections d = None \<and> \<not> pd_pool_initialized d)"
proof -
  have "db_inv 0 (db_boot True [])" by (simp add: db_inv_def db_boot_def)
  then obtain rs s where 1: "run_db ops (db_boot True []) = Ret (rs, s)" "db_inv (length ops) s" "list_all2 no_pool_reply ops rs"
    using db_run_inv [of 0 "db_boot True []" ops] assms by auto
  then have "\<forall>r d. db_store s r = Some d \<longrightarrow> pd_connections d = None \<and> \<not> pd_pool_initialized d"
    by (auto simp: db_inv_def pd_ok_def)
  with 1 show ?thesis by blast
qed

theorem pool_never_has_a_connection_witness:
  "\<exists>rs s. run_db [Db_init, Db_start, Db_pool_get] (db_boot True []) = Ret (rs, s)
    \<and> list_all2 no_pool_reply [Db_init, Db_start, Db_pool_get] rs
    \<and> (\<forall>r d. db_store s r = Some d \<longrightarrow> pd_connections d = None \<and> \<not> pd_pool_initialized d)"
  using pool_never_has_a_connection [of "[Db_init, Db_start, Db_pool_get]"] by simp

text \<open>The interface of the program is \<open>const\<close>: its initialisation writes to it.\<close>

lemma init_of_const_interface:
  "\<not> db_writable s \<Longrightarrow> db_answers s = [] \<Longrightarrow> database_module_init True s = Fault Const_write"
  by (simp add: database_module_init_def db_answer_def Let_def set_private_def db_put_def)

section \<open>Result sets are tables\<close>

text \<open>A result in which every row has the same named columns.\<close>

definition result_ok :: "string list \<Rightarrow> db_result \<Rightarrow> bool" where
  "result_ok cols r \<longleftrightarrow> list_all (\<lambda>row. row_columns row = map Some cols \<and> length (row_values row) = length cols
     \<and> column_count row = int (length cols)) (res_rows r)"

text \<open>Reference: the value under the first column of that name.\<close>

definition cell :: "string list \<Rightarrow> db_result \<Rightarrow> int \<Rightarrow> string \<Rightarrow> string option" where
  "cell cols r i name = (if 0 \<le> i \<and> i < int (length (res_rows r))
     then (case map_of (zip cols (row_values (res_rows r ! nat i))) name of None \<Rightarrow> None | Some v \<Rightarrow> v) else None)"

lemma column_loop_find: "column_loop name (map Some cols) (length cols) = Ret (map_option int (find_idx (\<lambda>c. c = name) cols))"
  by (induction cols) (auto simp: option.map_comp comp_def add.commute)

lemma map_of_zip_find:
  "length vs = length cols \<Longrightarrow> map_of (zip cols vs) name = map_option (\<lambda>i. vs ! i) (find_idx (\<lambda>c. c = name) cols)"
proof (induction cols arbitrary: vs)
  case (Cons c cols)
  then obtain v us where "vs = v # us" by (cases vs) auto
  with Cons show ?case by (auto simp: option.map_comp comp_def)
qed simp

text \<open>In a result set whose rows have the same columns, the value by row number and column name is the value of the row in the
  first column of that name, and NULL for a row or column that does not exist.\<close>

theorem value_by_name_is_cell:
  assumes "result_ok cols r"
  shows "db_get_value_by_name (Some r) i (Some name) = Ret (cell cols r i name)"
proof (cases "res_rows r")
  case Nil
  then show ?thesis by (auto simp: db_get_value_by_name_def cell_def)
next
  case (Cons row rows)
  have ok: "row_columns x = map Some cols \<and> length (row_values x) = length cols \<and> column_count x = int (length cols)"
    if "x \<in> set (res_rows r)" for x using assms that by (auto simp: result_ok_def list_all_iff)
  have row: "row_columns row = map Some cols" "column_count row = int (length cols)" using ok [of row] Cons by simp_all
  show ?thesis
  proof (cases "0 \<le> i \<and> i < int (length (res_rows r))")
    case True
    then have n: "nat i < length (res_rows r)" by auto
    then have d: "drop (nat i) (res_rows r) = res_rows r ! nat i # drop (Suc (nat i)) (res_rows r)" by (simp add: Cons_nth_drop_Suc)
    note x = ok [OF nth_mem [OF n]]
    show ?thesis
      using True Cons row x find_idx_SomeD [of "\<lambda>c. c = name" cols]
      by (auto simp: db_get_value_by_name_def column_loop_find db_get_value_def d [unfolded Cons] cell_def map_of_zip_find array_at_def split: option.split)
  next
    case False
    then show ?thesis using Cons row by (auto simp: db_get_value_by_name_def column_loop_find db_get_value_def cell_def split: option.split)
  qed
qed

definition demo_result :: db_result where
  "demo_result = \<lparr>res_rows = [\<lparr>row_columns = [Some ''id'', Some ''name''], row_values = [Some ''7'', None], column_count = 2\<rparr>],
     res_row_count = 1, res_affected_rows = 0, res_last_error = None\<rparr>"

theorem value_by_name_is_cell_witness: "db_get_value_by_name (Some demo_result) 0 (Some ''id'') = Ret (Some ''7'')"
  using value_by_name_is_cell [of "[''id'', ''name'']" demo_result 0 "''id''"] by (simp add: result_ok_def demo_result_def cell_def)

section \<open>What the stubs answer\<close>

text \<open>No table exists, and no text is escaped.\<close>

lemma no_table_exists: "fst (db_table_exists conn t as) = False"
  by (auto simp: db_table_exists_def db_execute_query_def split: option.split prod.split)

lemma escaping_changes_nothing: "conn \<noteq> None \<Longrightarrow> db_escape_string conn (Some str) [] = (Some str, [])"
  by (simp add: db_escape_string_def)

lemma connect_connects: "cf \<noteq> None \<Longrightarrow> db_is_connected (fst (db_connect cf []))"
  by (auto simp: db_connect_def create_db_connection_def dup_text_def strdup_def db_is_connected_def SIMULATED_HANDLE_def split: option.split)

end
