(* ===== verification/Client_Handles.thy ===== *)
theory Client_Handles
  imports Interfaces
begin

text \<open>
  What the two TCP modules (src/net/network_module.c and src/net/enhanced_network_module.c) have in
  common: the growing array of clients, the handles that libuv keeps, and the callbacks for new and
  closed connections, which the second file repeats word for word. A handle is a block of memory that
  the close callback frees; its \<open>data\<close> field points to the module's private data, which the module frees
  on its own. Both are therefore objects at addresses. The private data of a module extend the record
  of the array. The answers are those of \<open>malloc\<close>, \<open>realloc\<close> and \<open>strdup\<close>; results of libuv are arguments.
\<close>

section \<open>Data\<close>

record client_array =
  arr_clients :: "nat list"
  client_capacity :: nat
  server_listening :: bool
  server_closing :: bool

record uv_client =
  h_data :: nat
  h_closing :: bool

text \<open>The private data, the pointer in the module's interface, the client handles, what was given to \<open>uv_write\<close>.\<close>

record 'd loop_state =
  data_store :: "nat \<rightharpoonup> 'd"
  next_data :: nat
  net_private :: "nat option"
  handles :: "nat \<rightharpoonup> uv_client"
  next_handle :: nat
  outbox :: "(nat \<times> string) list"
  net_answers :: answers

definition INITIAL_CLIENT_CAPACITY :: nat where "INITIAL_CLIENT_CAPACITY = 16"

definition net_answer :: "'d loop_state \<Rightarrow> bool \<times> 'd loop_state" where
  "net_answer s = (case next_answer (net_answers s) of (ok, as) \<Rightarrow> (ok, s\<lparr>net_answers := as\<rparr>))"

definition net_object :: "nat \<Rightarrow> 'd loop_state \<Rightarrow> 'd outcome" where
  "net_object r s = (case data_store s r of None \<Rightarrow> Fault Use_after_free | Some d \<Rightarrow> Ret d)"

definition net_put :: "nat \<Rightarrow> 'd \<Rightarrow> 'd loop_state \<Rightarrow> 'd loop_state" where
  "net_put r d s = s\<lparr>data_store := (data_store s)(r \<mapsto> d)\<rparr>"

section \<open>The array of clients\<close>

definition expand_client_capacity :: "bool \<Rightarrow> 'a client_array_scheme \<Rightarrow> int \<times> 'a client_array_scheme" where
  "expand_client_capacity ok d = (if \<not> ok then (-1, d) else (0, d\<lparr>client_capacity := client_capacity d * 2\<rparr>))"

text \<open>The allocator is asked only when the array is full.\<close>

definition add_client ::
  "'a client_array_scheme \<Rightarrow> nat \<Rightarrow> answers \<Rightarrow> (int \<times> 'a client_array_scheme \<times> answers) outcome" where
  "add_client d client as =
     (case (if client_capacity d \<le> length (arr_clients d)
            then (case next_answer as of (ok, as1) \<Rightarrow> case expand_client_capacity ok d of (r, d1) \<Rightarrow> (r, d1, as1))
            else (0, d, as)) of (r, d1, as1) \<Rightarrow>
       if r \<noteq> 0 then Ret (-1, d1, as1)
       else if length (arr_clients d1) < client_capacity d1 then Ret (0, d1\<lparr>arr_clients := arr_clients d1 @ [client]\<rparr>, as1)
       else Fault Out_of_bounds)"

definition remove_client :: "'a client_array_scheme \<Rightarrow> nat \<Rightarrow> int \<times> 'a client_array_scheme" where
  "remove_client d client = (case find_idx (\<lambda>c. c = client) (arr_clients d) of
     None \<Rightarrow> (-1, d)
   | Some i \<Rightarrow> (0, d\<lparr>arr_clients := remove_slot i (arr_clients d)\<rparr>))"

section \<open>Handles\<close>

text \<open>libuv asserts that a handle is closed once.\<close>

definition uv_close_client :: "nat \<Rightarrow> 'd loop_state \<Rightarrow> 'd loop_state outcome" where
  "uv_close_client h s = (case handles s h of
     None \<Rightarrow> Fault Use_after_free
   | Some c \<Rightarrow> if h_closing c then Fault Assert_failed else Ret (s\<lparr>handles := (handles s)(h \<mapsto> c\<lparr>h_closing := True\<rparr>)\<rparr>))"

definition on_handle_close :: "nat \<Rightarrow> 'a client_array_scheme loop_state \<Rightarrow> 'a client_array_scheme loop_state outcome" where
  "on_handle_close h s = (case handles s h of
     None \<Rightarrow> Fault Use_after_free
   | Some c \<Rightarrow> obind (net_object (h_data c) s) (\<lambda>d.
       Ret ((net_put (h_data c) (snd (remove_client d h)) s)\<lparr>handles := (handles s)(h := None)\<rparr>)))"

text \<open>A new connection at the server of the private data \<open>r\<close>.\<close>

definition on_connection ::
  "nat \<Rightarrow> int \<Rightarrow> bool \<Rightarrow> 'a client_array_scheme loop_state \<Rightarrow> 'a client_array_scheme loop_state outcome" where
  "on_connection r status accepted s =
     (if status < 0 then Ret s
      else case net_answer s of (ok, s1) \<Rightarrow>
        if \<not> ok then Ret s1
        else let h = next_handle s1;
            s2 = s1\<lparr>next_handle := h + 1, handles := (handles s1)(h \<mapsto> \<lparr>h_data = r, h_closing = False\<rparr>)\<rparr> in
          if \<not> accepted then uv_close_client h s2
          else obind (net_object r s2) (\<lambda>d. obind (add_client d h (net_answers s2)) (\<lambda>(code, d1, as).
            let s3 = (net_put r d1 s2)\<lparr>net_answers := as\<rparr> in
            if code = 0 then Ret s3 else uv_close_client h s3)))"

text \<open>The loop of the stop functions.\<close>

fun close_clients :: "nat list \<Rightarrow> 'd loop_state \<Rightarrow> 'd loop_state outcome" where
  "close_clients [] s = Ret s"
| "close_clients (h # hs) s = obind (uv_close_client h s) (close_clients hs)"

text \<open>Stopping: every client, then the server, which must not be closing already.\<close>

definition stop_server :: "nat \<Rightarrow> 'a client_array_scheme loop_state \<Rightarrow> (int \<times> 'a client_array_scheme loop_state) outcome" where
  "stop_server r s = obind (net_object r s) (\<lambda>d. obind (close_clients (arr_clients d) s) (\<lambda>s1.
     if server_closing d then Fault Assert_failed
     else Ret (0, net_put r (d\<lparr>server_closing := True, server_listening := False\<rparr>) s1)))"

text \<open>The loop finishes closing the server, whose handle is a part of the private data.\<close>

definition on_server_closed :: "nat \<Rightarrow> 'd loop_state \<Rightarrow> 'd loop_state outcome" where
  "on_server_closed r s = obind (net_object r s) (\<lambda>d. Ret s)"

section \<open>The array as a list\<close>

text \<open>A table of clients: what a client of the contract may rely on.\<close>

locale client_table =
  fixes members :: "'t \<Rightarrow> 'c list"
    and insert :: "'c \<Rightarrow> 't \<Rightarrow> 't"
    and delete :: "'c \<Rightarrow> 't \<Rightarrow> 't"
    and invar :: "'t \<Rightarrow> bool"
  assumes members_insert: "invar t \<Longrightarrow> members (insert c t) = members t @ [c]"
    and members_delete: "invar t \<Longrightarrow> members (delete c t) = remove1 c (members t)"
    and invar_insert: "invar t \<Longrightarrow> invar (insert c t)"
    and invar_delete: "invar t \<Longrightarrow> invar (delete c t)"
begin

lemma members_run:
  "invar t \<Longrightarrow> members (run_table (\<lambda>k v. insert k) delete ops t) = run_table (\<lambda>k v xs. xs @ [k]) remove1 ops (members t)
    \<and> invar (run_table (\<lambda>k v. insert k) delete ops t)"
proof (induction ops arbitrary: t)
  case (Cons op ops)
  then show ?case by (cases op) (simp_all add: members_insert members_delete invar_insert invar_delete)
qed simp

lemma distinct_delete: "invar t \<Longrightarrow> distinct (members t) \<Longrightarrow> set (members (delete c t)) = set (members t) - {c}"
  by (simp add: members_delete)

end

definition array_ok :: "'a client_array_scheme \<Rightarrow> bool" where
  "array_ok d \<longleftrightarrow> 0 < client_capacity d \<and> length (arr_clients d) \<le> client_capacity d"

definition array_insert :: "nat \<Rightarrow> 'a client_array_scheme \<Rightarrow> 'a client_array_scheme" where
  "array_insert c d = (case add_client d c [] of Ret (r, d1, as) \<Rightarrow> d1 | Fault e \<Rightarrow> d)"

definition array_delete :: "nat \<Rightarrow> 'a client_array_scheme \<Rightarrow> 'a client_array_scheme" where
  "array_delete c d = snd (remove_client d c)"

lemma add_client_appends:
  "array_ok d \<Longrightarrow> \<exists>d1. add_client d c [] = Ret (0, d1, []) \<and> arr_clients d1 = arr_clients d @ [c] \<and> array_ok d1
     \<and> server_listening d1 = server_listening d \<and> server_closing d1 = server_closing d"
  by (auto simp: add_client_def expand_client_capacity_def array_ok_def)

lemma remove_slot_first: "find_idx (\<lambda>x. x = c) xs = Some i \<Longrightarrow> remove_slot i xs = remove1 c xs"
proof (induction xs arbitrary: i)
  case (Cons x xs)
  then show ?case
    using find_idx_SomeD [of "\<lambda>x. x = c" xs] by (auto simp: remove_slot_eq split: if_splits)
qed simp

lemma remove_client_removes:
  "arr_clients (snd (remove_client d c)) = remove1 c (arr_clients d)" "array_ok d \<Longrightarrow> array_ok (snd (remove_client d c))"
  "server_listening (snd (remove_client d c)) = server_listening d" "server_closing (snd (remove_client d c)) = server_closing d"
proof -
  show r: "arr_clients (snd (remove_client d c)) = remove1 c (arr_clients d)"
    using find_idx_None [of "\<lambda>x. x = c" "arr_clients d"]
    by (auto simp: remove_client_def remove_slot_first remove1_idem split: option.split)
  show "array_ok d \<Longrightarrow> array_ok (snd (remove_client d c))"
    using r length_remove1 [of c "arr_clients d"]
    by (auto simp: array_ok_def) (auto simp: remove_client_def split: option.split)
qed (auto simp: remove_client_def split: option.split)

interpretation clients: client_table arr_clients array_insert array_delete array_ok
proof unfold_locales
  fix t :: "'a client_array_scheme" and c
  assume "array_ok t"
  then show "arr_clients (array_insert c t) = arr_clients t @ [c]" "array_ok (array_insert c t)"
    using add_client_appends [of t c] by (auto simp: array_insert_def)
  from \<open>array_ok t\<close> show "arr_clients (array_delete c t) = remove1 c (arr_clients t)" "array_ok (array_delete c t)"
    by (auto simp: array_delete_def remove_client_removes)
qed

section \<open>Clients and handles agree\<close>

text \<open>
  The array of the private data \<open>r\<close> holds live handles that point back to it, each once, within its capacity, and every live
  handle that is not being closed is in the array.
\<close>

definition clients_inv :: "nat \<Rightarrow> 'a client_array_scheme loop_state \<Rightarrow> bool" where
  "clients_inv r s \<longleftrightarrow> (\<exists>d. data_store s r = Some d \<and> array_ok d \<and> distinct (arr_clients d)
     \<and> (\<forall>h \<in> set (arr_clients d). handles s h \<noteq> None)
     \<and> (\<forall>h c. handles s h = Some c \<longrightarrow> h_data c = r \<and> h < next_handle s \<and> (h_closing c \<or> h \<in> set (arr_clients d))))"

text \<open>What the callbacks leave alone.\<close>

definition same_module :: "nat \<Rightarrow> 'a client_array_scheme loop_state \<Rightarrow> 'a client_array_scheme loop_state \<Rightarrow> bool" where
  "same_module r s s' \<longleftrightarrow> net_private s' = net_private s \<and> outbox s' = outbox s \<and>
     (\<forall>d. data_store s r = Some d \<longrightarrow> (\<exists>d'. data_store s' r = Some d' \<and> client_array.more d' = client_array.more d
       \<and> server_listening d' = server_listening d \<and> server_closing d' = server_closing d))"

lemma same_module_refl: "same_module r s s"
  by (simp add: same_module_def)

lemma same_module_trans: "same_module r s t \<Longrightarrow> same_module r t u \<Longrightarrow> same_module r s u"
  by (fastforce simp: same_module_def)

lemma add_client_cases:
  assumes "array_ok d"
  obtains (refused) as1 where "add_client d c as = Ret (-1, d, as1)"
  | (added) d1 as1 where "add_client d c as = Ret (0, d1, as1)" and "arr_clients d1 = arr_clients d @ [c]" and "array_ok d1"
      and "client_array.more d1 = client_array.more d" and "server_listening d1 = server_listening d"
      and "server_closing d1 = server_closing d"
proof (cases "client_capacity d \<le> length (arr_clients d)")
  case True
  obtain ok as1 where "next_answer as = (ok, as1)" by (cases "next_answer as")
  with True assms refused [of as1] added [of "d\<lparr>client_capacity := client_capacity d * 2, arr_clients := arr_clients d @ [c]\<rparr>" as1]
  show ?thesis by (cases ok) (auto simp: add_client_def expand_client_capacity_def array_ok_def)
next
  case False
  with assms added [of "d\<lparr>arr_clients := arr_clients d @ [c]\<rparr>" as] show ?thesis by (auto simp: add_client_def array_ok_def)
qed

lemma close_keeps:
  assumes "clients_inv r s" and "handles s h = Some c" and "\<not> h_closing c"
  shows "\<exists>s'. uv_close_client h s = Ret s' \<and> clients_inv r s' \<and> same_module r s s'"
  using assms by (auto simp: uv_close_client_def clients_inv_def same_module_def)

lemma remove_client_more [simp]: "client_array.more (snd (remove_client d c)) = client_array.more d"
  by (simp add: remove_client_def split: option.split)

lemma handle_close_keeps:
  assumes "clients_inv r s" and "handles s h = Some c"
  shows "\<exists>s'. on_handle_close h s = Ret s' \<and> clients_inv r s' \<and> same_module r s s' \<and> handles s' h = None"
proof -
  obtain d where d: "data_store s r = Some d" "array_ok d" "distinct (arr_clients d)" "h_data c = r"
    using assms by (auto simp: clients_inv_def)
  then show ?thesis
    using assms by (auto simp: on_handle_close_def net_object_def net_put_def clients_inv_def same_module_def remove_client_removes)
qed

text \<open>A handle that is open but not in the array yet is the next to be added or closed.\<close>

lemma connection_keeps:
  assumes "clients_inv r s"
  shows "\<exists>s'. on_connection r status accepted s = Ret s' \<and> clients_inv r s' \<and> same_module r s s'"
proof -
  obtain d where d: "data_store s r = Some d" "array_ok d" "distinct (arr_clients d)" using assms by (auto simp: clients_inv_def)
  obtain ok as1 where a: "next_answer (net_answers s) = (ok, as1)" by (cases "next_answer (net_answers s)")
  define h where "h = next_handle s"
  have fresh: "handles s h = None" "h \<notin> set (arr_clients d)"
    using assms d(1) by (auto simp: clients_inv_def h_def) (metis option.exhaust less_irrefl)+
  define s2 where "s2 = s\<lparr>net_answers := as1, next_handle := h + 1, handles := (handles s)(h \<mapsto> \<lparr>h_data = r, h_closing = False\<rparr>)\<rparr>"
  define s4 where "s4 = s2\<lparr>handles := (handles s2)(h \<mapsto> \<lparr>h_data = r, h_closing = True\<rparr>)\<rparr>"
  have closed: "clients_inv r (s4\<lparr>net_answers := as2\<rparr>) \<and> same_module r s (s4\<lparr>net_answers := as2\<rparr>)" for as2
    using assms d by (auto simp: clients_inv_def same_module_def s2_def s4_def h_def less_Suc_eq)
  show ?thesis
  proof (cases "status < 0 \<or> \<not> ok")
    case True
    have "clients_inv r (s\<lparr>net_answers := as1\<rparr>)" "same_module r s (s\<lparr>net_answers := as1\<rparr>)"
      using assms by (auto simp: clients_inv_def same_module_def)
    with True assms a show ?thesis by (auto simp: on_connection_def net_answer_def same_module_refl)
  next
    case False
    show ?thesis
    proof (cases accepted)
      case True
      from d(2) show ?thesis
      proof (cases rule: add_client_cases [of d h as1])
        case (refused as2)
        then have "on_connection r status accepted s = Ret (s4\<lparr>net_answers := as2\<rparr>)"
          using False True a d(1)
          by (simp add: on_connection_def net_answer_def Let_def net_object_def net_put_def uv_close_client_def s2_def s4_def h_def map_upd_triv)
        with closed show ?thesis by blast
      next
        case (added d1 as2)
        then have "on_connection r status accepted s = Ret ((net_put r d1 s2)\<lparr>net_answers := as2\<rparr>)"
          using False True a d(1) by (simp add: on_connection_def net_answer_def Let_def net_object_def s2_def h_def)
        moreover have "clients_inv r ((net_put r d1 s2)\<lparr>net_answers := as2\<rparr>)"
          using assms d added fresh by (auto simp: clients_inv_def net_put_def s2_def h_def less_Suc_eq)
        moreover have "same_module r s ((net_put r d1 s2)\<lparr>net_answers := as2\<rparr>)"
          using d added by (auto simp: same_module_def net_put_def s2_def)
        ultimately show ?thesis by blast
      qed
    next
      case no: False
      then have "on_connection r status accepted s = Ret s4"
        using False a by (simp add: on_connection_def net_answer_def Let_def uv_close_client_def s2_def s4_def h_def)
      with closed [of "net_answers s4"] show ?thesis by simp
    qed
  qed
qed

end
