(* ===== verification/Network.thy ===== *)
theory Network
  imports Client_Handles Config_Store C_Strings Uv_Inet
begin

text \<open>
  The TCP server module (src/net/network_module.c) over the clients and handles of \<^verbatim>\<open>Client_Handles\<close>: its
  configuration, the read callback that answers every message, and the module's life cycle. The port is
  looked up in the configuration store. The address is read by \<open>uv_ip4_addr\<close> of \<^verbatim>\<open>Uv_Inet\<close>; what \<open>uv_tcp_bind\<close> does with it and the
  results of \<open>uv_listen\<close> and \<open>uv_accept\<close> are arguments. Log
  output is not modelled.
\<close>

section \<open>Data\<close>

text \<open>The host is the constant of the default configuration or a copy that the module owns.\<close>

record network_config =
  net_port :: int
  net_host :: "string option"
  net_host_owned :: bool
  net_backlog :: int
  net_max_connections :: int

record network_private_data = client_array +
  net_config :: network_config

type_synonym network_state = "network_private_data loop_state"

definition net_default_config :: network_config where
  "net_default_config = \<lparr>net_port = 8080, net_host = Some ''0.0.0.0'', net_host_owned = False, net_backlog = 128,
     net_max_connections = 1000\<rparr>"

section \<open>Callbacks\<close>

text \<open>The reply starts with a sentence in UTF-8.\<close>

definition REPLY_PREFIX :: string where
  "REPLY_PREFIX = [CHR 0xE6, CHR 0x9C, CHR 0x8D,
     CHR 0xE5, CHR 0x8A, CHR 0xA1, CHR 0xE5, CHR 0x99, CHR 0xA8, CHR 0xE5, CHR 0xB7, CHR 0xB2, CHR 0xE6, CHR 0x94, CHR 0xB6, CHR 0xE5, CHR 0x88, CHR 0xB0, CHR 0xE6, CHR 0xB6, CHR 0x88, CHR 0xE6, CHR 0x81, CHR 0xAF, CHR 0x3A, CHR 0x20]"

text \<open>\<open>%.*s\<close> prints at most \<open>n\<close> bytes and stops at a terminator.\<close>

definition printed_bytes :: "int \<Rightarrow> string \<Rightarrow> string" where
  "printed_bytes n buf = c_str (take (nat n) buf)"

definition net_reply :: "int \<Rightarrow> string \<Rightarrow> string" where
  "net_reply n buf = snprintf_text 256 (REPLY_PREFIX @ printed_bytes n buf)"

text \<open>Handing a text to \<open>uv_write\<close>: a handle that has been freed is read, one that is closing refuses the data. Without memory for
  the copy nothing is sent.\<close>

definition uv_write_text :: "nat \<Rightarrow> string option \<Rightarrow> 'd loop_state \<Rightarrow> 'd loop_state outcome" where
  "uv_write_text h t s = (case handles s h of
     None \<Rightarrow> Fault Use_after_free
   | Some c \<Rightarrow> (case t of
       None \<Rightarrow> Ret s
     | Some u \<Rightarrow> if h_closing c then Ret s else Ret (s\<lparr>outbox := outbox s @ [(h, u)]\<rparr>)))"

definition network_on_read :: "nat \<Rightarrow> int \<Rightarrow> string \<Rightarrow> network_state \<Rightarrow> network_state outcome" where
  "network_on_read h nread buf s =
     (if 0 < nread
      then if length buf < nat nread then Fault Out_of_bounds
        else case net_answer s of (ok, s1) \<Rightarrow>
          if \<not> ok then Ret s1
          else case net_answer s1 of (copied, s2) \<Rightarrow>
            uv_write_text h (if copied then Some (net_reply nread buf) else None) s2
      else if nread < 0 then uv_close_client h s
      else Ret s)"

section \<open>The module\<close>

definition network_module_init :: "bool \<Rightarrow> bool \<Rightarrow> network_state \<Rightarrow> int \<times> network_state" where
  "network_module_init self_given loop_given s =
     (if \<not> self_given \<or> \<not> loop_given then (-1, s)
      else case net_answer s of (ok, s1) \<Rightarrow>
        if \<not> ok then (-1, s1)
        else case net_answer s1 of (ok2, s2) \<Rightarrow>
          if \<not> ok2 then (-1, s2)
          else let r = next_data s2 in
            (0, (net_put r \<lparr>arr_clients = [], client_capacity = INITIAL_CLIENT_CAPACITY, server_listening = False,
                server_closing = False, net_config = net_default_config\<rparr> s2)\<lparr>next_data := r + 1, net_private := Some r\<rparr>))"

text \<open>The result of \<open>uv_ip4_addr\<close> is not looked at: the server is bound to the address it leaves.\<close>

definition network_module_start ::
  "bool \<Rightarrow> config_state \<Rightarrow> (sockaddr \<Rightarrow> int) \<Rightarrow> int \<Rightarrow> network_state \<Rightarrow> (int \<times> network_state) outcome" where
  "network_module_start self_given cs tcp_bind listen_result s = (case net_private s of
     None \<Rightarrow> Ret (-1, s)
   | Some r \<Rightarrow>
       if \<not> self_given then Ret (-1, s)
       else obind (net_object r s) (\<lambda>d. obind (config_get_int (Some ''network_port'') (net_port (net_config d)) cs) (\<lambda>p.
         let d1 = d\<lparr>net_config := (net_config d)\<lparr>net_port := p\<rparr>\<rparr>;
             addr = snd (uv_ip4_addr (net_host (net_config d1)) (net_port (net_config d1))) in
         if tcp_bind addr \<noteq> 0 then Ret (-1, net_put r d1 s)
         else if listen_result \<noteq> 0 then Ret (-1, net_put r d1 s)
         else Ret (0, net_put r (d1\<lparr>server_listening := True\<rparr>) s))))"

definition network_module_stop :: "bool \<Rightarrow> network_state \<Rightarrow> (int \<times> network_state) outcome" where
  "network_module_stop self_given s = (case net_private s of
     None \<Rightarrow> Ret (-1, s) | Some r \<Rightarrow> if \<not> self_given then Ret (-1, s) else stop_server r s)"

definition network_module_cleanup :: "bool \<Rightarrow> network_state \<Rightarrow> (int \<times> network_state) outcome" where
  "network_module_cleanup self_given s = (case net_private s of
     None \<Rightarrow> Ret (-1, s)
   | Some r \<Rightarrow>
       if \<not> self_given then Ret (-1, s)
       else obind (net_object r s) (\<lambda>d. Ret (0, s\<lparr>data_store := (data_store s)(r := None), net_private := None\<rparr>)))"

definition network_module_set_config :: "bool \<Rightarrow> network_config option \<Rightarrow> network_state \<Rightarrow> (int \<times> network_state) outcome" where
  "network_module_set_config self_given config s = (case (net_private s, config) of
     (Some r, Some c) \<Rightarrow>
       if \<not> self_given then Ret (-1, s)
       else obind (net_object r s) (\<lambda>d. case net_host c of
           None \<Rightarrow> Fault Null_deref
         | Some host \<Rightarrow> (case strdup host (net_answers s) of (copy, as) \<Rightarrow>
             Ret (0, (net_put r (d\<lparr>net_config := \<lparr>net_port = net_port c, net_host = copy, net_host_owned = True,
               net_backlog = net_backlog c, net_max_connections = net_max_connections c\<rparr>\<rparr>) s)\<lparr>net_answers := as\<rparr>)))
   | _ \<Rightarrow> Ret (-1, s))"

definition network_module_get_config :: "bool \<Rightarrow> network_state \<Rightarrow> network_config option outcome" where
  "network_module_get_config self_given s = (case net_private s of
     None \<Rightarrow> Ret None
   | Some r \<Rightarrow> if \<not> self_given then Ret None else obind (net_object r s) (\<lambda>d. Ret (Some (net_config d))))"

definition network_module_get_client_count :: "bool \<Rightarrow> network_state \<Rightarrow> nat outcome" where
  "network_module_get_client_count self_given s = (case net_private s of
     None \<Rightarrow> Ret 0
   | Some r \<Rightarrow> if \<not> self_given then Ret 0 else obind (net_object r s) (\<lambda>d. Ret (length (arr_clients d))))"

definition net_boot :: "answers \<Rightarrow> 'd loop_state" where
  "net_boot as = \<lparr>data_store = Map.empty, next_data = 0, net_private = None, handles = Map.empty, next_handle = 0, outbox = [],
     net_answers = as\<rparr>"

section \<open>Events of the loop\<close>

datatype net_event = Net_connection int bool | Net_read nat int string | Net_closed nat

text \<open>libuv reads from open handles, calls back for those being closed, and accepts at a server that listens.\<close>

definition client_open :: "nat \<Rightarrow> 'd loop_state \<Rightarrow> bool" where
  "client_open h s = (case handles s h of None \<Rightarrow> False | Some c \<Rightarrow> \<not> h_closing c)"

definition client_closing :: "nat \<Rightarrow> 'd loop_state \<Rightarrow> bool" where
  "client_closing h s = (case handles s h of None \<Rightarrow> False | Some c \<Rightarrow> h_closing c)"

fun net_deliver :: "nat \<Rightarrow> net_event \<Rightarrow> network_state \<Rightarrow> network_state outcome" where
  "net_deliver r (Net_connection status accepted) s = obind (net_object r s) (\<lambda>d.
     if server_listening d then on_connection r status accepted s else Ret s)"
| "net_deliver r (Net_read h n buf) s =
     (if client_open h s \<and> n \<le> int (length buf) then network_on_read h n buf s else Ret s)"
| "net_deliver r (Net_closed h) s = (if client_closing h s then on_handle_close h s else Ret s)"

fun run_net :: "nat \<Rightarrow> net_event list \<Rightarrow> network_state \<Rightarrow> network_state outcome" where
  "run_net r [] s = Ret s"
| "run_net r (e # es) s = obind (net_deliver r e s) (run_net r es)"

section \<open>Clients through connections, messages and disconnections\<close>

lemma client_open_iff: "client_open h s \<longleftrightarrow> (\<exists>c. handles s h = Some c \<and> \<not> h_closing c)"
  by (simp add: client_open_def split: option.split)

lemma client_closing_iff: "client_closing h s \<longleftrightarrow> (\<exists>c. handles s h = Some c \<and> h_closing c)"
  by (simp add: client_closing_def split: option.split)

lemma write_keeps: "clients_inv r s \<Longrightarrow> handles s h \<noteq> None \<Longrightarrow> \<exists>s'. uv_write_text h t s = Ret s' \<and> clients_inv r s'"
  by (auto simp: uv_write_text_def clients_inv_def split: option.split)

lemma on_read_keeps:
  assumes "clients_inv r s" and "client_open h s" and "n \<le> int (length buf)"
  shows "\<exists>s'. network_on_read h n buf s = Ret s' \<and> clients_inv r s'"
proof -
  obtain c where c: "handles s h = Some c" "\<not> h_closing c" using assms(2) by (auto simp: client_open_def split: option.splits)
  consider "n = 0" | "n < 0" | "0 < n" by linarith
  then show ?thesis
  proof cases
    case 1
    then show ?thesis using assms(1) by (simp add: network_on_read_def)
  next
    case 2
    then show ?thesis using close_keeps [OF assms(1) c] by (auto simp: network_on_read_def)
  next
    case 3
    have a: "clients_inv r (s\<lparr>net_answers := as\<rparr>)" for as using assms(1) by (simp add: clients_inv_def)
    have "\<exists>s'. uv_write_text h t (s\<lparr>net_answers := as\<rparr>) = Ret s' \<and> clients_inv r s'" for t as
      using write_keeps [OF a, where h = h and t = t] c by simp
    then show ?thesis using 3 assms(3) a by (auto simp: network_on_read_def net_answer_def split: prod.split)
  qed
qed

lemma deliver_keeps: "clients_inv r s \<Longrightarrow> \<exists>s'. net_deliver r e s = Ret s' \<and> clients_inv r s'"
proof (cases e)
  case (Net_connection st acc)
  assume i: "clients_inv r s"
  then obtain d where "data_store s r = Some d" by (auto simp: clients_inv_def)
  with Net_connection i connection_keeps [OF i, of st acc] show ?thesis by (auto simp: net_object_def)
next
  case (Net_read h n buf)
  assume "clients_inv r s"
  with Net_read on_read_keeps [of r s h n buf] show ?thesis by auto
next
  case (Net_closed h)
  assume i: "clients_inv r s"
  with Net_closed handle_close_keeps [OF i, of h] show ?thesis by (auto simp: client_closing_def split: option.splits)
qed

text \<open>C25: Whatever connections, messages and disconnections the loop delivers and whichever allocations fail, no callback of the
  TCP module faults, and the array holds each open connection exactly once, only live handles, and no more than its capacity.\<close>

theorem tcp_clients_stay_consistent:
  assumes "clients_inv r s"
  shows "\<exists>s' d. run_net r es s = Ret s' \<and> data_store s' r = Some d \<and> distinct (arr_clients d)
    \<and> length (arr_clients d) \<le> client_capacity d \<and> {h. client_open h s'} \<subseteq> set (arr_clients d)
    \<and> set (arr_clients d) \<subseteq> {h. client_open h s' \<or> client_closing h s'}"
proof -
  have "\<exists>s'. run_net r es s = Ret s' \<and> clients_inv r s'" using assms
  proof (induction es arbitrary: s)
    case (Cons e es)
    then obtain s1 where "net_deliver r e s = Ret s1" "clients_inv r s1" using deliver_keeps [of r s e] by blast
    with Cons.IH show ?case by simp
  qed simp
  then obtain s' where 1: "run_net r es s = Ret s'" "clients_inv r s'" by blast
  then obtain d where "data_store s' r = Some d" "array_ok d" "distinct (arr_clients d)" "\<forall>h \<in> set (arr_clients d). handles s' h \<noteq> None"
      "\<forall>h c. handles s' h = Some c \<longrightarrow> h_data c = r \<and> h < next_handle s' \<and> (h_closing c \<or> h \<in> set (arr_clients d))"
    by (auto simp: clients_inv_def)
  with 1(1) show ?thesis
    by (intro exI [of _ s'] exI [of _ d]) (fastforce simp: array_ok_def client_open_iff client_closing_iff)
qed

definition demo_net :: network_state where
  "demo_net = (net_boot [])\<lparr>data_store := [0 \<mapsto> \<lparr>arr_clients = [], client_capacity = 16, server_listening = True, server_closing = False,
     net_config = net_default_config\<rparr>], net_private := Some 0, next_data := 1\<rparr>"

lemma demo_net_inv: "clients_inv 0 demo_net"
  by (simp add: demo_net_def net_boot_def clients_inv_def array_ok_def)

theorem tcp_clients_stay_consistent_witness:
  "\<exists>s' d. run_net 0 [Net_connection 0 True, Net_read 0 2 ''hi'', Net_read 0 (-1) [], Net_closed 0] demo_net = Ret s'
    \<and> data_store s' 0 = Some d \<and> distinct (arr_clients d)
    \<and> length (arr_clients d) \<le> client_capacity d \<and> {h. client_open h s'} \<subseteq> set (arr_clients d)
    \<and> set (arr_clients d) \<subseteq> {h. client_open h s' \<or> client_closing h s'}"
  by (rule tcp_clients_stay_consistent [OF demo_net_inv])

section \<open>Answers\<close>

text \<open>While there is memory, a message is answered once on its connection, with at most 255 bytes.\<close>

lemma message_answered:
  assumes "client_open h s" and "0 < n" and "n \<le> int (length buf)" and "net_answers s = []"
  shows "network_on_read h n buf s = Ret (s\<lparr>outbox := outbox s @ [(h, net_reply n buf)]\<rparr>)" "length (net_reply n buf) \<le> 255"
  using assms by (auto simp: network_on_read_def net_answer_def uv_write_text_def client_open_def net_reply_def snprintf_text_def
      split: option.splits)

section \<open>Stopping\<close>

lemma close_clients_open:
  "distinct hs \<Longrightarrow> \<forall>h \<in> set hs. client_open h s \<Longrightarrow> \<exists>s'. close_clients hs s = Ret s' \<and> data_store s' = data_store s
    \<and> (\<forall>h. handles s' h = (if h \<in> set hs then map_option (h_closing_update (\<lambda>_. True)) (handles s h) else handles s h))"
proof (induction hs arbitrary: s)
  case (Cons h hs)
  then obtain c where c: "handles s h = Some c" "\<not> h_closing c" by (auto simp: client_open_def split: option.splits)
  define t where "t = s\<lparr>handles := (handles s)(h \<mapsto> c\<lparr>h_closing := True\<rparr>)\<rparr>"
  have "\<forall>g \<in> set hs. client_open g t" using Cons.prems by (auto simp: client_open_def t_def)
  with Cons.IH [of t] Cons.prems c show ?case by (auto simp: uv_close_client_def t_def)
qed simp

lemma close_clients_closing:
  "distinct hs \<Longrightarrow> \<forall>h \<in> set hs. handles s h \<noteq> None \<Longrightarrow> \<exists>h \<in> set hs. client_closing h s \<Longrightarrow> close_clients hs s = Fault Assert_failed"
proof (induction hs arbitrary: s)
  case (Cons h hs)
  then obtain c where c: "handles s h = Some c" by auto
  show ?case
  proof (cases "h_closing c")
    case True
    with c show ?thesis by (simp add: uv_close_client_def)
  next
    case False
    define t where "t = s\<lparr>handles := (handles s)(h \<mapsto> c\<lparr>h_closing := True\<rparr>)\<rparr>"
    have "\<forall>g \<in> set hs. handles t g \<noteq> None" "\<exists>g \<in> set hs. client_closing g t"
      using Cons.prems c False by (auto simp: client_closing_iff t_def)
    with Cons.IH [of t] Cons.prems(1) c False show ?thesis by (simp add: uv_close_client_def t_def)
  qed
qed simp

text \<open>Stopping the TCP module closes every client and returns 0 when no client is being closed; when a client has
  disconnected and its close callback has not run yet, the second close of its handle fails an assertion of libuv.\<close>

theorem stop_needs_settled_clients:
  assumes "clients_inv r s" and "net_private s = Some r" and "data_store s r = Some d" and "\<not> server_closing d"
  shows "if \<exists>h \<in> set (arr_clients d). client_closing h s then network_module_stop True s = Fault Assert_failed
    else \<exists>s'. network_module_stop True s = Ret (0, s') \<and> (\<forall>h. \<not> client_open h s')"
proof -
  have d: "distinct (arr_clients d)" "\<forall>h \<in> set (arr_clients d). handles s h \<noteq> None"
      "\<forall>h c. handles s h = Some c \<longrightarrow> h_closing c \<or> h \<in> set (arr_clients d)"
    using assms(1,3) by (auto simp: clients_inv_def)
  show ?thesis
  proof (cases "\<exists>h \<in> set (arr_clients d). client_closing h s")
    case True
    then show ?thesis
      using close_clients_closing [OF d(1,2)] assms by (simp add: network_module_stop_def stop_server_def net_object_def)
  next
    case False
    then have "\<forall>h \<in> set (arr_clients d). client_open h s" using d(2) by (auto simp: client_open_def client_closing_def split: option.splits)
    then obtain s1 where s1: "close_clients (arr_clients d) s = Ret s1"
        "\<forall>h. handles s1 h = (if h \<in> set (arr_clients d) then map_option (h_closing_update (\<lambda>_. True)) (handles s h) else handles s h)"
      using close_clients_open [OF d(1)] by blast
    define d1 where "d1 = d\<lparr>server_closing := True, server_listening := False\<rparr>"
    have "\<forall>h. \<not> client_open h (net_put r d1 s1)"
      using s1(2) d(3) by (auto simp: client_open_def net_put_def split: option.splits if_splits)
    moreover have "network_module_stop True s = Ret (0, net_put r d1 s1)"
      using s1(1) assms by (simp add: network_module_stop_def stop_server_def net_object_def d1_def)
    ultimately show ?thesis using False by simp
  qed
qed

definition demo_gone :: network_state where
  "demo_gone = (net_boot [])\<lparr>data_store := [0 \<mapsto> \<lparr>arr_clients = [0], client_capacity = 16, server_listening = True, server_closing = False,
     net_config = net_default_config\<rparr>], net_private := Some 0, next_data := 1, next_handle := 1,
     handles := [0 \<mapsto> \<lparr>h_data = 0, h_closing = True\<rparr>]\<rparr>"

theorem stop_needs_settled_clients_witness: "network_module_stop True demo_gone = Fault Assert_failed"
proof -
  have "clients_inv 0 demo_gone" by (simp add: demo_gone_def net_boot_def clients_inv_def array_ok_def)
  from stop_needs_settled_clients [OF this] show ?thesis
    by (simp add: demo_gone_def net_boot_def client_closing_def)
qed

text \<open>Cleanup frees the private data at once, while the handles of clients and server are still known to the loop: a close
  callback that runs afterwards reads freed memory.\<close>

theorem callbacks_after_cleanup_fault:
  assumes "net_private s = Some r" and "data_store s r = Some d" and "handles s h = Some c" and "h_data c = r"
  shows "\<exists>s'. network_module_cleanup True s = Ret (0, s') \<and> on_handle_close h s' = Fault Use_after_free
    \<and> on_server_closed r s' = Fault Use_after_free"
  using assms by (simp add: network_module_cleanup_def net_object_def on_handle_close_def on_server_closed_def)

text \<open>A host that cannot be read as an address, or whose copy failed, makes the server listen on every interface: the module
  starts although only the address 0.0.0.0 can be bound.\<close>

theorem bad_host_listens_everywhere:
  assumes "net_private s = Some r" and "data_store s r = Some d" and "fst (uv_ip4_addr (net_host (net_config d)) p) \<noteq> 0"
    and "config_get_int (Some ''network_port'') (net_port (net_config d)) cs = Ret p"
  shows "\<exists>s'. network_module_start True cs (\<lambda>a. if a = snd (uv_ip4_addr (Some ''0.0.0.0'') p) then 0 else -1) 0 s = Ret (0, s')
    \<and> map_option server_listening (data_store s' r) = Some True"
  using assms unread_address_is_any [OF assms(3)]
  by (simp add: network_module_start_def net_object_def Let_def net_put_def)

end
