(* ===== verification/Enhanced_Network.thy ===== *)
theory Enhanced_Network
  imports Network Threadpool
begin

text \<open>
  The TCP server that the program runs (src/net/enhanced_network_module.c): clients and handles as in
  \<^verbatim>\<open>Client_Handles\<close>, requests handed to the thread pool of \<^verbatim>\<open>Threadpool\<close>, responses written by its workers.
  A request context is a block of memory owned by the work item; it points to the client's handle. The
  workers that have taken an item and not yet answered are a list, so responses interleave freely with
  the callbacks of the loop. Log output (and the timer that only logs) is not modelled.
\<close>

section \<open>Data\<close>

text \<open>Where the host string lives decides what \<open>free\<close> does with it.\<close>

datatype host_ptr = Default_host | Heap_host string | Static_host string | Null_host

record enhanced_network_config =
  enh_port :: int
  enh_host :: host_ptr
  enh_backlog :: int
  enh_max_connections :: int
  enable_threadpool :: bool
  max_concurrent_requests :: int
  enh_timeout_ms :: int

record enhanced_network_private_data = client_array +
  enh_config :: enhanced_network_config
  total_requests :: int
  active_requests :: int

record request_context =
  ctx_client :: nat
  ctx_data :: string
  ctx_size :: nat

type_synonym enh_net = "enhanced_network_private_data loop_state"

text \<open>The pool is \<open>global_threadpool_data\<close>; \<open>in_work\<close> are the contexts workers have taken, and \<open>responded\<close> counts the items that
  have been worked off, which the program does not record.\<close>

record enh_world =
  net :: enh_net
  contexts :: "nat \<rightharpoonup> request_context"
  next_context :: nat
  pool :: "threadpool_private_data option"
  in_work :: "nat list"
  responded :: nat

definition enh_default_config :: enhanced_network_config where
  "enh_default_config = \<lparr>enh_port = 8080, enh_host = Default_host, enh_backlog = 128, enh_max_connections = 1000,
     enable_threadpool = True, max_concurrent_requests = 100, enh_timeout_ms = 30000\<rparr>"

definition enh_answer :: "enh_world \<Rightarrow> bool \<times> enh_world" where
  "enh_answer w = (case net_answer (net w) of (ok, s) \<Rightarrow> (ok, w\<lparr>net := s\<rparr>))"

definition on_net :: "(enh_net \<Rightarrow> enh_net outcome) \<Rightarrow> enh_world \<Rightarrow> enh_world outcome" where
  "on_net f w = obind (f (net w)) (\<lambda>s. Ret (w\<lparr>net := s\<rparr>))"

section \<open>Responses\<close>

definition handle_response :: "nat option \<Rightarrow> string option \<Rightarrow> enh_world \<Rightarrow> enh_world outcome" where
  "handle_response client response w = (case (client, response) of
     (Some h, Some t) \<Rightarrow> (case enh_answer w of (ok, w1) \<Rightarrow>
       if \<not> ok then Ret w1
       else case enh_answer w1 of (copied, w2) \<Rightarrow>
         if \<not> copied then Ret w2 else on_net (uv_write_text h (Some t)) w2)
   | _ \<Rightarrow> Ret w)"

definition DONE_PREFIX :: string where
  "DONE_PREFIX = [CHR 0xE7, CHR 0xBA, CHR 0xBF, CHR 0xE7, CHR 0xA8, CHR 0x8B, CHR 0xE6, CHR 0xB1, CHR 0xA0, CHR 0xE5, CHR 0xA4, CHR 0x84,
     CHR 0xE7, CHR 0x90, CHR 0x86, CHR 0xE5, CHR 0xAE, CHR 0x8C, CHR 0xE6, CHR 0x88, CHR 0x90, CHR 0xEF, CHR 0xBC, CHR 0x8C,
     CHR 0xE8, CHR 0xAF, CHR 0xB7, CHR 0xE6, CHR 0xB1, CHR 0x82, CHR 0xE5, CHR 0xA4, CHR 0xA7, CHR 0xE5, CHR 0xB0, CHR 0x8F,
     CHR 0x3A, CHR 0x20]"

definition DONE_MIDDLE :: string where
  "DONE_MIDDLE = [CHR 0x20, CHR 0xE5, CHR 0xAD, CHR 0x97, CHR 0xE8, CHR 0x8A, CHR 0x82, CHR 0xEF, CHR 0xBC, CHR 0x8C, CHR 0xE5, CHR 0xA4,
     CHR 0x84, CHR 0xE7, CHR 0x90, CHR 0x86, CHR 0xE6, CHR 0x97, CHR 0xB6, CHR 0xE9, CHR 0x97, CHR 0xB4, CHR 0x3A, CHR 0x20]"

definition SYNC_PREFIX :: string where
  "SYNC_PREFIX = [CHR 0xE5, CHR 0x90, CHR 0x8C, CHR 0xE6, CHR 0xAD, CHR 0xA5, CHR 0xE5, CHR 0xA4, CHR 0x84, CHR 0xE7, CHR 0x90, CHR 0x86,
     CHR 0xE5, CHR 0xAE, CHR 0x8C, CHR 0xE6, CHR 0x88, CHR 0x90, CHR 0xEF, CHR 0xBC, CHR 0x8C, CHR 0xE6, CHR 0xB6, CHR 0x88,
     CHR 0xE6, CHR 0x81, CHR 0xAF, CHR 0x3A, CHR 0x20]"

definition pool_response :: "nat \<Rightarrow> int \<Rightarrow> string" where
  "pool_response n time = snprintf_text 512 (DONE_PREFIX @ print_nat n @ DONE_MIDDLE @ print_int time @ '' ms'')"

definition sync_response :: "int \<Rightarrow> string \<Rightarrow> string" where
  "sync_response n buf = snprintf_text 256 (SYNC_PREFIX @ printed_bytes n buf)"

text \<open>What a worker does with a request; \<open>random\<close> is what \<open>rand()\<close> gives.\<close>

definition process_request_in_threadpool :: "nat option \<Rightarrow> int \<Rightarrow> enh_world \<Rightarrow> enh_world outcome" where
  "process_request_in_threadpool ctx random w = (case ctx of
     None \<Rightarrow> Ret w
   | Some i \<Rightarrow> (case contexts w i of
       None \<Rightarrow> Fault Use_after_free
     | Some x \<Rightarrow>
         obind (handle_response (Some (ctx_client x)) (Some (pool_response (ctx_size x) (random mod 100 + 10))) w) (\<lambda>w1.
           Ret (w1\<lparr>contexts := (contexts w1)(i := None)\<rparr>))))"

section \<open>Requests\<close>

text \<open>\<open>threadpool_submit_work\<close> with its check of the global pointer; None: it waits for room in the queue.\<close>

definition submit_request :: "nat \<Rightarrow> bool \<Rightarrow> enh_world \<Rightarrow> (int \<times> enh_world) option" where
  "submit_request i ok w = (case pool w of
     None \<Rightarrow> Some (-1, w)
   | Some p \<Rightarrow> (case threadpool_submit_work \<lparr>work_func = 1, work_data = i\<rparr> ok p of
       Submit_waits \<Rightarrow> None
     | Submit_returns r p1 \<Rightarrow> Some (r, w\<lparr>pool := Some p1\<rparr>)))"

definition count_request :: "nat \<Rightarrow> enh_world \<Rightarrow> enh_world outcome" where
  "count_request r w = obind (net_object r (net w)) (\<lambda>d.
     if 2 ^ 31 - 1 \<le> total_requests d \<or> 2 ^ 31 - 1 \<le> active_requests d then Fault Int_overflow
     else Ret (w\<lparr>net := net_put r (d\<lparr>total_requests := total_requests d + 1, active_requests := active_requests d + 1\<rparr>) (net w)\<rparr>))"

text \<open>None: the callback, and with it the whole loop, waits in \<open>threadpool_submit_work\<close>.\<close>

definition enhanced_on_read :: "nat \<Rightarrow> int \<Rightarrow> string \<Rightarrow> enh_world \<Rightarrow> enh_world option outcome" where
  "enhanced_on_read h nread buf w =
     (if 0 < nread
      then if length buf < nat nread then Fault Out_of_bounds
        else case handles (net w) h of
          None \<Rightarrow> Fault Use_after_free
        | Some c \<Rightarrow> obind (net_object (h_data c) (net w)) (\<lambda>d.
            if enable_threadpool (enh_config d)
            then (case enh_answer w of (ok, w1) \<Rightarrow>
              if \<not> ok then Ret (Some w1)
              else case enh_answer w1 of (ok2, w2) \<Rightarrow>
                if \<not> ok2 then Ret (Some w2)
                else let i = next_context w2;
                    w3 = w2\<lparr>next_context := i + 1, contexts := (contexts w2)(i \<mapsto>
                      \<lparr>ctx_client = h, ctx_data = take (nat nread) buf, ctx_size = nat nread\<rparr>)\<rparr> in
                  case enh_answer w3 of (ok3, w4) \<Rightarrow> (case submit_request i ok3 w4 of
                    None \<Rightarrow> Ret None
                  | Some (code, w5) \<Rightarrow>
                      if code = 0 then obind (count_request (h_data c) w5) (\<lambda>w6. Ret (Some w6))
                      else Ret (Some (w5\<lparr>contexts := (contexts w5)(i := None)\<rparr>))))
            else obind (handle_response (Some h) (Some (sync_response nread buf)) w) (\<lambda>w1. Ret (Some w1)))
      else if nread < 0 then obind (on_net (uv_close_client h) w) (\<lambda>w1. Ret (Some w1))
      else Ret (Some w))"

section \<open>The module\<close>

definition enhanced_network_module_init :: "bool \<Rightarrow> bool \<Rightarrow> enh_world \<Rightarrow> int \<times> enh_world" where
  "enhanced_network_module_init self_given loop_given w =
     (if \<not> self_given \<or> \<not> loop_given then (-1, w)
      else case enh_answer w of (ok, w1) \<Rightarrow>
        if \<not> ok then (-1, w1)
        else case enh_answer w1 of (ok2, w2) \<Rightarrow>
          if \<not> ok2 then (-1, w2)
          else let r = next_data (net w2) in
            (0, w2\<lparr>net := (net_put r \<lparr>arr_clients = [], client_capacity = INITIAL_CLIENT_CAPACITY, server_listening = False,
                server_closing = False, enh_config = enh_default_config, total_requests = 0, active_requests = 0\<rparr> (net w2))
                \<lparr>next_data := r + 1, net_private := Some r\<rparr>\<rparr>))"

fun host_text :: "host_ptr \<Rightarrow> string option" where
  "host_text Default_host = Some ''0.0.0.0''"
| "host_text (Heap_host t) = Some t"
| "host_text (Static_host t) = Some t"
| "host_text Null_host = None"

definition enhanced_network_module_start ::
  "bool \<Rightarrow> config_state \<Rightarrow> (sockaddr \<Rightarrow> int) \<Rightarrow> int \<Rightarrow> enh_world \<Rightarrow> (int \<times> enh_world) outcome" where
  "enhanced_network_module_start self_given cs tcp_bind listen_result w = (case net_private (net w) of
     None \<Rightarrow> Ret (-1, w)
   | Some r \<Rightarrow>
       if \<not> self_given then Ret (-1, w)
       else obind (net_object r (net w)) (\<lambda>d. obind (config_get_int (Some ''enhanced_network_port'') (enh_port (enh_config d)) cs) (\<lambda>p.
         let d1 = d\<lparr>enh_config := (enh_config d)\<lparr>enh_port := p\<rparr>\<rparr>;
             addr = snd (uv_ip4_addr (host_text (enh_host (enh_config d1))) (enh_port (enh_config d1))) in
         if tcp_bind addr \<noteq> 0 then Ret (-1, w\<lparr>net := net_put r d1 (net w)\<rparr>)
         else if listen_result \<noteq> 0 then Ret (-1, w\<lparr>net := net_put r d1 (net w)\<rparr>)
         else Ret (0, w\<lparr>net := net_put r (d1\<lparr>server_listening := True\<rparr>) (net w)\<rparr>))))"

definition enhanced_network_module_stop :: "bool \<Rightarrow> enh_world \<Rightarrow> (int \<times> enh_world) outcome" where
  "enhanced_network_module_stop self_given w = (case net_private (net w) of
     None \<Rightarrow> Ret (-1, w)
   | Some r \<Rightarrow> if \<not> self_given then Ret (-1, w) else obind (stop_server r (net w)) (\<lambda>(code, s). Ret (code, w\<lparr>net := s\<rparr>)))"

definition free_host :: "host_ptr \<Rightarrow> unit outcome" where
  "free_host p = (case p of Static_host t \<Rightarrow> Fault Invalid_free | _ \<Rightarrow> Ret ())"

definition enhanced_network_module_cleanup :: "bool \<Rightarrow> enh_world \<Rightarrow> (int \<times> enh_world) outcome" where
  "enhanced_network_module_cleanup self_given w = (case net_private (net w) of
     None \<Rightarrow> Ret (-1, w)
   | Some r \<Rightarrow>
       if \<not> self_given then Ret (-1, w)
       else obind (net_object r (net w)) (\<lambda>d. obind (free_host (enh_host (enh_config d))) (\<lambda>_.
         Ret (0, w\<lparr>net := (net w)\<lparr>data_store := (data_store (net w))(r := None), net_private := None\<rparr>\<rparr>))))"

text \<open>The configuration is copied as it is, with the caller's pointer to the host.\<close>

definition enhanced_network_module_set_config ::
  "bool \<Rightarrow> enhanced_network_config option \<Rightarrow> enh_world \<Rightarrow> (int \<times> enh_world) outcome" where
  "enhanced_network_module_set_config self_given config w = (case (net_private (net w), config) of
     (Some r, Some c) \<Rightarrow>
       if \<not> self_given then Ret (-1, w)
       else obind (net_object r (net w)) (\<lambda>d. Ret (0, w\<lparr>net := net_put r (d\<lparr>enh_config := c\<rparr>) (net w)\<rparr>))
   | _ \<Rightarrow> Ret (-1, w))"

definition enhanced_network_module_get_config :: "bool \<Rightarrow> enh_world \<Rightarrow> enhanced_network_config option outcome" where
  "enhanced_network_module_get_config self_given w = (case net_private (net w) of
     None \<Rightarrow> Ret None
   | Some r \<Rightarrow> if \<not> self_given then Ret None else obind (net_object r (net w)) (\<lambda>d. Ret (Some (enh_config d))))"

section \<open>Events of the loop and of the workers\<close>

datatype enh_event = Enh_connection int bool | Enh_read nat int string | Enh_closed nat | Enh_take | Enh_respond nat int

text \<open>A read that has to wait for the pool changes nothing; it is delivered again when there is room.\<close>

fun enh_deliver :: "nat \<Rightarrow> enh_event \<Rightarrow> enh_world \<Rightarrow> enh_world outcome" where
  "enh_deliver r (Enh_connection status acc) w = obind (net_object r (net w)) (\<lambda>d.
     if server_listening d then on_net (on_connection r status acc) w else Ret w)"
| "enh_deliver r (Enh_read h n buf) w =
     (if client_open h (net w) \<and> n \<le> int (length buf)
      then obind (enhanced_on_read h n buf w) (\<lambda>x. Ret (case x of None \<Rightarrow> w | Some w1 \<Rightarrow> w1)) else Ret w)"
| "enh_deliver r (Enh_closed h) w = (if client_closing h (net w) then on_net (on_handle_close h) w else Ret w)"
| "enh_deliver r Enh_take w = Ret (case pool w of None \<Rightarrow> w | Some p \<Rightarrow> (case worker_check p of
     Worker_takes x p1 \<Rightarrow> w\<lparr>pool := Some p1, in_work := in_work w @ [work_data x]\<rparr> | _ \<Rightarrow> w))"
| "enh_deliver r (Enh_respond k random) w =
     (if k < length (in_work w)
      then obind (process_request_in_threadpool (Some (in_work w ! k)) random w) (\<lambda>w1.
        Ret (w1\<lparr>in_work := take k (in_work w) @ drop (Suc k) (in_work w), pool := map_option worker_done (pool w1),
          responded := Suc (responded w1)\<rparr>))
      else Ret w)"

fun run_enh :: "nat \<Rightarrow> enh_event list \<Rightarrow> enh_world \<Rightarrow> enh_world outcome" where
  "run_enh r [] w = Ret w"
| "run_enh r (e # es) w = obind (enh_deliver r e w) (run_enh r es)"

text \<open>A response is in time while the handle of its client has not been freed.\<close>

fun in_time :: "enh_event \<Rightarrow> enh_world \<Rightarrow> bool" where
  "in_time (Enh_respond k random) w \<longleftrightarrow> k < length (in_work w) \<longrightarrow>
     (case contexts w (in_work w ! k) of None \<Rightarrow> True | Some x \<Rightarrow> handles (net w) (ctx_client x) \<noteq> None)"
| "in_time _ w \<longleftrightarrow> True"

fun all_in_time :: "nat \<Rightarrow> enh_event list \<Rightarrow> enh_world \<Rightarrow> bool" where
  "all_in_time r [] w \<longleftrightarrow> True"
| "all_in_time r (e # es) w \<longleftrightarrow> in_time e w \<and> (\<forall>w1. enh_deliver r e w = Ret w1 \<longrightarrow> all_in_time r es w1)"

section \<open>Every request is counted and accounted for\<close>

definition open_ids :: "threadpool_private_data \<Rightarrow> enh_world \<Rightarrow> nat list" where
  "open_ids p w = map work_data (work_queue p) @ in_work w"

definition contexts_ok :: "threadpool_private_data \<Rightarrow> enh_world \<Rightarrow> bool" where
  "contexts_ok p w \<longleftrightarrow> distinct (open_ids p w) \<and> (\<forall>i \<in> set (open_ids p w). contexts w i \<noteq> None \<and> i < next_context w)"

definition counts_ok :: "enhanced_network_private_data \<Rightarrow> threadpool_private_data \<Rightarrow> enh_world \<Rightarrow> bool" where
  "counts_ok d p w \<longleftrightarrow> active_requests d = total_requests d
     \<and> total_requests d = int (length (work_queue p) + length (in_work w) + responded w)"

definition enh_inv :: "nat \<Rightarrow> enh_world \<Rightarrow> bool" where
  "enh_inv r w \<longleftrightarrow> clients_inv r (net w) \<and> (\<exists>d p. data_store (net w) r = Some d \<and> pool w = Some p \<and> prio_queue p = []
     \<and> counts_ok d p w \<and> contexts_ok p w)"

definition requests_of :: "nat \<Rightarrow> enh_world \<Rightarrow> int" where
  "requests_of r w = (case data_store (net w) r of None \<Rightarrow> 0 | Some d \<Rightarrow> total_requests d)"

lemma more_counts:
  assumes "client_array.more d' = client_array.more (d :: enhanced_network_private_data)"
  shows "total_requests d' = total_requests d" "active_requests d' = active_requests d" "enh_config d' = enh_config d"
  using assms by (cases d; cases d'; simp)+

text \<open>A change of the network part that keeps the clients consistent and the module's own fields.\<close>

lemma net_change:
  assumes "enh_inv r w" and "clients_inv r s"
    and "\<forall>d. data_store (net w) r = Some d \<longrightarrow> (\<exists>d'. data_store s r = Some d' \<and> client_array.more d' = client_array.more d)"
  shows "enh_inv r (w\<lparr>net := s\<rparr>)" "requests_of r (w\<lparr>net := s\<rparr>) = requests_of r w"
proof -
  obtain d p where d: "data_store (net w) r = Some d" "pool w = Some p" "prio_queue p = []" "counts_ok d p w" "contexts_ok p w"
    using assms(1) by (auto simp: enh_inv_def)
  then obtain d' where d': "data_store s r = Some d'" "client_array.more d' = client_array.more d" using assms(3) by blast
  note m = more_counts [OF d'(2)]
  show "requests_of r (w\<lparr>net := s\<rparr>) = requests_of r w" using d(1) d'(1) m by (simp add: requests_of_def)
  show "enh_inv r (w\<lparr>net := s\<rparr>)"
    using assms(2) d d' m by (auto simp: enh_inv_def counts_ok_def contexts_ok_def open_ids_def)
qed

lemma on_net_keeps:
  assumes "enh_inv r w" and "\<exists>s. f (net w) = Ret s \<and> clients_inv r s \<and> same_module r (net w) s"
  shows "\<exists>w'. on_net f w = Ret w' \<and> enh_inv r w' \<and> requests_of r w' = requests_of r w"
proof -
  obtain s where s: "f (net w) = Ret s" "clients_inv r s" "same_module r (net w) s" using assms(2) by blast
  moreover have "\<forall>d. data_store (net w) r = Some d \<longrightarrow> (\<exists>d'. data_store s r = Some d' \<and> client_array.more d' = client_array.more d)"
    using s(3) by (auto simp: same_module_def)
  ultimately show ?thesis using net_change [OF assms(1) s(2)] by (auto simp: on_net_def)
qed

lemma answers_keep:
  assumes "enh_inv r w"
  shows "enh_inv r (w\<lparr>net := (net w)\<lparr>net_answers := as\<rparr>\<rparr>)" "requests_of r (w\<lparr>net := (net w)\<lparr>net_answers := as\<rparr>\<rparr>) = requests_of r w"
proof -
  have "clients_inv r ((net w)\<lparr>net_answers := as\<rparr>)" using assms by (auto simp: enh_inv_def clients_inv_def)
  from net_change [OF assms this]
  show "enh_inv r (w\<lparr>net := (net w)\<lparr>net_answers := as\<rparr>\<rparr>)" "requests_of r (w\<lparr>net := (net w)\<lparr>net_answers := as\<rparr>\<rparr>) = requests_of r w"
    by simp_all
qed

lemma enh_answer_eq: "enh_answer w = (fst (next_answer (net_answers (net w))),
    w\<lparr>net := (net w)\<lparr>net_answers := snd (next_answer (net_answers (net w)))\<rparr>\<rparr>)"
  by (simp add: enh_answer_def net_answer_def split: prod.split)

text \<open>A response to a live handle changes the answers and the data sent only.\<close>

lemma response_written:
  assumes "clients_inv r (net w)" and "handles (net w) h \<noteq> None"
  shows "\<exists>s. handle_response (Some h) (Some t) w = Ret (w\<lparr>net := s\<rparr>) \<and> clients_inv r s \<and> data_store s = data_store (net w)
    \<and> handles s = handles (net w)"
proof -
  obtain c where c: "handles (net w) h = Some c" using assms(2) by auto
  have "clients_inv r ((net w)\<lparr>net_answers := as\<rparr>)" "clients_inv r ((net w)\<lparr>net_answers := as, outbox := ob\<rparr>)" for as ob
    using assms(1) by (simp_all add: clients_inv_def)
  with c show ?thesis by (auto simp: handle_response_def enh_answer_eq on_net_def uv_write_text_def)
qed

lemma worker_takes_first:
  "worker_check p = Worker_takes x p1 \<Longrightarrow> prio_queue p = [] \<Longrightarrow> work_queue p = x # work_queue p1 \<and> prio_queue p1 = []"
  by (auto simp: worker_check_def split: if_splits list.splits)

lemma take_keeps:
  assumes "enh_inv r w"
  shows "\<exists>w'. enh_deliver r Enh_take w = Ret w' \<and> enh_inv r w' \<and> requests_of r w' = requests_of r w"
proof -
  obtain d p where d: "data_store (net w) r = Some d" "pool w = Some p" "prio_queue p = []" "counts_ok d p w" "contexts_ok p w"
    using assms by (auto simp: enh_inv_def)
  show ?thesis
  proof (cases "worker_check p")
    case (Worker_takes x p1)
    note q = worker_takes_first [OF Worker_takes d(3)]
    have "counts_ok d p1 (w\<lparr>pool := Some p1, in_work := in_work w @ [work_data x]\<rparr>)"
      using d(4) q by (simp add: counts_ok_def)
    moreover have "contexts_ok p1 (w\<lparr>pool := Some p1, in_work := in_work w @ [work_data x]\<rparr>)"
      using d(5) q by (auto simp: contexts_ok_def open_ids_def)
    ultimately show ?thesis using Worker_takes assms d q by (auto simp: enh_inv_def requests_of_def)
  qed (use assms d in auto)
qed

lemma process_keeps:
  assumes "enh_inv r w" and "k < length (in_work w)" and "in_time (Enh_respond k random) w"
  shows "\<exists>w'. enh_deliver r (Enh_respond k random) w = Ret w' \<and> enh_inv r w' \<and> requests_of r w' = requests_of r w"
proof -
  define i where "i = in_work w ! k"
  obtain d p where d: "data_store (net w) r = Some d" "pool w = Some p" "prio_queue p = []" "counts_ok d p w" "contexts_ok p w"
    using assms(1) by (auto simp: enh_inv_def)
  have iw: "in_work w = take k (in_work w) @ i # drop (Suc k) (in_work w)" using assms(2) by (simp add: i_def id_take_nth_drop)
  then have "i \<in> set (open_ids p w)" by (metis open_ids_def Un_iff in_set_conv_decomp set_append)
  then obtain x where x: "contexts w i = Some x" using d(5) by (auto simp: contexts_ok_def)
  then have "handles (net w) (ctx_client x) \<noteq> None" using assms(2,3) by (simp add: i_def)
  then obtain s where s: "handle_response (Some (ctx_client x)) (Some (pool_response (ctx_size x) (random mod 100 + 10))) w = Ret (w\<lparr>net := s\<rparr>)"
      "clients_inv r s" "data_store s = data_store (net w)"
    using response_written [of r w] assms(1) by (metis enh_inv_def)
  define w' where "w' = w\<lparr>net := s, contexts := (contexts w)(i := None), in_work := take k (in_work w) @ drop (Suc k) (in_work w),
    pool := Some (worker_done p), responded := Suc (responded w)\<rparr>"
  have "enh_deliver r (Enh_respond k random) w = Ret w'"
    using assms(2) x s(1) d(2) by (simp add: process_request_in_threadpool_def i_def [symmetric] w'_def)
  moreover have "counts_ok d (worker_done p) w'"
    using d(4) assms(2) by (simp add: counts_ok_def w'_def worker_done_def)
  moreover have "contexts_ok (worker_done p) w'"
  proof -
    have "distinct (map work_data (work_queue p) @ take k (in_work w) @ i # drop (Suc k) (in_work w))"
      using d(5) iw by (simp add: contexts_ok_def open_ids_def)
    then have "distinct (open_ids (worker_done p) w') \<and> i \<notin> set (open_ids (worker_done p) w')"
      by (auto simp: open_ids_def w'_def worker_done_def)
    moreover have "set (open_ids (worker_done p) w') \<subseteq> set (open_ids p w)"
      by (auto simp: open_ids_def w'_def worker_done_def dest: in_set_takeD in_set_dropD)
    ultimately show ?thesis using d(5) by (auto simp: contexts_ok_def w'_def)
  qed
  ultimately show ?thesis using s d by (auto simp: enh_inv_def requests_of_def w'_def worker_done_def)
qed

text \<open>A read with the pool switched on, from the state in which the contexts have been allocated.\<close>

lemma submit_keeps:
  assumes "enh_inv r w" and "data_store (net w) r = Some d" and "requests_of r w < 2 ^ 31 - 1"
    and "w3 = w\<lparr>next_context := next_context w + 1, contexts := (contexts w)(next_context w \<mapsto> x), net := (net w)\<lparr>net_answers := as\<rparr>\<rparr>"
    and "submit_request (next_context w) ok w3 = Some (code, w5)"
  shows "if code = 0 then \<exists>w6. count_request r w5 = Ret w6 \<and> enh_inv r w6 \<and> requests_of r w6 = requests_of r w + 1
    else enh_inv r (w5\<lparr>contexts := (contexts w5)(next_context w := None)\<rparr>)
      \<and> requests_of r (w5\<lparr>contexts := (contexts w5)(next_context w := None)\<rparr>) = requests_of r w"
proof -
  obtain p where p: "pool w = Some p" "prio_queue p = []" "counts_ok d p w" "contexts_ok p w"
    using assms(1,2) by (auto simp: enh_inv_def)
  have c: "clients_inv r ((net w)\<lparr>net_answers := as\<rparr>)" using assms(1) by (auto simp: enh_inv_def clients_inv_def)
  have fresh: "next_context w \<notin> set (open_ids p w)" using p(4) by (auto simp: contexts_ok_def)
  show ?thesis
  proof (cases "code = 0")
    case True
    define p1 where "p1 = p\<lparr>work_queue := work_queue p @ [\<lparr>work_func = 1, work_data = next_context w\<rparr>], queued_work := queued_work p + 1\<rparr>"
    have w5: "w5 = w3\<lparr>pool := Some p1\<rparr>"
      using assms(4,5) p(1) True by (auto simp: submit_request_def threadpool_submit_work_def create_work_item_def p1_def split: if_splits)
    define d1 where "d1 = d\<lparr>total_requests := total_requests d + 1, active_requests := active_requests d + 1\<rparr>"
    have t: "total_requests d < 2 ^ 31 - 1" "active_requests d = total_requests d"
      using assms(2,3) p(3) by (simp_all add: requests_of_def counts_ok_def)
    have "count_request r w5 = Ret (w5\<lparr>net := net_put r d1 (net w5)\<rparr>)"
      using t w5 assms(2,4) by (simp add: count_request_def net_object_def d1_def)
    moreover have "counts_ok d1 p1 (w5\<lparr>net := net_put r d1 (net w5)\<rparr>)"
      using p(3) w5 assms(4) by (simp add: counts_ok_def d1_def p1_def)
    moreover have "contexts_ok p1 (w5\<lparr>net := net_put r d1 (net w5)\<rparr>)"
      using p(4) fresh w5 assms(4) by (auto simp: contexts_ok_def open_ids_def p1_def less_Suc_eq)
    moreover have "clients_inv r (net_put r d1 (net w5))"
      using c assms(2,4) w5 by (auto simp: clients_inv_def net_put_def d1_def array_ok_def)
    ultimately show ?thesis using True w5 assms(2,4) p(2) by (auto simp: enh_inv_def requests_of_def net_put_def d1_def p1_def)
  next
    case False
    then have "w5 = w3"
      using assms(4,5) p(1) by (auto simp: submit_request_def threadpool_submit_work_def create_work_item_def split: if_splits)
    moreover have "contexts_ok p (w3\<lparr>contexts := (contexts w3)(next_context w := None)\<rparr>)"
      using p(4) fresh assms(4) by (auto simp: contexts_ok_def open_ids_def less_Suc_eq)
    moreover have "counts_ok d p (w3\<lparr>contexts := (contexts w3)(next_context w := None)\<rparr>)" using p(3) assms(4) by (simp add: counts_ok_def)
    ultimately show ?thesis using False c p assms(2,4) by (auto simp: enh_inv_def requests_of_def)
  qed
qed

text \<open>What a read leaves behind, when it does not wait.\<close>

definition read_ok :: "nat \<Rightarrow> enh_world \<Rightarrow> enh_world option \<Rightarrow> bool" where
  "read_ok r w x = (case x of None \<Rightarrow> True
     | Some w1 \<Rightarrow> enh_inv r w1 \<and> requests_of r w \<le> requests_of r w1 \<and> requests_of r w1 \<le> requests_of r w + 1)"

lemma pool_read_keeps:
  assumes "enh_inv r w" and "handles (net w) h = Some c" and "0 < n" and "n \<le> int (length buf)" and "data_store (net w) r = Some d"
    and "requests_of r w < 2 ^ 31 - 1" and "enable_threadpool (enh_config d)"
  shows "\<exists>x. enhanced_on_read h n buf w = Ret x \<and> read_ok r w x"
proof -
  have hr: "h_data c = r" using assms(1,2) by (auto simp: enh_inv_def clients_inv_def)
  define x where "x = \<lparr>ctx_client = h, ctx_data = take (nat n) buf, ctx_size = nat n\<rparr>"
  obtain ok1 a1 where a1: "next_answer (net_answers (net w)) = (ok1, a1)" by (cases "next_answer (net_answers (net w))")
  obtain ok2 a2 where a2: "next_answer a1 = (ok2, a2)" by (cases "next_answer a1")
  obtain ok3 a3 where a3: "next_answer a2 = (ok3, a3)" by (cases "next_answer a2")
  define w3 where "w3 = w\<lparr>next_context := next_context w + 1, contexts := (contexts w)(next_context w \<mapsto> x), net := (net w)\<lparr>net_answers := a3\<rparr>\<rparr>"
  have l: "\<not> length buf < nat n" using assms(4) by linarith
  have e: "enhanced_on_read h n buf w =
    (if \<not> ok1 then Ret (Some (w\<lparr>net := (net w)\<lparr>net_answers := a1\<rparr>\<rparr>))
     else if \<not> ok2 then Ret (Some (w\<lparr>net := (net w)\<lparr>net_answers := a2\<rparr>\<rparr>))
     else case submit_request (next_context w) ok3 w3 of
         None \<Rightarrow> Ret None
       | Some (code, w5) \<Rightarrow>
           if code = 0 then obind (count_request (h_data c) w5) (\<lambda>w6. Ret (Some w6))
           else Ret (Some (w5\<lparr>contexts := (contexts w5)(next_context w := None)\<rparr>)))"
    using assms(2-5,7) hr a1 a2 a3 l by (simp add: enhanced_on_read_def enh_answer_eq Let_def net_object_def w3_def x_def)
  show ?thesis
  proof (cases "ok1 \<and> ok2")
    case False
    then show ?thesis using e answers_keep [OF assms(1)] by (auto simp: read_ok_def)
  next
    case True
    show ?thesis
    proof (cases "submit_request (next_context w) ok3 w3")
      case None
      then show ?thesis using e True by (simp add: read_ok_def)
    next
      case (Some y)
      obtain code w5 where y: "y = (code, w5)" by (cases y)
      have "if code = 0 then \<exists>w6. count_request r w5 = Ret w6 \<and> enh_inv r w6 \<and> requests_of r w6 = requests_of r w + 1
        else enh_inv r (w5\<lparr>contexts := (contexts w5)(next_context w := None)\<rparr>)
          \<and> requests_of r (w5\<lparr>contexts := (contexts w5)(next_context w := None)\<rparr>) = requests_of r w"
        using submit_keeps [OF assms(1,5,6) w3_def] Some y by blast
      then show ?thesis using e hr True Some y by (cases "code = 0") (auto simp: read_ok_def)
    qed
  qed
qed

lemma read_keeps:
  assumes "enh_inv r w" and "client_open h (net w)" and "n \<le> int (length buf)" and "requests_of r w < 2 ^ 31 - 1"
  shows "\<exists>x. enhanced_on_read h n buf w = Ret x \<and> read_ok r w x"
proof -
  obtain c where c: "handles (net w) h = Some c" "\<not> h_closing c" using assms(2) by (auto simp: client_open_iff)
  have inv: "clients_inv r (net w)" using assms(1) by (simp add: enh_inv_def)
  obtain d where d: "data_store (net w) r = Some d" using assms(1) by (auto simp: enh_inv_def)
  have hr: "h_data c = r" using inv c(1) by (auto simp: clients_inv_def)
  consider "n = 0" | "n < 0" | "0 < n" "enable_threadpool (enh_config d)" | "0 < n" "\<not> enable_threadpool (enh_config d)" by linarith
  then show ?thesis
  proof cases
    case 1
    then show ?thesis using assms(1) by (simp add: enhanced_on_read_def read_ok_def)
  next
    case 2
    from on_net_keeps [OF assms(1), of "uv_close_client h"] close_keeps [OF inv c] obtain w1
      where "on_net (uv_close_client h) w = Ret w1" "enh_inv r w1" "requests_of r w1 = requests_of r w" by blast
    with 2 show ?thesis by (auto simp: enhanced_on_read_def read_ok_def)
  next
    case 3
    then show ?thesis using pool_read_keeps [OF assms(1) c(1) _ assms(3) d assms(4)] by blast
  next
    case 4
    obtain s where s: "handle_response (Some h) (Some (sync_response n buf)) w = Ret (w\<lparr>net := s\<rparr>)" "clients_inv r s"
        "data_store s = data_store (net w)"
      using response_written [OF inv, of h "sync_response n buf"] c by auto
    have "enh_inv r (w\<lparr>net := s\<rparr>)" "requests_of r (w\<lparr>net := s\<rparr>) = requests_of r w" using net_change [OF assms(1) s(2)] s(3) by simp_all
    with 4 s(1) c(1) d hr assms(3) show ?thesis by (auto simp: enhanced_on_read_def net_object_def read_ok_def)
  qed
qed

lemma enh_deliver_keeps:
  assumes "enh_inv r w" and "in_time e w" and "requests_of r w < 2 ^ 31 - 1"
  shows "\<exists>w'. enh_deliver r e w = Ret w' \<and> enh_inv r w' \<and> requests_of r w \<le> requests_of r w' \<and> requests_of r w' \<le> requests_of r w + 1"
proof (cases e)
  case (Enh_connection st acc)
  have inv: "clients_inv r (net w)" using assms(1) by (simp add: enh_inv_def)
  then obtain d where "data_store (net w) r = Some d" by (auto simp: clients_inv_def)
  moreover obtain w1 where "on_net (on_connection r st acc) w = Ret w1" "enh_inv r w1" "requests_of r w1 = requests_of r w"
    using on_net_keeps [OF assms(1), of "on_connection r st acc"] connection_keeps [OF inv, of st acc] by blast
  ultimately show ?thesis using Enh_connection assms(1) by (auto simp: net_object_def)
next
  case (Enh_read h n buf)
  show ?thesis
  proof (cases "client_open h (net w) \<and> n \<le> int (length buf)")
    case True
    then obtain x where "enhanced_on_read h n buf w = Ret x" "read_ok r w x" using read_keeps [OF assms(1) _ _ assms(3)] by blast
    then show ?thesis using True Enh_read assms(1) by (cases x) (auto simp: read_ok_def)
  qed (use assms Enh_read in auto)
next
  case (Enh_closed h)
  show ?thesis
  proof (cases "client_closing h (net w)")
    case True
    then obtain c where "handles (net w) h = Some c" by (auto simp: client_closing_iff)
    moreover have "clients_inv r (net w)" using assms(1) by (simp add: enh_inv_def)
    ultimately obtain w1 where "on_net (on_handle_close h) w = Ret w1" "enh_inv r w1" "requests_of r w1 = requests_of r w"
      using on_net_keeps [OF assms(1), of "on_handle_close h"] handle_close_keeps by blast
    with True Enh_closed show ?thesis by simp
  qed (use assms Enh_closed in auto)
next
  case Enh_take
  then show ?thesis using take_keeps [OF assms(1)] by auto
next
  case (Enh_respond k random)
  then show ?thesis using process_keeps [OF assms(1), of k random] assms(1,2) by (cases "k < length (in_work w)") auto
qed

lemma enh_run_keeps:
  "enh_inv r w \<Longrightarrow> all_in_time r es w \<Longrightarrow> requests_of r w + int (length es) < 2 ^ 31 \<Longrightarrow> \<exists>w'. run_enh r es w = Ret w' \<and> enh_inv r w'"
proof (induction es arbitrary: w)
  case (Cons e es)
  have "requests_of r w < 2 ^ 31 - 1" using Cons.prems(3) by simp
  then obtain w1 where w1: "enh_deliver r e w = Ret w1" "enh_inv r w1" "requests_of r w1 \<le> requests_of r w + 1"
    using enh_deliver_keeps [OF Cons.prems(1)] Cons.prems(2) by auto
  then have "requests_of r w1 + int (length es) < 2 ^ 31" using Cons.prems(3) by simp
  then obtain w' where "run_enh r es w1 = Ret w'" "enh_inv r w'" using Cons.IH [OF w1(2)] Cons.prems(2) w1(1) by auto
  with w1(1) show ?case by simp
qed simp


definition demo_pool :: threadpool_private_data where
  "demo_pool = \<lparr>thread_slots = 4, work_queue = [], prio_queue = [], queue_mutex = Mutex_free, shutdown = False, active_threads = 0,
     queued_work = 0, max_queue_size = 1000, tp_config = tp_default_config\<rparr>"

definition demo_enh :: enh_world where
  "demo_enh = \<lparr>net = (net_boot [])\<lparr>data_store := [0 \<mapsto> \<lparr>arr_clients = [], client_capacity = 16, server_listening = True,
       server_closing = False, enh_config = enh_default_config, total_requests = 0, active_requests = 0\<rparr>], net_private := Some 0, next_data := 1\<rparr>,
     contexts = Map.empty, next_context = 0, pool = Some demo_pool, in_work = [], responded = 0\<rparr>"

lemma demo_enh_inv: "enh_inv 0 demo_enh"
  by (simp add: enh_inv_def demo_enh_def net_boot_def clients_inv_def array_ok_def counts_ok_def contexts_ok_def open_ids_def demo_pool_def)


section \<open>Responses that come too late\<close>

text \<open>A worker that answers a client whose handle has been freed meanwhile writes to freed memory: nothing ties a request in the
  pool to the life of its connection.\<close>

theorem late_response_faults:
  assumes "k < length (in_work w)" and "contexts w (in_work w ! k) = Some x" and "handles (net w) (ctx_client x) = None"
    and "net_answers (net w) = []"
  shows "enh_deliver r (Enh_respond k random) w = Fault Use_after_free"
  using assms by (simp add: process_request_in_threadpool_def handle_response_def enh_answer_eq on_net_def uv_write_text_def)

theorem late_response_faults_witness:
  "enh_deliver 0 (Enh_respond 0 7) (demo_enh\<lparr>contexts := [5 \<mapsto> \<lparr>ctx_client = 3, ctx_data = ''hi'', ctx_size = 2\<rparr>], in_work := [5]\<rparr>)
    = Fault Use_after_free"
  by (rule late_response_faults) (simp_all add: demo_enh_def net_boot_def)

text \<open>The copied configuration makes cleanup free the caller's host string; a string constant cannot be freed.\<close>

lemma constant_host_faults:
  assumes "net_private (net w) = Some r" and "data_store (net w) r = Some d" and "enh_host c = Static_host t"
  shows "\<exists>w'. enhanced_network_module_set_config True (Some c) w = Ret (0, w')
    \<and> enhanced_network_module_cleanup True w' = Fault Invalid_free"
  using assms
  by (simp add: enhanced_network_module_set_config_def enhanced_network_module_cleanup_def net_object_def net_put_def free_host_def)

end
