(* ===== verification/Program.thy ===== *)
theory Program
  imports Module_Manager Database
begin

text \<open>
  The program (src/main.c): it registers seven modules with the manager of \<^verbatim>\<open>Module_Manager\<close>, starts them, runs
  the event loop and shuts down. The database module is the one of \<^verbatim>\<open>Database\<close>; the life-cycle functions of the
  other six are arguments, so what is shown holds for every behaviour of theirs. A callback may fault, and
  after a fault there is no further step: the manager's world is an outcome, and a callback of a world that
  has faulted keeps the fault. Log output is not modelled; the results of libuv and of \<open>malloc\<close> are arguments.
\<close>

section \<open>Worlds and modules\<close>

record 'r prog_world =
  p_db :: db_state
  p_rest :: 'r

type_synonym 's action = "'s \<Rightarrow> (int \<times> 's) outcome"

definition guarded :: "'s action \<Rightarrow> 's outcome \<Rightarrow> int \<times> 's outcome" where
  "guarded f w = (case w of Fault e \<Rightarrow> (0, Fault e) | Ret s \<Rightarrow> (case f s of Ret (r, s1) \<Rightarrow> (r, Ret s1) | Fault e \<Rightarrow> (0, Fault e)))"

record 's callbacks =
  cb_init :: "'s action"
  cb_start :: "'s action"
  cb_stop :: "'s action"
  cb_cleanup :: "'s action"

text \<open>
  A module whose interface object is \<open>const\<close> is written by the manager right after its initialisation
  (\<open>module->state = ...\<close>), whatever that returned.
\<close>

definition state_written :: "bool \<Rightarrow> 's action \<Rightarrow> 's action" where
  "state_written writable f s = (if writable then f s else obind (f s) (\<lambda>_. Fault Const_write))"

definition make_module :: "string \<Rightarrow> string list option \<Rightarrow> bool \<Rightarrow> 's callbacks \<Rightarrow> 's outcome module_interface" where
  "make_module name deps writable cb = \<lparr>mod_name = Some name, mod_version = ''1.0.0'',
     init_fn = Some (guarded (state_written writable (cb_init cb))), start_fn = Some (guarded (cb_start cb)),
     stop_fn = Some (guarded (cb_stop cb)), cleanup_fn = Some (guarded (cb_cleanup cb)),
     mod_state = MODULE_STATE_UNINITIALIZED, mod_deps = deps\<rparr>"

definition on_rest :: "'r action \<Rightarrow> 'r prog_world action" where
  "on_rest f s = obind (f (p_rest s)) (\<lambda>(r, x). Ret (r, s\<lparr>p_rest := x\<rparr>))"

definition on_db :: "db_state action \<Rightarrow> 'r prog_world action" where
  "on_db f s = obind (f (p_db s)) (\<lambda>(r, d). Ret (r, s\<lparr>p_db := d\<rparr>))"

definition rest_callbacks :: "'r callbacks \<Rightarrow> 'r prog_world callbacks" where
  "rest_callbacks cb = \<lparr>cb_init = on_rest (cb_init cb), cb_start = on_rest (cb_start cb), cb_stop = on_rest (cb_stop cb),
     cb_cleanup = on_rest (cb_cleanup cb)\<rparr>"

definition db_callbacks :: "'r prog_world callbacks" where
  "db_callbacks = \<lparr>cb_init = on_db (database_module_init True), cb_start = on_db database_module_start,
     cb_stop = on_db database_module_stop, cb_cleanup = on_db database_module_cleanup\<rparr>"

text \<open>The other modules of the program.\<close>

record 'r others =
  config_cb :: "'r callbacks"
  logger_cb :: "'r callbacks"
  memory_pool_cb :: "'r callbacks"
  threadpool_cb :: "'r callbacks"
  enhanced_network_cb :: "'r callbacks"
  http_cb :: "'r callbacks"

text \<open>The modules in the order of their registration. The argument says whether the database interface may be written; in the
  source it is \<open>const\<close>.\<close>

definition database_interface :: "bool \<Rightarrow> 'r prog_world outcome module_interface" where
  "database_interface writable = make_module ''database'' (Some [''logger'']) writable db_callbacks"

definition program_modules :: "bool \<Rightarrow> 'r others \<Rightarrow> 'r prog_world outcome module_interface list" where
  "program_modules writable m =
     [make_module ''config'' None True (rest_callbacks (config_cb m)),
      make_module ''logger'' None True (rest_callbacks (logger_cb m)),
      make_module ''memory_pool'' None True (rest_callbacks (memory_pool_cb m)),
      make_module ''threadpool'' None True (rest_callbacks (threadpool_cb m)),
      make_module ''enhanced_network'' None True (rest_callbacks (enhanced_network_cb m)),
      make_module ''http'' None True (rest_callbacks (http_cb m)),
      database_interface writable]"

section \<open>The program\<close>

text \<open>What the environment answers: is the configuration file there, does the loop exist, do the allocations succeed.\<close>

record main_env =
  config_exists :: bool
  default_loop :: bool
  manager_answers :: answers
  array_answers :: answers
  signal_memory :: bool

definition initialize_config_system :: "main_env \<Rightarrow> int" where
  "initialize_config_system env = (if \<not> config_exists env then -1 else 0)"

text \<open>The registrations, up to the first that fails.\<close>

fun register_all :: "'w module_interface list \<Rightarrow> answers \<Rightarrow> 'w module_manager option \<Rightarrow> int \<times> 'w module_manager option" where
  "register_all [] as g = (0, g)"
| "register_all (m # ms) as g = (case next_answer as of (ok, as1) \<Rightarrow>
     case module_manager_register_module ok g (Some m) of (r, g1) \<Rightarrow> if r \<noteq> 0 then (-1, g1) else register_all ms as1 g1)"

text \<open>Without memory for the signal handle, NULL is initialised.\<close>

definition initialize_program ::
  "main_env \<Rightarrow> bool \<Rightarrow> 'r others \<Rightarrow> (int \<times> 'r prog_world outcome module_manager option) outcome" where
  "initialize_program env writable m =
     (if initialize_config_system env \<noteq> 0 then Ret (-1, None)
      else if \<not> default_loop env then Ret (-1, None)
      else case module_manager_create (manager_answers env) of
          None \<Rightarrow> Ret (-1, None)
        | Some g \<Rightarrow> (case register_all (program_modules writable m) (array_answers env) (Some g) of (r, g1) \<Rightarrow>
            if r \<noteq> 0 then Ret (-1, g1)
            else if \<not> signal_memory env then Fault Null_deref
            else Ret (0, g1)))"

text \<open>Running: \<open>routes\<close> registers the HTTP routes, \<open>loop\<close> is \<open>uv_run\<close> with what its callbacks do.\<close>

definition run_program ::
  "('s \<Rightarrow> 's outcome) \<Rightarrow> 's action \<Rightarrow> 's outcome module_manager option \<Rightarrow> 's
   \<Rightarrow> (int \<times> 's outcome module_manager option \<times> 's) outcome" where
  "run_program routes loop g s = (case module_manager_start g (Ret s) of (r, g1, w) \<Rightarrow>
     (case w of
        Fault e \<Rightarrow> Fault e
      | Ret s1 \<Rightarrow>
          if r \<noteq> 0 then Ret (-1, g1, s1)
          else obind (routes s1) (\<lambda>s2. obind (loop s2) (\<lambda>(result, s3). Ret (if result \<noteq> 0 then -1 else 0, g1, s3)))))"

text \<open>Shutting down: the manager's destroy function shuts down once more.\<close>

definition cleanup_and_exit :: "int \<Rightarrow> 's outcome module_manager option \<Rightarrow> 's \<Rightarrow> (int \<times> 's) outcome" where
  "cleanup_and_exit exit_code g s =
     (case g of
        None \<Rightarrow> Ret (exit_code, s)
      | Some g0 \<Rightarrow> (case module_manager_shutdown g (Ret s) of (_, g1, w1) \<Rightarrow> (case module_manager_destroy g1 w1 of (_, w2) \<Rightarrow>
          (case w2 of Fault e \<Rightarrow> Fault e | Ret s1 \<Rightarrow> Ret (exit_code, s1)))))"

definition main_program ::
  "main_env \<Rightarrow> bool \<Rightarrow> 'r others \<Rightarrow> ('r prog_world \<Rightarrow> 'r prog_world outcome) \<Rightarrow> 'r prog_world action \<Rightarrow> 'r prog_world
   \<Rightarrow> (int \<times> 'r prog_world) outcome" where
  "main_program env writable m routes loop s = obind (initialize_program env writable m) (\<lambda>(r, g).
     if r \<noteq> 0 then Ret (1, s)
     else obind (run_program routes loop g s) (\<lambda>(code, g1, s1). cleanup_and_exit (if code \<noteq> 0 then 1 else 0) g1 s1))"

section \<open>Registration\<close>

lemma make_module_fields [simp]:
  "mod_name (make_module n ds w cb) = Some n" "mod_deps (make_module n ds w cb) = ds"
  "mod_state (make_module n ds w cb) = MODULE_STATE_UNINITIALIZED"
  "init_fn (make_module n ds w cb) = Some (guarded (state_written w (cb_init cb)))"
  "start_fn (make_module n ds w cb) = Some (guarded (cb_start cb))"
  "stop_fn (make_module n ds w cb) = Some (guarded (cb_stop cb))"
  "cleanup_fn (make_module n ds w cb) = Some (guarded (cb_cleanup cb))"
  by (simp_all add: make_module_def)

lemma length_program_modules [simp]: "length (program_modules w m) = 7"
  by (simp add: program_modules_def)

definition good_env :: "main_env \<Rightarrow> bool" where
  "good_env env \<longleftrightarrow> config_exists env \<and> default_loop env \<and> manager_answers env = [] \<and> signal_memory env"

lemma register_one:
  "length (modules g) < module_capacity g \<Longrightarrow> find_idx (named n) (modules g) = None \<Longrightarrow>
   register_all (make_module n ds w cb # ms) as (Some g) =
     register_all ms (snd (next_answer as)) (Some (g\<lparr>modules := modules g @ [make_module n ds w cb]\<rparr>))"
  by (simp add: module_manager_register_module_def split: prod.split)

lemma all_registered:
  assumes "good_env env"
  shows "initialize_program env w m = Ret (0, Some \<lparr>modules = program_modules w m, module_capacity = 16\<rparr>)"
  using assms
  by (simp add: initialize_program_def initialize_config_system_def good_env_def module_manager_create_def INITIAL_MODULE_CAPACITY_def
      program_modules_def database_interface_def register_one named_def del: register_all.simps(2))

section \<open>A fault ends the run\<close>

definition keeps_faults :: "'s outcome callback \<Rightarrow> bool" where
  "keeps_faults f = (case f of None \<Rightarrow> True | Some g \<Rightarrow> \<forall>e. g (Fault e) = (0, Fault e))"

lemma guarded_keeps [simp]: "keeps_faults (Some (guarded f))"
  by (simp add: keeps_faults_def guarded_def)

lemma run_callback_fault: "run_callback f (Fault e) = (b, w) \<Longrightarrow> keeps_faults f \<Longrightarrow> w = Fault e"
  by (auto simp: keeps_faults_def run_callback_def split: option.splits)

definition module_keeps :: "'s outcome module_interface \<Rightarrow> bool" where
  "module_keeps m \<longleftrightarrow> keeps_faults (init_fn m) \<and> keeps_faults (start_fn m) \<and> keeps_faults (stop_fn m) \<and> keeps_faults (cleanup_fn m)"

lemma module_keeps_static: "static m = static m' \<Longrightarrow> module_keeps m = module_keeps m'"
  by (simp add: module_keeps_def static_eqD [of m m'])

lemma bodies_keep:
  assumes "module_keeps m"
  shows "snd (init_module ms m (Fault e)) = Fault e" "snd (start_module ms m (Fault e)) = Fault e"
  using assms by (auto simp: init_module_def start_module_def module_keeps_def dest: run_callback_fault split: prod.split)

lemma program_keeps: "x \<in> set (program_modules w m) \<Longrightarrow> module_keeps x"
  by (auto simp: program_modules_def database_interface_def module_keeps_def)

lemma pass_keeps_fault:
  assumes "\<And>ms x. module_keeps x \<Longrightarrow> snd (f ms x (Fault e)) = Fault e" and "\<forall>x \<in> set (fst s). module_keeps x"
    and "k \<le> n" and "n \<le> length (fst s)" and "snd (pass_upto f k s) = Fault e"
  shows "snd (pass_upto f n s) = Fault e"
  using assms(3,4)
proof (induction n)
  case (Suc n)
  show ?case
  proof (cases "k = Suc n")
    case False
    with Suc have i: "snd (pass_upto f n s) = Fault e" "n < length (fst s)" by simp_all
    have "static (fst (pass_upto f n s) ! n) = static (fst s ! n)" using i(2) static_nth_eq [OF pass_upto_static, of n] by simp
    then have "module_keeps (fst (pass_upto f n s) ! n)" using module_keeps_static assms(2) i(2) nth_mem by blast
    from assms(1) [OF this] i(1) show ?thesis
      by (cases "pass_upto f n s") (auto simp: pass_upto_Suc visit_slot_def split: prod.splits dest: arg_cong [of _ _ snd])
  qed (use assms(5) in simp)
qed (use assms(5) in simp)

section \<open>The program does not get up\<close>

lemma logger_visited:
  "mod_state (fst (pass_upto init_module 6 (program_modules w m, s)) ! 1) \<noteq> MODULE_STATE_UNINITIALIZED"
proof -
  have "program_modules w m ! 1 = make_module ''logger'' None True (rest_callbacks (logger_cb m))" by (simp add: program_modules_def)
  then show ?thesis
    by (subst pass_upto_visited) (auto simp: init_module_def check_module_dependencies_def split: prod.split)
qed

lemma database_deps_met:
  "check_module_dependencies (fst (pass_upto init_module 6 (program_modules w m, s))) (database_interface w) = 0"
proof -
  have "find_idx (named ''logger'') (program_modules w m) = Some 1" by (simp add: program_modules_def named_def)
  then show ?thesis
    using logger_visited [of w m s] by (simp add: check_module_dependencies_def database_interface_def dep_ready_iff)
qed

text \<open>Initialising the database module writes its constant interface.\<close>

lemma init_pass_faults: "\<exists>e. snd (pass init_module (program_modules False m, Ret s)) = Fault e"
proof -
  define ps where "ps = (program_modules False m, Ret s :: 'a prog_world outcome)"
  have keep: "\<forall>x \<in> set (fst ps). module_keeps x" by (simp add: ps_def program_keeps)
  obtain ms w where mw: "pass_upto init_module 6 ps = (ms, w)" by (cases "pass_upto init_module 6 ps")
  have d: "ms ! 6 = database_interface False"
    using mw pass_upto_untouched [of 6 6 init_module ps] by (simp add: ps_def program_modules_def)
  have "\<exists>e. snd (visit_slot init_module 6 (ms, w)) = Fault e"
  proof (cases w)
    case (Fault e)
    then show ?thesis
      using bodies_keep(1) [OF program_keeps, of "database_interface False" False m ms e] d
      by (auto simp: visit_slot_def program_modules_def split: prod.split dest: arg_cong [of _ _ snd])
  next
    case (Ret x)
    have "check_module_dependencies ms (database_interface False) = 0"
      using database_deps_met [of False m "Ret s"] mw by (simp add: ps_def)
    moreover have "\<exists>e. snd (guarded (state_written False (on_db (database_module_init True))) (Ret x)) = Fault e"
      by (cases "on_db (database_module_init True) x") (auto simp: guarded_def state_written_def)
    ultimately show ?thesis
      using Ret d by (auto simp: visit_slot_def init_module_def database_interface_def db_callbacks_def run_callback_def split: prod.split)
  qed
  then show ?thesis
    using mw pass_upto_Suc [of init_module 6 ps] by (simp add: pass_def ps_def [symmetric]) (simp add: ps_def)
qed

text \<open>C27: The program never reaches its event loop: its database module is registered through a constant interface object, which
  initialisation writes. Whatever the other modules do and however allocations end, starting the modules ends in a fault.\<close>

theorem program_never_gets_up:
  assumes "good_env env"
  shows "\<exists>e. main_program env False m routes loop s = Fault e"
proof -
  obtain e where e: "snd (pass init_module (program_modules False m, Ret s)) = Fault e" using init_pass_faults by blast
  define t where "t = pass init_module (program_modules False m, Ret s)"
  have st: "map static (fst t) = map static (program_modules False m)" by (simp add: t_def)
  have keep: "\<forall>x \<in> set (fst t). module_keeps x"
  proof
    fix x assume "x \<in> set (fst t)"
    then obtain i where i: "i < length (fst t)" "x = fst t ! i" by (auto simp: in_set_conv_nth)
    then have "static x = static (program_modules False m ! i)" using static_nth_eq [OF st] by simp
    moreover have "program_modules False m ! i \<in> set (program_modules False m)" using i by (simp add: t_def)
    ultimately show "module_keeps x" using module_keeps_static program_keeps by blast
  qed
  have "snd (pass_upto start_module (length (fst t)) t) = Fault e"
    by (rule pass_keeps_fault [where f = start_module and k = 0]) (use keep e in \<open>simp_all add: bodies_keep(2) t_def\<close>)
  then have "snd (pass start_module t) = Fault e" by (simp add: pass_def)
  then show ?thesis
    using all_registered [OF assms, of False m]
    by (cases "pass start_module t") (simp add: main_program_def run_program_def module_manager_start_def t_def [symmetric])
qed

definition idle_callbacks :: "'r callbacks" where
  "idle_callbacks = \<lparr>cb_init = (\<lambda>x. Ret (0, x)), cb_start = (\<lambda>x. Ret (0, x)), cb_stop = (\<lambda>x. Ret (0, x)), cb_cleanup = (\<lambda>x. Ret (0, x))\<rparr>"

definition idle_modules :: "'r others" where
  "idle_modules = \<lparr>config_cb = idle_callbacks, logger_cb = idle_callbacks, memory_pool_cb = idle_callbacks,
     threadpool_cb = idle_callbacks, enhanced_network_cb = idle_callbacks, http_cb = idle_callbacks\<rparr>"

definition demo_env :: main_env where
  "demo_env = \<lparr>config_exists = True, default_loop = True, manager_answers = [], array_answers = [], signal_memory = True\<rparr>"

theorem program_never_gets_up_witness:
  "\<exists>e. main_program demo_env False idle_modules Ret (\<lambda>s. Ret (0, s)) \<lparr>p_db = db_boot False [], p_rest = ()\<rparr> = Fault e"
  by (rule program_never_gets_up) (simp add: good_env_def demo_env_def)

section \<open>The program with an interface that can be written\<close>

text \<open>A module whose initialisation and start succeed.\<close>

definition comes_up :: "'r callbacks \<Rightarrow> bool" where
  "comes_up cb \<longleftrightarrow> (\<forall>x. \<exists>y. cb_init cb x = Ret (0, y)) \<and> (\<forall>x. \<exists>y. cb_start cb x = Ret (0, y))"

lemma comes_up_fns:
  assumes "comes_up cb"
  obtains f g where "cb_init cb = (\<lambda>x. Ret (0, f x))" and "cb_start cb = (\<lambda>x. Ret (0, g x))"
proof -
  from assms obtain f where "\<forall>x. cb_init cb x = Ret (0, f x)" unfolding comes_up_def by metis
  moreover from assms obtain g where "\<forall>x. cb_start cb x = Ret (0, g x)" unfolding comes_up_def by metis
  ultimately show ?thesis by (intro that [of f g]) auto
qed

definition in_state :: "module_state \<Rightarrow> 'w module_interface \<Rightarrow> 'w module_interface" where
  "in_state st x = x\<lparr>mod_state := st\<rparr>"

definition rest_module :: "'r prog_world outcome module_interface \<Rightarrow> bool" where
  "rest_module x \<longleftrightarrow> (\<exists>n cb. x = make_module n None True (rest_callbacks cb) \<and> comes_up cb)"

lemma visit_up:
  assumes "rest_module x"
  shows "\<exists>y. init_module ms x (Ret s) = (MODULE_STATE_INITIALIZED, Ret (s\<lparr>p_rest := y\<rparr>))"
    "\<exists>y. start_module ms (in_state MODULE_STATE_INITIALIZED x) (Ret s) = (MODULE_STATE_STARTED, Ret (s\<lparr>p_rest := y\<rparr>))"
proof -
  obtain n cb where x: "x = make_module n None True (rest_callbacks cb)" "comes_up cb" using assms by (auto simp: rest_module_def)
  obtain f g where fg: "cb_init cb = (\<lambda>x. Ret (0, f x))" "cb_start cb = (\<lambda>x. Ret (0, g x))" using comes_up_fns [OF x(2)] .
  show "\<exists>y. init_module ms x (Ret s) = (MODULE_STATE_INITIALIZED, Ret (s\<lparr>p_rest := y\<rparr>))"
    by (intro exI [of _ "f (p_rest s)"])
      (simp add: x(1) init_module_def check_module_dependencies_def run_callback_def guarded_def state_written_def rest_callbacks_def
        on_rest_def fg)
  show "\<exists>y. start_module ms (in_state MODULE_STATE_INITIALIZED x) (Ret s) = (MODULE_STATE_STARTED, Ret (s\<lparr>p_rest := y\<rparr>))"
    by (intro exI [of _ "g (p_rest s)"])
      (simp add: x(1) start_module_def run_callback_def guarded_def rest_callbacks_def on_rest_def fg in_state_def)
qed

text \<open>A pass over modules that come up, in front of others.\<close>

lemma pass_up:
  assumes "\<And>ms x s. rest_module x \<Longrightarrow> \<exists>y. f ms (in_state st0 x) (Ret s) = (st, Ret (s\<lparr>p_rest := y\<rparr>))"
    and "\<forall>x \<in> set ups. rest_module x" and "k \<le> length ups"
  shows "\<exists>y. pass_upto f k (map (in_state st0) ups @ others, Ret s)
    = (map (in_state st) (take k ups) @ map (in_state st0) (drop k ups) @ others, Ret (s\<lparr>p_rest := y\<rparr>))"
  using assms(3)
proof (induction k)
  case 0
  then show ?case by (auto intro: exI [of _ "p_rest s"])
next
  case (Suc k)
  then obtain y where y: "pass_upto f k (map (in_state st0) ups @ others, Ret s)
      = (map (in_state st) (take k ups) @ map (in_state st0) (drop k ups) @ others, Ret (s\<lparr>p_rest := y\<rparr>))" by auto
  define ms where "ms = map (in_state st) (take k ups) @ map (in_state st0) (drop k ups) @ others"
  have k: "k < length ups" using Suc.prems by simp
  then have d: "drop k ups = ups ! k # drop (Suc k) ups" by (simp add: Cons_nth_drop_Suc)
  have n: "ms ! k = in_state st0 (ups ! k)" using k by (simp add: ms_def nth_append d)
  obtain z where "f ms (in_state st0 (ups ! k)) (Ret (s\<lparr>p_rest := y\<rparr>)) = (st, Ret (s\<lparr>p_rest := y\<rparr>\<lparr>p_rest := z\<rparr>))"
    using assms(1) [of "ups ! k"] assms(2) k by (metis nth_mem)
  moreover have "ms[k := (ms ! k)\<lparr>mod_state := st\<rparr>] = map (in_state st) (take (Suc k) ups) @ map (in_state st0) (drop (Suc k) ups) @ others"
    using k n by (simp add: ms_def d list_update_append take_Suc_conv_app_nth in_state_def)
  ultimately show ?case using y n by (auto simp: pass_upto_Suc visit_slot_def ms_def [symmetric])
qed

definition all_come_up :: "'r others \<Rightarrow> bool" where
  "all_come_up m \<longleftrightarrow> comes_up (config_cb m) \<and> comes_up (logger_cb m) \<and> comes_up (memory_pool_cb m) \<and> comes_up (threadpool_cb m)
     \<and> comes_up (enhanced_network_cb m) \<and> comes_up (http_cb m)"

lemma program_split:
  assumes "all_come_up m"
  obtains ups where "program_modules w m = map (in_state MODULE_STATE_UNINITIALIZED) ups @ [database_interface w]" and "length ups = 6"
    and "\<forall>x \<in> set ups. rest_module x"
proof
  show "program_modules w m = map (in_state MODULE_STATE_UNINITIALIZED) (take 6 (program_modules w m)) @ [database_interface w]"
    by (simp add: program_modules_def in_state_def make_module_def numeral_eq_Suc)
  show "length (take 6 (program_modules w m)) = 6" by simp
  show "\<forall>x \<in> set (take 6 (program_modules w m)). rest_module x"
    using assms by (auto simp: program_modules_def numeral_eq_Suc all_come_up_def rest_module_def)
qed

text \<open>The database module from its boot: initialisation succeeds, the start fails.\<close>

lemma db_init_then_start:
  obtains d1 d2 where "database_module_init True (db_boot True []) = Ret (0, d1)" and "database_module_start d1 = Ret (-1, d2)"
proof -
  define d where "d = \<lparr>pd_config = db_default_config, pd_connections = None, pd_connection_count = 0, pd_max_connections = 10,
    pd_mutex = Mutex_free, pd_cond_ready = True, pd_pool_initialized = False\<rparr>"
  define d1 where "d1 = (db_boot True [])\<lparr>db_store := [0 \<mapsto> d], db_next := 1, db_private := Some 0, global_db_data := Some 0\<rparr>"
  have i: "database_module_init True (db_boot True []) = Ret (0, d1)"
    by (simp add: database_module_init_def db_boot_def db_answer_def Let_def set_private_def db_put_def d_def d1_def)
      (simp add: db_default_config_def)
  have "db_inv 0 d1" by (simp add: db_inv_def d1_def db_boot_def pd_ok_def d_def)
  moreover have o: "db_store d1 0 = Some d" by (simp add: d1_def)
  ultimately obtain d2 where p: "init_connection_pool 0 d1 = Ret (-1, d2)" using init_pool_fails by blast
  have f: "db_private d1 = Some 0" "cfg_enable_pooling (pd_config d)"
    by (simp_all add: d1_def d_def db_default_config_def)
  have "database_module_start d1 = Ret (-1, d2)" by (simp add: database_module_start_def db_object_def f o p)
  with i that show ?thesis by blast
qed

lemma db_visits:
  fixes s :: "'w prog_world"
  assumes "p_db s = db_boot True []" and "check_module_dependencies ms (database_interface True) = 0"
  shows "\<exists>d1 d2. init_module ms (database_interface True) (Ret s) = (MODULE_STATE_INITIALIZED, Ret (s\<lparr>p_db := d1\<rparr>))
    \<and> (\<forall>ns (t :: 'w prog_world). p_db t = d1 \<longrightarrow> start_module ns (in_state MODULE_STATE_INITIALIZED (database_interface True)) (Ret t)
      = (MODULE_STATE_ERROR, Ret (t\<lparr>p_db := d2\<rparr>)))"
proof -
  obtain d1 d2 where d: "database_module_init True (db_boot True []) = Ret (0, d1)" "database_module_start d1 = Ret (-1, d2)"
    using db_init_then_start .
  have "init_module ms (database_interface True) (Ret s) = (MODULE_STATE_INITIALIZED, Ret (s\<lparr>p_db := d1\<rparr>))"
    using assms d(1)
    by (simp add: init_module_def run_callback_def guarded_def state_written_def database_interface_def db_callbacks_def on_db_def)
  moreover have "start_module ns (in_state MODULE_STATE_INITIALIZED (database_interface True)) (Ret t)
      = (MODULE_STATE_ERROR, Ret (t\<lparr>p_db := d2\<rparr>))" if "p_db t = d1" for ns and t :: "'w prog_world"
    using that d(2)
    by (simp add: start_module_def run_callback_def guarded_def database_interface_def db_callbacks_def on_db_def in_state_def)
  ultimately show ?thesis by blast
qed

lemma rest_uninitialised: "rest_module x \<Longrightarrow> in_state MODULE_STATE_UNINITIALIZED x = x"
  by (auto simp: rest_module_def in_state_def make_module_def)

lemma pass_init_up:
  assumes "\<forall>x \<in> set ups. rest_module x" and "length ups = k"
  shows "\<exists>y. pass_upto init_module k (map (in_state MODULE_STATE_UNINITIALIZED) ups @ os, Ret s)
    = (map (in_state MODULE_STATE_INITIALIZED) ups @ os, Ret (s\<lparr>p_rest := y\<rparr>))"
  using pass_up [where f = init_module and st = MODULE_STATE_INITIALIZED and ?st0.0 = MODULE_STATE_UNINITIALIZED, OF _ assms(1), of k os s]
    assms(2) visit_up(1) by (force simp: rest_uninitialised)

lemma pass_start_up:
  assumes "\<forall>x \<in> set ups. rest_module x" and "length ups = k"
  shows "\<exists>y. pass_upto start_module k (map (in_state MODULE_STATE_INITIALIZED) ups @ os, Ret s)
    = (map (in_state MODULE_STATE_STARTED) ups @ os, Ret (s\<lparr>p_rest := y\<rparr>))"
  using pass_up [where f = start_module and st = MODULE_STATE_STARTED and ?st0.0 = MODULE_STATE_INITIALIZED, OF _ assms(1), of k os s]
    assms(2) visit_up(2) by force

text \<open>If the interface could be written, a start with a working rest of the program would leave the other six modules running
  and the database module in the error state: its pool of connections cannot be filled.\<close>

theorem database_never_starts:
  fixes s :: "'w prog_world"
  assumes "all_come_up m" and "p_db s = db_boot True []"
  shows "\<exists>g' s'. module_manager_start (Some \<lparr>modules = program_modules True m, module_capacity = 16\<rparr>) (Ret s) = (0, Some g', Ret s')
    \<and> map mod_state (modules g') = replicate 6 MODULE_STATE_STARTED @ [MODULE_STATE_ERROR]"
proof -
  obtain ups where u: "program_modules True m = map (in_state MODULE_STATE_UNINITIALIZED) ups @ [database_interface True]"
      "length ups = 6" "\<forall>x \<in> set ups. rest_module x" using program_split [OF assms(1)] .
  let ?I = "map (in_state MODULE_STATE_INITIALIZED) ups @ [database_interface True]"
  obtain y where y: "pass_upto init_module 6 (program_modules True m, Ret s) = (?I, Ret (s\<lparr>p_rest := y\<rparr>))"
    using pass_init_up [OF u(3,2)] unfolding u(1) by blast
  have "check_module_dependencies ?I (database_interface True) = 0" using database_deps_met [of True m "Ret s"] y by simp
  moreover have "p_db (s\<lparr>p_rest := y\<rparr>) = db_boot True []" using assms(2) by simp
  ultimately obtain d1 d2
    where i: "init_module ?I (database_interface True) (Ret (s\<lparr>p_rest := y\<rparr>)) = (MODULE_STATE_INITIALIZED, Ret (s\<lparr>p_rest := y, p_db := d1\<rparr>))"
      and st: "\<forall>ns (t :: 'w prog_world). p_db t = d1 \<longrightarrow> start_module ns (in_state MODULE_STATE_INITIALIZED (database_interface True)) (Ret t)
        = (MODULE_STATE_ERROR, Ret (t\<lparr>p_db := d2\<rparr>))" using db_visits by blast
  let ?J = "map (in_state MODULE_STATE_INITIALIZED) ups @ [in_state MODULE_STATE_INITIALIZED (database_interface True)]"
  have init: "pass init_module (program_modules True m, Ret s) = (?J, Ret (s\<lparr>p_rest := y, p_db := d1\<rparr>))"
    using y i u(2) pass_upto_Suc [of init_module 6 "(program_modules True m, Ret s)"]
    by (simp add: pass_def visit_slot_def nth_append list_update_append in_state_def)
  obtain z where z: "pass_upto start_module 6 (?J, Ret (s\<lparr>p_rest := y, p_db := d1\<rparr>))
      = (map (in_state MODULE_STATE_STARTED) ups @ [in_state MODULE_STATE_INITIALIZED (database_interface True)],
         Ret (s\<lparr>p_rest := y, p_db := d1\<rparr>\<lparr>p_rest := z\<rparr>))"
    using pass_start_up [OF u(3,2)] by blast
  have "pass start_module (?J, Ret (s\<lparr>p_rest := y, p_db := d1\<rparr>))
      = (map (in_state MODULE_STATE_STARTED) ups @ [in_state MODULE_STATE_ERROR (database_interface True)],
         Ret (s\<lparr>p_rest := y, p_db := d1\<rparr>\<lparr>p_rest := z\<rparr>\<lparr>p_db := d2\<rparr>))"
    using z st u(2) pass_upto_Suc [of start_module 6 "(?J, Ret (s\<lparr>p_rest := y, p_db := d1\<rparr>))"]
    by (simp add: pass_def visit_slot_def nth_append list_update_append in_state_def)
  with init u(2) show ?thesis by (simp add: module_manager_start_def in_state_def map_replicate_const comp_def)
qed

theorem database_never_starts_witness:
  "\<exists>g' s'. module_manager_start (Some \<lparr>modules = program_modules True (idle_modules :: unit others), module_capacity = 16\<rparr>)
      (Ret \<lparr>p_db = db_boot True [], p_rest = ()\<rparr>) = (0, Some g', Ret s')
    \<and> map mod_state (modules g') = replicate 6 MODULE_STATE_STARTED @ [MODULE_STATE_ERROR]"
  by (rule database_never_starts) (simp_all add: all_come_up_def comes_up_def idle_modules_def idle_callbacks_def)

end
