(* ===== verification/Ipc_Streams.thy ===== *)
theory Ipc_Streams
  imports C_Strings
begin

text \<open>
  Byte streams between processes: local sockets (src/ipc/ipc_socket.c) and named pipes (src/ipc/ipc_pipe.c). A
  message is sent as four bytes with its size and then its bytes. The system keeps descriptors, channels
  of bytes with their numbers of readers and writers, and the paths of sockets and pipes. Of a channel \<open>pending\<close>
  are the bytes that the readers have not taken, those still under way included. How many bytes a call
  transfers is decided outside the program: a list of answers, which is used up by the calls. Writers do not wait for readers to
  make room.
\<close>

section \<open>Descriptors, channels and paths of the system\<close>

record channel =
  pending :: string
  writers :: nat
  readers :: nat

record stream_end =
  in_chan :: "nat option"
  out_chan :: "nat option"
  nonblock :: bool
  rcv_timeout :: bool

datatype fd_entry = Fresh_socket | Bound_socket | Listening "(nat \<times> nat) list" | Stream stream_end

datatype path_entry = Sock_file nat | Fifo_file nat

datatype io_answer = Io_all | Io_part nat | Io_error

record stream_os =
  fds :: "nat \<rightharpoonup> fd_entry"
  channels :: "nat \<rightharpoonup> channel"
  ipc_paths :: "string \<rightharpoonup> path_entry"
  next_fd :: nat
  next_chan :: nat
  io_answers :: "io_answer list"
  stream_answers :: answers

definition stream_answer :: "stream_os \<Rightarrow> bool \<times> stream_os" where
  "stream_answer s = (case next_answer (stream_answers s) of (ok, as) \<Rightarrow> (ok, s\<lparr>stream_answers := as\<rparr>))"

definition new_fd :: "fd_entry \<Rightarrow> stream_os \<Rightarrow> int \<times> stream_os" where
  "new_fd e s = (int (next_fd s), s\<lparr>fds := (fds s)(next_fd s \<mapsto> e), next_fd := next_fd s + 1\<rparr>)"

definition put_fd :: "int \<Rightarrow> fd_entry \<Rightarrow> stream_os \<Rightarrow> stream_os" where
  "put_fd fd e s = s\<lparr>fds := (fds s)(nat fd \<mapsto> e)\<rparr>"

definition put_chan :: "nat \<Rightarrow> channel \<Rightarrow> stream_os \<Rightarrow> stream_os" where
  "put_chan c ch s = s\<lparr>channels := (channels s)(c \<mapsto> ch)\<rparr>"

definition on_chan :: "nat option \<Rightarrow> (channel \<Rightarrow> channel) \<Rightarrow> stream_os \<Rightarrow> stream_os" where
  "on_chan c f s = (case c of None \<Rightarrow> s | Some i \<Rightarrow> (case channels s i of None \<Rightarrow> s | Some ch \<Rightarrow> put_chan i (f ch) s))"

text \<open>Closing a descriptor: a reader and a writer less.\<close>

definition os_close :: "int \<Rightarrow> stream_os \<Rightarrow> stream_os" where
  "os_close fd s = (case fds s (nat fd) of
     Some (Stream e) \<Rightarrow> on_chan (in_chan e) (\<lambda>ch. ch\<lparr>readers := readers ch - 1\<rparr>)
       (on_chan (out_chan e) (\<lambda>ch. ch\<lparr>writers := writers ch - 1\<rparr>) (s\<lparr>fds := (fds s)(nat fd := None)\<rparr>))
   | _ \<Rightarrow> s\<lparr>fds := (fds s)(nat fd := None)\<rparr>)"

definition os_unlink :: "string \<Rightarrow> stream_os \<Rightarrow> stream_os" where
  "os_unlink path s = s\<lparr>ipc_paths := (ipc_paths s)(path := None)\<rparr>"

definition next_io :: "stream_os \<Rightarrow> io_answer \<times> stream_os" where
  "next_io s = (case io_answers s of [] \<Rightarrow> (Io_all, s) | a # as \<Rightarrow> (a, s\<lparr>io_answers := as\<rparr>))"

definition transferred :: "io_answer \<Rightarrow> nat \<Rightarrow> nat" where
  "transferred a n = (case a of Io_part k \<Rightarrow> min n (max 1 k) | _ \<Rightarrow> n)"

text \<open>\<open>send\<close> and \<open>write\<close>: the number of bytes taken (None for -1).\<close>

definition write_some :: "int \<Rightarrow> string \<Rightarrow> stream_os \<Rightarrow> (nat option \<times> stream_os) outcome" where
  "write_some fd data s = (case fds s (nat fd) of
     Some (Stream e) \<Rightarrow> (case out_chan e of
       None \<Rightarrow> Ret (None, s)
     | Some c \<Rightarrow> (case channels s c of
         None \<Rightarrow> Ret (None, s)
       | Some ch \<Rightarrow>
           if readers ch = 0 then Fault Broken_pipe
           else case next_io s of (a, s1) \<Rightarrow>
             if a = Io_error then Ret (None, s1)
             else let n = transferred a (length data) in
               Ret (Some n, put_chan c (ch\<lparr>pending := pending ch @ take n data\<rparr>) s1)))
   | _ \<Rightarrow> Ret (None, s))"

text \<open>\<open>recv\<close> and \<open>read\<close>: the bytes (none at the end of the stream), or -1; None of the whole for a call that never returns.\<close>

definition read_some :: "int \<Rightarrow> nat \<Rightarrow> stream_os \<Rightarrow> (string option \<times> stream_os) option" where
  "read_some fd want s = (case fds s (nat fd) of
     Some (Stream e) \<Rightarrow> (case in_chan e of
       None \<Rightarrow> Some (None, s)
     | Some c \<Rightarrow> (case channels s c of
         None \<Rightarrow> Some (None, s)
       | Some ch \<Rightarrow>
           if pending ch = []
           then (if writers ch = 0 then Some (Some [], s) else if nonblock e \<or> rcv_timeout e then Some (None, s) else None)
           else case next_io s of (a, s1) \<Rightarrow>
             if a = Io_error then Some (None, s1)
             else let n = min (transferred a want) (length (pending ch)) in
               Some (Some (take n (pending ch)), put_chan c (ch\<lparr>pending := drop n (pending ch)\<rparr>) s1)))
   | _ \<Rightarrow> Some (None, s))"

section \<open>Sizes as four bytes\<close>

text \<open>The size is written as it lies in memory, the lowest byte first.\<close>

definition header :: "32 word \<Rightarrow> string" where
  "header w = map (\<lambda>i. char_of (unat w div 256 ^ i)) [0, 1, 2, 3]"

definition read_header :: "string \<Rightarrow> 32 word" where
  "read_header cs = of_nat (horner_sum of_char 256 cs)"

lemma length_header [simp]: "length (header w) = 4"
  by (simp add: header_def)

lemma four_digits:
  fixes n :: nat
  assumes "n < 4294967296"
  shows "n mod 256 + 256 * (n div 256 mod 256 + 256 * (n div 65536 mod 256 + 256 * (n div 16777216))) = n"
    "n div 16777216 < 256"
proof -
  have "n div 65536 = n div 256 div 256" "n div 16777216 = n div 256 div 256 div 256" by (simp_all flip: div_mult2_eq)
  moreover have "n div 256 div 256 div 256 < 256" using assms by (simp flip: div_mult2_eq add: less_mult_imp_div_less)
  ultimately show "n mod 256 + 256 * (n div 256 mod 256 + 256 * (n div 65536 mod 256 + 256 * (n div 16777216))) = n"
      "n div 16777216 < 256" by (simp_all add: mult_div_mod_eq add.commute)
qed

lemma read_header_header [simp]: "read_header (header w) = w"
proof -
  have "unat w < 2 ^ LENGTH(32)" by (rule unsigned_less)
  then have "unat w < 4294967296" by simp
  from four_digits [OF this] have "horner_sum of_char 256 (header w) = unat w" by (simp add: header_def)
  then have "read_header (header w) = of_nat (unat w)" by (simp only: read_header_def)
  then show ?thesis by simp
qed

section \<open>Messages on a stream\<close>

text \<open>The loop that sends the rest of the data.\<close>

function send_loop :: "int \<Rightarrow> string \<Rightarrow> stream_os \<Rightarrow> (int \<times> stream_os) outcome" where
  "send_loop fd data s =
     (if data = [] then Ret (0, s)
      else case write_some fd data s of
        Fault e \<Rightarrow> Fault e
      | Ret (None, s1) \<Rightarrow> Ret (-1, s1)
      | Ret (Some n, s1) \<Rightarrow> send_loop fd (drop n data) s1)"
  by pat_completeness auto

lemma write_some_pos: "write_some fd data s = Ret (Some n, s1) \<Longrightarrow> data \<noteq> [] \<Longrightarrow> 0 < n"
  by (auto simp: write_some_def transferred_def Let_def split: option.splits fd_entry.splits prod.splits if_splits io_answer.splits)

termination send_loop
  by (relation "measure (\<lambda>(fd, data, s). length data)") (auto dest: write_some_pos intro!: diff_less)

declare send_loop.simps [simp del]

text \<open>Sending: the size is cut to 32 bits, and of the header's transfer only an error is noticed.\<close>

definition send_framed :: "int \<Rightarrow> string option \<Rightarrow> nat \<Rightarrow> stream_os \<Rightarrow> (int \<times> stream_os) outcome" where
  "send_framed fd data n s = (case data of
     None \<Rightarrow> Ret (-1, s)
   | Some d \<Rightarrow>
       if fd < 0 \<or> n = 0 then Ret (-1, s)
       else obind (write_some fd (header (word_of_nat n)) s) (\<lambda>(sent, s1).
         if sent = None then Ret (-1, s1)
         else if length d < n then Fault Out_of_bounds
         else send_loop fd (take n d) s1))"

text \<open>
  The loop that receives the rest: the bytes, or None after an error. At the end of the stream \<open>recv\<close>
  gives 0 bytes again and again.
\<close>

partial_function (option) recv_loop :: "int \<Rightarrow> nat \<Rightarrow> string \<Rightarrow> stream_os \<Rightarrow> (string option \<times> stream_os) option" where
  "recv_loop fd want acc s =
     (if want = 0 then Some (Some acc, s)
      else case read_some fd want s of
        None \<Rightarrow> None
      | Some (None, s1) \<Rightarrow> Some (None, s1)
      | Some (Some d, s1) \<Rightarrow> recv_loop fd (want - length d) (acc @ d) s1)"

text \<open>The code, and what was written through the pointers: nothing, or a buffer (None for NULL) and a size (None if untouched).\<close>

type_synonym received = "int \<times> (string option \<times> nat option) option"

definition recv_framed :: "int \<Rightarrow> stream_os \<Rightarrow> (received \<times> stream_os) option" where
  "recv_framed fd s = (case read_some fd 4 s of
     None \<Rightarrow> None
   | Some (None, s1) \<Rightarrow> Some ((-1, None), s1)
   | Some (Some h, s1) \<Rightarrow>
       if length h \<noteq> 4 then Some ((-1, None), s1)
       else let n = unat (read_header h) in
         case stream_answer s1 of (ok, s2) \<Rightarrow>
           if \<not> ok then Some ((-1, Some (None, None)), s2)
           else (case recv_loop fd n [] s2 of
               None \<Rightarrow> None
             | Some (None, s3) \<Rightarrow> Some ((-1, Some (None, Some n)), s3)
             | Some (Some d, s3) \<Rightarrow> Some ((0, Some (Some d, Some n)), s3)))"

section \<open>Sockets\<close>

text \<open>The path has room for 108 bytes in an address and for 256 where the file is removed.\<close>

definition socket_path :: "nat \<Rightarrow> string \<Rightarrow> string" where
  "socket_path n name = snprintf_text n (''/tmp/ipc_socket_'' @ name)"

definition os_socket :: "stream_os \<Rightarrow> int \<times> stream_os" where
  "os_socket s = (case stream_answer s of (ok, s1) \<Rightarrow> if \<not> ok then (-1, s1) else new_fd Fresh_socket s1)"

definition os_bind :: "int \<Rightarrow> string \<Rightarrow> stream_os \<Rightarrow> int \<times> stream_os" where
  "os_bind fd path s = (case stream_answer s of (ok, s1) \<Rightarrow>
     if \<not> ok \<or> ipc_paths s1 path \<noteq> None then (-1, s1)
     else (0, put_fd fd Bound_socket (s1\<lparr>ipc_paths := (ipc_paths s1)(path \<mapsto> Sock_file (nat fd))\<rparr>)))"

definition ipc_socket_create_server :: "string option \<Rightarrow> int \<Rightarrow> stream_os \<Rightarrow> int \<times> stream_os" where
  "ipc_socket_create_server name max_connections s = (case name of
     None \<Rightarrow> (-1, s)
   | Some n \<Rightarrow> (case os_socket s of (fd, s1) \<Rightarrow>
       if fd = -1 then (-1, s1)
       else case stream_answer s1 of (opt_ok, s2) \<Rightarrow>
         if \<not> opt_ok then (-1, os_close fd s2)
         else case os_bind fd (socket_path 108 n) (os_unlink (socket_path 108 n) s2) of (r, s3) \<Rightarrow>
           if r = -1 then (-1, os_close fd s3)
           else case stream_answer s3 of (listen_ok, s4) \<Rightarrow>
             if \<not> listen_ok then (-1, os_unlink (socket_path 108 n) (os_close fd s4))
             else (fd, put_fd fd (Listening []) s4)))"

text \<open>Connecting: two new channels, the server finds its end in the queue of the listening socket.\<close>

definition os_connect :: "int \<Rightarrow> string \<Rightarrow> stream_os \<Rightarrow> int \<times> stream_os" where
  "os_connect fd path s = (case ipc_paths s path of
     Some (Sock_file l) \<Rightarrow> (case fds s l of
       Some (Listening q) \<Rightarrow> (case stream_answer s of (ok, s1) \<Rightarrow>
         if \<not> ok then (-1, s1)
         else let a = next_chan s1; b = a + 1; ch = \<lparr>pending = [], writers = 1, readers = 1\<rparr> in
           (0, put_fd (int l) (Listening (q @ [(a, b)]))
             (put_fd fd (Stream \<lparr>in_chan = Some b, out_chan = Some a, nonblock = False, rcv_timeout = False\<rparr>)
               (s1\<lparr>channels := (channels s1)(a \<mapsto> ch, b \<mapsto> ch), next_chan := a + 2\<rparr>))))
     | _ \<Rightarrow> (-1, s))
   | _ \<Rightarrow> (-1, s))"

definition ipc_socket_connect_client :: "string option \<Rightarrow> stream_os \<Rightarrow> int \<times> stream_os" where
  "ipc_socket_connect_client name s = (case name of
     None \<Rightarrow> (-1, s)
   | Some n \<Rightarrow> (case os_socket s of (fd, s1) \<Rightarrow>
       if fd = -1 then (-1, s1)
       else case os_connect fd (socket_path 108 n) s1 of (r, s2) \<Rightarrow>
         if r = -1 then (-1, os_close fd s2) else (fd, s2)))"

text \<open>None: there is no connection yet.\<close>

definition ipc_socket_accept_connection :: "int \<Rightarrow> stream_os \<Rightarrow> (int \<times> stream_os) option" where
  "ipc_socket_accept_connection server_fd s =
     (if server_fd < 0 then Some (-1, s)
      else case fds s (nat server_fd) of
        Some (Listening q) \<Rightarrow> (case q of
          [] \<Rightarrow> None
        | (a, b) # q1 \<Rightarrow> (case stream_answer s of (ok, s1) \<Rightarrow>
            if \<not> ok then Some (-1, s1)
            else Some (new_fd (Stream \<lparr>in_chan = Some a, out_chan = Some b, nonblock = False, rcv_timeout = False\<rparr>)
              (put_fd server_fd (Listening q1) s1))))
      | _ \<Rightarrow> Some (-1, s))"

definition ipc_socket_send_message :: "int \<Rightarrow> string option \<Rightarrow> nat \<Rightarrow> stream_os \<Rightarrow> (int \<times> stream_os) outcome" where
  "ipc_socket_send_message fd data n s = send_framed fd data n s"

text \<open>A positive timeout is set on the socket, where it stays.\<close>

definition set_rcv_timeout :: "int \<Rightarrow> stream_os \<Rightarrow> int \<times> stream_os" where
  "set_rcv_timeout fd s = (case stream_answer s of (ok, s1) \<Rightarrow> (case fds s1 (nat fd) of
     Some (Stream e) \<Rightarrow> if ok then (0, put_fd fd (Stream (e\<lparr>rcv_timeout := True\<rparr>)) s1) else (-1, s1)
   | _ \<Rightarrow> (-1, s1)))"

definition ipc_socket_receive_message :: "int \<Rightarrow> bool \<Rightarrow> bool \<Rightarrow> int \<Rightarrow> stream_os \<Rightarrow> (received \<times> stream_os) option" where
  "ipc_socket_receive_message fd data_given size_given timeout_ms s =
     (if fd < 0 \<or> \<not> data_given \<or> \<not> size_given then Some ((-1, None), s)
      else case (if timeout_ms > 0 then set_rcv_timeout fd s else (0, s)) of (r, s1) \<Rightarrow>
        if r = -1 then Some ((-1, None), s1) else recv_framed fd s1)"

definition ipc_socket_close :: "int \<Rightarrow> stream_os \<Rightarrow> stream_os" where
  "ipc_socket_close fd s = (if 0 \<le> fd then os_close fd s else s)"

definition ipc_socket_cleanup_server :: "string option \<Rightarrow> stream_os \<Rightarrow> stream_os" where
  "ipc_socket_cleanup_server name s = (case name of None \<Rightarrow> s | Some n \<Rightarrow> os_unlink (socket_path 256 n) s)"

section \<open>Named pipes\<close>

definition pipe_path :: "string \<Rightarrow> string" where
  "pipe_path name = snprintf_text 256 (''/tmp/ipc_pipe_'' @ name)"

definition ipc_pipe_create_server :: "string option \<Rightarrow> stream_os \<Rightarrow> int \<times> stream_os" where
  "ipc_pipe_create_server name s = (case name of
     None \<Rightarrow> (-1, s)
   | Some n \<Rightarrow> (case stream_answer (os_unlink (pipe_path n) s) of (ok, s1) \<Rightarrow>
       if \<not> ok then (-1, s1)
       else (0, put_chan (next_chan s1) \<lparr>pending = [], writers = 0, readers = 0\<rparr>
         (s1\<lparr>ipc_paths := (ipc_paths s1)(pipe_path n \<mapsto> Fifo_file (next_chan s1)), next_chan := next_chan s1 + 1\<rparr>))))"

text \<open>Opening a pipe: for one direction only, the call waits (None) for the other side.\<close>

definition os_open_fifo :: "string \<Rightarrow> bool \<Rightarrow> bool \<Rightarrow> stream_os \<Rightarrow> (int \<times> stream_os) option" where
  "os_open_fifo path rd wr s = (case ipc_paths s path of
     Some (Fifo_file c) \<Rightarrow> (case channels s c of
       None \<Rightarrow> Some (-1, s)
     | Some ch \<Rightarrow> (case stream_answer s of (ok, s1) \<Rightarrow>
         if \<not> ok then Some (-1, s1)
         else if rd \<and> \<not> wr \<and> writers ch = 0 \<or> wr \<and> \<not> rd \<and> readers ch = 0 then None
         else Some (new_fd (Stream \<lparr>in_chan = (if rd then Some c else None), out_chan = (if wr then Some c else None),
             nonblock = False, rcv_timeout = False\<rparr>)
           (put_chan c (ch\<lparr>readers := readers ch + (if rd then 1 else 0), writers := writers ch + (if wr then 1 else 0)\<rparr>) s1))))
   | _ \<Rightarrow> Some (-1, s))"

definition ipc_pipe_connect_client :: "string option \<Rightarrow> stream_os \<Rightarrow> (int \<times> stream_os) option" where
  "ipc_pipe_connect_client name s = (case name of None \<Rightarrow> Some (-1, s) | Some n \<Rightarrow> os_open_fifo (pipe_path n) True True s)"

definition ipc_pipe_open_for_reading :: "string option \<Rightarrow> stream_os \<Rightarrow> (int \<times> stream_os) option" where
  "ipc_pipe_open_for_reading name s = (case name of None \<Rightarrow> Some (-1, s) | Some n \<Rightarrow> os_open_fifo (pipe_path n) True False s)"

definition ipc_pipe_open_for_writing :: "string option \<Rightarrow> stream_os \<Rightarrow> (int \<times> stream_os) option" where
  "ipc_pipe_open_for_writing name s = (case name of None \<Rightarrow> Some (-1, s) | Some n \<Rightarrow> os_open_fifo (pipe_path n) False True s)"

definition ipc_pipe_send_message :: "int \<Rightarrow> string option \<Rightarrow> nat \<Rightarrow> stream_os \<Rightarrow> (int \<times> stream_os) outcome" where
  "ipc_pipe_send_message fd data n s = send_framed fd data n s"

definition get_nonblock :: "int \<Rightarrow> stream_os \<Rightarrow> bool" where
  "get_nonblock fd s = (case fds s (nat fd) of Some (Stream e) \<Rightarrow> nonblock e | _ \<Rightarrow> False)"

definition set_nonblock :: "bool \<Rightarrow> int \<Rightarrow> stream_os \<Rightarrow> stream_os" where
  "set_nonblock b fd s = (case fds s (nat fd) of Some (Stream e) \<Rightarrow> put_fd fd (Stream (e\<lparr>nonblock := b\<rparr>)) s | _ \<Rightarrow> s)"

text \<open>With a positive timeout the pipe is read without waiting; the flag is put back at every return.\<close>

definition ipc_pipe_receive_message :: "int \<Rightarrow> bool \<Rightarrow> bool \<Rightarrow> int \<Rightarrow> stream_os \<Rightarrow> (received \<times> stream_os) option" where
  "ipc_pipe_receive_message fd data_given size_given timeout_ms s =
     (if fd < 0 \<or> \<not> data_given \<or> \<not> size_given then Some ((-1, None), s)
      else let flags = get_nonblock fd s in
        case recv_framed fd (if timeout_ms > 0 then set_nonblock True fd s else s) of
          None \<Rightarrow> None
        | Some (r, s1) \<Rightarrow> Some (r, if timeout_ms > 0 then set_nonblock flags fd s1 else s1))"

definition ipc_pipe_close :: "int \<Rightarrow> stream_os \<Rightarrow> stream_os" where
  "ipc_pipe_close fd s = (if 0 \<le> fd then os_close fd s else s)"

definition ipc_pipe_cleanup_server :: "string option \<Rightarrow> stream_os \<Rightarrow> stream_os" where
  "ipc_pipe_cleanup_server name s = (case name of None \<Rightarrow> s | Some n \<Rightarrow> os_unlink (pipe_path n) s)"

section \<open>Transfers without errors\<close>

text \<open>Every call transfers at least four bytes or all it was asked for, and no allocation fails.\<close>

definition good_io :: "io_answer \<Rightarrow> bool" where
  "good_io a \<longleftrightarrow> (case a of Io_all \<Rightarrow> True | Io_part n \<Rightarrow> 4 \<le> n | Io_error \<Rightarrow> False)"

definition calm :: "stream_os \<Rightarrow> bool" where
  "calm s \<longleftrightarrow> list_all good_io (io_answers s) \<and> stream_answers s = []"

definition chan_holds :: "nat \<Rightarrow> string \<Rightarrow> nat \<Rightarrow> nat \<Rightarrow> stream_os \<Rightarrow> bool" where
  "chan_holds c bs w r s \<longleftrightarrow> channels s c = Some \<lparr>pending = bs, writers = w, readers = r\<rparr> \<and> calm s"

definition writes_to :: "int \<Rightarrow> nat \<Rightarrow> stream_os \<Rightarrow> bool" where
  "writes_to fd c s \<longleftrightarrow> 0 \<le> fd \<and> (\<exists>e. fds s (nat fd) = Some (Stream e) \<and> out_chan e = Some c)"

definition reads_from :: "int \<Rightarrow> nat \<Rightarrow> stream_os \<Rightarrow> bool" where
  "reads_from fd c s \<longleftrightarrow> 0 \<le> fd \<and> (\<exists>e. fds s (nat fd) = Some (Stream e) \<and> in_chan e = Some c)"

lemma next_io_calm: "calm s \<Longrightarrow> \<exists>a as. next_io s = (a, s\<lparr>io_answers := as\<rparr>) \<and> good_io a \<and> calm (s\<lparr>io_answers := as\<rparr>)"
  by (cases "io_answers s") (auto simp: next_io_def calm_def good_io_def intro: exI [of _ "[]"])

lemma good_transfer: "good_io a \<Longrightarrow> min 4 n \<le> transferred a n \<and> transferred a n \<le> n"
  by (auto simp: good_io_def transferred_def split: io_answer.splits)

lemma write_some_calm:
  assumes "writes_to fd c s" and "chan_holds c bs w (Suc r) s"
  shows "\<exists>n s1. write_some fd d s = Ret (Some n, s1) \<and> min 4 (length d) \<le> n \<and> n \<le> length d
    \<and> chan_holds c (bs @ take n d) w (Suc r) s1 \<and> fds s1 = fds s"
proof -
  obtain a as where a: "next_io s = (a, s\<lparr>io_answers := as\<rparr>)" "good_io a" "calm (s\<lparr>io_answers := as\<rparr>)"
    using next_io_calm [of s] assms(2) by (auto simp: chan_holds_def)
  then have "a \<noteq> Io_error" by (auto simp: good_io_def)
  with a assms good_transfer [OF a(2), of "length d"] show ?thesis
    by (auto simp: write_some_def writes_to_def chan_holds_def put_chan_def Let_def calm_def)
qed

lemma send_loop_calm:
  "writes_to fd c s \<Longrightarrow> chan_holds c bs w (Suc r) s \<Longrightarrow>
   \<exists>s1. send_loop fd d s = Ret (0, s1) \<and> chan_holds c (bs @ d) w (Suc r) s1 \<and> fds s1 = fds s"
proof (induction "length d" arbitrary: d bs s rule: less_induct)
  case less
  show ?case
  proof (cases "d = []")
    case True
    with less.prems show ?thesis by (simp add: send_loop.simps)
  next
    case False
    obtain n s1 where 1: "write_some fd d s = Ret (Some n, s1)" "n \<le> length d" "chan_holds c (bs @ take n d) w (Suc r) s1" "fds s1 = fds s"
      using write_some_calm [OF less.prems] by blast
    have "0 < n" using write_some_pos [OF 1(1) False] .
    with False have l: "length (drop n d) < length d" by simp
    have "writes_to fd c s1" using less.prems(1) 1(4) by (simp add: writes_to_def)
    from less.hyps [OF l this 1(3)] obtain s2 where
      "send_loop fd (drop n d) s1 = Ret (0, s2)" "chan_holds c (bs @ d) w (Suc r) s2" "fds s2 = fds s1" by auto
    moreover have "send_loop fd d s = send_loop fd (drop n d) s1" using False 1(1) by (subst send_loop.simps) simp
    ultimately show ?thesis using 1(4) by simp
  qed
qed

definition frame :: "string \<Rightarrow> string" where
  "frame d = header (word_of_nat (length d)) @ d"

lemma send_framed_calm:
  assumes "writes_to fd c s" and "chan_holds c bs w (Suc r) s" and "d \<noteq> []"
  shows "\<exists>s1. send_framed fd (Some d) (length d) s = Ret (0, s1) \<and> chan_holds c (bs @ frame d) w (Suc r) s1 \<and> fds s1 = fds s"
proof -
  let ?h = "header (word_of_nat (length d))"
  obtain n s1 where 1: "write_some fd ?h s = Ret (Some n, s1)" "min 4 (length ?h) \<le> n" "n \<le> length ?h"
      "chan_holds c (bs @ take n ?h) w (Suc r) s1" "fds s1 = fds s"
    using write_some_calm [OF assms(1,2)] by blast
  have "take n ?h = ?h" using 1(2,3) by simp
  with 1(4) have "chan_holds c (bs @ ?h) w (Suc r) s1" by simp
  moreover have "writes_to fd c s1" using assms(1) 1(5) by (simp add: writes_to_def)
  ultimately obtain s2 where "send_loop fd d s1 = Ret (0, s2)" "chan_holds c ((bs @ ?h) @ d) w (Suc r) s2" "fds s2 = fds s1"
    using send_loop_calm by blast
  with 1 assms show ?thesis by (simp add: send_framed_def frame_def writes_to_def)
qed

lemma read_some_calm:
  assumes "reads_from fd c s" and "chan_holds c bs w r s" and "bs \<noteq> []" and "0 < want"
  shows "\<exists>n s1. read_some fd want s = Some (Some (take n bs), s1) \<and> min 4 (min want (length bs)) \<le> n \<and> n \<le> want \<and> n \<le> length bs
    \<and> chan_holds c (drop n bs) w r s1 \<and> fds s1 = fds s"
proof -
  obtain a as where a: "next_io s = (a, s\<lparr>io_answers := as\<rparr>)" "good_io a" "calm (s\<lparr>io_answers := as\<rparr>)"
    using next_io_calm [of s] assms(2) by (auto simp: chan_holds_def)
  then have "a \<noteq> Io_error" by (auto simp: good_io_def)
  with a assms have "read_some fd want s = (let n = min (transferred a want) (length bs) in
      Some (Some (take n bs), put_chan c \<lparr>pending = drop n bs, writers = w, readers = r\<rparr> (s\<lparr>io_answers := as\<rparr>)))"
    by (auto simp: read_some_def reads_from_def chan_holds_def Let_def)
  with a(3) good_transfer [OF a(2), of want] show ?thesis
    by (intro exI [of _ "min (transferred a want) (length bs)"]) (auto simp: Let_def chan_holds_def put_chan_def calm_def)
qed

lemma recv_loop_calm:
  "reads_from fd c s \<Longrightarrow> chan_holds c bs w r s \<Longrightarrow> want \<le> length bs \<Longrightarrow>
   \<exists>s1. recv_loop fd want acc s = Some (Some (acc @ take want bs), s1) \<and> chan_holds c (drop want bs) w r s1 \<and> fds s1 = fds s"
proof (induction want arbitrary: acc bs s rule: less_induct)
  case (less want)
  show ?case
  proof (cases "want = 0")
    case True
    with less.prems show ?thesis by (simp add: recv_loop.simps)
  next
    case False
    with less.prems have "bs \<noteq> []" "0 < want" by auto
    then obtain n s1 where 1: "read_some fd want s = Some (Some (take n bs), s1)" "min 4 (min want (length bs)) \<le> n" "n \<le> want"
        "n \<le> length bs" "chan_holds c (drop n bs) w r s1" "fds s1 = fds s"
      using read_some_calm [OF less.prems(1,2)] by blast
    with False less.prems(3) have n: "want - n < want" by auto
    have "reads_from fd c s1" using less.prems(1) 1(6) by (simp add: reads_from_def)
    moreover have "want - n \<le> length (drop n bs)" using less.prems(3) by simp
    ultimately obtain s2 where
      2: "recv_loop fd (want - n) (acc @ take n bs) s1 = Some (Some ((acc @ take n bs) @ take (want - n) (drop n bs)), s2)"
        "chan_holds c (drop (want - n) (drop n bs)) w r s2" "fds s2 = fds s1"
      using less.IH [OF n _ 1(5)] by blast
    have "take n bs @ take (want - n) (drop n bs) = take want bs" using 1(3) by (metis take_add le_add_diff_inverse)
    moreover have "recv_loop fd want acc s = recv_loop fd (want - n) (acc @ take n bs) s1"
      using False 1(1,4) by (subst recv_loop.simps) (simp add: min_absorb2)
    ultimately show ?thesis using 1(3,6) 2 by simp
  qed
qed

text \<open>What is received after a header of a size that was cut to 32 bits.\<close>

lemma recv_framed_calm:
  assumes "reads_from fd c s" and "chan_holds c (header (word_of_nat k) @ bs) w r s" and "k mod 2 ^ 32 \<le> length bs"
  shows "\<exists>s1. recv_framed fd s = Some ((0, Some (Some (take (k mod 2 ^ 32) bs), Some (k mod 2 ^ 32))), s1)
    \<and> chan_holds c (drop (k mod 2 ^ 32) bs) w r s1 \<and> fds s1 = fds s"
proof -
  let ?h = "header (word_of_nat k)"
  have h: "?h @ bs \<noteq> []" using length_header [of "word_of_nat k"] by (metis append_is_Nil_conv list.size(3) zero_neq_numeral)
  obtain n s1 where 1: "read_some fd 4 s = Some (Some (take n (?h @ bs)), s1)" "min 4 (min 4 (length (?h @ bs))) \<le> n" "n \<le> 4"
      "chan_holds c (drop n (?h @ bs)) w r s1" "fds s1 = fds s"
    using read_some_calm [OF assms(1,2) h, of 4] by auto
  then have n: "n = 4" by simp
  have u: "unat (word_of_nat k :: 32 word) = k mod 2 ^ 32" by (simp add: unat_of_nat)
  have s1: "s1\<lparr>stream_answers := []\<rparr> = s1" "stream_answers s1 = []" using 1(4) by (simp_all add: chan_holds_def calm_def)
  have "reads_from fd c s1" using assms(1) 1(5) by (simp add: reads_from_def)
  then obtain s2 where "recv_loop fd (k mod 2 ^ 32) [] s1 = Some (Some (take (k mod 2 ^ 32) bs), s2)"
      "chan_holds c (drop (k mod 2 ^ 32) bs) w r s2" "fds s2 = fds s1"
    using recv_loop_calm [of fd c s1 bs w r "k mod 2 ^ 32" "[]"] 1(4) n assms(3) by auto
  with 1(1,5) n u show ?thesis by (simp add: recv_framed_def stream_answer_def Let_def s1)
qed

section \<open>A stream as a queue of messages\<close>

datatype stream_event = Sends_message string | Receives_message

text \<open>The replies: the code of a send, and what a receive gives (None for one that waits).\<close>

datatype stream_reply = Sent int | Received "received option"

fun stream_step :: "(string \<Rightarrow> 's \<Rightarrow> (int \<times> 's) outcome) \<Rightarrow> ('s \<Rightarrow> (received \<times> 's) option) \<Rightarrow> stream_event \<Rightarrow> 's
    \<Rightarrow> (stream_reply \<times> 's) outcome" where
  "stream_step send recv (Sends_message d) s = obind (send d s) (\<lambda>(r, s1). Ret (Sent r, s1))"
| "stream_step send recv Receives_message s = Ret (case recv s of
     None \<Rightarrow> (Received None, s) | Some (r, s1) \<Rightarrow> (Received (Some r), s1))"

fun run_stream :: "(string \<Rightarrow> 's \<Rightarrow> (int \<times> 's) outcome) \<Rightarrow> ('s \<Rightarrow> (received \<times> 's) option) \<Rightarrow> stream_event list \<Rightarrow> 's
    \<Rightarrow> (stream_reply list \<times> 's) outcome" where
  "run_stream send recv [] s = Ret ([], s)"
| "run_stream send recv (e # es) s = obind (stream_step send recv e s) (\<lambda>(r, s1).
     obind (run_stream send recv es s1) (\<lambda>(rs, s2). Ret (r # rs, s2)))"

text \<open>The specification: a queue of whole messages.\<close>

fun queue_step :: "stream_event \<Rightarrow> string list \<Rightarrow> stream_reply \<times> string list" where
  "queue_step (Sends_message d) q = (Sent 0, q @ [d])"
| "queue_step Receives_message [] = (Received None, [])"
| "queue_step Receives_message (d # q) = (Received (Some (0, Some (Some d, Some (length d)))), q)"

fun run_queue_spec :: "stream_event list \<Rightarrow> string list \<Rightarrow> stream_reply list" where
  "run_queue_spec [] q = []"
| "run_queue_spec (e # es) q = fst (queue_step e q) # run_queue_spec es (snd (queue_step e q))"

definition sendable :: "string \<Rightarrow> bool" where
  "sendable d \<longleftrightarrow> d \<noteq> [] \<and> length d < 2 ^ 32"

definition event_ok :: "stream_event \<Rightarrow> bool" where
  "event_ok e \<longleftrightarrow> (case e of Sends_message d \<Rightarrow> sendable d | Receives_message \<Rightarrow> True)"

text \<open>What the two sides of a stream rely on.\<close>

locale framed_stream =
  fixes carries :: "string \<Rightarrow> 's \<Rightarrow> bool"
    and send :: "string \<Rightarrow> 's \<Rightarrow> (int \<times> 's) outcome"
    and recv :: "'s \<Rightarrow> (received \<times> 's) option"
  assumes send_appends: "carries bs s \<Longrightarrow> sendable d \<Longrightarrow> \<exists>s1. send d s = Ret (0, s1) \<and> carries (bs @ frame d) s1"
    and recv_takes: "carries (frame d @ bs) s \<Longrightarrow> sendable d \<Longrightarrow>
      \<exists>s1. recv s = Some ((0, Some (Some d, Some (length d))), s1) \<and> carries bs s1"
    and recv_waits: "carries [] s \<Longrightarrow> recv s = None"
begin

lemma step_refines_queue:
  assumes "carries (concat (map frame q)) s" and "list_all sendable q" and "event_ok e"
  shows "\<exists>s1. stream_step send recv e s = Ret (fst (queue_step e q), s1) \<and> carries (concat (map frame (snd (queue_step e q)))) s1
    \<and> list_all sendable (snd (queue_step e q))"
proof (cases e)
  case (Sends_message d)
  with assms(3) have d: "sendable d" by (simp add: event_ok_def)
  from send_appends [OF assms(1) this] Sends_message assms(2) d show ?thesis by auto
next
  case Receives_message
  show ?thesis
  proof (cases q)
    case Nil
    with assms Receives_message show ?thesis by (simp add: recv_waits)
  next
    case (Cons d q1)
    with assms have "carries (frame d @ concat (map frame q1)) s" "sendable d" by simp_all
    from recv_takes [OF this] Cons Receives_message assms(2) show ?thesis by auto
  qed
qed

lemma run_refines_queue:
  "carries (concat (map frame q)) s \<Longrightarrow> list_all sendable q \<Longrightarrow> list_all event_ok es \<Longrightarrow>
   \<exists>s1. run_stream send recv es s = Ret (run_queue_spec es q, s1)"
proof (induction es arbitrary: q s)
  case (Cons e es)
  then have e: "event_ok e" "list_all event_ok es" by simp_all
  obtain s1 where 1: "stream_step send recv e s = Ret (fst (queue_step e q), s1)"
      "carries (concat (map frame (snd (queue_step e q)))) s1" "list_all sendable (snd (queue_step e q))"
    using step_refines_queue [OF Cons.prems(1,2) e(1)] by blast
  from Cons.IH [OF 1(2,3) e(2)] 1(1) show ?case by auto
qed simp

end

text \<open>A writer and a reader of one channel, both of which wait.\<close>

definition linked :: "int \<Rightarrow> int \<Rightarrow> nat \<Rightarrow> string \<Rightarrow> stream_os \<Rightarrow> bool" where
  "linked w r c bs s \<longleftrightarrow> writes_to w c s \<and> 0 \<le> r
     \<and> (\<exists>e. fds s (nat r) = Some (Stream e) \<and> in_chan e = Some c \<and> \<not> nonblock e \<and> \<not> rcv_timeout e)
     \<and> (\<exists>m n. chan_holds c bs (Suc m) (Suc n) s)"

lemma linked_reads: "linked w r c bs s \<Longrightarrow> reads_from r c s"
  by (auto simp: linked_def reads_from_def)

lemma linked_same_fds: "linked w r c bs s \<Longrightarrow> fds s1 = fds s \<Longrightarrow> chan_holds c bs1 (Suc m) (Suc n) s1 \<Longrightarrow> linked w r c bs1 s1"
  by (auto simp: linked_def writes_to_def)

lemma linked_send:
  assumes "linked w r c bs s" and "sendable d"
  shows "\<exists>s1. send_framed w (Some d) (length d) s = Ret (0, s1) \<and> linked w r c (bs @ frame d) s1"
proof -
  obtain m n where "writes_to w c s" "chan_holds c bs (Suc m) (Suc n) s" using assms(1) by (auto simp: linked_def)
  moreover have "d \<noteq> []" using assms(2) by (simp add: sendable_def)
  ultimately show ?thesis using send_framed_calm linked_same_fds [OF assms(1)] by blast
qed

lemma linked_recv:
  assumes "linked w r c (frame d @ bs) s" and "sendable d"
  shows "\<exists>s1. recv_framed r s = Some ((0, Some (Some d, Some (length d))), s1) \<and> linked w r c bs s1"
proof -
  obtain m n where "chan_holds c (header (word_of_nat (length d)) @ (d @ bs)) (Suc m) (Suc n) s"
    using assms(1) by (auto simp: linked_def frame_def)
  moreover have l: "length d mod 2 ^ 32 = length d" using assms(2) by (simp add: sendable_def)
  ultimately obtain s1 where "recv_framed r s = Some ((0, Some (Some d, Some (length d))), s1)"
      "chan_holds c bs (Suc m) (Suc n) s1" "fds s1 = fds s"
    using recv_framed_calm [OF linked_reads [OF assms(1)], of "length d" "d @ bs" "Suc m" "Suc n"] by (auto simp only: l) auto
  with linked_same_fds [OF assms(1)] show ?thesis by blast
qed

lemma linked_waits: "linked w r c [] s \<Longrightarrow> recv_framed r s = None"
  by (auto simp: linked_def recv_framed_def read_some_def chan_holds_def)

lemma linked_socket_recv: "linked w r c bs s \<Longrightarrow> ipc_socket_receive_message r True True 0 s = recv_framed r s"
  by (simp add: ipc_socket_receive_message_def linked_def)

lemma linked_pipe_recv: "linked w r c bs s \<Longrightarrow> ipc_pipe_receive_message r True True 0 s = recv_framed r s"
  by (auto simp: ipc_pipe_receive_message_def linked_def Let_def split: option.split)

interpretation sockets: framed_stream "linked w r c" "\<lambda>d. ipc_socket_send_message w (Some d) (length d)" "ipc_socket_receive_message r True True 0"
  for w r c
  by unfold_locales (simp_all add: linked_socket_recv linked_recv linked_send linked_waits ipc_socket_send_message_def)

interpretation pipes: framed_stream "linked w r c" "\<lambda>d. ipc_pipe_send_message w (Some d) (length d)" "ipc_pipe_receive_message r True True 0"
  for w r c
  by unfold_locales (simp_all add: linked_pipe_recv linked_recv linked_send linked_waits ipc_pipe_send_message_def)

section \<open>Sessions\<close>

lemma socket_session:
  assumes "calm s"
  shows "\<exists>l s1 c s2 a s3 i. ipc_socket_create_server (Some name) m s = (l, s1) \<and> ipc_socket_connect_client (Some name) s1 = (c, s2)
    \<and> ipc_socket_accept_connection l s2 = Some (a, s3) \<and> linked c a i [] s3 \<and> linked a c (Suc i) [] s3"
proof -
  let ?p = "socket_path 108 name" and ?l = "next_fd s" and ?i = "next_chan s"
  have a: "stream_answers s = []" using assms by (simp add: calm_def)
  define s1 where "s1 = s\<lparr>fds := (fds s)(?l \<mapsto> Listening []), next_fd := ?l + 1, ipc_paths := (ipc_paths s)(?p \<mapsto> Sock_file ?l)\<rparr>"
  have e: "s\<lparr>stream_answers := []\<rparr> = s" using a by simp
  have 1: "ipc_socket_create_server (Some name) m s = (int ?l, s1)"
    using a by (simp add: ipc_socket_create_server_def os_socket_def stream_answer_def new_fd_def os_bind_def os_unlink_def put_fd_def s1_def e)
  have a1: "stream_answers s1 = []" "s1\<lparr>stream_answers := []\<rparr> = s1" using a by (simp_all add: s1_def)
  obtain s2 where 2: "ipc_socket_connect_client (Some name) s1 = (int (Suc ?l), s2)" "fds s2 ?l = Some (Listening [(?i, Suc ?i)])"
      "fds s2 (Suc ?l) = Some (Stream \<lparr>in_chan = Some (Suc ?i), out_chan = Some ?i, nonblock = False, rcv_timeout = False\<rparr>)"
      "channels s2 ?i = Some \<lparr>pending = [], writers = 1, readers = 1\<rparr>" "channels s2 (Suc ?i) = Some \<lparr>pending = [], writers = 1, readers = 1\<rparr>"
      "next_fd s2 = Suc (Suc ?l)" "stream_answers s2 = []" "io_answers s2 = io_answers s"
    using a1 a by (simp add: ipc_socket_connect_client_def os_socket_def stream_answer_def new_fd_def os_connect_def put_fd_def s1_def Let_def)
  have 3: "\<exists>s3. ipc_socket_accept_connection (int ?l) s2 = Some (int (Suc (Suc ?l)), s3)
      \<and> linked (int (Suc ?l)) (int (Suc (Suc ?l))) ?i [] s3 \<and> linked (int (Suc (Suc ?l))) (int (Suc ?l)) (Suc ?i) [] s3"
    using 2(2-) assms
    by (simp add: ipc_socket_accept_connection_def stream_answer_def new_fd_def put_fd_def linked_def writes_to_def chan_holds_def calm_def
        del: of_nat_Suc)
  from 1 2(1) 3 show ?thesis by blast
qed


definition demo_streams :: stream_os where
  "demo_streams = \<lparr>fds = Map.empty, channels = Map.empty, ipc_paths = Map.empty, next_fd = 3, next_chan = 0,
     io_answers = [Io_part 4, Io_part 5, Io_all, Io_part 7], stream_answers = []\<rparr>"


lemma pipe_session:
  assumes "calm s"
  shows "\<exists>s1 w s2 r s3 i. ipc_pipe_create_server (Some name) s = (0, s1) \<and> ipc_pipe_connect_client (Some name) s1 = Some (w, s2)
      \<and> ipc_pipe_connect_client (Some name) s2 = Some (r, s3) \<and> linked w r i [] s3"
  using assms by (auto simp: ipc_pipe_create_server_def ipc_pipe_connect_client_def stream_answer_def os_unlink_def os_open_fifo_def
        put_chan_def new_fd_def linked_def writes_to_def chan_holds_def calm_def)

text \<open>The same for two clients of a named pipe.\<close>

theorem pipe_messages_in_order:
  assumes "calm s" and "list_all event_ok es"
  shows "\<exists>s1 w s2 r s3 s4. ipc_pipe_create_server (Some name) s = (0, s1) \<and> ipc_pipe_connect_client (Some name) s1 = Some (w, s2)
    \<and> ipc_pipe_connect_client (Some name) s2 = Some (r, s3)
    \<and> run_stream (\<lambda>d. ipc_pipe_send_message w (Some d) (length d)) (ipc_pipe_receive_message r True True 0) es s3
        = Ret (run_queue_spec es [], s4)"
proof -
  obtain s1 w s2 r s3 i where 1: "ipc_pipe_create_server (Some name) s = (0, s1)" "ipc_pipe_connect_client (Some name) s1 = Some (w, s2)"
      "ipc_pipe_connect_client (Some name) s2 = Some (r, s3)" "linked w r i [] s3"
    using pipe_session [OF assms(1)] by blast
  obtain s4 where "run_stream (\<lambda>d. ipc_pipe_send_message w (Some d) (length d)) (ipc_pipe_receive_message r True True 0) es s3
      = Ret (run_queue_spec es [], s4)"
    using pipes.run_refines_queue [of w r i "[]" s3 es] 1(4) assms(2) by auto
  with 1(1-3) show ?thesis by blast
qed

section \<open>The limits of the protocol\<close>

text \<open>However large a message, the receiver is told its size modulo two to the 32 and gets as many bytes; the rest stays in
  the stream, where the next receiver takes it for a header. Up to that size the message arrives whole.\<close>

theorem size_is_cut_to_32_bits:
  assumes "linked w r c [] s" and "d \<noteq> []"
  shows "\<exists>s1 s2. ipc_socket_send_message w (Some d) (length d) s = Ret (0, s1)
    \<and> ipc_socket_receive_message r True True 0 s1
        = Some ((0, Some (Some (take (length d mod 2 ^ 32) d), Some (length d mod 2 ^ 32))), s2)
    \<and> linked w r c (drop (length d mod 2 ^ 32) d) s2"
proof -
  obtain m n where "writes_to w c s" "chan_holds c [] (Suc m) (Suc n) s" using assms(1) by (auto simp: linked_def)
  then obtain s1 where 1: "send_framed w (Some d) (length d) s = Ret (0, s1)" "chan_holds c (frame d) (Suc m) (Suc n) s1" "fds s1 = fds s"
    using send_framed_calm [OF _ _ assms(2)] by (metis append_Nil)
  then have l: "linked w r c (frame d) s1" using linked_same_fds [OF assms(1)] by blast
  have "length d mod 2 ^ 32 \<le> length d" by simp
  from recv_framed_calm [OF linked_reads [OF l] 1(2) [unfolded frame_def] this] obtain s2 where
    "recv_framed r s1 = Some ((0, Some (Some (take (length d mod 2 ^ 32) d), Some (length d mod 2 ^ 32))), s2)"
    "chan_holds c (drop (length d mod 2 ^ 32) d) (Suc m) (Suc n) s2" "fds s2 = fds s1" by blast
  with 1 linked_same_fds [OF l] show ?thesis
    using linked_socket_recv [OF l] by (auto simp: ipc_socket_send_message_def)
qed

definition demo_pair :: stream_os where
  "demo_pair = demo_streams\<lparr>fds := [4 \<mapsto> Stream \<lparr>in_chan = Some 1, out_chan = Some 0, nonblock = False, rcv_timeout = False\<rparr>,
       5 \<mapsto> Stream \<lparr>in_chan = Some 0, out_chan = Some 1, nonblock = False, rcv_timeout = False\<rparr>],
     channels := [0 \<mapsto> \<lparr>pending = [], writers = 1, readers = 1\<rparr>, 1 \<mapsto> \<lparr>pending = [], writers = 1, readers = 1\<rparr>],
     next_fd := 6, next_chan := 2\<rparr>"

lemma demo_pair_linked: "linked 4 5 0 [] demo_pair"
  by (simp add: linked_def demo_pair_def demo_streams_def writes_to_def chan_holds_def calm_def good_io_def)

theorem size_is_cut_to_32_bits_witness:
  "\<exists>s1 s2. ipc_socket_send_message 4 (Some (replicate (2 ^ 32 + 3) (CHR ''a''))) (2 ^ 32 + 3) demo_pair = Ret (0, s1)
    \<and> ipc_socket_receive_message 5 True True 0 s1 = Some ((0, Some (Some ''aaa'', Some 3)), s2)"
proof -
  let ?d = "replicate (2 ^ 32 + 3) (CHR ''a'')"
  have "take 3 ?d = replicate 3 (CHR ''a'')" by simp
  then have t: "take 3 ?d = ''aaa''" by (simp only: numeral_3_eq_3 replicate_Suc replicate_0)
  have m: "length ?d = 2 ^ 32 + 3" "(2 ^ 32 + 3 :: nat) mod 2 ^ 32 = 3" by simp_all
  have "?d \<noteq> []" by (metis add_is_0 length_replicate list.size(3) zero_neq_numeral)
  from size_is_cut_to_32_bits [OF demo_pair_linked this] show ?thesis unfolding m t by blast
qed

text \<open>A stream that ended before the message did.\<close>

lemma recv_loop_at_end:
  assumes "recv_loop fd want acc s = Some y"
  shows "reads_from fd c s \<Longrightarrow> chan_holds c bs 0 r s \<Longrightarrow> length bs < want \<Longrightarrow> False"
  using assms
proof (induction arbitrary: bs rule: recv_loop.raw_induct [rotated, consumes 1, case_names step])
  case (step recv_loop fd want acc s y)
  show ?case
  proof (cases "bs = []")
    case True
    obtain e where "fds s (nat fd) = Some (Stream e)" "in_chan e = Some c" using "step.prems"(1) by (auto simp: reads_from_def)
    with True "step.prems"(2) have "read_some fd want s = Some (Some [], s)" by (simp add: read_some_def chan_holds_def)
    with "step.hyps" "step.prems"(3) have "recv_loop fd want acc s = Some y" by simp
    from "step.IH" [OF this "step.prems"] show ?thesis .
  next
    case False
    obtain n s1 where n: "read_some fd want s = Some (Some (take n bs), s1)" "n \<le> want" "n \<le> length bs"
        "chan_holds c (drop n bs) 0 r s1" "fds s1 = fds s"
      using read_some_calm [OF "step.prems"(1,2) False, of want] "step.prems"(3) by auto
    have "recv_loop fd (want - n) (acc @ take n bs) s1 = Some y" using n(1,3) "step.hyps" "step.prems"(3) by (simp add: min_absorb2)
    moreover have "reads_from fd c s1" using "step.prems"(1) n(5) by (simp add: reads_from_def)
    moreover have "length (drop n bs) < want - n" using "step.prems"(3) n(3) by simp
    ultimately show ?thesis using "step.IH" n(4) by blast
  qed
qed

text \<open>When the peer has closed the stream after the size and only a part of the bytes of a message, the receiver never
  returns.\<close>

theorem lost_peer_hangs_receiver:
  assumes "reads_from fd c s" and "chan_holds c (header (word_of_nat n) @ bs) 0 r s" and "length bs < n" and "n < 2 ^ 32"
  shows "ipc_socket_receive_message fd True True 0 s = None \<and> ipc_pipe_receive_message fd True True 0 s = None"
proof -
  let ?h = "header (word_of_nat n)"
  have h: "?h @ bs \<noteq> []" using length_header [of "word_of_nat n"] by (metis append_is_Nil_conv list.size(3) zero_neq_numeral)
  obtain k s1 where 1: "read_some fd 4 s = Some (Some (take k (?h @ bs)), s1)" "min 4 (min 4 (length (?h @ bs))) \<le> k" "k \<le> 4"
      "chan_holds c (drop k (?h @ bs)) 0 r s1" "fds s1 = fds s"
    using read_some_calm [OF assms(1,2) h, of 4] by auto
  then have k: "k = 4" by simp
  have s1: "s1\<lparr>stream_answers := []\<rparr> = s1" "stream_answers s1 = []" using 1(4) by (simp_all add: chan_holds_def calm_def)
  have u: "unat (word_of_nat n :: 32 word) = n" using assms(4) by (simp add: unat_of_nat)
  have "reads_from fd c s1" using assms(1) 1(5) by (simp add: reads_from_def)
  then have "recv_loop fd n [] s1 = None"
    using recv_loop_at_end [of fd n "[]" s1 _ c bs r] 1(4) k assms(3) by (cases "recv_loop fd n [] s1") auto
  with 1(1) k u have r: "recv_framed fd s = None" by (simp add: recv_framed_def stream_answer_def Let_def s1)
  have "0 \<le> fd" using assms(1) by (simp add: reads_from_def)
  with r show ?thesis by (simp add: ipc_socket_receive_message_def ipc_pipe_receive_message_def)
qed

definition demo_lost :: stream_os where
  "demo_lost = demo_pair\<lparr>channels := [0 \<mapsto> \<lparr>pending = header (word_of_nat 5) @ ''ab'', writers = 0, readers = 1\<rparr>]\<rparr>"

theorem lost_peer_hangs_receiver_witness:
  "ipc_socket_receive_message 5 True True 0 demo_lost = None \<and> ipc_pipe_receive_message 5 True True 0 demo_lost = None"
  using lost_peer_hangs_receiver [of 5 0 demo_lost 5 "''ab''" 1]
  by (simp add: demo_lost_def demo_pair_def demo_streams_def reads_from_def chan_holds_def calm_def good_io_def)

section \<open>Flags of a pipe\<close>

lemma read_some_fds: "read_some fd want s = Some (d, s1) \<Longrightarrow> fds s1 = fds s"
  by (auto simp: read_some_def next_io_def put_chan_def Let_def split: option.splits fd_entry.splits if_splits prod.splits list.splits)

lemma recv_loop_fds:
  assumes "recv_loop fd want acc s = Some y"
  shows "fds (snd y) = fds s"
  using assms
proof (induction rule: recv_loop.raw_induct [rotated, consumes 1, case_names step])
  case (step recv_loop fd want acc s y)
  show ?case
  proof (cases "\<exists>d s1. want \<noteq> 0 \<and> read_some fd want s = Some (Some d, s1)")
    case True
    then obtain d s1 where d: "want \<noteq> 0" "read_some fd want s = Some (Some d, s1)" by blast
    with "step.hyps" have "recv_loop fd (want - length d) (acc @ d) s1 = Some y" by simp
    from "step.IH" [OF this] read_some_fds [OF d(2)] show ?thesis by simp
  next
    case False
    with "step.hyps" show ?thesis by (auto split: if_splits option.splits prod.splits dest: read_some_fds)
  qed
qed

lemma recv_framed_fds: "recv_framed fd s = Some (x, s1) \<Longrightarrow> fds s1 = fds s"
  by (auto simp: recv_framed_def stream_answer_def Let_def split: option.splits prod.splits if_splits dest!: read_some_fds recv_loop_fds)

text \<open>A receive leaves the blocking mode of the pipe as it was, on every path that returns.\<close>

lemma pipe_flags_restored:
  assumes "ipc_pipe_receive_message fd d z t s = Some (x, s1)"
  shows "get_nonblock fd s1 = get_nonblock fd s"
proof (cases "fd < 0 \<or> \<not> d \<or> \<not> z")
  case True
  with assms show ?thesis by (auto simp: ipc_pipe_receive_message_def)
next
  case False
  with assms obtain s2 where r: "recv_framed fd (if t > 0 then set_nonblock True fd s else s) = Some (x, s2)"
      "s1 = (if t > 0 then set_nonblock (get_nonblock fd s) fd s2 else s2)"
    by (auto simp: ipc_pipe_receive_message_def Let_def split: option.splits)
  then show ?thesis using recv_framed_fds [OF r(1)]
    by (auto simp: get_nonblock_def set_nonblock_def put_fd_def split: if_splits option.splits fd_entry.splits)
qed

end
