(* ===== verification/Ipc_Messages.thy ===== *)
theory Ipc_Messages
  imports Prelude
begin

text \<open>
  Message queues between processes (src/ipc/ipc_msgqueue.c) over the queues of System V, whose documented
  behaviour is part of the model: messages have a positive type, a reader asks for the first message,
  the first of a type, or the first of the lowest type up to a bound, a writer waits while the
  queue has no room. The answers are those of \<open>malloc\<close>, of making a queue and of changing its limit.
\<close>

section \<open>Queues of the system\<close>

record msg_queue =
  q_key :: int
  q_msgs :: "(int \<times> string) list"
  q_bytes :: nat

record msg_os =
  msg_ftok :: "string \<Rightarrow> char \<Rightarrow> int option"
  queues :: "nat \<rightharpoonup> msg_queue"
  next_queue :: nat
  msg_answers :: answers

definition MSGMAX :: nat where "MSGMAX = 8192"

definition MSGMNB :: nat where "MSGMNB = 16384"

definition has_queue_key :: "int \<Rightarrow> msg_os \<Rightarrow> nat \<Rightarrow> bool" where
  "has_queue_key key s i \<longleftrightarrow> (case queues s i of None \<Rightarrow> False | Some q \<Rightarrow> q_key q = key)"

definition msg_answer :: "msg_os \<Rightarrow> bool \<times> msg_os" where
  "msg_answer s = (case next_answer (msg_answers s) of (ok, as) \<Rightarrow> (ok, s\<lparr>msg_answers := as\<rparr>))"

definition msgget :: "int \<Rightarrow> bool \<Rightarrow> msg_os \<Rightarrow> int \<times> msg_os" where
  "msgget key create s = (case find (has_queue_key key s) [0..<next_queue s] of
     Some i \<Rightarrow> (int i, s)
   | None \<Rightarrow>
       if \<not> create then (-1, s)
       else case msg_answer s of (ok, s1) \<Rightarrow>
         if \<not> ok then (-1, s1)
         else (int (next_queue s1), s1\<lparr>queues := (queues s1)(next_queue s1 \<mapsto> \<lparr>q_key = key, q_msgs = [], q_bytes = MSGMNB\<rparr>),
           next_queue := next_queue s1 + 1\<rparr>))"

definition used_bytes :: "(int \<times> string) list \<Rightarrow> nat" where
  "used_bytes ms = sum_list (map (length \<circ> snd) ms)"

text \<open>None is a call that waits.\<close>

definition msgsnd :: "int \<Rightarrow> int \<Rightarrow> string \<Rightarrow> msg_os \<Rightarrow> (int \<times> msg_os) option" where
  "msgsnd i mtype mtext s = (case queues s (nat i) of
     None \<Rightarrow> Some (-1, s)
   | Some q \<Rightarrow>
       if mtype < 1 \<or> MSGMAX < length mtext then Some (-1, s)
       else if q_bytes q < used_bytes (q_msgs q) + length mtext \<or> q_bytes q \<le> length (q_msgs q) then None
       else Some (0, s\<lparr>queues := (queues s)(nat i \<mapsto> q\<lparr>q_msgs := q_msgs q @ [(mtype, mtext)]\<rparr>)\<rparr>))"

definition wanted :: "int \<Rightarrow> (int \<times> string) list \<Rightarrow> int \<times> string \<Rightarrow> bool" where
  "wanted msgtyp ms m \<longleftrightarrow>
     (if msgtyp = 0 then True
      else if 0 < msgtyp then fst m = msgtyp
      else fst m \<le> - msgtyp \<and> (\<forall>x \<in> set ms. fst m \<le> fst x))"

definition msgrcv :: "int \<Rightarrow> nat \<Rightarrow> int \<Rightarrow> bool \<Rightarrow> msg_os \<Rightarrow> (string option \<times> msg_os) option" where
  "msgrcv i msgsz msgtyp nowait s = (case queues s (nat i) of
     None \<Rightarrow> Some (None, s)
   | Some q \<Rightarrow> (case find_idx (wanted msgtyp (q_msgs q)) (q_msgs q) of
       None \<Rightarrow> if nowait then Some (None, s) else None
     | Some k \<Rightarrow> (let m = snd (q_msgs q ! k) in
         if msgsz < length m then Some (None, s)
         else Some (Some m, s\<lparr>queues := (queues s)(nat i \<mapsto> q\<lparr>q_msgs := take k (q_msgs q) @ drop (Suc k) (q_msgs q)\<rparr>)\<rparr>))))"

section \<open>The functions of the file\<close>

definition IPC_MSGQUEUE_MAX_SIZE :: nat where "IPC_MSGQUEUE_MAX_SIZE = 8192"

definition ipc_msgqueue_create_server :: "string option \<Rightarrow> msg_os \<Rightarrow> int \<times> msg_os" where
  "ipc_msgqueue_create_server name s = (case name of
     None \<Rightarrow> (-1, s)
   | Some n \<Rightarrow> (case msg_ftok s n (CHR ''M'') of None \<Rightarrow> (-1, s) | Some key \<Rightarrow> msgget key True s))"

definition ipc_msgqueue_connect_client :: "string option \<Rightarrow> msg_os \<Rightarrow> int \<times> msg_os" where
  "ipc_msgqueue_connect_client name s = (case name of
     None \<Rightarrow> (-1, s)
   | Some n \<Rightarrow> (case msg_ftok s n (CHR ''M'') of None \<Rightarrow> (-1, s) | Some key \<Rightarrow> msgget key False s))"

definition ipc_msgqueue_send_message ::
  "int \<Rightarrow> string option \<Rightarrow> nat \<Rightarrow> int \<Rightarrow> msg_os \<Rightarrow> (int \<times> msg_os) option outcome" where
  "ipc_msgqueue_send_message msgq_id data n msg_type s = (case data of
     None \<Rightarrow> Ret (Some (-1, s))
   | Some bytes \<Rightarrow>
       if msgq_id < 0 \<or> n = 0 \<or> IPC_MSGQUEUE_MAX_SIZE < n then Ret (Some (-1, s))
       else if length bytes < n then Fault Out_of_bounds
       else Ret (case msgsnd msgq_id msg_type (take n bytes) s of
           None \<Rightarrow> None | Some (r, s1) \<Rightarrow> Some (if r = -1 then -1 else 0, s1)))"

text \<open>
  The result has the code and what was written through the pointers: nothing, or a buffer (None for
  NULL) and a size. A positive timeout does not wait at all. The message is gone from the queue when
  there is no memory for its copy.
\<close>

definition ipc_msgqueue_receive_message ::
  "int \<Rightarrow> bool \<Rightarrow> bool \<Rightarrow> int \<Rightarrow> int \<Rightarrow> msg_os \<Rightarrow> ((int \<times> (string option \<times> nat) option) \<times> msg_os) option" where
  "ipc_msgqueue_receive_message msgq_id data_given size_given msg_type timeout_ms s =
     (if msgq_id < 0 \<or> \<not> data_given \<or> \<not> size_given then Some ((-1, None), s)
      else case msgrcv msgq_id IPC_MSGQUEUE_MAX_SIZE msg_type (0 < timeout_ms) s of
        None \<Rightarrow> None
      | Some (None, s1) \<Rightarrow> Some ((-1, None), s1)
      | Some (Some m, s1) \<Rightarrow> (case msg_answer s1 of (ok, s2) \<Rightarrow>
          if ok then Some ((0, Some (Some m, length m)), s2) else Some ((-1, Some (None, length m)), s2)))"

definition ipc_msgqueue_send_typed_message ::
  "int \<Rightarrow> string option \<Rightarrow> nat \<Rightarrow> int \<Rightarrow> msg_os \<Rightarrow> (int \<times> msg_os) option outcome" where
  "ipc_msgqueue_send_typed_message msgq_id data n msg_type s = ipc_msgqueue_send_message msgq_id data n msg_type s"

definition ipc_msgqueue_receive_typed_message ::
  "int \<Rightarrow> bool \<Rightarrow> bool \<Rightarrow> int \<Rightarrow> int \<Rightarrow> msg_os \<Rightarrow> ((int \<times> (string option \<times> nat) option) \<times> msg_os) option" where
  "ipc_msgqueue_receive_typed_message msgq_id data_given size_given msg_type timeout_ms s =
     ipc_msgqueue_receive_message msgq_id data_given size_given msg_type timeout_ms s"

definition ipc_msgqueue_get_message_count :: "int \<Rightarrow> msg_os \<Rightarrow> int" where
  "ipc_msgqueue_get_message_count msgq_id s =
     (if msgq_id < 0 then -1 else case queues s (nat msgq_id) of None \<Rightarrow> -1 | Some q \<Rightarrow> int (length (q_msgs q)))"

definition ipc_msgqueue_get_max_size :: "int \<Rightarrow> msg_os \<Rightarrow> int" where
  "ipc_msgqueue_get_max_size msgq_id s =
     (if msgq_id < 0 then -1 else case queues s (nat msgq_id) of None \<Rightarrow> -1 | Some q \<Rightarrow> int (q_bytes q))"

text \<open>Whether the limit may be raised is decided by the system.\<close>

definition ipc_msgqueue_set_max_size :: "int \<Rightarrow> int \<Rightarrow> msg_os \<Rightarrow> int \<times> msg_os" where
  "ipc_msgqueue_set_max_size msgq_id max_size s =
     (if msgq_id < 0 \<or> max_size \<le> 0 then (-1, s)
      else case queues s (nat msgq_id) of
        None \<Rightarrow> (-1, s)
      | Some q \<Rightarrow> (case msg_answer s of (ok, s1) \<Rightarrow>
          if \<not> ok then (-1, s1) else (0, s1\<lparr>queues := (queues s1)(nat msgq_id \<mapsto> q\<lparr>q_bytes := nat max_size\<rparr>)\<rparr>)))"

definition ipc_msgqueue_cleanup_server :: "string option \<Rightarrow> msg_os \<Rightarrow> msg_os" where
  "ipc_msgqueue_cleanup_server name s = (case name of
     None \<Rightarrow> s
   | Some n \<Rightarrow> (case msg_ftok s n (CHR ''M'') of
       None \<Rightarrow> s
     | Some key \<Rightarrow> (case msgget key False s of (i, s1) \<Rightarrow>
         if i \<noteq> -1 then s1\<lparr>queues := (queues s1)(nat i := None)\<rparr> else s1)))"

section \<open>Messages of a type come out in order\<close>

datatype msg_event = Sends int string | Receives int int

text \<open>The state of the system, what was sent (with code 0) and what was received, each with its type.\<close>

fun msg_step :: "int \<Rightarrow> msg_event \<Rightarrow> msg_os \<times> (int \<times> string) list \<times> (int \<times> string) list
    \<Rightarrow> (msg_os \<times> (int \<times> string) list \<times> (int \<times> string) list) outcome" where
  "msg_step i (Sends t d) (s, sent, got) = obind (ipc_msgqueue_send_message i (Some d) (length d) t s) (\<lambda>x. Ret (case x of
     None \<Rightarrow> (s, sent, got) | Some (r, s1) \<Rightarrow> (s1, if r = 0 then sent @ [(t, d)] else sent, got)))"
| "msg_step i (Receives t timeout) (s, sent, got) = Ret (case ipc_msgqueue_receive_message i True True t timeout s of
     None \<Rightarrow> (s, sent, got)
   | Some ((r, out), s1) \<Rightarrow> (case out of Some (Some d, n) \<Rightarrow> (s1, sent, got @ [(t, d)]) | _ \<Rightarrow> (s1, sent, got)))"

fun run_msgs :: "int \<Rightarrow> msg_event list \<Rightarrow> msg_os \<times> (int \<times> string) list \<times> (int \<times> string) list
    \<Rightarrow> (msg_os \<times> (int \<times> string) list \<times> (int \<times> string) list) outcome" where
  "run_msgs i [] x = Ret x"
| "run_msgs i (e # es) x = obind (msg_step i e x) (run_msgs i es)"

definition of_type :: "int \<Rightarrow> (int \<times> string) list \<Rightarrow> string list" where
  "of_type t ms = map snd (filter (\<lambda>m. fst m = t) ms)"

lemma of_type_append [simp]: "of_type t (xs @ ys) = of_type t xs @ of_type t ys"
  by (simp add: of_type_def)

lemma of_type_simps [simp]: "of_type t [] = []" "of_type t (m # ms) = (if fst m = t then [snd m] else []) @ of_type t ms"
  by (simp_all add: of_type_def)

definition msgs_inv :: "int \<Rightarrow> msg_os \<times> (int \<times> string) list \<times> (int \<times> string) list \<Rightarrow> bool" where
  "msgs_inv i = (\<lambda>(s, sent, got). msg_answers s = [] \<and> 0 \<le> i \<and> (\<exists>q. queues s (nat i) = Some q
     \<and> used_bytes (q_msgs q) \<le> q_bytes q \<and> length (q_msgs q) \<le> q_bytes q
     \<and> (\<forall>t. of_type t got @ of_type t (q_msgs q) = of_type t sent)))"

text \<open>Taking out the first message of a type.\<close>

lemma take_first_of_type:
  assumes "find_idx (wanted t ms) ms = Some k" and "0 < t"
  shows "of_type t ms = snd (ms ! k) # of_type t (take k ms @ drop (Suc k) ms)"
    "u \<noteq> t \<Longrightarrow> of_type u (take k ms @ drop (Suc k) ms) = of_type u ms"
proof -
  have k: "k < length ms" "fst (ms ! k) = t" "\<forall>j < k. fst (ms ! j) \<noteq> t"
    using find_idx_SomeD [OF assms(1)] assms(2) by (auto simp: wanted_def)
  have e: "ms = take k ms @ ms ! k # drop (Suc k) ms" using k(1) by (simp add: id_take_nth_drop)
  have "\<forall>m \<in> set (take k ms). fst m \<noteq> t" using k(3) by (metis in_set_conv_nth length_take min_less_iff_conj nth_take)
  then have n: "of_type t (take k ms) = []" by (auto simp: of_type_def filter_empty_conv)
  have a: "of_type v ms = of_type v (take k ms) @ (if fst (ms ! k) = v then [snd (ms ! k)] else []) @ of_type v (drop (Suc k) ms)" for v
    by (subst e) (simp only: of_type_append of_type_simps append_assoc)
  show "of_type t ms = snd (ms ! k) # of_type t (take k ms @ drop (Suc k) ms)" unfolding of_type_append a [of t] by (simp add: k(2) n)
  show "u \<noteq> t \<Longrightarrow> of_type u (take k ms @ drop (Suc k) ms) = of_type u ms" unfolding of_type_append a [of u] by (simp add: k(2))
qed

lemma used_bytes_remove: "used_bytes (take k ms @ drop (Suc k) ms) \<le> used_bytes ms"
proof (cases "k < length ms")
  case True
  then have "ms = take k ms @ ms ! k # drop (Suc k) ms" by (simp add: id_take_nth_drop)
  then have "used_bytes ms = used_bytes (take k ms @ ms ! k # drop (Suc k) ms)" by simp
  then show ?thesis by (simp add: used_bytes_def)
qed simp

lemma send_keeps:
  assumes "msgs_inv i (s, sent, got)"
  shows "\<exists>y. msg_step i (Sends t d) (s, sent, got) = Ret y \<and> msgs_inv i y"
proof (cases "d = [] \<or> IPC_MSGQUEUE_MAX_SIZE < length d")
  case True
  with assms show ?thesis by (auto simp: ipc_msgqueue_send_message_def)
next
  case False
  with assms show ?thesis
    by (auto simp: ipc_msgqueue_send_message_def msgsnd_def msgs_inv_def used_bytes_def split: option.splits)
qed

lemma receive_keeps:
  assumes "msgs_inv i (s, sent, got)" and "0 < t"
  shows "\<exists>y. msg_step i (Receives t timeout) (s, sent, got) = Ret y \<and> msgs_inv i y"
proof -
  obtain q where q: "msg_answers s = []" "0 \<le> i" "queues s (nat i) = Some q" "used_bytes (q_msgs q) \<le> q_bytes q"
      "length (q_msgs q) \<le> q_bytes q" "\<And>u. of_type u got @ of_type u (q_msgs q) = of_type u sent"
    using assms(1) by (auto simp: msgs_inv_def)
  show ?thesis
  proof (cases "find_idx (wanted t (q_msgs q)) (q_msgs q)")
    case None
    with q assms(1) show ?thesis by (auto simp: ipc_msgqueue_receive_message_def msgrcv_def)
  next
    case (Some k)
    let ?m = "snd (q_msgs q ! k)" and ?ms = "take k (q_msgs q) @ drop (Suc k) (q_msgs q)"
    show ?thesis
    proof (cases "IPC_MSGQUEUE_MAX_SIZE < length ?m")
      case True
      with Some q assms(1) show ?thesis by (auto simp: ipc_msgqueue_receive_message_def msgrcv_def Let_def)
    next
      case False
      let ?s = "s\<lparr>queues := (queues s)(nat i \<mapsto> q\<lparr>q_msgs := ?ms\<rparr>)\<rparr>"
      have s: "?s\<lparr>msg_answers := []\<rparr> = ?s" using q(1) by simp
      have "msg_step i (Receives t timeout) (s, sent, got) = Ret (?s, sent, got @ [(t, ?m)])"
        using Some False q by (simp add: ipc_msgqueue_receive_message_def msgrcv_def Let_def msg_answer_def s)
      moreover have "of_type u (got @ [(t, ?m)]) @ of_type u ?ms = of_type u sent" for u
        using take_first_of_type(1) [OF Some assms(2)] take_first_of_type(2) [OF Some assms(2), of u] q(6) [of u]
        by (cases "u = t") auto
      moreover have "length ?ms \<le> q_bytes q" using q(5) by simp
      moreover have "used_bytes ?ms \<le> q_bytes q" using used_bytes_remove [of k "q_msgs q"] q(4) by linarith
      ultimately show ?thesis using q(1,2) by (simp add: msgs_inv_def)
    qed
  qed
qed

text \<open>Every receiver asks for a type.\<close>

definition typed :: "msg_event \<Rightarrow> bool" where
  "typed e \<longleftrightarrow> (case e of Sends t d \<Rightarrow> True | Receives t timeout \<Rightarrow> 0 < t)"

lemma run_msgs_inv: "msgs_inv i x \<Longrightarrow> list_all typed es \<Longrightarrow> \<exists>y. run_msgs i es x = Ret y \<and> msgs_inv i y"
proof (induction es arbitrary: x)
  case (Cons e es)
  obtain s sent got where x: "x = (s, sent, got)" by (cases x)
  have "\<exists>y. msg_step i e x = Ret y \<and> msgs_inv i y"
    using Cons.prems send_keeps receive_keeps unfolding x by (cases e) (auto simp: typed_def)
  with Cons show ?case by auto
qed simp


definition demo_msgs :: msg_os where
  "demo_msgs = \<lparr>msg_ftok = (\<lambda>n c. Some 7), queues = [0 \<mapsto> \<lparr>q_key = 7, q_msgs = [], q_bytes = 16\<rparr>], next_queue = 1, msg_answers = []\<rparr>"


text \<open>A message whose copy cannot be allocated is lost.\<close>

lemma no_memory_loses_message:
  assumes "queues s (nat i) = Some q" and "0 \<le> i" and "q_msgs q = [(t, d)]" and "0 < t" and "length d \<le> 8192" and "msg_answers s = False # as"
  shows "\<exists>s1. ipc_msgqueue_receive_message i True True t timeout s = Some ((-1, Some (None, length d)), s1)
    \<and> ipc_msgqueue_get_message_count i s1 = 0"
  using assms
  by (simp add: ipc_msgqueue_receive_message_def msgrcv_def wanted_def Let_def IPC_MSGQUEUE_MAX_SIZE_def msg_answer_def
      ipc_msgqueue_get_message_count_def)

text \<open>A queue is found again by its name until it is cleaned up.\<close>

lemma connect_after_create:
  assumes "ipc_msgqueue_create_server name s = (i, s1)" and "i \<noteq> -1"
  shows "ipc_msgqueue_connect_client name s1 = (i, s1)"
proof -
  obtain n key where 1: "name = Some n" "msg_ftok s n (CHR ''M'') = Some key" "msgget key True s = (i, s1)"
    using assms by (auto simp: ipc_msgqueue_create_server_def split: option.splits)
  show ?thesis
  proof (cases "find (has_queue_key key s) [0..<next_queue s]")
    case None
    then have s1: "s1 = s\<lparr>msg_answers := snd (next_answer (msg_answers s)), queues := (queues s)(next_queue s \<mapsto>
        \<lparr>q_key = key, q_msgs = [], q_bytes = MSGMNB\<rparr>), next_queue := next_queue s + 1\<rparr>" "i = int (next_queue s)"
      using 1(3) assms(2) by (auto simp: msgget_def msg_answer_def split: prod.splits if_splits)
    have "find (has_queue_key key s1) [0..<next_queue s] = None"
      using None by (auto simp: find_None_iff s1(1) has_queue_key_def)
    then have "find (has_queue_key key s1) ([0..<next_queue s] @ [next_queue s]) = Some (next_queue s)"
      by (rule find_snoc) (simp add: s1(1) has_queue_key_def)
    then show ?thesis using 1(1,2) s1 by (simp add: ipc_msgqueue_connect_client_def msgget_def)
  next
    case (Some j)
    then show ?thesis using 1 by (auto simp: msgget_def ipc_msgqueue_connect_client_def)
  qed
qed

end
