(* ===== verification/Ipc_Shared_Memory.thy ===== *)
theory Ipc_Shared_Memory
  imports C_Strings
begin

text \<open>
  Shared memory between processes (src/ipc/ipc_shmem.c): System V segments and mapped files. The memory
  objects of the system are byte strings with a number; segments have a key (None once they are marked for
  removal), files have a path. An address is a view of an object: its number, the first offset that is
  still mapped and the size of the view. The answers are those of \<open>malloc\<close>, \<open>shmget\<close>, \<open>shmat\<close>, \<open>open\<close>, \<open>ftruncate\<close>
  and \<open>mmap\<close>. A segment is taken to end at its size and not at the end of its last page.
\<close>

section \<open>Memory objects of the system\<close>

record view =
  v_object :: nat
  v_from :: nat
  v_size :: nat

record shm_os =
  shm_ftok :: "string \<Rightarrow> char \<Rightarrow> int option"
  contents :: "nat \<rightharpoonup> string"
  seg_key :: "nat \<rightharpoonup> int option"
  shm_paths :: "string \<rightharpoonup> nat"
  views :: "nat \<rightharpoonup> view"
  next_object :: nat
  next_address :: nat
  shm_answers :: answers

definition shm_answer :: "shm_os \<Rightarrow> bool \<times> shm_os" where
  "shm_answer s = (case next_answer (shm_answers s) of (ok, as) \<Rightarrow> (ok, s\<lparr>shm_answers := as\<rparr>))"

definition zeros :: "nat \<Rightarrow> string" where
  "zeros n = replicate n (CHR 0x00)"

definition new_object :: "string \<Rightarrow> shm_os \<Rightarrow> nat \<times> shm_os" where
  "new_object bytes s = (next_object s, s\<lparr>contents := (contents s)(next_object s \<mapsto> bytes), next_object := next_object s + 1\<rparr>)"

definition new_view :: "nat \<Rightarrow> nat \<Rightarrow> shm_os \<Rightarrow> nat \<times> shm_os" where
  "new_view obj n s = (next_address s,
     s\<lparr>views := (views s)(next_address s \<mapsto> \<lparr>v_object = obj, v_from = 0, v_size = n\<rparr>), next_address := next_address s + 1\<rparr>)"

definition shmget :: "int \<Rightarrow> nat \<Rightarrow> bool \<Rightarrow> shm_os \<Rightarrow> int \<times> shm_os" where
  "shmget key n create s = (case find (\<lambda>i. seg_key s i = Some (Some key)) [0..<next_object s] of
     Some i \<Rightarrow> (if length (the (contents s i)) < n then (-1, s) else (int i, s))
   | None \<Rightarrow>
       if \<not> create \<or> n = 0 then (-1, s)
       else case shm_answer s of (ok, s1) \<Rightarrow>
         if \<not> ok then (-1, s1)
         else case new_object (zeros n) s1 of (i, s2) \<Rightarrow> (int i, s2\<lparr>seg_key := (seg_key s2)(i \<mapsto> Some key)\<rparr>))"

definition shmat :: "int \<Rightarrow> shm_os \<Rightarrow> nat option \<times> shm_os" where
  "shmat i s = (case (seg_key s (nat i), contents s (nat i)) of
     (Some k, Some bytes) \<Rightarrow> (case shm_answer s of (ok, s1) \<Rightarrow>
       if \<not> ok then (None, s1) else case new_view (nat i) (length bytes) s1 of (p, s2) \<Rightarrow> (Some p, s2))
   | _ \<Rightarrow> (None, s))"

definition has_view :: "nat \<Rightarrow> shm_os \<Rightarrow> bool" where
  "has_view i s \<longleftrightarrow> list_ex (\<lambda>p. case views s p of None \<Rightarrow> False | Some v \<Rightarrow> v_object v = i) [0..<next_address s]"

definition drop_segment :: "nat \<Rightarrow> shm_os \<Rightarrow> shm_os" where
  "drop_segment i s = s\<lparr>contents := (contents s)(i := None), seg_key := (seg_key s)(i := None)\<rparr>"

text \<open>A segment that is marked for removal goes with its last view.\<close>

definition shmdt :: "nat \<Rightarrow> shm_os \<Rightarrow> int \<times> shm_os" where
  "shmdt p s = (case views s p of
     None \<Rightarrow> (-1, s)
   | Some v \<Rightarrow>
       if seg_key s (v_object v) = None then (-1, s)
       else let s1 = s\<lparr>views := (views s)(p := None)\<rparr> in
         (0, if seg_key s1 (v_object v) = Some None \<and> \<not> has_view (v_object v) s1 then drop_segment (v_object v) s1 else s1))"

definition shmctl_rmid :: "int \<Rightarrow> shm_os \<Rightarrow> shm_os" where
  "shmctl_rmid i s = (if has_view (nat i) s then s\<lparr>seg_key := (seg_key s)(nat i \<mapsto> None)\<rparr> else drop_segment (nat i) s)"

section \<open>The functions of the file\<close>

definition ipc_shmem_create_server :: "string option \<Rightarrow> nat \<Rightarrow> shm_os \<Rightarrow> int \<times> shm_os" where
  "ipc_shmem_create_server name n s = (case name of
     None \<Rightarrow> (-1, s)
   | Some nm \<Rightarrow>
       if n = 0 then (-1, s)
       else (case shm_ftok s nm (CHR ''I'') of None \<Rightarrow> (-1, s) | Some key \<Rightarrow> shmget key n True s))"

text \<open>The second component is what is written to the caller's size.\<close>

definition ipc_shmem_connect_client :: "string option \<Rightarrow> bool \<Rightarrow> shm_os \<Rightarrow> int \<times> nat option \<times> shm_os" where
  "ipc_shmem_connect_client name size_given s = (case name of
     None \<Rightarrow> (-1, None, s)
   | Some nm \<Rightarrow>
       if \<not> size_given then (-1, None, s)
       else (case shm_ftok s nm (CHR ''I'') of
           None \<Rightarrow> (-1, None, s)
         | Some key \<Rightarrow> (case shmget key 0 False s of (i, s1) \<Rightarrow>
             if i = -1 then (-1, None, s1)
             else (case contents s1 (nat i) of None \<Rightarrow> (-1, None, s1) | Some bytes \<Rightarrow> (i, Some (length bytes), s1)))))"

definition ipc_shmem_attach :: "int \<Rightarrow> shm_os \<Rightarrow> nat option \<times> shm_os" where
  "ipc_shmem_attach shm_id s = (if shm_id < 0 then (None, s) else shmat shm_id s)"

definition ipc_shmem_detach :: "nat option \<Rightarrow> shm_os \<Rightarrow> int \<times> shm_os" where
  "ipc_shmem_detach ptr s = (case ptr of None \<Rightarrow> (-1, s) | Some p \<Rightarrow> shmdt p s)"

text \<open>The bytes behind an address: an access needs a live view and has to stay inside the view and the object.\<close>

definition reachable_bytes :: "nat \<Rightarrow> nat \<Rightarrow> nat \<Rightarrow> shm_os \<Rightarrow> (nat \<times> string) outcome" where
  "reachable_bytes p offset n s = (case views s p of
     None \<Rightarrow> Fault Use_after_free
   | Some v \<Rightarrow> (case contents s (v_object v) of
       None \<Rightarrow> Fault Use_after_free
     | Some bytes \<Rightarrow>
         if v_from v \<le> offset \<and> offset + n \<le> v_size v \<and> offset + n \<le> length bytes then Ret (v_object v, bytes)
         else Fault Out_of_bounds))"

definition write_at :: "nat \<Rightarrow> string \<Rightarrow> string \<Rightarrow> string" where
  "write_at offset d bytes = take offset bytes @ d @ drop (offset + length d) bytes"

definition ipc_shmem_send_message ::
  "nat option \<Rightarrow> string option \<Rightarrow> nat \<Rightarrow> nat \<Rightarrow> shm_os \<Rightarrow> (int \<times> shm_os) outcome" where
  "ipc_shmem_send_message ptr data n offset s = (case (ptr, data) of
     (Some p, Some d) \<Rightarrow>
       if n = 0 then Ret (-1, s)
       else if length d < n then Fault Out_of_bounds
       else obind (reachable_bytes p offset n s) (\<lambda>(i, bytes).
         Ret (0, s\<lparr>contents := (contents s)(i \<mapsto> write_at offset (take n d) bytes)\<rparr>))
   | _ \<Rightarrow> Ret (-1, s))"

text \<open>The second component is what is written to the caller's pointer: nothing, NULL, or a new buffer.\<close>

definition ipc_shmem_receive_message ::
  "nat option \<Rightarrow> bool \<Rightarrow> nat \<Rightarrow> nat \<Rightarrow> shm_os \<Rightarrow> (int \<times> string option option \<times> shm_os) outcome" where
  "ipc_shmem_receive_message ptr data_given n offset s = (case ptr of
     None \<Rightarrow> Ret (-1, None, s)
   | Some p \<Rightarrow>
       if \<not> data_given \<or> n = 0 then Ret (-1, None, s)
       else case shm_answer s of (ok, s1) \<Rightarrow>
         if \<not> ok then Ret (-1, Some None, s1)
         else obind (reachable_bytes p offset n s1) (\<lambda>(i, bytes). Ret (0, Some (Some (take n (drop offset bytes))), s1)))"

definition shm_path :: "string \<Rightarrow> string" where
  "shm_path name = snprintf_text 256 (''/tmp/ipc_shm_'' @ name)"

definition resized :: "nat \<Rightarrow> string \<Rightarrow> string" where
  "resized n bytes = take n bytes @ zeros (n - length bytes)"

definition ipc_shmem_create_file_mapping :: "string option \<Rightarrow> nat \<Rightarrow> shm_os \<Rightarrow> int \<times> shm_os" where
  "ipc_shmem_create_file_mapping name n s = (case name of
     None \<Rightarrow> (-1, s)
   | Some nm \<Rightarrow>
       if n = 0 then (-1, s)
       else case shm_answer s of (ok, s1) \<Rightarrow>
         if \<not> ok then (-1, s1)
         else case (case shm_paths s1 (shm_path nm) of
             Some i \<Rightarrow> (i, s1)
           | None \<Rightarrow> (case new_object [] s1 of (i, s2) \<Rightarrow> (i, s2\<lparr>shm_paths := (shm_paths s2)(shm_path nm \<mapsto> i)\<rparr>))) of (i, s3) \<Rightarrow>
           case shm_answer s3 of (ok2, s4) \<Rightarrow>
             if \<not> ok2 then (-1, s4)
             else (0, s4\<lparr>contents := (contents s4)(i \<mapsto> resized n (the (contents s4 i)))\<rparr>))"

text \<open>The result: the address and whether the caller's descriptor is open.\<close>

definition ipc_shmem_map_file :: "string option \<Rightarrow> nat \<Rightarrow> bool \<Rightarrow> shm_os \<Rightarrow> nat option \<times> bool \<times> shm_os" where
  "ipc_shmem_map_file name n fd_given s = (case name of
     None \<Rightarrow> (None, False, s)
   | Some nm \<Rightarrow>
       if n = 0 \<or> \<not> fd_given then (None, False, s)
       else case shm_answer s of (ok, s1) \<Rightarrow>
         (case shm_paths s1 (shm_path nm) of
            None \<Rightarrow> (None, False, s1)
          | Some i \<Rightarrow>
              if \<not> ok then (None, False, s1)
              else case shm_answer s1 of (ok2, s2) \<Rightarrow>
                if \<not> ok2 then (None, False, s2) else case new_view i n s2 of (p, s3) \<Rightarrow> (Some p, True, s3)))"

definition PAGE_SIZE :: nat where "PAGE_SIZE = 4096"

definition page_up :: "nat \<Rightarrow> nat" where
  "page_up n = (n + PAGE_SIZE - 1) div PAGE_SIZE * PAGE_SIZE"

text \<open>\<open>munmap\<close> takes away whole pages from the start of the view; it is no error when nothing is mapped there.\<close>

definition ipc_shmem_unmap_file :: "nat option \<Rightarrow> nat \<Rightarrow> shm_os \<Rightarrow> int \<times> shm_os" where
  "ipc_shmem_unmap_file ptr n s = (case ptr of
     None \<Rightarrow> (-1, s)
   | Some p \<Rightarrow>
       if n = 0 then (-1, s)
       else (case views s p of
           None \<Rightarrow> (0, s)
         | Some v \<Rightarrow>
             if v_size v \<le> page_up n then (0, s\<lparr>views := (views s)(p := None)\<rparr>)
             else (0, s\<lparr>views := (views s)(p \<mapsto> v\<lparr>v_from := max (v_from v) (page_up n)\<rparr>)\<rparr>)))"

definition ipc_shmem_cleanup_server :: "string option \<Rightarrow> shm_os \<Rightarrow> shm_os" where
  "ipc_shmem_cleanup_server name s = (case name of
     None \<Rightarrow> s
   | Some nm \<Rightarrow>
       let s1 = s\<lparr>shm_paths := (shm_paths s)(shm_path nm := None)\<rparr> in
       (case shm_ftok s1 nm (CHR ''I'') of
          None \<Rightarrow> s1
        | Some key \<Rightarrow> (case shmget key 0 False s1 of (i, s2) \<Rightarrow> if i \<noteq> -1 then shmctl_rmid i s2 else s2)))"

section \<open>A segment is one array for all its views\<close>

text \<open>The addresses at which an object of a size is seen as a whole.\<close>

definition views_of :: "nat \<Rightarrow> nat \<Rightarrow> nat \<Rightarrow> shm_os \<Rightarrow> bool" where
  "views_of i n p s \<longleftrightarrow> views s p = Some \<lparr>v_object = i, v_from = 0, v_size = n\<rparr>"

fun run_writes :: "(nat \<times> nat \<times> string) list \<Rightarrow> shm_os \<Rightarrow> (int list \<times> shm_os) outcome" where
  "run_writes [] s = Ret ([], s)"
| "run_writes ((p, offset, d) # ws) s = obind (ipc_shmem_send_message (Some p) (Some d) (length d) offset s) (\<lambda>(r, s1).
     obind (run_writes ws s1) (\<lambda>(rs, s2). Ret (r # rs, s2)))"

definition writes_fit :: "nat \<Rightarrow> nat \<Rightarrow> shm_os \<Rightarrow> nat \<times> nat \<times> string \<Rightarrow> bool" where
  "writes_fit i n s = (\<lambda>(p, offset, d). views_of i n p s \<and> d \<noteq> [] \<and> offset + length d \<le> n)"

lemma length_write_at [simp]: "offset + length d \<le> length bytes \<Longrightarrow> length (write_at offset d bytes) = length bytes"
  by (simp add: write_at_def)

lemma slice_write_same: "offset + length d \<le> length bytes \<Longrightarrow> take (length d) (drop offset (write_at offset d bytes)) = d"
  by (simp add: write_at_def)

lemma slice_write_other:
  assumes "o2 + m \<le> offset \<or> offset + length d \<le> o2" and "offset + length d \<le> length bytes"
  shows "take m (drop o2 (write_at offset d bytes)) = take m (drop o2 bytes)"
proof (rule nth_equalityI)
  show "length (take m (drop o2 (write_at offset d bytes))) = length (take m (drop o2 bytes))" using assms(2) by simp
next
  fix j assume "j < length (take m (drop o2 (write_at offset d bytes)))"
  with assms show "take m (drop o2 (write_at offset d bytes)) ! j = take m (drop o2 bytes) ! j"
    by (auto simp: write_at_def nth_append)
qed

lemma run_writes_array:
  assumes "contents s i = Some bytes" and "length bytes = n" and "list_all (writes_fit i n s) ws"
  shows "\<exists>s1. run_writes ws s = Ret (replicate (length ws) 0, s1) \<and> contents s1 i = Some (fold (\<lambda>(p, offset, d). write_at offset d) ws bytes)
    \<and> views s1 = views s \<and> shm_answers s1 = shm_answers s \<and> length (fold (\<lambda>(p, offset, d). write_at offset d) ws bytes) = n"
  using assms
proof (induction ws arbitrary: s bytes)
  case Nil
  then show ?case by simp
next
  case (Cons w ws)
  obtain p offset d where w: "w = (p, offset, d)" by (cases w)
  have f: "views s p = Some \<lparr>v_object = i, v_from = 0, v_size = n\<rparr>" "d \<noteq> []" "offset + length d \<le> n"
    using Cons.prems(3) by (simp_all add: w writes_fit_def views_of_def)
  let ?s = "s\<lparr>contents := (contents s)(i \<mapsto> write_at offset d bytes)\<rparr>"
  have "ipc_shmem_send_message (Some p) (Some d) (length d) offset s = Ret (0, ?s)"
    using f Cons.prems(1,2) by (simp add: ipc_shmem_send_message_def reachable_bytes_def)
  moreover have "list_all (writes_fit i n ?s) ws"
    using Cons.prems(3) by (auto simp: list_all_iff writes_fit_def views_of_def)
  then have "\<exists>s1. run_writes ws ?s = Ret (replicate (length ws) 0, s1)
      \<and> contents s1 i = Some (fold (\<lambda>(p, offset, d). write_at offset d) ws (write_at offset d bytes))
      \<and> views s1 = views ?s \<and> shm_answers s1 = shm_answers ?s
      \<and> length (fold (\<lambda>(p, offset, d). write_at offset d) ws (write_at offset d bytes)) = n"
    using Cons.IH [of ?s "write_at offset d bytes"] Cons.prems(2) f by simp
  ultimately show ?case by (auto simp: w)
qed


text \<open>How two processes come to share a segment: one creates it, the other finds it by its name, and each attaches it.\<close>

lemma shmget_then_found:
  assumes "shmget key n True s = (i, s1)" and "i \<noteq> -1" and "\<forall>j. seg_key s j = Some (Some key) \<longrightarrow> contents s j \<noteq> None"
  shows "\<exists>bytes. shmget key 0 False s1 = (i, s1) \<and> 0 \<le> i \<and> contents s1 (nat i) = Some bytes \<and> n \<le> length bytes
    \<and> seg_key s1 (nat i) = Some (Some key)"
proof (cases "find (\<lambda>i. seg_key s i = Some (Some key)) [0..<next_object s]")
  case None
  let ?j = "next_object s"
  have e: "s1 = s\<lparr>shm_answers := snd (next_answer (shm_answers s)), contents := (contents s)(?j \<mapsto> zeros n), next_object := ?j + 1,
      seg_key := (seg_key s)(?j \<mapsto> Some key)\<rparr>" "i = int ?j"
    using None assms(1,2) by (auto simp: shmget_def shm_answer_def new_object_def split: prod.splits if_splits)
  have "find (\<lambda>i. seg_key s1 i = Some (Some key)) [0..<?j] = None" using None by (auto simp: find_None_iff e(1))
  then have "find (\<lambda>i. seg_key s1 i = Some (Some key)) ([0..<?j] @ [?j]) = Some ?j" by (rule find_snoc) (simp add: e(1))
  then show ?thesis by (simp add: shmget_def e zeros_def)
next
  case (Some j)
  moreover then have "seg_key s j = Some (Some key)" by (auto simp: find_Some_iff)
  moreover then obtain bytes where "contents s j = Some bytes" using assms(3) by blast
  ultimately show ?thesis using assms(1,2) by (auto simp: shmget_def split: if_splits)
qed

theorem two_processes_share:
  assumes "ipc_shmem_create_server name n s = (i, s1)" and "i \<noteq> -1" and "\<forall>j. seg_key s j \<noteq> None \<longrightarrow> contents s j \<noteq> None"
    and "ipc_shmem_attach i s1 = (Some p, s2)" and "ipc_shmem_attach i s2 = (Some q, s3)"
  shows "\<exists>l bytes. ipc_shmem_connect_client name True s1 = (i, Some l, s1) \<and> n \<le> l \<and> p \<noteq> q
    \<and> contents s3 (nat i) = Some bytes \<and> length bytes = l \<and> views_of (nat i) l p s3 \<and> views_of (nat i) l q s3"
proof -
  obtain nm key where 1: "name = Some nm" "shm_ftok s nm (CHR ''I'') = Some key" "shmget key n True s = (i, s1)"
    using assms(1,2) by (auto simp: ipc_shmem_create_server_def split: option.splits if_splits)
  obtain bytes where 2: "shmget key 0 False s1 = (i, s1)" "0 \<le> i" "contents s1 (nat i) = Some bytes" "n \<le> length bytes"
      "seg_key s1 (nat i) = Some (Some key)"
    using shmget_then_found [OF 1(3) assms(2)] assms(3) by fastforce
  have "shm_ftok s1 = shm_ftok s"
    using 1(3) by (auto simp: shmget_def shm_answer_def new_object_def split: option.splits prod.splits if_splits)
  then have c: "ipc_shmem_connect_client name True s1 = (i, Some (length bytes), s1)"
    using 1 2 assms(2) by (simp add: ipc_shmem_connect_client_def)
  have a2: "p = next_address s1" "views s2 = (views s1)(p \<mapsto> \<lparr>v_object = nat i, v_from = 0, v_size = length bytes\<rparr>)"
      "contents s2 = contents s1" "seg_key s2 = seg_key s1" "next_address s2 = next_address s1 + 1"
    using assms(4) 2 by (auto simp: ipc_shmem_attach_def shmat_def shm_answer_def new_view_def split: prod.splits if_splits)
  have a3: "q = next_address s2" "views s3 = (views s2)(q \<mapsto> \<lparr>v_object = nat i, v_from = 0, v_size = length bytes\<rparr>)"
      "contents s3 = contents s2"
    using assms(5) 2 a2 by (auto simp: ipc_shmem_attach_def shmat_def shm_answer_def new_view_def split: prod.splits if_splits)
  from c 2 a2 a3 show ?thesis by (auto simp: views_of_def)
qed

text \<open>Nothing checks that a message fits into the segment.\<close>

lemma long_message_overruns:
  assumes "contents s i = Some bytes" and "views_of i (length bytes) p s" and "length bytes < offset + length d" and "d \<noteq> []"
  shows "ipc_shmem_send_message (Some p) (Some d) (length d) offset s = Fault Out_of_bounds"
  using assms by (simp add: ipc_shmem_send_message_def reachable_bytes_def views_of_def)

definition demo_shm :: shm_os where
  "demo_shm = \<lparr>shm_ftok = (\<lambda>n c. Some 7), contents = [0 \<mapsto> ''........''], seg_key = [0 \<mapsto> Some 7], shm_paths = Map.empty,
     views = [0 \<mapsto> \<lparr>v_object = 0, v_from = 0, v_size = 8\<rparr>, 1 \<mapsto> \<lparr>v_object = 0, v_from = 0, v_size = 8\<rparr>], next_object = 1,
     next_address = 2, shm_answers = []\<rparr>"


end
