(* ===== verification/Ipc_Semaphores.thy ===== *)
theory Ipc_Semaphores
  imports Prelude
begin

text \<open>
  Semaphores and mutexes between processes (src/ipc/ipc_semaphore.c and src/ipc/ipc_mutex.c). Both are thin
  layers over the semaphore sets of System V, whose documented behaviour is part of the model: a set
  is found by its key, an operation that would make a value negative waits (or fails at once when it
  was told not to wait), and values are bounded. \<open>ftok\<close> depends on the file system and is a field of
  the system's state; whether a new set can be made is an answer.
\<close>

section \<open>Semaphore sets of the system\<close>

record sem_set =
  sem_key :: int
  sem_values :: "int list"
  sem_otime :: int

record sem_os =
  ftok_key :: "string \<Rightarrow> char \<Rightarrow> int option"
  sem_sets :: "nat \<rightharpoonup> sem_set"
  next_sem :: nat
  os_time :: int
  sem_answers :: answers

definition SEMVMX :: int where "SEMVMX = 32767"

definition SEMOPM :: nat where "SEMOPM = 500"

definition has_sem_key :: "int \<Rightarrow> sem_os \<Rightarrow> nat \<Rightarrow> bool" where
  "has_sem_key key s i \<longleftrightarrow> (case sem_sets s i of None \<Rightarrow> False | Some x \<Rightarrow> sem_key x = key)"

definition sem_find :: "int \<Rightarrow> sem_os \<Rightarrow> nat option" where
  "sem_find key s = find (has_sem_key key s) [0..<next_sem s]"

text \<open>A new set starts with zeros.\<close>

definition semget :: "int \<Rightarrow> int \<Rightarrow> bool \<Rightarrow> sem_os \<Rightarrow> int \<times> sem_os" where
  "semget key nsems create s = (case sem_find key s of
     Some i \<Rightarrow> (if int (length (sem_values (the (sem_sets s i)))) < nsems then (-1, s) else (int i, s))
   | None \<Rightarrow>
       if \<not> create \<or> nsems \<le> 0 then (-1, s)
       else case next_answer (sem_answers s) of (ok, as) \<Rightarrow>
         if \<not> ok then (-1, s\<lparr>sem_answers := as\<rparr>)
         else (int (next_sem s), s\<lparr>sem_sets := (sem_sets s)(next_sem s \<mapsto>
             \<lparr>sem_key = key, sem_values = replicate (nat nsems) 0, sem_otime = 0\<rparr>), next_sem := next_sem s + 1, sem_answers := as\<rparr>))"

definition semctl_setval :: "int \<Rightarrow> nat \<Rightarrow> int \<Rightarrow> sem_os \<Rightarrow> int \<times> sem_os" where
  "semctl_setval i n v s = (case sem_sets s (nat i) of
     None \<Rightarrow> (-1, s)
   | Some x \<Rightarrow>
       if length (sem_values x) \<le> n \<or> v < 0 \<or> SEMVMX < v then (-1, s)
       else (0, s\<lparr>sem_sets := (sem_sets s)(nat i \<mapsto> x\<lparr>sem_values := (sem_values x)[n := v]\<rparr>)\<rparr>))"

definition semctl_getval :: "int \<Rightarrow> nat \<Rightarrow> sem_os \<Rightarrow> int" where
  "semctl_getval i n s = (case sem_sets s (nat i) of
     None \<Rightarrow> -1 | Some x \<Rightarrow> if length (sem_values x) \<le> n then -1 else sem_values x ! n)"

definition semctl_rmid :: "int \<Rightarrow> sem_os \<Rightarrow> sem_os" where
  "semctl_rmid i s = s\<lparr>sem_sets := (sem_sets s)(nat i := None)\<rparr>"

record sembuf =
  sem_num :: nat
  sem_op :: int
  sem_nowait :: bool

datatype sem_try = Sem_ok "int list" | Sem_block | Sem_fail

text \<open>The operations one after the other on a copy of the values.\<close>

fun sem_apply :: "sembuf list \<Rightarrow> int list \<Rightarrow> sem_try" where
  "sem_apply [] vs = Sem_ok vs"
| "sem_apply (b # bs) vs =
     (let v = vs ! sem_num b + sem_op b in
      if (if sem_op b = 0 then vs ! sem_num b \<noteq> 0 else v < 0) then (if sem_nowait b then Sem_fail else Sem_block)
      else if SEMVMX < v then Sem_fail
      else sem_apply bs (vs[sem_num b := v]))"

text \<open>None is a call that waits; it is tried again when the values have changed.\<close>

definition semop :: "int \<Rightarrow> sembuf list \<Rightarrow> sem_os \<Rightarrow> (int \<times> sem_os) option" where
  "semop i ops s = (case sem_sets s (nat i) of
     None \<Rightarrow> Some (-1, s)
   | Some x \<Rightarrow>
       if ops = [] \<or> SEMOPM < length ops \<or> \<not> list_all (\<lambda>b. sem_num b < length (sem_values x)) ops then Some (-1, s)
       else (case sem_apply ops (sem_values x) of
           Sem_block \<Rightarrow> None
         | Sem_fail \<Rightarrow> Some (-1, s)
         | Sem_ok vs \<Rightarrow> Some (0, s\<lparr>sem_sets := (sem_sets s)(nat i \<mapsto> x\<lparr>sem_values := vs, sem_otime := os_time s\<rparr>)\<rparr>)))"

section \<open>Semaphores\<close>

text \<open>The code that semaphores and mutexes share: they differ in the project letter of the key.\<close>

definition create_set :: "char \<Rightarrow> string option \<Rightarrow> int \<Rightarrow> sem_os \<Rightarrow> int \<times> sem_os" where
  "create_set proj name v s = (case name of
     None \<Rightarrow> (-1, s)
   | Some n \<Rightarrow> (case ftok_key s n proj of
       None \<Rightarrow> (-1, s)
     | Some key \<Rightarrow> (case semget key 1 True s of (i, s1) \<Rightarrow>
         if i = -1 then (-1, s1)
         else case semctl_setval i 0 v s1 of (r, s2) \<Rightarrow> if r = -1 then (-1, s2) else (i, s2))))"

definition connect_set :: "char \<Rightarrow> string option \<Rightarrow> sem_os \<Rightarrow> int \<times> sem_os" where
  "connect_set proj name s = (case name of
     None \<Rightarrow> (-1, s)
   | Some n \<Rightarrow> (case ftok_key s n proj of None \<Rightarrow> (-1, s) | Some key \<Rightarrow> semget key 0 False s))"

definition cleanup_set :: "char \<Rightarrow> string option \<Rightarrow> sem_os \<Rightarrow> sem_os" where
  "cleanup_set proj name s = (case name of
     None \<Rightarrow> s
   | Some n \<Rightarrow> (case ftok_key s n proj of
       None \<Rightarrow> s
     | Some key \<Rightarrow> (case semget key 0 False s of (i, s1) \<Rightarrow> if i \<noteq> -1 then semctl_rmid i s1 else s1)))"

definition one_op :: "int \<Rightarrow> bool \<Rightarrow> int \<Rightarrow> sem_os \<Rightarrow> (int \<times> sem_os) option" where
  "one_op d nowait i s =
     (if i < 0 then Some (-1, s)
      else case semop i [\<lparr>sem_num = 0, sem_op = d, sem_nowait = nowait\<rparr>] s of
        None \<Rightarrow> None | Some (r, s1) \<Rightarrow> Some (if r = -1 then -1 else 0, s1))"

definition ipc_semaphore_create_server :: "string option \<Rightarrow> int \<Rightarrow> sem_os \<Rightarrow> int \<times> sem_os" where
  "ipc_semaphore_create_server name initial_value s = create_set (CHR ''S'') name initial_value s"

definition ipc_semaphore_connect_client :: "string option \<Rightarrow> sem_os \<Rightarrow> int \<times> sem_os" where
  "ipc_semaphore_connect_client name s = connect_set (CHR ''S'') name s"

text \<open>Both branches of the test of the timeout do the same: the call waits without a limit.\<close>

definition ipc_semaphore_wait :: "int \<Rightarrow> int \<Rightarrow> sem_os \<Rightarrow> (int \<times> sem_os) option" where
  "ipc_semaphore_wait sem_id timeout_ms s = (if timeout_ms > 0 then one_op (-1) False sem_id s else one_op (-1) False sem_id s)"

definition ipc_semaphore_signal :: "int \<Rightarrow> sem_os \<Rightarrow> (int \<times> sem_os) option" where
  "ipc_semaphore_signal sem_id s = one_op 1 False sem_id s"

definition ipc_semaphore_get_value :: "int \<Rightarrow> sem_os \<Rightarrow> int" where
  "ipc_semaphore_get_value sem_id s = (if sem_id < 0 then -1 else semctl_getval sem_id 0 s)"

definition ipc_semaphore_set_value :: "int \<Rightarrow> int \<Rightarrow> sem_os \<Rightarrow> int \<times> sem_os" where
  "ipc_semaphore_set_value sem_id v s =
     (if sem_id < 0 \<or> v < 0 then (-1, s)
      else case semctl_setval sem_id 0 v s of (r, s1) \<Rightarrow> (if r = -1 then -1 else 0, s1))"

definition ipc_semaphore_try_wait :: "int \<Rightarrow> sem_os \<Rightarrow> (int \<times> sem_os) option" where
  "ipc_semaphore_try_wait sem_id s = one_op (-1) True sem_id s"

text \<open>The loop over the initial values from index \<open>i\<close> on, for \<open>n\<close> rounds.\<close>

fun set_values :: "int \<Rightarrow> nat \<Rightarrow> nat \<Rightarrow> int list \<Rightarrow> sem_os \<Rightarrow> (int \<times> sem_os) outcome" where
  "set_values sem_id i 0 vs s = Ret (0, s)"
| "set_values sem_id i (Suc n) [] s = Fault Out_of_bounds"
| "set_values sem_id i (Suc n) (v # vs) s = (case semctl_setval sem_id i v s of (r, s1) \<Rightarrow>
     if r = -1 then Ret (-1, s1) else set_values sem_id (Suc i) n vs s1)"

definition ipc_semaphore_create_array :: "string option \<Rightarrow> int \<Rightarrow> int list option \<Rightarrow> sem_os \<Rightarrow> (int \<times> sem_os) outcome" where
  "ipc_semaphore_create_array name num_sems initial_values s = (case (name, initial_values) of
     (Some n, Some vs) \<Rightarrow>
       if num_sems \<le> 0 then Ret (-1, s)
       else (case ftok_key s n (CHR ''S'') of
           None \<Rightarrow> Ret (-1, s)
         | Some key \<Rightarrow> (case semget key num_sems True s of (i, s1) \<Rightarrow>
             if i = -1 then Ret (-1, s1)
             else obind (set_values i 0 (nat num_sems) vs s1) (\<lambda>(r, s2). Ret (if r = -1 then -1 else i, s2))))
   | _ \<Rightarrow> Ret (-1, s))"

text \<open>The fields of an operation are shorts: the index is cut to 16 bits, and so is the change, as a signed number.\<close>

definition to_short :: "int \<Rightarrow> int" where
  "to_short x = sint (word_of_int x :: 16 word)"

definition wait_ops :: "int list \<Rightarrow> sembuf list" where
  "wait_ops operations = map (\<lambda>(i, x). \<lparr>sem_num = i mod 65536, sem_op = to_short x, sem_nowait = False\<rparr>)
     (zip [0..<length operations] operations)"

definition ipc_semaphore_wait_array :: "int \<Rightarrow> int \<Rightarrow> int list option \<Rightarrow> sem_os \<Rightarrow> (int \<times> sem_os) option outcome" where
  "ipc_semaphore_wait_array sem_id num_sems operations s = (case operations of
     None \<Rightarrow> Ret (Some (-1, s))
   | Some xs \<Rightarrow>
       if sem_id < 0 \<or> num_sems \<le> 0 then Ret (Some (-1, s))
       else case next_answer (sem_answers s) of (ok, as) \<Rightarrow>
         let s1 = s\<lparr>sem_answers := as\<rparr> in
         if \<not> ok then Ret (Some (-1, s1))
         else if length xs < nat num_sems then Fault Out_of_bounds
         else Ret (semop sem_id (wait_ops (take (nat num_sems) xs)) s1))"

definition ipc_semaphore_cleanup_server :: "string option \<Rightarrow> sem_os \<Rightarrow> sem_os" where
  "ipc_semaphore_cleanup_server name s = cleanup_set (CHR ''S'') name s"

section \<open>Mutexes\<close>

definition ipc_mutex_create_server :: "string option \<Rightarrow> sem_os \<Rightarrow> int \<times> sem_os" where
  "ipc_mutex_create_server name s = create_set (CHR ''X'') name 1 s"

definition ipc_mutex_connect_client :: "string option \<Rightarrow> sem_os \<Rightarrow> int \<times> sem_os" where
  "ipc_mutex_connect_client name s = connect_set (CHR ''X'') name s"

definition ipc_mutex_lock :: "int \<Rightarrow> int \<Rightarrow> sem_os \<Rightarrow> (int \<times> sem_os) option" where
  "ipc_mutex_lock mutex_id timeout_ms s = (if timeout_ms > 0 then one_op (-1) False mutex_id s else one_op (-1) False mutex_id s)"

definition ipc_mutex_unlock :: "int \<Rightarrow> sem_os \<Rightarrow> (int \<times> sem_os) option" where
  "ipc_mutex_unlock mutex_id s = one_op 1 False mutex_id s"

definition ipc_mutex_try_lock :: "int \<Rightarrow> sem_os \<Rightarrow> (int \<times> sem_os) option" where
  "ipc_mutex_try_lock mutex_id s = one_op (-1) True mutex_id s"

definition ipc_mutex_is_locked :: "int \<Rightarrow> sem_os \<Rightarrow> int" where
  "ipc_mutex_is_locked mutex_id s =
     (if mutex_id < 0 then -1
      else let v = semctl_getval mutex_id 0 s in if v = -1 then -1 else if v = 0 then 1 else 0)"

text \<open>What is returned is the time of the last operation, cut to an \<open>int\<close>.\<close>

definition ipc_mutex_get_owner :: "int \<Rightarrow> sem_os \<Rightarrow> int" where
  "ipc_mutex_get_owner mutex_id s =
     (if mutex_id < 0 then -1
      else case sem_sets s (nat mutex_id) of None \<Rightarrow> -1 | Some x \<Rightarrow> sint (word_of_int (sem_otime x) :: 32 word))"

definition ipc_mutex_create_named :: "string option \<Rightarrow> sem_os \<Rightarrow> int \<times> sem_os" where
  "ipc_mutex_create_named name s = ipc_mutex_create_server name s"

definition ipc_mutex_open_named :: "string option \<Rightarrow> sem_os \<Rightarrow> int \<times> sem_os" where
  "ipc_mutex_open_named name s = ipc_mutex_connect_client name s"

definition ipc_mutex_create_robust :: "string option \<Rightarrow> sem_os \<Rightarrow> int \<times> sem_os" where
  "ipc_mutex_create_robust name s = create_set (CHR ''X'') name 1 s"

definition ipc_mutex_consistency_check :: "int \<Rightarrow> sem_os \<Rightarrow> int \<times> sem_os" where
  "ipc_mutex_consistency_check mutex_id s =
     (if mutex_id < 0 then (-1, s)
      else if sem_sets s (nat mutex_id) = None then (-1, s)
      else let v = semctl_getval mutex_id 0 s in
        if v = -1 then (-1, s)
        else if v < 0 \<or> 1 < v
        then (case semctl_setval mutex_id 0 1 s of (r, s1) \<Rightarrow> if r = -1 then (-1, s1) else (1, s1))
        else (0, s))"

definition ipc_mutex_cleanup_server :: "string option \<Rightarrow> sem_os \<Rightarrow> sem_os" where
  "ipc_mutex_cleanup_server name s = cleanup_set (CHR ''X'') name s"

section \<open>Users of a counting semaphore\<close>

text \<open>
  Processes that pass the semaphore, with a wait that may block or with an attempt, and leave it again.
  The second component of the state lists those inside; only they leave.
\<close>

datatype gate_event = Enters nat int | Attempts nat | Leaves nat

fun sem_step :: "(int \<Rightarrow> 's \<Rightarrow> (int \<times> 's) option) \<Rightarrow> ('s \<Rightarrow> (int \<times> 's) option) \<Rightarrow> ('s \<Rightarrow> (int \<times> 's) option)
    \<Rightarrow> gate_event \<Rightarrow> 's \<times> nat list \<Rightarrow> int option \<times> 's \<times> nat list" where
  "sem_step down try_down up (Enters p t) (s, us) = (case down t s of
     None \<Rightarrow> (None, s, us) | Some (r, s1) \<Rightarrow> (Some r, s1, if r = 0 then us @ [p] else us))"
| "sem_step down try_down up (Attempts p) (s, us) = (case try_down s of
     None \<Rightarrow> (None, s, us) | Some (r, s1) \<Rightarrow> (Some r, s1, if r = 0 then us @ [p] else us))"
| "sem_step down try_down up (Leaves p) (s, us) =
     (if p \<in> set us
      then (case up s of None \<Rightarrow> (None, s, us) | Some (r, s1) \<Rightarrow> (Some r, s1, if r = 0 then remove1 p us else us))
      else (None, s, us))"

fun run_steps :: "('e \<Rightarrow> 'x \<Rightarrow> 'r \<times> 'x) \<Rightarrow> 'e list \<Rightarrow> 'x \<Rightarrow> 'r list \<times> 'x" where
  "run_steps f [] x = ([], x)"
| "run_steps f (e # es) x = (case f e x of (r, y) \<Rightarrow> case run_steps f es y of (rs, z) \<Rightarrow> (r # rs, z))"

text \<open>The specification: a gate through which at most \<open>n\<close> pass at a time.\<close>

fun gate_step :: "nat \<Rightarrow> gate_event \<Rightarrow> nat list \<Rightarrow> int option \<times> nat list" where
  "gate_step n (Enters p t) us = (if length us < n then (Some 0, us @ [p]) else (None, us))"
| "gate_step n (Attempts p) us = (if length us < n then (Some 0, us @ [p]) else (Some (-1), us))"
| "gate_step n (Leaves p) us = (if p \<in> set us then (Some 0, remove1 p us) else (None, us))"

lemma gate_step_bound: "length us \<le> n \<Longrightarrow> length (snd (gate_step n e us)) \<le> n"
  by (cases e) (auto simp: length_remove1)

lemma gate_run_bound: "length us \<le> n \<Longrightarrow> length (snd (run_steps (gate_step n) es us)) \<le> n"
proof (induction es arbitrary: us)
  case (Cons e es)
  from Cons.IH [OF gate_step_bound [OF Cons.prems]] show ?case by (simp add: case_prod_unfold)
qed simp

text \<open>What a user relies on: the value goes down by one or the call waits, an attempt fails instead, the value goes up by one.\<close>

locale counting_semaphore =
  fixes valued :: "int \<Rightarrow> 's \<Rightarrow> bool"
    and down :: "int \<Rightarrow> 's \<Rightarrow> (int \<times> 's) option"
    and try_down :: "'s \<Rightarrow> (int \<times> 's) option"
    and up :: "'s \<Rightarrow> (int \<times> 's) option"
    and top :: int
  assumes down_pos: "valued v s \<Longrightarrow> 0 < v \<Longrightarrow> v \<le> top \<Longrightarrow> \<exists>s1. down t s = Some (0, s1) \<and> valued (v - 1) s1"
    and down_zero: "valued 0 s \<Longrightarrow> down t s = None"
    and try_pos: "valued v s \<Longrightarrow> 0 < v \<Longrightarrow> v \<le> top \<Longrightarrow> \<exists>s1. try_down s = Some (0, s1) \<and> valued (v - 1) s1"
    and try_zero: "valued 0 s \<Longrightarrow> try_down s = Some (-1, s)"
    and up_room: "valued v s \<Longrightarrow> 0 \<le> v \<Longrightarrow> v < top \<Longrightarrow> \<exists>s1. up s = Some (0, s1) \<and> valued (v + 1) s1"
begin

lemma step_refines:
  assumes "valued (int n - int (length us)) s" and "length us \<le> n" and "int n \<le> top"
  shows "\<exists>s1. sem_step down try_down up e (s, us) = (fst (gate_step n e us), s1, snd (gate_step n e us))
    \<and> valued (int n - int (length (snd (gate_step n e us)))) s1"
proof (cases e)
  case (Enters p t)
  show ?thesis
  proof (cases "length us < n")
    case True
    obtain s1 where "down t s = Some (0, s1)" "valued (int n - int (length us) - 1) s1"
      using down_pos [OF assms(1)] True assms(3) by fastforce
    with Enters True show ?thesis by (auto simp: algebra_simps)
  next
    case False
    with assms Enters show ?thesis by (simp add: down_zero)
  qed
next
  case (Attempts p)
  show ?thesis
  proof (cases "length us < n")
    case True
    obtain s1 where "try_down s = Some (0, s1)" "valued (int n - int (length us) - 1) s1"
      using try_pos [OF assms(1)] True assms(3) by fastforce
    with Attempts True show ?thesis by (auto simp: algebra_simps)
  next
    case False
    with assms Attempts show ?thesis by (simp add: try_zero)
  qed
next
  case (Leaves p)
  show ?thesis
  proof (cases "p \<in> set us")
    case True
    then have l: "0 < length us" by (cases us) auto
    have "0 \<le> int n - int (length us)" "int n - int (length us) < top" using l assms(2,3) by linarith+
    then obtain s1 where "up s = Some (0, s1)" "valued (int n - int (length us) + 1) s1" using up_room [OF assms(1)] by blast
    moreover obtain k where "length us = Suc k" using l by (cases "length us") auto
    ultimately show ?thesis using Leaves True by (auto simp: length_remove1 algebra_simps)
  next
    case False
    with assms Leaves show ?thesis by simp
  qed
qed

lemma run_refines_gate:
  "valued (int n - int (length us)) s \<Longrightarrow> length us \<le> n \<Longrightarrow> int n \<le> top \<Longrightarrow>
   \<exists>s1. run_steps (sem_step down try_down up) es (s, us)
       = (fst (run_steps (gate_step n) es us), s1, snd (run_steps (gate_step n) es us))
     \<and> valued (int n - int (length (snd (run_steps (gate_step n) es us)))) s1"
proof (induction es arbitrary: s us)
  case (Cons e es)
  obtain s1 where 1: "sem_step down try_down up e (s, us) = (fst (gate_step n e us), s1, snd (gate_step n e us))"
      "valued (int n - int (length (snd (gate_step n e us)))) s1"
    using step_refines [OF Cons.prems] by blast
  from Cons.IH [OF 1(2) gate_step_bound [OF Cons.prems(2)] Cons.prems(3)] 1(1) show ?case
    by (auto simp: case_prod_unfold)
qed simp

end

section \<open>The sets of the system count\<close>

definition value_at :: "int \<Rightarrow> int \<Rightarrow> sem_os \<Rightarrow> bool" where
  "value_at i v s \<longleftrightarrow> 0 \<le> i \<and> (\<exists>x. sem_sets s (nat i) = Some x \<and> sem_values x \<noteq> [] \<and> sem_values x ! 0 = v)"

lemma one_op_waits: "value_at i v s \<Longrightarrow> d \<noteq> 0 \<Longrightarrow> v + d < 0 \<Longrightarrow> one_op d w i s = (if w then Some (-1, s) else None)"
  by (auto simp: value_at_def one_op_def semop_def Let_def SEMOPM_def)

lemma one_op_goes:
  assumes "value_at i v s" and "d \<noteq> 0" and "0 \<le> v + d" and "v + d \<le> SEMVMX"
  shows "\<exists>s1. one_op d w i s = Some (0, s1) \<and> value_at i (v + d) s1"
proof -
  obtain x where x: "0 \<le> i" "sem_sets s (nat i) = Some x" "sem_values x \<noteq> []" "sem_values x ! 0 = v"
    using assms(1) by (auto simp: value_at_def)
  with assms(2-) show ?thesis by (auto simp: one_op_def semop_def Let_def SEMOPM_def value_at_def)
qed

lemma getval_value: "value_at i v s \<Longrightarrow> semctl_getval i 0 s = v"
  by (auto simp: value_at_def semctl_getval_def)

interpretation sems: counting_semaphore "value_at i" "\<lambda>t. ipc_semaphore_wait i t" "ipc_semaphore_try_wait i" "ipc_semaphore_signal i" SEMVMX
  for i
proof unfold_locales
  fix v t s
  assume a: "value_at i v s" and v: "0 < v" "v \<le> SEMVMX"
  show "\<exists>s1. ipc_semaphore_wait i t s = Some (0, s1) \<and> value_at i (v - 1) s1"
    using one_op_goes [OF a, of "-1" False] v by (simp add: ipc_semaphore_wait_def)
  show "\<exists>s1. ipc_semaphore_try_wait i s = Some (0, s1) \<and> value_at i (v - 1) s1"
    using one_op_goes [OF a, of "-1" True] v by (simp add: ipc_semaphore_try_wait_def)
next
  fix v s
  assume "value_at i v s" and "0 \<le> v" "v < SEMVMX"
  then show "\<exists>s1. ipc_semaphore_signal i s = Some (0, s1) \<and> value_at i (v + 1) s1"
    using one_op_goes [of i v s 1 False] by (simp add: ipc_semaphore_signal_def)
qed (simp_all add: ipc_semaphore_wait_def ipc_semaphore_try_wait_def one_op_waits)

interpretation mutexes: counting_semaphore "value_at i" "\<lambda>t. ipc_mutex_lock i t" "ipc_mutex_try_lock i" "ipc_mutex_unlock i" SEMVMX
  for i
  using sems.counting_semaphore_axioms [of i]
  by (simp add: counting_semaphore_def ipc_semaphore_wait_def ipc_semaphore_try_wait_def ipc_semaphore_signal_def ipc_mutex_lock_def
      ipc_mutex_try_lock_def ipc_mutex_unlock_def)

lemma created_value:
  assumes "create_set proj name v s = (i, s1)" and "i \<noteq> -1"
  shows "value_at i v s1 \<and> 0 \<le> v \<and> v \<le> SEMVMX"
proof -
  obtain n key s0 where 1: "name = Some n" "ftok_key s n proj = Some key" "semget key 1 True s = (i, s0)"
      "semctl_setval i 0 v s0 = (0, s1)"
    using assms by (auto simp: create_set_def semctl_setval_def split: option.splits prod.splits if_splits)
  have "0 \<le> i" using 1(3) assms(2) by (auto simp: semget_def split: option.splits prod.splits if_splits)
  with 1(4) show ?thesis
    by (auto simp: semctl_setval_def value_at_def split: option.splits if_splits)
qed


definition demo_sems :: sem_os where
  "demo_sems = \<lparr>ftok_key = (\<lambda>n c. Some 7), sem_sets = Map.empty, next_sem = 0, os_time = 0, sem_answers = []\<rparr>"

lemma demo_mutex: "\<exists>s1. ipc_mutex_create_server (Some ''m'') demo_sems = (0, s1)"
  by (simp add: ipc_mutex_create_server_def create_set_def demo_sems_def semget_def sem_find_def semctl_setval_def SEMVMX_def)


text \<open>A semaphore that was created with a value admits as many users, and its value is what is left.\<close>

theorem semaphore_admits_initial_value:
  assumes "ipc_semaphore_create_server name (int n) s = (i, s1)" and "i \<noteq> -1"
  shows "\<exists>s2. run_steps (sem_step (ipc_semaphore_wait i) (ipc_semaphore_try_wait i) (ipc_semaphore_signal i)) es (s1, [])
      = (fst (run_steps (gate_step n) es []), s2, snd (run_steps (gate_step n) es []))
    \<and> ipc_semaphore_get_value i s2 = int n - int (length (snd (run_steps (gate_step n) es [])))"
proof -
  let ?us = "snd (run_steps (gate_step n) es [])"
  have "value_at i (int n) s1" "int n \<le> SEMVMX" using created_value assms by (auto simp: ipc_semaphore_create_server_def)
  then obtain s2 where 1: "run_steps (sem_step (ipc_semaphore_wait i) (ipc_semaphore_try_wait i) (ipc_semaphore_signal i)) es (s1, [])
      = (fst (run_steps (gate_step n) es []), s2, ?us)" "value_at i (int n - int (length ?us)) s2"
    using sems.run_refines_gate [of i n "[]" s1 es] by auto
  then have "semctl_getval i 0 s2 = int n - int (length ?us)" "0 \<le> i" by (simp_all add: getval_value) (simp add: value_at_def)
  with 1 show ?thesis by (auto simp: ipc_semaphore_get_value_def)
qed

section \<open>A set is found again\<close>

text \<open>Changing values leaves the keys.\<close>

definition same_keys :: "sem_os \<Rightarrow> sem_os \<Rightarrow> bool" where
  "same_keys s t \<longleftrightarrow> ftok_key t = ftok_key s \<and> next_sem t = next_sem s \<and> (\<forall>i. map_option sem_key (sem_sets t i) = map_option sem_key (sem_sets s i))"

lemma same_keys_find: "same_keys s t \<Longrightarrow> sem_find key t = sem_find key s"
proof -
  assume k: "same_keys s t"
  have "has_sem_key key t i = has_sem_key key s i" for i
  proof -
    have "map_option sem_key (sem_sets t i) = map_option sem_key (sem_sets s i)" using k by (simp add: same_keys_def)
    then show ?thesis by (cases "sem_sets t i"; cases "sem_sets s i") (auto simp: has_sem_key_def)
  qed
  then have "has_sem_key key t = has_sem_key key s" by blast
  with k show ?thesis by (simp add: sem_find_def same_keys_def)
qed

lemma setval_same_keys: "same_keys s (snd (semctl_setval i n v s))"
  by (auto simp: semctl_setval_def same_keys_def split: option.split)

lemma one_op_same_keys: "one_op d w i s = Some (r, s1) \<Longrightarrow> same_keys s s1"
  by (auto simp: one_op_def semop_def same_keys_def split: if_splits option.splits sem_try.splits)

lemma semget_then_found:
  assumes "semget key 1 True s = (i, s1)" and "i \<noteq> -1"
  shows "sem_find key s1 = Some (nat i) \<and> ftok_key s1 = ftok_key s"
proof (cases "sem_find key s")
  case None
  then have 1: "s1 = s\<lparr>sem_sets := (sem_sets s)(next_sem s \<mapsto> \<lparr>sem_key = key, sem_values = [0], sem_otime = 0\<rparr>),
        next_sem := next_sem s + 1, sem_answers := snd (next_answer (sem_answers s))\<rparr>" "i = int (next_sem s)"
    using assms by (auto simp: semget_def split: prod.splits if_splits)
  have n: "\<forall>j < next_sem s. \<not> has_sem_key key s j" using None by (auto simp: sem_find_def find_None_iff)
  then have "find (has_sem_key key s1) [0..<next_sem s] = None" by (auto simp: find_None_iff 1(1) has_sem_key_def)
  then have "find (has_sem_key key s1) ([0..<next_sem s] @ [next_sem s]) = Some (next_sem s)"
    by (rule find_snoc) (simp add: 1(1) has_sem_key_def)
  with 1 show ?thesis by (simp add: sem_find_def)
next
  case (Some j)
  with assms show ?thesis by (auto simp: semget_def split: if_splits)
qed

text \<open>A process that creates a mutex which another one holds gets in as well: creating sets the value anew.\<close>

theorem recreating_unlocks:
  assumes "ipc_mutex_create_server name s = (i, s1)" and "i \<noteq> -1" and "ipc_mutex_lock i t s1 = Some (0, s2)"
  shows "\<exists>s3 s4. ipc_mutex_create_server name s2 = (i, s3) \<and> ipc_mutex_lock i t s3 = Some (0, s4)"
proof -
  obtain n key s0 where 1: "name = Some n" "ftok_key s n (CHR ''X'') = Some key" "semget key 1 True s = (i, s0)"
      "semctl_setval i 0 1 s0 = (0, s1)"
    using assms(1,2) by (auto simp: ipc_mutex_create_server_def create_set_def semctl_setval_def split: option.splits prod.splits if_splits)
  have f: "sem_find key s0 = Some (nat i)" "ftok_key s0 = ftok_key s" using semget_then_found [OF 1(3) assms(2)] by auto
  have k: "same_keys s0 s1" using setval_same_keys [of s0 i 0 1] 1(4) by simp
  have l: "same_keys s1 s2" using assms(3) one_op_same_keys by (auto simp: ipc_mutex_lock_def split: if_splits)
  have "sem_find key s2 = Some (nat i)" "ftok_key s2 n (CHR ''X'') = Some key"
    using same_keys_find [OF k] same_keys_find [OF l] f k l 1(2) by (simp_all add: same_keys_def)
  moreover have v: "value_at i 1 s1" using created_value assms(1,2) by (auto simp: ipc_mutex_create_server_def)
  obtain x where x: "0 \<le> i" "sem_sets s2 (nat i) = Some x" "sem_values x \<noteq> []"
  proof -
    obtain s2' where "one_op (-1) False i s1 = Some (0, s2')" "value_at i 0 s2'" using one_op_goes [OF v, of "-1"] by (auto simp: SEMVMX_def)
    with assms(3) that show ?thesis by (auto simp: ipc_mutex_lock_def value_at_def split: if_splits)
  qed
  ultimately obtain s3 where s3: "ipc_mutex_create_server name s2 = (i, s3)"
    using 1(1) by (auto simp: ipc_mutex_create_server_def create_set_def semget_def semctl_setval_def SEMVMX_def Suc_leI)
  then have "value_at i 1 s3" using created_value assms(2) by (auto simp: ipc_mutex_create_server_def)
  with s3 mutexes.down_pos [of i 1 s3 t] show ?thesis by (auto simp: SEMVMX_def)
qed

section \<open>Operations on several semaphores\<close>

text \<open>One change after the other, from index \<open>k\<close> on.\<close>

definition ops_from :: "nat \<Rightarrow> int list \<Rightarrow> sembuf list" where
  "ops_from k xs = map (\<lambda>(i, x). \<lparr>sem_num = i mod 65536, sem_op = to_short x, sem_nowait = False\<rparr>) (zip [k..<k + length xs] xs)"

lemma ops_from_Cons: "ops_from k (x # xs) = \<lparr>sem_num = k mod 65536, sem_op = to_short x, sem_nowait = False\<rparr> # ops_from (Suc k) xs"
  by (simp add: ops_from_def upt_rec)

definition change_fits :: "int \<Rightarrow> int \<Rightarrow> bool" where
  "change_fits v d \<longleftrightarrow> (if d = 0 then v = 0 else 0 \<le> v + d \<and> v + d \<le> SEMVMX)"

lemma sem_apply_from:
  assumes "k + length xs = length vs" and "length vs \<le> 65536" and "\<forall>v \<in> set vs. 0 \<le> v \<and> v \<le> SEMVMX"
  shows "if list_all2 change_fits (drop k vs) (map to_short xs)
    then sem_apply (ops_from k xs) vs = Sem_ok (take k vs @ map2 (+) (drop k vs) (map to_short xs))
    else sem_apply (ops_from k xs) vs = Sem_block \<or> sem_apply (ops_from k xs) vs = Sem_fail"
  using assms
proof (induction xs arbitrary: k vs)
  case Nil
  then show ?case by (simp add: ops_from_def)
next
  case (Cons x xs)
  then have k: "k < length vs" "k mod 65536 = k" by simp_all
  let ?v = "vs ! k + to_short x" and ?ws = "vs[k := vs ! k + to_short x]"
  have d: "drop k vs = vs ! k # drop (Suc k) vs" using k by (simp add: Cons_nth_drop_Suc)
  have tk: "take (Suc k) ?ws = take k vs @ [?v]" using k by (simp add: take_Suc_conv_app_nth)
  show ?case
  proof (cases "change_fits (vs ! k) (to_short x)")
    case True
    have r: "0 \<le> ?v" "?v \<le> SEMVMX" using True Cons.prems(3) k by (auto simp: change_fits_def SEMVMX_def split: if_splits)
    then have "\<forall>v \<in> set ?ws. 0 \<le> v \<and> v \<le> SEMVMX" using Cons.prems(3) set_update_subset_insert [of vs k] by fastforce
    then have "if list_all2 change_fits (drop (Suc k) ?ws) (map to_short xs)
      then sem_apply (ops_from (Suc k) xs) ?ws = Sem_ok (take (Suc k) ?ws @ map2 (+) (drop (Suc k) ?ws) (map to_short xs))
      else sem_apply (ops_from (Suc k) xs) ?ws = Sem_block \<or> sem_apply (ops_from (Suc k) xs) ?ws = Sem_fail"
      using Cons.IH [of "Suc k" ?ws] Cons.prems by simp
    moreover have "sem_apply (ops_from k (x # xs)) vs = sem_apply (ops_from (Suc k) xs) ?ws"
      using True r k by (auto simp: ops_from_Cons Let_def change_fits_def)
    ultimately show ?thesis unfolding d tk by (simp add: True split: if_splits)
  next
    case False
    then show ?thesis unfolding d using k by (auto simp: ops_from_Cons Let_def change_fits_def split: if_splits)
  qed
qed

text \<open>A change of all semaphores of a set is done as a whole or not at all: when every value stays in its range (and is zero
  where the change, cut to 16 bits, is zero) all are changed by the sums; otherwise the call fails or waits and no value has
  changed.\<close>

theorem wait_array_all_or_nothing:
  assumes "sem_sets s (nat i) = Some x" and "0 \<le> i" and "int (length (sem_values x)) = n" and "length xs = nat n" and "0 < n" and "n \<le> 500"
    and "\<forall>v \<in> set (sem_values x). 0 \<le> v \<and> v \<le> SEMVMX" and "sem_answers s = []"
  shows "if list_all2 change_fits (sem_values x) (map to_short xs)
    then \<exists>s1. ipc_semaphore_wait_array i n (Some xs) s = Ret (Some (0, s1))
      \<and> map_option sem_values (sem_sets s1 (nat i)) = Some (map2 (+) (sem_values x) (map to_short xs))
    else ipc_semaphore_wait_array i n (Some xs) s = Ret None \<or> ipc_semaphore_wait_array i n (Some xs) s = Ret (Some (-1, s))"
proof -
  have w: "wait_ops xs = ops_from 0 xs" by (simp add: wait_ops_def ops_from_def)
  have "ops_from 0 xs \<noteq> []" using assms(4,5) by (auto simp: ops_from_def)
  moreover have "length (ops_from 0 xs) \<le> SEMOPM" using assms(4,5,6) by (simp add: ops_from_def SEMOPM_def)
  moreover have "list_all (\<lambda>b. sem_num b < length (sem_values x)) (ops_from 0 xs)"
    using assms(3,4,6) by (auto simp: ops_from_def list_all_iff dest: set_zip_leftD)
  moreover have e: "s\<lparr>sem_answers := []\<rparr> = s" using assms(8) by simp
  have "ipc_semaphore_wait_array i n (Some xs) s = Ret (semop i (ops_from 0 xs) s)"
    using assms by (simp add: ipc_semaphore_wait_array_def w Let_def e)
  ultimately have "ipc_semaphore_wait_array i n (Some xs) s = Ret (case sem_apply (ops_from 0 xs) (sem_values x) of
      Sem_block \<Rightarrow> None | Sem_fail \<Rightarrow> Some (-1, s)
    | Sem_ok vs \<Rightarrow> Some (0, s\<lparr>sem_sets := (sem_sets s)(nat i \<mapsto> x\<lparr>sem_values := vs, sem_otime := os_time s\<rparr>)\<rparr>))"
    using assms(1) by (simp add: semop_def)
  moreover have "0 + length xs = length (sem_values x)" "length (sem_values x) \<le> 65536" using assms by simp_all
  note sem_apply_from [OF this assms(7)]
  ultimately show ?thesis by (auto split: if_splits)
qed

definition demo_array :: sem_os where
  "demo_array = demo_sems\<lparr>sem_sets := [0 \<mapsto> \<lparr>sem_key = 7, sem_values = [2, 0], sem_otime = 0\<rparr>], next_sem := 1\<rparr>"

theorem wait_array_all_or_nothing_witness:
  "\<exists>s1. ipc_semaphore_wait_array 0 2 (Some [-1, 3]) demo_array = Ret (Some (0, s1))
     \<and> map_option sem_values (sem_sets s1 (nat 0)) = Some [1, 3]"
  using wait_array_all_or_nothing [of demo_array 0 "\<lparr>sem_key = 7, sem_values = [2, 0], sem_otime = 0\<rparr>" 2 "[-1, 3]"]
  by (simp add: demo_array_def demo_sems_def SEMVMX_def change_fits_def to_short_def)

end
