(* ===== verification/Ipc_Unified.thy ===== *)
theory Ipc_Unified
  imports Ipc_Streams Ipc_Messages Ipc_Shared_Memory Ipc_Semaphores
begin

text \<open>
  The unified layer over the six kinds of communication (src/ipc/ipc_unified.c): one table of a hundred connections
  behind a mutex, dispatch by type, statistics. The systems under it are those of \<^verbatim>\<open>Ipc_Streams\<close>,
  \<^verbatim>\<open>Ipc_Messages\<close>, \<^verbatim>\<open>Ipc_Shared_Memory\<close> and \<^verbatim>\<open>Ipc_Semaphores\<close>. What a connection keeps in its
  untyped pointer is a block with an integer (a descriptor or an id) or the address of shared memory; the code
  tells them apart by the type alone. The answers are those of \<open>malloc\<close>, \<open>calloc\<close> and \<open>pthread_mutex_init\<close>; memory
  that is lost has no further effect. A POSIX mutex is used as the mutexes of \<^verbatim>\<open>Prelude\<close>; destroying one that is
  locked is undefined.
\<close>

section \<open>Data\<close>

text \<open>The last constructor stands for every other value of the enumeration.\<close>

datatype ipc_type = IPC_TYPE_SOCKET | IPC_TYPE_PIPE | IPC_TYPE_SHMEM | IPC_TYPE_MSGQUEUE | IPC_TYPE_SEMAPHORE | IPC_TYPE_MUTEX | IPC_TYPE_MAX

record ipc_config =
  ic_name :: string
  ic_type :: ipc_type
  ic_buffer_size :: nat
  ic_max_connections :: int

datatype ipc_pointer = Null_ptr | Int_block int | Shm_address nat

record ipc_connection =
  ic_id :: int
  ic_kind :: ipc_type
  is_connected :: bool
  private_data :: ipc_pointer
  remote_pid :: int
  remote_name :: string

record ipc_stats =
  st_connections :: "64 word"
  st_max_connections :: "64 word"
  messages_sent :: "64 word"
  messages_received :: "64 word"
  bytes_sent :: "64 word"
  bytes_received :: "64 word"
  start_time :: int
  uptime :: "64 word"

record ipc_system =
  streams :: stream_os
  messages :: msg_os
  shared :: shm_os
  semaphores :: sem_os

record ipc_data =
  initialized :: bool
  ipc_mutex :: uv_mutex
  table :: "ipc_connection list option"
  table_size :: nat
  stats :: ipc_stats
  system :: ipc_system
  ipc_answers :: answers

definition no_connection :: ipc_connection where
  "no_connection = \<lparr>ic_id = 0, ic_kind = IPC_TYPE_SOCKET, is_connected = False, private_data = Null_ptr, remote_pid = 0, remote_name = []\<rparr>"

definition ipc_zero_stats :: "int \<Rightarrow> ipc_stats" where
  "ipc_zero_stats t = \<lparr>st_connections = 0, st_max_connections = 0, messages_sent = 0, messages_received = 0, bytes_sent = 0, bytes_received = 0,
     start_time = t, uptime = 0\<rparr>"

definition ipc_answer :: "ipc_data \<Rightarrow> bool \<times> ipc_data" where
  "ipc_answer s = (case next_answer (ipc_answers s) of (ok, as) \<Rightarrow> (ok, s\<lparr>ipc_answers := as\<rparr>))"

definition ipc_lock :: "ipc_data \<Rightarrow> ipc_data outcome" where
  "ipc_lock s = obind (uv_mutex_lock (ipc_mutex s)) (\<lambda>m. Ret (s\<lparr>ipc_mutex := m\<rparr>))"

definition ipc_unlock :: "ipc_data \<Rightarrow> ipc_data outcome" where
  "ipc_unlock s = obind (uv_mutex_unlock (ipc_mutex s)) (\<lambda>m. Ret (s\<lparr>ipc_mutex := m\<rparr>))"

text \<open>A slot of the table.\<close>

definition slot_at :: "nat \<Rightarrow> ipc_data \<Rightarrow> ipc_connection outcome" where
  "slot_at i s = (case table s of
     None \<Rightarrow> Fault Null_deref | Some cs \<Rightarrow> if i < length cs then Ret (cs ! i) else Fault Out_of_bounds)"

definition set_slot :: "nat \<Rightarrow> ipc_connection \<Rightarrow> ipc_data \<Rightarrow> ipc_data" where
  "set_slot i c s = s\<lparr>table := map_option (\<lambda>cs. cs[i := c]) (table s)\<rparr>"

definition on_streams :: "(stream_os \<Rightarrow> 'a \<times> stream_os) \<Rightarrow> ipc_data \<Rightarrow> 'a \<times> ipc_data" where
  "on_streams f s = (case f (streams (system s)) of (r, x) \<Rightarrow> (r, s\<lparr>system := (system s)\<lparr>streams := x\<rparr>\<rparr>))"

definition on_messages :: "(msg_os \<Rightarrow> 'a \<times> msg_os) \<Rightarrow> ipc_data \<Rightarrow> 'a \<times> ipc_data" where
  "on_messages f s = (case f (messages (system s)) of (r, x) \<Rightarrow> (r, s\<lparr>system := (system s)\<lparr>messages := x\<rparr>\<rparr>))"

definition on_shared :: "(shm_os \<Rightarrow> 'a \<times> shm_os) \<Rightarrow> ipc_data \<Rightarrow> 'a \<times> ipc_data" where
  "on_shared f s = (case f (shared (system s)) of (r, x) \<Rightarrow> (r, s\<lparr>system := (system s)\<lparr>shared := x\<rparr>\<rparr>))"

definition on_semaphores :: "(sem_os \<Rightarrow> 'a \<times> sem_os) \<Rightarrow> ipc_data \<Rightarrow> 'a \<times> ipc_data" where
  "on_semaphores f s = (case f (semaphores (system s)) of (r, x) \<Rightarrow> (r, s\<lparr>system := (system s)\<lparr>semaphores := x\<rparr>\<rparr>))"

section \<open>Dispatch by type\<close>

definition create_ipc_server_by_type :: "ipc_config \<Rightarrow> ipc_data \<Rightarrow> int \<times> ipc_data" where
  "create_ipc_server_by_type config s = (case ic_type config of
     IPC_TYPE_SOCKET \<Rightarrow> on_streams (ipc_socket_create_server (Some (ic_name config)) (ic_max_connections config)) s
   | IPC_TYPE_PIPE \<Rightarrow> on_streams (ipc_pipe_create_server (Some (ic_name config))) s
   | IPC_TYPE_SHMEM \<Rightarrow> on_shared (ipc_shmem_create_server (Some (ic_name config)) (ic_buffer_size config)) s
   | IPC_TYPE_MSGQUEUE \<Rightarrow> on_messages (ipc_msgqueue_create_server (Some (ic_name config))) s
   | IPC_TYPE_SEMAPHORE \<Rightarrow> on_semaphores (ipc_semaphore_create_server (Some (ic_name config)) 1) s
   | IPC_TYPE_MUTEX \<Rightarrow> on_semaphores (ipc_mutex_create_server (Some (ic_name config))) s
   | IPC_TYPE_MAX \<Rightarrow> (-1, s))"

text \<open>A number that was found is given back when one more block can be allocated (and is then lost).\<close>

definition with_block :: "int \<times> ipc_data \<Rightarrow> int \<times> ipc_data" where
  "with_block = (\<lambda>(r, s). if r < 0 then (-1, s) else case ipc_answer s of (ok, s1) \<Rightarrow> (if ok then r else -1, s1))"

text \<open>A pipe that is opened for both directions never waits.\<close>

definition open_pipe :: "string \<Rightarrow> stream_os \<Rightarrow> int \<times> stream_os" where
  "open_pipe name x = (case ipc_pipe_connect_client (Some name) x of None \<Rightarrow> (-1, x) | Some y \<Rightarrow> y)"

definition connect_ipc_client_by_type :: "string \<Rightarrow> ipc_config \<Rightarrow> ipc_data \<Rightarrow> int \<times> ipc_data" where
  "connect_ipc_client_by_type name config s = (case ic_type config of
     IPC_TYPE_SOCKET \<Rightarrow> with_block (on_streams (ipc_socket_connect_client (Some name)) s)
   | IPC_TYPE_PIPE \<Rightarrow> with_block (on_streams (open_pipe name) s)
   | IPC_TYPE_SHMEM \<Rightarrow> (case on_shared (\<lambda>x. case ipc_shmem_connect_client (Some name) True x of (i, n, y) \<Rightarrow> (i, y)) s of (i, s1) \<Rightarrow>
       if i < 0 then (-1, s1)
       else case on_shared (ipc_shmem_attach i) s1 of (p, s2) \<Rightarrow> (if p = None then -1 else i, s2))
   | IPC_TYPE_MSGQUEUE \<Rightarrow> with_block (on_messages (ipc_msgqueue_connect_client (Some name)) s)
   | IPC_TYPE_SEMAPHORE \<Rightarrow> with_block (on_semaphores (ipc_semaphore_connect_client (Some name)) s)
   | IPC_TYPE_MUTEX \<Rightarrow> with_block (on_semaphores (ipc_mutex_connect_client (Some name)) s)
   | IPC_TYPE_MAX \<Rightarrow> (-1, s))"

definition cleanup_ipc_by_type :: "string \<Rightarrow> ipc_type \<Rightarrow> ipc_data \<Rightarrow> ipc_data" where
  "cleanup_ipc_by_type name t s = (case t of
     IPC_TYPE_SOCKET \<Rightarrow> snd (on_streams (\<lambda>x. ((), ipc_socket_cleanup_server (Some name) x)) s)
   | IPC_TYPE_PIPE \<Rightarrow> snd (on_streams (\<lambda>x. ((), ipc_pipe_cleanup_server (Some name) x)) s)
   | IPC_TYPE_SHMEM \<Rightarrow> snd (on_shared (\<lambda>x. ((), ipc_shmem_cleanup_server (Some name) x)) s)
   | IPC_TYPE_MSGQUEUE \<Rightarrow> snd (on_messages (\<lambda>x. ((), ipc_msgqueue_cleanup_server (Some name) x)) s)
   | IPC_TYPE_SEMAPHORE \<Rightarrow> snd (on_semaphores (\<lambda>x. ((), ipc_semaphore_cleanup_server (Some name) x)) s)
   | IPC_TYPE_MUTEX \<Rightarrow> snd (on_semaphores (\<lambda>x. ((), ipc_mutex_cleanup_server (Some name) x)) s)
   | IPC_TYPE_MAX \<Rightarrow> s)"

section \<open>Life cycle\<close>

definition ipc_unified_init :: "int \<Rightarrow> ipc_data \<Rightarrow> int \<times> ipc_data" where
  "ipc_unified_init now s =
     (if initialized s then (0, s)
      else case ipc_answer s of (mutex_ok, s1) \<Rightarrow>
        if \<not> mutex_ok then (-1, s1)
        else case ipc_answer s1 of (ok, s2) \<Rightarrow>
          if \<not> ok then (-1, s2\<lparr>ipc_mutex := Mutex_dead, table := None, table_size := 100\<rparr>)
          else (0, s2\<lparr>ipc_mutex := Mutex_free, table := Some (replicate 100 no_connection), table_size := 100,
            stats := ipc_zero_stats now, initialized := True\<rparr>))"

definition ipc_unified_create_server :: "ipc_config option \<Rightarrow> ipc_data \<Rightarrow> int \<times> ipc_data" where
  "ipc_unified_create_server config s = (case config of
     None \<Rightarrow> (-1, s) | Some c \<Rightarrow> if \<not> initialized s then (-1, s) else create_ipc_server_by_type c s)"

text \<open>What is stored for a new connection: a block with the number, or shared memory attached once more.\<close>

definition store_private :: "ipc_type \<Rightarrow> int \<Rightarrow> ipc_connection \<Rightarrow> ipc_data \<Rightarrow> ipc_connection \<times> ipc_data" where
  "store_private t result c s =
     (if t = IPC_TYPE_SHMEM
      then case on_shared (ipc_shmem_attach result) s of (p, s1) \<Rightarrow>
        ((case p of None \<Rightarrow> c | Some a \<Rightarrow> c\<lparr>private_data := Shm_address a\<rparr>), s1)
      else if t = IPC_TYPE_MAX then (c, s)
      else case ipc_answer s of (ok, s1) \<Rightarrow> (if ok then c\<lparr>private_data := Int_block result\<rparr> else c, s1))"

definition count_connection :: "ipc_data \<Rightarrow> ipc_data" where
  "count_connection s = (let n = st_connections (stats s) + 1 in
     s\<lparr>stats := (stats s)\<lparr>st_connections := n, st_max_connections := (if st_max_connections (stats s) < n then n else st_max_connections (stats s))\<rparr>\<rparr>)"

definition ipc_unified_connect_to_server :: "int \<Rightarrow> string option \<Rightarrow> ipc_config option \<Rightarrow> ipc_data \<Rightarrow> (int \<times> ipc_data) outcome" where
  "ipc_unified_connect_to_server pid name config s = (case (name, config) of
     (Some n, Some cf) \<Rightarrow>
       if \<not> initialized s then Ret (-1, s)
       else obind (ipc_lock s) (\<lambda>s1. case table s1 of
           None \<Rightarrow> Fault Null_deref
         | Some cs \<Rightarrow> (case find_idx (\<lambda>c. \<not> is_connected c) cs of
             None \<Rightarrow> obind (ipc_unlock s1) (\<lambda>s2. Ret (-1, s2))
           | Some i \<Rightarrow> (case connect_ipc_client_by_type n cf s1 of (result, s2) \<Rightarrow>
               if result < 0 then obind (ipc_unlock s2) (\<lambda>s3. Ret (result, s3))
               else case store_private (ic_type cf) result ((cs ! i)\<lparr>ic_id := int i, ic_kind := ic_type cf, is_connected := True,
                   remote_pid := pid, remote_name := take 63 n\<rparr>) s2 of (c, s3) \<Rightarrow>
                 obind (ipc_unlock (count_connection (set_slot i c s3))) (\<lambda>s4. Ret (int i, s4)))))
   | _ \<Rightarrow> Ret (-1, s))"

text \<open>The pointer is freed by the type that has just been reset.\<close>

definition free_private :: "ipc_connection \<Rightarrow> unit outcome" where
  "free_private c = (case private_data c of Null_ptr \<Rightarrow> Ret () | Int_block n \<Rightarrow> Ret () | Shm_address a \<Rightarrow> Fault Invalid_free)"

definition ipc_unified_disconnect :: "int \<Rightarrow> ipc_data \<Rightarrow> (int \<times> ipc_data) outcome" where
  "ipc_unified_disconnect conn_id s =
     (if \<not> initialized s \<or> conn_id < 0 \<or> int (table_size s) \<le> conn_id then Ret (-1, s)
      else obind (ipc_lock s) (\<lambda>s1. obind (slot_at (nat conn_id) s1) (\<lambda>c.
        if \<not> is_connected c then obind (ipc_unlock s1) (\<lambda>s2. Ret (-1, s2))
        else let s2 = cleanup_ipc_by_type (remote_name c) (ic_kind c) s1 in
          obind (free_private c) (\<lambda>_.
            let s3 = set_slot (nat conn_id) (c\<lparr>is_connected := False, ic_id := -1, ic_kind := IPC_TYPE_SOCKET, remote_pid := 0,
                  remote_name := [], private_data := Null_ptr\<rparr>) s2;
                s4 = (if 0 < st_connections (stats s3) then s3\<lparr>stats := (stats s3)\<lparr>st_connections := st_connections (stats s3) - 1\<rparr>\<rparr> else s3) in
            obind (ipc_unlock s4) (\<lambda>s5. Ret (0, s5))))))"

text \<open>The loop of the cleanup; the mutex is held all the time.\<close>

fun disconnect_all :: "nat \<Rightarrow> nat \<Rightarrow> ipc_data \<Rightarrow> ipc_data outcome" where
  "disconnect_all i 0 s = Ret s"
| "disconnect_all i (Suc n) s = obind (slot_at i s) (\<lambda>c.
     obind (if is_connected c then obind (ipc_unified_disconnect (int i) s) (\<lambda>(r, s1). Ret s1) else Ret s) (\<lambda>s1. disconnect_all (Suc i) n s1))"

definition ipc_unified_cleanup :: "ipc_data \<Rightarrow> ipc_data outcome" where
  "ipc_unified_cleanup s =
     (if \<not> initialized s then Ret s
      else obind (ipc_lock s) (\<lambda>s1. obind (disconnect_all 0 (table_size s1) s1) (\<lambda>s2.
        if ipc_mutex s2 = Mutex_free then Ret (s2\<lparr>table := None, ipc_mutex := Mutex_dead, initialized := False\<rparr>) else Fault Bad_mutex)))"

section \<open>Messages\<close>

definition ipc_unified_is_connected :: "int \<Rightarrow> ipc_data \<Rightarrow> (bool \<times> ipc_data) outcome" where
  "ipc_unified_is_connected conn_id s =
     (if \<not> initialized s \<or> conn_id < 0 \<or> int (table_size s) \<le> conn_id then Ret (False, s)
      else obind (ipc_lock s) (\<lambda>s1. obind (slot_at (nat conn_id) s1) (\<lambda>c. obind (ipc_unlock s1) (\<lambda>s2. Ret (is_connected c, s2)))))"

text \<open>A call under the layer that returns at once, and one that may wait (None).\<close>

definition lift_streams :: "(stream_os \<Rightarrow> ('a \<times> stream_os) outcome) \<Rightarrow> ipc_data \<Rightarrow> ('a \<times> ipc_data) option outcome" where
  "lift_streams f s = obind (f (streams (system s))) (\<lambda>(r, x). Ret (Some (r, s\<lparr>system := (system s)\<lparr>streams := x\<rparr>\<rparr>)))"

definition lift_messages :: "(msg_os \<Rightarrow> ('a \<times> msg_os) option outcome) \<Rightarrow> ipc_data \<Rightarrow> ('a \<times> ipc_data) option outcome" where
  "lift_messages f s = obind (f (messages (system s))) (\<lambda>x. Ret (case x of
     None \<Rightarrow> None | Some (r, y) \<Rightarrow> Some (r, s\<lparr>system := (system s)\<lparr>messages := y\<rparr>\<rparr>)))"

definition lift_shared :: "(shm_os \<Rightarrow> ('a \<times> shm_os) outcome) \<Rightarrow> ipc_data \<Rightarrow> ('a \<times> ipc_data) option outcome" where
  "lift_shared f s = obind (f (shared (system s))) (\<lambda>(r, x). Ret (Some (r, s\<lparr>system := (system s)\<lparr>shared := x\<rparr>\<rparr>)))"

text \<open>The integer behind the pointer; a pointer of the other kind would be misread.\<close>

definition int_behind :: "ipc_pointer \<Rightarrow> int option outcome" where
  "int_behind p = (case p of Null_ptr \<Rightarrow> Ret None | Int_block n \<Rightarrow> Ret (Some n) | Shm_address a \<Rightarrow> Fault Uninit_read)"

definition address_behind :: "ipc_pointer \<Rightarrow> nat option outcome" where
  "address_behind p = (case p of Null_ptr \<Rightarrow> Ret None | Shm_address a \<Rightarrow> Ret (Some a) | Int_block n \<Rightarrow> Fault Out_of_bounds)"

definition send_message_by_type :: "nat \<Rightarrow> string \<Rightarrow> nat \<Rightarrow> ipc_data \<Rightarrow> (int \<times> ipc_data) option outcome" where
  "send_message_by_type i d n s = obind (slot_at i s) (\<lambda>c. case ic_kind c of
     IPC_TYPE_SOCKET \<Rightarrow> obind (int_behind (private_data c)) (\<lambda>p. case p of
       None \<Rightarrow> Ret (Some (-1, s)) | Some fd \<Rightarrow> lift_streams (ipc_socket_send_message fd (Some d) n) s)
   | IPC_TYPE_PIPE \<Rightarrow> obind (int_behind (private_data c)) (\<lambda>p. case p of
       None \<Rightarrow> Ret (Some (-1, s)) | Some fd \<Rightarrow> lift_streams (ipc_pipe_send_message fd (Some d) n) s)
   | IPC_TYPE_SHMEM \<Rightarrow> obind (address_behind (private_data c)) (\<lambda>p. case p of
       None \<Rightarrow> Ret (Some (-1, s)) | Some a \<Rightarrow> lift_shared (ipc_shmem_send_message (Some a) (Some d) n 0) s)
   | IPC_TYPE_MSGQUEUE \<Rightarrow> obind (int_behind (private_data c)) (\<lambda>p. case p of
       None \<Rightarrow> Ret (Some (-1, s)) | Some q \<Rightarrow> lift_messages (ipc_msgqueue_send_message q (Some d) n 1) s)
   | _ \<Rightarrow> Ret (Some (-1, s)))"

definition ipc_unified_send_message :: "int \<Rightarrow> string option \<Rightarrow> nat \<Rightarrow> ipc_data \<Rightarrow> (int \<times> ipc_data) option outcome" where
  "ipc_unified_send_message conn_id data n s = (case data of
     None \<Rightarrow> Ret (Some (-1, s))
   | Some d \<Rightarrow>
       if \<not> initialized s \<or> conn_id < 0 \<or> n = 0 then Ret (Some (-1, s))
       else obind (ipc_unified_is_connected conn_id s) (\<lambda>(yes, s1).
         if \<not> yes then Ret (Some (-1, s1))
         else obind (send_message_by_type (nat conn_id) d n s1) (\<lambda>x. case x of
             None \<Rightarrow> Ret None
           | Some (r, s2) \<Rightarrow>
               if r \<noteq> 0 then Ret (Some (r, s2))
               else obind (ipc_lock s2) (\<lambda>s3.
                 obind (ipc_unlock (s3\<lparr>stats := (stats s3)\<lparr>messages_sent := messages_sent (stats s3) + 1,
                     bytes_sent := bytes_sent (stats s3) + word_of_nat n\<rparr>\<rparr>)) (\<lambda>s4. Ret (Some (0, s4)))))))"

text \<open>
  Receiving: \<open>size_in\<close> is what the caller's size variable holds (None if it was never written). Shared memory reads
  as many bytes as that says and leaves it.
\<close>

definition sized :: "int \<times> (string option \<times> nat) option \<Rightarrow> received" where
  "sized = (\<lambda>(r, out). (r, map_option (\<lambda>(d, n). (d, Some n)) out))"

definition unsized :: "int \<times> string option option \<Rightarrow> received" where
  "unsized = (\<lambda>(r, out). (r, map_option (\<lambda>d. (d, None)) out))"

definition receive_message_by_type :: "nat \<Rightarrow> nat option \<Rightarrow> int \<Rightarrow> ipc_data \<Rightarrow> (received \<times> ipc_data) option outcome" where
  "receive_message_by_type i size_in timeout_ms s = obind (slot_at i s) (\<lambda>c. case ic_kind c of
     IPC_TYPE_SOCKET \<Rightarrow> obind (int_behind (private_data c)) (\<lambda>p. case p of
       None \<Rightarrow> Ret (Some ((-1, None), s))
     | Some fd \<Rightarrow> Ret (case ipc_socket_receive_message fd True True timeout_ms (streams (system s)) of
         None \<Rightarrow> None | Some (r, x) \<Rightarrow> Some (r, s\<lparr>system := (system s)\<lparr>streams := x\<rparr>\<rparr>)))
   | IPC_TYPE_PIPE \<Rightarrow> obind (int_behind (private_data c)) (\<lambda>p. case p of
       None \<Rightarrow> Ret (Some ((-1, None), s))
     | Some fd \<Rightarrow> Ret (case ipc_pipe_receive_message fd True True timeout_ms (streams (system s)) of
         None \<Rightarrow> None | Some (r, x) \<Rightarrow> Some (r, s\<lparr>system := (system s)\<lparr>streams := x\<rparr>\<rparr>)))
   | IPC_TYPE_SHMEM \<Rightarrow> obind (address_behind (private_data c)) (\<lambda>p. case p of
       None \<Rightarrow> Ret (Some ((-1, None), s))
     | Some a \<Rightarrow> (case size_in of
         None \<Rightarrow> Fault Uninit_read
       | Some n \<Rightarrow> lift_shared (\<lambda>x. obind (ipc_shmem_receive_message (Some a) True n 0 x) (\<lambda>(r, out, y). Ret (unsized (r, out), y))) s))
   | IPC_TYPE_MSGQUEUE \<Rightarrow> obind (int_behind (private_data c)) (\<lambda>p. case p of
       None \<Rightarrow> Ret (Some ((-1, None), s))
     | Some q \<Rightarrow> lift_messages (\<lambda>x. Ret (case ipc_msgqueue_receive_message q True True 1 timeout_ms x of
         None \<Rightarrow> None | Some (r, y) \<Rightarrow> Some (sized r, y))) s)
   | _ \<Rightarrow> Ret (Some ((-1, None), s)))"

text \<open>The size after the call.\<close>

definition size_after :: "nat option \<Rightarrow> received \<Rightarrow> nat" where
  "size_after size_in r = (case snd r of Some (d, Some n) \<Rightarrow> n | _ \<Rightarrow> (case size_in of None \<Rightarrow> 0 | Some n \<Rightarrow> n))"

definition ipc_unified_receive_message ::
  "int \<Rightarrow> bool \<Rightarrow> bool \<Rightarrow> nat option \<Rightarrow> int \<Rightarrow> ipc_data \<Rightarrow> (received \<times> ipc_data) option outcome" where
  "ipc_unified_receive_message conn_id data_given size_given size_in timeout_ms s =
     (if \<not> initialized s \<or> conn_id < 0 \<or> \<not> data_given \<or> \<not> size_given then Ret (Some ((-1, None), s))
      else obind (ipc_unified_is_connected conn_id s) (\<lambda>(yes, s1).
        if \<not> yes then Ret (Some ((-1, None), s1))
        else obind (receive_message_by_type (nat conn_id) size_in timeout_ms s1) (\<lambda>x. case x of
            None \<Rightarrow> Ret None
          | Some (r, s2) \<Rightarrow>
              if fst r \<noteq> 0 then Ret (Some (r, s2))
              else obind (ipc_lock s2) (\<lambda>s3.
                obind (ipc_unlock (s3\<lparr>stats := (stats s3)\<lparr>messages_received := messages_received (stats s3) + 1,
                    bytes_received := bytes_received (stats s3) + word_of_nat (size_after size_in r)\<rparr>\<rparr>)) (\<lambda>s4. Ret (Some (r, s4)))))))"

text \<open>The loop of a batch: up to the first message that is not sent.\<close>

fun send_each :: "int \<Rightarrow> string option list \<Rightarrow> nat list \<Rightarrow> nat \<Rightarrow> ipc_data \<Rightarrow> (int \<times> ipc_data) option outcome" where
  "send_each conn_id ds ns 0 s = Ret (Some (0, s))"
| "send_each conn_id (d # ds) (n # ns) (Suc k) s = obind (ipc_unified_send_message conn_id d n s) (\<lambda>x. case x of
     None \<Rightarrow> Ret None
   | Some (r, s1) \<Rightarrow> if r \<noteq> 0 then Ret (Some (-1, s1)) else send_each conn_id ds ns k s1)"
| "send_each conn_id ds ns (Suc k) s = Fault Out_of_bounds"

definition ipc_unified_send_batch ::
  "int \<Rightarrow> string option list option \<Rightarrow> nat list option \<Rightarrow> int \<Rightarrow> ipc_data \<Rightarrow> (int \<times> ipc_data) option outcome" where
  "ipc_unified_send_batch conn_id data_array size_array n s = (case (data_array, size_array) of
     (Some ds, Some ns) \<Rightarrow>
       if \<not> initialized s \<or> conn_id < 0 \<or> n \<le> 0 then Ret (Some (-1, s)) else send_each conn_id ds ns (nat n) s
   | _ \<Rightarrow> Ret (Some (-1, s)))"

text \<open>The result: the code, the message of the arrays and what \<open>count\<close> holds. The size that is handed on was just allocated.\<close>

definition ipc_unified_receive_batch ::
  "int \<Rightarrow> bool \<Rightarrow> int \<Rightarrow> ipc_data \<Rightarrow> ((received \<times> int option) \<times> ipc_data) option outcome" where
  "ipc_unified_receive_batch conn_id outputs_given timeout_ms s =
     (if \<not> initialized s \<or> conn_id < 0 \<or> \<not> outputs_given then Ret (Some (((-1, None), None), s))
      else case ipc_answer s of (ok1, s1) \<Rightarrow> case ipc_answer s1 of (ok2, s2) \<Rightarrow>
        if \<not> ok1 \<or> \<not> ok2 then Ret (Some (((-1, None), Some 1), s2))
        else obind (ipc_unified_receive_message conn_id True True None timeout_ms s2) (\<lambda>x. Ret (case x of
            None \<Rightarrow> None
          | Some (r, s3) \<Rightarrow> if fst r \<noteq> 0 then Some (((fst r, None), Some 0), s3) else Some ((r, Some 1), s3))))"

section \<open>Files, statistics, names\<close>

text \<open>The number of the connection is not compared with the size of the table.\<close>

definition ipc_unified_send_file :: "int \<Rightarrow> string option \<Rightarrow> ipc_data \<Rightarrow> int outcome" where
  "ipc_unified_send_file conn_id filepath s =
     (if \<not> initialized s \<or> conn_id < 0 \<or> filepath = None then Ret (-1)
      else obind (slot_at (nat conn_id) s) (\<lambda>c. Ret (if ic_kind c = IPC_TYPE_SOCKET \<or> ic_kind c = IPC_TYPE_PIPE then 0 else -1)))"

definition ipc_unified_send_directory :: "int \<Rightarrow> string option \<Rightarrow> ipc_data \<Rightarrow> int" where
  "ipc_unified_send_directory conn_id dirpath s = (if \<not> initialized s \<or> conn_id < 0 \<or> dirpath = None then -1 else 0)"

definition ipc_unified_get_statistics :: "int \<Rightarrow> bool \<Rightarrow> ipc_data \<Rightarrow> (int \<times> ipc_stats option \<times> ipc_data) outcome" where
  "ipc_unified_get_statistics now stats_given s =
     (if \<not> initialized s \<or> \<not> stats_given then Ret (-1, None, s)
      else obind (ipc_lock s) (\<lambda>s1.
        let st = (if 0 < start_time (stats s1) then (stats s1)\<lparr>uptime := word_of_int (now - start_time (stats s1))\<rparr> else stats s1) in
        obind (ipc_unlock s1) (\<lambda>s2. Ret (0, Some st, s2))))"

definition ipc_unified_get_connection_count :: "ipc_data \<Rightarrow> (int \<times> ipc_data) outcome" where
  "ipc_unified_get_connection_count s =
     (if \<not> initialized s then Ret (-1, s)
      else obind (ipc_lock s) (\<lambda>s1. obind (ipc_unlock s1) (\<lambda>s2. Ret (sint (ucast (st_connections (stats s1)) :: 32 word), s2))))"

definition ipc_unified_type_string :: "ipc_type \<Rightarrow> string" where
  "ipc_unified_type_string t = (case t of
     IPC_TYPE_SOCKET \<Rightarrow> ''Socket'' | IPC_TYPE_PIPE \<Rightarrow> ''Pipe'' | IPC_TYPE_SHMEM \<Rightarrow> ''Shared Memory'' | IPC_TYPE_MSGQUEUE \<Rightarrow> ''Message Queue''
   | IPC_TYPE_SEMAPHORE \<Rightarrow> ''Semaphore'' | IPC_TYPE_MUTEX \<Rightarrow> ''Mutex'' | IPC_TYPE_MAX \<Rightarrow> ''Unknown'')"

definition ipc_boot :: "ipc_system \<Rightarrow> answers \<Rightarrow> ipc_data" where
  "ipc_boot sys as = \<lparr>initialized = False, ipc_mutex = Mutex_raw, table = None, table_size = 0, stats = ipc_zero_stats 0, system = sys,
     ipc_answers = as\<rparr>"

section \<open>The table stays well typed\<close>

text \<open>
  The pointer of a connection is of the kind that its type says; a free slot has none; a connection knows its number; the
  statistics count the connections.
\<close>

definition kind_ok :: "ipc_connection \<Rightarrow> bool" where
  "kind_ok c \<longleftrightarrow> (case private_data c of
     Null_ptr \<Rightarrow> True | Int_block n \<Rightarrow> ic_kind c \<noteq> IPC_TYPE_SHMEM | Shm_address a \<Rightarrow> ic_kind c = IPC_TYPE_SHMEM)"

definition slot_ok :: "nat \<Rightarrow> ipc_connection \<Rightarrow> bool" where
  "slot_ok i c \<longleftrightarrow> kind_ok c \<and> (if is_connected c then ic_id c = int i \<and> ic_kind c \<noteq> IPC_TYPE_MAX \<and> length (remote_name c) \<le> 63
     else private_data c = Null_ptr \<and> ic_kind c = IPC_TYPE_SOCKET)"

definition table_ok :: "ipc_connection list \<Rightarrow> ipc_stats \<Rightarrow> bool" where
  "table_ok cs st \<longleftrightarrow> length cs = 100 \<and> (\<forall>i < 100. slot_ok i (cs ! i)) \<and> unat (st_connections st) = length (filter is_connected cs)
     \<and> st_connections st \<le> st_max_connections st"

definition ipc_ok :: "uv_mutex \<Rightarrow> ipc_data \<Rightarrow> bool" where
  "ipc_ok m s \<longleftrightarrow> initialized s \<longrightarrow> ipc_mutex s = m \<and> table_size s = 100 \<and> (\<exists>cs. table s = Some cs \<and> table_ok cs (stats s))"

text \<open>The calls under the layer leave its own data alone.\<close>

definition core :: "ipc_data \<Rightarrow> bool \<times> uv_mutex \<times> ipc_connection list option \<times> nat \<times> ipc_stats" where
  "core s = (initialized s, ipc_mutex s, table s, table_size s, stats s)"

lemma core_ok: "core t = core s \<Longrightarrow> ipc_ok m t \<longleftrightarrow> ipc_ok m s"
  by (simp add: core_def ipc_ok_def)

named_theorems core_simps \<open>calls that leave the layer's own data alone\<close>

lemma core_on [core_simps]:
  "core (snd (on_streams f s)) = core s" "core (snd (on_messages g s)) = core s" "core (snd (on_shared h s)) = core s"
  "core (snd (on_semaphores k s)) = core s" "core (snd (ipc_answer s)) = core s"
  by (simp_all add: on_streams_def on_messages_def on_shared_def on_semaphores_def ipc_answer_def core_def split: prod.split)

lemma core_with_block [core_simps]: "core (snd (with_block x)) = core (snd x)"
  using core_on(5) [of "snd x"] by (auto simp: with_block_def case_prod_unfold)

lemma core_create [core_simps]: "core (snd (create_ipc_server_by_type c s)) = core s"
  by (simp add: create_ipc_server_by_type_def core_simps split: ipc_type.split)

lemma core_connect [core_simps]: "core (snd (connect_ipc_client_by_type n c s)) = core s"
proof (cases "ic_type c = IPC_TYPE_SHMEM")
  case True
  let ?f = "\<lambda>x. case ipc_shmem_connect_client (Some n) True x of (i, n, y) \<Rightarrow> (i, y)"
  have "core (snd (on_shared ?f s)) = core s" "core (snd (on_shared (ipc_shmem_attach i) (snd (on_shared ?f s)))) = core (snd (on_shared ?f s))" for i
    by (rule core_on)+
  with True show ?thesis by (simp add: connect_ipc_client_by_type_def case_prod_unfold)
next
  case False
  then show ?thesis by (auto simp: connect_ipc_client_by_type_def core_simps split: ipc_type.split)
qed

lemma core_cleanup [core_simps]: "core (cleanup_ipc_by_type n t s) = core s"
  by (simp add: cleanup_ipc_by_type_def core_simps split: ipc_type.split)

lemma lifted_core:
  "lift_streams f s = Ret (Some (r, s1)) \<Longrightarrow> core s1 = core s" "lift_messages g s = Ret (Some (r, s1)) \<Longrightarrow> core s1 = core s"
  "lift_shared h s = Ret (Some (r, s1)) \<Longrightarrow> core s1 = core s"
  by (auto simp: lift_streams_def lift_messages_def lift_shared_def core_def split: option.splits)

lemma stored_private:
  assumes "store_private t result c s = (c1, s1)" and "t \<noteq> IPC_TYPE_MAX" and "private_data c = Null_ptr" and "ic_kind c = t"
  shows "core s1 = core s" and "kind_ok c1"
    and "\<exists>p. c1 = c\<lparr>private_data := p\<rparr>"
proof -
  have e: "c\<lparr>private_data := Null_ptr\<rparr> = c" using assms(3) by simp
  show "core s1 = core s"
    using assms(1) core_on(3) [of "ipc_shmem_attach result" s] core_on(5) [of s]
    by (auto simp: store_private_def split: prod.splits if_splits option.splits)
  show "kind_ok c1"
    using assms by (auto simp: store_private_def kind_ok_def split: prod.splits if_splits option.splits)
  show "\<exists>p. c1 = c\<lparr>private_data := p\<rparr>"
    using assms(1) e [symmetric] by (auto simp: store_private_def split: prod.splits if_splits option.splits)
qed

section \<open>Counting connections\<close>

lemma filter_update:
  assumes "i < length xs"
  shows "length (filter P (xs[i := x])) + (if P (xs ! i) then 1 else 0) = length (filter P xs) + (if P x then 1 else 0)"
proof -
  have e: "xs = take i xs @ xs ! i # drop (Suc i) xs" using assms by (rule id_take_nth_drop)
  have "length (filter P (xs[i := x])) = length (filter P (take i xs)) + (if P x then 1 else 0) + length (filter P (drop (Suc i) xs))"
    using assms by (simp add: upd_conv_take_nth_drop)
  moreover have "length (filter P xs) = length (filter P (take i xs)) + (if P (xs ! i) then 1 else 0) + length (filter P (drop (Suc i) xs))"
    by (subst e) simp
  ultimately show ?thesis by simp
qed

lemma table_ok_connect:
  assumes "table_ok cs st" and "i < 100" and "\<not> is_connected (cs ! i)" and "slot_ok i c" and "is_connected c"
  shows "table_ok (cs[i := c]) (st\<lparr>st_connections := st_connections st + 1,
    st_max_connections := (if st_max_connections st < st_connections st + 1 then st_connections st + 1 else st_max_connections st)\<rparr>)"
proof -
  have l: "length (filter is_connected (cs[i := c])) = Suc (length (filter is_connected cs))"
    using filter_update [of i cs is_connected c] assms by (simp add: table_ok_def)
  have "length (filter is_connected cs) \<le> 100" using assms(1) length_filter_le [of is_connected cs] by (simp add: table_ok_def)
  then have "unat (st_connections st) \<le> 100" using assms(1) by (simp add: table_ok_def)
  then have "unat (st_connections st + 1) = Suc (unat (st_connections st))" by (simp add: unat_word_ariths)
  with l assms show ?thesis by (auto simp: table_ok_def nth_list_update)
qed

lemma table_ok_disconnect:
  assumes "table_ok cs st" and "i < 100" and "is_connected (cs ! i)" and "slot_ok i c" and "\<not> is_connected c"
  shows "0 < st_connections st \<and> table_ok (cs[i := c]) (st\<lparr>st_connections := st_connections st - 1\<rparr>)"
proof -
  have l: "Suc (length (filter is_connected (cs[i := c]))) = length (filter is_connected cs)"
    using filter_update [of i cs is_connected c] assms by (simp add: table_ok_def)
  then have p: "0 < unat (st_connections st)" using assms(1) unfolding table_ok_def by linarith
  then have q: "0 < st_connections st" by (simp add: word_less_nat_alt)
  then have m: "unat (st_connections st - 1) = unat (st_connections st) - 1" by (simp add: unat_minus_one)
  moreover have "unat (st_connections st) \<le> unat (st_max_connections st)" using assms(1) by (simp add: table_ok_def word_le_nat_alt)
  then have "st_connections st - 1 \<le> st_max_connections st" unfolding word_le_nat_alt m by linarith
  ultimately show ?thesis using l p q assms by (auto simp: table_ok_def nth_list_update)
qed

section \<open>Every operation keeps the table\<close>

abbreviation settled :: "ipc_data \<Rightarrow> bool" where
  "settled s \<equiv> ipc_ok Mutex_free s"

lemma settled_cases:
  assumes "settled s" and "initialized s"
  obtains cs where "ipc_mutex s = Mutex_free" and "table_size s = 100" and "table s = Some cs" and "table_ok cs (stats s)"
  using assms by (auto simp: ipc_ok_def)

lemma init_settled:
  assumes "settled s"
  shows "settled (snd (ipc_unified_init now s))"
proof -
  have "table_ok (replicate 100 no_connection) (ipc_zero_stats now)"
    by (simp add: table_ok_def no_connection_def ipc_zero_stats_def slot_ok_def kind_ok_def)
  then show ?thesis using assms by (auto simp: ipc_unified_init_def ipc_answer_def ipc_ok_def split: prod.splits)
qed

lemma create_settled: "settled s \<Longrightarrow> settled (snd (ipc_unified_create_server config s))"
  using core_ok [OF core_create] by (auto simp: ipc_unified_create_server_def split: option.split)

lemma unlock_core: "ipc_mutex s = Mutex_held \<Longrightarrow> ipc_unlock s = Ret (s\<lparr>ipc_mutex := Mutex_free\<rparr>)"
  by (simp add: ipc_unlock_def)

lemma connect_not_max: "connect_ipc_client_by_type n cf s = (r, s1) \<Longrightarrow> 0 \<le> r \<Longrightarrow> ic_type cf \<noteq> IPC_TYPE_MAX"
  by (auto simp: connect_ipc_client_by_type_def)

text \<open>Connecting: the first free slot is taken when the connection can be made; nothing else changes.\<close>

lemma connect_cases:
  assumes "settled s" and "initialized s" and "table s = Some cs"
  shows "(\<exists>r s1. ipc_unified_connect_to_server pid (Some n) (Some cf) s = Ret (r, s1) \<and> r < 0 \<and> core s1 = core s)
    \<or> (\<exists>i c s1. ipc_unified_connect_to_server pid (Some n) (Some cf) s = Ret (int i, s1) \<and> find_idx (\<lambda>c. \<not> is_connected c) cs = Some i
        \<and> table s1 = Some (cs[i := c]) \<and> is_connected c \<and> ic_kind c = ic_type cf \<and> remote_name c = take 63 n \<and> slot_ok i c
        \<and> initialized s1 \<and> settled s1)"
proof -
  have ok: "ipc_mutex s = Mutex_free" "table_size s = 100" "table_ok cs (stats s)" using assms by (auto simp: ipc_ok_def)
  let ?l = "s\<lparr>ipc_mutex := Mutex_held\<rparr>"
  have lock: "ipc_lock s = Ret ?l" using ok(1) by (simp add: ipc_lock_def)
  show ?thesis
  proof (cases "find_idx (\<lambda>c. \<not> is_connected c) cs")
    case None
    then show ?thesis using assms(2,3) ok(1) lock by (simp add: ipc_unified_connect_to_server_def unlock_core core_def)
  next
    case (Some i)
    have i: "i < 100" "\<not> is_connected (cs ! i)" using find_idx_SomeD [OF Some] ok(3) by (auto simp: table_ok_def)
    obtain r s2 where r: "connect_ipc_client_by_type n cf ?l = (r, s2)" by (cases "connect_ipc_client_by_type n cf ?l")
    have c2: "core s2 = core ?l" using core_connect [of n cf ?l] r by simp
    show ?thesis
    proof (cases "r < 0")
      case True
      moreover have "ipc_unlock s2 = Ret (s2\<lparr>ipc_mutex := Mutex_free\<rparr>)" "core (s2\<lparr>ipc_mutex := Mutex_free\<rparr>) = core s"
        using c2 ok(1) by (simp_all add: core_def unlock_core)
      ultimately show ?thesis using Some r lock assms(2,3) by (simp add: ipc_unified_connect_to_server_def)
    next
      case False
      let ?c = "(cs ! i)\<lparr>ic_id := int i, ic_kind := ic_type cf, is_connected := True, remote_pid := pid, remote_name := take 63 n\<rparr>"
      obtain c s3 where c: "store_private (ic_type cf) r ?c s2 = (c, s3)" by (cases "store_private (ic_type cf) r ?c s2")
      have t: "ic_type cf \<noteq> IPC_TYPE_MAX" using connect_not_max [OF r] False by simp
      have p: "private_data ?c = Null_ptr" using ok(3) i by (simp add: table_ok_def slot_ok_def)
      note st = stored_private [OF c t p]
      obtain q where q: "c = ?c\<lparr>private_data := q\<rparr>" "kind_ok c" "core s3 = core s2" using st by auto
      have so: "slot_ok i c" "is_connected c" using q t by (auto simp: slot_ok_def)
      let ?s4 = "count_connection (set_slot i c s3)"
      have s3: "initialized s3" "ipc_mutex s3 = Mutex_held" "table s3 = Some cs" "table_size s3 = 100" "stats s3 = stats s"
        using q(3) c2 assms(2,3) ok by (simp_all add: core_def)
      have "stats ?s4 = (stats s)\<lparr>st_connections := st_connections (stats s) + 1, st_max_connections :=
          (if st_max_connections (stats s) < st_connections (stats s) + 1 then st_connections (stats s) + 1 else st_max_connections (stats s))\<rparr>"
        using s3(5) by (simp add: count_connection_def set_slot_def Let_def)
      with table_ok_connect [OF ok(3) i so] have "table_ok (cs[i := c]) (stats ?s4)" by (simp only:)
      then have "settled (?s4\<lparr>ipc_mutex := Mutex_free\<rparr>)" "initialized (?s4\<lparr>ipc_mutex := Mutex_free\<rparr>)"
          "table (?s4\<lparr>ipc_mutex := Mutex_free\<rparr>) = Some (cs[i := c])"
        using s3 by (simp_all add: ipc_ok_def count_connection_def set_slot_def Let_def)
      moreover have "ipc_unlock ?s4 = Ret (?s4\<lparr>ipc_mutex := Mutex_free\<rparr>)"
        using s3(2) by (simp add: unlock_core count_connection_def set_slot_def Let_def)
      ultimately show ?thesis using Some r c lock assms(2,3) False so q(1)
        by (auto simp: ipc_unified_connect_to_server_def)
    qed
  qed
qed

lemma connect_settled:
  assumes "settled s"
  shows "\<exists>r s1. ipc_unified_connect_to_server pid name config s = Ret (r, s1) \<and> settled s1"
proof (cases "initialized s \<and> name \<noteq> None \<and> config \<noteq> None")
  case True
  then obtain n cf cs where "name = Some n" "config = Some cf" "table s = Some cs" using assms by (auto simp: ipc_ok_def)
  with connect_cases [OF assms, of cs pid n cf] True core_ok assms show ?thesis by blast
next
  case False
  with assms show ?thesis by (auto simp: ipc_unified_connect_to_server_def split: option.split)
qed

text \<open>Disconnecting: a slot with shared memory cannot be freed, any other is.\<close>

lemma disconnect_cases:
  assumes "settled s" and "initialized s" and "table s = Some cs" and "0 \<le> i" and "i < 100" and "is_connected (cs ! nat i)"
  shows "if \<exists>a. private_data (cs ! nat i) = Shm_address a then ipc_unified_disconnect i s = Fault Invalid_free
    else \<exists>c s1. ipc_unified_disconnect i s = Ret (0, s1) \<and> settled s1 \<and> initialized s1 \<and> table s1 = Some (cs[nat i := c])
      \<and> \<not> is_connected c \<and> system s1 = system (cleanup_ipc_by_type (remote_name (cs ! nat i)) (ic_kind (cs ! nat i)) s)"
proof -
  have ok: "ipc_mutex s = Mutex_free" "table_size s = 100" "table_ok cs (stats s)" using assms by (auto simp: ipc_ok_def)
  let ?l = "s\<lparr>ipc_mutex := Mutex_held\<rparr>" and ?c = "cs ! nat i"
  let ?s2 = "cleanup_ipc_by_type (remote_name ?c) (ic_kind ?c) ?l"
  let ?d = "?c\<lparr>is_connected := False, ic_id := -1, ic_kind := IPC_TYPE_SOCKET, remote_pid := 0, remote_name := [], private_data := Null_ptr\<rparr>"
  have lock: "ipc_lock s = Ret ?l" using ok(1) by (simp add: ipc_lock_def)
  have n: "nat i < 100" "slot_at (nat i) ?l = Ret ?c" using assms ok(3) by (simp_all add: slot_at_def table_ok_def)
  have s2: "initialized ?s2" "ipc_mutex ?s2 = Mutex_held" "table ?s2 = Some cs" "table_size ?s2 = 100" "stats ?s2 = stats s"
    using core_cleanup [of "remote_name ?c" "ic_kind ?c" ?l] assms(2,3) ok by (simp_all add: core_def)
  have sys: "system ?s2 = system (cleanup_ipc_by_type (remote_name ?c) (ic_kind ?c) s)"
    by (simp add: cleanup_ipc_by_type_def on_streams_def on_messages_def on_shared_def on_semaphores_def split: ipc_type.split)
  have so: "slot_ok (nat i) ?d" "\<not> is_connected ?d" by (simp_all add: slot_ok_def kind_ok_def)
  note td = table_ok_disconnect [OF ok(3) n(1) assms(6) so]
  show ?thesis
  proof (cases "\<exists>a. private_data ?c = Shm_address a")
    case True
    then show ?thesis using assms(2,4,5,6) ok(2) lock n(2) by (auto simp: ipc_unified_disconnect_def free_private_def Let_def)
  next
    case False
    then have f: "free_private ?c = Ret ()" by (simp add: free_private_def split: ipc_pointer.split)
    let ?s4 = "(set_slot (nat i) ?d ?s2)\<lparr>stats := (stats s)\<lparr>st_connections := st_connections (stats s) - 1\<rparr>\<rparr>"
    have u: "ipc_unlock ?s4 = Ret (?s4\<lparr>ipc_mutex := Mutex_free\<rparr>)" using s2(2) by (simp add: unlock_core set_slot_def)
    have "ipc_unified_disconnect i s = Ret (0, ?s4\<lparr>ipc_mutex := Mutex_free\<rparr>)"
      using assms(2,4,5,6) ok(2) lock n(2) f u td s2(5) by (simp add: ipc_unified_disconnect_def Let_def set_slot_def)
    moreover have "settled (?s4\<lparr>ipc_mutex := Mutex_free\<rparr>)" "initialized (?s4\<lparr>ipc_mutex := Mutex_free\<rparr>)"
        "table (?s4\<lparr>ipc_mutex := Mutex_free\<rparr>) = Some (cs[nat i := ?d])" "system (?s4\<lparr>ipc_mutex := Mutex_free\<rparr>) = system ?s2"
      using s2 td by (simp_all add: ipc_ok_def set_slot_def)
    ultimately show ?thesis using False so(2) sys by auto
  qed
qed

lemma disconnect_settled:
  assumes "settled s"
  shows "case ipc_unified_disconnect i s of
      Ret (r, s1) \<Rightarrow> settled s1
    | Fault e \<Rightarrow> e = Invalid_free \<and> (\<exists>c. slot_at (nat i) s = Ret c \<and> is_connected c \<and> ic_kind c = IPC_TYPE_SHMEM)"
proof (cases "initialized s \<and> 0 \<le> i \<and> i < 100")
  case False
  then have "ipc_unified_disconnect i s = Ret (-1, s)" using assms by (auto simp: ipc_unified_disconnect_def ipc_ok_def)
  with assms show ?thesis by simp
next
  case True
  then obtain cs where cs: "ipc_mutex s = Mutex_free" "table_size s = 100" "table s = Some cs" "table_ok cs (stats s)"
    using settled_cases [OF assms] by blast
  have sl: "slot_at (nat i) t = Ret (cs ! nat i)" if "table t = Some cs" for t using that True cs(4) by (auto simp: slot_at_def table_ok_def)
  show ?thesis
  proof (cases "is_connected (cs ! nat i)")
    case False
    have "s\<lparr>ipc_mutex := Mutex_free\<rparr> = s" using cs(1) by simp
    with True False cs sl have "ipc_unified_disconnect i s = Ret (-1, s)"
      by (simp add: ipc_unified_disconnect_def ipc_lock_def unlock_core)
    with assms show ?thesis by simp
  next
    case conn: True
    have k: "slot_ok (nat i) (cs ! nat i)" using cs(4) True by (auto simp: table_ok_def)
    show ?thesis
    proof (cases "\<exists>a. private_data (cs ! nat i) = Shm_address a")
      case True
      moreover have "ic_kind (cs ! nat i) = IPC_TYPE_SHMEM" using True k by (auto simp: slot_ok_def kind_ok_def)
      ultimately show ?thesis using disconnect_cases [OF assms _ cs(3)] \<open>initialized s \<and> 0 \<le> i \<and> i < 100\<close> conn sl [OF cs(3)] by simp
    next
      case False
      with disconnect_cases [OF assms _ cs(3), of i] \<open>initialized s \<and> 0 \<le> i \<and> i < 100\<close> conn show ?thesis by auto
    qed
  qed
qed

lemma connected_value:
  assumes "settled s"
  shows "\<exists>b. ipc_unified_is_connected i s = Ret (b, s) \<and> (b \<longrightarrow> initialized s \<and> 0 \<le> i
    \<and> (\<exists>c. slot_at (nat i) s = Ret c \<and> is_connected c \<and> slot_ok (nat i) c))"
proof (cases "initialized s \<and> 0 \<le> i \<and> i < 100")
  case False
  then have "ipc_unified_is_connected i s = Ret (False, s)" using assms by (auto simp: ipc_unified_is_connected_def ipc_ok_def)
  then show ?thesis by blast
next
  case True
  then obtain cs where cs: "ipc_mutex s = Mutex_free" "table_size s = 100" "table s = Some cs" "table_ok cs (stats s)"
    using settled_cases [OF assms] by blast
  have e: "s\<lparr>ipc_mutex := Mutex_free\<rparr> = s" using cs(1) by simp
  have "slot_at (nat i) (s\<lparr>ipc_mutex := Mutex_held\<rparr>) = Ret (cs ! nat i)" "slot_at (nat i) s = Ret (cs ! nat i)" "slot_ok (nat i) (cs ! nat i)"
    using True cs by (auto simp: slot_at_def table_ok_def)
  with True cs show ?thesis by (auto simp: ipc_unified_is_connected_def ipc_lock_def unlock_core e)
qed

text \<open>Which faults can come from below.\<close>

lemma write_some_faults: "write_some fd d s = Fault e \<Longrightarrow> e = Broken_pipe"
  by (auto simp: write_some_def Let_def split: option.splits fd_entry.splits if_splits prod.splits)

lemma send_loop_faults: "send_loop fd d s = Fault e \<Longrightarrow> e = Broken_pipe"
proof (induction fd d s rule: send_loop.induct)
  case (1 fd data s)
  show ?case
  proof (cases "data = []")
    case False
    show ?thesis
    proof (cases "write_some fd data s")
      case (Fault x)
      with 1(2) False write_some_faults [OF Fault] show ?thesis by (simp add: send_loop.simps [of fd data])
    next
      case (Ret y)
      obtain k s1 where y: "y = (k, s1)" by (cases y)
      show ?thesis
      proof (cases k)
        case None
        with 1(2) False Ret y show ?thesis by (simp add: send_loop.simps [of fd data])
      next
        case (Some m)
        with 1(2) False Ret y have "send_loop fd (drop m data) s1 = Fault e" by (simp add: send_loop.simps [of fd data])
        with 1(1) [OF False Ret y [symmetric] Some] show ?thesis by blast
      qed
    qed
  qed (use 1(2) in \<open>simp add: send_loop.simps\<close>)
qed

lemma send_framed_faults: "send_framed fd d n s = Fault e \<Longrightarrow> e = Broken_pipe \<or> e = Out_of_bounds"
  by (auto simp: send_framed_def obind_eq_Fault dest: write_some_faults send_loop_faults split: option.splits if_splits prod.splits)

lemma reachable_faults: "reachable_bytes p offset n s = Fault e \<Longrightarrow> e = Use_after_free \<or> e = Out_of_bounds"
  by (auto simp: reachable_bytes_def split: option.splits if_splits)

lemma shmem_faults:
  "ipc_shmem_send_message p d n offset s = Fault e \<Longrightarrow> e = Use_after_free \<or> e = Out_of_bounds"
  "ipc_shmem_receive_message p b n offset s = Fault e \<Longrightarrow> e = Use_after_free \<or> e = Out_of_bounds"
  by (auto simp: ipc_shmem_send_message_def ipc_shmem_receive_message_def obind_eq_Fault dest: reachable_faults
      split: option.splits if_splits prod.splits)

lemma msgqueue_faults: "ipc_msgqueue_send_message q d n t s = Fault e \<Longrightarrow> e = Out_of_bounds"
  by (auto simp: ipc_msgqueue_send_message_def split: option.splits if_splits)

definition send_faults :: "fault set" where
  "send_faults = {Broken_pipe, Out_of_bounds, Use_after_free}"

lemma send_by_type:
  assumes "slot_at i s = Ret c" and "kind_ok c"
  shows "case send_message_by_type i d n s of
      Ret None \<Rightarrow> True | Ret (Some (r, s1)) \<Rightarrow> core s1 = core s | Fault e \<Rightarrow> e \<in> send_faults"
proof (cases "send_message_by_type i d n s")
  case (Fault e)
  with assms have "e \<in> send_faults"
    by (auto simp: send_message_by_type_def int_behind_def address_behind_def kind_ok_def lift_streams_def lift_messages_def lift_shared_def
        obind_eq_Fault send_faults_def ipc_socket_send_message_def ipc_pipe_send_message_def
        dest: send_framed_faults shmem_faults msgqueue_faults split: ipc_type.splits ipc_pointer.splits option.splits)
  with Fault show ?thesis by simp
next
  case (Ret x)
  show ?thesis
  proof (cases x)
    case (Some y)
    obtain r s1 where y: "y = (r, s1)" by (cases y)
    have "core s1 = core s"
      using Ret Some y assms
      by (auto simp: send_message_by_type_def int_behind_def address_behind_def dest: lifted_core
          split: ipc_type.splits ipc_pointer.splits option.splits)
    with Ret Some y show ?thesis by simp
  qed (simp add: Ret)
qed

text \<open>Updating the statistics under the mutex keeps the table when the connections are not counted anew.\<close>

lemma locked_stats_frame:
  assumes "settled s" and "initialized s" and "st_connections (f (stats s)) = st_connections (stats s)"
    and "st_max_connections (f (stats s)) = st_max_connections (stats s)"
  shows "\<exists>s1. obind (ipc_lock s) (\<lambda>s3. obind (ipc_unlock (s3\<lparr>stats := f (stats s3)\<rparr>)) (\<lambda>s4. Ret (Some (r, s4)))) = Ret (Some (r, s1))
    \<and> settled s1 \<and> initialized s1 \<and> table s1 = table s \<and> system s1 = system s"
proof -
  obtain cs where "ipc_mutex s = Mutex_free" "table_size s = 100" "table s = Some cs" "table_ok cs (stats s)"
    using settled_cases [OF assms(1,2)] .
  with assms show ?thesis by (simp add: ipc_lock_def unlock_core ipc_ok_def table_ok_def)
qed

lemma locked_stats:
  assumes "settled s" and "initialized s" and "st_connections (f (stats s)) = st_connections (stats s)"
    and "st_max_connections (f (stats s)) = st_max_connections (stats s)"
  shows "\<exists>s1. obind (ipc_lock s) (\<lambda>s3. obind (ipc_unlock (s3\<lparr>stats := f (stats s3)\<rparr>)) (\<lambda>s4. Ret (Some (r, s4)))) = Ret (Some (r, s1)) \<and> settled s1"
  using locked_stats_frame [where f = f and r = r, OF assms] by (elim exE conjE) (intro exI conjI)

lemma send_settled:
  assumes "settled s"
  shows "case ipc_unified_send_message i d n s of Ret None \<Rightarrow> True | Ret (Some (r, s1)) \<Rightarrow> settled s1 | Fault e \<Rightarrow> e \<in> send_faults"
proof (cases "d = None \<or> \<not> initialized s \<or> i < 0 \<or> n = 0")
  case True
  with assms show ?thesis by (auto simp: ipc_unified_send_message_def split: option.split)
next
  case False
  then obtain x where x: "d = Some x" "initialized s" "\<not> i < 0" "n \<noteq> 0" by auto
  obtain b where b: "ipc_unified_is_connected i s = Ret (b, s)" "b \<longrightarrow> (\<exists>c. slot_at (nat i) s = Ret c \<and> slot_ok (nat i) c)"
    using connected_value [OF assms] by blast
  show ?thesis
  proof (cases b)
    case False
    with x b assms show ?thesis by (simp add: ipc_unified_send_message_def)
  next
    case True
    then obtain c where c: "slot_at (nat i) s = Ret c" "kind_ok c" using b(2) by (auto simp: slot_ok_def)
    have e: "ipc_unified_send_message i d n s = obind (send_message_by_type (nat i) x n s) (\<lambda>y. case y of
        None \<Rightarrow> Ret None
      | Some (r, s2) \<Rightarrow> if r \<noteq> 0 then Ret (Some (r, s2)) else obind (ipc_lock s2) (\<lambda>s3.
          obind (ipc_unlock (s3\<lparr>stats := (stats s3)\<lparr>messages_sent := messages_sent (stats s3) + 1,
            bytes_sent := bytes_sent (stats s3) + word_of_nat n\<rparr>\<rparr>)) (\<lambda>s4. Ret (Some (0, s4)))))"
      using x b(1) True by (simp add: ipc_unified_send_message_def)
    note t = send_by_type [OF c, of x n]
    show ?thesis
    proof (cases "send_message_by_type (nat i) x n s")
      case (Fault f)
      with t e show ?thesis by simp
    next
      case (Ret y)
      show ?thesis
      proof (cases y)
        case None
        with e Ret show ?thesis by simp
      next
        case (Some z)
        obtain r s2 where z: "z = (r, s2)" by (cases z)
        with t Ret Some have k: "core s2 = core s" by simp
        then have "settled s2" using core_ok [of s2 s] assms by blast
        moreover have "initialized s2" using k x(2) by (simp add: core_def)
        ultimately have s2: "settled s2" "initialized s2" .
        let ?f = "\<lambda>st. st\<lparr>messages_sent := messages_sent st + 1, bytes_sent := bytes_sent st + word_of_nat n\<rparr>"
        let ?L = "obind (ipc_lock s2) (\<lambda>s3. obind (ipc_unlock (s3\<lparr>stats := ?f (stats s3)\<rparr>)) (\<lambda>s4. Ret (Some (0 :: int, s4))))"
        have "\<exists>s4. ?L = Ret (Some (0, s4)) \<and> settled s4" by (rule locked_stats [OF s2, where f = ?f]) simp_all
        then obtain s4 where L: "?L = Ret (Some (0, s4))" "settled s4" by blast
        have "ipc_unified_send_message i d n s = (if r \<noteq> 0 then Ret (Some (r, s2)) else Ret (Some (0, s4)))"
          unfolding e Ret Some z obind.simps option.case prod.case L(1) ..
        with L(2) s2(1) show ?thesis by (cases "r = 0") simp_all
      qed
    qed
  qed
qed

lemma send_each_settled:
  "settled s \<Longrightarrow> case send_each i ds ns k s of Ret None \<Rightarrow> True | Ret (Some (r, s1)) \<Rightarrow> settled s1 | Fault e \<Rightarrow> e \<in> send_faults"
proof (induction i ds ns k s rule: send_each.induct)
  case (2 conn_id d ds n ns k s)
  note m = send_settled [OF "2.prems", of conn_id d n]
  show ?case
  proof (cases "ipc_unified_send_message conn_id d n s")
    case (Ret y)
    show ?thesis
    proof (cases y)
      case (Some z)
      obtain r s1 where z: "z = (r, s1)" by (cases z)
      with m Ret Some have s1: "settled s1" by simp
      show ?thesis using "2.IH" [OF _ s1, of 0] Ret Some z s1 by (cases "r = 0") simp_all
    qed (use Ret in simp)
  qed (use m in simp)
qed (simp_all add: send_faults_def)

lemma receive_by_type:
  assumes "slot_at i s = Ret c" and "kind_ok c"
  shows "case receive_message_by_type i size_in t s of
      Ret None \<Rightarrow> True | Ret (Some (r, s1)) \<Rightarrow> core s1 = core s
    | Fault e \<Rightarrow> ic_kind c = IPC_TYPE_SHMEM \<and> (if size_in = None then e = Uninit_read else e = Out_of_bounds \<or> e = Use_after_free)"
proof (cases "receive_message_by_type i size_in t s")
  case (Fault e)
  with assms have "ic_kind c = IPC_TYPE_SHMEM \<and> (if size_in = None then e = Uninit_read else e = Out_of_bounds \<or> e = Use_after_free)"
    by (auto simp: receive_message_by_type_def int_behind_def address_behind_def kind_ok_def lift_messages_def lift_shared_def obind_eq_Fault
        dest: shmem_faults split: ipc_type.splits ipc_pointer.splits option.splits)
  with Fault show ?thesis by simp
next
  case (Ret x)
  show ?thesis
  proof (cases x)
    case (Some y)
    obtain r s1 where y: "y = (r, s1)" by (cases y)
    have "core s1 = core s"
      using Ret Some y assms
      by (auto simp: receive_message_by_type_def int_behind_def address_behind_def dest: lifted_core
          split: ipc_type.splits ipc_pointer.splits option.splits) (auto simp: core_def)
    with Ret Some y show ?thesis by simp
  qed (simp add: Ret)
qed

definition on_shm_slot :: "int \<Rightarrow> ipc_data \<Rightarrow> bool" where
  "on_shm_slot i s \<longleftrightarrow> (\<exists>c. slot_at (nat i) s = Ret c \<and> is_connected c \<and> ic_kind c = IPC_TYPE_SHMEM)"

lemma receive_settled:
  assumes "settled s"
  shows "case ipc_unified_receive_message i dg sg size_in t s of
      Ret None \<Rightarrow> True | Ret (Some (r, s1)) \<Rightarrow> settled s1
    | Fault e \<Rightarrow> on_shm_slot i s \<and> (if size_in = None then e = Uninit_read else e = Out_of_bounds \<or> e = Use_after_free)"
proof (cases "\<not> initialized s \<or> i < 0 \<or> \<not> dg \<or> \<not> sg")
  case True
  with assms show ?thesis by (auto simp: ipc_unified_receive_message_def)
next
  case False
  then have x: "initialized s" "\<not> i < 0" dg sg by auto
  obtain b where b: "ipc_unified_is_connected i s = Ret (b, s)"
      "b \<longrightarrow> (\<exists>c. slot_at (nat i) s = Ret c \<and> is_connected c \<and> slot_ok (nat i) c)"
    using connected_value [OF assms] by blast
  show ?thesis
  proof (cases b)
    case False
    with x b assms show ?thesis by (simp add: ipc_unified_receive_message_def)
  next
    case True
    then obtain c where c: "slot_at (nat i) s = Ret c" "kind_ok c" "is_connected c" using b(2) by (auto simp: slot_ok_def)
    have e: "ipc_unified_receive_message i dg sg size_in t s = obind (receive_message_by_type (nat i) size_in t s) (\<lambda>y. case y of
        None \<Rightarrow> Ret None
      | Some (r, s2) \<Rightarrow> if fst r \<noteq> 0 then Ret (Some (r, s2)) else obind (ipc_lock s2) (\<lambda>s3.
          obind (ipc_unlock (s3\<lparr>stats := (stats s3)\<lparr>messages_received := messages_received (stats s3) + 1,
            bytes_received := bytes_received (stats s3) + word_of_nat (size_after size_in r)\<rparr>\<rparr>)) (\<lambda>s4. Ret (Some (r, s4)))))"
      using x b(1) True by (simp add: ipc_unified_receive_message_def)
    note u = receive_by_type [OF c(1,2), of size_in t]
    show ?thesis
    proof (cases "receive_message_by_type (nat i) size_in t s")
      case (Fault f)
      with u e c show ?thesis by (auto simp: on_shm_slot_def)
    next
      case (Ret y)
      show ?thesis
      proof (cases y)
        case None
        with e Ret show ?thesis by simp
      next
        case (Some z)
        obtain r s2 where z: "z = (r, s2)" by (cases z)
        with u Ret Some have k: "core s2 = core s" by simp
        then have "settled s2" using core_ok [of s2 s] assms by blast
        moreover have "initialized s2" using k x(1) by (simp add: core_def)
        ultimately have s2: "settled s2" "initialized s2" .
        let ?f = "\<lambda>st. st\<lparr>messages_received := messages_received st + 1, bytes_received := bytes_received st + word_of_nat (size_after size_in r)\<rparr>"
        let ?L = "obind (ipc_lock s2) (\<lambda>s3. obind (ipc_unlock (s3\<lparr>stats := ?f (stats s3)\<rparr>)) (\<lambda>s4. Ret (Some (r, s4))))"
        have "\<exists>s4. ?L = Ret (Some (r, s4)) \<and> settled s4" by (rule locked_stats [OF s2, where f = ?f]) simp_all
        then obtain s4 where L: "?L = Ret (Some (r, s4))" "settled s4" by blast
        have "ipc_unified_receive_message i dg sg size_in t s = (if fst r \<noteq> 0 then Ret (Some (r, s2)) else Ret (Some (r, s4)))"
          unfolding e Ret Some z obind.simps option.case prod.case L(1) ..
        with L(2) s2(1) show ?thesis by (cases "fst r = 0") simp_all
      qed
    qed
  qed
qed

section \<open>Runs\<close>

datatype ipc_op =
    Ipc_init int | Ipc_create "ipc_config option" | Ipc_connect int "string option" "ipc_config option" | Ipc_disconnect int
  | Ipc_send int "string option" nat | Ipc_send_batch int "string option list option" "nat list option" int
  | Ipc_receive int "nat option" int | Ipc_receive_batch int int | Ipc_asks int | Ipc_count | Ipc_statistics int | Ipc_send_file int "string option"

definition after :: "ipc_data \<Rightarrow> ('a \<times> ipc_data) option \<Rightarrow> ipc_data" where
  "after s x = (case x of None \<Rightarrow> s | Some (r, s1) \<Rightarrow> s1)"

fun ipc_step :: "ipc_op \<Rightarrow> ipc_data \<Rightarrow> ipc_data outcome" where
  "ipc_step (Ipc_init now) s = Ret (snd (ipc_unified_init now s))"
| "ipc_step (Ipc_create config) s = Ret (snd (ipc_unified_create_server config s))"
| "ipc_step (Ipc_connect pid name config) s = obind (ipc_unified_connect_to_server pid name config s) (\<lambda>x. Ret (snd x))"
| "ipc_step (Ipc_disconnect i) s = obind (ipc_unified_disconnect i s) (\<lambda>x. Ret (snd x))"
| "ipc_step (Ipc_send i d n) s = obind (ipc_unified_send_message i d n s) (\<lambda>x. Ret (after s x))"
| "ipc_step (Ipc_send_batch i ds ns n) s = obind (ipc_unified_send_batch i ds ns n s) (\<lambda>x. Ret (after s x))"
| "ipc_step (Ipc_receive i size_in t) s = obind (ipc_unified_receive_message i True True size_in t s) (\<lambda>x. Ret (after s x))"
| "ipc_step (Ipc_receive_batch i t) s = obind (ipc_unified_receive_batch i True t s) (\<lambda>x. Ret (after s x))"
| "ipc_step (Ipc_asks i) s = obind (ipc_unified_is_connected i s) (\<lambda>x. Ret (snd x))"
| "ipc_step Ipc_count s = obind (ipc_unified_get_connection_count s) (\<lambda>x. Ret (snd x))"
| "ipc_step (Ipc_statistics now) s = obind (ipc_unified_get_statistics now True s) (\<lambda>(r, st, s1). Ret s1)"
| "ipc_step (Ipc_send_file i f) s = obind (ipc_unified_send_file i f s) (\<lambda>r. Ret s)"

fun run_ipc :: "ipc_op list \<Rightarrow> ipc_data \<Rightarrow> ipc_data outcome" where
  "run_ipc [] s = Ret s"
| "run_ipc (x # xs) s = obind (ipc_step x s) (run_ipc xs)"

text \<open>
  The faults that are left: freeing shared memory on a disconnect, what a send can meet below the layer, shared memory
  that is read past its end or with a size that was never written, and a file for a connection outside the table.
\<close>

fun may_fault :: "ipc_op \<Rightarrow> ipc_data \<Rightarrow> fault \<Rightarrow> bool" where
  "may_fault (Ipc_disconnect i) s e \<longleftrightarrow> on_shm_slot i s \<and> e = Invalid_free"
| "may_fault (Ipc_send i d n) s e \<longleftrightarrow> e \<in> send_faults"
| "may_fault (Ipc_send_batch i ds ns n) s e \<longleftrightarrow> e \<in> send_faults"
| "may_fault (Ipc_receive i size_in t) s e \<longleftrightarrow> on_shm_slot i s \<and> (if size_in = None then e = Uninit_read else e = Out_of_bounds \<or> e = Use_after_free)"
| "may_fault (Ipc_receive_batch i t) s e \<longleftrightarrow> on_shm_slot i s \<and> e = Uninit_read"
| "may_fault (Ipc_send_file i f) s e \<longleftrightarrow> 100 \<le> i \<and> e = Out_of_bounds"
| "may_fault _ s e \<longleftrightarrow> False"

lemma on_shm_core: "core t = core s \<Longrightarrow> on_shm_slot i t = on_shm_slot i s"
  by (simp add: on_shm_slot_def slot_at_def core_def)

lemma receive_batch_settled:
  assumes "settled s"
  shows "case ipc_unified_receive_batch i g t s of
      Ret None \<Rightarrow> True | Ret (Some (r, s1)) \<Rightarrow> settled s1 | Fault e \<Rightarrow> on_shm_slot i s \<and> e = Uninit_read"
proof (cases "\<not> initialized s \<or> i < 0 \<or> \<not> g")
  case True
  with assms show ?thesis by (auto simp: ipc_unified_receive_batch_def)
next
  case False
  obtain ok1 s1 where 1: "ipc_answer s = (ok1, s1)" by (cases "ipc_answer s")
  obtain ok2 s2 where 2: "ipc_answer s1 = (ok2, s2)" by (cases "ipc_answer s1")
  have k: "core s2 = core s" using core_on(5) [of s] core_on(5) [of s1] 1 2 by simp
  then have s2: "settled s2" using core_ok [of s2 s] assms by blast
  note r = receive_settled [OF s2, where i = i and dg = True and sg = True and size_in = None and t = t]
  show ?thesis
  proof (cases "ok1 \<and> ok2")
    case False
    with \<open>\<not> (\<not> initialized s \<or> i < 0 \<or> \<not> g)\<close> 1 2 s2 show ?thesis by (auto simp: ipc_unified_receive_batch_def)
  next
    case True
    then have e: "ipc_unified_receive_batch i g t s = obind (ipc_unified_receive_message i True True None t s2) (\<lambda>x. Ret (case x of
        None \<Rightarrow> None | Some (r, s3) \<Rightarrow> if fst r \<noteq> 0 then Some (((fst r, None), Some 0), s3) else Some ((r, Some 1), s3)))"
      using \<open>\<not> (\<not> initialized s \<or> i < 0 \<or> \<not> g)\<close> 1 2 by (simp add: ipc_unified_receive_batch_def)
    show ?thesis
    proof (cases "ipc_unified_receive_message i True True None t s2")
      case (Fault f)
      with e r on_shm_core [OF k] show ?thesis by simp
    next
      case (Ret y)
      then show ?thesis using e r by (cases y) (auto split: prod.splits if_splits)
    qed
  qed
qed

lemma count_settled: "settled s \<Longrightarrow> \<exists>r. ipc_unified_get_connection_count s = Ret (r, s)"
proof (cases "initialized s")
  case True
  assume "settled s"
  then have m: "ipc_mutex s = Mutex_free" using True by (simp add: ipc_ok_def)
  then have "s\<lparr>ipc_mutex := Mutex_free\<rparr> = s" by simp
  with True m show ?thesis by (simp add: ipc_unified_get_connection_count_def ipc_lock_def unlock_core)
qed (simp add: ipc_unified_get_connection_count_def)

lemma statistics_settled: "settled s \<Longrightarrow> \<exists>r st. ipc_unified_get_statistics now g s = Ret (r, st, s)"
proof (cases "initialized s \<and> g")
  case True
  assume "settled s"
  then have m: "ipc_mutex s = Mutex_free" using True by (simp add: ipc_ok_def)
  then have "s\<lparr>ipc_mutex := Mutex_free\<rparr> = s" by simp
  with True m show ?thesis by (simp add: ipc_unified_get_statistics_def ipc_lock_def unlock_core Let_def)
qed (auto simp: ipc_unified_get_statistics_def)

lemma send_file_settled:
  assumes "settled s"
  shows "case ipc_unified_send_file i f s of Ret r \<Rightarrow> True | Fault e \<Rightarrow> 100 \<le> i \<and> e = Out_of_bounds"
  using assms by (auto simp: ipc_unified_send_file_def slot_at_def ipc_ok_def table_ok_def)

lemma ipc_step_settled:
  assumes "settled s"
  shows "case ipc_step x s of Ret s1 \<Rightarrow> settled s1 | Fault e \<Rightarrow> may_fault x s e"
proof (cases x)
  case (Ipc_connect pid name config)
  with connect_settled [OF assms] show ?thesis by (metis ipc_step.simps(3) obind.simps(1) outcome.case(1) snd_conv)
next
  case (Ipc_disconnect i)
  with disconnect_settled [OF assms, of i] show ?thesis
    by (cases "ipc_unified_disconnect i s") (auto simp: on_shm_slot_def)
next
  case (Ipc_send i d n)
  with send_settled [OF assms, of i d n] assms show ?thesis
    by (cases "ipc_unified_send_message i d n s") (auto simp: after_def split: option.splits)
next
  case (Ipc_send_batch i ds ns n)
  have "case ipc_unified_send_batch i ds ns n s of Ret None \<Rightarrow> True | Ret (Some (r, s1)) \<Rightarrow> settled s1 | Fault e \<Rightarrow> e \<in> send_faults"
    using send_each_settled [OF assms] assms by (auto simp: ipc_unified_send_batch_def split: option.splits)
  with Ipc_send_batch assms show ?thesis
    by (cases "ipc_unified_send_batch i ds ns n s") (auto simp: after_def split: option.splits)
next
  case (Ipc_receive i size_in t)
  with receive_settled [OF assms, where i = i and dg = True and sg = True and size_in = size_in and t = t] assms show ?thesis
    by (cases "ipc_unified_receive_message i True True size_in t s") (auto simp: after_def split: option.splits)
next
  case (Ipc_receive_batch i t)
  with receive_batch_settled [OF assms, of i True t] assms show ?thesis
    by (cases "ipc_unified_receive_batch i True t s") (auto simp: after_def split: option.splits)
next
  case (Ipc_asks i)
  obtain b where "ipc_unified_is_connected i s = Ret (b, s)" using connected_value [OF assms] by blast
  with Ipc_asks assms show ?thesis by simp
next
  case Ipc_count
  with count_settled [OF assms] assms show ?thesis by auto
next
  case (Ipc_statistics now)
  obtain r st where "ipc_unified_get_statistics now True s = Ret (r, st, s)" using statistics_settled [OF assms] by blast
  with Ipc_statistics assms show ?thesis by simp
next
  case (Ipc_send_file i f)
  with send_file_settled [OF assms, of i f] assms show ?thesis by (cases "ipc_unified_send_file i f s") auto
qed (use assms init_settled create_settled in simp_all)

lemma run_ipc_settled:
  "settled s \<Longrightarrow> case run_ipc xs s of Ret s1 \<Rightarrow> settled s1
    | Fault e \<Rightarrow> (\<exists>pre x post t. xs = pre @ x # post \<and> run_ipc pre s = Ret t \<and> settled t \<and> may_fault x t e)"
proof (induction xs arbitrary: s)
  case (Cons x xs)
  note step = ipc_step_settled [OF Cons.prems, of x]
  show ?case
  proof (cases "ipc_step x s")
    case (Fault e)
    with step Cons.prems show ?thesis by (auto intro!: exI [of _ "[]"])
  next
    case (Ret s1)
    with step have s1: "settled s1" by simp
    show ?thesis
    proof (cases "run_ipc xs s1")
      case (Fault e)
      with Cons.IH [OF s1] obtain pre y post t where "xs = pre @ y # post" "run_ipc pre s1 = Ret t" "settled t" "may_fault y t e" by auto
      then have "\<exists>pre y post t. x # xs = pre @ y # post \<and> run_ipc pre s = Ret t \<and> settled t \<and> may_fault y t e"
        using Ret by (intro exI [of _ "x # pre"]) auto
      with Ret Fault show ?thesis by simp
    qed (use Cons.IH [OF s1] Ret in simp)
  qed
qed simp


section \<open>The end of the layer\<close>

lemma disconnect_all_held:
  assumes "initialized s" and "ipc_mutex s = Mutex_held" and "table s = Some cs" and "table_size s = length cs"
  shows "i + n = length cs \<Longrightarrow> disconnect_all i n s = (if list_ex is_connected (drop i cs) then Fault Self_deadlock else Ret s)"
proof (induction n arbitrary: i)
  case (Suc n)
  then have i: "i < length cs" by simp
  have d: "drop i cs = cs ! i # drop (Suc i) cs" using i by (simp add: Cons_nth_drop_Suc)
  have "slot_at i s = Ret (cs ! i)" using assms(3) i by (simp add: slot_at_def)
  moreover have "ipc_unified_disconnect (int i) s = Fault Self_deadlock"
    using assms i by (simp add: ipc_unified_disconnect_def ipc_lock_def)
  ultimately show ?case using Suc by (simp add: d)
qed simp

text \<open>Cleaning up an initialised layer never succeeds: with a connection left it waits for the mutex that it holds itself, and
  without one it destroys the mutex while it is locked.\<close>

theorem ipc_cleanup_never_succeeds:
  assumes "settled s" and "initialized s"
  shows "\<exists>cs. table s = Some cs \<and> ipc_unified_cleanup s = Fault (if list_ex is_connected cs then Self_deadlock else Bad_mutex)"
proof -
  obtain cs where cs: "ipc_mutex s = Mutex_free" "table_size s = 100" "table s = Some cs" "table_ok cs (stats s)"
    using settled_cases [OF assms] .
  then have "length cs = 100" by (simp add: table_ok_def)
  with cs assms(2) disconnect_all_held [of "s\<lparr>ipc_mutex := Mutex_held\<rparr>" cs 0 100]
  have "ipc_unified_cleanup s = Fault (if list_ex is_connected cs then Self_deadlock else Bad_mutex)"
    by (simp add: ipc_unified_cleanup_def ipc_lock_def)
  with cs(3) show ?thesis by blast
qed

definition demo_ipc :: ipc_data where
  "demo_ipc = \<lparr>initialized = True, ipc_mutex = Mutex_free, table = Some (replicate 100 no_connection), table_size = 100, stats = ipc_zero_stats 5,
     system = \<lparr>streams = demo_streams, messages = demo_msgs, shared = demo_shm, semaphores = demo_sems\<rparr>, ipc_answers = []\<rparr>"

lemma demo_settled: "settled demo_ipc" "initialized demo_ipc"
  by (simp_all add: demo_ipc_def ipc_ok_def table_ok_def no_connection_def ipc_zero_stats_def slot_ok_def kind_ok_def)

theorem ipc_cleanup_never_succeeds_witness:
  "\<exists>cs. table demo_ipc = Some cs \<and> ipc_unified_cleanup demo_ipc = Fault (if list_ex is_connected cs then Self_deadlock else Bad_mutex)"
  by (rule ipc_cleanup_never_succeeds [OF demo_settled])

section \<open>Messages through the layer\<close>

text \<open>A send and a receive on two connections; on a pipe a send never waits.\<close>

definition unified_send :: "int \<Rightarrow> string \<Rightarrow> ipc_data \<Rightarrow> (int \<times> ipc_data) outcome" where
  "unified_send i d s = obind (ipc_unified_send_message i (Some d) (length d) s) (\<lambda>x. Ret (case x of None \<Rightarrow> (-1, s) | Some y \<Rightarrow> y))"

definition unified_recv :: "int \<Rightarrow> ipc_data \<Rightarrow> (received \<times> ipc_data) option" where
  "unified_recv i s = (case ipc_unified_receive_message i True True None 0 s of Ret x \<Rightarrow> x | Fault e \<Rightarrow> None)"

definition pipe_slot :: "int \<Rightarrow> int \<Rightarrow> ipc_data \<Rightarrow> bool" where
  "pipe_slot i fd s \<longleftrightarrow> 0 \<le> i \<and> (\<exists>c. slot_at (nat i) s = Ret c \<and> is_connected c \<and> ic_kind c = IPC_TYPE_PIPE \<and> private_data c = Int_block fd)"

definition pipe_carries :: "int \<Rightarrow> int \<Rightarrow> int \<Rightarrow> int \<Rightarrow> nat \<Rightarrow> string \<Rightarrow> ipc_data \<Rightarrow> bool" where
  "pipe_carries a b w r c bs s \<longleftrightarrow> settled s \<and> initialized s \<and> pipe_slot a w s \<and> pipe_slot b r s \<and> linked w r c bs (streams (system s))"

lemma connected_slot:
  assumes "settled s" and "initialized s" and "pipe_slot i fd s"
  shows "ipc_unified_is_connected i s = Ret (True, s)"
proof -
  obtain cs where cs: "ipc_mutex s = Mutex_free" "table_size s = 100" "table s = Some cs" "table_ok cs (stats s)"
    using settled_cases [OF assms(1,2)] .
  have e: "s\<lparr>ipc_mutex := Mutex_free\<rparr> = s" using cs(1) by simp
  have i: "0 \<le> i" "nat i < 100" "is_connected (cs ! nat i)"
    using assms(3) cs(3,4) by (auto simp: pipe_slot_def slot_at_def table_ok_def split: if_splits)
  then have "slot_at (nat i) (s\<lparr>ipc_mutex := Mutex_held\<rparr>) = Ret (cs ! nat i)" using cs(3,4) by (simp add: slot_at_def table_ok_def)
  with i assms(2) cs(1,2) show ?thesis by (simp add: ipc_unified_is_connected_def ipc_lock_def unlock_core e)
qed

text \<open>What a change of the streams and of the statistics leaves.\<close>

lemma pipe_slot_table: "table t = table s \<Longrightarrow> pipe_slot i fd t = pipe_slot i fd s"
  by (simp add: pipe_slot_def slot_at_def)

lemma pipe_send_through:
  assumes "pipe_carries a b w r c bs s" and "sendable d"
  shows "\<exists>s1. unified_send a d s = Ret (0, s1) \<and> pipe_carries a b w r c (bs @ frame d) s1"
proof -
  have s: "settled s" "initialized s" "pipe_slot a w s" "pipe_slot b r s" "linked w r c bs (streams (system s))"
    using assms(1) by (simp_all add: pipe_carries_def)
  obtain x where x: "ipc_pipe_send_message w (Some d) (length d) (streams (system s)) = Ret (0, x)" "linked w r c (bs @ frame d) x"
    using pipes.send_appends [OF s(5) assms(2)] by blast
  let ?s2 = "s\<lparr>system := (system s)\<lparr>streams := x\<rparr>\<rparr>"
  have m: "send_message_by_type (nat a) d (length d) s = Ret (Some (0, ?s2))"
    using s(3) x(1) by (auto simp: send_message_by_type_def pipe_slot_def int_behind_def lift_streams_def)
  have "settled ?s2" "initialized ?s2" using s(1,2) by (simp_all add: ipc_ok_def)
  let ?f = "\<lambda>st. st\<lparr>messages_sent := messages_sent st + 1, bytes_sent := bytes_sent st + word_of_nat (length d)\<rparr>"
  have "\<exists>s4. obind (ipc_lock ?s2) (\<lambda>s3. obind (ipc_unlock (s3\<lparr>stats := ?f (stats s3)\<rparr>)) (\<lambda>s4. Ret (Some (0 :: int, s4)))) = Ret (Some (0, s4))
      \<and> settled s4 \<and> initialized s4 \<and> table s4 = table ?s2 \<and> system s4 = system ?s2"
    by (rule locked_stats_frame [OF \<open>settled ?s2\<close> \<open>initialized ?s2\<close>, where f = ?f]) simp_all
  then obtain s4 where L: "obind (ipc_lock ?s2) (\<lambda>s3. obind (ipc_unlock (s3\<lparr>stats := ?f (stats s3)\<rparr>)) (\<lambda>s4. Ret (Some (0 :: int, s4))))
      = Ret (Some (0, s4))" "settled s4" "initialized s4" "table s4 = table s" "streams (system s4) = x" by auto
  have d: "length d \<noteq> 0" "\<not> a < 0" using assms(2) s(3) by (auto simp: sendable_def pipe_slot_def)
  have "ipc_unified_send_message a (Some d) (length d) s = Ret (Some (0, s4))"
    unfolding ipc_unified_send_message_def connected_slot [OF s(1,2,3)] option.case obind.simps prod.case m
    using d s(2) L(1) by (simp only: option.case prod.case) simp
  then have "unified_send a d s = Ret (0, s4)" by (simp add: unified_send_def)
  moreover have "pipe_carries a b w r c (bs @ frame d) s4"
    using L x(2) s pipe_slot_table [OF L(4)] by (simp add: pipe_carries_def)
  ultimately show ?thesis by blast
qed

lemma pipe_recv_waits:
  assumes "pipe_carries a b w r c [] s"
  shows "unified_recv b s = None"
proof -
  have s: "settled s" "initialized s" "pipe_slot b r s" "linked w r c [] (streams (system s))"
    using assms(1) by (simp_all add: pipe_carries_def)
  have m: "receive_message_by_type (nat b) None 0 s = Ret None"
    using s(3) pipes.recv_waits [OF s(4)] by (auto simp: receive_message_by_type_def pipe_slot_def int_behind_def)
  have "\<not> b < 0" using s(3) by (simp add: pipe_slot_def)
  then have "ipc_unified_receive_message b True True None 0 s = Ret None"
    using s(2) by (simp add: ipc_unified_receive_message_def connected_slot [OF s(1,2,3)] m)
  then show ?thesis by (simp add: unified_recv_def)
qed

lemma pipe_recv_through:
  assumes "pipe_carries a b w r c (frame d @ bs) s" and "sendable d"
  shows "\<exists>s1. unified_recv b s = Some ((0, Some (Some d, Some (length d))), s1) \<and> pipe_carries a b w r c bs s1"
proof -
  have s: "settled s" "initialized s" "pipe_slot b r s" "pipe_slot a w s" "linked w r c (frame d @ bs) (streams (system s))"
    using assms(1) by (simp_all add: pipe_carries_def)
  let ?r = "(0, Some (Some d, Some (length d))) :: received"
  obtain x where x: "ipc_pipe_receive_message r True True 0 (streams (system s)) = Some (?r, x)" "linked w r c bs x"
    using pipes.recv_takes [OF s(5) assms(2)] by blast
  let ?s2 = "s\<lparr>system := (system s)\<lparr>streams := x\<rparr>\<rparr>"
  have m: "receive_message_by_type (nat b) None 0 s = Ret (Some (?r, ?s2))"
    using s(3) x(1) by (auto simp: receive_message_by_type_def pipe_slot_def int_behind_def)
  have "settled ?s2" "initialized ?s2" using s(1,2) by (simp_all add: ipc_ok_def)
  let ?f = "\<lambda>st. st\<lparr>messages_received := messages_received st + 1, bytes_received := bytes_received st + word_of_nat (size_after None ?r)\<rparr>"
  have "\<exists>s4. obind (ipc_lock ?s2) (\<lambda>s3. obind (ipc_unlock (s3\<lparr>stats := ?f (stats s3)\<rparr>)) (\<lambda>s4. Ret (Some (?r, s4)))) = Ret (Some (?r, s4))
      \<and> settled s4 \<and> initialized s4 \<and> table s4 = table ?s2 \<and> system s4 = system ?s2"
    by (rule locked_stats_frame [OF \<open>settled ?s2\<close> \<open>initialized ?s2\<close>, where f = ?f]) simp_all
  then obtain s4 where L: "obind (ipc_lock ?s2) (\<lambda>s3. obind (ipc_unlock (s3\<lparr>stats := ?f (stats s3)\<rparr>)) (\<lambda>s4. Ret (Some (?r, s4))))
      = Ret (Some (?r, s4))" "settled s4" "initialized s4" "table s4 = table s" "streams (system s4) = x" by auto
  have b: "\<not> b < 0" using s(3) by (simp add: pipe_slot_def)
  have "ipc_unified_receive_message b True True None 0 s = Ret (Some (?r, s4))"
    unfolding ipc_unified_receive_message_def connected_slot [OF s(1,2,3)] obind.simps prod.case m
    using b s(2) L(1) by (simp only: option.case prod.case) simp
  then have "unified_recv b s = Some (?r, s4)" by (simp add: unified_recv_def)
  moreover have "pipe_carries a b w r c bs s4"
    using L x(2) s pipe_slot_table [OF L(4)] by (simp add: pipe_carries_def)
  ultimately show ?thesis by blast
qed

interpretation unified_pipes: framed_stream "pipe_carries a b w r c" "unified_send a" "unified_recv b"
  for a b w r c
  by unfold_locales (simp_all add: pipe_send_through pipe_recv_through pipe_recv_waits)

text \<open>Connecting to a pipe.\<close>

lemma connect_pipe:
  assumes "settled s" and "initialized s" and "table s = Some cs" and "find_idx (\<lambda>c. \<not> is_connected c) cs = Some i" and "ipc_answers s = []"
    and "ic_type cf = IPC_TYPE_PIPE" and "ipc_pipe_connect_client (Some n) (streams (system s)) = Some (fd, x)" and "0 \<le> fd"
  shows "\<exists>c s1. ipc_unified_connect_to_server pid (Some n) (Some cf) s = Ret (int i, s1) \<and> table s1 = Some (cs[i := c]) \<and> is_connected c
    \<and> ic_kind c = IPC_TYPE_PIPE \<and> private_data c = Int_block fd \<and> remote_name c = take 63 n \<and> streams (system s1) = x \<and> settled s1
    \<and> initialized s1 \<and> ipc_answers s1 = []"
proof -
  have ok: "ipc_mutex s = Mutex_free" "table_ok cs (stats s)" using assms by (auto simp: ipc_ok_def)
  let ?l = "s\<lparr>ipc_mutex := Mutex_held\<rparr>"
  let ?s2 = "?l\<lparr>system := (system s)\<lparr>streams := x\<rparr>\<rparr>"
  have lock: "ipc_lock s = Ret ?l" using ok(1) by (simp add: ipc_lock_def)
  have a: "ipc_answer t = (True, t)" if "ipc_answers t = []" for t using that by (simp add: ipc_answer_def)
  have r: "connect_ipc_client_by_type n cf ?l = (fd, ?s2)"
    using assms(5-) by (simp add: connect_ipc_client_by_type_def on_streams_def open_pipe_def with_block_def a)
  let ?c = "(cs ! i)\<lparr>ic_id := int i, ic_kind := IPC_TYPE_PIPE, is_connected := True, remote_pid := pid, remote_name := take 63 n,
      private_data := Int_block fd\<rparr>"
  have p: "store_private IPC_TYPE_PIPE fd ((cs ! i)\<lparr>ic_id := int i, ic_kind := IPC_TYPE_PIPE, is_connected := True, remote_pid := pid,
      remote_name := take 63 n\<rparr>) ?s2 = (?c, ?s2)"
    using assms(5) by (simp add: store_private_def a)
  let ?s4 = "count_connection (set_slot i ?c ?s2)"
  have u: "ipc_unlock ?s4 = Ret (?s4\<lparr>ipc_mutex := Mutex_free\<rparr>)" by (simp add: unlock_core count_connection_def set_slot_def Let_def)
  have e: "ipc_unified_connect_to_server pid (Some n) (Some cf) s = Ret (int i, ?s4\<lparr>ipc_mutex := Mutex_free\<rparr>)"
    using assms(2,3,4,6,8) lock r p u by (simp add: ipc_unified_connect_to_server_def)
  moreover have "settled (?s4\<lparr>ipc_mutex := Mutex_free\<rparr>)"
    using connect_settled [OF assms(1), of pid "Some n" "Some cf"] e by simp
  ultimately show ?thesis using assms(2,3,5)
    by (intro exI [of _ ?c] exI [of _ "?s4\<lparr>ipc_mutex := Mutex_free\<rparr>"]) (simp add: count_connection_def set_slot_def Let_def)
qed

lemma init_boot:
  "\<exists>s1. ipc_unified_init now (ipc_boot sys []) = (0, s1) \<and> settled s1 \<and> initialized s1 \<and> table s1 = Some (replicate 100 no_connection)
    \<and> system s1 = sys \<and> ipc_answers s1 = []"
  using init_settled [of "ipc_boot sys []" now]
  by (simp add: ipc_unified_init_def ipc_boot_def ipc_answer_def) (simp add: ipc_ok_def)

lemma create_pipe:
  assumes "settled s" and "initialized s" and "ic_type cf = IPC_TYPE_PIPE" and "ipc_pipe_create_server (Some (ic_name cf)) (streams (system s)) = (0, x)"
  shows "\<exists>s1. ipc_unified_create_server (Some cf) s = (0, s1) \<and> settled s1 \<and> initialized s1 \<and> table s1 = table s
    \<and> streams (system s1) = x \<and> ipc_answers s1 = ipc_answers s"
proof -
  have "ipc_unified_create_server (Some cf) s = (0, s\<lparr>system := (system s)\<lparr>streams := x\<rparr>\<rparr>)"
    using assms by (simp add: ipc_unified_create_server_def create_ipc_server_by_type_def on_streams_def)
  with assms(1,2) show ?thesis by (simp add: ipc_ok_def)
qed

lemma first_free: "find_idx (\<lambda>c. \<not> is_connected c) (replicate 100 no_connection) = Some 0"
    "is_connected c \<Longrightarrow> find_idx (\<lambda>c. \<not> is_connected c) ((replicate 100 no_connection)[0 := c]) = Some 1"
proof -
  have r: "replicate 100 no_connection = no_connection # no_connection # replicate 98 no_connection" by (simp add: numeral_eq_Suc)
  show "find_idx (\<lambda>c. \<not> is_connected c) (replicate 100 no_connection) = Some 0"
      "is_connected c \<Longrightarrow> find_idx (\<lambda>c. \<not> is_connected c) ((replicate 100 no_connection)[0 := c]) = Some 1"
    unfolding r by (simp_all add: no_connection_def)
qed

text \<open>The first steps of every session over a pipe: initialise, create the server, connect.\<close>

lemma pipe_start:
  assumes "calm (streams sys)" and "ic_type cf = IPC_TYPE_PIPE"
  shows "\<exists>s1 s2 s3 w x2 r x3 c i. ipc_unified_init now (ipc_boot sys []) = (0, s1) \<and> ipc_unified_create_server (Some cf) s1 = (0, s2)
    \<and> ipc_unified_connect_to_server pid (Some (ic_name cf)) (Some cf) s2 = Ret (0, s3)
    \<and> settled s3 \<and> initialized s3 \<and> ipc_answers s3 = [] \<and> streams (system s3) = x2 \<and> table s3 = Some ((replicate 100 no_connection)[0 := c])
    \<and> is_connected c \<and> ic_kind c = IPC_TYPE_PIPE \<and> private_data c = Int_block w \<and> remote_name c = take 63 (ic_name cf)
    \<and> ipc_pipe_connect_client (Some (ic_name cf)) x2 = Some (r, x3) \<and> linked w r i [] x3"
proof -
  obtain x1 w x2 r x3 i where x: "ipc_pipe_create_server (Some (ic_name cf)) (streams sys) = (0, x1)"
      "ipc_pipe_connect_client (Some (ic_name cf)) x1 = Some (w, x2)" "ipc_pipe_connect_client (Some (ic_name cf)) x2 = Some (r, x3)"
      "linked w r i [] x3"
    using pipe_session [OF assms(1)] by blast
  have w: "0 \<le> w" using x(4) by (simp add: linked_def writes_to_def)
  obtain s1 where s1: "ipc_unified_init now (ipc_boot sys []) = (0, s1)" "settled s1" "initialized s1"
      "table s1 = Some (replicate 100 no_connection)" "system s1 = sys" "ipc_answers s1 = []"
    using init_boot by blast
  have "ipc_pipe_create_server (Some (ic_name cf)) (streams (system s1)) = (0, x1)" using x(1) s1(5) by simp
  then obtain s2 where s2: "ipc_unified_create_server (Some cf) s1 = (0, s2)" "settled s2" "initialized s2" "table s2 = table s1"
      "streams (system s2) = x1" "ipc_answers s2 = ipc_answers s1"
    using create_pipe [OF s1(2,3) assms(2)] by blast
  have t: "table s2 = Some (replicate 100 no_connection)" "ipc_answers s2 = []"
      "ipc_pipe_connect_client (Some (ic_name cf)) (streams (system s2)) = Some (w, x2)"
    using s1 s2 x(2) by simp_all
  obtain c s3 where "ipc_unified_connect_to_server pid (Some (ic_name cf)) (Some cf) s2 = Ret (0, s3)"
      "table s3 = Some ((replicate 100 no_connection)[0 := c])" "is_connected c" "ic_kind c = IPC_TYPE_PIPE" "private_data c = Int_block w"
      "remote_name c = take 63 (ic_name cf)" "streams (system s3) = x2" "settled s3" "initialized s3" "ipc_answers s3 = []"
    using connect_pipe [OF s2(2,3) t(1) first_free(1) t(2) assms(2) t(3) w, of pid] by auto
  with s1(1) s2(1) x(3,4) show ?thesis by blast
qed


definition demo_config :: ipc_config where
  "demo_config = \<lparr>ic_name = ''x'', ic_type = IPC_TYPE_PIPE, ic_buffer_size = 0, ic_max_connections = 5\<rparr>"


text \<open>A client that disconnects takes the server's pipe away: nobody can connect any more.\<close>

theorem disconnect_removes_server:
  assumes "calm (streams sys)" and "ic_type cf = IPC_TYPE_PIPE" and "length (ic_name cf) \<le> 63"
  shows "\<exists>s1 s2 s3 s4 s5. ipc_unified_init now (ipc_boot sys []) = (0, s1) \<and> ipc_unified_create_server (Some cf) s1 = (0, s2)
    \<and> ipc_unified_connect_to_server pid (Some (ic_name cf)) (Some cf) s2 = Ret (0, s3) \<and> ipc_unified_disconnect 0 s3 = Ret (0, s4)
    \<and> ipc_unified_connect_to_server pid (Some (ic_name cf)) (Some cf) s4 = Ret (-1, s5)"
proof -
  obtain s1 s2 s3 w x2 c where a: "ipc_unified_init now (ipc_boot sys []) = (0, s1)" "ipc_unified_create_server (Some cf) s1 = (0, s2)"
      "ipc_unified_connect_to_server pid (Some (ic_name cf)) (Some cf) s2 = Ret (0, s3)" "settled s3" "initialized s3"
      "table s3 = Some ((replicate 100 no_connection)[0 := c])" "is_connected c" "ic_kind c = IPC_TYPE_PIPE"
      "private_data c = Int_block w" "remote_name c = take 63 (ic_name cf)"
    using pipe_start [OF assms(1,2)] by blast
  let ?cs = "(replicate 100 no_connection)[0 := c]"
  have c: "?cs ! nat 0 = c" by simp
  then obtain e s4 where d: "ipc_unified_disconnect 0 s3 = Ret (0, s4)" "settled s4" "initialized s4" "table s4 = Some (?cs[0 := e])"
      "system s4 = system (cleanup_ipc_by_type (ic_name cf) IPC_TYPE_PIPE s3)"
    using disconnect_cases [OF a(4,5,6), of 0] a(7-10) assms(3) by auto
  have "ipc_paths (streams (system s4)) (pipe_path (ic_name cf)) = None"
    unfolding d(5) by (simp add: cleanup_ipc_by_type_def on_streams_def ipc_pipe_cleanup_server_def os_unlink_def)
  then have p: "ipc_pipe_connect_client (Some (ic_name cf)) (streams (system s4)) = Some (-1, streams (system s4))"
    by (simp add: ipc_pipe_connect_client_def os_open_fifo_def)
  obtain r s5 where r: "ipc_unified_connect_to_server pid (Some (ic_name cf)) (Some cf) s4 = Ret (r, s5)"
    using connect_settled [OF d(2)] by blast
  have m: "ipc_mutex s4 = Mutex_free" using d(2,3) by (simp add: ipc_ok_def)
  have "connect_ipc_client_by_type (ic_name cf) cf (s4\<lparr>ipc_mutex := Mutex_held\<rparr>) = (-1, s4\<lparr>ipc_mutex := Mutex_held\<rparr>)"
    using p assms(2) by (simp add: connect_ipc_client_by_type_def on_streams_def open_pipe_def with_block_def)
  then have "r = -1"
    using r m d(3,4) by (auto simp: ipc_unified_connect_to_server_def ipc_lock_def unlock_core split: option.splits)
  with a(1-3) d(1) r show ?thesis by blast
qed

end
