(* ===== verification/Uv_Queue.thy ===== *)
theory Uv_Queue
  imports Prelude
begin

text \<open>
  The intrusive queues of libuv (src/depend/libuv-1.48.0/src/queue.h). A queue is a ring of nodes through a
  head node, and a node is two words in a larger object. The memory that such nodes live in has up to
  three words at an address, because the node of a timer is a union of a queue node (two words) and
  a heap node (three words, see \<^verbatim>\<open>Uv_Heap\<close>): \<open>next\<close> and \<open>left\<close> are the same word, as are \<open>prev\<close> and \<open>right\<close>.
  Every function of queue.h is shown to do the list operation it is named after.
\<close>

section \<open>Memory of linked nodes\<close>

text \<open>One map per word, and the addresses at which a node lies. Address 0 is NULL.\<close>

record uv_mem =
  word0 :: "nat \<Rightarrow> nat"
  word1 :: "nat \<Rightarrow> nat"
  word2 :: "nat \<Rightarrow> nat"
  mapped :: "nat \<Rightarrow> bool"

definition access :: "nat \<Rightarrow> uv_mem \<Rightarrow> 'a \<Rightarrow> 'a outcome" where
  "access a m x = (if a = 0 then Fault Null_deref else if mapped m a then Ret x else Fault Use_after_free)"

definition peek :: "(uv_mem \<Rightarrow> nat \<Rightarrow> nat) \<Rightarrow> nat \<Rightarrow> uv_mem \<Rightarrow> nat outcome" where
  "peek field a m = access a m (field m a)"

definition poke :: "(((nat \<Rightarrow> nat) \<Rightarrow> nat \<Rightarrow> nat) \<Rightarrow> uv_mem \<Rightarrow> uv_mem) \<Rightarrow> nat \<Rightarrow> nat \<Rightarrow> uv_mem \<Rightarrow> uv_mem outcome" where
  "poke field_update a v m = access a m (field_update (\<lambda>w. w(a := v)) m)"

section \<open>The functions of queue.h\<close>

definition uv__queue_init :: "nat \<Rightarrow> uv_mem \<Rightarrow> uv_mem outcome" where
  "uv__queue_init q m = obind (poke word0_update q q m) (poke word1_update q q)"

definition uv__queue_empty :: "nat \<Rightarrow> uv_mem \<Rightarrow> bool outcome" where
  "uv__queue_empty q m = obind (peek word0 q m) (\<lambda>n. Ret (q = n))"

definition uv__queue_head :: "nat \<Rightarrow> uv_mem \<Rightarrow> nat outcome" where
  "uv__queue_head q m = peek word0 q m"

definition uv__queue_next :: "nat \<Rightarrow> uv_mem \<Rightarrow> nat outcome" where
  "uv__queue_next q m = peek word0 q m"

definition uv__queue_add :: "nat \<Rightarrow> nat \<Rightarrow> uv_mem \<Rightarrow> uv_mem outcome" where
  "uv__queue_add h n m =
     obind (peek word1 h m) (\<lambda>hp. obind (peek word0 n m) (\<lambda>nn. obind (poke word0_update hp nn m) (\<lambda>m1.
     obind (peek word0 n m1) (\<lambda>nn1. obind (peek word1 h m1) (\<lambda>hp1. obind (poke word1_update nn1 hp1 m1) (\<lambda>m2.
     obind (peek word1 n m2) (\<lambda>np. obind (poke word1_update h np m2) (\<lambda>m3.
     obind (peek word1 h m3) (\<lambda>hp3. poke word0_update hp3 h m3)))))))))"

definition uv__queue_split :: "nat \<Rightarrow> nat \<Rightarrow> nat \<Rightarrow> uv_mem \<Rightarrow> uv_mem outcome" where
  "uv__queue_split h q n m =
     obind (peek word1 h m) (\<lambda>hp. obind (poke word1_update n hp m) (\<lambda>m1.
     obind (peek word1 n m1) (\<lambda>np. obind (poke word0_update np n m1) (\<lambda>m2.
     obind (poke word0_update n q m2) (\<lambda>m3.
     obind (peek word1 q m3) (\<lambda>qp. obind (poke word1_update h qp m3) (\<lambda>m4.
     obind (peek word1 h m4) (\<lambda>hp4. obind (poke word0_update hp4 h m4) (\<lambda>m5.
     poke word1_update q n m5)))))))))"

definition uv__queue_move :: "nat \<Rightarrow> nat \<Rightarrow> uv_mem \<Rightarrow> uv_mem outcome" where
  "uv__queue_move h n m = obind (uv__queue_empty h m) (\<lambda>empty.
     if empty then uv__queue_init n m else obind (peek word0 h m) (\<lambda>q. uv__queue_split h q n m))"

definition uv__queue_insert_head :: "nat \<Rightarrow> nat \<Rightarrow> uv_mem \<Rightarrow> uv_mem outcome" where
  "uv__queue_insert_head h q m =
     obind (peek word0 h m) (\<lambda>hn. obind (poke word0_update q hn m) (\<lambda>m1.
     obind (poke word1_update q h m1) (\<lambda>m2.
     obind (peek word0 q m2) (\<lambda>qn. obind (poke word1_update qn q m2) (\<lambda>m3.
     poke word0_update h q m3)))))"

definition uv__queue_insert_tail :: "nat \<Rightarrow> nat \<Rightarrow> uv_mem \<Rightarrow> uv_mem outcome" where
  "uv__queue_insert_tail h q m =
     obind (poke word0_update q h m) (\<lambda>m1.
     obind (peek word1 h m1) (\<lambda>hp. obind (poke word1_update q hp m1) (\<lambda>m2.
     obind (peek word1 q m2) (\<lambda>qp. obind (poke word0_update qp q m2) (\<lambda>m3.
     poke word1_update h q m3)))))"

definition uv__queue_remove :: "nat \<Rightarrow> uv_mem \<Rightarrow> uv_mem outcome" where
  "uv__queue_remove q m =
     obind (peek word1 q m) (\<lambda>p. obind (peek word0 q m) (\<lambda>n. obind (poke word0_update p n m) (\<lambda>m1.
     obind (peek word0 q m1) (\<lambda>n1. obind (peek word1 q m1) (\<lambda>p1. poke word1_update n1 p1 m1)))))"

text \<open>The loop \<open>uv__queue_foreach\<close> reads the successor after the body, so it sees what the body does; here the
  addresses it visits when the body leaves the ring alone, for at most \<open>fuel\<close> steps.\<close>

fun uv__queue_foreach :: "nat \<Rightarrow> nat \<Rightarrow> nat \<Rightarrow> uv_mem \<Rightarrow> nat list outcome option" where
  "uv__queue_foreach 0 q h m = None"
| "uv__queue_foreach (Suc fuel) q h m =
     (if q = h then Some (Ret [])
      else rbind (Some (peek word0 q m)) (\<lambda>n. rbind (uv__queue_foreach fuel n h m) (\<lambda>qs. Some (Ret (q # qs)))))"

section \<open>Rings\<close>

lemma access_Ret [simp]: "a \<noteq> 0 \<Longrightarrow> mapped m a \<Longrightarrow> access a m x = Ret x"
  by (simp add: access_def)

lemma peek_Ret [simp]: "a \<noteq> 0 \<Longrightarrow> mapped m a \<Longrightarrow> peek field a m = Ret (field m a)"
  by (simp add: peek_def)

lemma poke_Ret [simp]:
  "a \<noteq> 0 \<Longrightarrow> mapped m a \<Longrightarrow> poke word0_update a v m = Ret (m\<lparr>word0 := (word0 m)(a := v)\<rparr>)"
  "a \<noteq> 0 \<Longrightarrow> mapped m a \<Longrightarrow> poke word1_update a v m = Ret (m\<lparr>word1 := (word1 m)(a := v)\<rparr>)"
  "a \<noteq> 0 \<Longrightarrow> mapped m a \<Longrightarrow> poke word2_update a v m = Ret (m\<lparr>word2 := (word2 m)(a := v)\<rparr>)"
  by (simp_all add: poke_def)

text \<open>With these successors and predecessors, the nodes \<open>xs\<close> are linked in this order between \<open>a\<close> and \<open>b\<close>.\<close>

fun node_chain :: "(nat \<Rightarrow> nat) \<Rightarrow> (nat \<Rightarrow> nat) \<Rightarrow> nat \<Rightarrow> nat list \<Rightarrow> nat \<Rightarrow> bool" where
  "node_chain nx pv a [] b \<longleftrightarrow> nx a = b \<and> pv b = a"
| "node_chain nx pv a (x # xs) b \<longleftrightarrow> nx a = x \<and> pv x = a \<and> node_chain nx pv x xs b"

definition ring :: "uv_mem \<Rightarrow> nat \<Rightarrow> nat list \<Rightarrow> bool" where
  "ring m h xs \<longleftrightarrow> node_chain (word0 m) (word1 m) h xs h \<and> distinct (h # xs) \<and> (\<forall>a \<in> set (h # xs). a \<noteq> 0 \<and> mapped m a)"

lemma node_chain_append: "node_chain nx pv a (xs @ y # ys) b \<longleftrightarrow> node_chain nx pv a xs y \<and> node_chain nx pv y ys b"
  by (induction xs arbitrary: a) auto

lemma node_chain_upd [simp]:
  "z \<noteq> a \<Longrightarrow> z \<notin> set xs \<Longrightarrow> node_chain (nx(z := v)) pv a xs b = node_chain nx pv a xs b"
  "z \<noteq> b \<Longrightarrow> z \<notin> set xs \<Longrightarrow> node_chain nx (pv(z := v)) a xs b = node_chain nx pv a xs b"
  by (induction xs arbitrary: a) auto

lemma node_chain_cong:
  "(\<And>x. x = a \<or> x \<in> set xs \<Longrightarrow> nx' x = nx x) \<Longrightarrow> (\<And>x. x = b \<or> x \<in> set xs \<Longrightarrow> pv' x = pv x)
   \<Longrightarrow> node_chain nx' pv' a xs b = node_chain nx pv a xs b"
  by (induction xs arbitrary: a) auto

text \<open>A ring is what its own nodes say.\<close>

lemma ring_cong:
  assumes "\<And>x. x \<in> set (h # xs) \<Longrightarrow> word0 m' x = word0 m x \<and> word1 m' x = word1 m x \<and> mapped m' x = mapped m x"
  shows "ring m' h xs = ring m h xs"
proof -
  have "node_chain (word0 m') (word1 m') h xs h = node_chain (word0 m) (word1 m) h xs h" using assms by (intro node_chain_cong) auto
  then show ?thesis using assms by (simp add: ring_def)
qed

lemma ringD:
  assumes "ring m h xs"
  shows "node_chain (word0 m) (word1 m) h xs h" "h \<noteq> 0" "mapped m h" "h \<notin> set xs" "distinct xs" "0 \<notin> set xs"
    "x \<in> set xs \<Longrightarrow> mapped m x" "x \<in> set xs \<Longrightarrow> x \<noteq> 0"
  using assms by (auto simp: ring_def)

lemma ring_last: "ring m h xs \<Longrightarrow> word1 m h = last (h # xs)"
  by (cases xs rule: rev_cases) (auto simp: ring_def node_chain_append)

lemma ring_first: "ring m h xs \<Longrightarrow> word0 m h = hd (xs @ [h])"
  by (cases xs) (auto simp: ring_def)

section \<open>What the functions do\<close>

text \<open>The two words of a queue node change at the addresses in \<open>S\<close> at most.\<close>

definition only_at :: "nat set \<Rightarrow> uv_mem \<Rightarrow> uv_mem \<Rightarrow> bool" where
  "only_at S m m' \<longleftrightarrow> mapped m' = mapped m \<and> word2 m' = word2 m
     \<and> (\<forall>a. a \<notin> S \<longrightarrow> word0 m' a = word0 m a \<and> word1 m' a = word1 m a)"

lemma only_at_ring: "only_at S m m' \<Longrightarrow> S \<inter> set (h # xs) = {} \<Longrightarrow> ring m' h xs = ring m h xs"
  by (rule ring_cong) (auto simp: only_at_def)

lemma queue_init: "q \<noteq> 0 \<Longrightarrow> mapped m q \<Longrightarrow> \<exists>m'. uv__queue_init q m = Ret m' \<and> ring m' q [] \<and> only_at {q} m m'"
  by (simp add: uv__queue_init_def ring_def only_at_def)

lemma queue_empty: "ring m h xs \<Longrightarrow> uv__queue_empty h m = Ret (xs = [])"
  by (cases xs) (auto simp: uv__queue_empty_def ring_def)

lemma queue_head: "ring m h (x # xs) \<Longrightarrow> uv__queue_head h m = Ret x"
  by (simp add: uv__queue_head_def ring_def)

lemma queue_next: "ring m h (xs @ x # y # ys) \<Longrightarrow> uv__queue_next x m = Ret y"
  by (simp add: uv__queue_next_def ring_def node_chain_append)

lemma queue_insert_tail:
  assumes "ring m h xs" and "q \<notin> set (h # xs)" and "q \<noteq> 0" and "mapped m q"
  shows "\<exists>m'. uv__queue_insert_tail h q m = Ret m' \<and> ring m' h (xs @ [q]) \<and> only_at (insert q (set (h # xs))) m m'"
  using assms
  by (cases xs rule: rev_cases) (auto simp: uv__queue_insert_tail_def ring_def only_at_def node_chain_append simp del: obind_eq_Ret cong: obind_front)

lemma queue_insert_head:
  assumes "ring m h xs" and "q \<notin> set (h # xs)" and "q \<noteq> 0" and "mapped m q"
  shows "\<exists>m'. uv__queue_insert_head h q m = Ret m' \<and> ring m' h (q # xs) \<and> only_at (insert q (set (h # xs))) m m'"
  using assms
  by (cases xs) (auto simp: uv__queue_insert_head_def ring_def only_at_def simp del: obind_eq_Ret cong: obind_front)

lemma queue_remove:
  assumes "ring m h (xs @ q # ys)"
  shows "\<exists>m'. uv__queue_remove q m = Ret m' \<and> ring m' h (xs @ ys) \<and> only_at (set (h # xs @ ys)) m m'"
  using assms
  by (cases xs rule: rev_cases; cases ys)
     (auto simp: uv__queue_remove_def ring_def only_at_def node_chain_append simp del: obind_eq_Ret cong: obind_front)

text \<open>Removing a node that is alone in its ring changes nothing.\<close>

lemma queue_remove_alone: "ring m q [] \<Longrightarrow> uv__queue_remove q m = Ret m"
  by (auto simp: uv__queue_remove_def ring_def fun_upd_idem simp del: obind_eq_Ret cong: obind_front)

lemma list_both_ends:
  obtains (empty) "xs = []" | (one) x where "xs = [x]" | (more) x ys y where "xs = x # ys @ [y]"
  by (cases xs; cases "tl xs" rule: rev_cases) auto

lemma queue_add:
  assumes "ring m h xs" and "ring m n ys" and "set (h # xs) \<inter> set (n # ys) = {}" and "ys \<noteq> []"
  shows "\<exists>m'. uv__queue_add h n m = Ret m' \<and> ring m' h (xs @ ys) \<and> only_at (set (h # xs @ ys)) m m'"
  using assms
  by (cases xs rule: rev_cases; cases ys rule: list_both_ends)
     (auto simp: uv__queue_add_def ring_def only_at_def node_chain_append simp del: obind_eq_Ret cong: obind_front)

text \<open>The queue \<open>h\<close> is cut before \<open>q\<close>; the rest goes to the head \<open>n\<close>.\<close>

lemma queue_split:
  assumes "ring m h (xs @ q # ys)" and "n \<notin> set (h # xs @ q # ys)" and "n \<noteq> 0" and "mapped m n"
  shows "\<exists>m'. uv__queue_split h q n m = Ret m' \<and> ring m' h xs \<and> ring m' n (q # ys)
    \<and> only_at (set (h # n # xs @ q # ys)) m m'"
  using assms
  by (cases xs rule: rev_cases; cases ys rule: rev_cases)
     (auto simp: uv__queue_split_def ring_def only_at_def node_chain_append simp del: obind_eq_Ret cong: obind_front)

lemma queue_move:
  assumes "ring m h xs" and "n \<notin> set (h # xs)" and "n \<noteq> 0" and "mapped m n"
  shows "\<exists>m'. uv__queue_move h n m = Ret m' \<and> ring m' n xs \<and> (ring m' h []) \<and> only_at (set (h # n # xs)) m m'"
proof (cases xs)
  case Nil
  obtain m' where m': "uv__queue_init n m = Ret m'" "ring m' n []" "only_at {n} m m'"
    using queue_init [of n m] assms by auto
  moreover have "ring m' h []" using only_at_ring [OF m'(3), of h "[]"] assms Nil by simp
  moreover have "only_at (set (h # n # xs)) m m'" using m'(3) by (simp add: only_at_def)
  ultimately show ?thesis using assms Nil by (simp add: uv__queue_move_def queue_empty)
next
  case (Cons x ys)
  then obtain m' where "uv__queue_split h x n m = Ret m'" "ring m' h []" "ring m' n (x # ys)"
    "only_at (set (h # n # x # ys)) m m'"
    using queue_split [of m h "[]" x ys n] assms by auto
  moreover have "peek word0 h m = Ret x" using assms(1) Cons by (simp add: ring_def)
  ultimately show ?thesis using assms Cons by (simp add: uv__queue_move_def queue_empty)
qed

lemma foreach_node_chain:
  "node_chain (word0 m) (word1 m) a xs h \<Longrightarrow> h \<notin> set xs \<Longrightarrow> \<forall>x \<in> set xs. x \<noteq> 0 \<and> mapped m x \<Longrightarrow> length xs < fuel
   \<Longrightarrow> uv__queue_foreach fuel (word0 m a) h m = Some (Ret xs)"
proof (induction xs arbitrary: a fuel)
  case Nil
  then show ?case by (cases fuel) auto
next
  case (Cons x xs)
  then show ?case by (cases fuel) (auto simp: rbind_def)
qed

lemma queue_foreach: "ring m h xs \<Longrightarrow> length xs < fuel \<Longrightarrow> uv__queue_foreach fuel (word0 m h) h m = Some (Ret xs)"
  by (auto simp: ring_def intro: foreach_node_chain)

section \<open>Sequences of calls\<close>

datatype queue_call = Queue_insert_tail nat | Queue_insert_head nat | Queue_remove nat

fun run_queue_calls :: "nat \<Rightarrow> queue_call list \<Rightarrow> uv_mem \<Rightarrow> uv_mem outcome" where
  "run_queue_calls h [] m = Ret m"
| "run_queue_calls h (Queue_insert_tail q # cs) m = obind (uv__queue_insert_tail h q m) (run_queue_calls h cs)"
| "run_queue_calls h (Queue_insert_head q # cs) m = obind (uv__queue_insert_head h q m) (run_queue_calls h cs)"
| "run_queue_calls h (Queue_remove q # cs) m = obind (uv__queue_remove q m) (run_queue_calls h cs)"

text \<open>The calls on a list. Nodes of \<open>M\<close> that are in no queue are inserted, and nodes of the queue removed; other calls have no meaning.\<close>

fun list_calls :: "nat set \<Rightarrow> queue_call list \<Rightarrow> nat list \<Rightarrow> nat list option" where
  "list_calls M [] xs = Some xs"
| "list_calls M (Queue_insert_tail q # cs) xs = (if q \<in> M \<and> q \<notin> set xs then list_calls M cs (xs @ [q]) else None)"
| "list_calls M (Queue_insert_head q # cs) xs = (if q \<in> M \<and> q \<notin> set xs then list_calls M cs (q # xs) else None)"
| "list_calls M (Queue_remove q # cs) xs = (if q \<in> set xs then list_calls M cs (remove1 q xs) else None)"

lemma list_calls_cases:
  assumes "list_calls M (c # cs) xs = Some ys" and "ring m h xs" and "h \<notin> M" and "\<forall>a \<in> M. a \<noteq> 0 \<and> mapped m a"
  shows "\<exists>m1 xs1. run_queue_calls h (c # cs) m = run_queue_calls h cs m1 \<and> list_calls M cs xs1 = Some ys
    \<and> ring m1 h xs1 \<and> mapped m1 = mapped m"
proof (cases c)
  case (Queue_insert_tail q)
  with assms have q: "q \<notin> set (h # xs)" "q \<noteq> 0" "mapped m q" "list_calls M cs (xs @ [q]) = Some ys"
    by (auto split: if_splits)
  then show ?thesis using queue_insert_tail [OF assms(2) q(1-3)] Queue_insert_tail by (fastforce simp: only_at_def)
next
  case (Queue_insert_head q)
  with assms have q: "q \<notin> set (h # xs)" "q \<noteq> 0" "mapped m q" "list_calls M cs (q # xs) = Some ys"
    by (auto split: if_splits)
  then show ?thesis using queue_insert_head [OF assms(2) q(1-3)] Queue_insert_head by (fastforce simp: only_at_def)
next
  case (Queue_remove q)
  with assms(1) have q: "q \<in> set xs" "list_calls M cs (remove1 q xs) = Some ys" by (auto split: if_splits)
  then obtain as bs where ab: "xs = as @ q # bs" "q \<notin> set as" by (auto dest: split_list_first)
  have "remove1 q xs = as @ bs" using ab by (simp add: remove1_append)
  then show ?thesis using queue_remove [of m h as q bs] assms(2) Queue_remove ab(1) q(2) by (auto simp: only_at_def)
qed

text \<open>C38: The functions of queue.h implement lists: a sequence of insertions at either end and removals from anywhere leaves a ring whose
  traversal visits the nodes of the list that the same operations give, and it never dereferences NULL.\<close>

theorem queue_calls_refine_list:
  assumes "ring m h xs" and "h \<notin> M" and "\<forall>a \<in> M. a \<noteq> 0 \<and> mapped m a" and "list_calls M cs xs = Some ys"
  shows "\<exists>m'. run_queue_calls h cs m = Ret m' \<and> ring m' h ys
    \<and> uv__queue_foreach (Suc (length ys)) (word0 m' h) h m' = Some (Ret ys) \<and> uv__queue_empty h m' = Ret (ys = [])"
  using assms
proof (induction cs arbitrary: m xs)
  case Nil
  then have "ring m h ys" by simp
  then show ?case using queue_foreach [of m h ys "Suc (length ys)"] queue_empty [of m h ys]
    by (intro exI [of _ m]) (simp del: uv__queue_foreach.simps)
next
  case (Cons c cs)
  obtain m1 xs1 where "run_queue_calls h (c # cs) m = run_queue_calls h cs m1" "list_calls M cs xs1 = Some ys"
    "ring m1 h xs1" "mapped m1 = mapped m"
    using list_calls_cases [OF Cons.prems(4,1-3)] by blast
  then show ?case using Cons.IH [of m1 xs1] Cons.prems(2,3) by simp
qed

theorem queue_calls_refine_list_witness:
  "\<exists>m'. run_queue_calls 9 [Queue_insert_tail 1, Queue_insert_tail 2, Queue_insert_head 3, Queue_remove 1]
      \<lparr>word0 = \<lambda>_. 9, word1 = \<lambda>_. 9, word2 = \<lambda>_. 0, mapped = \<lambda>_. True\<rparr> = Ret m' \<and> ring m' 9 [3, 2]"
  using queue_calls_refine_list [of "\<lparr>word0 = \<lambda>_. 9, word1 = \<lambda>_. 9, word2 = \<lambda>_. 0, mapped = \<lambda>_. True\<rparr>" 9 "[]" "{1, 2, 3}"
      "[Queue_insert_tail 1, Queue_insert_tail 2, Queue_insert_head 3, Queue_remove 1]" "[3, 2]"]
  by (auto simp: ring_def)

end
