(* ===== verification/Uv_Heap.thy ===== *)
theory Uv_Heap
  imports Uv_Queue
begin

text \<open>
  The binary heap of libuv (src/depend/libuv-1.48.0/src/heap-inl.h), a tree of linked nodes with pointers to
  the children and to the parent, in the memory of \<^verbatim>\<open>Uv_Queue\<close>. A heap with \<open>n\<close> elements is shown to be the
  complete tree with the positions 1 to \<open>n\<close>: node \<open>k\<close> has its children at \<open>2 * k\<close> and \<open>2 * k + 1\<close>. The functions then
  act on the positions, and the order of the nodes is a law of the comparison function, which is a
  parameter of every operation as in the code.
\<close>

section \<open>The code\<close>

record heap =
  h_min :: nat
  nelts :: nat

text \<open>A \<^verbatim>\<open>struct heap_node**\<close>: where a pointer to a node is kept.\<close>

datatype slot = Slot_min | Slot_left nat | Slot_right nat

fun slot_read :: "slot \<Rightarrow> heap \<times> uv_mem \<Rightarrow> nat outcome" where
  "slot_read Slot_min (h, m) = Ret (h_min h)"
| "slot_read (Slot_left a) (h, m) = peek word0 a m"
| "slot_read (Slot_right a) (h, m) = peek word1 a m"

fun slot_write :: "slot \<Rightarrow> nat \<Rightarrow> heap \<times> uv_mem \<Rightarrow> (heap \<times> uv_mem) outcome" where
  "slot_write Slot_min v (h, m) = Ret (h\<lparr>h_min := v\<rparr>, m)"
| "slot_write (Slot_left a) v (h, m) = obind (poke word0_update a v m) (\<lambda>m1. Ret (h, m1))"
| "slot_write (Slot_right a) v (h, m) = obind (poke word1_update a v m) (\<lambda>m1. Ret (h, m1))"

definition heap_init :: heap where
  "heap_init = \<lparr>h_min = 0, nelts = 0\<rparr>"

definition heap_min :: "heap \<Rightarrow> nat" where
  "heap_min h = h_min h"

text \<open>\<open>*parent = *child\<close> and the other way round, through a temporary.\<close>

definition exchange_nodes :: "nat \<Rightarrow> nat \<Rightarrow> uv_mem \<Rightarrow> uv_mem outcome" where
  "exchange_nodes p c m = obind (access p m ()) (\<lambda>_. access c m
     (m\<lparr>word0 := (word0 m)(p := word0 m c, c := word0 m p),
        word1 := (word1 m)(p := word1 m c, c := word1 m p),
        word2 := (word2 m)(p := word2 m c, c := word2 m p)\<rparr>))"

text \<open>\<open>if (a != NULL) a->parent = v;\<close>\<close>

definition set_parent :: "nat \<Rightarrow> nat \<Rightarrow> uv_mem \<Rightarrow> uv_mem outcome" where
  "set_parent a v m = (if a \<noteq> 0 then poke word2_update a v m else Ret m)"

text \<open>The pointer to \<open>old\<close> in its parent \<open>p\<close>, or in the heap, now points to \<open>new\<close>.\<close>

definition redirect :: "nat \<Rightarrow> nat \<Rightarrow> nat \<Rightarrow> heap \<times> uv_mem \<Rightarrow> (heap \<times> uv_mem) outcome" where
  "redirect p old new hm =
     (if p = 0 then slot_write Slot_min new hm
      else obind (peek word0 p (snd hm)) (\<lambda>l. if l = old then slot_write (Slot_left p) new hm else slot_write (Slot_right p) new hm))"

definition heap_node_swap :: "nat \<Rightarrow> nat \<Rightarrow> heap \<times> uv_mem \<Rightarrow> (heap \<times> uv_mem) outcome" where
  "heap_node_swap parent child hm =
     obind (exchange_nodes parent child (snd hm)) (\<lambda>m1.
     obind (poke word2_update parent child m1) (\<lambda>m2.
     obind (peek word0 child m2) (\<lambda>cl.
     obind (if cl = child
            then obind (poke word0_update child parent m2) (\<lambda>m3. obind (peek word1 child m3) (\<lambda>sibling. Ret (m3, sibling)))
            else obind (poke word1_update child parent m2) (\<lambda>m3. obind (peek word0 child m3) (\<lambda>sibling. Ret (m3, sibling))))
       (\<lambda>(m3, sibling). obind (set_parent sibling child m3) (\<lambda>m4.
     obind (peek word0 parent m4) (\<lambda>pl. obind (set_parent pl parent m4) (\<lambda>m5.
     obind (peek word1 parent m5) (\<lambda>pr. obind (set_parent pr parent m5) (\<lambda>m6.
     obind (peek word2 child m6) (\<lambda>cp. redirect cp parent child (fst hm, m6)))))))))))"

text \<open>The way from the root to the position \<open>n\<close>, in 32-bit arithmetic.\<close>

fun heap_path :: "nat \<Rightarrow> nat \<Rightarrow> nat \<Rightarrow> nat \<times> nat" where
  "heap_path n path k = (if 2 \<le> n then heap_path (n div 2) (path * 2 mod 2 ^ 32 + n mod 2) (k + 1) else (path, k))"

declare heap_path.simps [simp del]

text \<open>The loop that follows the path: the last two slots it was at.\<close>

fun traverse :: "nat \<Rightarrow> nat \<Rightarrow> slot \<Rightarrow> slot \<Rightarrow> heap \<times> uv_mem \<Rightarrow> (slot \<times> slot) outcome" where
  "traverse 0 path parent child hm = Ret (parent, child)"
| "traverse (Suc k) path parent child hm = obind (slot_read child hm) (\<lambda>a.
     obind (access a (snd hm) ()) (\<lambda>_.
     traverse k (path div 2) child (if path mod 2 = 1 then Slot_right a else Slot_left a) hm))"

text \<open>\<open>while (node->parent != NULL && less_than(node, node->parent)) heap_node_swap(heap, node->parent, node);\<close>\<close>

partial_function (option) walk_up ::
  "(nat \<Rightarrow> nat \<Rightarrow> bool) \<Rightarrow> nat \<Rightarrow> heap \<times> uv_mem \<Rightarrow> (heap \<times> uv_mem) outcome option" where
  "walk_up lt node hm = (case peek word2 node (snd hm) of
     Fault e \<Rightarrow> Some (Fault e)
   | Ret p \<Rightarrow> if p \<noteq> 0 \<and> lt node p
       then (case heap_node_swap p node hm of Fault e \<Rightarrow> Some (Fault e) | Ret hm1 \<Rightarrow> walk_up lt node hm1)
       else Some (Ret hm))"

definition heap_insert ::
  "nat \<Rightarrow> (nat \<Rightarrow> nat \<Rightarrow> bool) \<Rightarrow> heap \<times> uv_mem \<Rightarrow> (heap \<times> uv_mem) outcome option" where
  "heap_insert newnode lt hm =
     rbind (Some (obind (poke word0_update newnode 0 (snd hm)) (\<lambda>m1. obind (poke word1_update newnode 0 m1) (poke word2_update newnode 0)))) (\<lambda>m1.
     case heap_path ((1 + nelts (fst hm)) mod 2 ^ 32) 0 0 of (path, k) \<Rightarrow>
     rbind (Some (traverse k path Slot_min Slot_min (fst hm, m1))) (\<lambda>(parent, child).
     rbind (Some (obind (slot_read parent (fst hm, m1)) (\<lambda>p. poke word2_update newnode p m1))) (\<lambda>m2.
     rbind (Some (slot_write child newnode (fst hm, m2))) (\<lambda>(h3, m3).
     walk_up lt newnode (h3\<lparr>nelts := (nelts h3 + 1) mod 2 ^ 32\<rparr>, m3)))))"

text \<open>The smallest of a node and its children, as the loop of \<open>heap_remove\<close> finds it.\<close>

definition smallest_of :: "(nat \<Rightarrow> nat \<Rightarrow> bool) \<Rightarrow> nat \<Rightarrow> uv_mem \<Rightarrow> nat outcome" where
  "smallest_of lt child m =
     obind (peek word0 child m) (\<lambda>l. obind (peek word1 child m) (\<lambda>r.
       let smallest = (if l \<noteq> 0 \<and> lt l child then l else child) in
       Ret (if r \<noteq> 0 \<and> lt r smallest then r else smallest)))"

partial_function (option) walk_down ::
  "(nat \<Rightarrow> nat \<Rightarrow> bool) \<Rightarrow> nat \<Rightarrow> heap \<times> uv_mem \<Rightarrow> (heap \<times> uv_mem) outcome option" where
  "walk_down lt child hm = (case smallest_of lt child (snd hm) of
     Fault e \<Rightarrow> Some (Fault e)
   | Ret smallest \<Rightarrow> if smallest = child then Some (Ret hm)
       else (case heap_node_swap child smallest hm of Fault e \<Rightarrow> Some (Fault e) | Ret hm1 \<Rightarrow> walk_down lt child hm1))"

text \<open>The max node takes the place of the node that is deleted.\<close>

definition replace_node :: "nat \<Rightarrow> nat \<Rightarrow> heap \<times> uv_mem \<Rightarrow> (heap \<times> uv_mem) outcome" where
  "replace_node node child hm =
     obind (peek word0 node (snd hm)) (\<lambda>l. obind (poke word0_update child l (snd hm)) (\<lambda>m1.
     obind (peek word1 node m1) (\<lambda>r. obind (poke word1_update child r m1) (\<lambda>m2.
     obind (peek word2 node m2) (\<lambda>p. obind (poke word2_update child p m2) (\<lambda>m3.
     obind (peek word0 child m3) (\<lambda>cl. obind (set_parent cl child m3) (\<lambda>m4.
     obind (peek word1 child m4) (\<lambda>cr. obind (set_parent cr child m4) (\<lambda>m5.
     obind (peek word2 node m5) (\<lambda>np. redirect np node child (fst hm, m5))))))))))))"

definition heap_remove ::
  "nat \<Rightarrow> (nat \<Rightarrow> nat \<Rightarrow> bool) \<Rightarrow> heap \<times> uv_mem \<Rightarrow> (heap \<times> uv_mem) outcome option" where
  "heap_remove node lt hm =
     (if nelts (fst hm) = 0 then Some (Ret hm)
      else case heap_path (nelts (fst hm)) 0 0 of (path, k) \<Rightarrow>
       rbind (Some (traverse k path Slot_min Slot_min hm)) (\<lambda>(_, max).
       let hm1 = ((fst hm)\<lparr>nelts := nelts (fst hm) - 1\<rparr>, snd hm) in
       rbind (Some (slot_read max hm1)) (\<lambda>child.
       rbind (Some (slot_write max 0 hm1)) (\<lambda>hm2.
       if child = node then Some (Ret (if child = h_min (fst hm2) then ((fst hm2)\<lparr>h_min := 0\<rparr>, snd hm2) else hm2))
       else rbind (Some (replace_node node child hm2)) (\<lambda>hm3.
         rbind (walk_down lt child hm3) (walk_up lt child))))))"

definition heap_dequeue :: "(nat \<Rightarrow> nat \<Rightarrow> bool) \<Rightarrow> heap \<times> uv_mem \<Rightarrow> (heap \<times> uv_mem) outcome option" where
  "heap_dequeue lt hm = heap_remove (h_min (fst hm)) lt hm"

section \<open>Positions\<close>

text \<open>\<open>A\<close> gives the node at each position; there is none (NULL) outside of 1 to \<open>n\<close>.\<close>

definition heap_tree :: "(nat \<Rightarrow> nat) \<Rightarrow> nat \<Rightarrow> heap \<times> uv_mem \<Rightarrow> bool" where
  "heap_tree A n hm \<longleftrightarrow> h_min (fst hm) = A 1 \<and> nelts (fst hm) = n
     \<and> inj_on A {1..n} \<and> (\<forall>k. A k = 0 \<longleftrightarrow> k = 0 \<or> n < k)
     \<and> (\<forall>k \<in> {1..n}. mapped (snd hm) (A k) \<and> word0 (snd hm) (A k) = A (2 * k)
          \<and> word1 (snd hm) (A k) = A (2 * k + 1) \<and> word2 (snd hm) (A k) = A (k div 2))"

lemma heap_treeD:
  assumes "heap_tree A n hm"
  shows "h_min (fst hm) = A 1" "nelts (fst hm) = n" "A k = 0 \<longleftrightarrow> k = 0 \<or> n < k"
    "1 \<le> k \<Longrightarrow> k \<le> n \<Longrightarrow> mapped (snd hm) (A k)"
    "1 \<le> k \<Longrightarrow> k \<le> n \<Longrightarrow> word0 (snd hm) (A k) = A (2 * k)"
    "1 \<le> k \<Longrightarrow> k \<le> n \<Longrightarrow> word1 (snd hm) (A k) = A (2 * k + 1)"
    "1 \<le> k \<Longrightarrow> k \<le> n \<Longrightarrow> word2 (snd hm) (A k) = A (k div 2)"
  using assms by (auto simp: heap_tree_def)

lemma heap_tree_inj:
  assumes "heap_tree A n hm"
  shows "A a = A b \<longleftrightarrow> a = b \<or> (a = 0 \<or> n < a) \<and> (b = 0 \<or> n < b)"
proof -
  have i: "inj_on A {1..n}" and z: "\<And>k. A k = 0 \<longleftrightarrow> k = 0 \<or> n < k" using assms by (auto simp: heap_tree_def)
  show ?thesis
  proof (cases "a \<in> {1..n} \<and> b \<in> {1..n}")
    case True
    then have "A a = A b \<longleftrightarrow> a = b" using inj_on_eq_iff [OF i] by blast
    with True show ?thesis by auto
  next
    case False
    then have "A a = 0 \<or> A b = 0" using z [of a] z [of b] by force
    then show ?thesis using z [of a] z [of b] by (elim disjE) auto
  qed
qed

lemma word_order:
  "m\<lparr>word1 := x, word0 := y\<rparr> = m\<lparr>word0 := y, word1 := x\<rparr>"
  "m\<lparr>word2 := z, word0 := y\<rparr> = m\<lparr>word0 := y, word2 := z\<rparr>"
  "m\<lparr>word2 := z, word1 := x\<rparr> = m\<lparr>word1 := x, word2 := z\<rparr>" for m :: uv_mem
  by simp_all

text \<open>Writing the parent of a node that may be NULL.\<close>

definition put_if :: "nat \<Rightarrow> nat \<Rightarrow> (nat \<Rightarrow> nat) \<Rightarrow> nat \<Rightarrow> nat" where
  "put_if a v w = (if a \<noteq> 0 then w(a := v) else w)"

lemma set_parent_Ret [simp]: "a = 0 \<or> mapped m a \<Longrightarrow> set_parent a v m = Ret (m\<lparr>word2 := put_if a v (word2 m)\<rparr>)"
  by (auto simp: set_parent_def put_if_def)

lemma put_if_apply: "put_if a v w x = (if a \<noteq> 0 \<and> x = a then v else w x)"
  by (simp add: put_if_def)

lemma put_if_other: "a = 0 \<or> x \<noteq> a \<Longrightarrow> put_if a v w x = w x"
  by (auto simp: put_if_def)

definition swap_pos :: "nat \<Rightarrow> nat \<Rightarrow> (nat \<Rightarrow> nat) \<Rightarrow> nat \<Rightarrow> nat" where
  "swap_pos i j A = A(i := A j, j := A i)"

text \<open>The memory after the exchange of the nodes at the positions \<open>i\<close> and \<open>j\<close>, one of its children.\<close>

definition swapped :: "(nat \<Rightarrow> nat) \<Rightarrow> nat \<Rightarrow> nat \<Rightarrow> heap \<times> uv_mem \<Rightarrow> heap \<times> uv_mem" where
  "swapped A i j hm = (case hm of (h, m) \<Rightarrow>
     let p = A i; c = A j; g = A (i div 2);
         w0 = (word0 m)(p := A (2 * j), c := if j = 2 * i then p else A (2 * i));
         w1 = (word1 m)(p := A (2 * j + 1), c := if j = 2 * i then A (2 * i + 1) else p);
         w2 = put_if (A (2 * j + 1)) p (put_if (A (2 * j)) p
                (put_if (if j = 2 * i then A (2 * i + 1) else A (2 * i)) c ((word2 m)(c := g, p := c)))) in
     (if g = 0 then h\<lparr>h_min := c\<rparr> else h,
      m\<lparr>word0 := (if g \<noteq> 0 \<and> even i then w0(g := c) else w0),
        word1 := (if g \<noteq> 0 \<and> odd i then w1(g := c) else w1), word2 := w2\<rparr>))"

lemma heap_node_swap_Ret:
  assumes t: "heap_tree A n hm" and i: "1 \<le> i" and j: "j = 2 * i \<or> j = 2 * i + 1" "j \<le> n"
  shows "heap_node_swap (A i) (A j) hm = Ret (swapped A i j hm)"
proof -
  obtain h m where hm: "hm = (h, m)" by force
  have ii: "i \<le> n" "i \<noteq> j" "1 \<le> j" using i j by auto
  note d = heap_treeD [OF t, unfolded hm, simplified]
  note inj = heap_tree_inj [OF t]
  have nz: "A i \<noteq> 0" "A j \<noteq> 0" using d(3) i ii j by auto
  have ne: "A i \<noteq> A j" using inj [of i j] i ii j by auto
  have mp: "mapped m (A i)" "mapped m (A j)" using d(4) i ii j by auto
  have kids: "A k = 0 \<or> mapped m (A k)" for k using d(3,4) [of k] by auto
  have w: "word0 m (A i) = A (2 * i)" "word1 m (A i) = A (2 * i + 1)" "word2 m (A i) = A (i div 2)"
    "word0 m (A j) = A (2 * j)" "word1 m (A j) = A (2 * j + 1)" using d i ii j by auto
  have e: "A (2 * i) = A j \<longleftrightarrow> j = 2 * i" "A (Suc (2 * i)) = A j \<longleftrightarrow> j = Suc (2 * i)"
    using inj [of "2 * i" j] inj [of "Suc (2 * i)" j] i ii j by auto
  have g: "A (i div 2) \<noteq> A i" "A (i div 2) \<noteq> A j" using inj [of "i div 2" i] inj [of "i div 2" j] i ii j by auto
  have gw: "A (i div 2) \<noteq> 0 \<Longrightarrow> word0 m (A (i div 2)) = A i \<longleftrightarrow> even i"
    "A (i div 2) \<noteq> 0 \<Longrightarrow> word0 m (A (i div 2)) = A (2 * (i div 2))"
  proof -
    assume nz: "A (i div 2) \<noteq> 0"
    then have r: "1 \<le> i div 2" "i div 2 \<le> n" using d(3) [of "i div 2"] by auto
    then show "word0 m (A (i div 2)) = A (2 * (i div 2))" using d(5) by simp
    moreover have "2 * (i div 2) = i \<longleftrightarrow> even i" by presburger
    moreover have "A (2 * (i div 2)) = A i \<longleftrightarrow> 2 * (i div 2) = i" using inj [of "2 * (i div 2)" i] i ii by auto
    ultimately show "word0 m (A (i div 2)) = A i \<longleftrightarrow> even i" by simp
  qed
  note k = kids [of "2 * j"] kids [of "2 * j + 1"] kids [of "2 * i"] kids [of "2 * i + 1"] kids [of "i div 2"]
  have c2: "A (2 * j) \<noteq> A j" "A (Suc (2 * j)) \<noteq> A j"
    using inj [of "2 * j" j] inj [of "Suc (2 * j)" j] i ii j by auto
  show ?thesis
  proof (cases "j = 2 * i")
    case True
    with nz ne mp w e k c2 g gw show ?thesis
      by (cases "A (i div 2) = 0"; cases "even i")
         (simp_all add: hm heap_node_swap_def exchange_nodes_def redirect_def swapped_def Let_def put_if_other word_order
            del: obind_eq_Ret cong: obind_front)
  next
    case False
    with j have "j = Suc (2 * i)" by simp
    with nz ne mp w e k c2 g gw show ?thesis
      by (cases "A (i div 2) = 0"; cases "even i")
         (simp_all add: hm heap_node_swap_def exchange_nodes_def redirect_def swapped_def Let_def put_if_other word_order
            del: obind_eq_Ret cong: obind_front)
  qed
qed

lemma heap_tree_swapped:
  assumes t: "heap_tree A n hm" and i: "1 \<le> i" and j: "j = 2 * i \<or> j = 2 * i + 1" "j \<le> n"
  shows "heap_tree (swap_pos i j A) n (swapped A i j hm)"
proof -
  obtain h m where hm: "hm = (h, m)" by force
  have ii: "i \<le> n" "i \<noteq> j" "1 \<le> j" "i < j" using i j by auto
  note d = heap_treeD [OF t, unfolded hm, simplified]
  note inj = heap_tree_inj [OF t]
  have zero: "swap_pos i j A k = 0 \<longleftrightarrow> k = 0 \<or> n < k" for k using d(3) i ii j by (auto simp: swap_pos_def)
  have inj': "inj_on (swap_pos i j A) {1..n}" using i ii j by (auto simp: inj_on_def swap_pos_def inj split: if_splits)
  have top: "h_min (fst (swapped A i j hm)) = swap_pos i j A 1" "nelts (fst (swapped A i j hm)) = n"
    using i ii d(1-3) by (auto simp: hm swapped_def swap_pos_def Let_def)
  have w0: "word0 (snd (swapped A i j hm)) (swap_pos i j A k) = swap_pos i j A (2 * k)" if k: "k \<in> {1..n}" for k
  proof -
    consider "k = i" | "k = j" | "k \<noteq> i" "k \<noteq> j" "k = i div 2" | "k \<noteq> i" "k \<noteq> j" "k \<noteq> i div 2" by blast
    then show ?thesis using i ii j k
      by cases (auto simp: hm swapped_def swap_pos_def Let_def inj d)
  qed
  have w1: "word1 (snd (swapped A i j hm)) (swap_pos i j A k) = swap_pos i j A (2 * k + 1)" if k: "k \<in> {1..n}" for k
  proof -
    consider "k = i" | "k = j" | "k \<noteq> i" "k \<noteq> j" "k = i div 2" | "k \<noteq> i" "k \<noteq> j" "k \<noteq> i div 2" by blast
    then show ?thesis using i ii j k
      by cases (auto simp: hm swapped_def swap_pos_def Let_def inj d)
  qed
  have w2: "word2 (snd (swapped A i j hm)) (swap_pos i j A k) = swap_pos i j A (k div 2)" if k: "k \<in> {1..n}" for k
  proof -
    consider "k = i" | "k = j" | "k \<noteq> i" "k \<noteq> j" "k = 2 * i \<or> k = 2 * i + 1"
      | "k \<noteq> i" "k \<noteq> j" "k = 2 * j \<or> k = 2 * j + 1" | "k \<noteq> i" "k \<noteq> j" "k div 2 \<noteq> i" "k div 2 \<noteq> j" by linarith
    then show ?thesis using i ii j k
      by cases (auto simp: hm swapped_def swap_pos_def Let_def put_if_apply inj d)
  qed
  have "mapped (snd (swapped A i j hm)) (swap_pos i j A k)" if k: "k \<in> {1..n}" for k
    using i ii j k d(4) by (auto simp: hm swapped_def swap_pos_def Let_def)
  with top inj' zero w0 w1 w2 show ?thesis unfolding heap_tree_def by blast
qed

text \<open>Nodes outside of the tree keep their words.\<close>

definition same_outside :: "nat set \<Rightarrow> uv_mem \<Rightarrow> uv_mem \<Rightarrow> bool" where
  "same_outside S m m' \<longleftrightarrow> mapped m' = mapped m
     \<and> (\<forall>a. a \<notin> S \<longrightarrow> word0 m' a = word0 m a \<and> word1 m' a = word1 m a \<and> word2 m' a = word2 m a)"

lemma same_outside_refl [simp]: "same_outside S m m"
  by (simp add: same_outside_def)

lemma same_outside_trans: "same_outside S m m' \<Longrightarrow> same_outside S m' m'' \<Longrightarrow> same_outside S m m''"
  by (simp add: same_outside_def)

lemma same_outside_mono: "same_outside S m m' \<Longrightarrow> S \<subseteq> T \<Longrightarrow> same_outside T m m'"
  by (auto simp: same_outside_def)

lemma swapped_frame:
  assumes t: "heap_tree A n hm" and i: "1 \<le> i" "i < j" "j \<le> n"
  shows "same_outside (A ` {1..n}) (snd hm) (snd (swapped A i j hm))"
proof -
  have mem: "A k \<noteq> 0 \<Longrightarrow> A k \<in> A ` {1..n}" for k using heap_treeD(3) [OF t, of k] by (auto simp: image_iff)
  have "word0 (snd (swapped A i j hm)) a = word0 (snd hm) a \<and> word1 (snd (swapped A i j hm)) a = word1 (snd hm) a
    \<and> word2 (snd (swapped A i j hm)) a = word2 (snd hm) a" if a: "a \<notin> A ` {1..n}" for a
  proof -
    have k: "A k = 0 \<or> a \<noteq> A k" for k using mem [of k] a by auto
    have "a \<noteq> A i" "a \<noteq> A j" using a i by auto
    moreover note k [of "2 * i"] k [of "2 * i + 1"] k [of "2 * j"] k [of "2 * j + 1"] k [of "i div 2"]
    moreover obtain h m where "hm = (h, m)" by force
    ultimately show ?thesis
      by (cases "A (i div 2) = 0"; cases "j = 2 * i") (simp_all add: swapped_def Let_def put_if_other)
  qed
  then show ?thesis by (simp add: same_outside_def) (simp add: swapped_def Let_def split: prod.split)
qed

lemma swap_pos_image: "1 \<le> i \<Longrightarrow> i \<le> n \<Longrightarrow> 1 \<le> j \<Longrightarrow> j \<le> n \<Longrightarrow> swap_pos i j A ` {1..n} = A ` {1..n}"
  by (auto simp: swap_pos_def image_iff split: if_splits)

section \<open>Walking along the tree\<close>

text \<open>The position that a path leads to, and the slot for a position.\<close>

fun follow :: "nat \<Rightarrow> nat \<Rightarrow> nat \<Rightarrow> nat" where
  "follow 0 path i = i"
| "follow (Suc k) path i = follow k (path div 2) (2 * i + path mod 2)"

definition pos_slot :: "(nat \<Rightarrow> nat) \<Rightarrow> nat \<Rightarrow> slot" where
  "pos_slot A i = (if i = 1 then Slot_min else if odd i then Slot_right (A (i div 2)) else Slot_left (A (i div 2)))"

lemma heap_path_follow:
  assumes "heap_path n p k = (path, K)" and "1 \<le> n" and "p < 2 ^ k" and "n * 2 ^ k < 2 ^ 32"
  shows "follow K path 1 = follow k p n"
  using assms
proof (induction n p k rule: heap_path.induct)
  case (1 n p k)
  show ?case
  proof (cases "2 \<le> n")
    case True
    have "2 * 2 ^ k \<le> n * 2 ^ k" using True by (rule mult_le_mono1)
    then have "p * 2 < 2 ^ 32" using "1.prems"(3,4) by linarith
    then have small: "p * 2 mod 2 ^ 32 = p * 2" by (rule mod_less)
    have "n div 2 * 2 ^ (k + 1) \<le> n * 2 ^ k" by simp
    then have lt: "n div 2 * 2 ^ (k + 1) < 2 ^ 32" using "1.prems"(4) by linarith
    have "heap_path (n div 2) (p * 2 mod 2 ^ 32 + n mod 2) (k + 1) = (path, K)"
      using "1.prems"(1) True by (simp add: heap_path.simps [of n])
    then have "follow K path 1 = follow (k + 1) (p * 2 mod 2 ^ 32 + n mod 2) (n div 2)"
    proof (rule "1.IH" [OF True])
      show "1 \<le> n div 2" using True by simp
      have "p * 2 + n mod 2 < 2 * 2 ^ k" using "1.prems"(3) by auto
      then show "p * 2 mod 2 ^ 32 + n mod 2 < 2 ^ (k + 1)" using small by simp
    qed (rule lt)
    also have "\<dots> = follow k p n" using small by simp
    finally show ?thesis .
  next
    case False
    then have "n = 1" using "1.prems"(2) by simp
    then show ?thesis using "1.prems"(1) heap_path.simps [of n p k] by simp
  qed
qed

lemma follow_ge: "i \<le> follow k path i"
proof (induction k arbitrary: path i)
  case (Suc k)
  have "i \<le> 2 * i + path mod 2" by simp
  also have "\<dots> \<le> follow (Suc k) path i" using Suc.IH by simp
  finally show ?case .
qed simp

lemma slot_read_at: "heap_tree A n hm \<Longrightarrow> 1 \<le> i \<Longrightarrow> i div 2 \<le> n \<Longrightarrow> slot_read (pos_slot A i) hm = Ret (A i)"
proof -
  assume t: "heap_tree A n hm" and i: "1 \<le> i" "i div 2 \<le> n"
  obtain h m where hm: "hm = (h, m)" by force
  note d = heap_treeD [OF t]
  show ?thesis
  proof (cases "i = 1")
    case False
    then have r: "1 \<le> i div 2" using i by simp
    have "A (i div 2) \<noteq> 0" using d(3) [of "i div 2"] r i by simp
    moreover have "even i \<Longrightarrow> i = 2 * (i div 2)" "odd i \<Longrightarrow> i = 2 * (i div 2) + 1" by presburger+
    ultimately show ?thesis using d(4-6) [OF r i(2)] False by (cases "odd i") (auto simp: pos_slot_def hm)
  qed (use d(1) in \<open>simp add: pos_slot_def hm\<close>)
qed

lemma traverse_follow:
  assumes t: "heap_tree A n hm" and "1 \<le> i" and "follow k path i div 2 \<le> n"
  shows "traverse k path p (pos_slot A i) hm
    = Ret (if k = 0 then p else pos_slot A (follow k path i div 2), pos_slot A (follow k path i))"
  using assms(2,3)
proof (induction k arbitrary: path i p)
  case (Suc k)
  let ?j = "2 * i + path mod 2"
  have le: "?j \<le> follow (Suc k) path i" using follow_ge [of ?j] by simp
  then have "i \<le> follow (Suc k) path i div 2" by (simp add: less_eq_div_iff_mult_less_eq)
  then have i: "i \<le> n" "i div 2 \<le> n" using Suc.prems(2) by linarith+
  have read: "slot_read (pos_slot A i) hm = Ret (A i)" using slot_read_at [OF t Suc.prems(1) i(2)] .
  have ok: "access (A i) (snd hm) () = Ret ()" using heap_treeD(3,4) [OF t, of i] Suc.prems(1) i by simp
  have slot: "(if path mod 2 = 1 then Slot_right (A i) else Slot_left (A i)) = pos_slot A ?j"
    using Suc.prems(1) by (cases "path mod 2 = 1") (auto simp: pos_slot_def)
  have "traverse k (path div 2) (pos_slot A i) (pos_slot A ?j) hm
    = Ret (if k = 0 then pos_slot A i else pos_slot A (follow k (path div 2) ?j div 2), pos_slot A (follow k (path div 2) ?j))"
    using Suc.prems by (intro Suc.IH) auto
  moreover have "k = 0 \<Longrightarrow> follow k (path div 2) ?j div 2 = i" by simp
  ultimately show ?case using read ok slot by (cases "k = 0") auto
qed simp

text \<open>So the loops find the slot of a given position, and the slot of its parent.\<close>

lemma heap_path_traverse:
  assumes t: "heap_tree A n hm" and N: "1 \<le> N" "N < 2 ^ 32" "N div 2 \<le> n" and p: "heap_path N 0 0 = (path, k)"
  shows "traverse k path Slot_min Slot_min hm
    = Ret (if N = 1 then Slot_min else pos_slot A (N div 2), pos_slot A N)"
proof -
  have f: "follow k path 1 = N" using heap_path_follow [OF p] N by simp
  have k0: "k = 0 \<longleftrightarrow> N = 1"
  proof
    assume "N = 1"
    then show "k = 0" using p by (simp add: heap_path.simps)
  qed (use f in simp)
  have "pos_slot A 1 = Slot_min" by (simp add: pos_slot_def)
  then show ?thesis using traverse_follow [OF t, of 1 k path Slot_min] f N k0 by simp
qed

section \<open>The walks on positions\<close>

function up :: "(nat \<Rightarrow> nat \<Rightarrow> bool) \<Rightarrow> nat \<Rightarrow> (nat \<Rightarrow> nat) \<Rightarrow> nat \<Rightarrow> nat" where
  "up lt i A = (if 1 < i \<and> lt (A i) (A (i div 2)) then up lt (i div 2) (swap_pos (i div 2) i A) else A)"
  by pat_completeness auto
termination by (relation "measure (\<lambda>(lt, i, A). i)") auto

definition least_child :: "(nat \<Rightarrow> nat \<Rightarrow> bool) \<Rightarrow> nat \<Rightarrow> nat \<Rightarrow> (nat \<Rightarrow> nat) \<Rightarrow> nat" where
  "least_child lt n i A =
     (let s = (if 2 * i \<le> n \<and> lt (A (2 * i)) (A i) then 2 * i else i) in
      if 2 * i + 1 \<le> n \<and> lt (A (2 * i + 1)) (A s) then 2 * i + 1 else s)"

lemma least_child_cases: "least_child lt n i A = i \<or> (least_child lt n i A \<le> n \<and>
    (least_child lt n i A = 2 * i \<or> least_child lt n i A = 2 * i + 1))"
  by (auto simp: least_child_def Let_def)

text \<open>A position from which no child is smaller, and the nodes then.\<close>

function down :: "(nat \<Rightarrow> nat \<Rightarrow> bool) \<Rightarrow> nat \<Rightarrow> nat \<Rightarrow> (nat \<Rightarrow> nat) \<Rightarrow> nat \<times> (nat \<Rightarrow> nat)" where
  "down lt n i A = (if i = 0 \<or> least_child lt n i A = i then (i, A)
     else down lt n (least_child lt n i A) (swap_pos i (least_child lt n i A) A))"
  by pat_completeness auto
termination
proof (relation "measure (\<lambda>(lt, n, i, A). n - i)")
  show "((lt, n, least_child lt n i A, swap_pos i (least_child lt n i A) A), lt, n, i, A) \<in> measure (\<lambda>(lt, n, i, A). n - i)"
    if "\<not> (i = 0 \<or> least_child lt n i A = i)" for lt n i A
    using that least_child_cases [of lt n i A] by auto
qed simp

declare up.simps [simp del] down.simps [simp del]

lemma walk_up_refines:
  assumes "heap_tree A n hm" and "1 \<le> i" and "i \<le> n"
  shows "\<exists>hm'. walk_up lt (A i) hm = Some (Ret hm') \<and> heap_tree (up lt i A) n hm'
    \<and> up lt i A ` {1..n} = A ` {1..n} \<and> same_outside (A ` {1..n}) (snd hm) (snd hm')"
  using assms
proof (induction lt i A arbitrary: hm rule: up.induct)
  case (1 lt i A)
  note t = "1.prems"(1)
  note d = heap_treeD(3-7) [OF t, of i]
  have p: "peek word2 (A i) (snd hm) = Ret (A (i div 2))" using d "1.prems" by simp
  have g: "A (i div 2) \<noteq> 0 \<longleftrightarrow> 1 < i" using heap_treeD(3) [OF t, of "i div 2"] "1.prems" by auto
  show ?case
  proof (cases "1 < i \<and> lt (A i) (A (i div 2))")
    case True
    let ?p = "i div 2"
    have r: "1 \<le> ?p" "i = 2 * ?p \<or> i = 2 * ?p + 1" "?p \<le> n" "?p < i" using True "1.prems"(3) by auto
    have s: "heap_node_swap (A ?p) (A i) hm = Ret (swapped A ?p i hm)"
      using heap_node_swap_Ret [OF t r(1,2) "1.prems"(3)] .
    have t': "heap_tree (swap_pos ?p i A) n (swapped A ?p i hm)" using heap_tree_swapped [OF t r(1,2) "1.prems"(3)] .
    have here: "swap_pos ?p i A ?p = A i" using r by (simp add: swap_pos_def)
    obtain hm' where hm': "walk_up lt (swap_pos ?p i A ?p) (swapped A ?p i hm) = Some (Ret hm')"
      "heap_tree (up lt ?p (swap_pos ?p i A)) n hm'"
      "up lt ?p (swap_pos ?p i A) ` {1..n} = swap_pos ?p i A ` {1..n}"
      "same_outside (swap_pos ?p i A ` {1..n}) (snd (swapped A ?p i hm)) (snd hm')"
      using "1.IH" [OF True t' r(1,3)] by blast
    have im: "swap_pos ?p i A ` {1..n} = A ` {1..n}" using r "1.prems" by (intro swap_pos_image) auto
    have fr: "same_outside (A ` {1..n}) (snd hm) (snd hm')"
      using swapped_frame [OF t r(1,4) "1.prems"(3)] hm'(4) unfolding im by (rule same_outside_trans)
    have "walk_up lt (A i) hm = Some (Ret hm')"
      using True g p s hm'(1) here by (subst walk_up.simps) simp
    then show ?thesis using hm'(2,3) fr im True by (subst up.simps) (auto simp: up.simps [of lt i A])
  next
    case False
    have "walk_up lt (A i) hm = Some (Ret hm)" using False g p by (subst walk_up.simps) auto
    then show ?thesis using False t by (subst up.simps) (auto simp: up.simps [of lt i A])
  qed
qed

lemma smallest_of_refines:
  assumes t: "heap_tree A n hm" and i: "1 \<le> i" "i \<le> n"
  shows "smallest_of lt (A i) (snd hm) = Ret (A (least_child lt n i A))"
proof -
  have z: "A (2 * i) \<noteq> 0 \<longleftrightarrow> 2 * i \<le> n" "A (2 * i + 1) \<noteq> 0 \<longleftrightarrow> 2 * i + 1 \<le> n"
    using heap_treeD(3) [OF t, of "2 * i"] heap_treeD(3) [OF t, of "2 * i + 1"] i by auto
  show ?thesis using heap_treeD(3-7) [OF t, of i] i z by (auto simp: smallest_of_def least_child_def Let_def)
qed

lemma walk_down_refines:
  assumes "heap_tree A n hm" and "1 \<le> i" and "i \<le> n"
  shows "\<exists>hm'. walk_down lt (A i) hm = Some (Ret hm') \<and> heap_tree (snd (down lt n i A)) n hm'
    \<and> snd (down lt n i A) (fst (down lt n i A)) = A i \<and> fst (down lt n i A) \<in> {1..n}
    \<and> snd (down lt n i A) ` {1..n} = A ` {1..n} \<and> same_outside (A ` {1..n}) (snd hm) (snd hm')"
  using assms
proof (induction lt n i A arbitrary: hm rule: down.induct)
  case (1 lt n i A)
  note t = "1.prems"(1)
  let ?c = "least_child lt n i A"
  have sm: "smallest_of lt (A i) (snd hm) = Ret (A ?c)" using smallest_of_refines [OF t "1.prems"(2,3)] .
  show ?case
  proof (cases "?c = i")
    case True
    have "walk_down lt (A i) hm = Some (Ret hm)" using True sm by (subst walk_down.simps) auto
    then show ?thesis using True t "1.prems" by (simp add: down.simps [of lt n i A])
  next
    case False
    have r: "?c = 2 * i \<or> ?c = 2 * i + 1" "?c \<le> n" using least_child_cases [of lt n i A] False by auto
    then have c: "1 \<le> ?c" "i < ?c" using "1.prems"(2) by linarith+
    have ne: "A ?c \<noteq> A i" using heap_tree_inj [OF t, of ?c i] c r "1.prems" by auto
    have s: "heap_node_swap (A i) (A ?c) hm = Ret (swapped A i ?c hm)"
      using heap_node_swap_Ret [OF t "1.prems"(2) r] .
    have t': "heap_tree (swap_pos i ?c A) n (swapped A i ?c hm)" using heap_tree_swapped [OF t "1.prems"(2) r] .
    have here: "swap_pos i ?c A ?c = A i" by (simp add: swap_pos_def)
    have nz: "\<not> (i = 0 \<or> ?c = i)" using False "1.prems" by simp
    obtain hm' where hm': "walk_down lt (A i) (swapped A i ?c hm) = Some (Ret hm')"
      "heap_tree (snd (down lt n ?c (swap_pos i ?c A))) n hm'"
      "snd (down lt n ?c (swap_pos i ?c A)) (fst (down lt n ?c (swap_pos i ?c A))) = A i"
      "fst (down lt n ?c (swap_pos i ?c A)) \<in> {1..n}"
      "snd (down lt n ?c (swap_pos i ?c A)) ` {1..n} = swap_pos i ?c A ` {1..n}"
      "same_outside (swap_pos i ?c A ` {1..n}) (snd (swapped A i ?c hm)) (snd hm')"
      using "1.IH" [OF nz t' c(1) r(2)] unfolding here by blast
    have im: "swap_pos i ?c A ` {1..n} = A ` {1..n}" using c r "1.prems" by (intro swap_pos_image) auto
    have fr: "same_outside (A ` {1..n}) (snd hm) (snd hm')"
      using swapped_frame [OF t "1.prems"(2) c(2) r(2)] hm'(6) unfolding im by (rule same_outside_trans)
    have "walk_down lt (A i) hm = Some (Ret hm')" using sm ne s hm'(1) by (subst walk_down.simps) simp
    moreover have "down lt n i A = down lt n ?c (swap_pos i ?c A)" using nz by (simp add: down.simps [of lt n i A])
    ultimately show ?thesis using hm'(2-5) fr im by simp
  qed
qed

end
