(* ===== verification/Uv_Heap_Ops.thy ===== *)
theory Uv_Heap_Ops
  imports Uv_Heap
begin

text \<open>
  Insertion and removal of src/depend/libuv-1.48.0/src/heap-inl.h: that they return, what they do to the tree of
  \<^verbatim>\<open>Uv_Heap\<close>, and that the heap order is kept when the comparison function is a strict weak order.
  A client needs the four facts at the end: a heap is a set of nodes, the operations add to it and take from it, and
  the root is a least element.
\<close>

section \<open>Adding, unlinking and replacing a node\<close>

lemma append_node:
  assumes t: "heap_tree A n (h, m)" and new: "new \<notin> A ` {1..n}" "new \<noteq> 0" "mapped m new"
    and w: "word0 m new = 0" "word1 m new = 0" "word2 m new = A (Suc n div 2)"
  shows "\<exists>h' m'. slot_write (pos_slot A (Suc n)) new (h, m) = Ret (h', m') \<and> nelts h' = n
    \<and> heap_tree (A(Suc n := new)) (Suc n) (h'\<lparr>nelts := Suc n\<rparr>, m')
    \<and> same_outside (insert new (A ` {1..n})) m m'"
proof -
  note d = heap_treeD [OF t, unfolded fst_conv snd_conv]
  note inj = heap_tree_inj [OF t]
  have fresh: "1 \<le> k \<Longrightarrow> k \<le> n \<Longrightarrow> A k \<noteq> new" for k using new(1) by force
  have ij: "inj_on (A(Suc n := new)) {1..Suc n}"
  proof (rule inj_onI)
    fix a b assume ab: "a \<in> {1..Suc n}" "b \<in> {1..Suc n}" "(A(Suc n := new)) a = (A(Suc n := new)) b"
    consider "a = Suc n" "b = Suc n" | "a = Suc n" "b \<le> n" | "a \<le> n" "b = Suc n" | "a \<le> n" "b \<le> n" using ab by force
    then show "a = b" using ab fresh [of a] fresh [of b] inj [of a b] by cases auto
  qed
  let ?B = "A(Suc n := new)"
  have zero: "?B k = 0 \<longleftrightarrow> k = 0 \<or> Suc n < k" for k using d(3) [of k] new(2) by auto
  show ?thesis
  proof (cases "n = 0")
    case True
    then have A0: "A k = 0" for k using d(3) [of k] by auto
    have wr: "slot_write (pos_slot A (Suc n)) new (h, m) = Ret (h\<lparr>h_min := new\<rparr>, m)" using True by (simp add: pos_slot_def)
    have "heap_tree (A(Suc n := new)) (Suc n) (h\<lparr>h_min := new, nelts := Suc n\<rparr>, m)"
      unfolding heap_tree_def
    proof (intro conjI)
      show "\<forall>k. (A(Suc n := new)) k = 0 \<longleftrightarrow> k = 0 \<or> Suc n < k" using zero by blast
      with w new(3) True A0 show "\<forall>k\<in>{1..Suc n}. mapped (snd (h\<lparr>h_min := new, nelts := Suc n\<rparr>, m)) ((A(Suc n := new)) k)
        \<and> word0 (snd (h\<lparr>h_min := new, nelts := Suc n\<rparr>, m)) ((A(Suc n := new)) k) = (A(Suc n := new)) (2 * k)
        \<and> word1 (snd (h\<lparr>h_min := new, nelts := Suc n\<rparr>, m)) ((A(Suc n := new)) k) = (A(Suc n := new)) (2 * k + 1)
        \<and> word2 (snd (h\<lparr>h_min := new, nelts := Suc n\<rparr>, m)) ((A(Suc n := new)) k) = (A(Suc n := new)) (k div 2)"
        by simp
    qed (use True ij in simp_all)
    with wr d(2) show ?thesis by auto
  next
    case False
    define p where "p = Suc n div 2"
    have p: "1 \<le> p" "p \<le> n" using False by (auto simp: p_def)
    have pz: "A p \<noteq> 0" "mapped m (A p)" "new \<noteq> A p" using d(3,4) [of p] fresh [OF p] p by auto
    define m' where "m' = (if odd (Suc n) then m\<lparr>word1 := (word1 m)(A p := new)\<rparr> else m\<lparr>word0 := (word0 m)(A p := new)\<rparr>)"
    have wr: "slot_write (pos_slot A (Suc n)) new (h, m) = Ret (h, m')"
      using pz False by (auto simp: pos_slot_def m'_def p_def [symmetric])
    have words: "word0 m' = (if odd (Suc n) then word0 m else (word0 m)(A p := new))"
      "word1 m' = (if odd (Suc n) then (word1 m)(A p := new) else word1 m)" "word2 m' = word2 m" "mapped m' = mapped m"
      by (simp_all add: m'_def)
    have "mapped m' (?B k) \<and> word0 m' (?B k) = ?B (2 * k) \<and> word1 m' (?B k) = ?B (2 * k + 1) \<and> word2 m' (?B k) = ?B (k div 2)"
      if k: "1 \<le> k" "k \<le> Suc n" for k
    proof (cases "k = Suc n")
      case True
      have out: "?B (2 * k) = 0" "?B (2 * k + 1) = 0" using zero [of "2 * k"] zero [of "2 * k + 1"] True by auto
      moreover have "?B (k div 2) = A p" using True p by (simp add: p_def)
      moreover have "?B k = new" using True by simp
      moreover have "word2 m new = A p" using w(3) by (simp add: p_def)
      ultimately show ?thesis using w(1,2) new(3) pz(3) by (simp only: words if_distrib if_distribR fun_upd_other if_cancel simp_thms)
    next
      case False
      then have kn: "k \<le> n" using k by simp
      have e: "A k = A p \<longleftrightarrow> k = p" using inj [of k p] k kn p by linarith
      have "2 * k = Suc n \<longleftrightarrow> k = p \<and> even (Suc n)" "2 * k + 1 = Suc n \<longleftrightarrow> k = p \<and> odd (Suc n)"
        unfolding p_def by presburger+
      moreover have "k \<noteq> Suc n" "k div 2 \<noteq> Suc n" using kn by auto
      ultimately show ?thesis using d(4-7) [OF k(1) kn] by (cases "k = p"; cases "odd (Suc n)") (simp_all add: words e)
    qed
    then have "heap_tree ?B (Suc n) (h\<lparr>nelts := Suc n\<rparr>, m')" using ij zero d(1) False by (auto simp: heap_tree_def)
    moreover have "same_outside (insert new (A ` {1..n})) m m'" using p by (auto simp: same_outside_def words)
    ultimately show ?thesis using wr d(2) by blast
  qed
qed

lemma unlink_last:
  assumes t: "heap_tree A (Suc n) (h, m)"
  shows "\<exists>hm'. slot_write (pos_slot A (Suc n)) 0 (h\<lparr>nelts := n\<rparr>, m) = Ret hm' \<and> heap_tree (A(Suc n := 0)) n hm'
    \<and> same_outside (A ` {1..Suc n}) m (snd hm')"
proof -
  note d = heap_treeD [OF t, unfolded fst_conv snd_conv]
  note inj = heap_tree_inj [OF t]
  let ?B = "A(Suc n := 0)"
  have zero: "?B k = 0 \<longleftrightarrow> k = 0 \<or> n < k" for k using d(3) [of k] by auto
  have ij: "inj_on ?B {1..n}"
  proof (rule inj_onI)
    fix a b assume "a \<in> {1..n}" "b \<in> {1..n}" "?B a = ?B b"
    then show "a = b" using inj [of a b] by auto
  qed
  show ?thesis
  proof (cases "n = 0")
    case True
    have "slot_write (pos_slot A (Suc n)) 0 (h\<lparr>nelts := n\<rparr>, m) = Ret (h\<lparr>nelts := n, h_min := 0\<rparr>, m)"
      using True by (simp add: pos_slot_def)
    moreover have "heap_tree ?B n (h\<lparr>nelts := n, h_min := 0\<rparr>, m)"
      using True ij zero unfolding heap_tree_def by auto
    ultimately show ?thesis by simp
  next
    case False
    define p where "p = Suc n div 2"
    have p: "1 \<le> p" "p \<le> n" "p \<le> Suc n" using False by (auto simp: p_def)
    have pz: "A p \<noteq> 0" "mapped m (A p)" using d(3,4) [of p] p by auto
    define m' where "m' = (if odd (Suc n) then m\<lparr>word1 := (word1 m)(A p := 0)\<rparr> else m\<lparr>word0 := (word0 m)(A p := 0)\<rparr>)"
    have wr: "slot_write (pos_slot A (Suc n)) 0 (h\<lparr>nelts := n\<rparr>, m) = Ret (h\<lparr>nelts := n\<rparr>, m')"
      using pz False by (auto simp: pos_slot_def m'_def p_def [symmetric])
    have words: "word0 m' = (if odd (Suc n) then word0 m else (word0 m)(A p := 0))"
      "word1 m' = (if odd (Suc n) then (word1 m)(A p := 0) else word1 m)" "word2 m' = word2 m" "mapped m' = mapped m"
      by (simp_all add: m'_def)
    have "mapped m' (?B k) \<and> word0 m' (?B k) = ?B (2 * k) \<and> word1 m' (?B k) = ?B (2 * k + 1) \<and> word2 m' (?B k) = ?B (k div 2)"
      if k: "1 \<le> k" "k \<le> n" for k
    proof -
      have kn: "k \<le> Suc n" using k by simp
      have e: "A k = A p \<longleftrightarrow> k = p" using inj [of k p] k kn p by linarith
      have "2 * k = Suc n \<longleftrightarrow> k = p \<and> even (Suc n)" "2 * k + 1 = Suc n \<longleftrightarrow> k = p \<and> odd (Suc n)"
        unfolding p_def by presburger+
      moreover have "k \<noteq> Suc n" "k div 2 \<noteq> Suc n" using k by auto
      ultimately show ?thesis using d(4-7) [OF k(1) kn] by (cases "k = p"; cases "odd (Suc n)") (simp_all add: words e)
    qed
    then have "heap_tree ?B n (h\<lparr>nelts := n\<rparr>, m')" using ij zero d(1) False by (auto simp: heap_tree_def)
    moreover have "same_outside (A ` {1..Suc n}) m m'" using p by (auto simp: same_outside_def words)
    ultimately show ?thesis using wr by auto
  qed
qed

text \<open>The memory after the node at the position \<open>i\<close> was replaced by \<open>c\<close>.\<close>

definition replaced :: "(nat \<Rightarrow> nat) \<Rightarrow> nat \<Rightarrow> nat \<Rightarrow> heap \<times> uv_mem \<Rightarrow> heap \<times> uv_mem" where
  "replaced A i c hm = (case hm of (h, m) \<Rightarrow>
     let g = A (i div 2); w0 = (word0 m)(c := A (2 * i)); w1 = (word1 m)(c := A (2 * i + 1));
         w2 = put_if (A (2 * i + 1)) c (put_if (A (2 * i)) c ((word2 m)(c := g))) in
     (if g = 0 then h\<lparr>h_min := c\<rparr> else h,
      m\<lparr>word0 := (if g \<noteq> 0 \<and> even i then w0(g := c) else w0),
        word1 := (if g \<noteq> 0 \<and> odd i then w1(g := c) else w1), word2 := w2\<rparr>))"

lemma replace_node_Ret:
  assumes t: "heap_tree A n hm" and i: "1 \<le> i" "i \<le> n" and c: "c \<notin> A ` {1..n}" "c \<noteq> 0" "mapped (snd hm) c"
  shows "replace_node (A i) c hm = Ret (replaced A i c hm)"
proof -
  obtain h m where hm: "hm = (h, m)" by force
  note d = heap_treeD [OF t, unfolded hm fst_conv snd_conv]
  note inj = heap_tree_inj [OF t]
  have fresh: "A k = 0 \<or> A k \<noteq> c" for k using d(3) [of k] c(1) by force
  have nz: "A i \<noteq> 0" "mapped m (A i)" "A i \<noteq> c" using d(3) [of i] d(4) [OF i] fresh [of i] i by auto
  have kids: "A k = 0 \<or> mapped m (A k)" for k using d(3,4) [of k] by auto
  note k = kids [of "2 * i"] kids [of "2 * i + 1"] kids [of "i div 2"] fresh [of "2 * i"] fresh [of "2 * i + 1"] fresh [of "i div 2"]
  have w: "word0 m (A i) = A (2 * i)" "word1 m (A i) = A (2 * i + 1)" "word2 m (A i) = A (i div 2)" using d(5-7) i by auto
  have i2: "A (2 * i) = 0 \<or> A i \<noteq> A (2 * i)" "A (2 * i + 1) = 0 \<or> A i \<noteq> A (2 * i + 1)"
    using inj [of i "2 * i"] inj [of i "2 * i + 1"] d(3) [of "2 * i"] d(3) [of "2 * i + 1"] i by auto
  have gw: "A (i div 2) \<noteq> 0 \<Longrightarrow> word0 m (A (i div 2)) = A i \<longleftrightarrow> even i"
  proof -
    assume nz: "A (i div 2) \<noteq> 0"
    then have r: "1 \<le> i div 2" "i div 2 \<le> n" using d(3) [of "i div 2"] by auto
    then have "word0 m (A (i div 2)) = A (2 * (i div 2))" using d(5) by blast
    moreover have "2 * (i div 2) = i \<longleftrightarrow> even i" by presburger
    moreover have "A (2 * (i div 2)) = A i \<longleftrightarrow> 2 * (i div 2) = i" using inj [of "2 * (i div 2)" i] i by auto
    ultimately show "word0 m (A (i div 2)) = A i \<longleftrightarrow> even i" by simp
  qed
  show ?thesis using nz w k c(2) c(3) gw i2 unfolding hm
    by (cases "A (i div 2) = 0"; cases "even i")
       (simp_all add: replace_node_def redirect_def replaced_def Let_def put_if_other word_order
          del: obind_eq_Ret cong: obind_front)
qed

lemma heap_tree_replaced:
  assumes t: "heap_tree A n hm" and i: "1 \<le> i" "i \<le> n" and c: "c \<notin> A ` {1..n}" "c \<noteq> 0" "mapped (snd hm) c"
  shows "heap_tree (A(i := c)) n (replaced A i c hm)"
proof -
  obtain h m where hm: "hm = (h, m)" by force
  note d = heap_treeD [OF t, unfolded hm fst_conv snd_conv]
  note inj = heap_tree_inj [OF t]
  have fresh: "A k = 0 \<or> c \<noteq> A k" for k using d(3) [of k] c(1) by force
  have zero: "(A(i := c)) k = 0 \<longleftrightarrow> k = 0 \<or> n < k" for k using d(3) [of k] i c(2) by auto
  have ij: "inj_on (A(i := c)) {1..n}"
  proof (rule inj_onI)
    fix a b assume ab: "a \<in> {1..n}" "b \<in> {1..n}" "(A(i := c)) a = (A(i := c)) b"
    then have "A a \<noteq> c" "A b \<noteq> c" using c(1) by auto
    then show "a = b" using ab inj [of a b] by (auto split: if_splits)
  qed
  have top: "h_min (fst (replaced A i c hm)) = (A(i := c)) 1" "nelts (fst (replaced A i c hm)) = n"
    using i d(1,2) d(3) [of "i div 2"] by (auto simp: hm replaced_def Let_def)
  have "mapped (snd (replaced A i c hm)) ((A(i := c)) k) \<and> word0 (snd (replaced A i c hm)) ((A(i := c)) k) = (A(i := c)) (2 * k)
    \<and> word1 (snd (replaced A i c hm)) ((A(i := c)) k) = (A(i := c)) (2 * k + 1)
    \<and> word2 (snd (replaced A i c hm)) ((A(i := c)) k) = (A(i := c)) (k div 2)" if k: "1 \<le> k" "k \<le> n" for k
  proof (cases "k = i")
    case True
    have ne: "2 * i \<noteq> i" "2 * i + 1 \<noteq> i" "i div 2 \<noteq> i" using i by auto
    show ?thesis using True fresh [of "2 * i"] fresh [of "2 * i + 1"] fresh [of "i div 2"] c(2) c(3) ne i
      by (cases "A (i div 2) = 0") (simp_all add: hm replaced_def Let_def put_if_other)
  next
    case False
    have kc: "A k \<noteq> c" "A k \<noteq> 0" using c(1) k d(3) [of k] by auto
    have g: "A k = A (i div 2) \<longleftrightarrow> k = i div 2" "A k = A (2 * i) \<longleftrightarrow> k = 2 * i" "A k = A (2 * i + 1) \<longleftrightarrow> k = 2 * i + 1"
      using inj [of k "i div 2"] inj [of k "2 * i"] inj [of k "2 * i + 1"] k by auto
    have p: "2 * k = i \<longleftrightarrow> k = i div 2 \<and> even i" "2 * k + 1 = i \<longleftrightarrow> k = i div 2 \<and> odd i"
      "k div 2 = i \<longleftrightarrow> k = 2 * i \<or> k = 2 * i + 1" by presburger+
    have w0: "word0 (snd (replaced A i c hm)) (A k) = (A(i := c)) (2 * k)"
      using False kc g(1) p(1) d(5) [OF k] by (cases "k = i div 2"; cases "even i") (simp_all add: hm replaced_def Let_def)
    have w1: "word1 (snd (replaced A i c hm)) (A k) = (A(i := c)) (2 * k + 1)"
      using False kc g(1) p(2) d(6) [OF k] by (cases "k = i div 2"; cases "even i") (simp_all add: hm replaced_def Let_def)
    have w2: "word2 (snd (replaced A i c hm)) (A k) = (A(i := c)) (k div 2)"
      using False kc g(2,3) p(3) d(7) [OF k] by (cases "k = 2 * i"; cases "k = 2 * i + 1") (simp_all add: hm replaced_def Let_def put_if_apply)
    have "mapped (snd (replaced A i c hm)) (A k)" using d(4) [OF k] by (simp add: hm replaced_def Let_def)
    then show ?thesis using False w0 w1 w2 by simp
  qed
  with top zero ij show ?thesis unfolding heap_tree_def by simp
qed

lemma replaced_frame:
  assumes t: "heap_tree A n hm" and i: "1 \<le> i" "i \<le> n"
  shows "same_outside (insert c (A ` {1..n})) (snd hm) (snd (replaced A i c hm))"
proof -
  obtain h m where hm: "hm = (h, m)" by force
  have "word0 (snd (replaced A i c hm)) a = word0 m a \<and> word1 (snd (replaced A i c hm)) a = word1 m a
    \<and> word2 (snd (replaced A i c hm)) a = word2 m a" if a: "a \<notin> insert c (A ` {1..n})" for a
  proof -
    have k: "A k = 0 \<or> a \<noteq> A k" for k using heap_treeD(3) [OF t, of k] a by force
    have "a \<noteq> c" using a by simp
    then show ?thesis using k [of "2 * i"] k [of "2 * i + 1"] k [of "i div 2"]
      by (cases "A (i div 2) = 0") (simp_all add: hm replaced_def Let_def put_if_other)
  qed
  then show ?thesis unfolding same_outside_def by (simp add: hm) (simp add: replaced_def Let_def)
qed

section \<open>Insertion and removal on positions\<close>

lemma heap_tree_cong:
  "same_outside S (snd hm) m' \<Longrightarrow> S \<inter> A ` {1..n} = {} \<Longrightarrow> heap_tree A n (fst hm, m') = heap_tree A n hm"
proof -
  assume o: "same_outside S (snd hm) m'" and S: "S \<inter> A ` {1..n} = {}"
  have "mapped m' (A k) = mapped (snd hm) (A k) \<and> word0 m' (A k) = word0 (snd hm) (A k)
    \<and> word1 m' (A k) = word1 (snd hm) (A k) \<and> word2 m' (A k) = word2 (snd hm) (A k)" if "k \<in> {1..n}" for k
    using that o S unfolding same_outside_def by fastforce
  then show ?thesis unfolding heap_tree_def by simp
qed

lemma heap_insert_refines:
  assumes t: "heap_tree A n hm" and new: "new \<notin> A ` {1..n}" "new \<noteq> 0" "mapped (snd hm) new" and n: "Suc n < 2 ^ 32"
  shows "\<exists>hm'. heap_insert new lt hm = Some (Ret hm') \<and> heap_tree (up lt (Suc n) (A(Suc n := new))) (Suc n) hm'
    \<and> up lt (Suc n) (A(Suc n := new)) ` {1..Suc n} = insert new (A ` {1..n})
    \<and> same_outside (insert new (A ` {1..n})) (snd hm) (snd hm')"
proof -
  obtain h m where hm: "hm = (h, m)" by force
  let ?S = "insert new (A ` {1..n})"
  let ?m1 = "m\<lparr>word0 := (word0 m)(new := 0), word1 := (word1 m)(new := 0), word2 := (word2 m)(new := 0)\<rparr>"
  have t1: "heap_tree A n (h, ?m1)" using heap_tree_cong [of "{new}" hm ?m1 A n] t new(1) by (simp add: hm same_outside_def)
  obtain path k where p: "heap_path (Suc n) 0 0 = (path, k)" by force
  have nel: "nelts h = n" using t by (simp add: heap_tree_def hm)
  have half: "Suc n div 2 \<le> n \<or> Suc n = 1" by auto
  then have tr: "traverse k path Slot_min Slot_min (h, ?m1)
      = Ret (if Suc n = 1 then Slot_min else pos_slot A (Suc n div 2), pos_slot A (Suc n))"
    using heap_path_traverse [OF t1 _ n _ p] by auto
  have rd: "slot_read (if Suc n = 1 then Slot_min else pos_slot A (Suc n div 2)) (h, ?m1) = Ret (A (Suc n div 2))"
  proof (cases "n = 0")
    case True
    then show ?thesis using heap_treeD(1) [OF t1] heap_treeD(3) [OF t1, of 1] heap_treeD(3) [OF t1, of 0] by simp
  next
    case False
    have "1 \<le> Suc n div 2" "Suc n div 2 div 2 \<le> n" using False by auto
    then show ?thesis using slot_read_at [OF t1] False by simp
  qed
  let ?m2 = "?m1\<lparr>word2 := (word2 m)(new := A (Suc n div 2))\<rparr>"
  have t2: "heap_tree A n (h, ?m2)" using heap_tree_cong [of "{new}" hm ?m2 A n] t new(1) by (simp add: hm same_outside_def)
  obtain h3 m3 where h3: "slot_write (pos_slot A (Suc n)) new (h, ?m2) = Ret (h3, m3)" "nelts h3 = n"
    "heap_tree (A(Suc n := new)) (Suc n) (h3\<lparr>nelts := Suc n\<rparr>, m3)" "same_outside ?S ?m2 m3"
    using append_node [OF t2 new(1,2)] new(3) by (auto simp: hm)
  have im: "(A(Suc n := new)) ` {1..Suc n} = ?S" by (auto simp: atLeastAtMostSuc_conv)
  obtain hm' where u: "walk_up lt new (h3\<lparr>nelts := Suc n\<rparr>, m3) = Some (Ret hm')"
    "heap_tree (up lt (Suc n) (A(Suc n := new))) (Suc n) hm'"
    "up lt (Suc n) (A(Suc n := new)) ` {1..Suc n} = ?S" "same_outside ?S m3 (snd hm')"
    using walk_up_refines [OF h3(3), of "Suc n" lt] unfolding im by auto
  have "same_outside ?S m ?m2" by (simp add: same_outside_def)
  then have fr: "same_outside ?S m (snd hm')" using h3(4) u(4) same_outside_trans by blast
  have "heap_insert new lt hm = walk_up lt new (h3\<lparr>nelts := Suc n\<rparr>, m3)"
    using new p tr rd h3(1,2) nel n by (simp add: heap_insert_def hm rbind_def del: obind_eq_Ret cong: obind_front)
  then show ?thesis using u fr by (auto simp: hm)
qed

text \<open>The nodes after the removal of position \<open>i\<close> from \<open>Suc n\<close> positions.\<close>

definition take_out :: "(nat \<Rightarrow> nat \<Rightarrow> bool) \<Rightarrow> nat \<Rightarrow> nat \<Rightarrow> (nat \<Rightarrow> nat) \<Rightarrow> nat \<Rightarrow> nat" where
  "take_out lt n i A = (if i = Suc n then A(Suc n := 0)
     else case down lt n i (A(Suc n := 0, i := A (Suc n))) of (j, B) \<Rightarrow> up lt j B)"

lemma heap_remove_refines:
  assumes t: "heap_tree A (Suc n) hm" and i: "1 \<le> i" "i \<le> Suc n" and n: "Suc n < 2 ^ 32"
  shows "\<exists>hm'. heap_remove (A i) lt hm = Some (Ret hm') \<and> heap_tree (take_out lt n i A) n hm'
    \<and> take_out lt n i A ` {1..n} = A ` {1..Suc n} - {A i}
    \<and> same_outside (A ` {1..Suc n}) (snd hm) (snd hm')"
proof -
  obtain h m where hm: "hm = (h, m)" by force
  let ?S = "A ` {1..Suc n}"
  note d = heap_treeD [OF t, unfolded hm fst_conv snd_conv]
  note inj = heap_tree_inj [OF t]
  obtain path k where p: "heap_path (Suc n) 0 0 = (path, k)" by force
  have tr: "traverse k path Slot_min Slot_min hm = Ret (if Suc n = 1 then Slot_min else pos_slot A (Suc n div 2), pos_slot A (Suc n))"
    using heap_path_traverse [OF t _ n _ p] by simp
  have rd: "slot_read (pos_slot A (Suc n)) (h\<lparr>nelts := n\<rparr>, m) = Ret (A (Suc n))"
    using slot_read_at [OF t, of "Suc n"] by (auto simp: hm pos_slot_def)
  obtain h2 m2 where u: "slot_write (pos_slot A (Suc n)) 0 (h\<lparr>nelts := n\<rparr>, m) = Ret (h2, m2)"
    "heap_tree (A(Suc n := 0)) n (h2, m2)" "same_outside ?S m m2"
    using unlink_last [of A n h m] t by (force simp: hm)
  have im: "(A(Suc n := 0)) ` {1..n} = ?S - {A (Suc n)}"
  proof -
    have "(A(Suc n := 0)) ` {1..n} = A ` {1..n}" by auto
    moreover have "A (Suc n) \<notin> A ` {1..n}" by (auto simp: inj)
    ultimately show ?thesis by (auto simp: atLeastAtMostSuc_conv)
  qed
  have start: "heap_remove (A i) lt hm = (if A (Suc n) = A i
      then Some (Ret (if A (Suc n) = h_min h2 then (h2\<lparr>h_min := 0\<rparr>, m2) else (h2, m2)))
      else rbind (Some (replace_node (A i) (A (Suc n)) (h2, m2))) (\<lambda>hm3. rbind (walk_down lt (A (Suc n)) hm3) (walk_up lt (A (Suc n)))))"
    using p tr rd u(1) d(2) by (simp add: heap_remove_def hm rbind_def Let_def)
  have same: "A (Suc n) = A i \<longleftrightarrow> i = Suc n" using inj [of "Suc n" i] i by auto
  show ?thesis
  proof (cases "i = Suc n")
    case True
    have "h_min h2 \<noteq> A (Suc n)"
      using heap_treeD(1) [OF u(2)] inj [of 1 "Suc n"] d(3) [of "Suc n"] by auto
    then have "heap_remove (A i) lt hm = Some (Ret (h2, m2))" using start True by simp
    then show ?thesis using u im True by (simp add: take_out_def hm)
  next
    case False
    let ?B = "A(Suc n := 0)" and ?c = "A (Suc n)"
    have ir: "i \<le> n" using i False by simp
    have Bi: "?B i = A i" using False by simp
    have c: "?c \<notin> ?B ` {1..n}" "?c \<noteq> 0" using im d(3) [of "Suc n"] by auto
    have cm: "mapped (snd (h2, m2)) ?c" using u(3) d(4) [of "Suc n"] by (simp add: same_outside_def)
    let ?C = "?B(i := ?c)"
    note rep = replace_node_Ret [OF u(2) i(1) ir c cm, unfolded Bi]
    note tC = heap_tree_replaced [OF u(2) i(1) ir c cm]
    have imC: "?C ` {1..n} = ?S - {A i}"
    proof -
      have "?C ` {1..n} = insert ?c (?B ` ({1..n} - {i}))" using i ir by (auto simp: image_iff)
      also have "?B ` ({1..n} - {i}) = A ` ({1..n} - {i})" by auto
      also have "\<dots> = A ` {1..n} - {A i}" using i ir by (auto simp: inj)
      finally show ?thesis using same False by (auto simp: atLeastAtMostSuc_conv)
    qed
    obtain j B where jB: "down lt n i ?C = (j, B)" by force
    obtain hm4 where w: "walk_down lt ?c (replaced ?B i ?c (h2, m2)) = Some (Ret hm4)" "heap_tree B n hm4" "B j = ?c"
      "j \<in> {1..n}" "B ` {1..n} = ?C ` {1..n}"
      "same_outside (?C ` {1..n}) (snd (replaced ?B i ?c (h2, m2))) (snd hm4)"
      using walk_down_refines [OF tC i(1) ir, of lt] jB by auto
    obtain hm' where v: "walk_up lt ?c hm4 = Some (Ret hm')" "heap_tree (up lt j B) n hm'"
      "up lt j B ` {1..n} = B ` {1..n}" "same_outside (B ` {1..n}) (snd hm4) (snd hm')"
      using walk_up_refines [OF w(2), of j lt] w(3,4) by auto
    have "heap_remove (A i) lt hm = Some (Ret hm')"
      using start same False rep w(1) v(1) by (simp add: rbind_def)
    moreover have "take_out lt n i A = up lt j B" using False jB by (simp add: take_out_def)
    moreover have "same_outside ?S m (snd hm')"
    proof -
      have "insert ?c (?B ` {1..n}) = ?S" using im by auto
      then have "same_outside ?S m2 (snd (replaced ?B i ?c (h2, m2)))"
        using replaced_frame [OF u(2) i(1) ir, of ?c] by simp
      moreover have "same_outside ?S (snd (replaced ?B i ?c (h2, m2))) (snd hm4)"
        using w(6) imC by (auto intro: same_outside_mono)
      moreover have "same_outside ?S (snd hm4) (snd hm')"
        using v(4) w(5) imC by (auto intro: same_outside_mono)
      ultimately show ?thesis using u(3) same_outside_trans by blast
    qed
    ultimately show ?thesis using v(2,3) w(5) imC by (simp add: hm)
  qed
qed

section \<open>The order of the heap\<close>

text \<open>No node is smaller than its parent. A heap with the nodes \<open>S\<close>.\<close>

definition heap_ordered :: "(nat \<Rightarrow> nat \<Rightarrow> bool) \<Rightarrow> (nat \<Rightarrow> nat) \<Rightarrow> nat \<Rightarrow> bool" where
  "heap_ordered lt A n \<longleftrightarrow> (\<forall>k \<in> {2..n}. \<not> lt (A k) (A (k div 2)))"

definition heap_on :: "(nat \<Rightarrow> nat \<Rightarrow> bool) \<Rightarrow> nat set \<Rightarrow> heap \<times> uv_mem \<Rightarrow> bool" where
  "heap_on lt S hm \<longleftrightarrow> (\<exists>A n. heap_tree A n hm \<and> heap_ordered lt A n \<and> A ` {1..n} = S)"

text \<open>A heap is what its own nodes say, and how they compare.\<close>

lemma heap_on_cong:
  assumes h: "heap_on lt S hm" and f: "fst hm' = fst hm"
    and w: "\<And>a. a \<in> S \<Longrightarrow> word0 (snd hm') a = word0 (snd hm) a \<and> word1 (snd hm') a = word1 (snd hm) a
      \<and> word2 (snd hm') a = word2 (snd hm) a \<and> mapped (snd hm') a = mapped (snd hm) a"
    and l: "\<And>a b. a \<in> S \<Longrightarrow> b \<in> S \<Longrightarrow> lt' a b = lt a b"
  shows "heap_on lt' S hm'"
proof -
  obtain A n where A: "heap_tree A n hm" "heap_ordered lt A n" "A ` {1..n} = S" using h by (auto simp: heap_on_def)
  have "A k \<in> S" if "1 \<le> k" "k \<le> n" for k using A(3) that by auto
  then have "heap_tree A n hm'" "heap_ordered lt' A n"
    using A(1,2) w l f by (auto simp: heap_tree_def heap_ordered_def)
  then show ?thesis using A(3) by (auto simp: heap_on_def)
qed

lemma heap_on_finite:
  assumes "heap_on lt S hm"
  shows "finite S" "card S = nelts (fst hm)" "0 \<notin> S" "a \<in> S \<Longrightarrow> mapped (snd hm) a"
proof -
  obtain A n where A: "heap_tree A n hm" "A ` {1..n} = S" using assms by (auto simp: heap_on_def)
  then show "finite S" "0 \<notin> S" "a \<in> S \<Longrightarrow> mapped (snd hm) a" by (auto simp: heap_tree_def)
  have "inj_on A {1..n}" "nelts (fst hm) = n" using A(1) by (auto simp: heap_tree_def)
  then show "card S = nelts (fst hm)" using A(2) card_image [of A "{1..n}"] by simp
qed

lemma heap_on_empty: "heap_on lt {} (heap_init, m)"
  unfolding heap_on_def by (intro exI [of _ "\<lambda>_. 0"] exI [of _ 0]) (auto simp: heap_tree_def heap_init_def heap_ordered_def)

text \<open>What a heap asks of its comparison function: a strict weak order.\<close>

locale heap_compare =
  fixes lt :: "nat \<Rightarrow> nat \<Rightarrow> bool"
  assumes lt_asym: "lt a b \<Longrightarrow> \<not> lt b a"
    and not_lt_trans: "\<not> lt a b \<Longrightarrow> \<not> lt b c \<Longrightarrow> \<not> lt a c"
begin

lemma lt_trans: "lt a b \<Longrightarrow> lt b c \<Longrightarrow> lt a c"
  using lt_asym not_lt_trans by blast

text \<open>The order, except at a position whose children are still in order with its parent.\<close>

abbreviation ordered :: "(nat \<Rightarrow> nat) \<Rightarrow> nat \<Rightarrow> bool" where
  "ordered A n \<equiv> heap_ordered lt A n"

definition bridged :: "nat \<Rightarrow> (nat \<Rightarrow> nat) \<Rightarrow> nat \<Rightarrow> bool" where
  "bridged i A n \<longleftrightarrow> (\<forall>k \<in> {2..n}. k div 2 = i \<longrightarrow> 2 \<le> i \<longrightarrow> \<not> lt (A k) (A (i div 2)))"

definition ordered_above :: "nat \<Rightarrow> (nat \<Rightarrow> nat) \<Rightarrow> nat \<Rightarrow> bool" where
  "ordered_above i A n \<longleftrightarrow> (\<forall>k \<in> {2..n}. k \<noteq> i \<longrightarrow> \<not> lt (A k) (A (k div 2))) \<and> bridged i A n"

definition ordered_around :: "nat \<Rightarrow> (nat \<Rightarrow> nat) \<Rightarrow> nat \<Rightarrow> bool" where
  "ordered_around i A n \<longleftrightarrow> (\<forall>k \<in> {2..n}. k \<noteq> i \<longrightarrow> k div 2 \<noteq> i \<longrightarrow> \<not> lt (A k) (A (k div 2))) \<and> bridged i A n"

lemma up_step:
  assumes o: "ordered_above i A n" and i: "2 \<le> i" "i \<le> n" and l: "lt (A i) (A (i div 2))"
  shows "ordered_above (i div 2) (swap_pos (i div 2) i A) n"
proof -
  let ?p = "i div 2" and ?B = "swap_pos (i div 2) i A"
  have pi: "?p \<noteq> i" "1 \<le> ?p" using i by auto
  have ok: "k \<in> {2..n} \<Longrightarrow> k \<noteq> i \<Longrightarrow> \<not> lt (A k) (A (k div 2))" for k using o by (auto simp: ordered_above_def)
  have br: "k \<in> {2..n} \<Longrightarrow> k div 2 = i \<Longrightarrow> \<not> lt (A k) (A ?p)" for k using o i by (auto simp: ordered_above_def bridged_def)
  have B: "?B k = (if k = i then A ?p else if k = ?p then A i else A k)" for k by (simp add: swap_pos_def)
  have "\<not> lt (?B k) (?B (k div 2))" if k: "k \<in> {2..n}" "k \<noteq> ?p" for k
  proof -
    consider "k = i" | "k \<noteq> i" "k div 2 = ?p" | "k \<noteq> i" "k div 2 = i" | "k \<noteq> i" "k div 2 \<noteq> ?p" "k div 2 \<noteq> i" by blast
    then show ?thesis
    proof cases
      case 1
      then show ?thesis using lt_asym [OF l] pi by (simp add: B)
    next
      case 2
      have "\<not> lt (A k) (A i)" using ok [OF k(1) 2(1)] lt_trans [OF _ l] 2(2) by auto
      then show ?thesis using 2 k pi by (simp add: B)
    next
      case 3
      then show ?thesis using br k pi by (simp add: B)
    next
      case 4
      then show ?thesis using ok k pi by (simp add: B)
    qed
  qed
  moreover have "\<not> lt (?B k) (?B (?p div 2))" if k: "k \<in> {2..n}" "k div 2 = ?p" "2 \<le> ?p" for k
  proof -
    have p: "\<not> lt (A ?p) (A (?p div 2))" using ok [of ?p] k(3) i pi by auto
    have "?p div 2 \<noteq> ?p" "?p div 2 \<noteq> i" "k \<noteq> ?p" using k(2,3) i(1) by presburger+
    then show ?thesis using p not_lt_trans [of "A k" "A ?p"] ok [OF k(1)] k(2) by (auto simp: B)
  qed
  ultimately show ?thesis by (auto simp: ordered_above_def bridged_def)
qed

lemma ordered_up:
  assumes "ordered_above i A n" and "1 \<le> i" and "i \<le> n"
  shows "ordered (up lt i A) n"
  using assms
proof (induction i arbitrary: A rule: less_induct)
  case (less i)
  show ?case
  proof (cases "1 < i \<and> lt (A i) (A (i div 2))")
    case True
    then have "ordered_above (i div 2) (swap_pos (i div 2) i A) n" using up_step less.prems by simp
    then have "ordered (up lt (i div 2) (swap_pos (i div 2) i A)) n" using True less.prems by (intro less.IH) auto
    then show ?thesis using True by (simp add: up.simps [of lt i A])
  next
    case False
    then have "ordered A n" using less.prems by (auto simp: ordered_above_def heap_ordered_def)
    then show ?thesis using False by (auto simp: up.simps [of lt i A])
  qed
qed

text \<open>The child that the walk down takes is not greater than the node and its other child.\<close>

lemma least_child_least:
  assumes "k div 2 = i" and "k \<in> {2..n}"
  shows "\<not> lt (A k) (A (least_child lt n i A))" "\<not> lt (A i) (A (least_child lt n i A))"
proof -
  have irr: "\<not> lt a a" for a using lt_asym by blast
  have k: "k = 2 * i \<or> k = 2 * i + 1" using assms(1) by presburger
  let ?l = "A (2 * i)" and ?r = "A (2 * i + 1)"
  note facts = irr [of ?l] irr [of ?r] irr [of "A i"] lt_asym [of ?l "A i"] lt_asym [of ?r "A i"] lt_asym [of ?r ?l]
    lt_trans [of ?r ?l "A i"] lt_trans [of ?l ?r "A i"]
  show "\<not> lt (A k) (A (least_child lt n i A))" "\<not> lt (A i) (A (least_child lt n i A))"
    using k assms(2) facts unfolding least_child_def Let_def by (auto split: if_splits)
qed

lemma down_step:
  assumes o: "ordered_around i A n" and i: "1 \<le> i" and c: "c = least_child lt n i A" "c \<noteq> i"
  shows "ordered_around c (swap_pos i c A) n"
proof -
  let ?B = "swap_pos i c A"
  have ci: "c div 2 = i" "c \<in> {2..n}" "i < c" using least_child_cases [of lt n i A] c i by auto
  have ok: "k \<in> {2..n} \<Longrightarrow> k \<noteq> i \<Longrightarrow> k div 2 \<noteq> i \<Longrightarrow> \<not> lt (A k) (A (k div 2))" for k
    using o by (auto simp: ordered_around_def)
  have br: "2 \<le> i \<Longrightarrow> \<not> lt (A c) (A (i div 2))" using o ci by (auto simp: ordered_around_def bridged_def)
  have B: "?B k = (if k = i then A c else if k = c then A i else A k)" for k by (simp add: swap_pos_def)
  have "\<not> lt (?B k) (?B (k div 2))" if k: "k \<in> {2..n}" "k \<noteq> c" "k div 2 \<noteq> c" for k
  proof -
    consider "k = i" | "k \<noteq> i" "k div 2 = i" | "k \<noteq> i" "k div 2 \<noteq> i" by blast
    then show ?thesis
    proof cases
      case 1
      then have "k div 2 \<noteq> i" using k by auto
      then show ?thesis using br 1 k by (simp add: B)
    next
      case 2
      then have "\<not> lt (A k) (A c)" using least_child_least(1) [OF 2(2) k(1), of A] c(1) by simp
      then show ?thesis using 2 k(2) by (simp add: B)
    next
      case 3
      then show ?thesis using ok k by (simp add: B)
    qed
  qed
  moreover have "\<not> lt (?B k) (?B (c div 2))" if k: "k \<in> {2..n}" "k div 2 = c" for k
  proof -
    have "k \<noteq> i" "k \<noteq> c" "k div 2 \<noteq> i" using k ci by auto
    then show ?thesis using ok [OF k(1)] k(2) ci by (simp add: B)
  qed
  ultimately show ?thesis by (auto simp: ordered_around_def bridged_def)
qed

lemma ordered_down:
  assumes "ordered_around i A n" and "1 \<le> i" and "i \<le> n"
  shows "ordered_above (fst (down lt n i A)) (snd (down lt n i A)) n \<and> fst (down lt n i A) \<in> {1..n}"
  using assms
proof (induction "n - i" arbitrary: i A rule: less_induct)
  case less
  let ?c = "least_child lt n i A"
  show ?case
  proof (cases "?c = i")
    case True
    have "\<not> lt (A k) (A (k div 2))" if k: "k \<in> {2..n}" "k \<noteq> i" for k
    proof (cases "k div 2 = i")
      case kd: True
      then show ?thesis using least_child_least(1) [OF kd k(1), of A] True by simp
    next
      case False
      then show ?thesis using less.prems k by (auto simp: ordered_around_def)
    qed
    then have "ordered_above i A n" using less.prems by (auto simp: ordered_above_def ordered_around_def)
    then show ?thesis using True less.prems by (simp add: down.simps [of lt n i A])
  next
    case False
    have c: "i < ?c" "?c \<le> n" using least_child_cases [of lt n i A] False less.prems(2) by auto
    have "ordered_around ?c (swap_pos i ?c A) n" using down_step [OF less.prems(1,2) refl False] .
    then show ?thesis using less.hyps [of ?c "swap_pos i ?c A"] c False less.prems
      by (simp add: down.simps [of lt n i A])
  qed
qed

lemma ordered_insert: "ordered A n \<Longrightarrow> ordered (up lt (Suc n) (A(Suc n := x))) (Suc n)"
  by (rule ordered_up) (auto simp: ordered_above_def bridged_def heap_ordered_def)

lemma ordered_take_out:
  assumes o: "ordered A (Suc n)" and i: "1 \<le> i" "i \<le> Suc n"
  shows "ordered (take_out lt n i A) n"
proof (cases "i = Suc n")
  case True
  then show ?thesis using o by (auto simp: take_out_def heap_ordered_def)
next
  case False
  let ?C = "A(Suc n := 0, i := A (Suc n))"
  have ok: "k \<in> {2..n} \<Longrightarrow> \<not> lt (A k) (A (k div 2))" for k using o by (auto simp: heap_ordered_def)
  have "\<not> lt (?C k) (?C (k div 2))" if k: "k \<in> {2..n}" "k \<noteq> i" "k div 2 \<noteq> i" for k
    using ok [OF k(1)] k by auto
  moreover have "\<not> lt (?C k) (?C (i div 2))" if k: "k \<in> {2..n}" "k div 2 = i" "2 \<le> i" for k
  proof -
    have "\<not> lt (A k) (A i)" "\<not> lt (A i) (A (i div 2))" using ok [OF k(1)] ok [of i] k i False by auto
    then have "\<not> lt (A k) (A (i div 2))" by (rule not_lt_trans)
    moreover have "k \<noteq> i" "i div 2 \<noteq> i" "k \<noteq> Suc n" "i div 2 \<noteq> Suc n" using k i by auto
    ultimately show ?thesis by simp
  qed
  ultimately have "ordered_around i ?C n" by (auto simp: ordered_around_def bridged_def simp del: fun_upd_apply)
  then have "ordered_above (fst (down lt n i ?C)) (snd (down lt n i ?C)) n \<and> fst (down lt n i ?C) \<in> {1..n}"
    using False i by (intro ordered_down) auto
  then show ?thesis using False by (auto simp: take_out_def split: prod.split intro: ordered_up)
qed

lemma ordered_root: "ordered A n \<Longrightarrow> k \<in> {1..n} \<Longrightarrow> \<not> lt (A k) (A 1)"
proof (induction k rule: less_induct)
  case (less k)
  show ?case
  proof (cases "k = 1")
    case True
    then show ?thesis using lt_asym by auto
  next
    case False
    then have "\<not> lt (A (k div 2)) (A 1)" using less.prems by (intro less.IH) auto
    moreover have "\<not> lt (A k) (A (k div 2))" using less.prems False by (auto simp: heap_ordered_def)
    ultimately show ?thesis using not_lt_trans by blast
  qed
qed

text \<open>The three operations on the set of nodes.\<close>

lemma insert_ok:
  assumes "heap_on lt S hm" and "new \<notin> S" "new \<noteq> 0" "mapped (snd hm) new" and "Suc (nelts (fst hm)) < 2 ^ 32"
  shows "\<exists>hm'. heap_insert new lt hm = Some (Ret hm') \<and> heap_on lt (insert new S) hm' \<and> same_outside (insert new S) (snd hm) (snd hm')"
proof -
  obtain A n where A: "heap_tree A n hm" "heap_ordered lt A n" "A ` {1..n} = S" using assms(1) by (auto simp: heap_on_def)
  have "nelts (fst hm) = n" using A(1) by (simp add: heap_tree_def)
  then show ?thesis using heap_insert_refines [OF A(1), of new lt] ordered_insert [OF A(2), of new] A(3) assms
    unfolding heap_on_def by blast
qed

lemma remove_ok:
  assumes "heap_on lt S hm" and "x \<in> S" and "nelts (fst hm) < 2 ^ 32"
  shows "\<exists>hm'. heap_remove x lt hm = Some (Ret hm') \<and> heap_on lt (S - {x}) hm' \<and> same_outside S (snd hm) (snd hm')"
proof -
  obtain A n where A: "heap_tree A n hm" "heap_ordered lt A n" "A ` {1..n} = S" using assms(1) by (auto simp: heap_on_def)
  obtain i where i: "1 \<le> i" "i \<le> n" "x = A i" using A(3) assms(2) by auto
  then obtain k where n: "n = Suc k" by (cases n) auto
  have b: "Suc k < 2 ^ 32" using A(1) assms(3) n by (simp add: heap_tree_def)
  obtain hm' where hm': "heap_remove (A i) lt hm = Some (Ret hm')" "heap_tree (take_out lt k i A) k hm'"
    "take_out lt k i A ` {1..k} = A ` {1..n} - {A i}" "same_outside (A ` {1..n}) (snd hm) (snd hm')"
    using heap_remove_refines [OF A(1) [unfolded n] i(1) i(2) [unfolded n] b, of lt] unfolding n by blast
  moreover have "ordered (take_out lt k i A) k" using ordered_take_out A(2) i(1,2) n by simp
  ultimately show ?thesis using A(3) i(3) unfolding heap_on_def by blast
qed

lemma min_ok:
  assumes "heap_on lt S hm"
  shows "S = {} \<Longrightarrow> heap_min (fst hm) = 0"
    "S \<noteq> {} \<Longrightarrow> heap_min (fst hm) \<in> S \<and> (\<forall>x \<in> S. \<not> lt x (heap_min (fst hm)))"
proof -
  obtain A n where A: "heap_tree A n hm" "heap_ordered lt A n" "A ` {1..n} = S" using assms by (auto simp: heap_on_def)
  have m: "heap_min (fst hm) = A 1" using A(1) by (simp add: heap_tree_def heap_min_def)
  show "S = {} \<Longrightarrow> heap_min (fst hm) = 0" using m A(1,3) by (auto simp: heap_tree_def)
  assume "S \<noteq> {}"
  then have "1 \<in> {1..n}" using A(3) by auto
  then show "heap_min (fst hm) \<in> S \<and> (\<forall>x \<in> S. \<not> lt x (heap_min (fst hm)))"
    using m A(3) ordered_root [OF A(2)] by auto
qed

text \<open>What removing the least node over and over gives: all nodes, none before a smaller one.\<close>

lemma dequeue_ok:
  assumes "heap_on lt S hm" and "S \<noteq> {}" and "nelts (fst hm) < 2 ^ 32"
  shows "\<exists>hm'. heap_dequeue lt hm = Some (Ret hm') \<and> heap_on lt (S - {heap_min (fst hm)}) hm'"
  using remove_ok [OF assms(1) _ assms(3), of "heap_min (fst hm)"] min_ok(2) [OF assms(1,2)]
  by (auto simp: heap_dequeue_def heap_min_def)

end

section \<open>Histories of a heap\<close>

text \<open>The states that insertions of new nodes and removals of members lead to, and the nodes that were inserted and
  not removed.\<close>

inductive heap_history :: "(nat \<Rightarrow> nat \<Rightarrow> bool) \<Rightarrow> uv_mem \<Rightarrow> nat set \<Rightarrow> heap \<times> uv_mem \<Rightarrow> nat set \<Rightarrow> bool" for lt m M where
  history_init: "heap_history lt m M (heap_init, m) {}"
| history_insert: "heap_history lt m M hm S \<Longrightarrow> a \<in> M - S \<Longrightarrow> heap_insert a lt hm = Some (Ret hm')
    \<Longrightarrow> heap_history lt m M hm' (insert a S)"
| history_remove: "heap_history lt m M hm S \<Longrightarrow> a \<in> S \<Longrightarrow> heap_remove a lt hm = Some (Ret hm')
    \<Longrightarrow> heap_history lt m M hm' (S - {a})"

context heap_compare
begin

lemma history_size:
  assumes "heap_on lt S hm" and "S \<subseteq> M" and "finite M" "card M < 2 ^ 32 - 1"
  shows "Suc (nelts (fst hm)) < 2 ^ 32" "nelts (fst hm) < 2 ^ 32"
  using heap_on_finite(2) [OF assms(1)] card_mono [OF assms(3,2)] assms(4) by linarith+

lemma history_ok:
  assumes "heap_history lt m M hm S" and M: "finite M" "card M < 2 ^ 32 - 1" "\<forall>a \<in> M. a \<noteq> 0 \<and> mapped m a"
  shows "heap_on lt S hm \<and> S \<subseteq> M \<and> mapped (snd hm) = mapped m"
  using assms(1)
proof (induction rule: heap_history.induct)
  case history_init
  then show ?case using heap_on_empty by simp
next
  case (history_insert hm S a hm')
  then have h: "heap_on lt S hm" "S \<subseteq> M" "mapped (snd hm) = mapped m" by auto
  have "a \<notin> S" "a \<noteq> 0" "mapped (snd hm) a" using history_insert.hyps(2) M(3) h(3) by auto
  from insert_ok [OF h(1) this history_size(1) [OF h(1,2) M(1,2)]] show ?case
    using history_insert.hyps h by (auto simp: same_outside_def)
next
  case (history_remove hm S a hm')
  then have h: "heap_on lt S hm" "S \<subseteq> M" "mapped (snd hm) = mapped m" by auto
  from remove_ok [OF h(1) history_remove.hyps(2) history_size(2) [OF h(1,2) M(1,2)]] show ?case
    using history_remove.hyps h by (auto simp: same_outside_def)
qed

lemma history_progress:
  assumes h: "heap_history lt m M hm S" and M: "finite M" "card M < 2 ^ 32 - 1" "\<forall>a \<in> M. a \<noteq> 0 \<and> mapped m a"
  shows "a \<in> M - S \<Longrightarrow> \<exists>hm'. heap_insert a lt hm = Some (Ret hm')" "a \<in> S \<Longrightarrow> \<exists>hm'. heap_remove a lt hm = Some (Ret hm')"
proof -
  have o: "heap_on lt S hm" "S \<subseteq> M" "mapped (snd hm) = mapped m" using history_ok [OF h M] by auto
  show "a \<in> S \<Longrightarrow> \<exists>hm'. heap_remove a lt hm = Some (Ret hm')"
    using remove_ok [OF o(1) _ history_size(2) [OF o(1,2) M(1,2)]] by blast
  assume "a \<in> M - S"
  then have "a \<notin> S" "a \<noteq> 0" "mapped (snd hm) a" using M(3) o(3) by auto
  from insert_ok [OF o(1) this history_size(1) [OF o(1,2) M(1,2)]]
  show "\<exists>hm'. heap_insert a lt hm = Some (Ret hm')" by blast
qed

end

text \<open>C37: After any history of insertions and removals, the heap holds exactly the nodes that were inserted
  and not removed: its size is their number and its root is a least one of them (NULL if there are none). It never gets stuck: the insertion of
  any other node and the removal of any member return, without a NULL dereference or an endless loop. This holds for every
  comparison function that is a strict weak order, and for fewer than \<open>2 ^ 32 - 1\<close> nodes.\<close>

theorem heap_is_priority_queue:
  assumes "\<And>a b. lt a b \<Longrightarrow> \<not> lt b a" and "\<And>a b c. \<not> lt a b \<Longrightarrow> \<not> lt b c \<Longrightarrow> \<not> lt a c"
    and "finite M" and "card M < 2 ^ 32 - 1" and "\<forall>a \<in> M. a \<noteq> 0 \<and> mapped m a"
    and "heap_history lt m M hm S"
  shows "nelts (fst hm) = card S \<and> (heap_min (fst hm) = 0 \<longleftrightarrow> S = {})
    \<and> (S \<noteq> {} \<longrightarrow> heap_min (fst hm) \<in> S \<and> (\<forall>x \<in> S. \<not> lt x (heap_min (fst hm))))
    \<and> (\<forall>a \<in> M - S. \<exists>hm'. heap_insert a lt hm = Some (Ret hm')) \<and> (\<forall>a \<in> S. \<exists>hm'. heap_remove a lt hm = Some (Ret hm'))"
proof (intro conjI)
  have c: "heap_compare lt" using assms(1,2) by unfold_locales
  note h = heap_compare.history_ok [OF c assms(6,3-5)]
  then have o: "heap_on lt S hm" by simp
  show "nelts (fst hm) = card S" using heap_on_finite(2) [OF o] by simp
  show "heap_min (fst hm) = 0 \<longleftrightarrow> S = {}"
    using heap_compare.min_ok [OF c o] heap_on_finite(3) [OF o] by (cases "S = {}") auto
  show "S \<noteq> {} \<longrightarrow> heap_min (fst hm) \<in> S \<and> (\<forall>x \<in> S. \<not> lt x (heap_min (fst hm)))"
    using heap_compare.min_ok(2) [OF c o] by blast
  show "\<forall>a \<in> M - S. \<exists>hm'. heap_insert a lt hm = Some (Ret hm')"
    using heap_compare.history_progress(1) [OF c assms(6,3-5)] by blast
  show "\<forall>a \<in> S. \<exists>hm'. heap_remove a lt hm = Some (Ret hm')"
    using heap_compare.history_progress(2) [OF c assms(6,3-5)] by blast
qed

theorem heap_is_priority_queue_witness:
  "\<exists>hm. heap_history (<) \<lparr>word0 = \<lambda>_. 0, word1 = \<lambda>_. 0, word2 = \<lambda>_. 0, mapped = \<lambda>_. True\<rparr> {2, 3, 4} hm {3, 4} \<and> heap_min (fst hm) = 3"
proof -
  let ?m = "\<lparr>word0 = \<lambda>_. 0, word1 = \<lambda>_. 0, word2 = \<lambda>_. 0, mapped = \<lambda>_. True\<rparr>"
  note pq = heap_is_priority_queue [of "(<)" "{2, 3, 4}" ?m, simplified]
  have ins: "\<exists>hm'. heap_history (<) ?m {2, 3, 4} hm' (insert a S)"
    if h: "heap_history (<) ?m {2, 3, 4} hm S" and a: "a \<in> {2, 3, 4} - S" for hm S a
  proof -
    obtain h' m' where "heap_insert a (<) hm = Some (Ret (h', m'))" using pq [OF h] a by blast
    with history_insert [OF h a] show ?thesis by blast
  qed
  have "heap_history (<) ?m {2, 3, 4} (heap_init, ?m) {}" by (rule history_init)
  from ins [OF this, of 4] obtain hm1 where "heap_history (<) ?m {2, 3, 4} hm1 {4}" by auto
  from ins [OF this, of 2] obtain hm2 where "heap_history (<) ?m {2, 3, 4} hm2 {2, 4}" by auto
  from ins [OF this, of 3] obtain hm3 where h3: "heap_history (<) ?m {2, 3, 4} hm3 {2, 3, 4}" by (auto simp: insert_commute)
  have "\<forall>a \<in> {2, 3, 4}. \<exists>h' m'. heap_remove a (<) hm3 = Some (Ret (h', m'))" using pq [OF h3] by blast
  then obtain h' m' where "heap_remove 2 (<) hm3 = Some (Ret (h', m'))" by auto
  then have h: "heap_history (<) ?m {2, 3, 4} (h', m') {3, 4}" using history_remove [OF h3, of 2] by (simp add: insert_Diff_if)
  then have "heap_min (fst (h', m')) = 3" using pq [OF h] by auto
  with h show ?thesis by blast
qed

end
