(* ===== verification/Uv_Timer.thy ===== *)
theory Uv_Timer
  imports Uv_Heap_Ops "HOL-Library.Word" "HOL-Library.Sublist" "HOL-Library.Product_Lexorder"
begin

text \<open>
  The timers of libuv (src/depend/libuv-1.48.0/src/timer.c), on which the logger's flush timer and the statistics
  timers of the modules run. An active timer is in the heap of its loop, ordered by the time it is due and by
  the order of the starts; its node is at the same time a queue node, which links the timers that are
  about to be called. Times are 64-bit words. A handle is named by the address of its node. Callbacks are a
  parameter: a function on the state of the loop, which may call the functions of this file.
\<close>

section \<open>Handles and the loop\<close>

record uv_timer =
  t_closing :: bool
  t_closed :: bool
  t_active :: bool
  t_ref :: bool
  t_cb :: "nat option"
  t_timeout :: "64 word"
  t_repeat :: "64 word"
  t_start_id :: "64 word"

record uv_loop =
  loop_time :: "64 word"
  timer_counter :: "64 word"
  timer_heap :: heap
  node_mem :: uv_mem
  timers :: "nat \<Rightarrow> uv_timer"
  active_handles :: "32 word"
  handle_queue_mem :: uv_mem
  handle_queue :: nat

definition UV_EINVAL :: int where "UV_EINVAL = -22"

definition set_timer :: "nat \<Rightarrow> (uv_timer \<Rightarrow> uv_timer) \<Rightarrow> 'a uv_loop_scheme \<Rightarrow> 'a uv_loop_scheme" where
  "set_timer a f s = s\<lparr>timers := (timers s)(a := f (timers s a))\<rparr>"

text \<open>The macros of uv-common.h.\<close>

definition uv__is_active :: "nat \<Rightarrow> 'a uv_loop_scheme \<Rightarrow> bool" where
  "uv__is_active a s = t_active (timers s a)"

definition uv__is_closing :: "nat \<Rightarrow> 'a uv_loop_scheme \<Rightarrow> bool" where
  "uv__is_closing a s = (t_closing (timers s a) \<or> t_closed (timers s a))"

definition uv__handle_start :: "nat \<Rightarrow> 'a uv_loop_scheme \<Rightarrow> 'a uv_loop_scheme" where
  "uv__handle_start a s =
     (if t_active (timers s a) then s
      else let s1 = set_timer a (t_active_update (\<lambda>_. True)) s in
           if t_ref (timers s1 a) then s1\<lparr>active_handles := active_handles s1 + 1\<rparr> else s1)"

definition uv__handle_stop :: "nat \<Rightarrow> 'a uv_loop_scheme \<Rightarrow> 'a uv_loop_scheme" where
  "uv__handle_stop a s =
     (if \<not> t_active (timers s a) then s
      else let s1 = set_timer a (t_active_update (\<lambda>_. False)) s in
           if t_ref (timers s1 a) then s1\<lparr>active_handles := active_handles s1 - 1\<rparr> else s1)"

text \<open>A call on a part of the state: the node memory, or the heap in it.\<close>

definition on_nodes :: "(uv_mem \<Rightarrow> uv_mem outcome) \<Rightarrow> 'a uv_loop_scheme \<Rightarrow> 'a uv_loop_scheme outcome" where
  "on_nodes f s = obind (f (node_mem s)) (\<lambda>m. Ret (s\<lparr>node_mem := m\<rparr>))"

definition on_heap ::
  "(heap \<times> uv_mem \<Rightarrow> (heap \<times> uv_mem) outcome option) \<Rightarrow> 'a uv_loop_scheme \<Rightarrow> 'a uv_loop_scheme outcome option" where
  "on_heap f s = rbind (f (timer_heap s, node_mem s)) (\<lambda>(h, m). Some (Ret (s\<lparr>timer_heap := h, node_mem := m\<rparr>)))"

section \<open>The functions of timer.c\<close>

definition timer_less_than :: "'a uv_loop_scheme \<Rightarrow> nat \<Rightarrow> nat \<Rightarrow> bool" where
  "timer_less_than s a b =
     (if t_timeout (timers s a) < t_timeout (timers s b) then True
      else if t_timeout (timers s b) < t_timeout (timers s a) then False
      else t_start_id (timers s a) < t_start_id (timers s b))"

definition uv_timer_init :: "nat \<Rightarrow> 'a uv_loop_scheme \<Rightarrow> (int \<times> 'a uv_loop_scheme) outcome" where
  "uv_timer_init a s =
     (let s1 = set_timer a (\<lambda>t. t\<lparr>t_closing := False, t_closed := False, t_active := False, t_ref := True\<rparr>) s in
      obind (uv__queue_insert_tail (handle_queue s1) a (handle_queue_mem s1)) (\<lambda>q.
      let s2 = set_timer a (\<lambda>t. t\<lparr>t_cb := None, t_timeout := 0, t_repeat := 0\<rparr>) (s1\<lparr>handle_queue_mem := q\<rparr>) in
      obind (on_nodes (uv__queue_init a) s2) (\<lambda>s3. Ret (0, s3))))"

definition uv_timer_stop :: "nat \<Rightarrow> 'a uv_loop_scheme \<Rightarrow> (int \<times> 'a uv_loop_scheme) outcome option" where
  "uv_timer_stop a s =
     rbind (if uv__is_active a s
            then rbind (on_heap (heap_remove a (timer_less_than s)) s) (\<lambda>s1. Some (Ret (uv__handle_stop a s1)))
            else Some (on_nodes (uv__queue_remove a) s)) (\<lambda>s1.
     rbind (Some (on_nodes (uv__queue_init a) s1)) (\<lambda>s2. Some (Ret (0, s2))))"

text \<open>The addition wraps around; a sum below the summand is cut to the largest time.\<close>

definition clamped_timeout :: "64 word \<Rightarrow> 64 word \<Rightarrow> 64 word" where
  "clamped_timeout now timeout = (if now + timeout < timeout then -1 else now + timeout)"

definition uv_timer_start ::
  "nat \<Rightarrow> nat option \<Rightarrow> 64 word \<Rightarrow> 64 word \<Rightarrow> 'a uv_loop_scheme \<Rightarrow> (int \<times> 'a uv_loop_scheme) outcome option" where
  "uv_timer_start a cb timeout repeat s =
     (if uv__is_closing a s \<or> cb = None then Some (Ret (UV_EINVAL, s))
      else rbind (uv_timer_stop a s) (\<lambda>(_, s1).
        let s2 = set_timer a (\<lambda>t. t\<lparr>t_cb := cb, t_timeout := clamped_timeout (loop_time s1) timeout,
                                  t_repeat := repeat, t_start_id := timer_counter s1\<rparr>) s1;
            s3 = s2\<lparr>timer_counter := timer_counter s2 + 1\<rparr> in
        rbind (on_heap (heap_insert a (timer_less_than s3)) s3) (\<lambda>s4. Some (Ret (0, uv__handle_start a s4)))))"

definition uv_timer_again :: "nat \<Rightarrow> 'a uv_loop_scheme \<Rightarrow> (int \<times> 'a uv_loop_scheme) outcome option" where
  "uv_timer_again a s =
     (if t_cb (timers s a) = None then Some (Ret (UV_EINVAL, s))
      else if t_repeat (timers s a) \<noteq> 0
      then rbind (uv_timer_stop a s) (\<lambda>(_, s1).
        rbind (uv_timer_start a (t_cb (timers s1 a)) (t_repeat (timers s1 a)) (t_repeat (timers s1 a)) s1) (\<lambda>(_, s2).
        Some (Ret (0, s2))))
      else Some (Ret (0, s)))"

definition uv_timer_set_repeat :: "nat \<Rightarrow> 64 word \<Rightarrow> 'a uv_loop_scheme \<Rightarrow> 'a uv_loop_scheme" where
  "uv_timer_set_repeat a repeat s = set_timer a (t_repeat_update (\<lambda>_. repeat)) s"

definition uv_timer_get_repeat :: "nat \<Rightarrow> 'a uv_loop_scheme \<Rightarrow> 64 word" where
  "uv_timer_get_repeat a s = t_repeat (timers s a)"

definition uv_timer_get_due_in :: "nat \<Rightarrow> 'a uv_loop_scheme \<Rightarrow> 64 word" where
  "uv_timer_get_due_in a s =
     (if t_timeout (timers s a) \<le> loop_time s then 0 else t_timeout (timers s a) - loop_time s)"

definition INT_MAX :: int where "INT_MAX = 2147483647"

definition uv__next_timeout :: "'a uv_loop_scheme \<Rightarrow> int" where
  "uv__next_timeout s =
     (let a = heap_min (timer_heap s) in
      if a = 0 then -1
      else if t_timeout (timers s a) \<le> loop_time s then 0
      else let diff = uint (t_timeout (timers s a) - loop_time s) in if INT_MAX < diff then INT_MAX else diff)"

text \<open>\<open>uv__run_timers\<close>: the loop that moves the timers that are due to the queue at \<open>ready\<close>, and the loop that calls them.\<close>

partial_function (option) collect_due :: "nat \<Rightarrow> 'a uv_loop_scheme \<Rightarrow> 'a uv_loop_scheme outcome option" where
  "collect_due ready s =
     (let a = heap_min (timer_heap s) in
      if a = 0 then Some (Ret s)
      else if loop_time s < t_timeout (timers s a) then Some (Ret s)
      else (case uv_timer_stop a s of
          None \<Rightarrow> None
        | Some (Fault e) \<Rightarrow> Some (Fault e)
        | Some (Ret (_, s1)) \<Rightarrow> (case on_nodes (uv__queue_insert_tail ready a) s1 of
            Fault e \<Rightarrow> Some (Fault e)
          | Ret s2 \<Rightarrow> collect_due ready s2)))"

text \<open>One round of the second loop.\<close>

definition call_next ::
  "(nat \<Rightarrow> nat \<Rightarrow> 'a uv_loop_scheme \<Rightarrow> 'a uv_loop_scheme outcome option) \<Rightarrow> nat \<Rightarrow> 'a uv_loop_scheme
   \<Rightarrow> 'a uv_loop_scheme outcome option" where
  "call_next cb ready s =
     rbind (Some (uv__queue_head ready (node_mem s))) (\<lambda>a.
     rbind (Some (on_nodes (uv__queue_remove a) s)) (\<lambda>s1.
     rbind (Some (on_nodes (uv__queue_init a) s1)) (\<lambda>s2.
     rbind (uv_timer_again a s2) (\<lambda>(_, s3).
     case t_cb (timers s3 a) of None \<Rightarrow> Some (Fault Null_deref) | Some c \<Rightarrow> cb c a s3))))"

partial_function (option) call_ready ::
  "(nat \<Rightarrow> nat \<Rightarrow> 'a uv_loop_scheme \<Rightarrow> 'a uv_loop_scheme outcome option) \<Rightarrow> nat \<Rightarrow> 'a uv_loop_scheme
   \<Rightarrow> 'a uv_loop_scheme outcome option" where
  "call_ready cb ready s = (case uv__queue_empty ready (node_mem s) of
     Fault e \<Rightarrow> Some (Fault e)
   | Ret is_empty \<Rightarrow> if is_empty then Some (Ret s)
       else (case call_next cb ready s of
          None \<Rightarrow> None
        | Some (Fault e) \<Rightarrow> Some (Fault e)
        | Some (Ret s1) \<Rightarrow> call_ready cb ready s1))"

definition uv__run_timers ::
  "(nat \<Rightarrow> nat \<Rightarrow> 'a uv_loop_scheme \<Rightarrow> 'a uv_loop_scheme outcome option) \<Rightarrow> nat \<Rightarrow> 'a uv_loop_scheme
   \<Rightarrow> 'a uv_loop_scheme outcome option" where
  "uv__run_timers cb ready s =
     rbind (Some (on_nodes (uv__queue_init ready) s)) (\<lambda>s1.
     rbind (collect_due ready s1) (call_ready cb ready))"

definition uv__timer_close :: "nat \<Rightarrow> 'a uv_loop_scheme \<Rightarrow> 'a uv_loop_scheme outcome option" where
  "uv__timer_close a s = rbind (uv_timer_stop a s) (\<lambda>(_, s1). Some (Ret s1))"

section \<open>Well-formed loops\<close>

text \<open>The order of the timers is a strict weak order, so the heap does what it promises.\<close>

interpretation timer_order: heap_compare "timer_less_than s" for s :: "'a uv_loop_scheme"
  by unfold_locales (auto simp: timer_less_than_def split: if_splits)

definition active_of :: "nat set \<Rightarrow> 'a uv_loop_scheme \<Rightarrow> nat set" where
  "active_of T s = {a \<in> T. t_active (timers s a)}"

text \<open>
  The timers \<open>T\<close> have been initialised. Those that are active are in the heap; the others are alone in
  their ring or queued at \<open>r\<close>, the address of the queue that \<open>uv__run_timers\<close> works on (0 when it is not running).
\<close>

definition timer_inv :: "nat set \<Rightarrow> nat \<Rightarrow> nat list \<Rightarrow> 'a uv_loop_scheme \<Rightarrow> bool" where
  "timer_inv T r rs s \<longleftrightarrow> finite T \<and> card T < 2 ^ 32 - 1 \<and> r \<notin> T
     \<and> (\<forall>a \<in> T. a \<noteq> 0 \<and> mapped (node_mem s) a)
     \<and> heap_on (timer_less_than s) (active_of T s) (timer_heap s, node_mem s)
     \<and> set rs \<subseteq> T - active_of T s
     \<and> (if r = 0 then rs = [] else ring (node_mem s) r rs)
     \<and> (\<forall>a \<in> T - active_of T s - set rs. ring (node_mem s) a [])
     \<and> (\<forall>a \<in> T. t_active (timers s a) \<or> a \<in> set rs \<longrightarrow> t_cb (timers s a) \<noteq> None)"

lemma timer_invD:
  assumes "timer_inv T r rs s"
  shows "finite T" "card T < 2 ^ 32 - 1" "r \<notin> T" "a \<in> T \<Longrightarrow> a \<noteq> 0" "a \<in> T \<Longrightarrow> mapped (node_mem s) a"
    "heap_on (timer_less_than s) (active_of T s) (timer_heap s, node_mem s)"
    "set rs \<subseteq> T - active_of T s" "r \<noteq> 0 \<Longrightarrow> ring (node_mem s) r rs" "r = 0 \<Longrightarrow> rs = []"
    "a \<in> T \<Longrightarrow> a \<notin> active_of T s \<Longrightarrow> a \<notin> set rs \<Longrightarrow> ring (node_mem s) a []"
    "a \<in> T \<Longrightarrow> t_active (timers s a) \<or> a \<in> set rs \<Longrightarrow> t_cb (timers s a) \<noteq> None"
    "distinct rs"
proof -
  show "distinct rs" using assms by (auto simp: timer_inv_def ring_def split: if_splits)
qed (use assms in \<open>auto simp: timer_inv_def\<close>)

lemma active_of_sub: "active_of T s \<subseteq> T"
  by (auto simp: active_of_def)

lemma heap_size:
  assumes "timer_inv T r rs s"
  shows "Suc (nelts (timer_heap s)) < 2 ^ 32"
proof -
  have "nelts (timer_heap s) = card (active_of T s)" using heap_on_finite(2) [OF timer_invD(6) [OF assms]] by simp
  also have "\<dots> \<le> card T" using card_mono [OF timer_invD(1) [OF assms] active_of_sub] .
  finally show ?thesis using timer_invD(2) [OF assms] by linarith
qed

text \<open>What stopping a timer does: it is inactive, alone and out of the queue; nothing else changes.\<close>

definition stopped :: "nat \<Rightarrow> 'a uv_loop_scheme \<Rightarrow> 'a uv_loop_scheme" where
  "stopped a s = uv__handle_stop a s"

lemma stopped_simps [simp]:
  "timers (stopped a s) = (timers s)(a := (timers s a)\<lparr>t_active := False\<rparr>)"
  "loop_time (stopped a s) = loop_time s" "timer_counter (stopped a s) = timer_counter s"
  "timer_heap (stopped a s) = timer_heap s" "node_mem (stopped a s) = node_mem s" "uv_loop.more (stopped a s) = uv_loop.more s"
  by (auto simp: stopped_def uv__handle_stop_def set_timer_def Let_def fun_eq_iff)

lemma only_at_outside: "only_at S m m' \<Longrightarrow> same_outside S m m'"
  by (simp add: only_at_def same_outside_def)

lemma ring_outside: "same_outside S m m' \<Longrightarrow> S \<inter> set (h # xs) = {} \<Longrightarrow> ring m' h xs = ring m h xs"
  by (rule ring_cong) (auto simp: same_outside_def)

lemma heap_outside:
  assumes "heap_on lt H (h, m)" and "same_outside S m m'" and "S \<inter> H = {}"
    and "\<And>a b. a \<in> H \<Longrightarrow> b \<in> H \<Longrightarrow> lt' a b = lt a b"
  shows "heap_on lt' H (h, m')"
  using assms(2,3) by (intro heap_on_cong [OF assms(1) _ _ assms(4)]) (auto simp: same_outside_def)

lemma less_than_cong:
  "timers s' a = timers s a \<Longrightarrow> timers s' b = timers s b \<Longrightarrow> timer_less_than s' a b = timer_less_than s a b"
  by (simp add: timer_less_than_def)

lemma stop_active:
  assumes inv: "timer_inv T r rs s" and a: "a \<in> T" "t_active (timers s a)"
  shows "\<exists>h m. uv_timer_stop a s = Some (Ret (0, (stopped a s)\<lparr>timer_heap := h, node_mem := m\<rparr>))
    \<and> timer_inv T r rs ((stopped a s)\<lparr>timer_heap := h, node_mem := m\<rparr>) \<and> mapped m = mapped (node_mem s)"
proof -
  note d = timer_invD [OF inv]
  let ?H = "active_of T s"
  have aH: "a \<in> ?H" using a by (simp add: active_of_def)
  have "nelts (fst (timer_heap s, node_mem s)) < 2 ^ 32" using heap_size [OF inv] by simp
  from timer_order.remove_ok [OF d(6) aH this] obtain h m where
    hm: "heap_remove a (timer_less_than s) (timer_heap s, node_mem s) = Some (Ret (h, m))"
    "heap_on (timer_less_than s) (?H - {a}) (h, m)" "same_outside ?H (node_mem s) m" by auto
  have mp: "mapped m = mapped (node_mem s)" using hm(3) by (simp add: same_outside_def)
  obtain m' where m': "uv__queue_init a m = Ret m'" "ring m' a []" "only_at {a} m m'"
    using queue_init [of a m] d(4,5) [OF a(1)] mp by auto
  have out: "same_outside ?H (node_mem s) m'"
    using same_outside_trans [OF hm(3) same_outside_mono [OF only_at_outside [OF m'(3)]]] aH by simp
  let ?s' = "(stopped a s)\<lparr>timer_heap := h, node_mem := m'\<rparr>"
  have "uv__handle_stop a (s\<lparr>timer_heap := h, node_mem := m\<rparr>) = (stopped a s)\<lparr>timer_heap := h, node_mem := m\<rparr>"
    by (simp add: stopped_def uv__handle_stop_def set_timer_def Let_def)
  then have run: "uv_timer_stop a s = Some (Ret (0, ?s'))"
    using hm(1) m'(1) a(2) by (simp add: uv_timer_stop_def uv__is_active_def on_heap_def on_nodes_def rbind_def)
  have act: "active_of T ?s' = ?H - {a}" by (auto simp: active_of_def)
  have heap: "heap_on (timer_less_than ?s') (?H - {a}) (h, m')"
    by (rule heap_outside [OF hm(2) only_at_outside [OF m'(3)]]) (auto simp: timer_less_than_def)
  have rs: "set rs \<inter> ?H = {}" using d(7) by auto
  have "r \<noteq> 0 \<Longrightarrow> ring m' r rs" using ring_outside [OF out, of r rs] d(3,8) rs active_of_sub [of T s] by auto
  moreover have "ring m' b []" if "b \<in> T" "b \<notin> ?H - {a}" "b \<notin> set rs" for b
    using that m'(2) ring_outside [OF out, of b "[]"] d(10) [of b] by (cases "b = a") auto
  moreover have "mapped m' = mapped (node_mem s)" using out by (simp add: same_outside_def)
  moreover have "t_cb (timers ?s' b) = t_cb (timers s b)" for b by simp
  ultimately have "timer_inv T r rs ?s'"
    unfolding timer_inv_def act using d(1-5,9) d(7) d(11) heap by auto
  then show ?thesis using run out by (auto simp: same_outside_def)
qed

lemma stop_inactive:
  assumes inv: "timer_inv T r rs s" and a: "a \<in> T" "\<not> t_active (timers s a)"
  shows "\<exists>m. uv_timer_stop a s = Some (Ret (0, s\<lparr>node_mem := m\<rparr>))
    \<and> timer_inv T r (remove1 a rs) (s\<lparr>node_mem := m\<rparr>) \<and> mapped m = mapped (node_mem s)"
proof -
  note d = timer_invD [OF inv]
  let ?H = "active_of T s"
  have aH: "a \<notin> ?H" using a by (simp add: active_of_def)
  have rsH: "set rs \<inter> ?H = {}" "set rs \<subseteq> T" using d(7) by auto
  obtain m where m: "uv__queue_remove a (node_mem s) = Ret m" "only_at (set (r # remove1 a rs)) (node_mem s) m"
    "r \<noteq> 0 \<Longrightarrow> ring m r (remove1 a rs)"
  proof (cases "a \<in> set rs")
    case True
    then obtain xs ys where xy: "rs = xs @ a # ys" "a \<notin> set xs" by (auto dest: split_list_first)
    have r0: "r \<noteq> 0" using True d(9) by (metis list.set(1) empty_iff)
    then have rg: "ring (node_mem s) r (xs @ a # ys)" using d(8) xy by simp
    have e: "remove1 a rs = xs @ ys" using xy by (simp add: remove1_append)
    obtain m where "uv__queue_remove a (node_mem s) = Ret m" "ring m r (xs @ ys)" "only_at (set (r # xs @ ys)) (node_mem s) m"
      using queue_remove [OF rg] by blast
    then show thesis using that [of m] e by simp
  next
    case False
    then have "ring (node_mem s) a []" using d(10) a(1) aH by blast
    then have "uv__queue_remove a (node_mem s) = Ret (node_mem s)" by (rule queue_remove_alone)
    then show thesis using that [of "node_mem s"] False d(8) by (simp add: remove1_idem only_at_def)
  qed
  have mp: "mapped m = mapped (node_mem s)" using m(2) by (simp add: only_at_def)
  obtain m' where m': "uv__queue_init a m = Ret m'" "ring m' a []" "only_at {a} m m'"
    using queue_init [of a m] d(4,5) [OF a(1)] mp by auto
  let ?s' = "s\<lparr>node_mem := m'\<rparr>"
  have run: "uv_timer_stop a s = Some (Ret (0, ?s'))"
    using m(1) m'(1) a(2) by (simp add: uv_timer_stop_def uv__is_active_def on_nodes_def rbind_def)
  have out: "same_outside (insert a (set (r # rs))) (node_mem s) m'"
  proof (rule same_outside_trans)
    show "same_outside (insert a (set (r # rs))) (node_mem s) m"
      using set_remove1_subset [of a rs] by (intro same_outside_mono [OF only_at_outside [OF m(2)]]) auto
    show "same_outside (insert a (set (r # rs))) m m'"
      by (rule same_outside_mono [OF only_at_outside [OF m'(3)]]) simp
  qed
  have act: "active_of T ?s' = ?H" by (simp add: active_of_def)
  have rH: "r \<notin> ?H" using d(3) active_of_sub [of T s] by auto
  have heap: "heap_on (timer_less_than ?s') ?H (timer_heap s, m')"
    using rH aH rsH by (intro heap_outside [OF d(6) out]) (auto simp: timer_less_than_def)
  have a_rs: "a \<notin> set (remove1 a rs)" using d(12) by simp
  have "r \<noteq> 0 \<Longrightarrow> ring m' r (remove1 a rs)"
    using ring_outside [OF only_at_outside [OF m'(3)], of r "remove1 a rs"] m(3) a_rs a(1) d(3) by auto
  moreover have "ring m' b []" if "b \<in> T" "b \<notin> ?H" "b \<notin> set (remove1 a rs)" for b
  proof (cases "b = a")
    case True
    then show ?thesis using m'(2) by simp
  next
    case False
    then have "b \<notin> set rs" using that(3) by (metis in_set_remove1)
    then show ?thesis using ring_outside [OF out, of b "[]"] d(10) [OF that(1,2)] False d(3) that(1) by auto
  qed
  moreover have "mapped m' = mapped (node_mem s)" using out by (simp add: same_outside_def)
  moreover have "set (remove1 a rs) \<subseteq> set rs" by (rule set_remove1_subset)
  ultimately have "timer_inv T r (remove1 a rs) ?s'"
    unfolding timer_inv_def act using d(1-5) d(9) d(11) d(7) heap by auto
  then show ?thesis using run out by (auto simp: same_outside_def)
qed

text \<open>Both cases in one: stopping returns, takes the timer out of the heap and the queue, and keeps the rest.\<close>

lemma stop_ok:
  assumes inv: "timer_inv T r rs s" and a: "a \<in> T"
  shows "\<exists>h m. uv_timer_stop a s = Some (Ret (0, (stopped a s)\<lparr>timer_heap := h, node_mem := m\<rparr>))
    \<and> timer_inv T r (remove1 a rs) ((stopped a s)\<lparr>timer_heap := h, node_mem := m\<rparr>)
    \<and> mapped m = mapped (node_mem s)"
proof (cases "t_active (timers s a)")
  case True
  then have "a \<notin> set rs" using timer_invD(7) [OF inv] a by (auto simp: active_of_def)
  then have "remove1 a rs = rs" by (rule remove1_idem)
  then show ?thesis using stop_active [OF inv a True] by simp
next
  case False
  then have "stopped a s = s" by (simp add: stopped_def uv__handle_stop_def)
  then have "(stopped a s)\<lparr>timer_heap := timer_heap s, node_mem := m\<rparr> = s\<lparr>node_mem := m\<rparr>" for m by simp
  then show ?thesis using stop_inactive [OF inv a False] by metis
qed

text \<open>A timer that is not in the heap and not queued goes into the heap.\<close>

lemma insert_timer_ok:
  assumes inv: "timer_inv T r rs s" and a: "a \<in> T" "\<not> t_active (timers s a)" "a \<notin> set rs" "t_cb (timers s a) \<noteq> None"
  shows "\<exists>h m. on_heap (heap_insert a (timer_less_than s)) s = Some (Ret (s\<lparr>timer_heap := h, node_mem := m\<rparr>))
    \<and> timer_inv T r rs (uv__handle_start a (s\<lparr>timer_heap := h, node_mem := m\<rparr>)) \<and> mapped m = mapped (node_mem s)"
proof -
  note d = timer_invD [OF inv]
  let ?H = "active_of T s"
  have aH: "a \<notin> ?H" using a by (simp add: active_of_def)
  have "Suc (nelts (fst (timer_heap s, node_mem s))) < 2 ^ 32" using heap_size [OF inv] by simp
  moreover have "a \<noteq> 0" "mapped (snd (timer_heap s, node_mem s)) a" using d(4,5) a(1) by auto
  ultimately obtain h m where
    hm: "heap_insert a (timer_less_than s) (timer_heap s, node_mem s) = Some (Ret (h, m))"
    "heap_on (timer_less_than s) (insert a ?H) (h, m)" "same_outside (insert a ?H) (node_mem s) m"
    using timer_order.insert_ok [OF d(6) aH] by auto
  let ?s' = "uv__handle_start a (s\<lparr>timer_heap := h, node_mem := m\<rparr>)"
  have f: "timers ?s' = (timers s)(a := (timers s a)\<lparr>t_active := True\<rparr>)" "timer_heap ?s' = h" "node_mem ?s' = m"
    by (auto simp: uv__handle_start_def set_timer_def Let_def)
  have act: "active_of T ?s' = insert a ?H" using a(1) by (auto simp: active_of_def f)
  have heap: "heap_on (timer_less_than ?s') (insert a ?H) (h, m)"
    by (rule heap_outside [OF hm(2), of "{}"]) (auto simp: timer_less_than_def f)
  have rs: "set rs \<inter> insert a ?H = {}" "r \<notin> insert a ?H" using d(3,7) a active_of_sub [of T s] by auto
  have "r \<noteq> 0 \<Longrightarrow> ring m r rs" using ring_outside [OF hm(3), of r rs] d(8) rs by auto
  moreover have "ring m b []" if "b \<in> T" "b \<notin> insert a ?H" "b \<notin> set rs" for b
    using that ring_outside [OF hm(3), of b "[]"] d(10) [of b] by auto
  moreover have mp: "mapped m = mapped (node_mem s)" using hm(3) by (simp add: same_outside_def)
  moreover have "t_cb (timers ?s' b) = t_cb (timers s b)" for b by (simp add: f)
  ultimately have "timer_inv T r rs ?s'"
    unfolding timer_inv_def act using d(1-5) d(9) d(7) d(11) heap rs a(4) by (auto simp: f)
  then show ?thesis using hm(1) mp by (auto simp: on_heap_def rbind_def)
qed

lemma start_ok:
  assumes inv: "timer_inv T r rs s" and a: "a \<in> T" "\<not> uv__is_closing a s"
  shows "\<exists>s'. uv_timer_start a (Some c) timeout rpt s = Some (Ret (0, s')) \<and> timer_inv T r (remove1 a rs) s'
    \<and> timers s' = (timers s)(a := (timers s a)\<lparr>t_active := True, t_cb := Some c,
        t_timeout := clamped_timeout (loop_time s) timeout, t_repeat := rpt, t_start_id := timer_counter s\<rparr>)
    \<and> loop_time s' = loop_time s \<and> timer_counter s' = timer_counter s + 1
    \<and> mapped (node_mem s') = mapped (node_mem s) \<and> uv_loop.more s' = uv_loop.more s"
proof -
  obtain h m where st: "uv_timer_stop a s = Some (Ret (0, (stopped a s)\<lparr>timer_heap := h, node_mem := m\<rparr>))"
    "timer_inv T r (remove1 a rs) ((stopped a s)\<lparr>timer_heap := h, node_mem := m\<rparr>)" "mapped m = mapped (node_mem s)"
    using stop_ok [OF inv a(1)] by blast
  let ?s1 = "(stopped a s)\<lparr>timer_heap := h, node_mem := m\<rparr>"
  define s2 where "s2 = set_timer a (\<lambda>t. t\<lparr>t_cb := Some c, t_timeout := clamped_timeout (loop_time ?s1) timeout,
                                  t_repeat := rpt, t_start_id := timer_counter ?s1\<rparr>) ?s1"
  define s3 where "s3 = s2\<lparr>timer_counter := timer_counter s2 + 1\<rparr>"
  have f: "timers s3 = (timers s)(a := (timers s a)\<lparr>t_active := False, t_cb := Some c,
        t_timeout := clamped_timeout (loop_time s) timeout, t_repeat := rpt, t_start_id := timer_counter s\<rparr>)"
    "loop_time s3 = loop_time s" "timer_counter s3 = timer_counter s + 1" "node_mem s3 = m" "timer_heap s3 = h"
    "uv_loop.more s3 = uv_loop.more s"
    by (auto simp: s3_def s2_def set_timer_def)
  have act: "active_of T s3 = active_of T ?s1" by (auto simp: active_of_def f)
  note d = timer_invD [OF st(2), simplified]
  have aN: "a \<notin> active_of T ?s1" by (simp add: active_of_def)
  have heap: "heap_on (timer_less_than s3) (active_of T ?s1) (h, m)"
    using aN by (intro heap_outside [OF timer_invD(6) [OF st(2), simplified], of "{}"]) (auto simp: timer_less_than_def f)
  have inv3: "timer_inv T r (remove1 a rs) s3"
    using st(2) heap unfolding timer_inv_def act by (auto simp: f)
  have aR: "a \<notin> set (remove1 a rs)" using timer_invD(12) [OF inv] by simp
  obtain h' m' where i: "on_heap (heap_insert a (timer_less_than s3)) s3 = Some (Ret (s3\<lparr>timer_heap := h', node_mem := m'\<rparr>))"
    "timer_inv T r (remove1 a rs) (uv__handle_start a (s3\<lparr>timer_heap := h', node_mem := m'\<rparr>))" "mapped m' = mapped (node_mem s3)"
    using insert_timer_ok [OF inv3 a(1) _ aR] by (auto simp: f)
  let ?s' = "uv__handle_start a (s3\<lparr>timer_heap := h', node_mem := m'\<rparr>)"
  have "uv_timer_start a (Some c) timeout rpt s = Some (Ret (0, ?s'))"
    using a(2) st(1) i(1) by (simp add: uv_timer_start_def rbind_def Let_def s3_def s2_def)
  moreover have "timers ?s' = (timers s)(a := (timers s a)\<lparr>t_active := True, t_cb := Some c,
        t_timeout := clamped_timeout (loop_time s) timeout, t_repeat := rpt, t_start_id := timer_counter s\<rparr>)"
    "loop_time ?s' = loop_time s" "timer_counter ?s' = timer_counter s + 1" "node_mem ?s' = m'"
    "uv_loop.more ?s' = uv_loop.more s"
    by (auto simp: uv__handle_start_def set_timer_def Let_def f)
  ultimately show ?thesis using i(2,3) st(3) f(4) by auto
qed

section \<open>Collecting the timers that are due\<close>

lemma enqueue_ok:
  assumes inv: "timer_inv T r rs s" and r: "r \<noteq> 0"
    and a: "a \<in> T" "\<not> t_active (timers s a)" "a \<notin> set rs" "t_cb (timers s a) \<noteq> None"
  shows "\<exists>m. on_nodes (uv__queue_insert_tail r a) s = Ret (s\<lparr>node_mem := m\<rparr>) \<and> timer_inv T r (rs @ [a]) (s\<lparr>node_mem := m\<rparr>)
    \<and> mapped m = mapped (node_mem s)"
proof -
  note d = timer_invD [OF inv]
  let ?H = "active_of T s"
  have aH: "a \<notin> ?H" using a by (simp add: active_of_def)
  have fresh: "a \<notin> set (r # rs)" using a d(3) by auto
  obtain m where m: "uv__queue_insert_tail r a (node_mem s) = Ret m" "ring m r (rs @ [a])" "only_at (insert a (set (r # rs))) (node_mem s) m"
    using queue_insert_tail [OF d(8) [OF r] fresh d(4) [OF a(1)] d(5) [OF a(1)]] by blast
  note out = only_at_outside [OF m(3)]
  let ?s' = "s\<lparr>node_mem := m\<rparr>"
  have act: "active_of T ?s' = ?H" by (simp add: active_of_def)
  have rH: "r \<notin> ?H" "set rs \<inter> ?H = {}" using d(3,7) active_of_sub [of T s] by auto
  have "heap_on (timer_less_than ?s') ?H (timer_heap s, m)"
    using rH aH by (intro heap_outside [OF d(6) out]) (auto simp: timer_less_than_def)
  moreover have "ring m b []" if "b \<in> T" "b \<notin> ?H" "b \<notin> set (rs @ [a])" for b
    using that ring_outside [OF out, of b "[]"] d(3) d(10) [of b] by auto
  moreover have mp: "mapped m = mapped (node_mem s)" using out by (simp add: same_outside_def)
  ultimately have "timer_inv T r (rs @ [a]) ?s'"
    unfolding timer_inv_def act using d(1-5) d(7) d(11) m(2) r a aH by auto
  then show ?thesis using m(1) mp by (auto simp: on_nodes_def)
qed

definition due :: "nat set \<Rightarrow> 'a uv_loop_scheme \<Rightarrow> nat set" where
  "due T s = {a \<in> active_of T s. t_timeout (timers s a) \<le> loop_time s}"

text \<open>The timers of \<open>ds\<close> have been taken out of the heap.\<close>

definition disarmed :: "nat list \<Rightarrow> (nat \<Rightarrow> uv_timer) \<Rightarrow> nat \<Rightarrow> uv_timer" where
  "disarmed ds ts a = (if a \<in> set ds then (ts a)\<lparr>t_active := False\<rparr> else ts a)"

lemma min_not_due:
  assumes inv: "timer_inv T r rs s" and m: "heap_min (timer_heap s) = 0 \<or> loop_time s < t_timeout (timers s (heap_min (timer_heap s)))"
  shows "due T s = {}"
proof (cases "active_of T s = {}")
  case False
  note mn = timer_order.min_ok(2) [OF timer_invD(6) [OF inv] False, simplified]
  have "heap_min (timer_heap s) \<noteq> 0" using mn heap_on_finite(3) [OF timer_invD(6) [OF inv]] by metis
  then have late: "loop_time s < t_timeout (timers s (heap_min (timer_heap s)))" using m by auto
  have "\<not> t_timeout (timers s a) \<le> loop_time s" if "a \<in> active_of T s" for a
  proof -
    have "\<not> timer_less_than s a (heap_min (timer_heap s))" using mn that by blast
    then have "t_timeout (timers s (heap_min (timer_heap s))) \<le> t_timeout (timers s a)"
      by (auto simp: timer_less_than_def split: if_splits)
    then show ?thesis using late by simp
  qed
  then show ?thesis by (auto simp: due_def)
qed (simp add: due_def)

lemma collect_due_ok:
  assumes "timer_inv T r rs s" and "r \<noteq> 0"
  shows "\<exists>s' ds. collect_due r s = Some (Ret s') \<and> timer_inv T r (rs @ ds) s'
    \<and> distinct ds \<and> set ds = due T s \<and> sorted_wrt (\<lambda>a b. \<not> timer_less_than s b a) ds
    \<and> timers s' = disarmed ds (timers s) \<and> loop_time s' = loop_time s \<and> timer_counter s' = timer_counter s
    \<and> mapped (node_mem s') = mapped (node_mem s) \<and> uv_loop.more s' = uv_loop.more s"
  using assms
proof (induction "card (active_of T s)" arbitrary: rs s rule: less_induct)
  case less
  note inv = less.prems(1)
  note d = timer_invD [OF inv]
  let ?a = "heap_min (timer_heap s)" and ?H = "active_of T s"
  show ?case
  proof (cases "?a = 0 \<or> loop_time s < t_timeout (timers s ?a)")
    case True
    then have "collect_due r s = Some (Ret s)" by (subst collect_due.simps) (auto simp: Let_def)
    moreover have "due T s = {}" using min_not_due [OF inv True] .
    moreover have "timers s = disarmed [] (timers s)" by (auto simp: disarmed_def)
    ultimately show ?thesis using inv by (intro exI [of _ s] exI [of _ "[]"]) simp
  next
    case False
    have ne: "?H \<noteq> {}" using timer_order.min_ok(1) [OF d(6)] False by auto
    note mn = timer_order.min_ok(2) [OF d(6) ne, simplified]
    have aH: "?a \<in> ?H" using mn by blast
    then have aT: "?a \<in> T" "t_active (timers s ?a)" by (auto simp: active_of_def)
    have aR: "?a \<notin> set rs" using d(7) aH by auto
    obtain h m where st: "uv_timer_stop ?a s = Some (Ret (0, (stopped ?a s)\<lparr>timer_heap := h, node_mem := m\<rparr>))"
      "timer_inv T r rs ((stopped ?a s)\<lparr>timer_heap := h, node_mem := m\<rparr>)" "mapped m = mapped (node_mem s)"
      using stop_active [OF inv aT] by blast
    let ?s1 = "(stopped ?a s)\<lparr>timer_heap := h, node_mem := m\<rparr>"
    have "t_cb (timers ?s1 ?a) \<noteq> None" using d(11) aT by simp
    then obtain m' where q: "on_nodes (uv__queue_insert_tail r ?a) ?s1 = Ret (?s1\<lparr>node_mem := m'\<rparr>)"
      "timer_inv T r (rs @ [?a]) (?s1\<lparr>node_mem := m'\<rparr>)" "mapped m' = mapped m"
      using enqueue_ok [OF st(2) less.prems(2) aT(1) _ aR] by auto
    let ?s2 = "?s1\<lparr>node_mem := m'\<rparr>"
    have act: "active_of T ?s2 = ?H - {?a}" by (auto simp: active_of_def)
    have "card (active_of T ?s2) < card ?H" unfolding act
      using aH d(1) active_of_sub [of T s] by (intro psubset_card_mono finite_subset [OF active_of_sub]) auto
    from less.hyps [OF this q(2) less.prems(2)] obtain s' ds where s':
      "collect_due r ?s2 = Some (Ret s')" "timer_inv T r ((rs @ [?a]) @ ds) s'" "distinct ds" "set ds = due T ?s2"
      "sorted_wrt (\<lambda>a b. \<not> timer_less_than ?s2 b a) ds" "timers s' = disarmed ds (timers ?s2)"
      "loop_time s' = loop_time ?s2" "timer_counter s' = timer_counter ?s2" "mapped (node_mem s') = mapped (node_mem ?s2)"
      "uv_loop.more s' = uv_loop.more ?s2" by blast
    have du: "due T ?s2 = due T s - {?a}" "?a \<in> due T s"
      using False aH unfolding due_def act by auto
    have "collect_due r s = Some (Ret s')"
      using False st(1) q(1) s'(1) by (subst collect_due.simps) (simp add: Let_def)
    moreover have "distinct (?a # ds)" "set (?a # ds) = due T s" using s'(3,4) du by auto
    moreover have "sorted_wrt (\<lambda>a b. \<not> timer_less_than s b a) (?a # ds)"
    proof -
      have "t_timeout (timers ?s2 x) = t_timeout (timers s x)" "t_start_id (timers ?s2 x) = t_start_id (timers s x)" for x
        by simp_all
      then have "timer_less_than ?s2 b a = timer_less_than s b a" for a b by (simp only: timer_less_than_def)
      moreover have "\<not> timer_less_than s b ?a" if "b \<in> set ds" for b
        using that s'(4) du mn by (auto simp: due_def)
      ultimately show ?thesis using s'(5) by simp
    qed
    moreover have "timers s' = disarmed (?a # ds) (timers s)" using s'(6) by (auto simp: disarmed_def fun_eq_iff)
    moreover have "mapped (node_mem s') = mapped (node_mem s)" using s'(9) st(3) q(3) by simp
    ultimately show ?thesis using s'(2,7,8,10) by (intro exI [of _ s'] exI [of _ "?a # ds"]) simp
  qed
qed

section \<open>Calling them\<close>

lemma again_ok:
  assumes inv: "timer_inv T r rs s" and a: "a \<in> T"
  shows "\<exists>n s'. uv_timer_again a s = Some (Ret (n, s'))
    \<and> timer_inv T r (if t_cb (timers s a) \<noteq> None \<and> t_repeat (timers s a) \<noteq> 0 then remove1 a rs else rs) s'
    \<and> timers s' = (timers s)(a := if t_cb (timers s a) = None \<or> t_repeat (timers s a) = 0 then timers s a
         else if uv__is_closing a s then (timers s a)\<lparr>t_active := False\<rparr>
         else (timers s a)\<lparr>t_active := True, t_timeout := clamped_timeout (loop_time s) (t_repeat (timers s a)),
                t_start_id := timer_counter s\<rparr>)
    \<and> loop_time s' = loop_time s \<and> mapped (node_mem s') = mapped (node_mem s) \<and> uv_loop.more s' = uv_loop.more s"
proof -
  obtain h m where st: "uv_timer_stop a s = Some (Ret (0, (stopped a s)\<lparr>timer_heap := h, node_mem := m\<rparr>))"
    "timer_inv T r (remove1 a rs) ((stopped a s)\<lparr>timer_heap := h, node_mem := m\<rparr>)" "mapped m = mapped (node_mem s)"
    using stop_ok [OF inv a] by blast
  let ?s1 = "(stopped a s)\<lparr>timer_heap := h, node_mem := m\<rparr>"
  show ?thesis
  proof (cases "t_cb (timers s a) = None \<or> t_repeat (timers s a) = 0")
    case True
    then show ?thesis using inv by (auto simp: uv_timer_again_def)
  next
    case False
    then obtain c where c: "t_cb (timers s a) = Some c" "t_repeat (timers s a) \<noteq> 0" by auto
    have cl: "uv__is_closing a ?s1 = uv__is_closing a s" by (simp add: uv__is_closing_def)
    have rr: "remove1 a (remove1 a rs) = remove1 a rs" using timer_invD(12) [OF inv] by (simp add: remove1_idem)
    show ?thesis
    proof (cases "uv__is_closing a s")
      case True
      then have "uv_timer_again a s = Some (Ret (0, ?s1))"
        using c st(1) cl by (simp add: uv_timer_again_def uv_timer_start_def rbind_def)
      then show ?thesis using c True st(2,3) by auto
    next
      case False
      then obtain s' where s': "uv_timer_start a (Some c) (t_repeat (timers s a)) (t_repeat (timers s a)) ?s1 = Some (Ret (0, s'))"
        "timer_inv T r (remove1 a (remove1 a rs)) s'"
        "timers s' = (timers ?s1)(a := (timers ?s1 a)\<lparr>t_active := True, t_cb := Some c,
          t_timeout := clamped_timeout (loop_time ?s1) (t_repeat (timers s a)), t_repeat := t_repeat (timers s a),
          t_start_id := timer_counter ?s1\<rparr>)"
        "loop_time s' = loop_time ?s1" "mapped (node_mem s') = mapped (node_mem ?s1)" "uv_loop.more s' = uv_loop.more ?s1"
        using start_ok [OF st(2) a, of c "t_repeat (timers s a)" "t_repeat (timers s a)"] cl by blast
      have "uv_timer_again a s = Some (Ret (0, s'))"
        using c st(1) s'(1) by (simp add: uv_timer_again_def rbind_def)
      moreover have "timers s' = (timers s)(a := (timers s a)\<lparr>t_active := True,
          t_timeout := clamped_timeout (loop_time s) (t_repeat (timers s a)), t_start_id := timer_counter s\<rparr>)"
        using s'(3) c by (cases "timers s a") simp
      ultimately show ?thesis using c False s'(2,4-6) st(3) rr by simp
    qed
  qed
qed

text \<open>The head of the queue is taken out of it.\<close>

lemma dequeue_timer_ok:
  assumes inv: "timer_inv T r (a # rs) s" and r: "r \<noteq> 0"
  shows "uv__queue_head r (node_mem s) = Ret a"
    "\<exists>m. obind (on_nodes (uv__queue_remove a) s) (on_nodes (uv__queue_init a)) = Ret (s\<lparr>node_mem := m\<rparr>)
      \<and> timer_inv T r rs (s\<lparr>node_mem := m\<rparr>) \<and> mapped m = mapped (node_mem s)"
proof -
  note d = timer_invD [OF inv]
  show "uv__queue_head r (node_mem s) = Ret a" using queue_head d(8) r by blast
  have a: "a \<in> T" "\<not> t_active (timers s a)" using d(7) by (auto simp: active_of_def)
  obtain m where "uv_timer_stop a s = Some (Ret (0, s\<lparr>node_mem := m\<rparr>))"
    "timer_inv T r (remove1 a (a # rs)) (s\<lparr>node_mem := m\<rparr>)" "mapped m = mapped (node_mem s)"
    using stop_inactive [OF inv a] by blast
  moreover have "obind (on_nodes (uv__queue_remove a) s) (on_nodes (uv__queue_init a)) = Ret s'"
    if "uv_timer_stop a s = Some (Ret (0, s'))" for s'
    using that a(2) by (auto simp: uv_timer_stop_def uv__is_active_def rbind_def split: outcome.splits)
  ultimately show "\<exists>m. obind (on_nodes (uv__queue_remove a) s) (on_nodes (uv__queue_init a)) = Ret (s\<lparr>node_mem := m\<rparr>)
      \<and> timer_inv T r rs (s\<lparr>node_mem := m\<rparr>) \<and> mapped m = mapped (node_mem s)" by auto
qed

text \<open>The loop \<open>s\<close> with the queue head at \<open>r\<close> set up, as \<open>uv__run_timers\<close> begins.\<close>

lemma ready_queue_init:
  assumes inv: "timer_inv T 0 [] s" and r: "r \<noteq> 0" "r \<notin> T" "mapped (node_mem s) r"
  shows "\<exists>m. on_nodes (uv__queue_init r) s = Ret (s\<lparr>node_mem := m\<rparr>) \<and> timer_inv T r [] (s\<lparr>node_mem := m\<rparr>)"
proof -
  note d = timer_invD [OF inv]
  obtain m where m: "uv__queue_init r (node_mem s) = Ret m" "ring m r []" "only_at {r} (node_mem s) m"
    using queue_init [OF r(1,3)] by blast
  note out = only_at_outside [OF m(3)]
  let ?s1 = "s\<lparr>node_mem := m\<rparr>"
  have act: "active_of T ?s1 = active_of T s" by (simp add: active_of_def)
  have rH: "r \<notin> active_of T s" using r(2) active_of_sub [of T s] by auto
  have "heap_on (timer_less_than ?s1) (active_of T s) (timer_heap s, m)"
    using rH by (intro heap_outside [OF d(6) out]) (auto simp: timer_less_than_def)
  moreover have "ring m b []" if "b \<in> T" "b \<notin> active_of T s" for b
    using that r(2) ring_outside [OF out, of b "[]"] d(10) [of b] by auto
  moreover have "mapped m = mapped (node_mem s)" using out by (simp add: same_outside_def)
  ultimately have "timer_inv T r [] ?s1"
    unfolding timer_inv_def act using d(1-5) d(11) m(2) r by auto
  then show ?thesis using m(1) by (auto simp: on_nodes_def)
qed

text \<open>
  What a callback has to keep: the timers stay well formed, and of those that wait to be called some may be
  dropped. \<open>L\<close> is a record that the callbacks keep of themselves in the client's part of the loop.
\<close>

locale timer_callbacks =
  fixes cb :: "nat \<Rightarrow> nat \<Rightarrow> 'a uv_loop_scheme \<Rightarrow> 'a uv_loop_scheme outcome option"
    and T :: "nat set" and r :: nat and L :: "'a uv_loop_scheme \<Rightarrow> nat list"
  assumes cb_ok: "timer_inv T r rs s \<Longrightarrow> r \<noteq> 0 \<Longrightarrow> a \<in> T \<Longrightarrow> \<exists>s' rs'. cb c a s = Some (Ret s')
    \<and> timer_inv T r rs' s' \<and> subseq rs' rs \<and> L s' = L s @ [a]"
    and L_more: "uv_loop.more s' = uv_loop.more s \<Longrightarrow> L s' = L s"
begin

lemma call_next_ok:
  assumes inv: "timer_inv T r (a # rs) s" and r: "r \<noteq> 0"
  shows "\<exists>s' rs'. call_next cb r s = Some (Ret s') \<and> timer_inv T r rs' s' \<and> subseq rs' rs
    \<and> L s' = L s @ [a]"
proof -
  note d = timer_invD [OF inv]
  have a: "a \<in> T" using d(7) by auto
  obtain m where m: "obind (on_nodes (uv__queue_remove a) s) (on_nodes (uv__queue_init a)) = Ret (s\<lparr>node_mem := m\<rparr>)"
    "timer_inv T r rs (s\<lparr>node_mem := m\<rparr>)" using dequeue_timer_ok(2) [OF inv r] by blast
  then obtain s1 where s1: "on_nodes (uv__queue_remove a) s = Ret s1" "on_nodes (uv__queue_init a) s1 = Ret (s\<lparr>node_mem := m\<rparr>)"
    by auto
  let ?s2 = "s\<lparr>node_mem := m\<rparr>"
  have aR: "remove1 a rs = rs" using d(12) by (simp add: remove1_idem)
  obtain n s3 where g: "uv_timer_again a ?s2 = Some (Ret (n, s3))" "timer_inv T r rs s3" "uv_loop.more s3 = uv_loop.more s"
    "t_cb (timers s3 a) = t_cb (timers s a)"
    using again_ok [OF m(2) a] aR by (auto split: if_splits)
  obtain c where c: "t_cb (timers s a) = Some c" using d(11) [OF a] by auto
  obtain s' rs' where s': "cb c a s3 = Some (Ret s')" "timer_inv T r rs' s'" "subseq rs' rs"
    "L s' = L s @ [a]" using cb_ok [OF g(2) r a, of c] L_more [OF g(3)] by auto
  have "call_next cb r s = Some (Ret s')"
    using dequeue_timer_ok(1) [OF inv r] s1 g(1,4) c s'(1) by (simp add: call_next_def rbind_def)
  then show ?thesis using s' by blast
qed

lemma call_ready_ok:
  assumes "timer_inv T r rs s" and "r \<noteq> 0"
  shows "\<exists>s' fs. call_ready cb r s = Some (Ret s') \<and> timer_inv T r [] s' \<and> subseq fs rs
    \<and> L s' = L s @ fs"
  using assms
proof (induction "length rs" arbitrary: rs s rule: less_induct)
  case less
  have e: "uv__queue_empty r (node_mem s) = Ret (rs = [])"
    using queue_empty timer_invD(8) [OF less.prems(1)] less.prems(2) by blast
  show ?case
  proof (cases rs)
    case Nil
    then have "call_ready cb r s = Some (Ret s)" using e by (subst call_ready.simps) simp
    then show ?thesis using less.prems(1) Nil by auto
  next
    case (Cons a as)
    obtain s1 rs' where s1: "call_next cb r s = Some (Ret s1)" "timer_inv T r rs' s1" "subseq rs' as"
      "L s1 = L s @ [a]"
      using call_next_ok less.prems unfolding Cons by blast
    have "length rs' < length rs" using list_emb_length [OF s1(3)] Cons by simp
    from less.hyps [OF this s1(2) less.prems(2)] obtain s' fs where s': "call_ready cb r s1 = Some (Ret s')"
      "timer_inv T r [] s'" "subseq fs rs'" "L s' = L s1 @ fs" by blast
    have "call_ready cb r s = Some (Ret s')" using e Cons s1(1) s'(1) by (subst call_ready.simps) simp
    moreover have "subseq (a # fs) rs" using subseq_order.trans [OF s'(3) s1(3)] Cons by simp
    ultimately show ?thesis using s'(2,4) s1(4) by (intro exI [of _ s'] exI [of _ "a # fs"]) simp
  qed
qed

text \<open>The timers that are due are called in the order of their times and starts, each at most once.\<close>

lemma run_timers_ok:
  assumes inv: "timer_inv T 0 [] s" and r: "r \<noteq> 0" "r \<notin> T" "mapped (node_mem s) r"
  shows "\<exists>s' ds fs. uv__run_timers cb r s = Some (Ret s') \<and> timer_inv T r [] s'
    \<and> distinct ds \<and> set ds = due T s \<and> sorted_wrt (\<lambda>a b. \<not> timer_less_than s b a) ds
    \<and> subseq fs ds \<and> L s' = L s @ fs"
proof -
  obtain m where m: "on_nodes (uv__queue_init r) s = Ret (s\<lparr>node_mem := m\<rparr>)" and inv1: "timer_inv T r [] (s\<lparr>node_mem := m\<rparr>)"
    using ready_queue_init [OF assms] by blast
  let ?s1 = "s\<lparr>node_mem := m\<rparr>"
  obtain s2 ds where c: "collect_due r ?s1 = Some (Ret s2)" "timer_inv T r ([] @ ds) s2" "distinct ds" "set ds = due T ?s1"
    "sorted_wrt (\<lambda>a b. \<not> timer_less_than ?s1 b a) ds" "uv_loop.more s2 = uv_loop.more ?s1"
    using collect_due_ok [OF inv1 r(1)] by blast
  obtain s' fs where s': "call_ready cb r s2 = Some (Ret s')" "timer_inv T r [] s'" "subseq fs ds"
    "L s' = L s2 @ fs" using call_ready_ok [of ds s2] c(2) r(1) by auto
  have "uv__run_timers cb r s = Some (Ret s')"
    using m c(1) s'(1) by (simp add: uv__run_timers_def rbind_def)
  moreover have "due T ?s1 = due T s" by (simp add: due_def active_of_def)
  moreover have "timer_less_than ?s1 = timer_less_than s" by (simp add: timer_less_than_def fun_eq_iff)
  moreover have "L s2 = L s" using c(6) by (intro L_more) simp
  ultimately show ?thesis using c(3-5) s'(2-4) by auto
qed

end

section \<open>Callbacks that call the functions of timer.c\<close>

datatype timer_call =
    Call_start nat nat "64 word" "64 word"
  | Call_stop nat
  | Call_again nat
  | Call_set_repeat nat "64 word"

fun call_target :: "timer_call \<Rightarrow> nat" where
  "call_target (Call_start a c timeout rpt) = a"
| "call_target (Call_stop a) = a"
| "call_target (Call_again a) = a"
| "call_target (Call_set_repeat a rpt) = a"

fun do_call :: "timer_call \<Rightarrow> 'a uv_loop_scheme \<Rightarrow> (int \<times> 'a uv_loop_scheme) outcome option" where
  "do_call (Call_start a c timeout rpt) s = uv_timer_start a (Some c) timeout rpt s"
| "do_call (Call_stop a) s = uv_timer_stop a s"
| "do_call (Call_again a) s = uv_timer_again a s"
| "do_call (Call_set_repeat a rpt) s = Some (Ret (0, uv_timer_set_repeat a rpt s))"

fun do_calls :: "timer_call list \<Rightarrow> 'a uv_loop_scheme \<Rightarrow> 'a uv_loop_scheme outcome option" where
  "do_calls [] s = Some (Ret s)"
| "do_calls (k # ks) s = rbind (do_call k s) (\<lambda>(_, s1). do_calls ks s1)"

text \<open>The part of the loop that belongs to the client: the timers whose callbacks ran, in this order.\<close>

record traced_loop = uv_loop +
  fired :: "nat list"

definition scripted ::
  "(nat \<Rightarrow> nat \<Rightarrow> traced_loop \<Rightarrow> timer_call list) \<Rightarrow> nat \<Rightarrow> nat \<Rightarrow> traced_loop \<Rightarrow> traced_loop outcome option" where
  "scripted script c a s = (let s1 = s\<lparr>fired := fired s @ [a]\<rparr> in do_calls (script c a s1) s1)"

lemma set_repeat_ok: "timer_inv T r rs s \<Longrightarrow> timer_inv T r rs (uv_timer_set_repeat a rpt s)"
proof -
  assume inv: "timer_inv T r rs s"
  let ?s = "uv_timer_set_repeat a rpt s"
  have f: "timers ?s = (timers s)(a := (timers s a)\<lparr>t_repeat := rpt\<rparr>)" "node_mem ?s = node_mem s" "timer_heap ?s = timer_heap s"
    by (simp_all add: uv_timer_set_repeat_def set_timer_def)
  have x: "t_active (timers ?s b) = t_active (timers s b)" "t_cb (timers ?s b) = t_cb (timers s b)"
    "t_timeout (timers ?s b) = t_timeout (timers s b)" "t_start_id (timers ?s b) = t_start_id (timers s b)" for b
    by (simp_all add: f)
  have e1: "timer_less_than ?s = timer_less_than s" by (intro ext) (simp only: timer_less_than_def x)
  have e2: "active_of T ?s = active_of T s" by (simp only: active_of_def x)
  show ?thesis using inv unfolding timer_inv_def f(2,3) x e1 e2 .
qed

lemma do_call_ok:
  assumes inv: "timer_inv T r rs s" and k: "call_target k \<in> T"
  shows "\<exists>n s' rs'. do_call k s = Some (Ret (n, s')) \<and> timer_inv T r rs' s' \<and> subseq rs' rs
    \<and> uv_loop.more s' = uv_loop.more s"
proof -
  have sub: "subseq (remove1 x rs) rs" for x by (induction rs) auto
  show ?thesis
  proof (cases k)
    case (Call_start a c timeout rpt)
    show ?thesis
    proof (cases "uv__is_closing a s")
      case True
      then show ?thesis using inv Call_start by (auto simp: uv_timer_start_def)
    next
      case False
      then show ?thesis using start_ok [OF inv, of a c timeout rpt] sub [of a] k Call_start by auto
    qed
  next
    case (Call_stop a)
    then obtain h m where "do_call k s = Some (Ret (0, (stopped a s)\<lparr>timer_heap := h, node_mem := m\<rparr>))"
      "timer_inv T r (remove1 a rs) ((stopped a s)\<lparr>timer_heap := h, node_mem := m\<rparr>)"
      using stop_ok [OF inv, of a] k by auto
    then show ?thesis using sub [of a]
      by (intro exI [of _ 0] exI [of _ "(stopped a s)\<lparr>timer_heap := h, node_mem := m\<rparr>"] exI [of _ "remove1 a rs"]) simp
  next
    case (Call_again a)
    then show ?thesis using again_ok [OF inv, of a] sub [of a] k by (auto split: if_splits)
  next
    case (Call_set_repeat a rpt)
    then show ?thesis using set_repeat_ok [OF inv] by (auto simp: uv_timer_set_repeat_def set_timer_def)
  qed
qed

lemma do_calls_ok:
  "timer_inv T r rs s \<Longrightarrow> \<forall>k \<in> set ks. call_target k \<in> T \<Longrightarrow>
   \<exists>s' rs'. do_calls ks s = Some (Ret s') \<and> timer_inv T r rs' s' \<and> subseq rs' rs \<and> uv_loop.more s' = uv_loop.more s"
proof (induction ks arbitrary: s rs)
  case (Cons k ks)
  obtain n s1 rs1 where s1: "do_call k s = Some (Ret (n, s1))" "timer_inv T r rs1 s1" "subseq rs1 rs" "uv_loop.more s1 = uv_loop.more s"
    using do_call_ok [OF Cons.prems(1), of k] Cons.prems(2) by auto
  obtain s' rs' where "do_calls ks s1 = Some (Ret s')" "timer_inv T r rs' s'" "subseq rs' rs1" "uv_loop.more s' = uv_loop.more s1"
    using Cons.IH [OF s1(2)] Cons.prems(2) by auto
  then show ?case using s1 subseq_order.trans by (auto simp: rbind_def)
qed auto

lemma timer_inv_more: "timer_inv T r rs (s\<lparr>fired := x\<rparr>) = timer_inv T r rs s"
  by (simp add: timer_inv_def active_of_def timer_less_than_def [abs_def])

lemma fired_more: "uv_loop.more s' = uv_loop.more s \<Longrightarrow> fired s' = fired s" for s s' :: traced_loop
  by (cases s; cases s') simp

lemma scripted_ok:
  assumes "\<And>c a s. \<forall>k \<in> set (script c a s). call_target k \<in> T"
  shows "timer_callbacks (scripted script) T r fired"
proof unfold_locales
  fix rs a c and s :: traced_loop
  assume inv: "timer_inv T r rs s"
  let ?s1 = "s\<lparr>fired := fired s @ [a]\<rparr>"
  obtain s' rs' where s': "do_calls (script c a ?s1) ?s1 = Some (Ret s')" "timer_inv T r rs' s'" "subseq rs' rs" "uv_loop.more s' = uv_loop.more ?s1"
    using do_calls_ok [of T r rs ?s1] inv assms timer_inv_more by blast
  have "fired s' = fired s @ [a]" using fired_more [OF s'(4)] by simp
  then show "\<exists>s' rs'. scripted script c a s = Some (Ret s') \<and> timer_inv T r rs' s' \<and> subseq rs' rs \<and> fired s' = fired s @ [a]"
    using s' by (auto simp: scripted_def Let_def)
qed (rule fired_more)

text \<open>The callbacks of the modules of this program make no call to a timer: the logger's flush and the statistics.\<close>

interpretation plain_callbacks: timer_callbacks "scripted (\<lambda>_ _ _. [])" T r fired for T r
  by (rule scripted_ok) simp

text \<open>The clamp is addition that stops at the largest time.\<close>

lemma clamped_timeout_min: "uint (clamped_timeout now timeout) = min (2 ^ 64 - 1) (uint now + uint timeout)"
proof -
  have b: "uint now < 2 ^ 64" "uint timeout < 2 ^ 64" "0 \<le> uint now" "0 \<le> uint timeout"
    using uint_lt2p [of now] uint_lt2p [of timeout] by simp_all
  have sum: "uint (now + timeout) = (if uint now + uint timeout < 2 ^ 64 then uint now + uint timeout else uint now + uint timeout - 2 ^ 64)"
    using b by (auto simp: uint_plus_if_size word_size)
  have m: "uint (-1 :: 64 word) = 2 ^ 64 - 1" by (simp add: unsigned_minus_1_eq_mask mask_eq_exp_minus_1)
  show ?thesis using b unfolding clamped_timeout_def word_less_def sum by (auto simp: m min_def sum)
qed

text \<open>Callbacks that leave the timers alone: every timer that is queued is called, and set again if it repeats.\<close>

definition rearmed :: "'a uv_loop_scheme \<Rightarrow> nat \<Rightarrow> uv_timer \<Rightarrow> bool" where
  "rearmed s a t \<longleftrightarrow> (if t_repeat (timers s a) \<noteq> 0 \<and> \<not> uv__is_closing a s
     then t_active t \<and> t_timeout t = clamped_timeout (loop_time s) (t_repeat (timers s a)) else \<not> t_active t)"

lemma call_next_plain:
  assumes inv: "timer_inv T r (a # rs) s" and r: "r \<noteq> 0"
  shows "\<exists>s'. call_next (scripted (\<lambda>_ _ _. [])) r s = Some (Ret s') \<and> timer_inv T r rs s' \<and> fired s' = fired s @ [a]
    \<and> loop_time s' = loop_time s \<and> (\<forall>b. b \<noteq> a \<longrightarrow> timers s' b = timers s b) \<and> rearmed s a (timers s' a)"
proof -
  note d = timer_invD [OF inv]
  have a: "a \<in> T" "\<not> t_active (timers s a)" using d(7) by (auto simp: active_of_def)
  obtain m where m: "obind (on_nodes (uv__queue_remove a) s) (on_nodes (uv__queue_init a)) = Ret (s\<lparr>node_mem := m\<rparr>)"
    "timer_inv T r rs (s\<lparr>node_mem := m\<rparr>)" using dequeue_timer_ok(2) [OF inv r] by blast
  then obtain s1 where s1: "on_nodes (uv__queue_remove a) s = Ret s1" "on_nodes (uv__queue_init a) s1 = Ret (s\<lparr>node_mem := m\<rparr>)"
    by auto
  let ?s2 = "s\<lparr>node_mem := m\<rparr>"
  have aR: "remove1 a rs = rs" using d(12) by (simp add: remove1_idem)
  obtain c where c: "t_cb (timers s a) = Some c" using d(11) [OF a(1)] by auto
  have cl: "uv__is_closing a ?s2 = uv__is_closing a s" by (simp add: uv__is_closing_def)
  have "\<exists>n s3. uv_timer_again a ?s2 = Some (Ret (n, s3)) \<and> timer_inv T r rs s3 \<and> uv_loop.more s3 = uv_loop.more s
    \<and> loop_time s3 = loop_time s
    \<and> timers s3 = (timers s)(a := if t_repeat (timers s a) = 0 then timers s a
         else if uv__is_closing a s then (timers s a)\<lparr>t_active := False\<rparr>
         else (timers s a)\<lparr>t_active := True, t_timeout := clamped_timeout (loop_time s) (t_repeat (timers s a)),
                t_start_id := timer_counter s\<rparr>)"
    using again_ok [OF m(2) a(1)] aR c cl by (cases "t_repeat (timers s a) = 0"; cases "uv__is_closing a s") (simp_all, blast+)
  then obtain n s3 where g: "uv_timer_again a ?s2 = Some (Ret (n, s3))" "timer_inv T r rs s3" "uv_loop.more s3 = uv_loop.more s"
    "loop_time s3 = loop_time s"
    "timers s3 = (timers s)(a := if t_repeat (timers s a) = 0 then timers s a
         else if uv__is_closing a s then (timers s a)\<lparr>t_active := False\<rparr>
         else (timers s a)\<lparr>t_active := True, t_timeout := clamped_timeout (loop_time s) (t_repeat (timers s a)),
                t_start_id := timer_counter s\<rparr>)" by blast
  let ?s' = "s3\<lparr>fired := fired s3 @ [a]\<rparr>"
  have "t_cb (timers s3 a) = Some c" using g(5) c by simp
  then have "call_next (scripted (\<lambda>_ _ _. [])) r s = Some (Ret ?s')"
    using dequeue_timer_ok(1) [OF inv r] s1 g(1) by (simp add: call_next_def rbind_def scripted_def Let_def)
  moreover have "fired s3 = fired s" using fired_more g(3) by blast
  moreover have "rearmed s a (timers ?s' a)" using g(5) a(2) by (simp add: rearmed_def)
  ultimately show ?thesis using g(2,4,5) by (intro exI [of _ ?s']) (simp add: timer_inv_more)
qed

lemma call_ready_plain:
  assumes "timer_inv T r rs s" and "r \<noteq> 0"
  shows "\<exists>s'. call_ready (scripted (\<lambda>_ _ _. [])) r s = Some (Ret s') \<and> timer_inv T r [] s' \<and> fired s' = fired s @ rs
    \<and> loop_time s' = loop_time s \<and> (\<forall>a. a \<notin> set rs \<longrightarrow> timers s' a = timers s a) \<and> (\<forall>a \<in> set rs. rearmed s a (timers s' a))"
  using assms
proof (induction rs arbitrary: s)
  case Nil
  have "uv__queue_empty r (node_mem s) = Ret True" using queue_empty [OF timer_invD(8) [OF Nil]] by simp
  then have "call_ready (scripted (\<lambda>_ _ _. [])) r s = Some (Ret s)" by (subst call_ready.simps) simp
  then show ?case using Nil by simp
next
  case (Cons a rs)
  note d = timer_invD [OF Cons.prems(1)]
  have e: "uv__queue_empty r (node_mem s) = Ret False" using queue_empty [OF d(8) [OF Cons.prems(2)]] by simp
  obtain s1 where s1: "call_next (scripted (\<lambda>_ _ _. [])) r s = Some (Ret s1)" "timer_inv T r rs s1" "fired s1 = fired s @ [a]"
    "loop_time s1 = loop_time s" "\<And>b. b \<noteq> a \<Longrightarrow> timers s1 b = timers s b" "rearmed s a (timers s1 a)"
    using call_next_plain [OF Cons.prems] by blast
  obtain s' where s': "call_ready (scripted (\<lambda>_ _ _. [])) r s1 = Some (Ret s')" "timer_inv T r [] s'" "fired s' = fired s1 @ rs"
    "loop_time s' = loop_time s1" "\<And>a. a \<notin> set rs \<Longrightarrow> timers s' a = timers s1 a" "\<And>a. a \<in> set rs \<Longrightarrow> rearmed s1 a (timers s' a)"
    using Cons.IH [OF s1(2) Cons.prems(2)] by blast
  have "call_ready (scripted (\<lambda>_ _ _. [])) r s = Some (Ret s')" using e s1(1) s'(1) by (subst call_ready.simps) simp
  moreover have "rearmed s b (timers s' b)" if "b \<in> set rs" for b
  proof -
    have "b \<noteq> a" using that d(12) by auto
    then have "rearmed s1 b = rearmed s b" using s1(4) s1(5) [of b] by (simp add: rearmed_def uv__is_closing_def fun_eq_iff)
    then show ?thesis using s'(6) [OF that] by simp
  qed
  moreover have "a \<notin> set rs" using d(12) by simp
  ultimately show ?case using s'(2-5) s1(3-6) by (intro exI [of _ s']) auto
qed

text \<open>A loop with two timers in its heap: the one at 2 is due at 3, the one at 1 at 5 and then every 10; it is 7.\<close>

definition sample_timers :: "nat \<Rightarrow> uv_timer" where
  "sample_timers a = \<lparr>t_closing = False, t_closed = False, t_active = True, t_ref = True, t_cb = Some 0,
     t_timeout = (if a = 1 then 5 else 3), t_repeat = (if a = 1 then 10 else 0), t_start_id = (if a = 1 then 0 else 1)\<rparr>"

definition sample_loop :: traced_loop where
  "sample_loop = \<lparr>loop_time = 7, timer_counter = 2, timer_heap = \<lparr>h_min = 2, nelts = 2\<rparr>,
     node_mem = \<lparr>word0 = (\<lambda>a. if a = 2 then 1 else 0), word1 = (\<lambda>a. 0), word2 = (\<lambda>a. if a = 1 then 2 else 0), mapped = (\<lambda>a. True)\<rparr>,
     timers = sample_timers, active_handles = 2,
     handle_queue_mem = \<lparr>word0 = (\<lambda>a. 0), word1 = (\<lambda>a. 0), word2 = (\<lambda>a. 0), mapped = (\<lambda>a. False)\<rparr>, handle_queue = 0, fired = []\<rparr>"

lemma sample_active: "active_of {1, 2} sample_loop = {1, 2}"
  by (auto simp: active_of_def sample_loop_def sample_timers_def)

lemma sample_inv: "timer_inv {1, 2} 0 [] sample_loop"
proof -
  let ?A = "\<lambda>k :: nat. if k = 1 then 2 else if k = 2 then 1 else (0 :: nat)"
  have pos: "{1..2} = {1, 2::nat}" by auto
  have "heap_tree ?A 2 (timer_heap sample_loop, node_mem sample_loop)"
    unfolding heap_tree_def pos by (auto simp: sample_loop_def)
  moreover have "heap_ordered (timer_less_than sample_loop) ?A 2"
    by (auto simp: heap_ordered_def timer_less_than_def sample_loop_def sample_timers_def)
  moreover have "?A ` {1..2} = {1, 2}" unfolding pos by auto
  ultimately have "heap_on (timer_less_than sample_loop) {1, 2} (timer_heap sample_loop, node_mem sample_loop)"
    unfolding heap_on_def by blast
  then show ?thesis unfolding timer_inv_def sample_active by (auto simp: sample_loop_def sample_timers_def)
qed



text \<open>C34: When the callbacks leave the timers alone, as those of the modules do, running the timers calls exactly the timers that are due,
  each once, in the order of their times and starts. A repeating timer is then set to the loop's time plus its
  repeat value, cut at the largest time; a timer that does not repeat, or is being closed, is inactive; no other timer changes.\<close>

theorem due_timers_fire_once:
  assumes "timer_inv T 0 [] s" and "r \<noteq> 0" "r \<notin> T" "mapped (node_mem s) r"
  shows "\<exists>s' ds. uv__run_timers (scripted (\<lambda>_ _ _. [])) r s = Some (Ret s') \<and> fired s' = fired s @ ds
    \<and> distinct ds \<and> set ds = {a \<in> T. t_active (timers s a) \<and> t_timeout (timers s a) \<le> loop_time s}
    \<and> sorted_wrt (\<lambda>a b. (t_timeout (timers s a), t_start_id (timers s a)) \<le> (t_timeout (timers s b), t_start_id (timers s b))) ds
    \<and> (\<forall>a. a \<notin> set ds \<longrightarrow> timers s' a = timers s a)
    \<and> (\<forall>a \<in> set ds. if t_repeat (timers s a) \<noteq> 0 \<and> \<not> uv__is_closing a s
         then t_active (timers s' a) \<and> uint (t_timeout (timers s' a)) = min (2 ^ 64 - 1) (uint (loop_time s) + uint (t_repeat (timers s a)))
         else \<not> t_active (timers s' a))"
proof -
  obtain m where m: "on_nodes (uv__queue_init r) s = Ret (s\<lparr>node_mem := m\<rparr>)" and inv1: "timer_inv T r [] (s\<lparr>node_mem := m\<rparr>)"
    using ready_queue_init [OF assms] by blast
  let ?s1 = "s\<lparr>node_mem := m\<rparr>"
  obtain s2 ds where c: "collect_due r ?s1 = Some (Ret s2)" "timer_inv T r ([] @ ds) s2" "distinct ds" "set ds = due T ?s1"
    "sorted_wrt (\<lambda>a b. \<not> timer_less_than ?s1 b a) ds" "timers s2 = disarmed ds (timers ?s1)" "loop_time s2 = loop_time ?s1"
    "uv_loop.more s2 = uv_loop.more ?s1"
    using collect_due_ok [OF inv1 assms(2)] by blast
  obtain s' where s': "call_ready (scripted (\<lambda>_ _ _. [])) r s2 = Some (Ret s')" "fired s' = fired s2 @ ds"
    "\<And>a. a \<notin> set ds \<Longrightarrow> timers s' a = timers s2 a" "\<And>a. a \<in> set ds \<Longrightarrow> rearmed s2 a (timers s' a)"
    using call_ready_plain [of T r ds s2] c(2) assms(2) by auto
  have "uv__run_timers (scripted (\<lambda>_ _ _. [])) r s = Some (Ret s')"
    using m c(1) s'(1) by (simp add: uv__run_timers_def rbind_def)
  moreover have "fired s' = fired s @ ds" using s'(2) fired_more [OF c(8)] by simp
  moreover have "set ds = {a \<in> T. t_active (timers s a) \<and> t_timeout (timers s a) \<le> loop_time s}"
    using c(4) by (auto simp: due_def active_of_def)
  moreover have "\<not> timer_less_than ?s1 b a \<longleftrightarrow>
    (t_timeout (timers s a), t_start_id (timers s a)) \<le> (t_timeout (timers s b), t_start_id (timers s b))" for a b
    by (auto simp: timer_less_than_def less_eq_prod_def)
  moreover have "timers s' a = timers s a" if "a \<notin> set ds" for a using that s'(3) c(6) by (simp add: disarmed_def)
  moreover have "rearmed s a (timers s' a)" if "a \<in> set ds" for a
    using s'(4) [OF that] that c(6,7) by (simp add: rearmed_def disarmed_def uv__is_closing_def)
  ultimately show ?thesis using c(3,5) by (auto simp: rearmed_def clamped_timeout_min)
qed

theorem due_timers_fire_once_witness:
  "\<exists>s' ds. uv__run_timers (scripted (\<lambda>_ _ _. [])) 3 sample_loop = Some (Ret s') \<and> fired s' = ds
    \<and> distinct ds \<and> set ds = {1, 2} \<and> t_timeout (timers s' 1) = 17"
proof -
  have e: "{a \<in> {1, 2}. t_active (timers sample_loop a) \<and> t_timeout (timers sample_loop a) \<le> loop_time sample_loop} = {1, 2}"
    by (auto simp: sample_loop_def sample_timers_def)
  have r: "(3::nat) \<noteq> 0" "3 \<notin> {1, 2::nat}" "mapped (node_mem sample_loop) 3" by (auto simp: sample_loop_def)
  obtain s' ds where x: "uv__run_timers (scripted (\<lambda>_ _ _. [])) 3 sample_loop = Some (Ret s')" "fired s' = fired sample_loop @ ds"
    "distinct ds" "set ds = {1, 2}"
    "\<forall>a \<in> set ds. if t_repeat (timers sample_loop a) \<noteq> 0 \<and> \<not> uv__is_closing a sample_loop
         then t_active (timers s' a) \<and> uint (t_timeout (timers s' a)) = min (2 ^ 64 - 1) (uint (loop_time sample_loop) + uint (t_repeat (timers sample_loop a)))
         else \<not> t_active (timers s' a)"
    using due_timers_fire_once [OF sample_inv r] unfolding e by blast
  then have "uint (t_timeout (timers s' 1)) = 17"
    by (auto simp: sample_loop_def sample_timers_def uv__is_closing_def)
  then have "t_timeout (timers s' 1) = 17" by (simp add: word_uint_eq_iff)
  then show ?thesis using x by (auto simp: sample_loop_def)
qed

section \<open>How long the loop may sleep\<close>

lemma due_in_mono:
  "t_timeout (timers s a) \<le> t_timeout (timers s b) \<Longrightarrow> uint (uv_timer_get_due_in a s) \<le> uint (uv_timer_get_due_in b s)"
proof -
  assume le: "t_timeout (timers s a) \<le> t_timeout (timers s b)"
  have "loop_time s \<le> t \<Longrightarrow> uint (t - loop_time s) = uint t - uint (loop_time s)" for t :: "64 word"
    by (simp add: uint_sub_lem word_le_def)
  then show ?thesis using le by (auto simp: uv_timer_get_due_in_def word_le_def not_le)
qed

text \<open>C36: The time the loop may sleep in its poll is the time until the first active timer is due, cut
  at the largest \<^verbatim>\<open>int\<close>; it is 0 when a timer is due already and \<open>-1\<close>, which stands for no limit, exactly when no timer is active.\<close>

theorem next_timeout_is_first_due:
  assumes "timer_inv T r rs s"
  shows "uv__next_timeout s = (if active_of T s = {} then -1
    else min INT_MAX (Min ((\<lambda>a. uint (uv_timer_get_due_in a s)) ` active_of T s)))"
proof (cases "active_of T s = {}")
  case True
  then have "heap_min (timer_heap s) = 0" using timer_order.min_ok(1) [OF timer_invD(6) [OF assms]] by simp
  then show ?thesis using True by (simp add: uv__next_timeout_def)
next
  case False
  note h = timer_invD(6) [OF assms]
  let ?a = "heap_min (timer_heap s)"
  have a: "?a \<in> active_of T s" "\<And>x. x \<in> active_of T s \<Longrightarrow> \<not> timer_less_than s x ?a"
    using timer_order.min_ok(2) [OF h False] by auto
  have "?a \<noteq> 0" using a(1) heap_on_finite(3) [OF h] by metis
  have le: "t_timeout (timers s ?a) \<le> t_timeout (timers s x)" if "x \<in> active_of T s" for x
    using a(2) [OF that] by (auto simp: timer_less_than_def split: if_splits)
  have "Min ((\<lambda>a. uint (uv_timer_get_due_in a s)) ` active_of T s) = uint (uv_timer_get_due_in ?a s)"
  proof (rule Min_eqI)
    show "finite ((\<lambda>a. uint (uv_timer_get_due_in a s)) ` active_of T s)" using heap_on_finite(1) [OF h] by simp
    show "uint (uv_timer_get_due_in ?a s) \<le> y" if "y \<in> (\<lambda>a. uint (uv_timer_get_due_in a s)) ` active_of T s" for y
      using that le due_in_mono by auto
  qed (use a(1) in simp)
  moreover have "uv__next_timeout s = min INT_MAX (uint (uv_timer_get_due_in ?a s))"
    using \<open>?a \<noteq> 0\<close> by (auto simp: uv__next_timeout_def uv_timer_get_due_in_def Let_def INT_MAX_def)
  ultimately show ?thesis using False by simp
qed

theorem next_timeout_is_first_due_witness: "uv__next_timeout sample_loop = 0"
proof -
  have "uv_timer_get_due_in a sample_loop = 0" for a
    by (simp add: uv_timer_get_due_in_def sample_loop_def sample_timers_def)
  then show ?thesis using next_timeout_is_first_due [OF sample_inv] unfolding sample_active by (simp add: INT_MAX_def)
qed

section \<open>Setting up a timer\<close>

lemma timer_init_ok:
  assumes inv: "timer_inv T r rs s" and a: "a \<notin> T" "a \<noteq> r" "a \<noteq> 0" "mapped (node_mem s) a" and n: "Suc (card T) < 2 ^ 32 - 1"
    and q: "ring (handle_queue_mem s) (handle_queue s) hs" "a \<notin> set (handle_queue s # hs)" "mapped (handle_queue_mem s) a"
  shows "\<exists>s'. uv_timer_init a s = Ret (0, s') \<and> timer_inv (insert a T) r rs s' \<and> \<not> t_active (timers s' a)
    \<and> ring (handle_queue_mem s') (handle_queue s') (hs @ [a])"
proof -
  note d = timer_invD [OF inv]
  obtain qm where qm: "uv__queue_insert_tail (handle_queue s) a (handle_queue_mem s) = Ret qm"
    "ring qm (handle_queue s) (hs @ [a])" using queue_insert_tail [OF q(1,2) a(3) q(3)] by blast
  obtain m where m: "uv__queue_init a (node_mem s) = Ret m" "ring m a []" "only_at {a} (node_mem s) m"
    using queue_init [OF a(3,4)] by blast
  note out = only_at_outside [OF m(3)]
  let ?t = "(timers s a)\<lparr>t_closing := False, t_closed := False, t_active := False, t_ref := True, t_cb := None, t_timeout := 0, t_repeat := 0\<rparr>"
  let ?s' = "s\<lparr>timers := (timers s)(a := ?t), handle_queue_mem := qm, node_mem := m\<rparr>"
  have run: "uv_timer_init a s = Ret (0, ?s')"
    using qm(1) m(1) by (simp add: uv_timer_init_def set_timer_def on_nodes_def Let_def)
  have act: "active_of (insert a T) ?s' = active_of T s" using a(1) by (auto simp: active_of_def)
  have aH: "a \<notin> active_of T s" using a(1) active_of_sub [of T s] by auto
  have "heap_on (timer_less_than ?s') (active_of T s) (timer_heap s, m)"
    using aH by (intro heap_outside [OF d(6) out]) (auto simp: timer_less_than_def)
  moreover have aR: "a \<notin> set rs" using d(7) a(1) by auto
  moreover have "r \<noteq> 0 \<Longrightarrow> ring m r rs" using ring_outside [OF out, of r rs] d(8) aR a(2) by auto
  moreover have "ring m b []" if "b \<in> insert a T" "b \<notin> active_of T s" "b \<notin> set rs" for b
    using that m(2) ring_outside [OF out, of b "[]"] d(10) [of b] by (cases "b = a") auto
  moreover have "mapped m = mapped (node_mem s)" using out by (simp add: same_outside_def)
  ultimately have "timer_inv (insert a T) r rs ?s'"
    unfolding timer_inv_def act using d(1-5) d(7,9,11) a n by auto
  then show ?thesis using run qm(2) by auto
qed

end
