(* ===== verification/Uv_Inet6.thy ===== *)
theory Uv_Inet6
  imports Uv_Inet
begin

text \<open>
  Printing and reading of IPv6 addresses (\<open>inet_ntop6\<close> and \<open>inet_pton6\<close> of src/depend/libuv-1.48.0/src/inet.c, defined in
  \<^verbatim>\<open>Uv_Inet\<close>): reading what was printed gives the address back, through the abbreviation of a run of zeros and the dotted form of embedded
  IPv4 addresses.
\<close>

section \<open>Reading groups\<close>

definition group :: "nat \<Rightarrow> nat list" where
  "group w = [w div 256 mod 256, w mod 256]"

definition groups :: "nat list \<Rightarrow> nat list" where
  "groups ws = concat (map group ws)"

lemma groups_simps [simp]: "groups [] = []" "groups (w # ws) = group w @ groups ws" "groups (us @ ws) = groups us @ groups ws"
  by (simp_all add: groups_def)

lemma length_groups [simp]: "length (groups ws) = 2 * length ws"
  by (induction ws) (auto simp: group_def)

lemma groups_zeros: "groups (replicate n 0) = replicate (2 * n) 0"
  by (induction n) (auto simp: group_def)

lemma print_hex_length: "w < 65536 \<Longrightarrow> 1 \<le> length (print_hex w) \<and> length (print_hex w) \<le> 4"
  using print_hex_cases [of w] by (cases "w < 16"; cases "w < 256"; cases "w < 4096") auto

lemma pton6_hex:
  assumes "w < 65536"
  shows "pton6_loop (print_hex w @ rest) ct tp cp 0 0 = pton6_loop rest ct tp cp (length (print_hex w)) w"
proof -
  consider "w < 16" | "16 \<le> w" "w < 256" | "256 \<le> w" "w < 4096" | "4096 \<le> w" using assms by linarith
  then show ?thesis
  proof cases
    case 1
    then show ?thesis by (simp add: print_hex_cases hex_char_val)
  next
    case 2
    then have "w div 16 < 16" by linarith
    then show ?thesis using 2 by (simp add: print_hex_cases hex_char_val)
  next
    case 3
    then have "w div 256 < 16" by linarith
    moreover have "w div 256 * 16 + w div 16 mod 16 = w div 16" using div_mult2_eq [of w 16 16] by simp
    moreover have "(w div 256 * 16 + w div 16 mod 16) * 16 + w mod 16 = w" using calculation(2) by simp
    ultimately show ?thesis using 3 by (simp add: print_hex_cases hex_char_val)
  next
    case 4
    then have "w div 4096 < 16" using assms by linarith
    moreover have "w div 4096 * 16 + w div 256 mod 16 = w div 256" using div_mult2_eq [of w 256 16] by simp
    moreover have "w div 256 * 16 + w div 16 mod 16 = w div 16" using div_mult2_eq [of w 16 16] by simp
    moreover have "w div 16 * 16 + w mod 16 = w" by simp
    ultimately show ?thesis using 4 assms by (simp add: print_hex_cases hex_char_val)
  qed
qed

lemma pton6_group:
  assumes "w < 65536" and "rest \<noteq> []" and "length tp + 2 \<le> 16"
  shows "pton6_loop (print_hex w @ CHR '':'' # rest) ct tp cp 0 0 = pton6_loop rest rest (tp @ group w) cp 0 0"
proof -
  have "print_hex w \<noteq> []" using print_hex_length [OF assms(1)] by auto
  then show ?thesis using assms by (simp add: pton6_hex hex_val_special group_def)
qed

definition before_colons :: "nat list \<Rightarrow> string" where
  "before_colons ws = concat (map (\<lambda>w. print_hex w @ '':'') ws)"

lemma pton6_groups:
  assumes "\<forall>w \<in> set ws. w < 65536" and "rest \<noteq> []" and "length tp + 2 * length ws \<le> 16"
  shows "pton6_loop (before_colons ws @ rest) ct tp cp 0 0
    = pton6_loop rest (if ws = [] then ct else rest) (tp @ groups ws) cp 0 0"
  using assms
proof (induction ws arbitrary: ct tp)
  case (Cons w ws)
  let ?r = "before_colons ws @ rest"
  have "pton6_loop (print_hex w @ CHR '':'' # ?r) ct tp cp 0 0 = pton6_loop ?r ?r (tp @ group w) cp 0 0"
    using Cons.prems by (intro pton6_group) auto
  also have "\<dots> = pton6_loop rest rest ((tp @ group w) @ groups ws) cp 0 0"
    using Cons.IH [of "tp @ group w" ?r] Cons.prems by (cases ws) (auto simp: group_def before_colons_def)
  finally show ?case by (simp add: before_colons_def)
qed (simp add: before_colons_def)

text \<open>Groups to the end of the text.\<close>

definition joined :: "nat list \<Rightarrow> string" where
  "joined ws = before_colons (butlast ws) @ print_hex (last ws)"

lemma pton6_joined:
  assumes "ws \<noteq> []" and "\<forall>w \<in> set ws. w < 65536" and "length tp + 2 * length ws \<le> 18"
  shows "\<exists>n. pton6_loop (joined ws) ct tp cp 0 0 = Some (tp @ groups (butlast ws), cp, Suc n, last ws)"
proof -
  have last: "last ws < 65536" using assms by simp
  have ne: "print_hex (last ws) \<noteq> []" using print_hex_length [OF last] by auto
  have b: "\<forall>w \<in> set (butlast ws). w < 65536" using assms(2) in_set_butlastD by fast
  have l: "length tp + 2 * length (butlast ws) \<le> 16" using assms(1,3) by (cases ws rule: rev_cases) auto
  obtain n where n: "length (print_hex (last ws)) = Suc n" using ne by (cases "print_hex (last ws)") auto
  have "pton6_loop (print_hex (last ws) @ []) ct' tp' cp 0 0 = Some (tp', cp, Suc n, last ws)" for ct' tp'
    using pton6_hex [OF last, of "[]"] n by simp
  then show ?thesis using pton6_groups [OF b ne l] unfolding joined_def by simp
qed

lemma pton6_double_colon: "pton6_loop (CHR '':'' # rest) ct tp None 0 0 = pton6_loop rest rest tp (Some (length tp)) 0 0"
  by (simp add: hex_val_special)

text \<open>The digits of a decimal number count as hexadecimal digits until the dot is met.\<close>

lemma pton6_digits:
  "list_all is_digit ds \<Longrightarrow> seen + length ds \<le> 4 \<Longrightarrow>
   \<exists>v. pton6_loop (ds @ rest) ct tp cp seen val = pton6_loop rest ct tp cp (seen + length ds) v"
proof (induction ds arbitrary: seen val)
  case (Cons d ds)
  have "hex_val d = Some (digit_val d)" using Cons.prems(1) by (auto simp: is_digit_def hex_val_def digit_val_def lower_def)
  then show ?case using Cons.IH [of "Suc seen" "val * 16 + digit_val d"] Cons.prems by auto
qed auto

lemma pton6_dotted:
  assumes "length bs = 4" and "\<forall>b \<in> set bs. b < 256" and "length tp + 4 \<le> 16"
  shows "\<exists>v. pton6_loop (dotted bs) (dotted bs) tp cp 0 0 = Some (tp @ bs, cp, 0, v)"
proof -
  obtain a b c d where bs: "bs = [a, b, c, d]" using four_elements [OF assms(1)] by blast
  let ?rest = "print_nat b @ ''.'' @ print_nat c @ ''.'' @ print_nat d"
  have e: "dotted bs = print_nat a @ CHR ''.'' # ?rest" by (simp add: dotted_def bs)
  have "0 + length (print_nat a) \<le> 4" using length_print_byte [of a] assms(2) bs by simp
  from pton6_digits [OF print_nat_digits this] obtain v where
    "pton6_loop (print_nat a @ CHR ''.'' # ?rest) (dotted bs) tp cp 0 0 = pton6_loop (CHR ''.'' # ?rest) (dotted bs) tp cp (0 + length (print_nat a)) v"
    by blast
  moreover have "pton6_loop (CHR ''.'' # ?rest) (dotted bs) tp cp n v = Some (tp @ bs, cp, 0, v)" for n
    using pton4_dotted [OF assms(1,2)] assms(3) by (simp add: hex_val_special)
  ultimately show ?thesis using e by auto
qed

section \<open>Printing groups\<close>

definition after_colons :: "nat list \<Rightarrow> string" where
  "after_colons ws = concat (map (\<lambda>w. CHR '':'' # print_hex w) ws)"

lemma after_colons_joined: "ws \<noteq> [] \<Longrightarrow> after_colons ws = CHR '':'' # joined ws"
proof (induction ws)
  case (Cons w ws)
  then show ?case by (cases ws) (auto simp: after_colons_def joined_def before_colons_def)
qed simp

lemma joined_colon: "ws \<noteq> [] \<Longrightarrow> joined ws @ '':'' = before_colons ws"
  by (cases ws rule: rev_cases) (auto simp: joined_def before_colons_def)

lemma after_colons_length: "\<forall>w \<in> set ws. w < 65536 \<Longrightarrow> length (after_colons ws) \<le> 5 * length ws"
proof (induction ws)
  case (Cons w ws)
  then show ?case using print_hex_length [of w] by (auto simp: after_colons_def)
qed (simp add: after_colons_def)

text \<open>Words outside of the run that is left out, and not where an IPv4 address begins.\<close>

definition outside_run :: "int \<times> nat \<Rightarrow> nat \<Rightarrow> nat \<Rightarrow> bool" where
  "outside_run best i j \<longleftrightarrow> fst best = -1 \<or> int j \<le> fst best \<or> fst best + int (snd best) \<le> int i"

definition ipv4_at :: "nat list \<Rightarrow> int \<times> nat \<Rightarrow> nat \<Rightarrow> bool" where
  "ipv4_at words best i \<longleftrightarrow> i = 6 \<and> fst best = 0 \<and> (snd best = 6 \<or> (snd best = 7 \<and> words ! 7 \<noteq> 1) \<or> (snd best = 5 \<and> words ! 5 = 65535))"

lemma format6_after:
  assumes "outside_run best i (i + length ws)" and "i \<noteq> 0" and "\<forall>k \<in> {i..<i + length ws}. \<not> ipv4_at words best k"
    and "\<forall>w \<in> set ws. w < 65536" and "length tp + 5 * length ws < INET6_ADDRSTRLEN"
  shows "format6 src words best i (ws @ rest) tp = format6 src words best (i + length ws) rest (tp @ after_colons ws)"
  using assms
proof (induction ws arbitrary: i tp)
  case Nil
  then show ?case by (simp add: after_colons_def)
next
  case (Cons w ws)
  have h: "length (print_hex w) \<le> 4" using print_hex_length [of w] Cons.prems(4) by simp
  have out: "\<not> (fst best \<noteq> -1 \<and> fst best \<le> int i \<and> int i < fst best + int (snd best))"
    using Cons.prems(1) by (auto simp: outside_run_def)
  have v4: "\<not> (i = 6 \<and> fst best = 0 \<and> (snd best = 6 \<or> (snd best = 7 \<and> words ! 7 \<noteq> 1) \<or> (snd best = 5 \<and> words ! 5 = 65535)))"
    using Cons.prems(3) by (auto simp: ipv4_at_def)
  have p1: "put_tmp tp '':'' = Ret (tp @ '':'')" "put_tmp (tp @ '':'') (print_hex w) = Ret (tp @ CHR '':'' # print_hex w)"
    using Cons.prems(5) h by (simp_all add: put_tmp_def)
  have "format6 src words best i ((w # ws) @ rest) tp = format6 src words best (Suc i) (ws @ rest) (tp @ CHR '':'' # print_hex w)"
    using out v4 p1 Cons.prems(2) by (simp only: format6.simps append_Cons if_False obind.simps) simp
  also have "\<dots> = format6 src words best (Suc i + length ws) rest ((tp @ CHR '':'' # print_hex w) @ after_colons ws)"
    using Cons.prems h by (intro Cons.IH) (auto simp: outside_run_def)
  finally show ?case by (simp add: after_colons_def)
qed

lemma format6_joined:
  assumes "outside_run best 0 (length ws)" and "\<forall>k \<in> {0..<length ws}. \<not> ipv4_at words best k"
    and "\<forall>w \<in> set ws. w < 65536" and "5 * length ws < INET6_ADDRSTRLEN"
  shows "format6 src words best 0 (ws @ rest) [] = format6 src words best (length ws) rest (if ws = [] then [] else joined ws)"
proof (cases ws)
  case (Cons w us)
  have h: "length (print_hex w) \<le> 4" using print_hex_length [of w] assms(3) Cons by simp
  have out: "\<not> (fst best \<noteq> -1 \<and> fst best \<le> int 0 \<and> int 0 < fst best + int (snd best))"
    using assms(1) Cons by (auto simp: outside_run_def)
  have p: "put_tmp [] (print_hex w) = Ret (print_hex w)" using h by (simp add: put_tmp_def INET6_ADDRSTRLEN_def)
  have "format6 src words best 0 (ws @ rest) [] = format6 src words best 1 (us @ rest) (print_hex w)"
    using out p unfolding Cons by (simp only: format6.simps append_Cons if_False obind.simps) simp
  also have "\<dots> = format6 src words best (1 + length us) rest (print_hex w @ after_colons us)"
    using assms Cons h by (intro format6_after) (auto simp: outside_run_def)
  also have "print_hex w @ after_colons us = joined ws"
    unfolding Cons by (cases "us = []")
      (simp add: joined_def before_colons_def after_colons_def, simp add: after_colons_joined joined_def before_colons_def)
  finally show ?thesis by (simp add: Cons)
qed simp

lemma format6_skip:
  assumes "fst best = int b" and "b < i" and "i + n = b + snd best"
  shows "format6 src words best i (replicate n 0 @ rest) tp = format6 src words best (i + n) rest tp"
  using assms
proof (induction n arbitrary: i)
  case (Suc n)
  have "format6 src words best i (replicate (Suc n) 0 @ rest) tp = format6 src words best (Suc i) (replicate n 0 @ rest) tp"
    using Suc.prems by simp
  also have "\<dots> = format6 src words best (Suc i + n) rest tp" using Suc.prems by (intro Suc.IH) auto
  finally show ?case by simp
qed simp

lemma format6_run:
  assumes "fst best = int b" and "snd best = Suc n" and "length tp + 1 < INET6_ADDRSTRLEN"
  shows "format6 src words best b (replicate (Suc n) 0 @ rest) tp = format6 src words best (b + Suc n) rest (tp @ '':'')"
proof -
  have "format6 src words best b (replicate (Suc n) 0 @ rest) tp = format6 src words best (Suc b) (replicate n 0 @ rest) (tp @ '':'')"
    using assms by (simp add: put_tmp_def)
  also have "\<dots> = format6 src words best (Suc b + n) rest (tp @ '':'')"
    using assms by (intro format6_skip [of best b]) auto
  finally show ?thesis by simp
qed

section \<open>The run that is left out\<close>

text \<open>A run of zeros among the words before \<open>i\<close>.\<close>

definition run_before :: "nat list \<Rightarrow> nat \<Rightarrow> int \<times> nat \<Rightarrow> bool" where
  "run_before ws i r \<longleftrightarrow> fst r = -1 \<or> (\<exists>b. fst r = int b \<and> 1 \<le> snd r \<and> b + snd r \<le> i \<and> (\<forall>k. b \<le> k \<longrightarrow> k < b + snd r \<longrightarrow> ws ! k = 0))"

definition run_to :: "nat list \<Rightarrow> nat \<Rightarrow> int \<times> nat \<Rightarrow> bool" where
  "run_to ws i r \<longleftrightarrow> fst r = -1 \<or> (\<exists>b. fst r = int b \<and> 1 \<le> snd r \<and> b + snd r = i \<and> (\<forall>k. b \<le> k \<longrightarrow> k < b + snd r \<longrightarrow> ws ! k = 0))"

lemma run_to_before: "run_to ws i r \<Longrightarrow> run_before ws i r"
  by (auto simp: run_to_def run_before_def)

lemma run_before_mono: "run_before ws i r \<Longrightarrow> i \<le> j \<Longrightarrow> run_before ws j r"
  unfolding run_before_def by (meson le_trans)

lemma zero_runs_ok:
  assumes "run_before ws i best" and "run_to ws i cur" and "drop i ws = vs" and "i \<le> length ws"
  shows "run_before ws (length ws) (fst (zero_runs vs i best cur)) \<and> run_to ws (length ws) (snd (zero_runs vs i best cur))"
  using assms
proof (induction vs i best cur rule: zero_runs.induct)
  case (1 i best cur)
  then have "i = length ws" by simp
  then show ?case using 1 by simp
next
  case (2 w vs i best cur)
  have i: "i < length ws" using "2.prems"(3) by (metis drop_eq_Nil list.distinct(1) not_le)
  have w: "ws ! i = w" using "2.prems"(3) by (rule nth_via_drop)
  have vs: "drop (Suc i) ws = vs" using "2.prems"(3) by (simp add: drop_Suc flip: tl_drop)
  have b: "run_before ws (Suc i) best" using run_before_mono [OF "2.prems"(1)] by simp
  have c: "run_before ws (Suc i) cur" using run_before_mono [OF run_to_before [OF "2.prems"(2)]] by simp
  show ?case
  proof (cases "w = 0")
    case True
    let ?c = "if fst cur = -1 then (int i, 1) else (fst cur, snd cur + 1)"
    have "run_to ws (Suc i) ?c"
      using "2.prems"(2) True w by (auto simp: run_to_def less_Suc_eq)
    then show ?thesis using "2.IH"(1) [OF True b] vs i True by simp
  next
    case False
    show ?thesis
    proof (cases "fst cur = -1")
      case True
      then have "run_to ws (Suc i) cur" by (simp add: run_to_def)
      then show ?thesis using "2.IH"(3) [OF False _ b] True vs i False by simp
    next
      case nc: False
      let ?b = "if fst best = -1 \<or> snd best < snd cur then cur else best"
      have "run_before ws (Suc i) ?b" using b c by simp
      moreover have "run_to ws (Suc i) (-1, snd cur)" by (simp add: run_to_def)
      ultimately show ?thesis using "2.IH"(2) [OF False nc] vs i False nc by simp
    qed
  qed
qed

lemma best_run_ok:
  assumes "best_run ws = (b, l)"
  shows "b = -1 \<or> (\<exists>n us vs. b = int n \<and> 2 \<le> l \<and> length us = n \<and> ws = us @ replicate l 0 @ vs)"
proof (cases "b = -1")
  case False
  obtain best cur where z: "zero_runs ws 0 (-1, 0) (-1, 0) = (best, cur)" by (metis surj_pair)
  have "run_before ws (length ws) best \<and> run_to ws (length ws) cur"
    using zero_runs_ok [of ws 0 "(-1, 0)" "(-1, 0)" ws] z by (simp add: run_before_def run_to_def)
  then have "run_before ws (length ws) best" "run_before ws (length ws) cur" using run_to_before by auto
  then have "run_before ws (length ws) (b, l) \<and> 2 \<le> l"
    using assms z False by (auto simp: best_run_def Let_def split: if_splits)
  then obtain n where n: "b = int n" "2 \<le> l" "n + l \<le> length ws" "\<And>k. n \<le> k \<Longrightarrow> k < n + l \<Longrightarrow> ws ! k = 0"
    using False by (auto simp: run_before_def)
  have "take l (drop n ws) = replicate l 0" using n(3,4) by (intro nth_equalityI) auto
  then have "ws = take n ws @ replicate l 0 @ drop (n + l) ws"
    using append_take_drop_id [of n ws] append_take_drop_id [of l "drop n ws"] by (simp add: add.commute)
  moreover have "length (take n ws) = n" using n(3) by simp
  ultimately show ?thesis using n(1,2) by blast
qed simp

section \<open>Round trip\<close>

lemma words_of_length [simp]: "length (words_of bs) = 8"
  by (simp add: words_of_def)

lemma words_of_bound: "length bs = 16 \<Longrightarrow> \<forall>b \<in> set bs. b < 256 \<Longrightarrow> w \<in> set (words_of bs) \<Longrightarrow> w < 65536"
proof -
  assume l: "length bs = 16" and b: "\<forall>b \<in> set bs. b < 256" and w: "w \<in> set (words_of bs)"
  from w obtain i where i: "i < 8" "w = bs ! (2 * i) * 256 + bs ! (2 * i + 1)" by (auto simp: words_of_def)
  have "bs ! (2 * i) < 256" "bs ! (2 * i + 1) < 256" using l b i by auto
  then show ?thesis using i(2) by linarith
qed

lemma sixteen_elements: "length bs = 16 \<Longrightarrow> bs = map ((!) bs) [0, 1, 2, 3, 4, 5, 6, 7, 8, 9, 10, 11, 12, 13, 14, 15]"
proof -
  assume "length bs = 16"
  moreover have "[0..<16] = [0, 1, 2, 3, 4, 5, 6, 7, 8, 9, 10, 11, 12, 13, 14, 15::nat]" by (simp add: upt_rec)
  ultimately show ?thesis using map_nth [of bs] by simp
qed

lemma groups_words_of:
  assumes l: "length bs = 16" and b: "\<forall>b \<in> set bs. b < 256"
  shows "groups (words_of bs) = bs"
proof -
  have u: "[0..<8] = [0, 1, 2, 3, 4, 5, 6, 7::nat]" by (simp add: upt_rec)
  have lt: "bs ! i < 256" if "i < 16" for i using that l b by simp
  have g: "group (bs ! i * 256 + bs ! j) = [bs ! i, bs ! j]" if "i < 16" "j < 16" for i j
    using lt [OF that(1)] lt [OF that(2)] by (simp add: group_def)
  have "groups (words_of bs) = map ((!) bs) [0, 1, 2, 3, 4, 5, 6, 7, 8, 9, 10, 11, 12, 13, 14, 15]"
    by (simp add: words_of_def u g)
  then show ?thesis using sixteen_elements [OF l] by simp
qed

text \<open>Reading the three forms.\<close>

lemma hex_head: "w < 65536 \<Longrightarrow> \<exists>c cs. print_hex w = c # cs \<and> c \<noteq> CHR '':''"
proof -
  assume w: "w < 65536"
  have "print_hex w \<noteq> []" using print_hex_length [OF w] by auto
  then obtain c cs where c: "print_hex w = c # cs" by (cases "print_hex w") auto
  have "hex_val (hd (print_hex w)) \<noteq> None"
    using print_hex_cases [of w] w by (cases "w < 16"; cases "w < 256"; cases "w < 4096") (auto simp: hex_char_val)
  then show ?thesis using c hex_val_special by auto
qed

lemma pton6_plain:
  assumes "length ws = 8" and "\<forall>w \<in> set ws. w < 65536"
  shows "inet_pton6 (joined ws) = (0, groups ws)"
proof -
  have ne: "ws \<noteq> []" using assms(1) by auto
  obtain n where n: "pton6_loop (joined ws) (joined ws) [] None 0 0 = Some ([] @ groups (butlast ws), None, Suc n, last ws)"
    using pton6_joined [OF ne assms(2), of "[]"] assms(1) by auto
  obtain v vs where v: "ws = v # vs" using ne by (cases ws) auto
  have h: "hd (joined ws) \<noteq> CHR '':''"
    using hex_head [of v] assms(2) v by (cases vs) (auto simp: joined_def before_colons_def)
  have "groups (butlast ws) @ group (last ws) = groups ws"
    using ne by (cases ws rule: rev_cases) simp_all
  then have "pton6_finish (groups (butlast ws), None, Suc n, last ws) = (0, groups ws)"
    using assms(1) by (simp add: pton6_finish_def group_def Let_def)
  then show ?thesis using h n by (simp add: inet_pton6_def Let_def)
qed

text \<open>A text with a double colon: the groups before it, and what the parser makes of the rest.\<close>

lemma pton6_abbreviated:
  assumes us: "\<forall>w \<in> set us. w < 65536" "length us \<le> 7"
    and rest: "pton6_loop rest rest (groups us) (Some (2 * length us)) 0 0 = Some st"
    and tx: "s = (if us = [] then '':'' else before_colons us) @ CHR '':'' # rest"
  shows "inet_pton6 s = pton6_finish st"
proof (cases "us = []")
  case True
  have "pton6_loop (CHR '':'' # rest) (CHR '':'' # rest) [] None 0 0 = Some st"
    using rest True pton6_double_colon [of rest _ "[]"] by simp
  then show ?thesis using True tx by (simp add: inet_pton6_def Let_def del: pton6_loop.simps)
next
  case False
  obtain v vs where v: "us = v # vs" using False by (cases us) auto
  have h: "s \<noteq> []" "hd s \<noteq> CHR '':''"
    using hex_head [of v] us(1) v tx by (auto simp: before_colons_def)
  have "pton6_loop s s [] None 0 0 = pton6_loop (CHR '':'' # rest) (CHR '':'' # rest) ([] @ groups us) None 0 0"
    using pton6_groups [of us "CHR '':'' # rest" "[]" s None] us False tx by simp
  also have "\<dots> = Some st" using rest pton6_double_colon [of rest _ "groups us"] by (simp del: pton6_loop.simps)
  finally show ?thesis using h by (simp add: inet_pton6_def Let_def)
qed

lemma joined_length: "ws \<noteq> [] \<Longrightarrow> \<forall>w \<in> set ws. w < 65536 \<Longrightarrow> length (joined ws) + 1 \<le> 5 * length ws"
  using after_colons_length [of ws] by (simp add: after_colons_joined)

text \<open>The text for a run, without and with an IPv4 address at the end.\<close>

definition head6 :: "nat list \<Rightarrow> string" where
  "head6 us = (if us = [] then [] else joined us)"

lemma head6_colon: "head6 us @ '':'' = (if us = [] then '':'' else before_colons us)"
  by (simp add: head6_def joined_colon)

lemma head6_length: "\<forall>w \<in> set us. w < 65536 \<Longrightarrow> length (head6 us) \<le> 5 * length us"
  using joined_length [of us] by (auto simp: head6_def)

lemma format6_to_run:
  assumes W: "W = us @ replicate (Suc l) 0 @ vs" "length W = 8" "\<forall>w \<in> set W. w < 65536"
  shows "format6 src W (int (length us), Suc l) 0 W [] = format6 src W (int (length us), Suc l) (length us + Suc l) vs (head6 us @ '':'')"
proof -
  let ?best = "(int (length us), Suc l)"
  have us: "\<forall>w \<in> set us. w < 65536" "length us + Suc l + length vs = 8" using W by auto
  have "format6 src W ?best 0 (us @ replicate (Suc l) 0 @ vs) []
      = format6 src W ?best (length us) (replicate (Suc l) 0 @ vs) (if us = [] then [] else joined us)"
    using us by (intro format6_joined) (auto simp: outside_run_def ipv4_at_def INET6_ADDRSTRLEN_def)
  also have "\<dots> = format6 src W ?best (length us + Suc l) vs (head6 us @ '':'')"
    using head6_length [OF us(1)] us(2)
    by (subst format6_run [of ?best "length us" l]) (auto simp: head6_def INET6_ADDRSTRLEN_def)
  finally show ?thesis using W(1) by simp
qed

text \<open>From the output of the loop to the result.\<close>

lemma ntop6_from_format:
  assumes "format6 src (words_of src) (best_run (words_of src)) 0 (words_of src) [] = Ret (0, tp)"
    and "s = tp @ (if fst (best_run (words_of src)) \<noteq> -1 \<and> fst (best_run (words_of src)) + int (snd (best_run (words_of src))) = 8 then '':'' else [])"
    and "length s < INET6_ADDRSTRLEN"
  shows "inet_ntop6 src INET6_ADDRSTRLEN = Ret (0, Some s)"
  using assms strscpy_fits [OF assms(3)] by (auto simp: inet_ntop6_def Let_def put_tmp_def)

lemma ntop6_plain:
  assumes "\<forall>w \<in> set (words_of bs). w < 65536" and "fst (best_run (words_of bs)) = -1"
  shows "inet_ntop6 bs INET6_ADDRSTRLEN = Ret (0, Some (joined (words_of bs)))"
proof (rule ntop6_from_format)
  let ?W = "words_of bs"
  have ne: "?W \<noteq> []" using words_of_length [of bs] by (metis list.size(3) zero_neq_numeral)
  have "format6 bs ?W (best_run ?W) 0 (?W @ []) [] = format6 bs ?W (best_run ?W) (length ?W) [] (if ?W = [] then [] else joined ?W)"
    using assms by (intro format6_joined) (auto simp: outside_run_def ipv4_at_def INET6_ADDRSTRLEN_def)
  then show "format6 bs ?W (best_run ?W) 0 ?W [] = Ret (0, joined ?W)" using ne by simp
  show "length (joined ?W) < INET6_ADDRSTRLEN" using joined_length [OF ne assms(1)] by (simp add: INET6_ADDRSTRLEN_def)
qed (use assms in simp)

lemma ntop6_run:
  assumes W: "words_of bs = us @ replicate (Suc l) 0 @ vs" "\<forall>w \<in> set (words_of bs). w < 65536"
    and best: "best_run (words_of bs) = (int (length us), Suc l)"
    and v4: "\<forall>k \<in> {length us + Suc l..<8}. \<not> ipv4_at (words_of bs) (int (length us), Suc l) k"
  shows "inet_ntop6 bs INET6_ADDRSTRLEN = Ret (0, Some (head6 us @ ''::'' @ (if vs = [] then [] else joined vs)))"
proof (rule ntop6_from_format)
  let ?W = "words_of bs" and ?best = "(int (length us), Suc l)"
  have len: "length us + Suc l + length vs = 8" using W(1) words_of_length [of bs] by simp
  have b: "\<forall>w \<in> set us. w < 65536" "\<forall>w \<in> set vs. w < 65536" using W by auto
  have "format6 bs ?W ?best (length us + Suc l) (vs @ []) (head6 us @ '':'')
      = format6 bs ?W ?best (length us + Suc l + length vs) [] ((head6 us @ '':'') @ after_colons vs)"
    using v4 b len head6_length [OF b(1)] by (intro format6_after) (auto simp: outside_run_def INET6_ADDRSTRLEN_def)
  then show "format6 bs ?W (best_run ?W) 0 ?W [] = Ret (0, head6 us @ '':'' @ after_colons vs)"
    using format6_to_run [OF W(1) words_of_length W(2)] best by simp
  show "head6 us @ ''::'' @ (if vs = [] then [] else joined vs) = (head6 us @ '':'' @ after_colons vs) @
      (if fst (best_run ?W) \<noteq> -1 \<and> fst (best_run ?W) + int (snd (best_run ?W)) = 8 then '':'' else [])"
  proof (cases "vs = []")
    case True
    then have "int (length us) + int (Suc l) = 8" using len by simp
    then show ?thesis using True best by (simp add: after_colons_def)
  next
    case False
    then have "0 < length vs" by simp
    then have "int (length us) + int (Suc l) \<noteq> 8" using len by linarith
    then show ?thesis using False best by (simp add: after_colons_joined)
  qed
  show "length (head6 us @ ''::'' @ (if vs = [] then [] else joined vs)) < INET6_ADDRSTRLEN"
    using head6_length [OF b(1)] joined_length [OF _ b(2)] len by (cases "vs = []") (auto simp: INET6_ADDRSTRLEN_def)
qed

lemma pton6_run:
  assumes W: "W = us @ replicate (Suc l) 0 @ vs" "length W = 8" "\<forall>w \<in> set W. w < 65536"
  shows "inet_pton6 (head6 us @ ''::'' @ (if vs = [] then [] else joined vs)) = (0, groups W)"
proof -
  have len: "length us + Suc l + length vs = 8" using W by simp
  have b: "\<forall>w \<in> set us. w < 65536" "\<forall>w \<in> set vs. w < 65536" using W by auto
  have tx: "head6 us @ ''::'' @ R = (if us = [] then '':'' else before_colons us) @ CHR '':'' # R" for R
    using head6_colon [of us, symmetric] by simp
  have zeros: "groups (replicate (Suc l) 0) = replicate (16 - (2 * length us + 2 * length vs)) 0"
    using len by (simp only: groups_zeros) (intro arg_cong [of _ _ "\<lambda>n. replicate n 0"], simp)
  show ?thesis
  proof (cases "vs = []")
    case True
    have "inet_pton6 (head6 us @ ''::'' @ []) = pton6_finish (groups us, Some (2 * length us), 0, 0)"
      using pton6_abbreviated [OF b(1) _ _ tx [of "[]"]] len by simp
    also have "\<dots> = (0, groups W)" using len True W(1) zeros by (simp add: pton6_finish_def del: replicate_Suc)
    finally show ?thesis using True by simp
  next
    case False
    obtain n where n: "pton6_loop (joined vs) (joined vs) (groups us) (Some (2 * length us)) 0 0
        = Some (groups us @ groups (butlast vs), Some (2 * length us), Suc n, last vs)"
      using pton6_joined [OF False b(2), of "groups us"] len by auto
    have g: "groups (butlast vs) @ group (last vs) = groups vs"
      using False by (cases vs rule: rev_cases) simp_all
    have "inet_pton6 (head6 us @ ''::'' @ joined vs)
        = pton6_finish (groups us @ groups (butlast vs), Some (2 * length us), Suc n, last vs)"
      using pton6_abbreviated [OF b(1) _ n tx] len by simp
    also have "\<dots> = (0, groups us @ replicate (16 - (2 * length us + 2 * length vs)) 0 @ groups vs)"
    proof -
      have "groups us @ groups (butlast vs) @ [last vs div 256 mod 256, last vs mod 256] = groups us @ groups vs"
        using g by (simp add: group_def)
      then show ?thesis using len False by (cases vs rule: rev_cases) (auto simp: pton6_finish_def Let_def)
    qed
    also have "\<dots> = (0, groups W)" using W(1) zeros by simp
    finally show ?thesis using False by simp
  qed
qed

text \<open>An IPv4 address in the last four bytes, after \<open>::\<close> or \<open>::ffff:\<close>.\<close>

lemma format6_ipv4:
  assumes "ipv4_at W best 6" and "fst best + int (snd best) \<le> 6" and "length bs = 16" "\<forall>b \<in> set bs. b < 256"
    and "length tp \<le> 20"
  shows "format6 bs W best 6 (w # ws) tp = Ret (0, tp @ CHR '':'' # dotted (drop 12 bs))"
proof -
  have D: "length (drop 12 bs) = 4" "\<forall>b \<in> set (drop 12 bs). b < 256" using assms(3,4) by (auto dest: in_set_dropD)
  have "inet_ntop4 (drop 12 bs) (INET6_ADDRSTRLEN - length (tp @ '':'')) = (0, Some (dotted (drop 12 bs)))"
    using dotted_length(2) [OF D] assms(5) by (intro ntop4_ok [OF D]) (simp add: INET6_ADDRSTRLEN_def)
  moreover have "put_tmp tp '':'' = Ret (tp @ '':'')" using assms(5) by (simp add: put_tmp_def INET6_ADDRSTRLEN_def)
  moreover have "\<not> (fst best \<noteq> -1 \<and> fst best \<le> int 6 \<and> int 6 < fst best + int (snd best))" using assms(2) by auto
  moreover have "6 = 6 \<and> fst best = 0 \<and> (snd best = 6 \<or> (snd best = 7 \<and> W ! 7 \<noteq> 1) \<or> (snd best = 5 \<and> W ! 5 = 65535))"
    using assms(1) by (simp add: ipv4_at_def)
  ultimately show ?thesis by (simp only: format6.simps if_False if_True obind.simps) simp
qed

lemma ipv4_words:
  assumes "length bs = 16" "\<forall>b \<in> set bs. b < 256" and "words_of bs = us @ [v, w]"
  shows "drop 12 bs = groups [v, w]"
proof -
  have "length us = 6" using assms(3) words_of_length [of bs] by simp
  then have "drop 12 (groups (words_of bs)) = groups [v, w]" unfolding assms(3) by simp
  then show ?thesis using groups_words_of [OF assms(1,2)] by simp
qed

lemma pton6_ipv4:
  assumes "length bs = 16" "\<forall>b \<in> set bs. b < 256" and "words_of bs = replicate 6 0 @ [v, w]"
  shows "inet_pton6 (''::'' @ dotted (drop 12 bs)) = (0, bs)"
proof -
  have D: "length (drop 12 bs) = 4" "\<forall>b \<in> set (drop 12 bs). b < 256" using assms(1,2) by (auto dest: in_set_dropD)
  obtain x where "pton6_loop (dotted (drop 12 bs)) (dotted (drop 12 bs)) [] (Some 0) 0 0 = Some (drop 12 bs, Some 0, 0, x)"
    using pton6_dotted [OF D, of "[]" "Some 0"] by auto
  then have "inet_pton6 (''::'' @ dotted (drop 12 bs)) = pton6_finish (drop 12 bs, Some 0, 0, x)"
    by (intro pton6_abbreviated [of "[]"]) simp_all
  moreover have "bs = groups (words_of bs)" using groups_words_of [OF assms(1,2)] by simp
  moreover have "groups (words_of bs) = replicate 12 0 @ drop 12 bs"
    unfolding ipv4_words [OF assms] assms(3) using groups_zeros [of 6] by simp
  ultimately show ?thesis using D(1) by (simp add: pton6_finish_def)
qed

lemma pton6_mapped_ipv4:
  assumes "length bs = 16" "\<forall>b \<in> set bs. b < 256" and "words_of bs = replicate 5 0 @ [65535, v, w]"
  shows "inet_pton6 (''::'' @ print_hex 65535 @ CHR '':'' # dotted (drop 12 bs)) = (0, bs)"
proof -
  have D: "length (drop 12 bs) = 4" "\<forall>b \<in> set (drop 12 bs). b < 256" using assms(1,2) by (auto dest: in_set_dropD)
  let ?d = "dotted (drop 12 bs)"
  have ne: "?d \<noteq> []" using dotted_length(1) [OF D] by auto
  obtain x where x: "pton6_loop ?d ?d (group 65535) (Some 0) 0 0 = Some (group 65535 @ drop 12 bs, Some 0, 0, x)"
    using pton6_dotted [OF D, of "group 65535" "Some 0"] by (auto simp: group_def)
  have "pton6_loop (print_hex 65535 @ CHR '':'' # ?d) (print_hex 65535 @ CHR '':'' # ?d) [] (Some 0) 0 0
      = pton6_loop ?d ?d ([] @ group 65535) (Some 0) 0 0" by (rule pton6_group) (use ne in simp_all)
  then have "inet_pton6 (''::'' @ print_hex 65535 @ CHR '':'' # ?d) = pton6_finish (group 65535 @ drop 12 bs, Some 0, 0, x)"
    using x by (intro pton6_abbreviated [of "[]"]) simp_all
  moreover have "bs = groups (words_of bs)" using groups_words_of [OF assms(1,2)] by simp
  moreover have "words_of bs = (replicate 5 0 @ [65535]) @ [v, w]" using assms(3) by simp
  then have "drop 12 bs = groups [v, w]" by (rule ipv4_words [OF assms(1,2)])
  then have "groups (words_of bs) = replicate 10 0 @ group 65535 @ drop 12 bs"
    unfolding assms(3) using groups_zeros [of 5] by simp
  ultimately show ?thesis using D(1) by (simp add: pton6_finish_def group_def)
qed

lemma ntop6_ipv4:
  assumes "length bs = 16" "\<forall>b \<in> set bs. b < 256"
    and W: "words_of bs = us @ replicate (Suc l) 0 @ vs" and best: "best_run (words_of bs) = (int (length us), Suc l)"
    and v4: "k \<in> {length us + Suc l..<8}" "ipv4_at (words_of bs) (int (length us), Suc l) k"
  shows "\<exists>s. inet_ntop6 bs INET6_ADDRSTRLEN = Ret (0, Some s) \<and> inet_pton6 s = (0, bs)"
proof -
  let ?W = "words_of bs" and ?best = "(int (length us), Suc l)"
  have D: "length (drop 12 bs) = 4" "\<forall>b \<in> set (drop 12 bs). b < 256" using assms(1,2) by (auto dest: in_set_dropD)
  have us: "us = []" and at: "ipv4_at ?W ?best 6" and l: "Suc l = 6 \<or> Suc l = 5 \<and> ?W ! 5 = 65535"
    using v4 by (auto simp: ipv4_at_def)
  have bound: "\<forall>w \<in> set ?W. w < 65536" using words_of_bound [OF assms(1,2)] by blast
  have len: "Suc l + length vs = 8" using W us words_of_length [of bs] by simp
  have start: "format6 bs ?W ?best 0 ?W [] = format6 bs ?W ?best (Suc l) vs '':''"
    using format6_to_run [OF W words_of_length bound] us by (simp add: head6_def)
  from l show ?thesis
  proof
    assume l6: "Suc l = 6"
    then have "length vs = 2" using len by simp
    then obtain v w where vs: "vs = [v, w]" by (auto simp: numeral_2_eq_2 length_Suc_conv)
    let ?s = "''::'' @ dotted (drop 12 bs)"
    have "format6 bs ?W ?best 6 vs '':'' = Ret (0, '':'' @ CHR '':'' # dotted (drop 12 bs))"
      unfolding vs using us l6 by (intro format6_ipv4 [OF at _ assms(1,2)]) simp_all
    then have "format6 bs ?W (best_run ?W) 0 ?W [] = Ret (0, ?s)" using start best l6 by simp
    then have "inet_ntop6 bs INET6_ADDRSTRLEN = Ret (0, Some ?s)"
      using best us l6 dotted_length(2) [OF D] by (intro ntop6_from_format) (auto simp: INET6_ADDRSTRLEN_def)
    moreover have "inet_pton6 ?s = (0, bs)" using W us l6 vs by (intro pton6_ipv4 [OF assms(1,2)]) simp
    ultimately show ?thesis by blast
  next
    assume l5: "Suc l = 5 \<and> ?W ! 5 = 65535"
    then have "length vs = 3" using len by simp
    then obtain u v w where vs: "vs = [u, v, w]" by (auto simp: numeral_3_eq_3 length_Suc_conv)
    have "?W ! 5 = u" using W us l5 vs by (simp add: nth_append)
    then have u: "u = 65535" using l5 by simp
    let ?s = "''::'' @ print_hex 65535 @ CHR '':'' # dotted (drop 12 bs)"
    have h: "length (print_hex 65535) \<le> 4" using print_hex_length [of 65535] by simp
    have "format6 bs ?W ?best 5 ([u] @ [v, w]) '':'' = format6 bs ?W ?best (5 + length [u]) [v, w] ('':'' @ after_colons [u])"
      using us l5 u by (intro format6_after) (auto simp: outside_run_def ipv4_at_def INET6_ADDRSTRLEN_def)
    also have "\<dots> = format6 bs ?W ?best 6 [v, w] (''::'' @ print_hex 65535)" using u by (simp add: after_colons_def)
    also have "\<dots> = Ret (0, (''::'' @ print_hex 65535) @ CHR '':'' # dotted (drop 12 bs))"
      using us l5 h by (intro format6_ipv4 [OF at _ assms(1,2)]) simp_all
    finally have "format6 bs ?W (best_run ?W) 0 ?W [] = Ret (0, ?s)" using start best l5 vs by simp
    then have "inet_ntop6 bs INET6_ADDRSTRLEN = Ret (0, Some ?s)"
      using best us l5 h dotted_length(2) [OF D] by (intro ntop6_from_format) (auto simp: INET6_ADDRSTRLEN_def)
    moreover have "words_of bs = replicate 5 0 @ [65535, v, w]" using W us l5 vs u by simp
    ultimately show ?thesis using pton6_mapped_ipv4 [OF assms(1,2)] by blast
  qed
qed

text \<open>C39: Every IPv6 address is printed into its buffer of 46 characters without an overrun, and reading the text gives the
  same 16 bytes; this covers the abbreviation of the longest run of zero words and the dotted form of the addresses
  that embed an IPv4 address.\<close>

theorem ipv6_text_round_trip:
  assumes "length bs = 16" and "\<forall>b \<in> set bs. b < 256"
  shows "\<exists>s. inet_ntop6 bs INET6_ADDRSTRLEN = Ret (0, Some s) \<and> inet_pton6 s = (0, bs)"
proof -
  have bound: "\<forall>w \<in> set (words_of bs). w < 65536" using words_of_bound [OF assms] by blast
  obtain b l where bl: "best_run (words_of bs) = (b, l)" by force
  from best_run_ok [OF bl] show ?thesis
  proof (elim disjE exE conjE)
    assume "b = -1"
    then show ?thesis using ntop6_plain [OF bound] bl pton6_plain [OF words_of_length bound] groups_words_of [OF assms] by simp
  next
    fix n us vs assume r: "b = int n" "2 \<le> l" "length us = n" "words_of bs = us @ replicate l 0 @ vs"
    then obtain k where k: "l = Suc k" by (cases l) auto
    have W: "words_of bs = us @ replicate (Suc k) 0 @ vs" and best: "best_run (words_of bs) = (int (length us), Suc k)"
      using r bl k by simp_all
    show ?thesis
    proof (cases "\<exists>j \<in> {length us + Suc k..<8}. ipv4_at (words_of bs) (int (length us), Suc k) j")
      case True
      then show ?thesis using ntop6_ipv4 [OF assms W best] by blast
    next
      case False
      then show ?thesis using ntop6_run [OF W bound best] pton6_run [OF W words_of_length bound] groups_words_of [OF assms] by auto
    qed
  qed
qed

theorem ipv6_text_round_trip_witness:
  "\<exists>s. inet_ntop6 [32, 1, 13, 184, 0, 0, 0, 0, 0, 0, 0, 0, 0, 0, 0, 1] INET6_ADDRSTRLEN = Ret (0, Some s)
     \<and> inet_pton6 s = (0, [32, 1, 13, 184, 0, 0, 0, 0, 0, 0, 0, 0, 0, 0, 0, 1])"
  using ipv6_text_round_trip [of "[32, 1, 13, 184, 0, 0, 0, 0, 0, 0, 0, 0, 0, 0, 0, 1]"] by simp

end
